(* ===== verification/Prelude.thy ===== *)
theory Prelude
  imports Main "HOL-Library.Word"
begin

text \<open>
  Shared vocabulary of the development: the machine integers of the 32-bit target, byte
  memory, and the generic lemmas about 32-bit words and list segments that the component
  theories use. Pointers are 32-bit words (\<open>ptr\<close>) and \<open>NULL\<close> is 0; \<open>int\<close> and
  \<open>unsigned\<close> of the C sources are both \<open>u32\<close>, read with \<open>sint\<close> or \<open>unat\<close>.
\<close>

unbundle bit_operations_syntax

type_synonym u8 = "8 word"
type_synonym u16 = "16 word"
type_synonym u32 = "32 word"
type_synonym u64 = "64 word"
type_synonym ptr = "32 word"

text \<open>Byte memory: the kernel runs with every address backed, so reads are total.\<close>

type_synonym bmem = "u32 \<Rightarrow> u8"

abbreviation NULL :: ptr where
  "NULL \<equiv> 0"

named_theorems wordnat \<open>\<open>unat\<close> of word arithmetic that does not wrap\<close>
named_theorems frame \<open>facts that an update elsewhere leaves a structure alone\<close>

section \<open>Words\<close>

lemma unat_plus_nowrap [wordnat]:
  "unat a + unat b < 2 ^ 32 \<Longrightarrow> unat (a + b :: u32) = unat a + unat b"
  by (simp add: unat_word_ariths)

lemma unat_minus_nowrap [wordnat]:
  "unat b \<le> unat a \<Longrightarrow> unat (a - b :: u32) = unat a - unat b"
  by (simp add: unat_sub_if')

lemma unat_times_nowrap [wordnat]:
  "unat a * unat b < 2 ^ 32 \<Longrightarrow> unat (a * b :: u32) = unat a * unat b"
  by (simp add: unat_word_ariths)

lemma unat_u32_less: "unat (a :: u32) < 4294967296"
  using unsigned_less [of a] by simp

lemma unat_u8_less: "unat (a :: u8) < 256"
  using unsigned_less [of a] by simp

lemma unat_of_nat_u32 [wordnat]: "n < 2 ^ 32 \<Longrightarrow> unat (of_nat n :: u32) = n"
  by (simp add: unat_of_nat take_bit_nat_eq_self)

lemma unat_inc_u32: "a < b \<Longrightarrow> unat (a + 1 :: u32) = unat a + 1"
proof -
  assume "a < b"
  then have "unat a < unat b" by (simp add: word_less_nat_alt)
  with unat_u32_less [of b] show ?thesis by (simp add: unat_word_ariths)
qed

lemma of_nat_eq_u32_iff:
  "i < 2 ^ 32 \<Longrightarrow> j < 2 ^ 32 \<Longrightarrow> (of_nat i :: u32) = of_nat j \<longleftrightarrow> i = j"
  by (metis unat_of_nat_u32)

lemma offset_eq_iff:
  "i < 2 ^ 32 \<Longrightarrow> j < 2 ^ 32 \<Longrightarrow> (p + of_nat i :: u32) = p + of_nat j \<longleftrightarrow> i = j"
  by (simp add: of_nat_eq_u32_iff)

lemma unat_eqD: "unat (i :: u32) = n \<Longrightarrow> i = of_nat n"
  by auto

text \<open>An \<open>int\<close> below \<open>2 ^ 31\<close> is not negative.\<close>

lemma sint_small: "unat (w :: u32) < 2 ^ 31 \<Longrightarrow> sint w = int (unat w)"
proof -
  assume "unat w < 2 ^ 31"
  then have u: "uint w < 2 ^ 31" by (simp only: unat_eq_nat_uint nat_less_iff uint_ge_0)  (simp)
  have "- (2 ^ 31) \<le> uint w" by (rule order_trans [OF _ uint_ge_0]) simp
  then have "signed_take_bit 31 (uint w) = uint w" using u by (rule signed_take_bit_int_eq_self)
  then show ?thesis by (simp add: sint_uint)
qed

section \<open>Index loops\<close>

text \<open>The measure of a loop \<open>for (i = a; i < n; i++)\<close> over 32-bit words decreases.\<close>

lemma index_measure: "i < n \<Longrightarrow> unat n - unat (i + 1 :: u32) < unat n - unat i"
  by (simp add: unat_inc_u32 word_less_nat_alt)

end
