(* ===== verification/Memutils.thy ===== *)
theory Memutils
  imports Prelude
begin

text \<open>
  \<open>kernel/memutils.c\<close>: the kernel's byte and string routines over byte memory. Each C loop
  is a recursive function over its index or pointer; loops that look for a terminating NUL
  are \<open>partial_function (option)\<close>, so \<open>None\<close> is "runs forever". \<open>int\<close> results are HOL
  integers where they are differences of two bytes (they cannot overflow).
\<close>

section \<open>Definitions\<close>

function memcpy_loop :: "bmem \<Rightarrow> ptr \<Rightarrow> ptr \<Rightarrow> u32 \<Rightarrow> u32 \<Rightarrow> bmem" where
  "memcpy_loop m dest source n i =
     (if i < n then memcpy_loop (m(dest + i := m (source + i))) dest source n (i + 1) else m)"
  by pat_completeness auto
termination
  by (relation "measure (\<lambda>(m, d, s, n, i). unat n - unat i)") (auto simp: index_measure)

declare memcpy_loop.simps [simp del]

definition memcpy :: "bmem \<Rightarrow> ptr \<Rightarrow> ptr \<Rightarrow> u32 \<Rightarrow> bmem \<times> ptr" where
  "memcpy m dest source n = (memcpy_loop m dest source n 0, dest)"

partial_function (option) strlen_loop :: "bmem \<Rightarrow> ptr \<Rightarrow> u32 \<Rightarrow> u32 option" where
  "strlen_loop m str i = (if m (str + i) = 0 then Some i else strlen_loop m str (i + 1))"

definition strlen :: "bmem \<Rightarrow> ptr \<Rightarrow> u32 option" where
  "strlen m str = strlen_loop m str 0"

definition byte_diff :: "u8 \<Rightarrow> u8 \<Rightarrow> int" where
  "byte_diff a b = uint a - uint b"

function memcmp_loop :: "bmem \<Rightarrow> ptr \<Rightarrow> ptr \<Rightarrow> u32 \<Rightarrow> u32 \<Rightarrow> int \<Rightarrow> int" where
  "memcmp_loop m buf1 buf2 n i s =
     (if i < n then
        (let s' = s + byte_diff (m (buf1 + i)) (m (buf2 + i))
         in if s' \<noteq> 0 then s' else memcmp_loop m buf1 buf2 n (i + 1) s')
      else s)"
  by pat_completeness auto
termination
  by (relation "measure (\<lambda>(m, a, b, n, i, s). unat n - unat i)") (auto simp: index_measure)

declare memcmp_loop.simps [simp del]

definition memcmp :: "bmem \<Rightarrow> ptr \<Rightarrow> ptr \<Rightarrow> u32 \<Rightarrow> int" where
  "memcmp m buf1 buf2 n = memcmp_loop m buf1 buf2 n 0 0"

text \<open>\<open>strcpy\<close> copies the smaller of the two lengths, and no terminator.\<close>

definition strcpy :: "bmem \<Rightarrow> ptr \<Rightarrow> ptr \<Rightarrow> (bmem \<times> ptr) option" where
  "strcpy m str_dest str_source =
     (case strlen m str_dest of None \<Rightarrow> None | Some len1 \<Rightarrow>
      (case strlen m str_source of None \<Rightarrow> None | Some len2 \<Rightarrow>
         let len = (if len2 <s len1 then len2 else len1)
         in Some (memcpy m str_dest str_source len)))"

definition strncpy :: "bmem \<Rightarrow> ptr \<Rightarrow> ptr \<Rightarrow> u32 \<Rightarrow> bmem \<times> ptr" where
  "strncpy m str_dest str_source len = memcpy m str_dest str_source len"

partial_function (option) strcmp :: "bmem \<Rightarrow> ptr \<Rightarrow> ptr \<Rightarrow> int option" where
  "strcmp m s1 s2 =
     (let c1 = m s1; c2 = m s2 in
      if c1 = 0 then Some (byte_diff c1 c2)
      else if c1 = c2 then strcmp m (s1 + 1) (s2 + 1)
      else Some (byte_diff c1 c2))"

partial_function (option) strncmp_loop ::
  "bmem \<Rightarrow> ptr \<Rightarrow> ptr \<Rightarrow> u32 \<Rightarrow> u32 \<Rightarrow> int option" where
  "strncmp_loop m s1 s2 len counter =
     (let c1 = m s1; c2 = m s2; counter' = counter + 1 in
      if c1 = 0 then Some (byte_diff c1 c2)
      else if c1 = c2 \<and> counter' < len then strncmp_loop m (s1 + 1) (s2 + 1) len counter'
      else Some (byte_diff c1 c2))"

definition strncmp :: "bmem \<Rightarrow> ptr \<Rightarrow> ptr \<Rightarrow> u32 \<Rightarrow> int option" where
  "strncmp m p1 p2 len = strncmp_loop m p1 p2 len 0"

text \<open>The index of \<open>strstr\<close> is an \<open>int\<close>, compared as signed.\<close>

partial_function (option) strstr_loop ::
  "bmem \<Rightarrow> ptr \<Rightarrow> ptr \<Rightarrow> int \<Rightarrow> int \<Rightarrow> ptr option" where
  "strstr_loop m str substr last_i i =
     (if i \<le> last_i then
        (case strcmp m (str + of_int i) substr of None \<Rightarrow> None
         | Some r \<Rightarrow> if r = 0 then Some (str + of_int i)
                     else strstr_loop m str substr last_i (i + 1))
      else Some NULL)"

definition strstr :: "bmem \<Rightarrow> ptr \<Rightarrow> ptr \<Rightarrow> ptr option" where
  "strstr m str substr =
     (case strlen m str of None \<Rightarrow> None | Some len \<Rightarrow>
      (case strlen m substr of None \<Rightarrow> None | Some sublen \<Rightarrow>
         strstr_loop m str substr (sint len - sint sublen) 0))"

function memset_loop :: "bmem \<Rightarrow> u8 \<Rightarrow> ptr \<Rightarrow> ptr \<Rightarrow> bmem" where
  "memset_loop m n i stop = (if i < stop then memset_loop (m(i := n)) n (i + 1) stop else m)"
  by pat_completeness auto
termination
  by (relation "measure (\<lambda>(m, n, i, e). unat e - unat i)") (auto simp: index_measure)

declare memset_loop.simps [simp del]

definition memset :: "bmem \<Rightarrow> ptr \<Rightarrow> u32 \<Rightarrow> u32 \<Rightarrow> bmem \<times> ptr" where
  "memset m buf n sz = (memset_loop m (ucast n) buf (buf + sz), buf)"

function strchr_loop :: "bmem \<Rightarrow> u8 \<Rightarrow> ptr \<Rightarrow> ptr \<Rightarrow> ptr" where
  "strchr_loop m c i stop =
     (if i < stop then (if m i = c then i else strchr_loop m c (i + 1) stop) else NULL)"
  by pat_completeness auto
termination
  by (relation "measure (\<lambda>(m, c, i, e). unat e - unat i)") (auto simp: index_measure)

declare strchr_loop.simps [simp del]

definition strchr :: "bmem \<Rightarrow> ptr \<Rightarrow> u8 \<Rightarrow> ptr option" where
  "strchr m str c =
     (case strlen m str of None \<Rightarrow> None | Some len \<Rightarrow> Some (strchr_loop m c str (str + len)))"

section \<open>Strings in memory\<close>

text \<open>\<open>cstr_at m p s\<close>: the NUL-terminated string \<open>s\<close> is stored at \<open>p\<close>.\<close>

fun cstr_at :: "bmem \<Rightarrow> ptr \<Rightarrow> u8 list \<Rightarrow> bool" where
  "cstr_at m p [] = (m p = 0)"
| "cstr_at m p (c # cs) = (m p = c \<and> c \<noteq> 0 \<and> cstr_at m (p + 1) cs)"

text \<open>\<open>bytes_at m p n\<close>: the \<open>n\<close> bytes from \<open>p\<close>.\<close>

definition bytes_at :: "bmem \<Rightarrow> ptr \<Rightarrow> nat \<Rightarrow> u8 list" where
  "bytes_at m p n = map (\<lambda>i. m (p + of_nat i)) [0..<n]"

definition store_bytes :: "bmem \<Rightarrow> ptr \<Rightarrow> u8 list \<Rightarrow> bmem" where
  "store_bytes m p bs = fold (\<lambda>i m. m(p + of_nat i := bs ! i)) [0..<length bs] m"

lemma length_bytes_at [simp]: "length (bytes_at m p n) = n"
  by (simp add: bytes_at_def)

lemma bytes_at_nth [simp]: "i < n \<Longrightarrow> bytes_at m p n ! i = m (p + of_nat i)"
  by (simp add: bytes_at_def)

lemma bytes_at_0 [simp]: "bytes_at m p 0 = []"
  by (simp add: bytes_at_def)

lemma bytes_at_Suc: "bytes_at m p (Suc n) = m p # bytes_at m (p + 1) n"
  by (rule nth_equalityI) (auto simp: nth_Cons' add.assoc of_nat_diff Suc_le_eq)

section \<open>Lemmas\<close>

lemma strlen_loop_cstr:
  "cstr_at m (str + i) s \<Longrightarrow> strlen_loop m str i = Some (i + of_nat (length s))"
proof (induction s arbitrary: i)
  case Nil
  then show ?case by (simp add: strlen_loop.simps)
next
  case (Cons c cs)
  then have "cstr_at m (str + (i + 1)) cs" by (simp add: add.assoc)
  then have "strlen_loop m str (i + 1) = Some (i + 1 + of_nat (length cs))" by (rule Cons.IH)
  with Cons.prems show ?case by (subst strlen_loop.simps) (simp add: add.assoc)
qed

lemma strlen_cstr: "cstr_at m str s \<Longrightarrow> strlen m str = Some (of_nat (length s))"
  using strlen_loop_cstr [of m str 0 s] by (simp add: strlen_def)

lemma byte_diff_0 [simp]: "byte_diff a b = 0 \<longleftrightarrow> a = b"
  by (simp add: byte_diff_def word_uint_eq_iff)

lemma strcmp_cstr:
  "cstr_at m p s \<Longrightarrow> cstr_at m q t \<Longrightarrow> \<exists>r. strcmp m p q = Some r \<and> (r = 0 \<longleftrightarrow> s = t)"
proof (induction s arbitrary: p q t)
  case Nil
  then show ?case by (cases t) (auto simp: strcmp.simps)
next
  case (Cons c s)
  note sc = Cons.prems(1)
  show ?case
  proof (cases t)
    case Nil
    with Cons.prems show ?thesis by (auto simp: strcmp.simps)
  next
    case t: (Cons d u)
    show ?thesis
    proof (cases "c = d")
      case True
      with Cons.prems t have "cstr_at m (p + 1) s" "cstr_at m (q + 1) u" by auto
      from Cons.IH [OF this] obtain r
        where r: "strcmp m (p + 1) (q + 1) = Some r" "r = 0 \<longleftrightarrow> s = u" by blast
      with Cons.prems t True show ?thesis by (subst strcmp.simps) simp
    next
      case False
      with Cons.prems t show ?thesis by (auto simp: strcmp.simps)
    qed
  qed
qed

text \<open>
  \<open>memcpy\<close> copies upwards, so it is right whenever no byte it writes is read later: on
  disjoint regions, and on overlapping ones with the destination below the source.
\<close>

definition copy_safe :: "ptr \<Rightarrow> ptr \<Rightarrow> nat \<Rightarrow> bool" where
  "copy_safe dest source n \<longleftrightarrow>
     (\<forall>k<n. \<forall>j<n. k < j \<longrightarrow> dest + of_nat k \<noteq> source + of_nat j)"

lemma memcpy_loop_copied:
  assumes "copy_safe dest source (unat n)" and "i \<le> n"
  shows "(\<forall>j. unat i \<le> j \<and> j < unat n \<longrightarrow>
            memcpy_loop m dest source n i (dest + of_nat j) = m (source + of_nat j)) \<and>
         (\<forall>a. (\<forall>j. unat i \<le> j \<and> j < unat n \<longrightarrow> a \<noteq> dest + of_nat j) \<longrightarrow>
            memcpy_loop m dest source n i a = m a)"
  using assms
proof (induction m dest source n i rule: memcpy_loop.induct)
  case (1 m dest source n i)
  show ?case
  proof (cases "i < n")
    case False
    with "1.prems" have "unat i = unat n" by (simp add: word_less_nat_alt word_le_nat_alt)
    with False show ?thesis by (subst memcpy_loop.simps, subst memcpy_loop.simps) auto
  next
    case True
    define m' where "m' = m(dest + i := m (source + i))"
    let ?r = "memcpy_loop m' dest source n (i + 1)"
    have ui: "unat (i + 1) = unat i + 1" using True by (rule unat_inc_u32)
    have n32: "unat n < 2 ^ 32" using unat_u32_less [of n] by simp
    from True ui have "i + 1 \<le> n" by (simp add: word_le_nat_alt word_less_nat_alt)
    note IH = "1.IH" [OF True "1.prems"(1) this, folded m'_def, unfolded ui]
    have copied: "?r (dest + of_nat j) = m' (source + of_nat j)"
      if "unat i + 1 \<le> j" "j < unat n" for j
      using IH [THEN conjunct1] that by blast
    have frame: "?r a = m' a"
      if "\<And>j. unat i + 1 \<le> j \<Longrightarrow> j < unat n \<Longrightarrow> a \<noteq> dest + of_nat j" for a
      using IH [THEN conjunct2] that by blast
    have step: "memcpy_loop m dest source n i = ?r"
      using True unfolding m'_def by (subst memcpy_loop.simps) simp
    have "?r (dest + of_nat j) = m (source + of_nat j)" if j: "unat i \<le> j" "j < unat n" for j
    proof (cases "j = unat i")
      case True
      have "?r (dest + of_nat j) = m' (dest + of_nat j)"
      proof (rule frame)
        fix k assume "unat i + 1 \<le> k" "k < unat n"
        with True n32 j show "dest + of_nat j \<noteq> dest + of_nat k"
          by (subst offset_eq_iff) auto
      qed
      with True show ?thesis by (simp add: m'_def)
    next
      case False
      with j have "source + of_nat j \<noteq> dest + of_nat (unat i)"
        using "1.prems"(1) unfolding copy_safe_def by (metis less_trans nat_less_le)
      with False j copied [of j] show ?thesis by (simp add: m'_def)
    qed
    moreover have "?r a = m a" if a: "\<And>j. unat i \<le> j \<Longrightarrow> j < unat n \<Longrightarrow> a \<noteq> dest + of_nat j" for a
    proof -
      have "?r a = m' a" by (rule frame) (use a in auto)
      moreover have "a \<noteq> dest + of_nat (unat i)"
        by (rule a) (use True in \<open>auto simp: word_less_nat_alt\<close>)
      ultimately show ?thesis by (simp add: m'_def)
    qed
    ultimately show ?thesis by (simp add: step)
  qed
qed

lemma memcpy_copied:
  assumes "copy_safe dest source (unat n)"
  shows "bytes_at (fst (memcpy m dest source n)) dest (unat n) = bytes_at m source (unat n)"
    and "(\<And>j. j < unat n \<Longrightarrow> a \<noteq> dest + of_nat j) \<Longrightarrow> fst (memcpy m dest source n) a = m a"
  using memcpy_loop_copied [OF assms, of 0 m]
  by (auto simp: memcpy_def intro!: nth_equalityI)

end
