(* ===== verification/Memory.thy ===== *)
theory Memory
  imports Memutils
begin

text \<open>
  Little-endian 32-bit fields in byte memory, as the x86 target lays out the C structs, and
  the frame facts that relate a store to the bytes outside it. \<open>in_region a p n\<close> says that
  \<open>a\<close> is one of the \<open>n\<close> bytes from \<open>p\<close>; regions do not wrap around the address space.
\<close>

definition load32 :: "bmem \<Rightarrow> ptr \<Rightarrow> u32" where
  "load32 m p = ucast (m p) OR push_bit 8 (ucast (m (p + 1)))
     OR push_bit 16 (ucast (m (p + 2))) OR push_bit 24 (ucast (m (p + 3)))"

definition store32 :: "bmem \<Rightarrow> ptr \<Rightarrow> u32 \<Rightarrow> bmem" where
  "store32 m p v = m(p := ucast v, p + 1 := ucast (drop_bit 8 v),
     p + 2 := ucast (drop_bit 16 v), p + 3 := ucast (drop_bit 24 v))"

definition in_region :: "ptr \<Rightarrow> ptr \<Rightarrow> nat \<Rightarrow> bool" where
  "in_region a p n \<longleftrightarrow> unat p \<le> unat a \<and> unat a < unat p + n"

definition apart :: "ptr \<Rightarrow> nat \<Rightarrow> ptr \<Rightarrow> nat \<Rightarrow> bool" where
  "apart p n q k \<longleftrightarrow> unat p + n \<le> unat q \<or> unat q + k \<le> unat p"

definition same_on :: "bmem \<Rightarrow> bmem \<Rightarrow> ptr \<Rightarrow> nat \<Rightarrow> bool" where
  "same_on m m' p n \<longleftrightarrow> (\<forall>a. in_region a p n \<longrightarrow> m a = m' a)"

section \<open>Load and store\<close>

lemma bytes_of_u32:
  "ucast (ucast v :: u8) OR push_bit 8 (ucast (ucast (drop_bit 8 v) :: u8))
     OR push_bit 16 (ucast (ucast (drop_bit 16 v) :: u8))
     OR push_bit 24 (ucast (ucast (drop_bit 24 v) :: u8)) = (v :: u32)"
proof (rule bit_word_eqI)
  fix n assume "n < LENGTH(32)"
  then consider "n < 8" | "8 \<le> n" "n < 16" | "16 \<le> n" "n < 24" | "24 \<le> n" "n < 32"
    by fastforce
  then show "bit (ucast (ucast v :: u8) OR push_bit 8 (ucast (ucast (drop_bit 8 v) :: u8))
     OR push_bit 16 (ucast (ucast (drop_bit 16 v) :: u8))
     OR push_bit 24 (ucast (ucast (drop_bit 24 v) :: u8)) :: u32) n = bit v n"
    by cases (auto simp: bit_or_iff bit_push_bit_iff bit_ucast_iff bit_drop_bit_eq)
qed

lemma ptr_neq_offsets [simp]:
  "(p :: u32) + 1 \<noteq> p" "p + 2 \<noteq> p" "p + 3 \<noteq> p"
  by simp_all

lemma load32_store32 [simp]: "load32 (store32 m p v) p = v"
  by (simp add: load32_def store32_def bytes_of_u32)

lemma in_region_offset:
  "k < n \<Longrightarrow> unat p + n \<le> 2 ^ 32 \<Longrightarrow> in_region (p + of_nat k) p n"
  by (simp add: in_region_def unat_plus_nowrap unat_of_nat_u32)

lemma in_region_4:
  assumes "unat p + 4 \<le> 2 ^ 32"
  shows "in_region p p 4" "in_region (p + 1) p 4" "in_region (p + 2) p 4" "in_region (p + 3) p 4"
  using in_region_offset [of 0 4 p] in_region_offset [of 1 4 p] in_region_offset [of 2 4 p]
    in_region_offset [of 3 4 p] assms by simp_all

lemma store32_other [frame]:
  "unat p + 4 \<le> 2 ^ 32 \<Longrightarrow> \<not> in_region a p 4 \<Longrightarrow> store32 m p v a = m a"
  using in_region_4 [of p] by (auto simp: store32_def)

lemma load32_cong:
  "unat p + 4 \<le> 2 ^ 32 \<Longrightarrow> same_on m m' p 4 \<Longrightarrow> load32 m p = load32 m' p"
  using in_region_4 [of p] by (simp add: load32_def same_on_def)

lemma same_on_refl [simp]: "same_on m m p n"
  by (simp add: same_on_def)

lemma same_on_trans: "same_on m m' p n \<Longrightarrow> same_on m' m'' p n \<Longrightarrow> same_on m m'' p n"
  by (simp add: same_on_def)

lemma same_on_sym: "same_on m m' p n \<Longrightarrow> same_on m' m p n"
  by (simp add: same_on_def)

lemma same_on_sub:
  "same_on m m' p n \<Longrightarrow> unat p \<le> unat q \<Longrightarrow> unat q + k \<le> unat p + n \<Longrightarrow> same_on m m' q k"
  by (auto simp: same_on_def in_region_def)

lemma apart_sym: "apart p n q k \<longleftrightarrow> apart q k p n"
  by (auto simp: apart_def)

lemma apart_not_in: "apart p n q k \<Longrightarrow> in_region a q k \<Longrightarrow> \<not> in_region a p n"
  by (auto simp: apart_def in_region_def)

lemma same_on_store32 [frame]:
  "unat p + 4 \<le> 2 ^ 32 \<Longrightarrow> apart p 4 q k \<Longrightarrow> same_on m (store32 m p v) q k"
  by (auto simp: same_on_def store32_other apart_not_in)

lemma load32_store32_apart [frame]:
  "unat p + 4 \<le> 2 ^ 32 \<Longrightarrow> unat q + 4 \<le> 2 ^ 32 \<Longrightarrow> apart p 4 q 4 \<Longrightarrow>
     load32 (store32 m p v) q = load32 m q"
  by (rule load32_cong [symmetric]) (auto intro: same_on_store32)

lemma same_on_fun_upd [frame]: "apart p 1 q k \<Longrightarrow> same_on m (m(p := v)) q k"
  by (auto simp: same_on_def apart_def in_region_def)

lemma apart_offsets:
  assumes "unat (p :: u32) + n \<le> unat q \<or> unat q + k \<le> unat p" "unat p + n \<le> 2 ^ 32" "unat q + k \<le> 2 ^ 32" "i < n" "j < k"
  shows "p + of_nat i \<noteq> q + of_nat j"
  using assms apart_not_in [of p n q k "q + of_nat j"] in_region_offset [of i n p] in_region_offset [of j k q] by (auto simp: apart_def)

end
