(* ===== verification/Heap.thy ===== *)
theory Heap
  imports Memory
begin

text \<open>
  \<open>kernel/heap.c\<close> and \<open>kernel/heap.h\<close>: the first-fit allocator, over byte memory. The block
  headers live in the memory they manage, so a header write can hit payload bytes exactly
  as in the code, and a header read through \<open>NULL\<close> reads the bytes at address 0. The pointer
  loops are \<open>partial_function (option)\<close>: \<open>None\<close> is a call that does not return (a cyclic
  list, or the division trap of \<open>calloc\<close>). The block list of a well-formed heap is the list
  of (address, size, free) triples \<open>bs\<close> of \<open>heap_rep\<close>; every operation is related to a list
  function on it.
\<close>

section \<open>Data\<close>

record BlockHeader =
  bh_size :: u32
  bh_free :: u8
  bh_prev :: ptr
  bh_next :: ptr

record heap_state =
  heap :: ptr
  heap_size :: u32
  first_entry :: ptr
  mem :: bmem

text \<open>\<open>sizeof(BlockHeader)\<close>: fields at offsets 0, 4, 8, 12.\<close>

abbreviation sizeof_BlockHeader :: u32 where
  "sizeof_BlockHeader \<equiv> 16"

definition hdr :: "bmem \<Rightarrow> ptr \<Rightarrow> BlockHeader" where
  "hdr m p = \<lparr>bh_size = load32 m p, bh_free = m (p + 4),
              bh_prev = load32 m (p + 8), bh_next = load32 m (p + 12)\<rparr>"

definition set_size :: "bmem \<Rightarrow> ptr \<Rightarrow> u32 \<Rightarrow> bmem" where
  "set_size m p v = store32 m p v"

definition set_free :: "bmem \<Rightarrow> ptr \<Rightarrow> u8 \<Rightarrow> bmem" where
  "set_free m p v = m(p + 4 := v)"

definition set_prev :: "bmem \<Rightarrow> ptr \<Rightarrow> ptr \<Rightarrow> bmem" where
  "set_prev m p v = store32 m (p + 8) v"

definition set_next :: "bmem \<Rightarrow> ptr \<Rightarrow> ptr \<Rightarrow> bmem" where
  "set_next m p v = store32 m (p + 12) v"

section \<open>Operations\<close>

definition init_heap :: "'a heap_state_scheme \<Rightarrow> ptr \<Rightarrow> u32 \<Rightarrow> 'a heap_state_scheme" where
  "init_heap s buffer n =
     (let m1 = set_size (mem s) buffer (n - sizeof_BlockHeader);
          m2 = set_free m1 buffer 1;
          m3 = set_next m2 buffer NULL;
          m4 = set_prev m3 buffer NULL
      in s\<lparr>heap := buffer, heap_size := n, first_entry := buffer, mem := m4\<rparr>)"

definition heap_split :: "bmem \<Rightarrow> ptr \<Rightarrow> u32 \<Rightarrow> bmem" where
  "heap_split m entry n =
     (let total_size = bh_size (hdr m entry);
          size2 = total_size - n - sizeof_BlockHeader;
          old_next = bh_next (hdr m entry);
          m1 = set_size m entry n;
          m2 = set_next m1 entry (entry + sizeof_BlockHeader + n);
          nxt = bh_next (hdr m2 entry);
          m3 = set_size m2 nxt size2;
          m4 = set_free m3 nxt 1;
          m5 = set_prev m4 nxt entry
      in set_next m5 nxt old_next)"

definition heap_merge :: "bmem \<Rightarrow> ptr \<Rightarrow> char \<Rightarrow> bmem \<times> ptr" where
  "heap_merge m entry direction =
     (if direction = CHR ''p'' then
        (let entry2 = bh_prev (hdr m entry);
             m1 = set_size m entry2 (bh_size (hdr m entry2) + (bh_size (hdr m entry) + sizeof_BlockHeader));
             m2 = set_next m1 entry2 (bh_next (hdr m1 entry));
             m3 = set_prev m2 (bh_next (hdr m2 entry2)) entry2
         in (m3, entry2))
      else if direction = CHR ''n'' then
        (let entry2 = bh_next (hdr m entry);
             m1 = set_size m entry (bh_size (hdr m entry) + (bh_size (hdr m entry2) + sizeof_BlockHeader));
             m2 = set_next m1 entry (bh_next (hdr m1 entry2));
             m3 = set_prev m2 (bh_next (hdr m2 entry)) entry
         in (m3, entry))
      else (m, NULL))"

partial_function (option) malloc_loop :: "bmem \<Rightarrow> u32 \<Rightarrow> ptr \<Rightarrow> (bmem \<times> ptr) option" where
  "malloc_loop m n current =
     (if current = NULL then Some (m, NULL)
      else if bh_free (hdr m current) = 0 then malloc_loop m n (bh_next (hdr m current))
      else if bh_size (hdr m current) < n then malloc_loop m n (bh_next (hdr m current))
      else if (n + sizeof_BlockHeader) * 2 < bh_size (hdr m current) then
        Some (set_free (heap_split m current n) current 0, current + sizeof_BlockHeader)
      else Some (set_free m current 0, current + sizeof_BlockHeader))"

definition malloc :: "'a heap_state_scheme \<Rightarrow> u32 \<Rightarrow> ('a heap_state_scheme \<times> ptr) option" where
  "malloc s n =
     (if n = 0 then Some (s, NULL)
      else map_option (\<lambda>(m, p). (s\<lparr>mem := m\<rparr>, p)) (malloc_loop (mem s) n (first_entry s)))"

partial_function (option) malloc_aligned_loop ::
  "bmem \<Rightarrow> u32 \<Rightarrow> u32 \<Rightarrow> ptr \<Rightarrow> (bmem \<times> ptr) option" where
  "malloc_aligned_loop m n alignment current =
     (if current = NULL then Some (m, NULL)
      else if bh_free (hdr m current) = 0 then malloc_aligned_loop m n alignment (bh_next (hdr m current))
      else if bh_size (hdr m current) < n then malloc_aligned_loop m n alignment (bh_next (hdr m current))
      else
        let block_start = current + sizeof_BlockHeader;
            aligned_start = (block_start + alignment - 1) AND NOT (alignment - 1);
            padding = aligned_start - block_start
        in if bh_size (hdr m current) < n + padding then
             malloc_aligned_loop m n alignment (bh_next (hdr m current))
           else if padding < sizeof_BlockHeader then
             malloc_aligned_loop m n alignment (bh_next (hdr m current))
           else
             let (m1, cur1) =
                   (if sizeof_BlockHeader < padding
                    then let m' = heap_split m current (padding - sizeof_BlockHeader)
                         in (m', bh_next (hdr m' current))
                    else (m, current))
             in if (n + sizeof_BlockHeader) * 2 < bh_size (hdr m1 cur1) then
                  Some (set_free (heap_split m1 cur1 n) cur1 0, cur1 + sizeof_BlockHeader)
                else Some (set_free m1 cur1 0, cur1 + sizeof_BlockHeader))"

definition malloc_aligned :: "'a heap_state_scheme \<Rightarrow> u32 \<Rightarrow> u32 \<Rightarrow> ('a heap_state_scheme \<times> ptr) option" where
  "malloc_aligned s n alignment =
     (if n = 0 then Some (s, NULL)
      else map_option (\<lambda>(m, p). (s\<lparr>mem := m\<rparr>, p))
             (malloc_aligned_loop (mem s) n alignment (first_entry s)))"

text \<open>\<open>UINT32_MAX / size\<close> traps for \<open>size = 0\<close>; the memory is not cleared.\<close>

definition calloc :: "'a heap_state_scheme \<Rightarrow> u32 \<Rightarrow> u32 \<Rightarrow> ('a heap_state_scheme \<times> ptr) option" where
  "calloc s n sz =
     (if sz = 0 then None
      else if 0xFFFFFFFF div sz < n then Some (s, NULL)
      else malloc s (n * sz))"

partial_function (option) free_prev_loop :: "bmem \<Rightarrow> ptr \<Rightarrow> (bmem \<times> ptr) option" where
  "free_prev_loop m entry =
     (if bh_prev (hdr m entry) \<noteq> NULL \<and> bh_free (hdr m (bh_prev (hdr m entry))) = 1
      then case heap_merge m entry CHR ''p'' of (m', entry') \<Rightarrow> free_prev_loop m' entry'
      else Some (m, entry))"

partial_function (option) free_next_loop :: "bmem \<Rightarrow> ptr \<Rightarrow> (bmem \<times> ptr) option" where
  "free_next_loop m entry =
     (if bh_next (hdr m entry) \<noteq> NULL \<and> bh_free (hdr m (bh_next (hdr m entry))) = 1
      then case heap_merge m entry CHR ''n'' of (m', entry') \<Rightarrow> free_next_loop m' entry'
      else Some (m, entry))"

definition free :: "'a heap_state_scheme \<Rightarrow> ptr \<Rightarrow> 'a heap_state_scheme option" where
  "free s p =
     (if p = NULL then Some s
      else
        let entry = p - sizeof_BlockHeader
        in case free_prev_loop (set_free (mem s) entry 1) entry of None \<Rightarrow> None
           | Some (m1, entry1) \<Rightarrow>
             (case free_next_loop m1 entry1 of None \<Rightarrow> None
              | Some (m2, _) \<Rightarrow> Some (s\<lparr>mem := m2\<rparr>)))"

text \<open>The tail of \<open>realloc\<close>: a new block, the old payload copied, the old block freed.\<close>

definition realloc_move :: "'a heap_state_scheme \<Rightarrow> ptr \<Rightarrow> u32 \<Rightarrow> ('a heap_state_scheme \<times> ptr) option" where
  "realloc_move s p n =
     (case malloc s n of None \<Rightarrow> None
      | Some (s1, new_ptr) \<Rightarrow>
          if new_ptr = NULL then Some (s1, NULL)
          else
            let entry = p - sizeof_BlockHeader;
                m2 = fst (memcpy (mem s1) new_ptr p (bh_size (hdr (mem s1) entry)))
            in (case free (s1\<lparr>mem := m2\<rparr>) p of None \<Rightarrow> None
                | Some s3 \<Rightarrow> Some (s3, new_ptr)))"

definition realloc :: "'a heap_state_scheme \<Rightarrow> ptr \<Rightarrow> u32 \<Rightarrow> ('a heap_state_scheme \<times> ptr) option" where
  "realloc s p n =
    (let m = mem s; entry = p - sizeof_BlockHeader; h = hdr m entry in
     if n \<le>s bh_size h - sizeof_BlockHeader * 2 then
       let m1 = heap_split m entry n; nxt = bh_next (hdr m1 entry)
       in if nxt \<noteq> NULL \<and> bh_next (hdr m1 nxt) \<noteq> NULL \<and>
             bh_free (hdr m1 nxt) = 1 \<and> bh_free (hdr m1 (bh_next (hdr m1 nxt))) = 1
          then Some (s\<lparr>mem := fst (heap_merge m1 nxt CHR ''n'')\<rparr>, entry + sizeof_BlockHeader)
          else Some (s\<lparr>mem := m1\<rparr>, entry + sizeof_BlockHeader)
     else if n \<le> bh_size h then Some (s, entry + sizeof_BlockHeader)
     else
       let next_free = (bh_next h \<noteq> NULL \<and> bh_free (hdr m (bh_next h)) = 1);
           prev_free = (bh_prev h \<noteq> NULL \<and> bh_free (hdr m (bh_prev h)) = 1);
           next_size = bh_size (hdr m (bh_next h));
           prev_size = bh_size (hdr m (bh_prev h))
       in if next_free \<and> n < bh_size h + next_size + sizeof_BlockHeader then
            let (m1, e1) = heap_merge m entry CHR ''n''
            in Some (s\<lparr>mem := heap_split m1 e1 n\<rparr>, e1 + sizeof_BlockHeader)
          else if next_free \<and> prev_free \<and>
                  n < bh_size h + next_size + prev_size + sizeof_BlockHeader * 2 then
            let (m1, e1) = heap_merge m entry CHR ''n'';
                (m2, e2) = heap_merge m1 e1 CHR ''p'';
                m3 = set_free (heap_split m2 e2 n) e2 0
            in Some (s\<lparr>mem := fst (memcpy m3 (e2 + sizeof_BlockHeader) p (bh_size h))\<rparr>,
                     e2 + sizeof_BlockHeader)
          else if prev_free \<and> n < bh_size h + prev_size + sizeof_BlockHeader then
            let (m1, e1) = heap_merge m entry CHR ''p'';
                m2 = set_free (heap_split m1 e1 n) e1 0
            in Some (s\<lparr>mem := fst (memcpy m2 (e1 + sizeof_BlockHeader) p (bh_size h))\<rparr>,
                     e1 + sizeof_BlockHeader)
          else realloc_move s p n)"

text \<open>What \<open>dump_heap\<close> prints: one (address, size, free) entry per block, in order.\<close>

partial_function (option) dump_heap_loop ::
  "bmem \<Rightarrow> ptr \<Rightarrow> (ptr \<times> u32 \<times> u8) list \<Rightarrow> (ptr \<times> u32 \<times> u8) list option" where
  "dump_heap_loop m current out =
     (if current = NULL then Some out
      else dump_heap_loop m (bh_next (hdr m current))
             (out @ [(current, bh_size (hdr m current), bh_free (hdr m current))]))"

definition dump_heap :: "'a heap_state_scheme \<Rightarrow> (ptr \<times> u32 \<times> u8) list option" where
  "dump_heap s = dump_heap_loop (mem s) (first_entry s) []"

section \<open>Headers in memory\<close>

text \<open>A header occupies 16 bytes; two headers are \<open>clear\<close> of each other when these do not overlap.\<close>

definition hdr_ok :: "ptr \<Rightarrow> bool" where
  "hdr_ok p \<longleftrightarrow> unat p + 16 \<le> 2 ^ 32"

lemma unat_field [wordnat]:
  assumes "hdr_ok p"
  shows "unat (p + 4) = unat p + 4" "unat (p + 8) = unat p + 8" "unat (p + 12) = unat p + 12"
  using assms by (simp_all add: hdr_ok_def unat_word_ariths)

lemma hdr_cong: "hdr_ok p \<Longrightarrow> same_on m m' p 16 \<Longrightarrow> hdr m p = hdr m' p"
  by (auto simp: hdr_def unat_field hdr_ok_def same_on_def in_region_def
      intro!: load32_cong)

lemma setter_frame [frame]:
  assumes "hdr_ok p" and "apart p 16 q k"
  shows "same_on m (set_size m p v) q k" "same_on m (set_free m p b) q k"
    "same_on m (set_prev m p v) q k" "same_on m (set_next m p v) q k"
  using assms
  by (auto simp: set_size_def set_free_def set_prev_def set_next_def unat_field hdr_ok_def apart_def
      intro!: same_on_store32 same_on_fun_upd)

lemma hdr_setter [simp]:
  assumes "hdr_ok p"
  shows "hdr (set_size m p v) p = (hdr m p)\<lparr>bh_size := v\<rparr>"
    "hdr (set_free m p b) p = (hdr m p)\<lparr>bh_free := b\<rparr>"
    "hdr (set_prev m p v) p = (hdr m p)\<lparr>bh_prev := v\<rparr>"
    "hdr (set_next m p v) p = (hdr m p)\<lparr>bh_next := v\<rparr>"
  using assms
  by (auto simp: hdr_def set_size_def set_free_def set_prev_def set_next_def hdr_ok_def
      load32_store32_apart unat_field apart_def in_region_def store32_other
      intro!: load32_cong same_on_sym [OF same_on_fun_upd])

lemma hdr_setter_other [simp]:
  assumes "hdr_ok p" "hdr_ok q" "apart p 16 q 16"
  shows "hdr (set_size m p v) q = hdr m q" "hdr (set_free m p b) q = hdr m q"
    "hdr (set_prev m p v) q = hdr m q" "hdr (set_next m p v) q = hdr m q"
  using assms by (auto intro!: hdr_cong [symmetric] setter_frame)

text \<open>\<open>only_at m m' P\<close>: every byte that differs satisfies \<open>P\<close>.\<close>

definition only_at :: "bmem \<Rightarrow> bmem \<Rightarrow> (ptr \<Rightarrow> bool) \<Rightarrow> bool" where
  "only_at m m' P \<longleftrightarrow> (\<forall>x. m' x \<noteq> m x \<longrightarrow> P x)"

lemma only_at_trans: "only_at m m' P \<Longrightarrow> only_at m' m'' P \<Longrightarrow> only_at m m'' P"
  unfolding only_at_def by metis

lemma only_at_mono: "only_at m m' P \<Longrightarrow> (\<And>x. P x \<Longrightarrow> Q x) \<Longrightarrow> only_at m m' Q"
  unfolding only_at_def by metis

lemma only_at_refl [simp]: "only_at m m P"
  by (simp add: only_at_def)

lemma only_at_same_on:
  "only_at m m' P \<Longrightarrow> (\<And>x. in_region x q k \<Longrightarrow> \<not> P x) \<Longrightarrow> same_on m m' q k"
  unfolding only_at_def same_on_def by metis

lemma only_at_store32:
  "unat p + 4 \<le> 2 ^ 32 \<Longrightarrow> (\<And>x. in_region x p 4 \<Longrightarrow> P x) \<Longrightarrow> only_at m (store32 m p v) P"
  using store32_other [of p _ m v] unfolding only_at_def by blast

lemma only_at_setter:
  assumes ok: "hdr_ok p" and P: "\<And>x. in_region x p 16 \<Longrightarrow> P x"
  shows "only_at m (set_size m p v) P" "only_at m (set_free m p b) P"
    "only_at m (set_prev m p v) P" "only_at m (set_next m p v) P"
proof -
  have "P (p + 4)" by (rule P) (use ok in \<open>simp add: in_region_def unat_field\<close>)
  then show "only_at m (set_free m p b) P" by (simp add: only_at_def set_free_def)
  show "only_at m (set_size m p v) P" "only_at m (set_prev m p v) P" "only_at m (set_next m p v) P"
    unfolding set_size_def set_prev_def set_next_def
    by (rule only_at_store32; use ok unat_field [OF ok] in \<open>auto simp: hdr_ok_def in_region_def intro!: P\<close>)+
qed

text \<open>The same behind a sequence of writes: syntax-directed, for use with \<open>rule\<close>.\<close>

lemma only_at_then_setter:
  assumes "only_at m m' P" "hdr_ok p" "\<And>x. in_region x p 16 \<Longrightarrow> P x"
  shows "only_at m (set_size m' p v) P" "only_at m (set_free m' p b) P"
    "only_at m (set_prev m' p v) P" "only_at m (set_next m' p v) P"
  by (rule only_at_trans [OF assms(1)], rule only_at_setter, rule assms(2), erule assms(3))+

lemma heap_split_hdrs:
  assumes "unat p + unat n + 32 \<le> 2 ^ 32"
  defines "q \<equiv> p + 16 + n"
  shows "hdr (heap_split m p n) p = (hdr m p)\<lparr>bh_size := n, bh_next := q\<rparr>"
    and "hdr (heap_split m p n) q =
           \<lparr>bh_size = bh_size (hdr m p) - n - 16, bh_free = 1, bh_prev = p, bh_next = bh_next (hdr m p)\<rparr>"
    and "only_at m (heap_split m p n) (\<lambda>x. in_region x p 16 \<or> in_region x q 16)"
proof -
  have uq: "unat q = unat p + unat n + 16"
    using assms(1) unfolding q_def by (simp add: unat_word_ariths)
  have ok: "hdr_ok p" "hdr_ok q" "apart p 16 q 16" "apart q 16 p 16"
    using assms(1) uq by (auto simp: hdr_ok_def apart_def)
  show "hdr (heap_split m p n) p = (hdr m p)\<lparr>bh_size := n, bh_next := q\<rparr>"
    using ok by (simp add: heap_split_def Let_def q_def)
  show "hdr (heap_split m p n) q =
           \<lparr>bh_size = bh_size (hdr m p) - n - 16, bh_free = 1, bh_prev = p, bh_next = bh_next (hdr m p)\<rparr>"
    using ok by (simp add: heap_split_def Let_def q_def)
  show "only_at m (heap_split m p n) (\<lambda>x. in_region x p 16 \<or> in_region x q 16)"
    unfolding heap_split_def Let_def
    by (rule only_at_then_setter only_at_refl)+ (use ok in \<open>auto simp: q_def\<close>)
qed

lemma heap_merge_next_hdrs:
  assumes "hdr_ok p" "hdr_ok q" "hdr_ok r" "apart p 16 q 16" "apart p 16 r 16" "bh_next (hdr m p) = q"
    "bh_next (hdr m q) = r"
  defines "m' \<equiv> fst (heap_merge m p CHR ''n'')"
  shows "heap_merge m p CHR ''n'' = (m', p)"
    and "hdr m' p = (hdr m p)\<lparr>bh_size := bh_size (hdr m p) + (bh_size (hdr m q) + 16), bh_next := r\<rparr>"
    and "hdr m' r = (hdr m r)\<lparr>bh_prev := p\<rparr>"
    and "only_at m m' (\<lambda>x. in_region x p 16 \<or> in_region x r 16)"
proof -
  have sym: "apart r 16 p 16" using assms(5) by (simp add: apart_sym)
  have m': "m' = set_prev (set_next (set_size m p (bh_size (hdr m p) + (bh_size (hdr m q) + 16))) p r) r p"
    using assms(1-7) by (simp add: m'_def heap_merge_def Let_def)
  show "heap_merge m p CHR ''n'' = (m', p)"
    by (simp add: m'_def heap_merge_def Let_def)
  show "hdr m' p = (hdr m p)\<lparr>bh_size := bh_size (hdr m p) + (bh_size (hdr m q) + 16), bh_next := r\<rparr>"
    using assms(1-7) sym by (simp add: m')
  show "hdr m' r = (hdr m r)\<lparr>bh_prev := p\<rparr>"
    using assms(1-7) sym by (simp add: m')
  show "only_at m m' (\<lambda>x. in_region x p 16 \<or> in_region x r 16)"
    unfolding m' by (rule only_at_then_setter only_at_refl)+ (use assms in auto)
qed

lemma heap_merge_prev_hdrs:
  assumes "hdr_ok p" "hdr_ok q" "hdr_ok r" "apart q 16 p 16" "apart q 16 r 16" "bh_prev (hdr m p) = q"
    "bh_next (hdr m p) = r"
  defines "m' \<equiv> fst (heap_merge m p CHR ''p'')"
  shows "heap_merge m p CHR ''p'' = (m', q)"
    and "hdr m' q = (hdr m q)\<lparr>bh_size := bh_size (hdr m q) + (bh_size (hdr m p) + 16), bh_next := r\<rparr>"
    and "hdr m' r = (hdr m r)\<lparr>bh_prev := q\<rparr>"
    and "only_at m m' (\<lambda>x. in_region x q 16 \<or> in_region x r 16)"
proof -
  have sym: "apart r 16 q 16" using assms(5) by (simp add: apart_sym)
  have m': "m' = set_prev (set_next (set_size m q (bh_size (hdr m q) + (bh_size (hdr m p) + 16))) q r) r q"
    using assms(1-7) by (simp add: m'_def heap_merge_def Let_def)
  show "heap_merge m p CHR ''p'' = (m', q)"
    using assms(6) by (simp add: m'_def heap_merge_def Let_def)
  show "hdr m' q = (hdr m q)\<lparr>bh_size := bh_size (hdr m q) + (bh_size (hdr m p) + 16), bh_next := r\<rparr>"
    using assms(1-7) sym by (simp add: m')
  show "hdr m' r = (hdr m r)\<lparr>bh_prev := q\<rparr>"
    using assms(1-7) sym by (simp add: m')
  show "only_at m m' (\<lambda>x. in_region x q 16 \<or> in_region x r 16)"
    unfolding m' by (rule only_at_then_setter only_at_refl)+ (use assms in auto)
qed

section \<open>The block list\<close>

text \<open>
  A block is its header address, payload size and free flag. \<open>seg m p bs q\<close>: following
  \<open>next\<close> from \<open>p\<close> visits exactly \<open>bs\<close> and ends at \<open>q\<close>. \<open>dseg m prv p bs q\<close>: also the
  \<open>prev\<close> links are those of a doubly linked list whose first block has \<open>prev = prv\<close>.
  \<open>contiguous a bs e\<close>: the blocks tile the addresses from \<open>a\<close> up to \<open>e\<close>.
\<close>

type_synonym blk = "ptr \<times> u32 \<times> bool"

definition flag_byte :: "bool \<Rightarrow> u8" where
  "flag_byte f = (if f then 1 else 0)"

lemma flag_byte_simps [simp]:
  "flag_byte f = 0 \<longleftrightarrow> \<not> f" "flag_byte f = 1 \<longleftrightarrow> f" "flag_byte True = 1" "flag_byte False = 0"
  by (auto simp: flag_byte_def)

fun seg :: "bmem \<Rightarrow> ptr \<Rightarrow> blk list \<Rightarrow> ptr \<Rightarrow> bool" where
  "seg m p [] q = (p = q)"
| "seg m p ((a, k, f) # bs) q =
     (p = a \<and> bh_size (hdr m a) = k \<and> bh_free (hdr m a) = flag_byte f \<and> seg m (bh_next (hdr m a)) bs q)"

fun dseg :: "bmem \<Rightarrow> ptr \<Rightarrow> ptr \<Rightarrow> blk list \<Rightarrow> ptr \<Rightarrow> bool" where
  "dseg m prv p [] q = (p = q)"
| "dseg m prv p ((a, k, f) # bs) q =
     (p = a \<and> bh_size (hdr m a) = k \<and> bh_free (hdr m a) = flag_byte f \<and> bh_prev (hdr m a) = prv \<and>
      dseg m a (bh_next (hdr m a)) bs q)"

fun contiguous :: "nat \<Rightarrow> blk list \<Rightarrow> nat \<Rightarrow> bool" where
  "contiguous a [] e = (a = e)"
| "contiguous a ((p, k, f) # bs) e = (unat p = a \<and> contiguous (a + 16 + unat k) bs e)"

fun span :: "blk list \<Rightarrow> nat" where
  "span [] = 0"
| "span ((p, k, f) # bs) = 16 + unat k + span bs"

definition last_addr :: "ptr \<Rightarrow> blk list \<Rightarrow> ptr" where
  "last_addr prv bs = (if bs = [] then prv else fst (last bs))"

definition heap_rep :: "'a heap_state_scheme \<Rightarrow> blk list \<Rightarrow> bool" where
  "heap_rep s bs \<longleftrightarrow>
     seg (mem s) (first_entry s) bs NULL \<and>
     contiguous (unat (heap s)) bs (unat (heap s) + unat (heap_size s)) \<and> bs \<noteq> [] \<and>
     16 \<le> unat (heap s) \<and> unat (heap s) + unat (heap_size s) \<le> 2 ^ 32 \<and> unat (heap_size s) \<le> 2 ^ 30"

definition heap_linked :: "'a heap_state_scheme \<Rightarrow> blk list \<Rightarrow> bool" where
  "heap_linked s bs \<longleftrightarrow> heap_rep s bs \<and> dseg (mem s) NULL (first_entry s) bs NULL"

lemma last_addr_simps [simp]:
  "last_addr prv [] = prv" "last_addr prv (b # bs) = last_addr (fst b) bs"
  "last_addr prv (bs @ [b]) = fst b" "last_addr prv (xs @ ys) = last_addr (last_addr prv xs) ys"
  by (auto simp: last_addr_def)

lemma dseg_seg: "dseg m prv p bs q \<Longrightarrow> seg m p bs q"
  by (induction m prv p bs q rule: dseg.induct) auto

lemma seg_append: "seg m p (xs @ ys) q \<longleftrightarrow> (\<exists>r. seg m p xs r \<and> seg m r ys q)"
  by (induction xs arbitrary: p) auto

lemma dseg_append:
  "dseg m prv p (xs @ ys) q \<longleftrightarrow> (\<exists>r. dseg m prv p xs r \<and> dseg m (last_addr prv xs) r ys q)"
  by (induction xs arbitrary: prv p) auto

lemma contiguous_span: "contiguous a bs e \<Longrightarrow> e = a + span bs"
proof (induction bs arbitrary: a rule: span.induct)
  case (2 p k f bs)
  then have "e = (a + 16 + unat k) + span bs" by (intro "2.IH") simp
  then show ?case by simp
qed simp

lemma contiguous_append:
  "contiguous a (xs @ ys) e \<longleftrightarrow> contiguous a xs (a + span xs) \<and> contiguous (a + span xs) ys e"
  by (induction xs arbitrary: a rule: span.induct) (auto simp: add.assoc)

lemma contiguous_mem:
  "contiguous a bs e \<Longrightarrow> (p, k, f) \<in> set bs \<Longrightarrow> a \<le> unat p \<and> unat p + 16 + unat k \<le> e"
proof (induction bs arbitrary: a rule: span.induct)
  case 1
  then show ?case by simp
next
  case (2 q j g bs)
  then show ?case by (fastforce dest: contiguous_span)
qed

lemma contiguous_le: "contiguous a bs e \<Longrightarrow> a \<le> e"
  using contiguous_span by fastforce

text \<open>A block list survives writes that miss its headers.\<close>

lemma seg_frame [frame]:
  "seg m p bs q \<Longrightarrow> \<forall>b\<in>set bs. hdr m' (fst b) = hdr m (fst b) \<Longrightarrow> seg m' p bs q"
  by (induction m p bs q rule: seg.induct) auto

lemma dseg_frame [frame]:
  "dseg m prv p bs q \<Longrightarrow> \<forall>b\<in>set bs. hdr m' (fst b) = hdr m (fst b) \<Longrightarrow> dseg m' prv p bs q"
  by (induction m prv p bs q rule: dseg.induct) auto

lemma contiguous_hdr_ok: "contiguous a bs e \<Longrightarrow> e \<le> 2 ^ 32 \<Longrightarrow> (p, k, f) \<in> set bs \<Longrightarrow> hdr_ok p"
  using contiguous_mem [of a bs e p k f] by (auto simp: hdr_ok_def)

lemma only_at_hdr:
  "only_at m m' P \<Longrightarrow> hdr_ok q \<Longrightarrow> (\<And>x. in_region x q 16 \<Longrightarrow> \<not> P x) \<Longrightarrow> hdr m' q = hdr m q"
  by (rule hdr_cong [symmetric]) (auto intro: only_at_same_on)

section \<open>malloc: first fit\<close>

text \<open>The specification on block lists.\<close>

fun ff_malloc :: "blk list \<Rightarrow> u32 \<Rightarrow> blk list \<times> ptr" where
  "ff_malloc [] n = ([], NULL)"
| "ff_malloc ((p, k, f) # bs) n =
     (if f \<and> n \<le> k then
        (if (n + 16) * 2 < k then ((p, n, False) # (p + 16 + n, k - n - 16, True) # bs, p + 16)
         else ((p, k, False) # bs, p + 16))
      else (case ff_malloc bs n of (bs', r) \<Rightarrow> ((p, k, f) # bs', r)))"

text \<open>\<open>in_free bs x\<close>: address \<open>x\<close> lies in a free block (header or payload) of \<open>bs\<close>.\<close>

definition in_free :: "blk list \<Rightarrow> ptr \<Rightarrow> bool" where
  "in_free bs x \<longleftrightarrow> (\<exists>(p, k, f) \<in> set bs. f \<and> in_region x p (16 + unat k))"

lemma in_free_Cons [simp]:
  "in_free ((p, k, f) # bs) x \<longleftrightarrow> f \<and> in_region x p (16 + unat k) \<or> in_free bs x"
  by (auto simp: in_free_def)

lemma in_free_bounds:
  "contiguous a bs e \<Longrightarrow> in_free bs x \<Longrightarrow> a \<le> unat x \<and> unat x < e"
proof -
  assume c: "contiguous a bs e" and "in_free bs x"
  then obtain p k where "(p, k, True) \<in> set bs" "in_region x p (16 + unat k)" by (auto simp: in_free_def)
  with contiguous_mem [OF c, of p k True] show ?thesis by (auto simp: in_region_def)
qed

lemma split_threshold:
  assumes "(n + 16) * 2 < k" "n \<le> (k :: u32)" "unat k \<le> 2 ^ 30"
  shows "unat n * 2 + 32 < unat k"
proof -
  have "unat n \<le> 2 ^ 30" using assms by (simp add: word_le_nat_alt)
  then have "unat ((n + 16) * 2) = unat n * 2 + 32" by (simp add: unat_word_ariths)
  with assms(1) show ?thesis by (simp add: word_less_nat_alt)
qed

lemma malloc_loop_refines:
  assumes "seg m cur bs NULL" "contiguous a bs e" "16 \<le> a" "e \<le> 2 ^ 32" "e - a \<le> 2 ^ 30"
  shows "\<exists>m'. malloc_loop m n cur = Some (m', snd (ff_malloc bs n)) \<and>
           seg m' cur (fst (ff_malloc bs n)) NULL \<and> only_at m m' (in_free bs)"
  using assms
proof (induction bs arbitrary: cur a)
  case Nil
  then show ?case by (simp add: malloc_loop.simps)
next
  case (Cons b bs)
  obtain p k f where b: "b = (p, k, f)" by (cases b)
  from Cons.prems b have h: "cur = p" "bh_size (hdr m p) = k" "bh_free (hdr m p) = flag_byte f"
    and rest: "seg m (bh_next (hdr m p)) bs NULL" "contiguous (a + 16 + unat k) bs e"
    and a: "unat p = a" "a + 16 + unat k \<le> e" by (auto dest: contiguous_le)
  have nz: "p \<noteq> NULL" and ok: "hdr_ok p" using Cons.prems a by (auto simp: hdr_ok_def)
  have k30: "unat k \<le> 2 ^ 30" using Cons.prems(5) a by simp
  show ?case
  proof (cases "f \<and> n \<le> k")
    case False
    have step: "malloc_loop m n cur = malloc_loop m n (bh_next (hdr m p))"
      using False h nz by (subst malloc_loop.simps) auto
    obtain m' where m': "malloc_loop m n (bh_next (hdr m p)) = Some (m', snd (ff_malloc bs n))"
        "seg m' (bh_next (hdr m p)) (fst (ff_malloc bs n)) NULL" "only_at m m' (in_free bs)"
      using Cons.IH [OF rest] Cons.prems by force
    have hp: "hdr m' p = hdr m p"
      by (rule only_at_hdr [OF m'(3) ok])
        (use in_free_bounds [OF rest(2)] a in \<open>fastforce simp: in_region_def\<close>)
    show ?thesis
    proof (intro exI conjI)
      show "malloc_loop m n cur = Some (m', snd (ff_malloc (b # bs) n))"
        using False m'(1) by (auto simp: step b split_beta)
      show "seg m' cur (fst (ff_malloc (b # bs) n)) NULL"
        using False m'(2) h hp by (auto simp: b split_beta)
      show "only_at m m' (in_free (b # bs))"
        using m'(3) by (auto simp: b intro: only_at_mono)
    qed
  next
    case fit: True
    show ?thesis
    proof (cases "(n + 16) * 2 < k")
      case True
      have sz: "unat n * 2 + 32 < unat k" using True fit k30 by (intro split_threshold) auto
      have room: "unat p + unat n + 32 \<le> 2 ^ 32" using sz a Cons.prems(4) by simp
      let ?q = "p + 16 + n"
      have uq: "unat ?q = unat p + 16 + unat n" using room by (simp add: unat_word_ariths)
      note sp = heap_split_hdrs [OF room, of m]
      let ?m' = "set_free (heap_split m p n) p 0"
      have okq: "hdr_ok ?q" "apart p 16 ?q 16" using room uq by (auto simp: hdr_ok_def apart_def)
      have at: "only_at m ?m' (\<lambda>x. in_region x p 16 \<or> in_region x ?q 16)"
        by (rule only_at_then_setter sp(3) ok disjI1)+ simp
      have hb: "hdr ?m' (fst c) = hdr m (fst c)" if "c \<in> set bs" for c
      proof -
        obtain c1 c2 c3 where c: "c = (c1, c2, c3)" by (cases c)
        with that have cm: "a + 16 + unat k \<le> unat c1" and cok: "hdr_ok c1"
          using contiguous_mem [OF rest(2)] contiguous_hdr_ok [OF rest(2) Cons.prems(4)] by blast+
        show ?thesis unfolding c fst_conv
          by (rule only_at_hdr [OF at cok]) (use cm sz a uq in \<open>auto simp: in_region_def\<close>)
      qed
      have "seg ?m' (bh_next (hdr m p)) bs NULL"
        by (rule seg_frame [OF rest(1)]) (use hb in blast)
      then have "seg ?m' cur (fst (ff_malloc (b # bs) n)) NULL"
        using fit True h sp ok okq by (simp add: b)
      moreover have "malloc_loop m n cur = Some (?m', snd (ff_malloc (b # bs) n))"
        using fit True h nz by (subst malloc_loop.simps) (auto simp: b)
      moreover have "only_at m ?m' (in_free (b # bs))"
        by (rule only_at_mono [OF at]) (use fit sz a uq in \<open>auto simp: b in_region_def\<close>)
      ultimately show ?thesis by blast
    next
      case False
      let ?m' = "set_free m p 0"
      have at: "only_at m ?m' (\<lambda>x. in_region x p 16)" by (rule only_at_setter [OF ok])
      have hb: "hdr ?m' (fst c) = hdr m (fst c)" if "c \<in> set bs" for c
      proof -
        obtain c1 c2 c3 where c: "c = (c1, c2, c3)" by (cases c)
        with that have cm: "a + 16 + unat k \<le> unat c1" and cok: "hdr_ok c1"
          using contiguous_mem [OF rest(2)] contiguous_hdr_ok [OF rest(2) Cons.prems(4)] by blast+
        show ?thesis unfolding c fst_conv
          by (rule only_at_hdr [OF at cok]) (use cm a in \<open>auto simp: in_region_def\<close>)
      qed
      have "seg ?m' (bh_next (hdr m p)) bs NULL"
        by (rule seg_frame [OF rest(1)]) (use hb in blast)
      then have "seg ?m' cur (fst (ff_malloc (b # bs) n)) NULL"
        using fit False h ok by (simp add: b)
      moreover have "malloc_loop m n cur = Some (?m', snd (ff_malloc (b # bs) n))"
        using fit False h nz by (subst malloc_loop.simps) (auto simp: b)
      moreover have "only_at m ?m' (in_free (b # bs))"
        by (rule only_at_mono [OF at]) (use fit in \<open>auto simp: b in_region_def\<close>)
      ultimately show ?thesis by blast
    qed
  qed
qed

lemma ff_malloc_contiguous:
  assumes "contiguous a bs e" "e \<le> 2 ^ 32" "e - a \<le> 2 ^ 30"
  shows "contiguous a (fst (ff_malloc bs n)) e"
  using assms
proof (induction bs n arbitrary: a rule: ff_malloc.induct)
  case (2 p k f bs n)
  then have r: "contiguous (a + 16 + unat k) bs e" and a: "unat p = a" "a + 16 + unat k \<le> e"
    by (auto dest: contiguous_le)
  show ?case
  proof (cases "f \<and> n \<le> k \<and> (n + 16) * 2 < k")
    case True
    with "2.prems" a have sz: "unat n * 2 + 32 < unat k" by (intro split_threshold) auto
    have "unat (p + 16 + n) = a + 16 + unat n"
      using sz a "2.prems"(2) by (simp add: unat_word_ariths)
    moreover have "unat (k - n - 16) = unat k - unat n - 16"
      using sz by (simp add: unat_sub_if')
    ultimately show ?thesis using True r a sz by (simp add: algebra_simps)
  next
    case False
    then show ?thesis using r a "2.IH" [OF _ r] "2.prems" by (auto simp: split_beta)
  qed
qed simp

lemma ff_malloc_nonempty: "bs \<noteq> [] \<Longrightarrow> fst (ff_malloc bs n) \<noteq> []"
  by (cases bs) (auto split: prod.splits if_splits)

lemma malloc_rep:
  assumes "heap_rep s bs" "n \<noteq> 0"
  shows "\<exists>m'. malloc s n = Some (s\<lparr>mem := m'\<rparr>, snd (ff_malloc bs n)) \<and>
           heap_rep (s\<lparr>mem := m'\<rparr>) (fst (ff_malloc bs n)) \<and> only_at (mem s) m' (in_free bs)"
proof -
  let ?a = "unat (heap s)" and ?e = "unat (heap s) + unat (heap_size s)"
  from assms(1) have r: "seg (mem s) (first_entry s) bs NULL" "contiguous ?a bs ?e" "16 \<le> ?a"
    "?e \<le> 2 ^ 32" "?e - ?a \<le> 2 ^ 30" and ne: "bs \<noteq> []" by (auto simp: heap_rep_def)
  from malloc_loop_refines [OF r, of n] obtain m'
    where m': "malloc_loop (mem s) n (first_entry s) = Some (m', snd (ff_malloc bs n))"
      "seg m' (first_entry s) (fst (ff_malloc bs n)) NULL" "only_at (mem s) m' (in_free bs)" by blast
  show ?thesis
    using m' r ff_malloc_contiguous [OF r(2,4,5), of n] ff_malloc_nonempty [OF ne, of n] assms(2)
    by (intro exI [of _ m']) (simp add: malloc_def heap_rep_def)
qed

text \<open>Which block is taken: the first free one that is large enough.\<close>

definition taken :: "ptr \<Rightarrow> u32 \<Rightarrow> u32 \<Rightarrow> blk list" where
  "taken p k n =
     (if (n + 16) * 2 < k then [(p, n, False), (p + 16 + n, k - n - 16, True)] else [(p, k, False)])"

definition fits :: "u32 \<Rightarrow> blk \<Rightarrow> bool" where
  "fits n b = (case b of (p, k, f) \<Rightarrow> f \<and> n \<le> k)"

lemma ff_malloc_none: "(\<forall>b\<in>set bs. \<not> fits n b) \<Longrightarrow> ff_malloc bs n = (bs, NULL)"
proof (induction bs n rule: ff_malloc.induct)
  case (2 p k f bs n)
  then have "\<not> (f \<and> n \<le> k)" "ff_malloc bs n = (bs, NULL)" by (simp_all add: fits_def)
  then show ?case by (simp only: ff_malloc.simps if_False prod.case)
qed simp

lemma ff_malloc_first:
  "\<forall>b\<in>set pre. \<not> fits n b \<Longrightarrow> n \<le> k \<Longrightarrow>
     ff_malloc (pre @ (p, k, True) # post) n = (pre @ taken p k n @ post, p + 16)"
proof (induction pre)
  case Nil
  then show ?case by (cases "(n + 16) * 2 < k") (simp_all add: taken_def)
next
  case (Cons b pre)
  obtain q j f where b: "b = (q, j, f)" by (cases b)
  with Cons.prems have "\<not> (f \<and> n \<le> j)" by (simp add: fits_def)
  with Cons b show ?case by (simp only: append_Cons ff_malloc.simps if_False) simp
qed

lemma first_fit_cases:
  obtains "\<forall>b\<in>set bs. \<not> fits n b"
  | pre p k post where "bs = pre @ (p, k, True) # post" "\<forall>b\<in>set pre. \<not> fits n b" "n \<le> k"
proof (cases "\<exists>b\<in>set bs. fits n b")
  case True
  then obtain pre b post where "bs = pre @ b # post" "fits n b" "\<forall>c\<in>set pre. \<not> fits n c"
    using split_list_first_prop [of bs "fits n"] by blast
  then show thesis using that(2) by (cases b) (auto simp: fits_def)
qed (use that(1) in blast)

lemma heap_rep_addr:
  assumes "heap_rep s bs" "(p, k, f) \<in> set bs"
  shows "unat (heap s) \<le> unat p" "unat p + 16 + unat k \<le> unat (heap s) + unat (heap_size s)"
    "unat p + 16 + unat k \<le> 2 ^ 32" "16 \<le> unat p" "unat k < 2 ^ 30"
proof -
  have c: "contiguous (unat (heap s)) bs (unat (heap s) + unat (heap_size s))"
    and b: "16 \<le> unat (heap s)" "unat (heap s) + unat (heap_size s) \<le> 2 ^ 32"
      "unat (heap_size s) \<le> 2 ^ 30" using assms(1) by (auto simp: heap_rep_def)
  note m = contiguous_mem [OF c assms(2)]
  show "unat (heap s) \<le> unat p" "unat p + 16 + unat k \<le> unat (heap s) + unat (heap_size s)"
    using m by auto
  show "unat p + 16 + unat k \<le> 2 ^ 32" "16 \<le> unat p" "unat k < 2 ^ 30"
    using m b by linarith+
qed

lemma payload_addr:
  assumes "heap_rep s bs" "(p, k, f) \<in> set bs" "0 < k"
  shows "unat (p + 16) = unat p + 16" "p + 16 \<noteq> NULL"
proof -
  have "0 < unat k" using assms(3) by (simp add: word_less_nat_alt)
  with heap_rep_addr(3) [OF assms(1,2)] show u: "unat (p + 16) = unat p + 16"
    by (simp add: unat_word_ariths)
  show "p + 16 \<noteq> NULL"
  proof
    assume "p + 16 = NULL"
    with u show False by simp
  qed
qed

lemma contiguous_apart:
  assumes "contiguous a (xs @ (p, k, f) # ys) e" "(q, j, g) \<in> set xs \<union> set ys"
  shows "apart p (16 + unat k) q (16 + unat j)"
proof -
  have c: "contiguous a xs (a + span xs)" "unat p = a + span xs"
    "contiguous (a + span xs + 16 + unat k) ys e"
    using assms(1) by (auto simp: contiguous_append)
  from assms(2) show ?thesis
    using contiguous_mem [OF c(1), of q j g] contiguous_mem [OF c(3), of q j g] c(2)
    by (auto simp: apart_def)
qed

section \<open>free: coalescing\<close>

text \<open>
  The specification of \<open>free\<close>: the freed block absorbs the free blocks before it (\<open>rs\<close>
  is the prefix reversed) and then the free blocks after it.
\<close>

fun absorb_prev :: "ptr \<Rightarrow> u32 \<Rightarrow> blk list \<Rightarrow> ptr \<times> u32 \<times> blk list" where
  "absorb_prev p k ((q, j, True) # rs) = absorb_prev q (j + (k + 16)) rs"
| "absorb_prev p k rs = (p, k, rs)"

fun absorb_next :: "u32 \<Rightarrow> blk list \<Rightarrow> u32 \<times> blk list" where
  "absorb_next k ((q, j, True) # bs) = absorb_next (k + (j + 16)) bs"
| "absorb_next k bs = (k, bs)"

definition coalesce :: "blk list \<Rightarrow> ptr \<Rightarrow> u32 \<Rightarrow> blk list \<Rightarrow> blk list" where
  "coalesce pre p k post =
     (let (p1, k1, rs) = absorb_prev p k (rev pre); (k2, post') = absorb_next k1 post
      in rev rs @ (p1, k2, True) # post')"

text \<open>\<open>in_hdr bs x\<close>: address \<open>x\<close> lies in the header of a block of \<open>bs\<close>.\<close>

definition in_hdr :: "blk list \<Rightarrow> ptr \<Rightarrow> bool" where
  "in_hdr bs x \<longleftrightarrow> (\<exists>b\<in>set bs. in_region x (fst b) 16)"

lemma in_hdr_simps [simp]:
  "\<not> in_hdr [] x" "in_hdr (b # bs) x \<longleftrightarrow> in_region x (fst b) 16 \<or> in_hdr bs x"
  "in_hdr (xs @ ys) x \<longleftrightarrow> in_hdr xs x \<or> in_hdr ys x"
  by (auto simp: in_hdr_def)

lemma in_hdr_bounds: "contiguous a bs e \<Longrightarrow> in_hdr bs x \<Longrightarrow> a \<le> unat x \<and> unat x < e"
proof -
  assume c: "contiguous a bs e" and "in_hdr bs x"
  then obtain p k f where "(p, k, f) \<in> set bs" "in_region x p 16" by (auto simp: in_hdr_def)
  with contiguous_mem [OF c, of p k f] show ?thesis by (auto simp: in_region_def)
qed

text \<open>Setting only the \<open>prev\<close> field of the first block moves a segment behind a new predecessor.\<close>

lemma dseg_relink:
  assumes "dseg m prv r bs NULL" "contiguous a bs e" "e \<le> 2 ^ 32" "16 \<le> a"
    and "hdr m' r = (hdr m r)\<lparr>bh_prev := prv'\<rparr>"
    and "only_at m m' (\<lambda>x. unat x < a \<or> in_region x r 16)"
  shows "dseg m' prv' r bs NULL"
proof (cases bs)
  case Nil
  with assms(1) show ?thesis by simp
next
  case (Cons b cs)
  obtain p k f where b: "b = (p, k, f)" by (cases b)
  with Cons assms(1,2) have r: "r = p" "unat p = a" and c: "contiguous (a + 16 + unat k) cs e"
    and d: "dseg m p (bh_next (hdr m p)) cs NULL" by auto
  have "hdr m' (fst d) = hdr m (fst d)" if "d \<in> set cs" for d
  proof -
    obtain d1 d2 d3 where d: "d = (d1, d2, d3)" by (cases d)
    with that have "a + 16 \<le> unat d1" "hdr_ok d1"
      using contiguous_mem [OF c, of d1 d2 d3] contiguous_hdr_ok [OF c assms(3)] by force+
    then show ?thesis unfolding d fst_conv
      by (intro only_at_hdr [OF assms(6)]) (use r in \<open>auto simp: in_region_def\<close>)
  qed
  then have "dseg m' p (bh_next (hdr m p)) cs NULL" by (intro dseg_frame [OF d]) blast
  then show ?thesis using Cons b assms(1,5) r by simp
qed

lemma contiguous_first: "contiguous a bs e \<Longrightarrow> seg m r bs NULL \<Longrightarrow> r = NULL \<or> (unat r = a \<and> bs \<noteq> [])"
  by (cases bs) auto

lemma next_hdr_ok:
  assumes "seg m r bs NULL" "contiguous a bs e" "e \<le> 2 ^ 32" "16 \<le> unat p" "unat p + 16 \<le> a"
  shows "hdr_ok r" "apart p 16 r 16" "in_region x r 16 \<Longrightarrow> unat x < 16 \<or> in_hdr bs x"
proof -
  have "(r = NULL \<and> bs = []) \<or> (unat r = a \<and> (\<exists>k f cs. bs = (r, k, f) # cs))"
    using assms(1,2) by (cases bs) auto
  moreover have "hdr_ok r" if "bs = (r, k, f) # cs" for k f cs
    using contiguous_hdr_ok [OF assms(2,3), of r k f] that by simp
  ultimately show "hdr_ok r" "apart p 16 r 16" "in_region x r 16 \<Longrightarrow> unat x < 16 \<or> in_hdr bs x"
    using assms(4,5) by (auto simp: hdr_ok_def apart_def in_region_def)
qed

lemma free_next_loop_refines:
  assumes "hdr m p = \<lparr>bh_size = k, bh_free = 1, bh_prev = prv, bh_next = nxt\<rparr>"
    and "dseg m p nxt post NULL" "contiguous (unat p + 16 + unat k) post e" "e \<le> 2 ^ 32" "16 \<le> unat p"
  shows "\<exists>m' nxt'. free_next_loop m p = Some (m', p) \<and>
           hdr m' p = \<lparr>bh_size = fst (absorb_next k post), bh_free = 1, bh_prev = prv, bh_next = nxt'\<rparr> \<and>
           dseg m' p nxt' (snd (absorb_next k post)) NULL \<and>
           only_at m m' (\<lambda>x. unat x < 16 \<or> in_region x p 16 \<or> in_hdr post x)"
  using assms
proof (induction post arbitrary: m k nxt)
  case Nil
  then have "free_next_loop m p = Some (m, p)" by (subst free_next_loop.simps) simp
  with Nil show ?case by auto
next
  case (Cons b post)
  obtain q j f where b: "b = (q, j, f)" by (cases b)
  let ?r = "bh_next (hdr m q)" and ?a = "unat p + 16 + unat k + 16 + unat j"
  from Cons.prems b have q: "nxt = q" "bh_size (hdr m q) = j" "bh_free (hdr m q) = flag_byte f"
      "bh_prev (hdr m q) = p" "unat q = unat p + 16 + unat k"
    and rest: "dseg m q ?r post NULL" "contiguous ?a post e" and e: "?a \<le> e"
    by (auto dest: contiguous_le)
  have nz: "q \<noteq> NULL" using q(5) by auto
  show ?case
  proof (cases f)
    case False
    with Cons.prems b q nz have "free_next_loop m p = Some (m, p)"
      by (subst free_next_loop.simps) simp
    with Cons.prems b False show ?thesis by (intro exI [of _ m]) auto
  next
    case True
    have ok: "hdr_ok p" "hdr_ok q" "apart p 16 q 16"
      using q(5) e Cons.prems(4) by (auto simp: hdr_ok_def apart_def)
    have "unat p + 16 \<le> ?a" by simp
    note r = next_hdr_ok [OF dseg_seg [OF rest(1)] rest(2) Cons.prems(4,5) this]
    have np: "bh_next (hdr m p) = q" using Cons.prems(1) q(1) by simp
    note mg = heap_merge_next_hdrs [OF ok(1,2) r(1) ok(3) r(2) np refl]
    define m1 where "m1 = fst (heap_merge m p CHR ''n'')"
    note mg = mg [folded m1_def]
    have h1: "hdr m1 p = \<lparr>bh_size = k + (j + 16), bh_free = 1, bh_prev = prv, bh_next = ?r\<rparr>"
      using mg(2) Cons.prems(1) q by simp
    have "unat (k + (j + 16)) = unat k + (unat j + 16)"
      using e Cons.prems(4) by (simp add: unat_word_ariths)
    then have c1: "contiguous (unat p + 16 + unat (k + (j + 16))) post e"
      using rest(2) by (simp add: algebra_simps)
    have d1: "dseg m1 p ?r post NULL"
      by (rule dseg_relink [OF rest Cons.prems(4) _ mg(3)])
        (use mg(4) in \<open>auto elim!: only_at_mono simp: in_region_def\<close>)
    from Cons.IH [OF h1 d1 c1 Cons.prems(4,5)] obtain m' nxt'
      where m': "free_next_loop m1 p = Some (m', p)"
        "hdr m' p = \<lparr>bh_size = fst (absorb_next (k + (j + 16)) post), bh_free = 1, bh_prev = prv, bh_next = nxt'\<rparr>"
        "dseg m' p nxt' (snd (absorb_next (k + (j + 16)) post)) NULL"
        "only_at m1 m' (\<lambda>x. unat x < 16 \<or> in_region x p 16 \<or> in_hdr post x)" by blast
    have "free_next_loop m p = free_next_loop m1 p"
      using True Cons.prems(1) q nz mg(1) by (subst free_next_loop.simps) simp
    moreover have "only_at m m' (\<lambda>x. unat x < 16 \<or> in_region x p 16 \<or> in_hdr (b # post) x)"
      by (rule only_at_trans [of _ m1]; rule only_at_mono [OF mg(4)] only_at_mono [OF m'(4)])
        (use r(3) in auto)
    ultimately show ?thesis using m' True b by auto
  qed
qed

lemma free_prev_loop_refines:
  assumes "hdr m p = \<lparr>bh_size = k, bh_free = 1, bh_prev = last_addr NULL (rev rs), bh_next = nxt\<rparr>"
    and "dseg m NULL ent (rev rs) p" "dseg m p nxt post NULL" "contiguous a (rev rs) (unat p)"
    and "contiguous (unat p + 16 + unat k) post e" "e \<le> 2 ^ 32" "16 \<le> a"
    and "absorb_prev p k rs = (p', k', rs')"
  shows "\<exists>m'. free_prev_loop m p = Some (m', p') \<and>
           hdr m' p' = \<lparr>bh_size = k', bh_free = 1, bh_prev = last_addr NULL (rev rs'), bh_next = nxt\<rparr> \<and>
           dseg m' NULL ent (rev rs') p' \<and> dseg m' p' nxt post NULL \<and> contiguous a (rev rs') (unat p') \<and>
           unat p' + 16 + unat k' = unat p + 16 + unat k \<and>
           only_at m m' (\<lambda>x. unat x < 16 \<or> in_hdr rs x \<or> in_hdr post x)"
  using assms
proof (induction rs arbitrary: m p k)
  case Nil
  then have "free_prev_loop m p = Some (m, p)" by (subst free_prev_loop.simps) simp
  with Nil show ?case by (intro exI [of _ m]) auto
next
  case (Cons b rs)
  obtain q j f where b: "b = (q, j, f)" by (cases b)
  from Cons.prems(2) b have q: "bh_size (hdr m q) = j" "bh_free (hdr m q) = flag_byte f"
      "bh_prev (hdr m q) = last_addr NULL (rev rs)" "bh_next (hdr m q) = p" "dseg m NULL ent (rev rs) q"
    by (auto simp: dseg_append)
  from Cons.prems(4) b have cq: "contiguous a (rev rs) (unat q)" "unat q + 16 + unat j = unat p" "a \<le> unat q"
    by (auto simp: contiguous_append)
  from Cons.prems(1) b have pq: "bh_prev (hdr m p) = q" by simp
  have nz: "q \<noteq> NULL" using cq(3) Cons.prems(7) by auto
  show ?case
  proof (cases f)
    case False
    with pq q nz have "free_prev_loop m p = Some (m, p)" by (subst free_prev_loop.simps) simp
    with Cons.prems b False show ?thesis by (intro exI [of _ m]) auto
  next
    case True
    have e: "unat p + 16 + unat k \<le> e" using Cons.prems(5) by (rule contiguous_le)
    have ok: "hdr_ok p" "hdr_ok q" "apart q 16 p 16" "16 \<le> unat q"
      using cq e Cons.prems(6,7) by (auto simp: hdr_ok_def apart_def)
    have "unat q + 16 \<le> unat p + 16 + unat k" using cq by simp
    note r = next_hdr_ok [OF dseg_seg [OF Cons.prems(3)] Cons.prems(5,6) ok(4) this]
    have np: "bh_next (hdr m p) = nxt" using Cons.prems(1) by simp
    note mg = heap_merge_prev_hdrs [OF ok(1,2) r(1) ok(3) r(2) pq np]
    define m1 where "m1 = fst (heap_merge m p CHR ''p'')"
    note mg = mg [folded m1_def]
    have h1: "hdr m1 q = \<lparr>bh_size = j + (k + 16), bh_free = 1, bh_prev = last_addr NULL (rev rs), bh_next = nxt\<rparr>"
      using mg(2) Cons.prems(1) q True by simp
    have u: "unat q + 16 + unat (j + (k + 16)) = unat p + 16 + unat k"
    proof -
      have "unat (j + (k + 16)) = unat j + (unat k + 16)"
        using e cq Cons.prems(6) by (simp add: unat_word_ariths)
      with cq(2) show ?thesis by simp
    qed
    have d1: "dseg m1 q nxt post NULL"
      by (rule dseg_relink [OF Cons.prems(3,5,6) _ mg(3)])
        (use mg(4) cq Cons.prems(7) in \<open>auto elim!: only_at_mono simp: in_region_def\<close>)
    have "hdr m1 (fst c) = hdr m (fst c)" if "c \<in> set (rev rs)" for c
    proof -
      obtain c1 c2 c3 where c: "c = (c1, c2, c3)" by (cases c)
      with that have "unat c1 + 16 \<le> unat q" "a \<le> unat c1" using contiguous_mem [OF cq(1), of c1 c2 c3] by auto
      moreover have "unat x < 16 \<or> unat p + 16 + unat k \<le> unat x" if "in_region x nxt 16" for x
        using r(3) [OF that] in_hdr_bounds [OF Cons.prems(5)] by blast
      ultimately show ?thesis unfolding c fst_conv
        by (intro only_at_hdr [OF mg(4)])
          (use ok cq Cons.prems(7) in \<open>fastforce simp: hdr_ok_def in_region_def\<close>)+
    qed
    then have d2: "dseg m1 NULL ent (rev rs) q" by (intro dseg_frame [OF q(5)]) blast
    have ab: "absorb_prev q (j + (k + 16)) rs = (p', k', rs')" using Cons.prems(8) b True by simp
    have c1: "contiguous (unat q + 16 + unat (j + (k + 16))) post e" using Cons.prems(5) by (simp only: u)
    from Cons.IH [OF h1 d2 d1 cq(1) c1 Cons.prems(6,7) ab] obtain m'
      where m': "free_prev_loop m1 q = Some (m', p')"
        "hdr m' p' = \<lparr>bh_size = k', bh_free = 1, bh_prev = last_addr NULL (rev rs'), bh_next = nxt\<rparr>"
        "dseg m' NULL ent (rev rs') p'" "dseg m' p' nxt post NULL" "contiguous a (rev rs') (unat p')"
        "unat p' + 16 + unat k' = unat q + 16 + unat (j + (k + 16))"
        "only_at m1 m' (\<lambda>x. unat x < 16 \<or> in_hdr rs x \<or> in_hdr post x)" by blast
    have "free_prev_loop m p = free_prev_loop m1 q"
      using True pq q nz mg(1) by (subst free_prev_loop.simps) simp
    moreover have "only_at m m' (\<lambda>x. unat x < 16 \<or> in_hdr (b # rs) x \<or> in_hdr post x)"
      by (rule only_at_trans [of _ m1]; rule only_at_mono [OF mg(4)] only_at_mono [OF m'(7)])
        (use r(3) b in auto)
    ultimately show ?thesis using m' u by auto
  qed
qed

lemma absorb_next_set: "set (snd (absorb_next k bs)) \<subseteq> set bs"
  by (induction k bs rule: absorb_next.induct) auto

lemma absorb_next_contiguous:
  "contiguous (a + 16 + unat k) bs e \<Longrightarrow> e \<le> 2 ^ 32 \<Longrightarrow>
     contiguous (a + 16 + unat (fst (absorb_next k bs))) (snd (absorb_next k bs)) e"
proof (induction k bs rule: absorb_next.induct)
  case (1 k q j bs)
  then have q: "unat q = a + 16 + unat k" and c: "contiguous (unat q + 16 + unat j) bs e" by auto
  have "unat (k + (j + 16)) = unat k + (unat j + 16)"
    using contiguous_le [OF c] q "1.prems"(2) by (simp add: unat_word_ariths)
  with q c have "contiguous (a + 16 + unat (k + (j + 16))) bs e" by (simp add: algebra_simps)
  with "1.IH" "1.prems"(2) show ?case by simp
qed auto

lemma free_linked:
  assumes "heap_linked s bs" and bs: "bs = pre @ (p, k, False) # post" and k0: "0 < k"
  shows "\<exists>m'. free s (p + 16) = Some (s\<lparr>mem := m'\<rparr>) \<and>
           heap_linked (s\<lparr>mem := m'\<rparr>) (coalesce pre p k post) \<and>
           only_at (mem s) m' (\<lambda>x. unat x < 16 \<or> in_hdr bs x)"
proof -
  let ?a = "unat (heap s)" and ?e = "unat (heap s) + unat (heap_size s)" and ?m = "mem s"
  have rep: "heap_rep s bs" and ds: "dseg ?m NULL (first_entry s) bs NULL"
    using assms(1) by (auto simp: heap_linked_def)
  then have c: "contiguous ?a bs ?e" and b: "16 \<le> ?a" "?e \<le> 2 ^ 32" "unat (heap_size s) \<le> 2 ^ 30"
    by (auto simp: heap_rep_def)
  define nxt where "nxt = bh_next (hdr ?m p)"
  have h: "hdr ?m p = \<lparr>bh_size = k, bh_free = 0, bh_prev = last_addr NULL pre, bh_next = nxt\<rparr>"
    and d1: "dseg ?m NULL (first_entry s) pre p" and d2: "dseg ?m p nxt post NULL"
    using ds by (auto simp: bs dseg_append nxt_def intro: BlockHeader.equality)
  have c1: "contiguous ?a pre (unat p)" and c2: "contiguous (unat p + 16 + unat k) post ?e"
    using c by (auto simp: bs contiguous_append)
  have ok: "hdr_ok p" using contiguous_hdr_ok [OF c b(2), of p k False] by (simp add: bs)
  have pm: "(p, k, False) \<in> set bs" by (simp add: bs)
  note pa = payload_addr [OF rep pm k0]
  define m1 where "m1 = set_free ?m p 1"
  have at1: "only_at ?m m1 (\<lambda>x. in_region x p 16)" unfolding m1_def by (rule only_at_setter [OF ok])
  have keep: "hdr m1 (fst d) = hdr ?m (fst d)" if "d \<in> set pre \<union> set post" for d
  proof -
    obtain d1 d2 d3 where d: "d = (d1, d2, d3)" by (cases d)
    have "apart p (16 + unat k) d1 (16 + unat d2)"
      using contiguous_apart [OF c [unfolded bs], of d1 d2 d3] that d by simp
    moreover have "hdr_ok d1" using contiguous_hdr_ok [OF c b(2), of d1 d2 d3] that d bs by auto
    ultimately show ?thesis unfolding d fst_conv
      by (intro only_at_hdr [OF at1]) (auto simp: apart_def in_region_def)
  qed
  have h1: "hdr m1 p = \<lparr>bh_size = k, bh_free = 1, bh_prev = last_addr NULL (rev (rev pre)), bh_next = nxt\<rparr>"
    using ok by (simp add: m1_def) (simp add: h)
  have "dseg m1 NULL (first_entry s) pre p" by (rule dseg_frame [OF d1]) (use keep in blast)
  then have d1': "dseg m1 NULL (first_entry s) (rev (rev pre)) p" by simp
  have d2': "dseg m1 p nxt post NULL" by (rule dseg_frame [OF d2]) (use keep in blast)
  have c1': "contiguous ?a (rev (rev pre)) (unat p)" using c1 by simp
  obtain p' k' rs' where ab: "absorb_prev p k (rev pre) = (p', k', rs')" by (cases "absorb_prev p k (rev pre)")
  from free_prev_loop_refines [OF h1 d1' d2' c1' c2 b(2,1) ab] obtain m2
    where m2: "free_prev_loop m1 p = Some (m2, p')"
      "hdr m2 p' = \<lparr>bh_size = k', bh_free = 1, bh_prev = last_addr NULL (rev rs'), bh_next = nxt\<rparr>"
      "dseg m2 NULL (first_entry s) (rev rs') p'" "dseg m2 p' nxt post NULL"
      "contiguous ?a (rev rs') (unat p')" "unat p' + 16 + unat k' = unat p + 16 + unat k"
      "only_at m1 m2 (\<lambda>x. unat x < 16 \<or> in_hdr (rev pre) x \<or> in_hdr post x)" by blast
  have c3: "contiguous (unat p' + 16 + unat k') post ?e" using c2 by (simp only: m2(6))
  have p16: "16 \<le> unat p'" using contiguous_le [OF m2(5)] b(1) by simp
  from free_next_loop_refines [OF m2(2,4) c3 b(2) p16] obtain m3 nxt'
    where m3: "free_next_loop m2 p' = Some (m3, p')"
      "hdr m3 p' = \<lparr>bh_size = fst (absorb_next k' post), bh_free = 1, bh_prev = last_addr NULL (rev rs'), bh_next = nxt'\<rparr>"
      "dseg m3 p' nxt' (snd (absorb_next k' post)) NULL"
      "only_at m2 m3 (\<lambda>x. unat x < 16 \<or> in_region x p' 16 \<or> in_hdr post x)" by blast
  have "hdr m3 (fst d) = hdr m2 (fst d)" if "d \<in> set (rev rs')" for d
  proof -
    obtain d1 d2 d3 where d: "d = (d1, d2, d3)" by (cases d)
    with that have dm: "unat d1 + 16 + unat d2 \<le> unat p'" "?a \<le> unat d1"
      using contiguous_mem [OF m2(5), of d1 d2 d3] by auto
    moreover have "hdr_ok d1" using dm contiguous_le [OF c3] b(2) by (simp add: hdr_ok_def)
    ultimately show ?thesis unfolding d fst_conv
      by (intro only_at_hdr [OF m3(4)])
        (use b(1) in_hdr_bounds [OF c3] in \<open>fastforce simp: in_region_def\<close>)+
  qed
  then have d3: "dseg m3 NULL (first_entry s) (rev rs') p'" by (intro dseg_frame [OF m2(3)]) blast
  have co: "coalesce pre p k post = rev rs' @ (p', fst (absorb_next k' post), True) # snd (absorb_next k' post)"
    by (simp add: coalesce_def ab split_beta)
  have D: "dseg m3 NULL (first_entry s) (coalesce pre p k post) NULL"
    using d3 m3(2,3) by (auto simp: co dseg_append)
  have "contiguous ?a (coalesce pre p k post) ?e"
    using m2(5) absorb_next_contiguous [OF c3 b(2)] contiguous_span [OF m2(5)]
    by (simp add: co contiguous_append)
  with D b have L: "heap_linked (s\<lparr>mem := m3\<rparr>) (coalesce pre p k post)"
    by (auto simp: heap_linked_def heap_rep_def dseg_seg co)
  have "in_hdr bs x" if "in_region x p' 16" for x
  proof -
    have "p' \<in> fst ` set bs"
    proof -
      have "fst (absorb_prev p k rs) \<in> insert p (fst ` set rs)" for rs
        by (induction p k rs rule: absorb_prev.induct) auto
      from this [of "rev pre"] show ?thesis by (auto simp: ab bs)
    qed
    with that show ?thesis by (auto simp: in_hdr_def)
  qed
  note p'_hdr = this
  let ?P = "\<lambda>x. unat x < 16 \<or> in_hdr bs x"
  have "only_at ?m m1 ?P" by (rule only_at_mono [OF at1]) (simp add: bs)
  moreover have "only_at m1 m2 ?P" by (rule only_at_mono [OF m2(7)]) (auto simp: bs in_hdr_def)
  moreover have "only_at m2 m3 ?P" by (rule only_at_mono [OF m3(4)]) (use p'_hdr in \<open>auto simp: bs\<close>)
  ultimately have at: "only_at ?m m3 ?P" by (blast intro: only_at_trans)
  have "free s (p + 16) = Some (s\<lparr>mem := m3\<rparr>)"
    using pa(2) m2(1) m3(1) by (simp add: free_def Let_def m1_def)
  with L at show ?thesis by blast
qed

text \<open>No two neighbouring blocks are free.\<close>

fun coalesced :: "blk list \<Rightarrow> bool" where
  "coalesced ((p, k, f) # (q, j, g) # bs) \<longleftrightarrow> \<not> (f \<and> g) \<and> coalesced ((q, j, g) # bs)"
| "coalesced bs \<longleftrightarrow> True"

definition is_free :: "blk \<Rightarrow> bool" where
  "is_free b = snd (snd b)"

lemma coalesced_Cons:
  "coalesced (b # bs) \<longleftrightarrow> coalesced bs \<and> (bs \<noteq> [] \<longrightarrow> \<not> (is_free b \<and> is_free (hd bs)))"
  by (cases b; cases bs) (auto simp: is_free_def)

lemma coalesced_append:
  "coalesced (xs @ ys) \<longleftrightarrow> coalesced xs \<and> coalesced ys \<and>
     (xs \<noteq> [] \<and> ys \<noteq> [] \<longrightarrow> \<not> (is_free (last xs) \<and> is_free (hd ys)))"
  by (induction xs) (auto simp: coalesced_Cons)

lemma absorb_next_coalesced:
  "coalesced bs \<Longrightarrow> coalesced (snd (absorb_next k bs)) \<and>
     (snd (absorb_next k bs) \<noteq> [] \<longrightarrow> \<not> is_free (hd (snd (absorb_next k bs))))"
  by (induction k bs rule: absorb_next.induct) (auto simp: coalesced_Cons is_free_def)

lemma absorb_prev_coalesced:
  "coalesced (rev rs) \<Longrightarrow> absorb_prev p k rs = (p', k', rs') \<Longrightarrow>
     coalesced (rev rs') \<and> (rs' \<noteq> [] \<longrightarrow> \<not> is_free (hd rs'))"
  by (induction p k rs rule: absorb_prev.induct) (auto simp: coalesced_append is_free_def)

lemma coalesce_coalesced:
  assumes "coalesced (pre @ (p, k, f) # post)"
  shows "coalesced (coalesce pre p k post)"
proof -
  obtain p' k' rs' where ab: "absorb_prev p k (rev pre) = (p', k', rs')" by (cases "absorb_prev p k (rev pre)")
  have c: "coalesced pre" "coalesced post" using assms by (auto simp: coalesced_append coalesced_Cons)
  then show ?thesis
    using absorb_prev_coalesced [OF _ ab] absorb_next_coalesced [OF c(2), of k']
    by (auto simp: coalesce_def ab split_beta coalesced_append coalesced_Cons last_rev is_free_def)
qed

text \<open>The blocks in use after coalescing are those before it, less the freed one.\<close>

lemma absorb_prev_used:
  "absorb_prev p k rs = (p', k', rs') \<Longrightarrow> [b\<leftarrow>rs'. \<not> is_free b] = [b\<leftarrow>rs. \<not> is_free b]"
  by (induction p k rs rule: absorb_prev.induct) (auto simp: is_free_def)

lemma absorb_next_used: "[b\<leftarrow>snd (absorb_next k bs). \<not> is_free b] = [b\<leftarrow>bs. \<not> is_free b]"
  by (induction k bs rule: absorb_next.induct) (auto simp: is_free_def)

lemma coalesce_used:
  "[b\<leftarrow>coalesce pre p k post. \<not> is_free b] = [b\<leftarrow>pre @ post. \<not> is_free b]"
proof -
  obtain p' k' rs' where ab: "absorb_prev p k (rev pre) = (p', k', rs')" by (cases "absorb_prev p k (rev pre)")
  from absorb_prev_used [OF ab] have "[b\<leftarrow>rev rs'. \<not> is_free b] = [b\<leftarrow>pre. \<not> is_free b]"
    by (metis rev_filter rev_rev_ident)
  with absorb_next_used [of k' post] show ?thesis
    by (simp add: coalesce_def ab split_beta) (simp add: is_free_def)
qed

lemma coalesced_all_free:
  "coalesced bs \<Longrightarrow> [b\<leftarrow>bs. \<not> is_free b] = [] \<Longrightarrow> bs = [] \<or> (\<exists>b. bs = [b])"
  by (cases bs rule: coalesced.cases) (auto simp: is_free_def split: if_splits)

section \<open>The allocator interface\<close>

text \<open>
  What the clients of the heap rely on. \<open>owns s p k\<close>: the \<open>k\<close> bytes from \<open>p\<close> are
  allocated; \<open>store s\<close> is the byte memory.
\<close>

fun alloc_all :: "('s \<Rightarrow> u32 \<Rightarrow> ('s \<times> ptr) option) \<Rightarrow> 's \<Rightarrow> u32 list \<Rightarrow> ('s \<times> ptr list) option" where
  "alloc_all alloc s [] = Some (s, [])"
| "alloc_all alloc s (n # ns) =
     (case alloc s n of None \<Rightarrow> None
      | Some (s1, p) \<Rightarrow> map_option (\<lambda>(s2, ps). (s2, p # ps)) (alloc_all alloc s1 ns))"

locale block_allocator =
  fixes inv :: "'s \<Rightarrow> bool"
    and alloc :: "'s \<Rightarrow> u32 \<Rightarrow> ('s \<times> ptr) option"
    and owns :: "'s \<Rightarrow> ptr \<Rightarrow> u32 \<Rightarrow> bool"
    and store :: "'s \<Rightarrow> bmem"
  assumes alloc_total: "inv s \<Longrightarrow> \<exists>s' p. alloc s n = Some (s', p)"
    and alloc_inv: "inv s \<Longrightarrow> alloc s n = Some (s', p) \<Longrightarrow> inv s'"
    and alloc_owns: "inv s \<Longrightarrow> alloc s n = Some (s', p) \<Longrightarrow> p \<noteq> NULL \<Longrightarrow> \<exists>k\<ge>n. owns s' p k"
    and alloc_fresh: "inv s \<Longrightarrow> alloc s n = Some (s', p) \<Longrightarrow> p \<noteq> NULL \<Longrightarrow> owns s q j \<Longrightarrow> p \<noteq> q"
    and alloc_keeps: "inv s \<Longrightarrow> alloc s n = Some (s', p) \<Longrightarrow> owns s q j \<Longrightarrow>
          owns s' q j \<and> same_on (store s) (store s') q (unat j)"
    and owns_apart: "inv s \<Longrightarrow> owns s p k \<Longrightarrow> owns s q j \<Longrightarrow> p \<noteq> q \<Longrightarrow> apart p (unat k) q (unat j)"
begin

lemma alloc_all_keeps:
  "inv s \<Longrightarrow> alloc_all alloc s ns = Some (s', ps) \<Longrightarrow>
     inv s' \<and> length ps = length ns \<and>
     (\<forall>q j. owns s q j \<longrightarrow> owns s' q j \<and> same_on (store s) (store s') q (unat j))"
proof (induction ns arbitrary: s ps)
  case (Cons n ns)
  then obtain s1 p ps1 where s1: "alloc s n = Some (s1, p)" "alloc_all alloc s1 ns = Some (s', ps1)" "ps = p # ps1"
    by (auto split: option.splits)
  from Cons.IH [OF alloc_inv [OF Cons.prems(1) s1(1)] s1(2)] s1(3) show ?case
    using alloc_keeps [OF Cons.prems(1) s1(1)] by (auto; meson same_on_trans)
qed auto

lemma alloc_all_total: "inv s \<Longrightarrow> \<exists>s' ps. alloc_all alloc s ns = Some (s', ps)"
proof (induction ns arbitrary: s)
  case (Cons n ns)
  from alloc_total [OF Cons.prems, of n] obtain s1 p where s1: "alloc s n = Some (s1, p)" by blast
  from Cons.IH [OF alloc_inv [OF Cons.prems s1]] s1 show ?case by auto
qed simp

lemma alloc_all_owned:
  "inv s \<Longrightarrow> alloc_all alloc s ns = Some (s', ps) \<Longrightarrow> i < length ns \<Longrightarrow> ps ! i \<noteq> NULL \<Longrightarrow>
     (\<exists>k\<ge>ns ! i. owns s' (ps ! i) k) \<and> (\<forall>q j. owns s q j \<longrightarrow> ps ! i \<noteq> q)"
proof (induction ns arbitrary: s ps i)
  case (Cons n ns)
  then obtain s1 p ps1 where s1: "alloc s n = Some (s1, p)" "alloc_all alloc s1 ns = Some (s', ps1)" "ps = p # ps1"
    by (auto split: option.splits)
  note i1 = alloc_inv [OF Cons.prems(1) s1(1)]
  show ?case
  proof (cases i)
    case 0
    with s1(3) Cons.prems(4) have p: "ps ! i = p" "p \<noteq> NULL" by auto
    from alloc_owns [OF Cons.prems(1) s1(1) p(2)] obtain k where "n \<le> k" "owns s1 p k" by blast
    with alloc_all_keeps [OF i1 s1(2)] alloc_fresh [OF Cons.prems(1) s1(1) p(2)] 0 p(1) show ?thesis by auto
  next
    case (Suc i')
    with s1(3) Cons.prems(3,4) Cons.IH [OF i1 s1(2), of i'] alloc_keeps [OF Cons.prems(1) s1(1)]
    show ?thesis by auto
  qed
qed simp

lemma alloc_all_distinct:
  "inv s \<Longrightarrow> alloc_all alloc s ns = Some (s', ps) \<Longrightarrow> i < j \<Longrightarrow> j < length ns \<Longrightarrow>
     ps ! i \<noteq> NULL \<Longrightarrow> ps ! j \<noteq> NULL \<Longrightarrow> ps ! i \<noteq> ps ! j"
proof (induction ns arbitrary: s ps i j)
  case (Cons n ns)
  then obtain s1 p ps1 where s1: "alloc s n = Some (s1, p)" "alloc_all alloc s1 ns = Some (s', ps1)" "ps = p # ps1"
    by (auto split: option.splits)
  note i1 = alloc_inv [OF Cons.prems(1) s1(1)]
  obtain j' where j: "j = Suc j'" using Cons.prems(3) by (cases j) auto
  show ?case
  proof (cases i)
    case 0
    with s1(3) Cons.prems(5) have p: "p \<noteq> NULL" by simp
    from alloc_owns [OF Cons.prems(1) s1(1) p] obtain k where "owns s1 p k" by blast
    with alloc_all_owned [OF i1 s1(2), of j'] Cons.prems(4,6) j 0 s1(3) show ?thesis by auto
  next
    case (Suc i')
    with Cons.IH [OF i1 s1(2), of i' j'] Cons.prems(3-6) j s1(3) show ?thesis by auto
  qed
qed simp

text \<open>Any sequence of allocations hands out regions that do not overlap.\<close>

lemma alloc_all_apart:
  assumes "inv s" "alloc_all alloc s ns = Some (s', ps)" "i < j" "j < length ns"
    and "ps ! i \<noteq> NULL" "ps ! j \<noteq> NULL"
  shows "apart (ps ! i) (unat (ns ! i)) (ps ! j) (unat (ns ! j))"
proof -
  have "i < length ns" using assms(3,4) by simp
  from alloc_all_owned [OF assms(1,2) this assms(5)] alloc_all_owned [OF assms(1,2,4,6)]
  obtain k1 k2 where "ns ! i \<le> k1" "owns s' (ps ! i) k1" "ns ! j \<le> k2" "owns s' (ps ! j) k2" by blast
  moreover have "inv s'" using alloc_all_keeps [OF assms(1,2)] by blast
  ultimately have "apart (ps ! i) (unat k1) (ps ! j) (unat k2)"
    using alloc_all_distinct [OF assms] by (intro owns_apart) auto
  with \<open>ns ! i \<le> k1\<close> \<open>ns ! j \<le> k2\<close> show ?thesis by (auto simp: apart_def word_le_nat_alt)
qed

end

section \<open>heap.c provides the interface\<close>

definition heap_ok :: "'a heap_state_scheme \<Rightarrow> bool" where
  "heap_ok s \<longleftrightarrow> (\<exists>bs. heap_rep s bs)"

definition heap_owns :: "'a heap_state_scheme \<Rightarrow> ptr \<Rightarrow> u32 \<Rightarrow> bool" where
  "heap_owns s p k \<longleftrightarrow> (\<exists>bs. heap_rep s bs \<and> (p - 16, k, False) \<in> set bs \<and> 0 < k)"

lemma seg_unique:
  "seg m p bs NULL \<Longrightarrow> seg m p cs NULL \<Longrightarrow> contiguous a bs e \<Longrightarrow> contiguous a' cs e' \<Longrightarrow>
     16 \<le> a \<Longrightarrow> 16 \<le> a' \<Longrightarrow> bs = cs"
proof (induction bs arbitrary: p cs a a')
  case Nil
  then show ?case by (cases cs) auto
next
  case (Cons b bs)
  obtain q k f where b: "b = (q, k, f)" by (cases b)
  show ?case
  proof (cases cs)
    case Nil
    with Cons.prems b show ?thesis by auto
  next
    case cs: (Cons c cs')
    obtain r j g where c: "c = (r, j, g)" by (cases c)
    from Cons.prems b c cs have "q = r" "k = j" "flag_byte f = flag_byte g"
      and r: "seg m (bh_next (hdr m r)) bs NULL" "seg m (bh_next (hdr m r)) cs' NULL"
        "contiguous (a + 16 + unat k) bs e" "contiguous (a' + 16 + unat j) cs' e'" by auto
    moreover have "bs = cs'"
      by (rule Cons.IH [OF r]) (use Cons.prems(5,6) in simp_all)
    ultimately show ?thesis using b c cs by (cases f; cases g) simp_all
  qed
qed

lemma heap_rep_unique: "heap_rep s bs \<Longrightarrow> heap_rep s cs \<Longrightarrow> bs = cs"
  using seg_unique [of "mem s" "first_entry s" bs cs] by (auto simp: heap_rep_def)

lemma malloc_result:
  assumes "heap_rep s bs" "n \<noteq> 0"
  obtains m' where "malloc s n = Some (s\<lparr>mem := m'\<rparr>, NULL)" "heap_rep (s\<lparr>mem := m'\<rparr>) bs"
      "only_at (mem s) m' (in_free bs)" "\<forall>b\<in>set bs. \<not> fits n b"
  | m' pre p k post where "bs = pre @ (p, k, True) # post" "\<forall>b\<in>set pre. \<not> fits n b" "n \<le> k"
      "malloc s n = Some (s\<lparr>mem := m'\<rparr>, p + 16)" "p + 16 \<noteq> NULL"
      "heap_rep (s\<lparr>mem := m'\<rparr>) (pre @ taken p k n @ post)" "only_at (mem s) m' (in_free bs)"
proof -
  from malloc_rep [OF assms] obtain m' where m': "malloc s n = Some (s\<lparr>mem := m'\<rparr>, snd (ff_malloc bs n))"
    "heap_rep (s\<lparr>mem := m'\<rparr>) (fst (ff_malloc bs n))" "only_at (mem s) m' (in_free bs)" by blast
  show thesis
  proof (cases rule: first_fit_cases [of bs n])
    case 1
    with m' show thesis using that(1) [of m'] by (simp add: ff_malloc_none)
  next
    case (2 pre p k post)
    have "0 < n" using assms(2) by (simp add: word_neq_0_conv)
    then have "0 < k" using 2(3) by (rule less_le_trans)
    with payload_addr [OF assms(1), of p k True] 2 have "p + 16 \<noteq> NULL" by simp
    with 2 m' show thesis using that(2) [of pre p k post m'] by (simp add: ff_malloc_first)
  qed
qed

lemma taken_cases:
  obtains k' where "(p, k', False) \<in> set (taken p k n)" "n \<le> k'"
  | "\<not> n \<le> k"
  by (cases "(n + 16) * 2 < k"; cases "n \<le> k") (auto simp: taken_def)

lemma used_payload_untouched:
  assumes "heap_rep s bs" "only_at (mem s) m' (in_free bs)" "(p, k, False) \<in> set bs" "0 < k"
  shows "same_on (mem s) m' (p + 16) (unat k)"
proof -
  obtain pre post where bs: "bs = pre @ (p, k, False) # post" using assms(3) by (auto dest: split_list)
  have c: "contiguous (unat (heap s)) (pre @ (p, k, False) # post) (unat (heap s) + unat (heap_size s))"
    using assms(1) bs by (simp add: heap_rep_def)
  show ?thesis
  proof (rule only_at_same_on [OF assms(2)])
    fix x assume x: "in_region x (p + 16) (unat k)"
    show "\<not> in_free bs x"
    proof
      assume "in_free bs x"
      then obtain q j where q: "(q, j, True) \<in> set bs" "in_region x q (16 + unat j)" by (auto simp: in_free_def)
      then have "(q, j, True) \<in> set pre \<union> set post" by (auto simp: bs)
      from contiguous_apart [OF c this] x q(2) payload_addr(1) [OF assms(1,3,4)]
      show False by (auto simp: apart_def in_region_def)
    qed
  qed
qed

lemma heap_owns_iff: "heap_rep s bs \<Longrightarrow> heap_owns s p k \<longleftrightarrow> (p - 16, k, False) \<in> set bs \<and> 0 < k"
  using heap_rep_unique by (auto simp: heap_owns_def)

lemma malloc_0 [simp]: "malloc s 0 = Some (s, NULL)"
  by (simp add: malloc_def)

interpretation kheap: block_allocator heap_ok malloc heap_owns mem
proof
  fix s n assume "heap_ok s"
  then obtain bs where "heap_rep s bs" by (auto simp: heap_ok_def)
  then show "\<exists>s' p. malloc s n = Some (s', p)"
    by (cases "n = 0") (auto elim: malloc_result [of s bs n])
next
  fix s n s' p assume "heap_ok s" and m: "malloc s n = Some (s', p)"
  then obtain bs where r: "heap_rep s bs" by (auto simp: heap_ok_def)
  show "heap_ok s'"
  proof (cases "n = 0")
    case True
    with m r show ?thesis by (auto simp: heap_ok_def)
  next
    case False
    from r False show ?thesis by (rule malloc_result) (use m in \<open>auto simp: heap_ok_def\<close>)
  qed
next
  fix s n s' p assume "heap_ok s" and m: "malloc s n = Some (s', p)" and p: "p \<noteq> NULL"
  then obtain bs where r: "heap_rep s bs" by (auto simp: heap_ok_def)
  have n: "n \<noteq> 0" using m p by (cases "n = 0") auto
  from r n show "\<exists>k\<ge>n. heap_owns s' p k"
  proof (rule malloc_result)
    fix m' pre q k post
    assume q: "n \<le> k" "malloc s n = Some (s\<lparr>mem := m'\<rparr>, q + 16)"
      "heap_rep (s\<lparr>mem := m'\<rparr>) (pre @ taken q k n @ post)"
    obtain k' where "(q, k', False) \<in> set (taken q k n)" "n \<le> k'"
      using taken_cases [of q k n thesis for thesis] q(1) by blast
    then show ?thesis
      using q(2,3) m n by (intro exI [of _ k']) (auto simp: heap_owns_def word_neq_0_conv intro: less_le_trans)
  qed (use m p in auto)
next
  fix s n s' p q j assume "heap_ok s" and m: "malloc s n = Some (s', p)" and p: "p \<noteq> NULL" and o: "heap_owns s q j"
  then obtain bs where r: "heap_rep s bs" by (auto simp: heap_ok_def)
  have n: "n \<noteq> 0" using m p by (cases "n = 0") auto
  from r n show "p \<noteq> q"
  proof (rule malloc_result)
    fix m' pre r' k post
    assume b: "bs = pre @ (r', k, True) # post" and "malloc s n = Some (s\<lparr>mem := m'\<rparr>, r' + 16)"
    with m have pr: "p - 16 = r'" by auto
    have "(q - 16, j, False) \<in> set pre \<union> set post" using o r b by (auto simp: heap_owns_iff)
    moreover have "contiguous (unat (heap s)) (pre @ (r', k, True) # post) (unat (heap s) + unat (heap_size s))"
      using r b by (simp add: heap_rep_def)
    ultimately have "apart r' (16 + unat k) (q - 16) (16 + unat j)" by (blast intro: contiguous_apart)
    with pr show ?thesis by (auto simp: apart_def)
  qed (use m p in auto)
next
  fix s n s' p q j assume "heap_ok s" and m: "malloc s n = Some (s', p)" and o: "heap_owns s q j"
  then obtain bs where r: "heap_rep s bs" by (auto simp: heap_ok_def)
  have ob: "(q - 16, j, False) \<in> set bs" "0 < j" using o r by (auto simp: heap_owns_iff)
  show "heap_owns s' q j \<and> same_on (mem s) (mem s') q (unat j)"
  proof (cases "n = 0")
    case True
    with m o show ?thesis by simp
  next
    case False
    note keep = used_payload_untouched [OF r _ ob, simplified]
    from r False show ?thesis
    proof (rule malloc_result)
      fix m' assume "malloc s n = Some (s\<lparr>mem := m'\<rparr>, NULL)" "heap_rep (s\<lparr>mem := m'\<rparr>) bs"
        "only_at (mem s) m' (in_free bs)"
      with m keep ob show ?thesis by (auto simp: heap_owns_iff)
    next
      fix m' pre r' k post
      assume "bs = pre @ (r', k, True) # post" "malloc s n = Some (s\<lparr>mem := m'\<rparr>, r' + 16)"
        "heap_rep (s\<lparr>mem := m'\<rparr>) (pre @ taken r' k n @ post)" "only_at (mem s) m' (in_free bs)"
      with m keep ob show ?thesis by (auto simp: heap_owns_iff)
    qed
  qed
next
  fix s p k q j assume "heap_ok s" and o: "heap_owns s p k" "heap_owns s q j" and "p \<noteq> q"
  then obtain bs where r: "heap_rep s bs" by (auto simp: heap_ok_def)
  have ob: "(p - 16, k, False) \<in> set bs" "0 < k" "(q - 16, j, False) \<in> set bs" "0 < j"
    using o r by (auto simp: heap_owns_iff)
  obtain pre post where bs: "bs = pre @ (p - 16, k, False) # post" using ob(1) by (auto dest: split_list)
  have "(q - 16, j, False) \<in> set pre \<union> set post" using ob(3) bs \<open>p \<noteq> q\<close> by auto
  moreover have "contiguous (unat (heap s)) (pre @ (p - 16, k, False) # post) (unat (heap s) + unat (heap_size s))"
    using r bs by (simp add: heap_rep_def)
  ultimately have "apart (p - 16) (16 + unat k) (q - 16) (16 + unat j)" by (blast intro: contiguous_apart)
  then show "apart p (unat k) q (unat j)"
    using payload_addr(1) [OF r ob(1,2)] payload_addr(1) [OF r ob(3,4)] by (auto simp: apart_def)
qed

section \<open>Freeing everything\<close>

fun free_all :: "'a heap_state_scheme \<Rightarrow> ptr list \<Rightarrow> 'a heap_state_scheme option" where
  "free_all s [] = Some s"
| "free_all s (p # ps) = (case free s p of None \<Rightarrow> None | Some s' \<Rightarrow> free_all s' ps)"

definition used_ptrs :: "blk list \<Rightarrow> ptr list" where
  "used_ptrs bs = map (\<lambda>b. fst b + 16) [b\<leftarrow>bs. \<not> is_free b]"

definition used_nonempty :: "blk list \<Rightarrow> bool" where
  "used_nonempty bs \<longleftrightarrow> (\<forall>b\<in>set bs. \<not> is_free b \<longrightarrow> 0 < fst (snd b))"

lemma coalesce_used_ptrs:
  "used_ptrs (coalesce pre p k post) = used_ptrs (pre @ post)"
  by (simp add: used_ptrs_def coalesce_used)

lemma coalesce_used_nonempty:
  "used_nonempty (pre @ (p, k, f) # post) \<Longrightarrow> used_nonempty (coalesce pre p k post)"
proof -
  have iff: "used_nonempty bs \<longleftrightarrow> (\<forall>b\<in>set [b\<leftarrow>bs. \<not> is_free b]. 0 < fst (snd b))" for bs
    unfolding used_nonempty_def by (simp only: set_filter) blast
  show "used_nonempty (pre @ (p, k, f) # post) \<Longrightarrow> used_nonempty (coalesce pre p k post)"
    unfolding iff coalesce_used by (simp only: set_filter set_append set_simps) blast
qed

lemma contiguous_distinct: "contiguous a bs e \<Longrightarrow> distinct (map fst bs)"
proof (induction bs arbitrary: a rule: span.induct)
  case (2 p k f bs)
  then have c: "contiguous (unat p + 16 + unat k) bs e" by simp
  have "p \<notin> fst ` set bs" using contiguous_mem [OF c] by fastforce
  with "2.IH" [OF c] show ?case by simp
qed simp

lemma distinct_used_ptrs: "contiguous a bs e \<Longrightarrow> distinct (used_ptrs bs)"
proof -
  assume "contiguous a bs e"
  then have "distinct (map fst [b\<leftarrow>bs. \<not> is_free b])" by (intro distinct_map_filter contiguous_distinct)
  then have "distinct (map (\<lambda>x. x + 16) (map fst [b\<leftarrow>bs. \<not> is_free b]))" by (subst distinct_map) (simp add: inj_on_def)
  then show ?thesis by (simp add: used_ptrs_def comp_def)
qed

lemma free_all_linked:
  "heap_linked s bs \<Longrightarrow> coalesced bs \<Longrightarrow> used_nonempty bs \<Longrightarrow> distinct ps \<Longrightarrow>
     set ps = set (used_ptrs bs) \<Longrightarrow>
     \<exists>s'. free_all s ps = Some s' \<and> heap_linked s' [(heap s, heap_size s - 16, True)]"
proof (induction ps arbitrary: s bs)
  case Nil
  then have rep: "heap_rep s bs" by (simp add: heap_linked_def)
  from Nil have "used_ptrs bs = []" by simp
  then have "[b\<leftarrow>bs. \<not> is_free b] = []" by (simp only: used_ptrs_def map_is_Nil_conv)
  with coalesced_all_free [OF Nil(2)] rep obtain p k f where b: "bs = [(p, k, f)]" "f"
    by (auto simp: heap_rep_def is_free_def split: if_splits)
  with rep have c: "unat p = unat (heap s)" "16 + unat k = unat (heap_size s)" by (auto simp: heap_rep_def)
  then have "p = heap s" "k = heap_size s - 16" by (auto simp: unat_arith_simps(3) unat_sub_if')
  with Nil b show ?case by auto
next
  case (Cons p ps)
  have rep: "heap_rep s bs" using Cons.prems(1) by (simp add: heap_linked_def)
  from Cons.prems(5) obtain q k where q: "(q, k, False) \<in> set bs" "p = q + 16"
    by (force simp: used_ptrs_def is_free_def)
  then obtain pre post where bs: "bs = pre @ (q, k, False) # post" by (auto dest: split_list)
  have k0: "0 < k" using Cons.prems(3) q by (force simp: used_nonempty_def is_free_def)
  from free_linked [OF Cons.prems(1) bs k0] obtain m'
    where m': "free s (q + 16) = Some (s\<lparr>mem := m'\<rparr>)" "heap_linked (s\<lparr>mem := m'\<rparr>) (coalesce pre q k post)" by blast
  have "distinct (used_ptrs bs)" using rep distinct_used_ptrs by (auto simp: heap_rep_def)
  moreover have "used_ptrs bs = used_ptrs pre @ p # used_ptrs post"
    by (simp add: used_ptrs_def bs q(2) is_free_def)
  ultimately have "set ps = set (used_ptrs (coalesce pre q k post))"
    using Cons.prems(4,5) by (auto simp: coalesce_used_ptrs) (auto simp: used_ptrs_def)
  with Cons.IH [OF m'(2)] Cons.prems bs coalesce_coalesced coalesce_used_nonempty
  obtain s' where "free_all (s\<lparr>mem := m'\<rparr>) ps = Some s'"
    "heap_linked s' [(heap s, heap_size s - 16, True)]" by auto
  with m'(1) q(2) show ?case by simp
qed

section \<open>Initial state and evaluation\<close>

lemma init_linked:
  assumes "16 \<le> unat buffer" "16 \<le> unat n" "unat buffer + unat n \<le> 2 ^ 32" "unat n \<le> 2 ^ 30"
  shows "heap_linked (init_heap s buffer n) [(buffer, n - 16, True)]"
proof -
  have "hdr_ok buffer" using assms by (simp add: hdr_ok_def)
  moreover have "unat (n - 16) = unat n - 16" using assms by (simp add: unat_sub_if')
  ultimately show ?thesis
    using assms by (simp add: heap_linked_def heap_rep_def init_heap_def Let_def)
qed

definition boot_heap :: heap_state where
  "boot_heap = init_heap \<lparr>heap = 0, heap_size = 0, first_entry = 0, mem = \<lambda>_. 0\<rparr> 0x1000 0x400"

definition full_heap :: heap_state where
  "full_heap = boot_heap\<lparr>mem := set_free (mem boot_heap) 0x1000 0\<rparr>"

lemma boot_heap_linked: "heap_linked boot_heap [(0x1000, 0x3F0, True)]"
  unfolding boot_heap_def using init_linked [of "0x1000" "0x400"] by simp

lemma full_heap_linked: "heap_linked full_heap [(0x1000, 0x3F0, False)]"
  by (simp add: heap_linked_def heap_rep_def full_heap_def boot_heap_def init_heap_def Let_def hdr_ok_def)

lemmas linked_rep = heap_linked_def [THEN iffD1, THEN conjunct1]

lemmas heap_eval = malloc_def malloc_loop.simps [of _ _ "numeral k" for k] init_heap_def heap_split_def
  heap_merge_def free_def free_prev_loop.simps [of _ "numeral k" for k]
  free_next_loop.simps [of _ "numeral k" for k] realloc_def malloc_aligned_def
  malloc_aligned_loop.simps [of _ _ _ "numeral k" for k] hdr_ok_def apart_def Let_def

section \<open>Properties\<close>

text \<open>\<open>init_heap\<close> on a region that fits the address space yields a well-linked heap with one
  free block that spans the region less its header.\<close>

theorem init_heap_linked:
  assumes "16 \<le> unat buffer" "16 \<le> unat n" "unat buffer + unat n \<le> 2 ^ 32" "unat n \<le> 2 ^ 30"
  shows "heap_linked (init_heap s buffer n) [(buffer, n - 16, True)]"
  using assms by (rule init_linked)

theorem init_heap_linked_witness:
  "heap_linked (init_heap boot_heap 0x210000 0x90000) [(0x210000, 0x8FFF0, True)]"
  using init_heap_linked [of "0x210000" "0x90000"] by simp

text \<open>C2: on a well-formed heap \<open>malloc\<close> returns (its list walk ends), and it implements first
  fit: the new block list and the returned pointer are those of \<open>ff_malloc\<close>, and every byte
  it writes lies in a block that was free.\<close>

theorem malloc_first_fit:
  assumes "heap_rep s bs" "n \<noteq> 0"
  shows "\<exists>m'. malloc s n = Some (s\<lparr>mem := m'\<rparr>, snd (ff_malloc bs n)) \<and>
           heap_rep (s\<lparr>mem := m'\<rparr>) (fst (ff_malloc bs n)) \<and> only_at (mem s) m' (in_free bs)"
  using assms by (rule malloc_rep)

theorem malloc_first_fit_witness:
  "\<exists>m'. malloc boot_heap 200 = Some (boot_heap\<lparr>mem := m'\<rparr>, 0x1010) \<and>
     heap_rep (boot_heap\<lparr>mem := m'\<rparr>) [(0x1000, 200, False), (0x10D8, 792, True)]"
  using malloc_first_fit [OF linked_rep [OF boot_heap_linked], of 200] by auto

text \<open>C1: \<open>malloc\<close> hands out at least the bytes asked for, disjoint from every live allocation,
  and leaves every live allocation owned and its bytes unchanged.\<close>

theorem malloc_isolates:
  assumes "heap_ok s" "malloc s n = Some (s', p)" "p \<noteq> NULL"
  shows "\<exists>k\<ge>n. heap_owns s' p k \<and>
           (\<forall>q j. heap_owns s q j \<longrightarrow> heap_owns s' q j \<and> apart p (unat k) q (unat j) \<and>
                  same_on (mem s) (mem s') q (unat j))"
proof -
  from kheap.alloc_owns [OF assms] obtain k where k: "n \<le> k" "heap_owns s' p k" by blast
  have "apart p (unat k) q (unat j)" if "heap_owns s q j" for q j
    using kheap.alloc_keeps [OF assms(1,2) that] kheap.alloc_fresh [OF assms that] k(2)
    by (intro kheap.owns_apart [OF kheap.alloc_inv [OF assms(1,2)]]) auto
  with k kheap.alloc_keeps [OF assms(1,2)] show ?thesis by blast
qed

theorem malloc_isolates_witness:
  "\<exists>s' k. malloc boot_heap 200 = Some (s', 0x1010) \<and> 200 \<le> k \<and> heap_owns s' 0x1010 k"
proof -
  have r: "heap_rep boot_heap [(0x1000, 0x3F0, True)]" by (rule linked_rep [OF boot_heap_linked])
  from malloc_rep [OF r, of 200] obtain s' where s': "malloc boot_heap 200 = Some (s', 0x1010)" by auto
  have "heap_ok boot_heap" using r by (auto simp: heap_ok_def)
  from malloc_isolates [OF this s'] s' show ?thesis by auto
qed

text \<open>C27: any sequence of \<open>malloc\<close> calls on a well-formed heap returns, and the regions it hands
  out are pairwise disjoint.\<close>

theorem malloc_sequence_disjoint:
  assumes "heap_ok s"
  shows "\<exists>s' ps. alloc_all malloc s ns = Some (s', ps) \<and> heap_ok s' \<and> length ps = length ns \<and>
           (\<forall>i j. i < j \<and> j < length ns \<and> ps ! i \<noteq> NULL \<and> ps ! j \<noteq> NULL \<longrightarrow>
              apart (ps ! i) (unat (ns ! i)) (ps ! j) (unat (ns ! j)))"
proof -
  from kheap.alloc_all_total [OF assms, of ns] obtain s' ps where "alloc_all malloc s ns = Some (s', ps)" by blast
  with kheap.alloc_all_keeps [OF assms this] kheap.alloc_all_apart [OF assms this] show ?thesis by blast
qed

theorem malloc_sequence_disjoint_witness:
  "\<exists>s' ps. alloc_all malloc boot_heap [100, 200, 300] = Some (s', ps) \<and> length ps = 3"
proof -
  have "heap_ok boot_heap" using linked_rep [OF boot_heap_linked] by (auto simp: heap_ok_def)
  from malloc_sequence_disjoint [OF this, of "[100, 200, 300]"] show ?thesis by auto
qed

text \<open>C35: \<open>malloc\<close> fails exactly when no free block is large enough.\<close>

theorem malloc_null_iff:
  assumes "heap_rep s bs" "n \<noteq> 0"
  shows "(\<exists>s'. malloc s n = Some (s', NULL)) \<longleftrightarrow> (\<forall>b\<in>set bs. \<not> fits n b)"
  using assms by (rule malloc_result) (use assms(2) in \<open>auto simp: fits_def\<close>)

theorem malloc_null_iff_witness:
  "\<exists>s'. malloc boot_heap 0x3F1 = Some (s', NULL)"
  using malloc_null_iff [OF linked_rep [OF boot_heap_linked], of "0x3F1"] by (simp add: fits_def)






text \<open>Growing into the free neighbour, \<open>realloc\<close> calls \<open>split\<close> without room for the header of
  the remainder: the remainder's size wraps around, and \<open>malloc\<close> then hands out 64 KiB of a
  1 KiB heap.\<close>

theorem realloc_remainder_wraps:
  "\<exists>s1 s2 s3. malloc (init_heap s 0x1000 0x400) 100 = Some (s1, 0x1010) \<and>
     realloc s1 0x1010 1000 = Some (s2, 0x1010) \<and> bh_size (hdr (mem s2) 0x13F8) = 0xFFFFFFF8 \<and>
     malloc s2 0x10000 = Some (s3, 0x1408)"
  by (simp add: heap_eval)

text \<open>\<open>malloc_aligned\<close> returns an unaligned block when the padding is exactly one header:
  neither the skip test (less) nor the split test (greater) applies.\<close>

theorem malloc_aligned_unaligned:
  "\<exists>s'. malloc_aligned (init_heap s 0x1000 0x400) 100 32 = Some (s', 0x1010) \<and>
     (0x1010 :: u32) AND 31 \<noteq> 0"
  by (simp add: heap_eval)

end
