(* ===== verification/Files.thy ===== *)
theory Files
  imports Heap "HOL-Library.Monad_Syntax"
begin

text \<open>
  The objects of \<open>kernel/filesystem/virtual-filesystem.h\<close> shared by the drivers: index
  nodes and open files, in typed stores indexed by their (heap) addresses. The function
  table \<open>VFSFileOperations\<close> of a node is the name of the driver that fills it; the tables
  themselves are \<open>get_*_file_operations\<close> of the drivers. The kernel state is a chain of
  record extensions that starts with \<open>heap_state\<close>, so every driver works on any larger state.
\<close>

datatype fops_tag = No_Ops | Hdd_Ops | Tty_Ops | Kbd_Ops | Fs_Ops

record VFSIndexNode =
  in_type :: u32
  in_size :: u32
  file_operations :: fops_tag
  in_private_data :: ptr
  number_of_references :: u32

record VFSFile =
  f_inode :: ptr
  f_private_data :: ptr
  f_private_data_size :: u32
  f_position :: u32

abbreviation (input) "VFS_BEG \<equiv> 1 :: u32"
abbreviation (input) "VFS_CUR \<equiv> 2 :: u32"
abbreviation (input) "VFS_END \<equiv> 3 :: u32"

abbreviation (input) "VFS_ERROR \<equiv> 0 :: u32"
abbreviation (input) "VFS_REGULAR_FILE \<equiv> 1 :: u32"
abbreviation (input) "VFS_DIRECTORY \<equiv> 2 :: u32"
abbreviation (input) "VFS_BLOCK_DEVICE \<equiv> 2 :: u32"
abbreviation (input) "VFS_CHARACTER_DEVICE \<equiv> 3 :: u32"

abbreviation (input) "sizeof_VFSFile \<equiv> 16 :: u32"
abbreviation (input) "sizeof_VFSIndexNode \<equiv> 48 :: u32"

record file_state = heap_state +
  files :: "ptr \<Rightarrow> VFSFile"
  inode_tab :: "ptr \<Rightarrow> VFSIndexNode"

section \<open>The allocator changes nothing but the memory\<close>

definition same_but_mem :: "'a heap_state_scheme \<Rightarrow> 'a heap_state_scheme \<Rightarrow> bool" where
  "same_but_mem s s' \<longleftrightarrow> s' = s\<lparr>mem := mem s'\<rparr>"

lemma same_but_mem_refl [simp]: "same_but_mem s s" "same_but_mem s (s\<lparr>mem := m\<rparr>)"
  by (simp_all add: same_but_mem_def)

lemma same_but_mem_trans: "same_but_mem s s' \<Longrightarrow> same_but_mem s' s'' \<Longrightarrow> same_but_mem s s''"
  by (cases s; cases s'; cases s'') (simp add: same_but_mem_def)

lemma same_but_mem_upd [simp]: "same_but_mem (s\<lparr>mem := m\<rparr>) s' \<longleftrightarrow> same_but_mem s s'"
  by (cases s; cases s') (simp add: same_but_mem_def)

lemma malloc_frame [frame]: "malloc s n = Some (s', p) \<Longrightarrow> same_but_mem s s'"
  by (auto simp: malloc_def split: if_splits)

lemma calloc_frame [frame]: "calloc s n sz = Some (s', p) \<Longrightarrow> same_but_mem s s'"
  by (auto simp: calloc_def dest: malloc_frame split: if_splits)

lemma malloc_aligned_frame [frame]: "malloc_aligned s n a = Some (s', p) \<Longrightarrow> same_but_mem s s'"
  by (auto simp: malloc_aligned_def split: if_splits)

lemma free_frame [frame]: "free s p = Some s' \<Longrightarrow> same_but_mem s s'"
  by (auto simp: free_def Let_def split: if_splits option.splits)

lemma realloc_move_frame: "realloc_move s p n = Some (s', q) \<Longrightarrow> same_but_mem s s'"
  unfolding realloc_move_def
  by (auto simp: Let_def split: if_splits option.splits prod.splits
      dest!: malloc_frame free_frame intro: same_but_mem_trans)

lemma realloc_frame [frame]: "realloc s p n = Some (s', q) \<Longrightarrow> same_but_mem s s'"
  unfolding realloc_def
  by (auto simp: Let_def split: if_splits option.splits prod.splits
      dest!: malloc_frame free_frame realloc_move_frame intro: same_but_mem_trans)

end
