(* ===== verification/Keyboard.thy ===== *)
theory Keyboard
  imports Files
begin

text \<open>
  \<open>kernel/keyboard/keyboard.c\<close>: one ring buffer of 32 events per open keyboard file. The
  \<open>start\<close> and \<open>end\<close> pointers into the buffer are indices. \<open>keyboard_file_data\<close> is an array of
  pointers with its length kept separately, as in the code.
\<close>

section \<open>Data\<close>

record KeyboardEvent =
  ev_scancode :: u16
  ev_type :: u8

abbreviation "KEY_PRESSED \<equiv> 1 :: u8"
abbreviation "KEY_RELEASED \<equiv> 2 :: u8"
abbreviation "FILE_BUFFER_SIZE \<equiv> 32 :: nat"
abbreviation "sizeof_KeyboardEvent \<equiv> 3 :: u32"
abbreviation "sizeof_KeyboardFileData \<equiv> 104 :: u32"

record KeyboardFileData =
  kb_buffer :: "KeyboardEvent list"
  kb_start :: nat
  kb_end :: nat

record kbd_state = file_state +
  keyboard_file_data :: ptr
  keyboard_slots :: "nat \<Rightarrow> ptr"
  keyboard_file_data_length :: u32
  keyboard_data :: "ptr \<Rightarrow> KeyboardFileData"

section \<open>Operations\<close>

definition make_event :: "u8 \<Rightarrow> KeyboardEvent" where
  "make_event scancode =
     \<lparr>ev_scancode = ucast (scancode AND NOT (push_bit 7 1)),
      ev_type = (if scancode AND push_bit 7 1 \<noteq> 0 then KEY_RELEASED else KEY_PRESSED)\<rparr>"

text \<open>The body of the loop of \<open>on_event\<close>, for one file.\<close>

definition buffer_event :: "KeyboardFileData \<Rightarrow> u8 \<Rightarrow> KeyboardFileData" where
  "buffer_event fd scancode =
     (let buf = (kb_buffer fd)[kb_end fd := make_event scancode];
          e1 = kb_end fd + 1;
          e2 = (if FILE_BUFFER_SIZE \<le> e1 then 0 else e1);
          s1 = (if e2 = kb_start fd
                then (let s' = kb_start fd + 1 + 1 in if FILE_BUFFER_SIZE \<le> s' then 0 else s')
                else kb_start fd)
      in \<lparr>kb_buffer = buf, kb_start = s1, kb_end = e2\<rparr>)"

definition on_event :: "'a kbd_state_scheme \<Rightarrow> u8 \<Rightarrow> 'a kbd_state_scheme" where
  "on_event s scancode =
     s\<lparr>keyboard_data :=
         fold (\<lambda>i kd. kd(keyboard_slots s i := buffer_event (kd (keyboard_slots s i)) scancode))
           [0..<unat (keyboard_file_data_length s)] (keyboard_data s)\<rparr>"

definition keyboard_open :: "'a kbd_state_scheme \<Rightarrow> ptr \<Rightarrow> ('a kbd_state_scheme \<times> ptr) option" where
  "keyboard_open s inode = do {
     (s1, file) \<leftarrow> malloc s sizeof_VFSFile;
     if file = NULL then Some (s1, NULL) else do {
     (s2, fd) \<leftarrow> malloc s1 sizeof_KeyboardFileData;
     if fd = NULL then do { s3 \<leftarrow> free s2 file; Some (s3, NULL) } else do {
     let s3 = s2\<lparr>keyboard_data := (keyboard_data s2)(fd :=
                   \<lparr>kb_buffer = replicate FILE_BUFFER_SIZE \<lparr>ev_scancode = 0, ev_type = 0\<rparr>,
                    kb_start = 0, kb_end = 0\<rparr>),
                 files := (files s2)(file :=
                   \<lparr>f_inode = inode, f_private_data = fd, f_private_data_size = 0, f_position = 0\<rparr>)\<rparr>;
     if keyboard_file_data_length s3 = 0 then do {
       (s4, arr) \<leftarrow> malloc (s3\<lparr>keyboard_file_data_length := 1\<rparr>) 4;
       Some (s4\<lparr>keyboard_file_data := arr, keyboard_slots := (keyboard_slots s4)(0 := fd)\<rparr>, file)
     } else do {
       let n = keyboard_file_data_length s3 + 1;
       (s4, temp) \<leftarrow> realloc (s3\<lparr>keyboard_file_data_length := n\<rparr>) (keyboard_file_data s3) (4 * n);
       if temp = NULL then do {
         s5 \<leftarrow> free s4 fd;
         s6 \<leftarrow> free s5 file;
         Some (s6, NULL)
       } else
         Some (s4\<lparr>keyboard_file_data := temp,
                  keyboard_slots := (keyboard_slots s4)(unat (n - 1) := fd)\<rparr>, file)
     }}}}"

text \<open>The search of \<open>keyboard_close\<close> compares with the array pointer, not with its elements.\<close>

definition close_index :: "'a kbd_state_scheme \<Rightarrow> ptr \<Rightarrow> u32 \<Rightarrow> u32" where
  "close_index s file n =
     (if 0 < n + 1 \<and> f_private_data (files s file) = keyboard_file_data s then 0 else n)"

definition keyboard_close :: "'a kbd_state_scheme \<Rightarrow> ptr \<Rightarrow> 'a kbd_state_scheme option" where
  "keyboard_close s file = do {
     let n = keyboard_file_data_length s - 1;
     let s1 = s\<lparr>keyboard_file_data_length := n\<rparr>;
     s3 \<leftarrow> (if n = 0 then free s1 (keyboard_file_data s1)
           else do {
             let s2 = s1\<lparr>keyboard_slots :=
                   (keyboard_slots s1)(unat (close_index s1 file n) := keyboard_slots s1 (unat n))\<rparr>;
             (s3, arr) \<leftarrow> realloc s2 (keyboard_file_data s2) (4 * n);
             Some (s3\<lparr>keyboard_file_data := arr\<rparr>) });
     s4 \<leftarrow> free s3 (f_private_data (files s3 file));
     free s4 file }"

definition store_event :: "bmem \<Rightarrow> ptr \<Rightarrow> KeyboardEvent \<Rightarrow> bmem" where
  "store_event m p ev = m(p := ucast (ev_scancode ev), p + 1 := ucast (drop_bit 8 (ev_scancode ev)),
                          p + 2 := ev_type ev)"

fun keyboard_read_loop :: "KeyboardFileData \<Rightarrow> bmem \<Rightarrow> ptr \<Rightarrow> nat \<Rightarrow> nat \<Rightarrow> KeyboardFileData \<times> bmem \<times> nat" where
  "keyboard_read_loop fd m buffer 0 i = (fd, m, i)"
| "keyboard_read_loop fd m buffer (Suc n) i =
     (if kb_start fd = kb_end fd then (fd, m, i)
      else
        let m' = store_event m buffer (kb_buffer fd ! kb_start fd);
            s' = kb_start fd + 1
        in keyboard_read_loop (fd\<lparr>kb_start := (if FILE_BUFFER_SIZE \<le> s' then 0 else s')\<rparr>) m'
             (buffer + sizeof_KeyboardEvent) n (i + 1))"

definition keyboard_read :: "'a kbd_state_scheme \<Rightarrow> ptr \<Rightarrow> ptr \<Rightarrow> u32 \<Rightarrow> 'a kbd_state_scheme \<times> u32" where
  "keyboard_read s file buffer buffer_size =
     (let number_to_read = buffer_size div sizeof_KeyboardEvent;
          p = f_private_data (files s file);
          (fd, m, i) = keyboard_read_loop (keyboard_data s p) (mem s) buffer (unat number_to_read) 0
      in (s\<lparr>keyboard_data := (keyboard_data s)(p := fd), mem := m\<rparr>, of_nat i))"

text \<open>The remaining operations of the table do nothing.\<close>

definition keyboard_write :: "'a kbd_state_scheme \<Rightarrow> ptr \<Rightarrow> ptr \<Rightarrow> u32 \<Rightarrow> 'a kbd_state_scheme \<times> u32" where
  "keyboard_write s file buffer buffer_size = (s, 0)"

definition keyboard_ioctl :: "'a kbd_state_scheme \<Rightarrow> ptr \<Rightarrow> ptr \<Rightarrow> ptr \<Rightarrow> 'a kbd_state_scheme" where
  "keyboard_ioctl s file command arg = s"

definition keyboard_seek :: "'a kbd_state_scheme \<Rightarrow> ptr \<Rightarrow> u32 \<Rightarrow> u32 \<Rightarrow> 'a kbd_state_scheme" where
  "keyboard_seek s file offset whence = s"

definition keyboard_tell :: "'a kbd_state_scheme \<Rightarrow> ptr \<Rightarrow> u32" where
  "keyboard_tell s file = 0"

definition keyboard_flush :: "'a kbd_state_scheme \<Rightarrow> ptr \<Rightarrow> 'a kbd_state_scheme" where
  "keyboard_flush s file = s"

section \<open>The queue of one file\<close>

text \<open>\<open>pending fd\<close>: the events not yet read, oldest first.\<close>

definition ring_inv :: "KeyboardFileData \<Rightarrow> bool" where
  "ring_inv fd \<longleftrightarrow> length (kb_buffer fd) = FILE_BUFFER_SIZE \<and> kb_start fd < FILE_BUFFER_SIZE \<and>
                   kb_end fd < FILE_BUFFER_SIZE"

definition ring_count :: "KeyboardFileData \<Rightarrow> nat" where
  "ring_count fd = (if kb_start fd \<le> kb_end fd then kb_end fd - kb_start fd
                    else kb_end fd + FILE_BUFFER_SIZE - kb_start fd)"

definition ring_at :: "nat \<Rightarrow> nat" where
  "ring_at i = (if i < FILE_BUFFER_SIZE then i else i - FILE_BUFFER_SIZE)"

definition pending :: "KeyboardFileData \<Rightarrow> KeyboardEvent list" where
  "pending fd = map (\<lambda>i. kb_buffer fd ! ring_at (kb_start fd + i)) [0..<ring_count fd]"

lemma length_pending [simp]: "length (pending fd) = ring_count fd"
  by (simp add: pending_def)

lemma nth_pending: "i < ring_count fd \<Longrightarrow> pending fd ! i = kb_buffer fd ! ring_at (kb_start fd + i)"
  by (simp add: pending_def)

lemmas ring_defs = ring_inv_def ring_count_def ring_at_def

lemma ring_count_less: "ring_inv fd \<Longrightarrow> ring_count fd < 32"
  by (auto simp: ring_defs)

lemma ring_index_neq_end:
  "ring_inv fd \<Longrightarrow> i < ring_count fd \<Longrightarrow> ring_at (kb_start fd + i) \<noteq> kb_end fd"
  by (simp add: ring_defs split: if_splits; arith)

lemma ring_index_end: "ring_inv fd \<Longrightarrow> ring_at (kb_start fd + ring_count fd) = kb_end fd"
  by (simp add: ring_defs split: if_splits; arith)

text \<open>\<open>buffer_event\<close> in terms of the fields: the slot written, the end, and the start moved
  over two slots when the buffer was full.\<close>

definition dropped :: "KeyboardFileData \<Rightarrow> nat" where
  "dropped fd = (if ring_count fd < 31 then 0 else if kb_start fd = 31 then 1 else 2)"

lemma buffer_event_inv: "ring_inv fd \<Longrightarrow> ring_inv (buffer_event fd sc)"
  by (auto simp: ring_inv_def buffer_event_def Let_def)

lemma buffer_event_buffer: "kb_buffer (buffer_event fd sc) = (kb_buffer fd)[kb_end fd := make_event sc]"
  by (simp add: buffer_event_def Let_def)

lemma ring_at_start: "ring_inv fd \<Longrightarrow> ring_at (kb_start fd) = kb_start fd"
  by (simp add: ring_defs)

lemma ring_full: "ring_inv fd \<Longrightarrow> ring_at (kb_end fd + 1) = kb_start fd \<longleftrightarrow> ring_count fd = 31"
  by (simp add: ring_defs split: if_splits; arith)

lemma buffer_event_start:
  "ring_inv fd \<Longrightarrow> kb_start (buffer_event fd sc) = ring_at (kb_start fd + dropped fd)"
  using ring_full [of fd] ring_count_less [of fd] ring_at_start [of fd]
  by (auto simp: buffer_event_def Let_def dropped_def ring_at_def ring_inv_def split: if_splits)

lemma buffer_event_end: "ring_inv fd \<Longrightarrow> kb_end (buffer_event fd sc) = ring_at (kb_end fd + 1)"
  by (simp add: ring_defs buffer_event_def Let_def)

lemma dropped_le: "ring_inv fd \<Longrightarrow> dropped fd \<le> ring_count fd"
  by (simp add: dropped_def)

lemma buffer_event_count:
  "ring_inv fd \<Longrightarrow> ring_count (buffer_event fd sc) = ring_count fd + 1 - dropped fd"
  by (simp add: ring_count_def [of "buffer_event fd sc"] buffer_event_start buffer_event_end)
    (cases "kb_end fd = 31"; cases "kb_start fd \<le> kb_end fd"; cases "ring_count fd < 31";
     simp add: ring_defs dropped_def; arith)

lemma ring_at_shift:
  "ring_inv fd \<Longrightarrow> i + dropped fd \<le> ring_count fd \<Longrightarrow>
     ring_at (kb_start (buffer_event fd sc) + i) = ring_at (kb_start fd + (dropped fd + i))"
  using ring_count_less [of fd] by (simp add: buffer_event_start) (auto simp: ring_defs split: if_splits)

text \<open>One event is appended; with 31 events waiting the two oldest go (one when the start is
  at the end of the buffer, where the code resets it after one step too many).\<close>

lemma buffer_event_pending:
  assumes inv: "ring_inv fd"
  shows "pending (buffer_event fd sc) = drop (dropped fd) (pending fd @ [make_event sc])"
proof (rule nth_equalityI)
  let ?fd = "buffer_event fd sc"
  show "length (pending ?fd) = length (drop (dropped fd) (pending fd @ [make_event sc]))"
    by (simp add: buffer_event_count [OF inv] del: drop_append)
  fix i assume "i < length (pending ?fd)"
  then have i: "i < ring_count ?fd" by simp
  then have d: "i + dropped fd \<le> ring_count fd" by (simp add: buffer_event_count [OF inv])
  have "pending ?fd ! i = (kb_buffer fd)[kb_end fd := make_event sc] ! ring_at (kb_start fd + (dropped fd + i))"
    using i d by (simp only: nth_pending buffer_event_buffer ring_at_shift [OF inv])
  also have "\<dots> = (pending fd @ [make_event sc]) ! (dropped fd + i)"
  proof (cases "dropped fd + i < ring_count fd")
    case True
    then show ?thesis
      using ring_index_neq_end [OF inv True] by (simp add: nth_append nth_pending)
  next
    case False
    with d have "dropped fd + i = ring_count fd" by simp
    then show ?thesis
      using ring_index_end [OF inv] inv by (simp add: nth_append ring_inv_def)
  qed
  also have "\<dots> = drop (dropped fd) (pending fd @ [make_event sc]) ! i"
    using d by (intro nth_drop [symmetric]) simp
  finally show "pending ?fd ! i = drop (dropped fd) (pending fd @ [make_event sc]) ! i" .
qed

text \<open>A burst of events that fits is queued in order.\<close>

lemma buffer_events_pending:
  "ring_inv fd \<Longrightarrow> ring_count fd + length scs < 32 \<Longrightarrow>
     ring_inv (foldl buffer_event fd scs) \<and> pending (foldl buffer_event fd scs) = pending fd @ map make_event scs"
proof (induction scs arbitrary: fd)
  case (Cons sc scs)
  have "dropped fd = 0" using Cons.prems by (simp add: dropped_def)
  then have "pending (buffer_event fd sc) = pending fd @ [make_event sc]"
    by (simp add: buffer_event_pending [OF Cons.prems(1)])
  moreover have "ring_count (buffer_event fd sc) = ring_count fd + 1"
    using \<open>dropped fd = 0\<close> by (simp add: buffer_event_count [OF Cons.prems(1)])
  ultimately show ?case
    using Cons.IH [of "buffer_event fd sc"] Cons.prems buffer_event_inv [OF Cons.prems(1)] by simp
qed simp

section \<open>Reading\<close>

fun store_events :: "bmem \<Rightarrow> ptr \<Rightarrow> KeyboardEvent list \<Rightarrow> bmem" where
  "store_events m p [] = m"
| "store_events m p (e # es) = store_events (store_event m p e) (p + sizeof_KeyboardEvent) es"

definition advance :: "KeyboardFileData \<Rightarrow> KeyboardFileData" where
  "advance fd = fd\<lparr>kb_start := (if FILE_BUFFER_SIZE \<le> kb_start fd + 1 then 0 else kb_start fd + 1)\<rparr>"

lemma ring_count_0_iff: "ring_inv fd \<Longrightarrow> ring_count fd = 0 \<longleftrightarrow> kb_start fd = kb_end fd"
  by (auto simp: ring_defs split: if_splits)

lemma advance_inv: "ring_inv fd \<Longrightarrow> ring_inv (advance fd)"
  by (auto simp: ring_inv_def advance_def)

lemma advance_count: "ring_inv fd \<Longrightarrow> kb_start fd \<noteq> kb_end fd \<Longrightarrow> ring_count fd = Suc (ring_count (advance fd))"
  by (auto simp: ring_defs advance_def split: if_splits)

lemma pending_Cons:
  assumes inv: "ring_inv fd" and ne: "kb_start fd \<noteq> kb_end fd"
  shows "pending fd = kb_buffer fd ! kb_start fd # pending (advance fd)"
proof (rule nth_equalityI)
  show "length (pending fd) = length (kb_buffer fd ! kb_start fd # pending (advance fd))"
    by (simp add: advance_count [OF inv ne])
  fix i assume i: "i < length (pending fd)"
  show "pending fd ! i = (kb_buffer fd ! kb_start fd # pending (advance fd)) ! i"
  proof (cases i)
    case 0
    with i show ?thesis by (simp add: nth_pending ring_at_start [OF inv])
  next
    case (Suc j)
    have j: "j < ring_count (advance fd)" using i Suc advance_count [OF inv ne] by simp
    then have "ring_at (kb_start (advance fd) + j) = ring_at (kb_start fd + Suc j)"
      using inv ring_count_less [OF advance_inv [OF inv]] by (auto simp: ring_inv_def ring_at_def advance_def)
    moreover have "kb_buffer (advance fd) = kb_buffer fd" by (simp add: advance_def)
    ultimately show ?thesis using i j Suc by (simp add: nth_pending)
  qed
qed

lemma keyboard_read_loop_Suc:
  "keyboard_read_loop fd m buffer (Suc n) i =
     (if kb_start fd = kb_end fd then (fd, m, i)
      else keyboard_read_loop (advance fd) (store_event m buffer (kb_buffer fd ! kb_start fd))
             (buffer + sizeof_KeyboardEvent) n (i + 1))"
  by (simp add: advance_def Let_def)

lemma keyboard_read_loop_spec:
  "ring_inv fd \<Longrightarrow> keyboard_read_loop fd m buffer n i =
     ((advance ^^ min n (ring_count fd)) fd, store_events m buffer (take n (pending fd)), i + min n (ring_count fd))"
proof (induction n arbitrary: fd m buffer i)
  case (Suc n)
  show ?case
  proof (cases "kb_start fd = kb_end fd")
    case True
    then have "ring_count fd = 0" using ring_count_0_iff [OF Suc.prems] by simp
    then show ?thesis using True by (simp add: pending_def)
  next
    case False
    then show ?thesis
      using Suc.IH [OF advance_inv [OF Suc.prems]]
      by (simp add: advance_count [OF Suc.prems False] pending_Cons [OF Suc.prems False]
          keyboard_read_loop_Suc funpow_Suc_right del: keyboard_read_loop.simps funpow.simps)
  qed
qed simp

lemma advance_pending:
  "ring_inv fd \<Longrightarrow> k \<le> ring_count fd \<Longrightarrow>
     ring_inv ((advance ^^ k) fd) \<and> pending ((advance ^^ k) fd) = drop k (pending fd)"
proof (induction k arbitrary: fd)
  case (Suc k)
  from Suc.prems have ne: "kb_start fd \<noteq> kb_end fd" using ring_count_0_iff [OF Suc.prems(1)] by simp
  show ?case
    using Suc.IH [OF advance_inv [OF Suc.prems(1)]] Suc.prems(2)
    by (simp add: advance_count [OF Suc.prems(1) ne] pending_Cons [OF Suc.prems(1) ne] funpow_Suc_right
        del: funpow.simps)
qed simp

section \<open>All open files\<close>

text \<open>The table holds distinct, well-formed queues.\<close>

definition kbd_inv :: "'a kbd_state_scheme \<Rightarrow> bool" where
  "kbd_inv s \<longleftrightarrow> inj_on (keyboard_slots s) {..<unat (keyboard_file_data_length s)} \<and>
     (\<forall>i<unat (keyboard_file_data_length s). ring_inv (keyboard_data s (keyboard_slots s i)))"

lemma fold_slots:
  "inj_on slot (set is) \<Longrightarrow> distinct is \<Longrightarrow>
     fold (\<lambda>i kd. kd(slot i := g (kd (slot i)))) is kd p =
       (if p \<in> slot ` set is then g (kd p) else kd p)"
proof (induction "is" arbitrary: kd)
  case (Cons i js)
  then have "slot i \<notin> slot ` set js" by (auto simp: inj_on_def)
  with Cons show ?case by auto
qed simp

lemma on_event_data:
  "inj_on (keyboard_slots s) {..<unat (keyboard_file_data_length s)} \<Longrightarrow>
   keyboard_data (on_event s sc) p =
     (if p \<in> keyboard_slots s ` {..<unat (keyboard_file_data_length s)}
      then buffer_event (keyboard_data s p) sc else keyboard_data s p)"
  by (simp add: on_event_def fold_slots [where g = "\<lambda>fd. buffer_event fd sc"] atLeast0LessThan)

lemma on_event_simps [simp]:
  "keyboard_slots (on_event s sc) = keyboard_slots s"
  "keyboard_file_data_length (on_event s sc) = keyboard_file_data_length s"
  "mem (on_event s sc) = mem s" "files (on_event s sc) = files s"
  by (simp_all add: on_event_def)

lemma on_event_inv: "kbd_inv s \<Longrightarrow> kbd_inv (on_event s sc)"
  by (simp add: kbd_inv_def on_event_data buffer_event_inv)

lemma on_events_simps [simp]:
  "keyboard_slots (foldl on_event s scs) = keyboard_slots s"
  "keyboard_file_data_length (foldl on_event s scs) = keyboard_file_data_length s"
  "mem (foldl on_event s scs) = mem s" "files (foldl on_event s scs) = files s"
  by (induction scs arbitrary: s) simp_all

lemma on_events_data:
  "kbd_inv s \<Longrightarrow> i < unat (keyboard_file_data_length s) \<Longrightarrow>
   keyboard_data (foldl on_event s scs) (keyboard_slots s i) =
     foldl buffer_event (keyboard_data s (keyboard_slots s i)) scs"
proof (induction scs arbitrary: s)
  case (Cons sc scs)
  have "keyboard_data (on_event s sc) (keyboard_slots s i) =
      buffer_event (keyboard_data s (keyboard_slots s i)) sc"
    using Cons.prems by (subst on_event_data) (auto simp: kbd_inv_def)
  then show ?case using Cons.IH [OF on_event_inv [OF Cons.prems(1), of sc]] Cons.prems(2) by simp
qed simp

lemma keyboard_read_spec:
  assumes "ring_inv (keyboard_data s (f_private_data (files s file)))"
  shows "keyboard_read s file buffer n =
    (let p = f_private_data (files s file); fd = keyboard_data s p;
         k = min (unat n div 3) (length (pending fd))
     in (s\<lparr>keyboard_data := (keyboard_data s)(p := (advance ^^ k) fd),
           mem := store_events (mem s) buffer (take k (pending fd))\<rparr>, of_nat k))"
proof -
  have "unat (n div 3) = unat n div 3" by (simp add: unat_div)
  moreover have "take (min j (length xs)) xs = take j xs" for j and xs :: "KeyboardEvent list"
    by (simp add: min_def)
  ultimately show ?thesis
    unfolding keyboard_read_def
    by (simp add: keyboard_read_loop_spec [OF assms] Let_def del: length_pending)
      (simp only: length_pending)
qed

text \<open>One open file at slot 0 with an empty queue.\<close>

definition kbd_demo :: kbd_state where
  "kbd_demo = \<lparr>heap = 0, heap_size = 0, first_entry = 0, mem = (\<lambda>_. 0),
     files = (\<lambda>_. \<lparr>f_inode = 0, f_private_data = 0x2000, f_private_data_size = 0, f_position = 0\<rparr>),
     inode_tab = (\<lambda>_. \<lparr>in_type = 0, in_size = 0, file_operations = Kbd_Ops, in_private_data = 0, number_of_references = 0\<rparr>),
     keyboard_file_data = 0x3000, keyboard_slots = (\<lambda>i. 0x2000 + of_nat i),
     keyboard_file_data_length = 1,
     keyboard_data = (\<lambda>_. \<lparr>kb_buffer = replicate 32 \<lparr>ev_scancode = 0, ev_type = 0\<rparr>, kb_start = 0, kb_end = 0\<rparr>)\<rparr>"

lemma kbd_demo_facts:
  "kbd_inv kbd_demo" "keyboard_slots kbd_demo 0 = 0x2000" "keyboard_file_data_length kbd_demo = 1"
  "f_private_data (files kbd_demo f) = 0x2000" "pending (keyboard_data kbd_demo p) = []"
  by (simp_all add: kbd_demo_def kbd_inv_def ring_inv_def pending_def ring_count_def lessThan_Suc)

section \<open>Properties\<close>

text \<open>C30: A key event reaches the queue of every open keyboard file: it is appended to the events
  waiting there, and only when 31 are waiting the oldest two are lost (one, if the read position
  is the last slot). The queues stay well formed.\<close>

theorem on_event_queues:
  assumes "kbd_inv s" and "i < unat (keyboard_file_data_length s)"
  shows "pending (keyboard_data (on_event s scancode) (keyboard_slots s i)) =
    (let fd = keyboard_data s (keyboard_slots s i)
     in drop (if length (pending fd) < 31 then 0 else if kb_start fd = 31 then 1 else 2)
          (pending fd @ [make_event scancode])) \<and> kbd_inv (on_event s scancode)"
  using assms buffer_event_pending [of "keyboard_data s (keyboard_slots s i)" scancode] on_event_inv [OF assms(1)]
  by (subst on_event_data) (auto simp: kbd_inv_def dropped_def Let_def)

theorem on_event_queues_witness:
  "pending (keyboard_data (on_event kbd_demo 0x9E) 0x2000) = [\<lparr>ev_scancode = 0x1E, ev_type = KEY_RELEASED\<rparr>]"
  using on_event_queues [OF kbd_demo_facts(1), of 0 "0x9E"]
  by (simp add: kbd_demo_facts Let_def make_event_def)

text \<open>C23: Reading a keyboard file is first in, first out: when at most 31 events arrive on an empty
  queue, a read with room for them stores exactly these events, in the order of arrival, returns
  their number and leaves the queue empty. (The number is of events, not of bytes.)\<close>

theorem keyboard_read_fifo:
  assumes inv: "kbd_inv s" and i: "i < unat (keyboard_file_data_length s)"
    and fp: "f_private_data (files s file) = keyboard_slots s i"
    and empty: "pending (keyboard_data s (keyboard_slots s i)) = []"
    and few: "length scancodes \<le> 31" and room: "3 * length scancodes \<le> unat buffer_size"
    and read: "keyboard_read (foldl on_event s scancodes) file buffer buffer_size = (s', n)"
  shows "mem s' = store_events (mem s) buffer (map make_event scancodes) \<and>
    unat n = length scancodes \<and> pending (keyboard_data s' (keyboard_slots s i)) = []"
proof -
  let ?fd = "foldl buffer_event (keyboard_data s (keyboard_slots s i)) scancodes"
  have r: "ring_inv (keyboard_data s (keyboard_slots s i))" using inv i by (simp add: kbd_inv_def)
  have c: "ring_count (keyboard_data s (keyboard_slots s i)) = 0" using empty by (metis length_pending list.size(3))
  have p: "ring_inv ?fd" "pending ?fd = map make_event scancodes"
    using buffer_events_pending [OF r, of scancodes] c few empty by simp_all
  have k: "min (unat buffer_size div 3) (length (pending ?fd)) = length scancodes" using room p(2) by simp
  show ?thesis
    using read keyboard_read_spec [of "foldl on_event s scancodes" "file" buffer buffer_size]
      p k few advance_pending [of ?fd "length scancodes"]
    by (auto simp: fp on_events_data [OF inv i] Let_def unat_of_nat_u32 length_pending [symmetric] simp del: length_pending)
qed

theorem keyboard_read_fifo_witness:
  "case keyboard_read (foldl on_event kbd_demo [0x1E, 0x9E]) 0 0x100 6 of (s', n) \<Rightarrow>
     mem s' = store_events (mem kbd_demo) 0x100 [make_event 0x1E, make_event 0x9E] \<and> unat n = 2 \<and>
     pending (keyboard_data s' 0x2000) = []"
proof -
  obtain s' n where r: "keyboard_read (foldl on_event kbd_demo [0x1E, 0x9E]) 0 0x100 6 = (s', n)" by fastforce
  show ?thesis
    using keyboard_read_fifo [OF kbd_demo_facts(1) _ _ _ _ _ r, of 0] r
    by (auto simp: kbd_demo_facts)
qed

text \<open>Closing one of several open keyboard files does not remove its queue from the table: unless
  the file's data happens to be the table itself, the last entry is dropped, whichever file is closed.
  The entry of the closed file stays and points to freed memory.\<close>

theorem keyboard_close_drops_last:
  assumes "keyboard_close s f = Some s'" and "1 < keyboard_file_data_length s"
    and "f_private_data (files s f) \<noteq> keyboard_file_data s"
  shows "keyboard_slots s' = keyboard_slots s \<and>
    keyboard_file_data_length s' = keyboard_file_data_length s - 1 \<and> keyboard_data s' = keyboard_data s"
proof -
  have n: "keyboard_file_data_length s - 1 \<noteq> 0" using assms(2) by auto
  have fr: "keyboard_slots b = keyboard_slots a \<and> keyboard_file_data_length b = keyboard_file_data_length a \<and>
      keyboard_data b = keyboard_data a" if "same_but_mem a b" for a b :: "'a kbd_state_scheme"
    using that by (cases a; cases b) (simp add: same_but_mem_def)
  show ?thesis
    using assms n
    by (auto simp: keyboard_close_def close_index_def Let_def split: bind_splits option.splits
        dest!: realloc_frame free_frame fr)
qed

text \<open>Two open files: the table is the first heap block (0x1010), the first file and its data are
  the next two blocks (0x1028, 0x1048).\<close>

definition kbd_two :: kbd_state where
  "kbd_two =
     (let s0 = init_heap kbd_demo 0x1000 0x1000;
          (s1, arr) = the (malloc s0 8);
          (s2, f) = the (malloc s1 sizeof_VFSFile);
          (s3, fd) = the (malloc s2 sizeof_KeyboardFileData)
      in s3\<lparr>keyboard_file_data := arr, keyboard_file_data_length := 2,
           keyboard_slots := (\<lambda>i. if i = 0 then fd else 0x3000),
           files := (files s3)(f := \<lparr>f_inode = 0x500, f_private_data = fd, f_private_data_size = 0, f_position = 0\<rparr>)\<rparr>)"

lemma kbd_two_close: "\<exists>s'. keyboard_close kbd_two 0x1028 = Some s'"
  by (simp add: kbd_two_def keyboard_close_def heap_eval)

lemma kbd_two_facts: "keyboard_file_data kbd_two = 0x1010" "keyboard_file_data_length kbd_two = 2"
  "keyboard_slots kbd_two 0 = 0x1048" "f_private_data (files kbd_two 0x1028) = 0x1048"
  by (simp_all add: kbd_two_def heap_eval)

theorem keyboard_close_drops_last_witness:
  "case keyboard_close kbd_two 0x1028 of None \<Rightarrow> False
   | Some s' \<Rightarrow> keyboard_file_data_length s' = 1 \<and>
       keyboard_slots s' 0 = f_private_data (files kbd_two 0x1028)"
proof -
  obtain s' where "keyboard_close kbd_two 0x1028 = Some s'" using kbd_two_close by blast
  with keyboard_close_drops_last [OF this] show ?thesis by (simp add: kbd_two_facts)
qed

end
