(* ===== verification/Input.thy ===== *)
theory Input
  imports Keyboard
begin

text \<open>
  \<open>kernel/keyboard/input.c\<close>: key codes, the ASCII tables and the line editor \<open>get_line\<close>. The
  events that \<open>vfs_read(kdb, ...)\<close> delivers are an argument (a read that delivers none makes the
  loop go round again, without effect); \<open>None\<close> is a call still waiting when they are used up.
  \<open>printchar\<close> is an argument, as in the code. An \<open>enum Keycode\<close> is its number.
\<close>

section \<open>Key codes\<close>

abbreviation (input) "KC_BACKSPACE \<equiv> 0x0E :: u8"
abbreviation (input) "KC_LEFT_SHIFT \<equiv> 0x2A :: u8"
abbreviation (input) "KC_RIGHT_SHIFT \<equiv> 0x36 :: u8"

definition ascii_table :: "u8 list" where
  "ascii_table = [0, 0] @ map of_char ''1234567890-='' @ [8, 9] @ map of_char ''qwertyuiop[]'' @ [10, 0] @
     map of_char ''asdfghjkl;'' @ [39, 96, 0, 0] @ map of_char ''zxcvbnm,./'' @ [0, 0, 0, 32] @ replicate 198 0"

definition shifted_ascii_table :: "u8 list" where
  "shifted_ascii_table = [0, 0] @ map of_char ''!@#$%^&*()_+'' @ [8, 9] @ map of_char ''QWERTYUIOP{}'' @ [10, 0] @
     map of_char ''ASDFGHJKL:'' @ [34, 126, 0, 0] @ map of_char ''ZXCVBNM<>?'' @ [0, 0, 0, 32] @ replicate 198 0"

definition keycode_to_ascii :: "u8 \<Rightarrow> u8 \<Rightarrow> u8" where
  "keycode_to_ascii kc is_shifted =
     (if is_shifted \<noteq> 0 then shifted_ascii_table ! unat kc else ascii_table ! unat kc)"

definition scancode_to_keycode :: "u8 \<Rightarrow> u8" where
  "scancode_to_keycode sc = sc AND 0x7F"

section \<open>The line editor\<close>

text \<open>One round of the loop of \<open>get_line\<close> after an event was read: go on, leave the loop, or
  return early because \<open>realloc\<close> failed.\<close>

datatype 's line_result =
    Continue 's ptr u32 u8
  | Break 's ptr
  | Return 's ptr

definition get_line_step ::
  "(u8 \<Rightarrow> 'a heap_state_scheme \<Rightarrow> 'a heap_state_scheme) \<Rightarrow> KeyboardEvent \<Rightarrow> 'a heap_state_scheme \<Rightarrow> ptr \<Rightarrow>
   u32 \<Rightarrow> u8 \<Rightarrow> 'a heap_state_scheme line_result option" where
  "get_line_step printchar event s buffer i shifted =
     (let kc = scancode_to_keycode (ucast (ev_scancode event));
          shifted' = (if kc = KC_LEFT_SHIFT \<or> kc = KC_RIGHT_SHIFT
                      then (if ev_type event = KEY_PRESSED then 1
                            else if ev_type event = KEY_RELEASED then 0 else shifted)
                      else shifted)
      in if ev_type event = KEY_RELEASED then Some (Continue s buffer i shifted')
         else if kc = KC_BACKSPACE then
           (if i < 1 then Some (Continue s buffer i shifted')
            else
              let s1 = s\<lparr>mem := (mem s)(buffer + i := 0)\<rparr>;
                  s2 = printchar 8 (printchar 32 (printchar 8 s1))
              in Some (Continue s2 buffer (i - 1) shifted'))
         else
           let ascii = keycode_to_ascii kc shifted'
           in if ascii = 0 then Some (Continue s buffer i shifted')
              else if ascii = 10 then Some (Break (s\<lparr>mem := (mem s)(buffer + i := 0)\<rparr>) buffer)
              else
                let s1 = s\<lparr>mem := (mem s)(buffer + i := ascii)\<rparr>
                in if i \<le> 32 then do {
                     (s2, temp) \<leftarrow> realloc s1 buffer (32 + 32);
                     if temp = NULL then Some (Return s2 buffer)
                     else Some (Continue (printchar (mem s2 (temp + i)) s2) temp (i + 1) shifted') }
                   else Some (Continue (printchar (mem s1 (buffer + i)) s1) buffer (i + 1) shifted'))"

fun get_line_loop ::
  "(u8 \<Rightarrow> 'a heap_state_scheme \<Rightarrow> 'a heap_state_scheme) \<Rightarrow> KeyboardEvent list \<Rightarrow> 'a heap_state_scheme \<Rightarrow> ptr \<Rightarrow>
   u32 \<Rightarrow> u8 \<Rightarrow> ('a heap_state_scheme \<times> ptr \<times> KeyboardEvent list) option" where
  "get_line_loop printchar [] s buffer i shifted = None"
| "get_line_loop printchar (event # events) s buffer i shifted = do {
     r \<leftarrow> get_line_step printchar event s buffer i shifted;
     case r of
       Continue s' buffer' i' shifted' \<Rightarrow> get_line_loop printchar events s' buffer' i' shifted'
     | Break s' buffer' \<Rightarrow> Some (printchar 10 s', buffer', events)
     | Return s' buffer' \<Rightarrow> Some (s', buffer', events) }"

definition get_line ::
  "(u8 \<Rightarrow> 'a heap_state_scheme \<Rightarrow> 'a heap_state_scheme) \<Rightarrow> KeyboardEvent list \<Rightarrow> 'a heap_state_scheme \<Rightarrow>
   ('a heap_state_scheme \<times> ptr \<times> KeyboardEvent list) option" where
  "get_line printchar events s = do {
     (s1, buffer) \<leftarrow> malloc s 32;
     if buffer = NULL then Some (s1, NULL, events)
     else get_line_loop printchar events s1 buffer 0 0 }"

text \<open>\<open>wait_for_keypress\<close> returns the key code of the next event, pressed or released.\<close>

fun wait_for_keypress :: "KeyboardEvent list \<Rightarrow> (u8 \<times> KeyboardEvent list) option" where
  "wait_for_keypress [] = None"
| "wait_for_keypress (event # events) = Some (scancode_to_keycode (ucast (ev_scancode event)), events)"

section \<open>What is typed\<close>

text \<open>The line under the editing keys, and the shift state: the text of the line is a byte list.\<close>

definition shift_after :: "KeyboardEvent \<Rightarrow> u8 \<Rightarrow> u8" where
  "shift_after event shifted =
     (let kc = scancode_to_keycode (ucast (ev_scancode event)) in
      if kc = KC_LEFT_SHIFT \<or> kc = KC_RIGHT_SHIFT
      then (if ev_type event = KEY_PRESSED then 1 else if ev_type event = KEY_RELEASED then 0 else shifted)
      else shifted)"

fun edit_line :: "nat \<Rightarrow> KeyboardEvent list \<Rightarrow> u8 list \<Rightarrow> u8 \<Rightarrow> (u8 list \<times> KeyboardEvent list) option" where
  "edit_line cap [] line shifted = None"
| "edit_line cap (event # events) line shifted =
     (let kc = scancode_to_keycode (ucast (ev_scancode event));
          shifted' = shift_after event shifted;
          ascii = keycode_to_ascii kc shifted'
      in if ev_type event = KEY_RELEASED then edit_line cap events line shifted'
         else if kc = KC_BACKSPACE then edit_line cap events (butlast line) shifted'
         else if ascii = 0 then edit_line cap events line shifted'
         else if ascii = 10 then Some (line, events)
         else if length line + 1 < cap then edit_line cap events (line @ [ascii]) shifted'
         else None)"

text \<open>The buffer holds the line, in a block that \<open>realloc\<close> to 64 bytes leaves as it is.\<close>

definition holds_line :: "'a heap_state_scheme \<Rightarrow> ptr \<Rightarrow> u32 \<Rightarrow> u8 list \<Rightarrow> bool" where
  "holds_line s buffer i line \<longleftrightarrow> unat i = length line \<and> length line < 64 \<and>
     bytes_at (mem s) buffer (length line) = line \<and> 0 \<notin> set line \<and>
     16 \<le> unat buffer \<and> unat buffer + 64 \<le> 2 ^ 32 \<and>
     64 \<le> bh_size (hdr (mem s) (buffer - 16)) \<and> bh_size (hdr (mem s) (buffer - 16)) < 96"

lemma realloc_same:
  assumes "n \<le> bh_size (hdr (mem s) (p - 16))" "\<not> n \<le>s bh_size (hdr (mem s) (p - 16)) - 32"
  shows "realloc s p n = Some (s, p)"
  using assms by (simp add: realloc_def Let_def)

lemma not_sle_small:
  assumes "64 \<le> (k :: u32)" "k < 96"
  shows "\<not> 64 \<le>s k - 32"
proof -
  have "unat (k - 32) = unat k - 32" "unat k < 96"
    using assms by (simp_all add: unat_minus_nowrap word_le_nat_alt word_less_nat_alt)
  moreover from this have "sint (k - 32) = int (unat (k - 32))"
    by (simp add: sint_small)
  ultimately show ?thesis by (simp add: word_sle_eq)
qed

lemma holds_line_size:
  assumes "holds_line s buffer i line" "j < 64"
  shows "bh_size (hdr ((mem s)(buffer + of_nat j := v)) (buffer - 16)) = bh_size (hdr (mem s) (buffer - 16))"
proof -
  have b: "16 \<le> unat buffer" "unat buffer + 64 \<le> 2 ^ 32" using assms by (auto simp: holds_line_def)
  have "unat (buffer - 16) = unat buffer - 16" using b by (simp add: unat_minus_nowrap)
  moreover have "unat (buffer + of_nat j) = unat buffer + j" using b assms(2) by (simp add: wordnat)
  ultimately show ?thesis
    using b unfolding hdr_def by (auto intro!: load32_cong [symmetric] same_on_fun_upd simp: apart_def)
qed

lemma holds_line_realloc:
  assumes "holds_line s buffer i line"
  shows "realloc (s\<lparr>mem := (mem s)(buffer + i := v)\<rparr>) buffer 64 = Some (s\<lparr>mem := (mem s)(buffer + i := v)\<rparr>, buffer)"
proof (rule realloc_same)
  have i: "i = of_nat (unat i)" "unat i < 64" using assms by (simp, simp add: holds_line_def)
  have sz: "bh_size (hdr ((mem s)(buffer + i := v)) (buffer - 16)) = bh_size (hdr (mem s) (buffer - 16))"
    by (subst i(1)) (rule holds_line_size [OF assms i(2)])
  show "64 \<le> bh_size (hdr (mem (s\<lparr>mem := (mem s)(buffer + i := v)\<rparr>)) (buffer - 16))"
    using assms by (simp add: sz holds_line_def)
  show "\<not> 64 \<le>s bh_size (hdr (mem (s\<lparr>mem := (mem s)(buffer + i := v)\<rparr>)) (buffer - 16)) - 32"
    using not_sle_small assms by (simp add: sz holds_line_def)
qed

lemma bytes_at_upd_end:
  "n < 2 ^ 32 \<Longrightarrow> bytes_at (m(p + of_nat n := v)) p n = bytes_at m p n"
  "n < 2 ^ 32 \<Longrightarrow> bytes_at (m(p + of_nat n := v)) p (Suc n) = bytes_at m p n @ [v]"
  by (auto simp: bytes_at_def of_nat_eq_u32_iff)

lemma bytes_at_prefix: "k \<le> n \<Longrightarrow> bytes_at m p k = take k (bytes_at m p n)"
  by (simp add: bytes_at_def take_map)

lemma holds_line_append:
  assumes h: "holds_line s buffer i line" and "length line + 1 < 64" "c \<noteq> 0" "mem s' = (mem s)(buffer + i := c)"
  shows "holds_line s' buffer (i + 1) (line @ [c])"
proof -
  from h have i: "i = of_nat (length line)" by (simp add: holds_line_def unat_eqD)
  have "unat (i + 1) = length line + 1" using i assms(2) by (simp add: wordnat)
  then show ?thesis
    using assms holds_line_size [OF h, of "length line" c] by (simp add: holds_line_def i bytes_at_upd_end)
qed

lemma holds_line_back:
  assumes h: "holds_line s buffer i line" and "line \<noteq> []" "mem s' = (mem s)(buffer + i := c)"
  shows "holds_line s' buffer (i - 1) (butlast line)"
proof -
  from h have i: "i = of_nat (length line)" by (simp add: holds_line_def unat_eqD)
  have l: "length line < 64" "1 \<le> length line"
    using h assms(2) by (auto simp: holds_line_def Suc_le_eq)
  have "unat (of_nat (length line) :: u32) = length line" using l(1) by (simp add: unat_of_nat_u32)
  then have "unat (i - 1) = length line - 1"
    using l(2) unat_minus_nowrap [of 1 "of_nat (length line)"] by (simp add: i)
  moreover have "bytes_at (mem s') buffer (length line - 1) = take (length line - 1) (bytes_at (mem s') buffer (length line))"
    by (rule bytes_at_prefix) simp
  ultimately show ?thesis
    using assms l holds_line_size [OF h, of "length line" c]
    by (auto simp: holds_line_def i bytes_at_upd_end butlast_conv_take dest: in_set_takeD)
qed

lemma cstr_at_append: "cstr_at m p (xs @ ys) \<longleftrightarrow> bytes_at m p (length xs) = xs \<and> 0 \<notin> set xs \<and> cstr_at m (p + of_nat (length xs)) ys"
  by (induction xs arbitrary: p) (auto simp: bytes_at_Suc add.assoc)

lemma holds_line_end:
  assumes h: "holds_line s buffer i line" and "mem s' = (mem s)(buffer + i := 0)"
  shows "cstr_at (mem s') buffer line"
proof -
  from h have i: "i = of_nat (length line)" by (simp add: holds_line_def unat_eqD)
  show ?thesis
    using assms cstr_at_append [of "mem s'" buffer line "[]"] by (simp add: holds_line_def i bytes_at_upd_end)
qed

text \<open>The loop of \<open>get_line\<close> keeps the buffer equal to the edited line.\<close>

lemma get_line_step_spec:
  assumes h: "holds_line s buffer i line" and pc: "\<And>c s. mem (printchar c s) = mem s"
  shows "(\<exists>s' i' line'. get_line_step printchar event s buffer i shifted = Some (Continue s' buffer i' (shift_after event shifted)) \<and>
      holds_line s' buffer i' line' \<and>
      (\<forall>evs. edit_line 64 (event # evs) line shifted = edit_line 64 evs line' (shift_after event shifted))) \<or>
    (\<exists>s'. get_line_step printchar event s buffer i shifted = Some (Break s' buffer) \<and> cstr_at (mem s') buffer line \<and>
      (\<forall>evs. edit_line 64 (event # evs) line shifted = Some (line, evs))) \<or>
    (\<forall>evs. edit_line 64 (event # evs) line shifted = None)"
proof -
  let ?kc = "scancode_to_keycode (ucast (ev_scancode event))"
  let ?sh = "shift_after event shifted"
  let ?a = "keycode_to_ascii ?kc ?sh"
  have sh: "(if ?kc = KC_LEFT_SHIFT \<or> ?kc = KC_RIGHT_SHIFT
      then if ev_type event = KEY_PRESSED then 1 else if ev_type event = KEY_RELEASED then 0 else shifted
      else shifted) = ?sh" by (simp add: shift_after_def Let_def)
  note step = get_line_step_def Let_def
  consider (rel) "ev_type event = KEY_RELEASED" | (bsp) "ev_type event \<noteq> KEY_RELEASED" "?kc = KC_BACKSPACE"
    | (none) "ev_type event \<noteq> KEY_RELEASED" "?kc \<noteq> KC_BACKSPACE" "?a = 0"
    | (enter) "ev_type event \<noteq> KEY_RELEASED" "?kc \<noteq> KC_BACKSPACE" "?a = 10"
    | (chr) "ev_type event \<noteq> KEY_RELEASED" "?kc \<noteq> KC_BACKSPACE" "?a \<noteq> 0" "?a \<noteq> 10" by blast
  then show ?thesis
  proof cases
    case rel
    then have "get_line_step printchar event s buffer i shifted = Some (Continue s buffer i ?sh)"
      unfolding step sh by simp
    with rel h show ?thesis by (intro disjI1 exI [of _ s] exI [of _ i] exI [of _ line]) (simp add: Let_def)
  next
    case none
    then have "get_line_step printchar event s buffer i shifted = Some (Continue s buffer i ?sh)"
      unfolding step sh by simp
    with none h show ?thesis by (intro disjI1 exI [of _ s] exI [of _ i] exI [of _ line]) (simp add: Let_def)
  next
    case enter
    then have "get_line_step printchar event s buffer i shifted = Some (Break (s\<lparr>mem := (mem s)(buffer + i := 0)\<rparr>) buffer)"
      unfolding step sh by simp
    moreover have "cstr_at (mem (s\<lparr>mem := (mem s)(buffer + i := 0)\<rparr>)) buffer line"
      by (rule holds_line_end [OF h]) simp
    ultimately show ?thesis using enter by (intro disjI2 [OF disjI1]) (auto simp: Let_def)
  next
    case bsp
    show ?thesis
    proof (cases "line = []")
      case True
      then have "i = 0" using h by (auto simp: holds_line_def dest: unat_eqD)
      then have "get_line_step printchar event s buffer i shifted = Some (Continue s buffer i ?sh)"
        using bsp unfolding step sh by simp
      with bsp h True show ?thesis by (intro disjI1 exI [of _ s] exI [of _ i] exI [of _ line]) (simp add: Let_def)
    next
      case False
      then have "\<not> i < 1" using h by (auto simp: holds_line_def)
      let ?s = "printchar 8 (printchar 32 (printchar 8 (s\<lparr>mem := (mem s)(buffer + i := 0)\<rparr>)))"
      have "get_line_step printchar event s buffer i shifted = Some (Continue ?s buffer (i - 1) ?sh)"
        using bsp \<open>\<not> i < 1\<close> unfolding step sh by simp
      moreover have "holds_line ?s buffer (i - 1) (butlast line)"
        using holds_line_back [OF h False, of ?s 0] by (simp add: pc)
      ultimately show ?thesis using bsp
        by (intro disjI1 exI [of _ ?s] exI [of _ "i - 1"] exI [of _ "butlast line"]) (simp add: Let_def)
    qed
  next
    case chr
    show ?thesis
    proof (cases "length line + 1 < 64")
      case True
      let ?s = "printchar ?a (s\<lparr>mem := (mem s)(buffer + i := ?a)\<rparr>)"
      have "get_line_step printchar event s buffer i shifted = Some (Continue ?s buffer (i + 1) ?sh)"
        using chr h unfolding step sh
        by (auto simp: holds_line_realloc [OF h] holds_line_def)
      moreover have "holds_line ?s buffer (i + 1) (line @ [?a])"
        using holds_line_append [OF h True chr(3), of ?s] by (simp add: pc)
      ultimately show ?thesis using chr True
        by (intro disjI1 exI [of _ ?s] exI [of _ "i + 1"] exI [of _ "line @ [?a]"]) (simp add: Let_def)
    next
      case False
      with chr show ?thesis by (simp add: Let_def)
    qed
  qed
qed

lemma get_line_loop_spec:
  assumes pc: "\<And>c s. mem (printchar c s) = mem s"
  shows "holds_line s buffer i line \<Longrightarrow> edit_line 64 events line shifted = Some (line', rest) \<Longrightarrow>
    \<exists>s'. get_line_loop printchar events s buffer i shifted = Some (s', buffer, rest) \<and> cstr_at (mem s') buffer line'"
proof (induction events arbitrary: s i line shifted)
  case (Cons event events)
  from get_line_step_spec [where printchar = printchar and event = event and shifted = shifted, OF Cons.prems(1) pc]
  show ?case
  proof (elim disjE exE conjE)
    fix s' i' line2
    assume "get_line_step printchar event s buffer i shifted = Some (Continue s' buffer i' (shift_after event shifted))"
      "holds_line s' buffer i' line2"
      "\<forall>evs. edit_line 64 (event # evs) line shifted = edit_line 64 evs line2 (shift_after event shifted)"
    then show ?thesis using Cons.IH Cons.prems(2) by simp
  next
    fix s'
    assume "get_line_step printchar event s buffer i shifted = Some (Break s' buffer)" "cstr_at (mem s') buffer line"
      "\<forall>evs. edit_line 64 (event # evs) line shifted = Some (line, evs)"
    then show ?thesis using Cons.prems(2) by (auto simp: pc)
  next
    assume "\<forall>evs. edit_line 64 (event # evs) line shifted = None"
    then show ?thesis using Cons.prems(2) by simp
  qed
qed simp

section \<open>Properties\<close>


definition key_press :: "u16 \<Rightarrow> KeyboardEvent" where
  "key_press sc = \<lparr>ev_scancode = sc, ev_type = KEY_PRESSED\<rparr>"


text \<open>Once more than 32 characters are in the line \<open>get_line\<close> never grows the buffer again: every
  further character is stored at the next index, whatever the size of the block.\<close>

theorem get_line_stops_growing:
  assumes "32 < i" and "ev_type event = KEY_PRESSED" and "ascii \<noteq> 0" and "ascii \<noteq> 10"
    and "scancode_to_keycode (ucast (ev_scancode event)) \<notin> {KC_BACKSPACE, KC_LEFT_SHIFT, KC_RIGHT_SHIFT}"
    and "keycode_to_ascii (scancode_to_keycode (ucast (ev_scancode event))) shifted = ascii"
  shows "get_line_step printchar event s buffer i shifted =
    Some (Continue (printchar ascii (s\<lparr>mem := (mem s)(buffer + i := ascii)\<rparr>)) buffer (i + 1) shifted)"
  using assms by (auto simp: get_line_step_def Let_def)

theorem get_line_stops_growing_witness:
  "get_line_step (\<lambda>c s. s) (key_press 0x1E) boot_heap 0x1010 100 0 =
    Some (Continue (boot_heap\<lparr>mem := (mem boot_heap)(0x1074 := 97)\<rparr>) 0x1010 101 0)"
  using get_line_stops_growing [of 100 "key_press 0x1E" 97 0 "\<lambda>c s. s" boot_heap "0x1010"]
  by (simp add: key_press_def scancode_to_keycode_def keycode_to_ascii_def ascii_table_def)

end
