(* ===== verification/TTY.thy ===== *)
theory TTY
  imports Input
begin

text \<open>
  \<open>kernel/terminal/tty.c\<close>: the 80x25 text console and its device file. \<open>text_buffer\<close> is the
  video memory, a map from cell numbers to 16-bit cells; the cursor and the colour are the
  \<open>uint8_t\<close> globals, so their arithmetic wraps at 256. \<open>kdb_events\<close> are the key events that
  \<open>get_line\<close> is going to be given.
\<close>

section \<open>Data\<close>

abbreviation (input) "VGA_WIDTH \<equiv> 80 :: nat"
abbreviation (input) "VGA_HEIGHT \<equiv> 25 :: nat"

record tty_file_data =
  input_buffer_base :: ptr
  input_buffer_pos :: ptr

record tty_state = kbd_state +
  cursor_row :: u8
  cursor_col :: u8
  color :: u8
  text_buffer :: "nat \<Rightarrow> u16"
  tty_data :: "ptr \<Rightarrow> tty_file_data"
  kdb_events :: "KeyboardEvent list"

abbreviation (input) "sizeof_tty_file_data \<equiv> 8 :: u32"
abbreviation (input) "TTY_CLEAR \<equiv> 0 :: u32"
abbreviation (input) "TTY_SET_BG_COLOR \<equiv> 1 :: u32"
abbreviation (input) "TTY_SET_FG_COLOR \<equiv> 2 :: u32"
abbreviation (input) "TTY_SET_CURSOR_POS \<equiv> 3 :: u32"
abbreviation (input) "TTY_GET_CURSOR_POS \<equiv> 4 :: u32"

section \<open>The screen\<close>

text \<open>The scroll loops of \<open>newline\<close>, in the order of the code.\<close>

definition copy_row :: "nat \<Rightarrow> (nat \<Rightarrow> u16) \<Rightarrow> nat \<Rightarrow> u16" where
  "copy_row y tb = fold (\<lambda>x tb. tb(x + y * VGA_WIDTH := tb (x + (y + 1) * VGA_WIDTH))) [0..<VGA_WIDTH] tb"

definition fill_row :: "u16 \<Rightarrow> nat \<Rightarrow> (nat \<Rightarrow> u16) \<Rightarrow> nat \<Rightarrow> u16" where
  "fill_row v y tb = fold (\<lambda>x tb. tb(x + y * VGA_WIDTH := v)) [0..<VGA_WIDTH] tb"

definition newline :: "'a tty_state_scheme \<Rightarrow> 'a tty_state_scheme" where
  "newline s =
     (let s1 = s\<lparr>cursor_col := 0, cursor_row := cursor_row s + 1\<rparr>
      in if VGA_HEIGHT \<le> unat (cursor_row s1)
         then s1\<lparr>text_buffer := fill_row 0 24 (fold copy_row [0..<VGA_HEIGHT - 1] (text_buffer s1)),
                 cursor_row := of_nat (VGA_HEIGHT - 1)\<rparr>
         else s1)"

text \<open>The default case of the switch of \<open>print_char\<close>.\<close>

definition put_cell :: "u8 \<Rightarrow> 'a tty_state_scheme \<Rightarrow> 'a tty_state_scheme" where
  "put_cell chr s =
     (let cell = unat (cursor_col s) + unat (cursor_row s) * VGA_WIDTH;
          s1 = s\<lparr>text_buffer := (text_buffer s)(cell := ucast chr OR push_bit 8 (ucast (color s))),
                 cursor_col := cursor_col s + 1\<rparr>
      in if VGA_WIDTH \<le> unat (cursor_col s1) then newline s1 else s1)"

definition print_char :: "u8 \<Rightarrow> 'a tty_state_scheme \<Rightarrow> 'a tty_state_scheme" where
  "print_char chr s =
     (if chr = 10 then newline s
      else if chr = 13 then s\<lparr>cursor_col := 0\<rparr>
      else if chr = 9 then fold put_cell (replicate 8 32) s
      else if chr = 8 then (if 0 < cursor_col s then s\<lparr>cursor_col := cursor_col s - 1\<rparr> else s)
      else put_cell chr s)"

partial_function (option) print_string :: "ptr \<Rightarrow> 'a tty_state_scheme \<Rightarrow> 'a tty_state_scheme option" where
  "print_string c s = (if mem s c = 0 then Some s else print_string (c + 1) (print_char (mem s c) s))"

definition set_color :: "u8 \<Rightarrow> u8 \<Rightarrow> 'a tty_state_scheme \<Rightarrow> 'a tty_state_scheme" where
  "set_color fg bg s = s\<lparr>color := fg OR push_bit 4 bg\<rparr>"

definition clear :: "'a tty_state_scheme \<Rightarrow> 'a tty_state_scheme" where
  "clear s = s\<lparr>cursor_col := 0, cursor_row := 0,
     text_buffer := fold (fill_row (of_char CHR ''0'')) [0..<VGA_HEIGHT] (text_buffer s)\<rparr>"

definition get_cursor_pos :: "'a tty_state_scheme \<Rightarrow> u8 \<times> u8" where
  "get_cursor_pos s = (cursor_col s, cursor_row s)"

definition set_cursor_pos :: "u8 \<Rightarrow> u8 \<Rightarrow> 'a tty_state_scheme \<Rightarrow> 'a tty_state_scheme" where
  "set_cursor_pos x y s = s\<lparr>cursor_col := x, cursor_row := y\<rparr>"

section \<open>The device file\<close>

definition tty_open :: "'a tty_state_scheme \<Rightarrow> ptr \<Rightarrow> ('a tty_state_scheme \<times> ptr) option" where
  "tty_open s inode = do {
     (s1, f) \<leftarrow> malloc s sizeof_VFSFile;
     if f = NULL then Some (s1, NULL) else do {
     (s2, fd) \<leftarrow> malloc s1 sizeof_tty_file_data;
     if fd = NULL then do { s3 \<leftarrow> free s2 f; Some (s3, NULL) }
     else Some (s2\<lparr>tty_data := (tty_data s2)(fd := \<lparr>input_buffer_base = NULL, input_buffer_pos = NULL\<rparr>),
                   files := (files s2)(f := \<lparr>f_inode = inode, f_private_data = fd,
                                             f_private_data_size = 0, f_position = 0\<rparr>)\<rparr>, f) }}"

definition tty_close :: "'a tty_state_scheme \<Rightarrow> ptr \<Rightarrow> 'a tty_state_scheme option" where
  "tty_close s f = do { s1 \<leftarrow> free s (f_private_data (files s f)); free s1 f }"

text \<open>The end of \<open>tty_read\<close>, with input in the line buffer.\<close>

definition tty_copy :: "'a tty_state_scheme \<Rightarrow> ptr \<Rightarrow> ptr \<Rightarrow> u32 \<Rightarrow> ('a tty_state_scheme \<times> u32) option" where
  "tty_copy s fd buffer buffer_size = do {
     let pos = input_buffer_pos (tty_data s fd);
     len \<leftarrow> strlen (mem s) pos;
     let read_length = (if len < buffer_size then len else buffer_size);
     Some (s\<lparr>mem := fst (memcpy (mem s) buffer pos read_length),
            tty_data := (tty_data s)(fd := (tty_data s fd)\<lparr>input_buffer_pos := pos + read_length\<rparr>)\<rparr>,
           read_length) }"

definition tty_read :: "'a tty_state_scheme \<Rightarrow> ptr \<Rightarrow> ptr \<Rightarrow> u32 \<Rightarrow> ('a tty_state_scheme \<times> u32) option" where
  "tty_read s f buffer buffer_size =
     (let fd = f_private_data (files s f); base = input_buffer_base (tty_data s fd) in
      if base \<noteq> NULL then do {
        len \<leftarrow> strlen (mem s) (input_buffer_pos (tty_data s fd));
        if len = 0 then do {
          s1 \<leftarrow> free s base;
          Some (s1\<lparr>tty_data := (tty_data s1)(fd := \<lparr>input_buffer_base = NULL, input_buffer_pos = NULL\<rparr>)\<rparr>, 0)
        } else tty_copy s fd buffer buffer_size
      } else do {
        (s1, line, events) \<leftarrow> get_line print_char (kdb_events s) s;
        let s2 = s1\<lparr>kdb_events := events,
                    tty_data := (tty_data s1)(fd := \<lparr>input_buffer_base = line, input_buffer_pos = line\<rparr>)\<rparr>;
        if line = NULL then Some (s2, 0) else tty_copy s2 fd buffer buffer_size })"

definition tty_write :: "'a tty_state_scheme \<Rightarrow> ptr \<Rightarrow> ptr \<Rightarrow> u32 \<Rightarrow> 'a tty_state_scheme \<times> u32" where
  "tty_write s f buffer buffer_size =
     (fold (\<lambda>i s. print_char (mem s (buffer + of_nat i)) s) [0..<unat buffer_size] s, buffer_size)"

definition tty_ioctl :: "'a tty_state_scheme \<Rightarrow> ptr \<Rightarrow> ptr \<Rightarrow> ptr \<Rightarrow> 'a tty_state_scheme" where
  "tty_ioctl s f command arg =
     (let c = load32 (mem s) command; a = load32 (mem s) arg in
      if c = TTY_CLEAR then clear s
      else if c = TTY_SET_BG_COLOR then s\<lparr>color := ucast (ucast (color s) OR push_bit 4 a)\<rparr>
      else if c = TTY_SET_FG_COLOR then s\<lparr>color := ucast ((a AND 0xF) OR ucast (color s))\<rparr>
      else if c = TTY_SET_CURSOR_POS then
        s\<lparr>cursor_row := ucast (drop_bit 16 a), cursor_col := ucast (a AND 0xFFFF)\<rparr>
      else if c = TTY_GET_CURSOR_POS then
        s\<lparr>mem := store32 (mem s) arg (push_bit 16 (ucast (cursor_row s)) OR ucast (cursor_col s))\<rparr>
      else s)"

definition tty_seek :: "'a tty_state_scheme \<Rightarrow> ptr \<Rightarrow> u32 \<Rightarrow> u32 \<Rightarrow> 'a tty_state_scheme" where
  "tty_seek s f offset whence = s"

definition tty_tell :: "'a tty_state_scheme \<Rightarrow> ptr \<Rightarrow> u32" where
  "tty_tell s f = 0"

definition tty_flush :: "'a tty_state_scheme \<Rightarrow> ptr \<Rightarrow> 'a tty_state_scheme" where
  "tty_flush s f = s"

section \<open>Scrolling\<close>

lemma copy_row_at:
  "copy_row y tb k = (if y * 80 \<le> k \<and> k < y * 80 + 80 then tb (k + 80) else tb k)"
proof -
  have "n \<le> 80 \<Longrightarrow> fold (\<lambda>x tb. tb(x + y * 80 := tb (x + (y + 1) * 80))) [0..<n] tb k =
      (if y * 80 \<le> k \<and> k < y * 80 + n then tb (k + 80) else tb k)" for n :: nat and k
  proof (induction n arbitrary: k)
    case (Suc n)
    then show ?case by (auto simp: ac_simps)
  qed auto
  from this [of 80 k] show ?thesis by (simp add: copy_row_def)
qed

lemma fill_row_at: "fill_row v y tb k = (if y * 80 \<le> k \<and> k < y * 80 + 80 then v else tb k)"
proof -
  have "fold (\<lambda>x tb. tb(x + y * 80 := v)) [0..<n] tb k = (if y * 80 \<le> k \<and> k < y * 80 + n then v else tb k)" for n :: nat
    by (induction n) auto
  then show ?thesis by (simp add: fill_row_def)
qed

lemma copy_rows_at: "fold copy_row [0..<n] tb k = (if k < n * 80 then tb (k + 80) else tb k)"
  by (induction n arbitrary: k) (auto simp: copy_row_at)

lemma fill_rows_at: "fold (fill_row v) [0..<n] tb k = (if k < n * 80 then v else tb k)"
  by (induction n arbitrary: k) (auto simp: fill_row_at)

section \<open>The cursor stays on the screen\<close>

definition screen_ok :: "'a tty_state_scheme \<Rightarrow> bool" where
  "screen_ok s \<longleftrightarrow> unat (cursor_row s) < VGA_HEIGHT \<and> unat (cursor_col s) < VGA_WIDTH"

text \<open>The console touches only the screen: the cells from 2000 on, the memory, the files and the
  other fields stay.\<close>

definition screen_only :: "'a tty_state_scheme \<Rightarrow> 'a tty_state_scheme \<Rightarrow> bool" where
  "screen_only s s' \<longleftrightarrow>
     s' = s\<lparr>cursor_row := cursor_row s', cursor_col := cursor_col s', text_buffer := text_buffer s'\<rparr> \<and>
     (\<forall>k\<ge>2000. text_buffer s' k = text_buffer s k)"

lemma screen_only_refl [simp]: "screen_only s s"
  by (simp add: screen_only_def)

lemma screen_only_trans: "screen_only s s' \<Longrightarrow> screen_only s' s'' \<Longrightarrow> screen_only s s''"
  by (cases s; cases s'; cases s'') (simp add: screen_only_def)

lemma screen_only_simps:
  "screen_only s s' \<Longrightarrow> mem s' = mem s \<and> files s' = files s \<and> tty_data s' = tty_data s \<and> color s' = color s \<and>
     kdb_events s' = kdb_events s \<and> (\<forall>k\<ge>2000. text_buffer s' k = text_buffer s k)"
  by (cases s; cases s') (simp add: screen_only_def)

lemma unat_inc_u8: "unat (a :: u8) < 255 \<Longrightarrow> unat (a + 1) = unat a + 1"
  by (simp add: unat_word_ariths)

lemma newline_screen: "screen_ok s \<Longrightarrow> screen_ok (newline s) \<and> screen_only s (newline s)"
  by (auto simp: newline_def Let_def screen_ok_def screen_only_def fill_row_at copy_rows_at unat_inc_u8)

lemma put_cell_screen:
  assumes "screen_ok s"
  shows "screen_ok (put_cell c s) \<and> screen_only s (put_cell c s)"
proof -
  let ?s = "s\<lparr>text_buffer := (text_buffer s)(unat (cursor_col s) + unat (cursor_row s) * VGA_WIDTH :=
       ucast c OR push_bit 8 (ucast (color s))), cursor_col := cursor_col s + 1\<rparr>"
  have cell: "unat (cursor_col s) + unat (cursor_row s) * 80 < 2000"
    using assms by (simp add: screen_ok_def)
  have only: "screen_only s ?s" using cell by (simp add: screen_only_def)
  have nl: "newline ?s = newline (?s\<lparr>cursor_col := 0\<rparr>)" by (simp add: newline_def)
  have "screen_ok (?s\<lparr>cursor_col := 0\<rparr>)" using assms by (simp add: screen_ok_def)
  moreover have "screen_only s (?s\<lparr>cursor_col := 0\<rparr>)" using cell by (simp add: screen_only_def)
  ultimately have "screen_ok (newline ?s) \<and> screen_only s (newline ?s)"
    unfolding nl using newline_screen screen_only_trans by blast
  then show ?thesis
    using assms only by (auto simp: put_cell_def Let_def screen_ok_def unat_inc_u8)
qed

lemma put_cells_screen:
  "screen_ok s \<Longrightarrow> screen_ok (fold put_cell cs s) \<and> screen_only s (fold put_cell cs s)"
proof (induction cs arbitrary: s)
  case (Cons c cs)
  from put_cell_screen [OF Cons.prems] Cons.IH [of "put_cell c s"] show ?case
    using screen_only_trans by auto
qed simp

lemma print_char_screen:
  assumes "screen_ok s"
  shows "screen_ok (print_char c s) \<and> screen_only s (print_char c s)"
proof -
  have "screen_ok (s\<lparr>cursor_col := cursor_col s - 1\<rparr>)" if "0 < cursor_col s"
    using that assms by (auto simp: screen_ok_def unat_sub_if' word_less_nat_alt)
  moreover have "screen_ok (s\<lparr>cursor_col := 0\<rparr>)" using assms by (simp add: screen_ok_def)
  moreover have "screen_only s (s\<lparr>cursor_col := v\<rparr>)" for v by (simp add: screen_only_def)
  ultimately show ?thesis
    using assms by (simp add: print_char_def newline_screen put_cell_screen put_cells_screen
        del: replicate.simps fold_replicate)
qed

lemma print_chars_screen:
  "screen_ok s \<Longrightarrow>
     screen_ok (fold (\<lambda>i s. print_char (mem s (p + of_nat i)) s) is s) \<and>
     screen_only s (fold (\<lambda>i s. print_char (mem s (p + of_nat i)) s) is s)"
proof (induction "is" arbitrary: s)
  case (Cons i js)
  from print_char_screen [OF Cons.prems] Cons.IH [of "print_char (mem s (p + of_nat i)) s"] show ?case
    using screen_only_trans by auto
qed simp

section \<open>Properties\<close>

text \<open>C31: Writing to the terminal keeps the cursor on the 80x25 screen, stores to no cell outside it and
  to no other memory, and reports every byte as written.\<close>

theorem tty_write_on_screen:
  assumes "screen_ok s"
  shows "let (s', n) = tty_write s f buffer buffer_size
    in screen_ok s' \<and> (\<forall>k\<ge>2000. text_buffer s' k = text_buffer s k) \<and> mem s' = mem s \<and> n = buffer_size"
  using print_chars_screen [OF assms, of buffer "[0..<unat buffer_size]"]
  by (auto simp: tty_write_def dest: screen_only_simps)

definition tty_demo :: tty_state where
  "tty_demo = kbd_state.extend kbd_demo
     (tty_state.fields 24 79 15 (\<lambda>k. of_nat k) (\<lambda>_. \<lparr>input_buffer_base = 0, input_buffer_pos = 0\<rparr>) [])"

lemma tty_demo_facts:
  "cursor_row tty_demo = 24" "cursor_col tty_demo = 79" "color tty_demo = 15"
  "text_buffer tty_demo k = of_nat k" "mem tty_demo a = 0"
  by (simp_all add: tty_demo_def kbd_demo_def kbd_state.defs tty_state.defs)

theorem tty_write_on_screen_witness:
  "screen_ok (fst (tty_write tty_demo 0 0x100 3)) \<and> mem (fst (tty_write tty_demo 0 0x100 3)) = mem tty_demo"
  using tty_write_on_screen [of tty_demo 0 "0x100" 3]
  by (simp add: tty_demo_facts screen_ok_def Let_def split_beta)

text \<open>C32: A newline on the last line scrolls: every row takes the contents of the row below, the last row
  is cleared and the cursor is at its start. On any other line it only moves the cursor.\<close>

theorem newline_scrolls:
  assumes "screen_ok s"
  shows "cursor_col (newline s) = 0 \<and>
    (if cursor_row s = 24
     then cursor_row (newline s) = 24 \<and>
          (\<forall>x<80. \<forall>y<24. text_buffer (newline s) (x + y * 80) = text_buffer s (x + (y + 1) * 80)) \<and>
          (\<forall>x<80. text_buffer (newline s) (x + 24 * 80) = 0)
     else cursor_row (newline s) = cursor_row s + 1 \<and> text_buffer (newline s) = text_buffer s)"
proof (cases "cursor_row s = 24")
  case True
  then have "25 \<le> unat (cursor_row s + 1)" by simp
  with True show ?thesis by (simp add: newline_def Let_def fill_row_at copy_rows_at add.commute add.left_commute)
next
  case False
  then have "unat (cursor_row s) \<noteq> 24" by (auto simp: word_unat_eq_iff)
  with assms have "unat (cursor_row s + 1) < 25" by (simp add: screen_ok_def unat_inc_u8)
  with False show ?thesis by (simp add: newline_def Let_def)
qed

theorem newline_scrolls_witness:
  "text_buffer (newline tty_demo) 405 = 485 \<and> text_buffer (newline tty_demo) 1925 = 0"
proof -
  have "screen_ok tty_demo" by (simp add: tty_demo_facts screen_ok_def)
  from newline_scrolls [OF this] show ?thesis
    by (auto simp: tty_demo_facts dest!: spec [of _ 5])
qed

text \<open>\<open>tty_ioctl\<close> takes any cursor position. After one outside the screen the next character is
  stored outside the screen's 2000 cells.\<close>

theorem tty_ioctl_cursor_escapes:
  assumes "load32 (mem s) command = TTY_SET_CURSOR_POS" and "load32 (mem s) arg = 0x1900FF"
    and "c \<notin> {8, 9, 10, 13}"
  shows "text_buffer (print_char c (tty_ioctl s f command arg)) 2255 = ucast c OR push_bit 8 (ucast (color s))"
  using assms by (simp add: tty_ioctl_def print_char_def put_cell_def newline_def Let_def)

theorem tty_ioctl_cursor_escapes_witness:
  "text_buffer (print_char 65 (tty_ioctl (tty_demo\<lparr>mem := store32 (store32 (\<lambda>_. 0) 0x100 3) 0x200 0x1900FF\<rparr>) 0 0x100 0x200)) 2255 =
     0x0F41"
  using tty_ioctl_cursor_escapes [of "tty_demo\<lparr>mem := store32 (store32 (\<lambda>_. 0) 0x100 3) 0x200 0x1900FF\<rparr>" "0x100" "0x200" 65 0]
  by (simp add: tty_demo_facts load32_store32_apart apart_def)

text \<open>The colour commands can only set bits: no colour can be changed back.\<close>

lemma ucast_or_keeps: "(ucast ((x :: u32) OR ucast c) :: u8) AND c = c" "(ucast (ucast c OR (x :: u32)) :: u8) AND c = c"
  by (rule bit_word_eqI; auto simp: bit_and_iff bit_or_iff bit_ucast_iff)+

lemma tty_ioctl_color_only_sets:
  assumes "load32 (mem s) command \<in> {TTY_SET_BG_COLOR, TTY_SET_FG_COLOR}"
  shows "color (tty_ioctl s f command arg) AND color s = color s"
  using assms by (auto simp: tty_ioctl_def Let_def ucast_or_keeps)

text \<open>Reading the terminal hands out the line in pieces: a read returns the next
  \<open>min buffer_size (length line)\<close> characters and what is left of the line stays for the next read.\<close>

theorem tty_read_chunk:
  assumes fd: "fd = f_private_data (files s f)"
    and base: "input_buffer_base (tty_data s fd) \<noteq> NULL"
    and line: "cstr_at (mem s) (input_buffer_pos (tty_data s fd)) line" "line \<noteq> []" "length line < 2 ^ 32"
    and k: "k = min (unat buffer_size) (length line)"
    and apart: "\<And>i j. i \<le> length line \<Longrightarrow> j < k \<Longrightarrow> buffer + of_nat j \<noteq> input_buffer_pos (tty_data s fd) + of_nat i"
  shows "\<exists>s'. tty_read s f buffer buffer_size = Some (s', of_nat k) \<and> bytes_at (mem s') buffer k = take k line \<and>
    cstr_at (mem s') (input_buffer_pos (tty_data s' fd)) (drop k line)"
proof -
  let ?pos = "input_buffer_pos (tty_data s fd)"
  have len: "strlen (mem s) ?pos = Some (of_nat (length line))" by (rule strlen_cstr [OF line(1)])
  have nz: "(of_nat (length line) :: u32) \<noteq> 0" using line(2,3) by (simp add: of_nat_eq_u32_iff [of _ 0, simplified])
  have rl: "(if (of_nat (length line) :: u32) < buffer_size then of_nat (length line) else buffer_size) = of_nat k"
    using line(3) by (auto simp: k min_def word_less_nat_alt unat_of_nat_u32)
  have k32: "k < 2 ^ 32" using line(3) k by simp
  let ?m = "fst (memcpy (mem s) buffer ?pos (of_nat k))"
  have uk: "unat (of_nat k :: u32) = k" using k32 by (rule unat_of_nat_u32)
  have safe: "copy_safe buffer ?pos (unat (of_nat k :: u32))"
    unfolding uk copy_safe_def using apart k by auto
  have same: "?m (?pos + of_nat i) = mem s (?pos + of_nat i)" if "i \<le> length line" for i
    using that apart by (intro memcpy_copied(2) [OF safe]) (force simp: uk)
  have line_bytes: "bytes_at (mem s) ?pos (length line) = line" "0 \<notin> set line" "mem s (?pos + of_nat (length line)) = 0"
    using line(1) cstr_at_append [of "mem s" ?pos line "[]"] by auto
  have "bytes_at ?m buffer k = bytes_at (mem s) ?pos k" using memcpy_copied(1) [OF safe, of "mem s"] by (simp add: uk)
  also have "\<dots> = take k line" using line_bytes(1) bytes_at_prefix [of k "length line" "mem s" ?pos] k by simp
  finally have copied: "bytes_at ?m buffer k = take k line" .
  have "bytes_at ?m ?pos (length line) = line"
    using same line_bytes(1) by (intro nth_equalityI) (auto, metis bytes_at_nth)
  then have "cstr_at ?m ?pos line"
    using same [of "length line"] line_bytes(2,3) cstr_at_append [of ?m ?pos line "[]"] by simp
  then have "cstr_at ?m (?pos + of_nat k) (drop k line)"
    using cstr_at_append [of ?m ?pos "take k line" "drop k line"] k by simp
  with copied show ?thesis
    using base nz by (simp add: tty_read_def tty_copy_def fd [symmetric] len rl Let_def)
qed

theorem tty_read_chunk_witness:
  "\<exists>s'. tty_read (tty_demo\<lparr>mem := (\<lambda>_. 0)(0x300 := 72, 0x301 := 105),
        tty_data := (\<lambda>_. \<lparr>input_buffer_base = 0x300, input_buffer_pos = 0x300\<rparr>)\<rparr>) 0 0x400 1 = Some (s', 1) \<and>
     bytes_at (mem s') 0x400 1 = [72]"
proof -
  let ?s = "tty_demo\<lparr>mem := (\<lambda>_. 0)(0x300 := 72, 0x301 := 105),
        tty_data := (\<lambda>_. \<lparr>input_buffer_base = 0x300, input_buffer_pos = 0x300\<rparr>)\<rparr>"
  have "(0x400 :: u32) + of_nat j \<noteq> 0x300 + of_nat i" if "i \<le> 2" "j < 1" for i j :: nat
  proof -
    from that have "i = 0 \<or> i = 1 \<or> i = 2" "j = 0" by arith+
    then show ?thesis by auto
  qed
  then show ?thesis
    using tty_read_chunk [of "f_private_data (files ?s 0)" ?s 0 "[72, 105]" 1 1 "0x400"]
    by auto
qed

end
