(* ===== verification/HDD.thy ===== *)
theory HDD
  imports TTY
begin

text \<open>
  \<open>kernel/inboutb.c\<close>, \<open>kernel/harddrive/ata.c\<close> and \<open>hdd.c\<close>: port input and output, the PIO
  transfer of one sector and the block device file. The device behind the ports is not code
  of the repository: it is the parameter \<open>dev\<close>, which gives the value a port has after a
  history of port accesses (newest first), so any deterministic device is one. \<open>io\<close> is that
  history.
\<close>

section \<open>Ports\<close>

datatype io_event = Outb u16 u8 | Outw u16 u16 | Inb u16 | Inw u16

type_synonym device = "io_event list \<Rightarrow> u16 \<Rightarrow> u16"

record io_state = tty_state +
  io :: "io_event list"

definition outb :: "u16 \<Rightarrow> u8 \<Rightarrow> 'a io_state_scheme \<Rightarrow> 'a io_state_scheme" where
  "outb port val s = s\<lparr>io := Outb port val # io s\<rparr>"

definition inb :: "device \<Rightarrow> u16 \<Rightarrow> 'a io_state_scheme \<Rightarrow> 'a io_state_scheme \<times> u8" where
  "inb dev port s = (s\<lparr>io := Inb port # io s\<rparr>, ucast (dev (io s) port))"

definition io_wait :: "'a io_state_scheme \<Rightarrow> 'a io_state_scheme" where
  "io_wait s = outb 0x80 0 s"

text \<open>\<open>rep insw\<close> and \<open>rep outsw\<close>: \<open>count\<close> words from or to ascending addresses.\<close>

fun insw :: "device \<Rightarrow> u16 \<Rightarrow> ptr \<Rightarrow> nat \<Rightarrow> 'a io_state_scheme \<Rightarrow> 'a io_state_scheme" where
  "insw dev port addr 0 s = s"
| "insw dev port addr (Suc count) s =
     (let w = dev (io s) port
      in insw dev port (addr + 2) count
           (s\<lparr>io := Inw port # io s, mem := (mem s)(addr := ucast w, addr + 1 := ucast (drop_bit 8 w))\<rparr>))"

fun outsw :: "u16 \<Rightarrow> ptr \<Rightarrow> nat \<Rightarrow> 'a io_state_scheme \<Rightarrow> 'a io_state_scheme" where
  "outsw port addr 0 s = s"
| "outsw port addr (Suc count) s =
     outsw port (addr + 2) count
       (s\<lparr>io := Outw port (ucast (mem s addr) OR push_bit 8 (ucast (mem s (addr + 1)))) # io s\<rparr>)"

section \<open>Sectors\<close>

abbreviation (input) "ATA_DATA \<equiv> 0x1F0 :: u16"
abbreviation (input) "ATA_SECCOUNT \<equiv> 0x1F2 :: u16"
abbreviation (input) "ATA_LBA_LOW \<equiv> 0x1F3 :: u16"
abbreviation (input) "ATA_LBA_MID \<equiv> 0x1F4 :: u16"
abbreviation (input) "ATA_LBA_HIGH \<equiv> 0x1F5 :: u16"
abbreviation (input) "ATA_DRIVE \<equiv> 0x1F6 :: u16"
abbreviation (input) "ATA_CMD \<equiv> 0x1F7 :: u16"
abbreviation (input) "ATA_STATUS \<equiv> 0x1F7 :: u16"

fun ata_wait_loop :: "device \<Rightarrow> nat \<Rightarrow> 'a io_state_scheme \<Rightarrow> 'a io_state_scheme \<times> u32" where
  "ata_wait_loop dev 0 s = (s, 0)"
| "ata_wait_loop dev (Suc n) s =
     (let (s', status) = inb dev ATA_STATUS s
      in if status AND 0x80 = 0 then (s', if status AND 0x01 \<noteq> 0 then 1 else 0)
         else ata_wait_loop dev n s')"

definition ata_wait :: "device \<Rightarrow> 'a io_state_scheme \<Rightarrow> 'a io_state_scheme \<times> u32" where
  "ata_wait dev s = ata_wait_loop dev 1000000 s"

definition ata_command :: "u8 \<Rightarrow> u32 \<Rightarrow> 'a io_state_scheme \<Rightarrow> 'a io_state_scheme" where
  "ata_command cmd lba s =
     outb ATA_CMD cmd (outb ATA_LBA_HIGH (ucast (drop_bit 16 lba)) (outb ATA_LBA_MID (ucast (drop_bit 8 lba))
       (outb ATA_LBA_LOW (ucast lba) (outb ATA_SECCOUNT 1
         (outb ATA_DRIVE (ucast (0xE0 OR (drop_bit 24 lba AND 0x0F))) s)))))"

definition ata_read_sector :: "device \<Rightarrow> u32 \<Rightarrow> ptr \<Rightarrow> 'a io_state_scheme \<Rightarrow> 'a io_state_scheme" where
  "ata_read_sector dev lba buffer s = insw dev ATA_DATA buffer 256 (fst (ata_wait dev (ata_command 0x20 lba s)))"

definition ata_write_sector :: "device \<Rightarrow> u32 \<Rightarrow> ptr \<Rightarrow> 'a io_state_scheme \<Rightarrow> 'a io_state_scheme" where
  "ata_write_sector dev lba buffer s =
     fst (ata_wait dev (outb ATA_CMD 0xE7
       (outsw ATA_DATA buffer 256 (fst (ata_wait dev (ata_command 0x30 lba s))))))"

section \<open>The block device file\<close>

abbreviation (input) "SECTOR_SIZE \<equiv> 512 :: u32"

definition hdd_open :: "'a io_state_scheme \<Rightarrow> ptr \<Rightarrow> ('a io_state_scheme \<times> ptr) option" where
  "hdd_open s inode = do {
     (s1, f) \<leftarrow> malloc s sizeof_VFSFile;
     Some (s1\<lparr>files := (files s1)(f := \<lparr>f_inode = inode, f_private_data = NULL,
                                       f_private_data_size = 0, f_position = 0\<rparr>)\<rparr>, f) }"

definition hdd_close :: "'a io_state_scheme \<Rightarrow> ptr \<Rightarrow> 'a io_state_scheme option" where
  "hdd_close s f = free s f"

definition hdd_read :: "device \<Rightarrow> 'a io_state_scheme \<Rightarrow> ptr \<Rightarrow> ptr \<Rightarrow> u32 \<Rightarrow> 'a io_state_scheme \<times> u32" where
  "hdd_read dev s f buffer buffer_size =
     (let n_sectors = buffer_size div SECTOR_SIZE
      in (fold (\<lambda>i s. ata_read_sector dev (f_position (files s f) + of_nat i) (buffer + of_nat i * SECTOR_SIZE) s)
            [0..<unat n_sectors] s, n_sectors * 512))"

definition hdd_write :: "device \<Rightarrow> 'a io_state_scheme \<Rightarrow> ptr \<Rightarrow> ptr \<Rightarrow> u32 \<Rightarrow> 'a io_state_scheme \<times> u32" where
  "hdd_write dev s f buffer buffer_size =
     (let n_sectors = buffer_size div SECTOR_SIZE
      in (fold (\<lambda>i s. ata_write_sector dev (f_position (files s f) + of_nat i) (buffer + of_nat i * SECTOR_SIZE) s)
            [0..<unat n_sectors] s, n_sectors * 512))"

definition hdd_ioctl :: "'a io_state_scheme \<Rightarrow> ptr \<Rightarrow> ptr \<Rightarrow> ptr \<Rightarrow> 'a io_state_scheme" where
  "hdd_ioctl s f command arg = s"

definition hdd_seek :: "'a io_state_scheme \<Rightarrow> ptr \<Rightarrow> u32 \<Rightarrow> u32 \<Rightarrow> 'a io_state_scheme" where
  "hdd_seek s f offset whence =
     (if whence = VFS_BEG then
        s\<lparr>files := (files s)(f := (files s f)\<lparr>f_position := offset div SECTOR_SIZE\<rparr>)\<rparr>
      else if whence = VFS_CUR then
        s\<lparr>files := (files s)(f := (files s f)\<lparr>f_position := f_position (files s f) + offset div SECTOR_SIZE\<rparr>)\<rparr>
      else s)"

definition hdd_tell :: "'a io_state_scheme \<Rightarrow> ptr \<Rightarrow> u32" where
  "hdd_tell s f = f_position (files s f) * 512"

definition hdd_flush :: "'a io_state_scheme \<Rightarrow> ptr \<Rightarrow> 'a io_state_scheme" where
  "hdd_flush s f = s"

section \<open>Bytes stored one after the other\<close>

fun put_bytes :: "bmem \<Rightarrow> ptr \<Rightarrow> u8 list \<Rightarrow> bmem" where
  "put_bytes m p [] = m"
| "put_bytes m p (b # bs) = put_bytes (m(p := b)) (p + 1) bs"

definition word_bytes :: "u16 \<Rightarrow> u8 list" where
  "word_bytes w = [ucast w, ucast (drop_bit 8 w)]"

definition sector_bytes :: "u16 list \<Rightarrow> u8 list" where
  "sector_bytes ws = concat (map word_bytes ws)"

lemma put_bytes_append: "put_bytes m p (xs @ ys) = put_bytes (put_bytes m p xs) (p + of_nat (length xs)) ys"
  by (induction xs arbitrary: m p) (simp_all add: add.assoc)

lemma put_bytes_other:
  "length bs \<le> 2 ^ 32 \<Longrightarrow> (\<And>j. j < length bs \<Longrightarrow> a \<noteq> p + of_nat j) \<Longrightarrow> put_bytes m p bs a = m a"
proof (induction bs arbitrary: m p)
  case (Cons b bs)
  have "a \<noteq> p" using Cons.prems(2) [of 0] by simp
  moreover have "a \<noteq> p + 1 + of_nat j" if "j < length bs" for j
    using Cons.prems(2) [of "Suc j"] that by (simp add: add.assoc)
  ultimately show ?case using Cons.IH [of "p + 1"] Cons.prems(1) by simp
qed simp

lemma bytes_at_put_bytes: "length bs \<le> 2 ^ 32 \<Longrightarrow> bytes_at (put_bytes m p bs) p (length bs) = bs"
proof (induction bs arbitrary: m p)
  case (Cons b bs)
  have "p \<noteq> p + 1 + of_nat j" if "j < length bs" for j
    using offset_eq_iff [of 0 "Suc j" p] that Cons.prems by (simp add: add.assoc)
  then have "put_bytes (m(p := b)) (p + 1) bs p = b"
    using Cons.prems by (subst put_bytes_other) auto
  then show ?case using Cons by (simp add: bytes_at_Suc)
qed simp

lemma length_sector_bytes [simp]: "length (sector_bytes ws) = 2 * length ws"
  by (induction ws) (simp_all add: sector_bytes_def word_bytes_def)

lemma insw_spec:
  "insw dev port addr n s = s\<lparr>io := replicate n (Inw port) @ io s,
     mem := put_bytes (mem s) addr (sector_bytes (map (\<lambda>k. dev (replicate k (Inw port) @ io s) port) [0..<n]))\<rparr>"
proof (induction n arbitrary: addr s)
  case (Suc n)
  have "map (\<lambda>k. dev (replicate k (Inw port) @ io s) port) [0..<Suc n] =
      dev (io s) port # map (\<lambda>k. dev (replicate k (Inw port) @ Inw port # io s) port) [0..<n]"
    by (simp add: upt_conv_Cons map_Suc_upt [symmetric] replicate_app_Cons_same del: upt_Suc)
  then show ?case
    by (simp only: insw.simps Let_def Suc.IH)
      (simp add: sector_bytes_def word_bytes_def replicate_app_Cons_same add.assoc)
qed (simp add: sector_bytes_def)

section \<open>A drive\<close>

text \<open>The documented PIO protocol, as the code relies on it. \<open>disk h lba\<close> are the 256 words of a
  sector after the history \<open>h\<close>. After a read command BSY clears within a million status reads; from
  then on the data port delivers the words of the sector; a read changes no sector.\<close>

definition command_history :: "u8 \<Rightarrow> u32 \<Rightarrow> io_event list \<Rightarrow> io_event list" where
  "command_history cmd lba h =
     [Outb ATA_CMD cmd, Outb ATA_LBA_HIGH (ucast (drop_bit 16 lba)), Outb ATA_LBA_MID (ucast (drop_bit 8 lba)),
      Outb ATA_LBA_LOW (ucast lba), Outb ATA_SECCOUNT 1,
      Outb ATA_DRIVE (ucast (0xE0 OR (drop_bit 24 lba AND 0x0F)))] @ h"

definition polled :: "nat \<Rightarrow> io_event list \<Rightarrow> io_event list" where
  "polled n h = replicate n (Inb ATA_STATUS) @ h"

definition busy :: "device \<Rightarrow> io_event list \<Rightarrow> bool" where
  "busy dev h \<longleftrightarrow> (ucast (dev h ATA_STATUS) :: u8) AND 0x80 \<noteq> 0"

definition reads_sectors :: "device \<Rightarrow> (io_event list \<Rightarrow> u32 \<Rightarrow> u16 list) \<Rightarrow> bool" where
  "reads_sectors dev disk \<longleftrightarrow> (\<forall>h lba. unat lba < 2 ^ 28 \<longrightarrow> (let h1 = command_history 0x20 lba h in
     (\<exists>n<1000000. \<not> busy dev (polled n h1)) \<and>
     (\<forall>n. \<not> busy dev (polled n h1) \<longrightarrow>
        length (disk h lba) = 256 \<and>
        (\<forall>k<256. dev (replicate k (Inw ATA_DATA) @ polled (Suc n) h1) ATA_DATA = disk h lba ! k) \<and>
        disk (replicate 256 (Inw ATA_DATA) @ polled (Suc n) h1) = disk h)))"

lemma reads_sectorsD:
  assumes "reads_sectors dev disk" "unat lba < 2 ^ 28"
  shows "\<exists>n<1000000. \<not> busy dev (polled n (command_history 0x20 lba h))"
    and "\<not> busy dev (polled n (command_history 0x20 lba h)) \<Longrightarrow> length (disk h lba) = 256 \<and>
      (\<forall>k<256. dev (replicate k (Inw ATA_DATA) @ polled (Suc n) (command_history 0x20 lba h)) ATA_DATA = disk h lba ! k) \<and>
      disk (replicate 256 (Inw ATA_DATA) @ polled (Suc n) (command_history 0x20 lba h)) = disk h"
  using assms unfolding reads_sectors_def Let_def by blast+

lemma polled_Suc: "polled (Suc n) h = Inb ATA_STATUS # polled n h" "polled 0 h = h"
  by (simp_all add: polled_def)

lemma polled_polled: "polled n (Inb ATA_STATUS # h) = polled (Suc n) h"
  by (simp add: polled_def replicate_app_Cons_same)

text \<open>\<open>ata_wait\<close> stops after the first status read that is not busy.\<close>

lemma ata_wait_loop_ready:
  "n < m \<Longrightarrow> \<not> busy dev (polled n (io s)) \<Longrightarrow>
     \<exists>k\<le>n. fst (ata_wait_loop dev m s) = s\<lparr>io := polled (Suc k) (io s)\<rparr> \<and> \<not> busy dev (polled k (io s))"
proof (induction m arbitrary: n s)
  case (Suc m)
  let ?s = "s\<lparr>io := Inb ATA_STATUS # io s\<rparr>"
  show ?case
  proof (cases "busy dev (io s)")
    case False
    then show ?thesis
      by (intro exI [of _ 0]) (simp add: inb_def busy_def polled_Suc)
  next
    case True
    with Suc.prems obtain j where j: "n = Suc j" by (cases n) (auto simp: polled_Suc)
    with Suc.prems Suc.IH [of j ?s] obtain k where
      "k \<le> j" "fst (ata_wait_loop dev m ?s) = ?s\<lparr>io := polled (Suc k) (io ?s)\<rparr>" "\<not> busy dev (polled k (io ?s))"
      by (auto simp: polled_polled)
    with True j show ?thesis
      by (intro exI [of _ "Suc k"]) (simp add: inb_def busy_def polled_polled)
  qed
qed simp

lemma ata_read_sector_spec:
  assumes dev: "reads_sectors dev disk" and lba: "unat lba < 2 ^ 28"
  shows "\<exists>h'. ata_read_sector dev lba buffer s =
      s\<lparr>io := h', mem := put_bytes (mem s) buffer (sector_bytes (disk (io s) lba))\<rparr> \<and> disk h' = disk (io s)"
proof -
  let ?h = "command_history 0x20 lba (io s)"
  have cmd: "ata_command 0x20 lba s = s\<lparr>io := ?h\<rparr>"
    by (simp add: ata_command_def outb_def command_history_def)
  from reads_sectorsD(1) [OF dev lba] obtain n where "n < 1000000" "\<not> busy dev (polled n ?h)" by blast
  with ata_wait_loop_ready [of n 1000000 dev "s\<lparr>io := ?h\<rparr>"] obtain k where
    w: "fst (ata_wait dev (s\<lparr>io := ?h\<rparr>)) = s\<lparr>io := polled (Suc k) ?h\<rparr>" and k: "\<not> busy dev (polled k ?h)"
    by (auto simp: ata_wait_def)
  have "map (\<lambda>j. dev (replicate j (Inw ATA_DATA) @ polled (Suc k) ?h) ATA_DATA) [0..<256] = disk (io s) lba"
    using reads_sectorsD(2) [OF dev lba k] by (intro nth_equalityI) auto
  moreover have "disk (replicate 256 (Inw ATA_DATA) @ polled (Suc k) ?h) = disk (io s)"
    using reads_sectorsD(2) [OF dev lba k] by blast
  ultimately show ?thesis
    unfolding ata_read_sector_def cmd w insw_spec
    by (intro exI [of _ "replicate 256 (Inw ATA_DATA) @ polled (Suc k) ?h"]) simp
qed

lemma length_concat_upt: "\<forall>i<n. length (g i) = c \<Longrightarrow> length (concat (map g [0..<n])) = c * n"
  by (induction n) simp_all

lemma read_sectors_spec:
  assumes dev: "reads_sectors dev disk" and p: "f_position (files s f) = p"
  shows "unat p + n \<le> 2 ^ 28 \<Longrightarrow>
    \<exists>h'. fold (\<lambda>i s. ata_read_sector dev (f_position (files s f) + of_nat i) (buffer + of_nat i * 512) s) [0..<n] s =
        s\<lparr>io := h',
          mem := put_bytes (mem s) buffer (concat (map (\<lambda>i. sector_bytes (disk (io s) (p + of_nat i))) [0..<n]))\<rparr> \<and>
      disk h' = disk (io s) \<and> (\<forall>i<n. length (disk (io s) (p + of_nat i)) = 256)"
proof (induction n)
  case 0
  show ?case by (intro exI [of _ "io s"]) simp
next
  case (Suc n)
  let ?data = "\<lambda>n. concat (map (\<lambda>i. sector_bytes (disk (io s) (p + of_nat i))) [0..<n])"
  from Suc obtain h where h: "fold (\<lambda>i s. ata_read_sector dev (f_position (files s f) + of_nat i) (buffer + of_nat i * 512) s)
      [0..<n] s = s\<lparr>io := h, mem := put_bytes (mem s) buffer (?data n)\<rparr>"
    and disk: "disk h = disk (io s)" and len: "\<forall>i<n. length (disk (io s) (p + of_nat i)) = 256" by auto
  have lba: "unat (p + of_nat n) < 2 ^ 28" using Suc.prems by (simp add: unat_plus_nowrap unat_of_nat_u32)
  let ?s = "s\<lparr>io := h, mem := put_bytes (mem s) buffer (?data n)\<rparr>"
  from ata_read_sector_spec [OF dev lba, of "buffer + of_nat n * 512" ?s] obtain h' where
    h': "ata_read_sector dev (p + of_nat n) (buffer + of_nat n * 512) ?s =
      ?s\<lparr>io := h', mem := put_bytes (mem ?s) (buffer + of_nat n * 512) (sector_bytes (disk h (p + of_nat n)))\<rparr>"
    and disk': "disk h' = disk h" by auto
  have "length (?data n) = 512 * n"
    using len by (intro length_concat_upt) simp
  then have "put_bytes (mem ?s) (buffer + of_nat n * 512) (sector_bytes (disk (io s) (p + of_nat n))) =
      put_bytes (mem s) buffer (?data (Suc n))"
    by (simp add: put_bytes_append mult.commute)
  moreover have "length (disk h (p + of_nat n)) = 256"
    using reads_sectorsD [OF dev lba] by blast
  ultimately show ?case
    using h h' disk disk' len p by (intro exI [of _ h']) (auto simp: less_Suc_eq)
qed

section \<open>An instance of the protocol\<close>

text \<open>A drive that is never busy and delivers the sector named by the last command.\<close>

definition command_lba :: "io_event list \<Rightarrow> u32" where
  "command_lba h = (case h of
     Outb _ _ # Outb _ hi # Outb _ mid # Outb _ lo # Outb _ _ # Outb _ dr # _ \<Rightarrow>
       ucast lo OR push_bit 8 (ucast mid) OR push_bit 16 (ucast hi) OR push_bit 24 (ucast dr AND 0x0F)
   | _ \<Rightarrow> 0)"

fun is_in :: "io_event \<Rightarrow> bool" where
  "is_in (Inb _) = True" | "is_in (Inw _) = True" | "is_in _ = False"

definition sim_drive :: "(u32 \<Rightarrow> u16 list) \<Rightarrow> device" where
  "sim_drive disk h port =
     (if port = ATA_STATUS then 0x40
      else disk (command_lba (dropWhile is_in h)) ! length (takeWhile (\<lambda>e. e = Inw ATA_DATA) h))"

lemma ucast_low: "take_bit 4 (ucast (ucast (x :: u32) :: u8) :: u32) = take_bit 4 x"
  by (rule bit_word_eqI) (auto simp: bit_take_bit_iff bit_ucast_iff)

lemma ucast_high: "(ucast (ucast (drop_bit 24 (x :: u32)) :: u8) :: u32) = drop_bit 24 x"
  by (rule bit_word_eqI) (auto simp: bit_ucast_iff bit_drop_bit_eq dest: bit_imp_le_length)

lemma lba_bytes:
  assumes "unat (lba :: u32) < 2 ^ 28"
  shows "ucast (ucast lba :: u8) OR push_bit 8 (ucast (ucast (drop_bit 8 lba) :: u8)) OR
    push_bit 16 (ucast (ucast (drop_bit 16 lba) :: u8)) OR
    push_bit 24 (ucast (ucast (0xE0 OR (drop_bit 24 lba AND 0x0F)) :: u8) AND 0x0F) = lba"
proof -
  have am: "a AND 0x0F = take_bit 4 a" for a :: u32
    by (simp add: take_bit_eq_mask mask_eq_exp_minus_1)
  have lba: "take_bit 28 lba = lba"
    using assms by (simp add: word_unat_eq_iff unsigned_take_bit_eq take_bit_nat_eq_self)
  have d: "take_bit 4 (drop_bit 24 lba) = drop_bit 24 lba"
    by (subst (2) lba [symmetric]) (simp add: drop_bit_take_bit)
  have "ucast (ucast (0xE0 OR (drop_bit 24 lba AND 0x0F)) :: u8) AND (0x0F :: u32) = drop_bit 24 lba"
    unfolding am ucast_low by (simp add: d)
  then show ?thesis using bytes_of_u32 [of lba] by (simp add: ucast_high)
qed

definition io_demo :: io_state where
  "io_demo = tty_state.extend tty_demo (io_state.fields [])"

lemma io_demo_facts: "files io_demo f = \<lparr>f_inode = 0, f_private_data = 0x2000, f_private_data_size = 0, f_position = 0\<rparr>"
  "mem io_demo a = 0"
  by (simp_all add: io_demo_def tty_demo_def kbd_demo_def kbd_state.defs tty_state.defs io_state.defs)

section \<open>Properties\<close>

text \<open>C25: On a drive that follows the PIO protocol, reading the disk file at a position below 2^28 sectors
  stores consecutive whole sectors, in order, and returns their size in bytes.\<close>

theorem hdd_read_sectors:
  assumes "reads_sectors dev disk" and "n = unat buffer_size div 512"
    and "f_position (files s f) = p" and "unat p + n \<le> 2 ^ 28"
    and "hdd_read dev s f buffer buffer_size = (s', r)"
  shows "unat r = 512 * n \<and>
    bytes_at (mem s') buffer (512 * n) = concat (map (\<lambda>i. sector_bytes (disk (io s) (p + of_nat i))) [0..<n]) \<and>
    (\<forall>a. (\<forall>j<512 * n. a \<noteq> buffer + of_nat j) \<longrightarrow> mem s' a = mem s a)"
proof -
  let ?data = "concat (map (\<lambda>i. sector_bytes (disk (io s) (p + of_nat i))) [0..<n])"
  have n: "unat (buffer_size div 512) = n" using assms(2) by (simp add: unat_div)
  from read_sectors_spec [OF assms(1,3,4), of buffer] obtain h' where
    s': "s' = s\<lparr>io := h', mem := put_bytes (mem s) buffer ?data\<rparr>"
    and len: "\<forall>i<n. length (disk (io s) (p + of_nat i)) = 256" and r: "r = buffer_size div 512 * 512"
    using assms(5) by (auto simp: hdd_read_def n)
  have l: "length ?data = 512 * n" using len by (intro length_concat_upt) simp
  have "512 * n < 2 ^ 32" using assms(2) unat_u32_less [of buffer_size] by simp
  moreover from this have "unat r = 512 * n" unfolding r by (simp add: unat_times_nowrap n)
  ultimately show ?thesis
    using bytes_at_put_bytes [of ?data "mem s" buffer] put_bytes_other [of ?data _ buffer "mem s"] by (simp add: s' l)
qed

lemma sim_drive_reads:
  assumes "\<And>lba. length (disk lba) = 256"
  shows "reads_sectors (sim_drive disk) (\<lambda>_. disk)"
proof -
  have tw: "takeWhile (\<lambda>e. e = Inw ATA_DATA) (replicate k (Inw ATA_DATA) @ polled (Suc n) h) = replicate k (Inw ATA_DATA)"
    for k n h by (induction k) (simp_all add: polled_Suc)
  have dw: "dropWhile is_in (replicate k (Inw ATA_DATA) @ polled n (command_history c lba h)) = command_history c lba h"
    for k n c lba h
  proof (induction k)
    case 0
    show ?case by (induction n) (simp_all add: polled_Suc command_history_def)
  qed simp
  have lba: "command_lba (command_history c lba h) = lba" if "unat lba < 2 ^ 28" for c lba h
    using lba_bytes [OF that] by (simp add: command_lba_def command_history_def)
  show ?thesis
    unfolding reads_sectors_def Let_def
    by (auto simp: sim_drive_def busy_def tw dw lba assms intro!: exI [of _ 0])
qed

theorem hdd_read_sectors_witness:
  "bytes_at (mem (fst (hdd_read (sim_drive (\<lambda>lba. replicate 256 (ucast lba)))
      io_demo 0 0x8000 1024))) 0x8000 1024 =
   concat (map (\<lambda>i. sector_bytes (replicate 256 (of_nat i))) [0..<2])"
proof -
  let ?disk = "\<lambda>lba. replicate 256 (ucast (lba :: u32)) :: u16 list"
  let ?s = io_demo
  have "f_position (files ?s 0) = 0" by (simp add: io_demo_facts)
  obtain s' r where r: "hdd_read (sim_drive ?disk) ?s 0 0x8000 1024 = (s', r)" by fastforce
  from hdd_read_sectors [OF sim_drive_reads [of ?disk] _ \<open>f_position (files ?s 0) = 0\<close> _ r, of 2]
  show ?thesis by (simp add: upt_rec r)
qed

text \<open>Seeking from the start of the disk file and asking for the position gives the offset rounded down
  to a sector boundary.\<close>

theorem hdd_seek_tell: "hdd_tell (hdd_seek s f offset VFS_BEG) f = offset - offset mod 512"
  by (simp add: hdd_tell_def hdd_seek_def) (simp add: minus_mod_eq_mult_div mult.commute)

end
