(* ===== verification/Pager.thy ===== *)
theory Pager
  imports HDD
begin

text \<open>
  \<open>kernel/pager.c\<close>: two-level x86 page tables in byte memory and the list of free physical
  blocks. An entry is the 32-bit word at \<open>table + 4 * i\<close>; its bit-fields are read and written
  with masks. The blocks of the free list are records in a typed store keyed by their heap
  address (the entry at \<open>NULL\<close> stands for the memory the code reads and writes through null
  links). Messages are not modelled; \<open>exit_kernel\<close>, which does not return, is \<open>None\<close>.
\<close>

section \<open>Data\<close>

record FreeMemoryBlock =
  fm_start :: ptr
  fm_end :: ptr
  fm_next :: ptr
  fm_prev :: ptr

record pager_state = io_state +
  page_tables_end :: ptr
  first_pager_block :: ptr
  pager_blocks :: "ptr \<Rightarrow> FreeMemoryBlock"
  cr3 :: u32

abbreviation (input) "PAGER_ERROR \<equiv> 0xFFFFFFFF :: ptr"
abbreviation (input) "PAGE_SIZE \<equiv> 0x1000 :: u32"
abbreviation (input) "TABLE_ENTRIES_LENGTH \<equiv> 1024 :: nat"
abbreviation (input) "sizeof_PageTable \<equiv> 0x1000 :: u32"
abbreviation (input) "sizeof_FreeMemoryBlock \<equiv> 16 :: u32"

text \<open>The bit-fields shared by \<open>PDEEntry\<close> and \<open>PTEEntry\<close>: \<open>present\<close> (bit 0), \<open>writeable\<close> (1),
  \<open>write_through\<close> (3) and the address of the table or page (bits 12 to 31).\<close>

definition entry_at :: "bmem \<Rightarrow> ptr \<Rightarrow> u32 \<Rightarrow> u32" where
  "entry_at m table i = load32 m (table + 4 * i)"

definition present :: "u32 \<Rightarrow> bool" where
  "present e \<longleftrightarrow> e AND 1 \<noteq> 0"

definition entry_address :: "u32 \<Rightarrow> u32" where
  "entry_address e = push_bit 12 (drop_bit 12 e)"

definition set_address :: "u32 \<Rightarrow> u32 \<Rightarrow> u32" where
  "set_address e a = (e AND 0xFFF) OR push_bit 12 (drop_bit 12 a)"

section \<open>Translation\<close>

definition virt_to_phys :: "bmem \<Rightarrow> u32 \<Rightarrow> ptr \<Rightarrow> u32" where
  "virt_to_phys m virtual_address table =
     (let physical_index = virtual_address AND 0xFFF;
          pte_index = drop_bit 12 virtual_address AND 0x3FF;
          pde_index = drop_bit 22 virtual_address AND 0x3FF;
          pde = entry_at m table pde_index
      in if \<not> present pde then PAGER_ERROR
         else
           let pte = entry_at m (entry_address pde) pte_index
           in if \<not> present pte then PAGER_ERROR
              else entry_address pte + physical_index)"

section \<open>Free physical memory\<close>

definition pager_remove :: "'a pager_state_scheme \<Rightarrow> ptr \<Rightarrow> ptr \<Rightarrow> ptr \<Rightarrow> 'a pager_state_scheme option" where
  "pager_remove s entry start stop =
     (let b = pager_blocks s; e = b entry in
      if start = fm_start e \<and> stop = fm_end e then
        let first = fm_next e
        in free (s\<lparr>first_pager_block := first, pager_blocks := b(first := (b first)\<lparr>fm_prev := NULL\<rparr>)\<rparr>) entry
      else if start = fm_start e then Some (s\<lparr>pager_blocks := b(entry := e\<lparr>fm_start := stop + 1\<rparr>)\<rparr>)
      else if stop = fm_end e then Some (s\<lparr>pager_blocks := b(entry := e\<lparr>fm_end := start - 1\<rparr>)\<rparr>)
      else do {
        (s1, new_entry) \<leftarrow> malloc s sizeof_FreeMemoryBlock;
        if new_entry = NULL then None
        else Some (s1\<lparr>pager_blocks := b(
               new_entry := \<lparr>fm_start = stop + 1, fm_end = fm_end e, fm_next = fm_next e, fm_prev = entry\<rparr>,
               entry := e\<lparr>fm_next := new_entry, fm_end := start - 1\<rparr>)\<rparr>) })"

partial_function (option) pager_fill_loop ::
  "(ptr \<Rightarrow> FreeMemoryBlock) \<Rightarrow> ptr \<Rightarrow> ptr \<Rightarrow> ptr option" where
  "pager_fill_loop b start entry =
     (if fm_start (b entry) < start then pager_fill_loop b start (fm_next (b entry)) else Some entry)"

definition pager_fill :: "'a pager_state_scheme \<Rightarrow> ptr \<Rightarrow> ptr \<Rightarrow> 'a pager_state_scheme option" where
  "pager_fill s start stop = do {
     let b = pager_blocks s;
     entry \<leftarrow> pager_fill_loop b start (first_pager_block s);
     let entry_before = fm_prev (b entry);
     let entry_after = entry;
     if fm_end (b entry_before) + 1 = start \<and> entry_before \<noteq> NULL then
       Some (s\<lparr>pager_blocks := b(entry_before := (b entry_before)\<lparr>fm_end := stop\<rparr>)\<rparr>)
     else if fm_start (b entry_after) - 1 = stop \<and> entry_after \<noteq> NULL then
       Some (s\<lparr>pager_blocks := b(entry_after := (b entry_after)\<lparr>fm_start := start\<rparr>)\<rparr>)
     else do {
       (s1, new_entry) \<leftarrow> malloc s sizeof_FreeMemoryBlock;
       if new_entry = NULL then None
       else
         let b1 = b(new_entry := \<lparr>fm_start = start, fm_end = stop, fm_next = entry_after, fm_prev = entry_before\<rparr>);
             b2 = (if entry_before \<noteq> NULL then b1(entry_before := (b1 entry_before)\<lparr>fm_next := new_entry\<rparr>) else b1);
             b3 = (if entry_after \<noteq> NULL then b2(entry_after := (b2 entry_after)\<lparr>fm_prev := new_entry\<rparr>) else b2)
         in Some (s1\<lparr>pager_blocks := b3,
                    first_pager_block := (if entry_after = first_pager_block s then new_entry else first_pager_block s)\<rparr>) }}"

section \<open>Tables\<close>

definition alloc_table :: "'a pager_state_scheme \<Rightarrow> 'a pager_state_scheme \<times> ptr" where
  "alloc_table s =
     (let e = page_tables_end s + sizeof_PageTable in (s\<lparr>page_tables_end := e\<rparr>, e - sizeof_PageTable))"

definition free_pte_table :: "'a pager_state_scheme \<Rightarrow> ptr \<Rightarrow> 'a pager_state_scheme option" where
  "free_pte_table s table =
     fold (\<lambda>i r. do { s \<leftarrow> r;
         let e = entry_at (mem s) table (of_nat i);
         if present e then pager_fill s (entry_address e) (entry_address e + PAGE_SIZE - 1) else Some s })
       [0..<TABLE_ENTRIES_LENGTH] (Some s)"

definition free_pde_table :: "'a pager_state_scheme \<Rightarrow> ptr \<Rightarrow> 'a pager_state_scheme option" where
  "free_pde_table s table =
     fold (\<lambda>i r. do { s \<leftarrow> r;
         let e = entry_at (mem s) table (of_nat i);
         if present e then free_pte_table s (entry_address e) else Some s })
       [0..<TABLE_ENTRIES_LENGTH] (Some s)"

text \<open>The two loops of \<open>get_free_page_index\<close>: the first index that is not present.\<close>

fun free_pte_index :: "bmem \<Rightarrow> ptr \<Rightarrow> nat \<Rightarrow> nat \<Rightarrow> nat option" where
  "free_pte_index m sub_table 0 j = None"
| "free_pte_index m sub_table (Suc n) j =
     (if \<not> present (entry_at m sub_table (of_nat j)) then Some j else free_pte_index m sub_table n (j + 1))"

fun free_page_index_loop :: "bmem \<Rightarrow> ptr \<Rightarrow> nat \<Rightarrow> nat \<Rightarrow> u32" where
  "free_page_index_loop m table 0 i = PAGER_ERROR"
| "free_page_index_loop m table (Suc n) i =
     (let e = entry_at m table (of_nat i) in
      if \<not> present e then of_nat (i * TABLE_ENTRIES_LENGTH)
      else case free_pte_index m (entry_address e) TABLE_ENTRIES_LENGTH 0 of
             Some j \<Rightarrow> of_nat j + of_nat (i * TABLE_ENTRIES_LENGTH)
           | None \<Rightarrow> free_page_index_loop m table n (i + 1))"

definition get_free_page_index :: "bmem \<Rightarrow> ptr \<Rightarrow> u32" where
  "get_free_page_index m table = free_page_index_loop m table TABLE_ENTRIES_LENGTH 0"

definition load_page_table :: "'a pager_state_scheme \<Rightarrow> ptr \<Rightarrow> 'a pager_state_scheme" where
  "load_page_table s pde_table = s\<lparr>cr3 := (cr3 s AND 0xFFF) OR pde_table\<rparr>"

definition init_pager :: "'a pager_state_scheme \<Rightarrow> 'a pager_state_scheme option" where
  "init_pager s = do {
     (s1, b) \<leftarrow> malloc s sizeof_FreeMemoryBlock;
     if b = NULL then None
     else Some (s1\<lparr>first_pager_block := b, pager_blocks := (pager_blocks s1)(b :=
            \<lparr>fm_start = 0, fm_end = 0xFFFFFFFF, fm_next = NULL, fm_prev = NULL\<rparr>)\<rparr>) }"

definition create_new_table :: "'a pager_state_scheme \<Rightarrow> 'a pager_state_scheme \<times> ptr" where
  "create_new_table s =
     (let (s1, new_table) = alloc_table s in
      if new_table = NULL then (s1, PAGER_ERROR)
      else (s1\<lparr>mem := fst (memset (mem s1) new_table 0 sizeof_PageTable)\<rparr>, new_table))"

section \<open>Pages\<close>

definition align_page :: "u32 \<Rightarrow> u32" where
  "align_page a = (a + PAGE_SIZE - 1) AND NOT (PAGE_SIZE - 1)"

definition new_page :: "'a pager_state_scheme \<Rightarrow> ptr \<Rightarrow> ptr \<Rightarrow> u32 \<Rightarrow> ('a pager_state_scheme \<times> ptr) option" where
  "new_page s physical_address pde_table flags = do {
     let entry = first_pager_block s;
     let pa = (if physical_address \<noteq> PAGER_ERROR then align_page physical_address
               else fm_start (pager_blocks s entry));
     s1 \<leftarrow> pager_remove s entry pa (pa + PAGE_SIZE - 1);
     let index = get_free_page_index (mem s1) pde_table;
     let pde_index = index div of_nat TABLE_ENTRIES_LENGTH;
     let pte_index = index mod of_nat TABLE_ENTRIES_LENGTH;
     let pde_entry = pde_table + 4 * pde_index;
     let pde = load32 (mem s1) pde_entry;
     (s2, pte_table) \<leftarrow>
       (if \<not> present pde then
          let (s2, t) = create_new_table s1
          in if t = PAGER_ERROR then None
             else
               let pde' = set_address ((load32 (mem s2) pde_entry OR 0xB) OR flags) t
               in Some (s2\<lparr>mem := store32 (mem s2) pde_entry pde'\<rparr>, t)
        else Some (s1, entry_address pde));
     let pte_entry = pte_table + 4 * pte_index;
     let pte' = (set_address (load32 (mem s2) pte_entry) pa OR 0xB) OR flags;
     Some (s2\<lparr>mem := store32 (mem s2) pte_entry pte'\<rparr>, push_bit 22 pde_index OR push_bit 12 pte_index) }"

definition free_page :: "'a pager_state_scheme \<Rightarrow> ptr \<Rightarrow> ptr \<Rightarrow> 'a pager_state_scheme option" where
  "free_page s virtual_address pde_table =
     (let va = align_page virtual_address;
          pte_index = drop_bit 12 va AND 0x3FF;
          pde_index = drop_bit 22 va AND 0x3FF;
          pde = entry_at (mem s) pde_table pde_index
      in if \<not> present pde then Some s
         else
           let pte_entry = entry_address pde + 4 * pte_index
           in if \<not> present (load32 (mem s) pte_entry) then Some s
              else do {
                let pa = virt_to_phys (mem s) va pde_table;
                s1 \<leftarrow> pager_fill s pa (pa + PAGE_SIZE - 1);
                Some (s1\<lparr>mem := store32 (mem s1) pte_entry (load32 (mem s1) pte_entry AND NOT 1)\<rparr>) })"

definition soft_copy_table :: "'a pager_state_scheme \<Rightarrow> ptr \<Rightarrow> u16 \<Rightarrow> 'a pager_state_scheme \<times> ptr" where
  "soft_copy_table s table number_of_entries =
     (let (s1, new_table) = create_new_table s in
      if new_table = PAGER_ERROR then (s1, PAGER_ERROR)
      else (s1\<lparr>mem := fst (memcpy (mem s1) new_table table (4 * ucast number_of_entries))\<rparr>, new_table))"

text \<open>The loop \<open>while (new_page(PAGER_ERROR, table, flags) < limit);\<close> of the kernel's \<open>main\<close>.\<close>

partial_function (option) map_pages ::
  "'a pager_state_scheme \<Rightarrow> ptr \<Rightarrow> u32 \<Rightarrow> ptr \<Rightarrow> 'a pager_state_scheme option" where
  "map_pages s pde_table flags limit =
     Option.bind (new_page s PAGER_ERROR pde_table flags)
       (\<lambda>(s', va). if va < limit then map_pages s' pde_table flags limit else Some s')"

section \<open>Entries of page-aligned tables\<close>

definition aligned :: "u32 \<Rightarrow> bool" where
  "aligned a \<longleftrightarrow> take_bit 12 a = 0"

lemma aligned_unat: "aligned a \<longleftrightarrow> 4096 dvd unat a"
proof -
  have "unat (take_bit 12 a) = take_bit 12 (unat a)" by (rule unsigned_take_bit_eq)
  also have "\<dots> = unat a mod 4096" by (simp add: take_bit_eq_mod)
  finally have "unat (take_bit 12 a) = unat a mod 4096" .
  then show ?thesis by (simp only: aligned_def word_unat_eq_iff dvd_eq_mod_eq_0 unsigned_0)
qed

lemma aligned_bit: "aligned a \<Longrightarrow> bit a n \<Longrightarrow> 12 \<le> n"
  unfolding aligned_def by (metis bit_0_eq bit_take_bit_iff bot_apply bot_bool_def not_le)

lemma present_bit: "present e \<longleftrightarrow> bit e 0"
  by (simp add: present_def bit_0 odd_iff_mod_2_eq_one and_one_eq)

lemma bit_entry_address: "bit (entry_address e) n \<longleftrightarrow> 12 \<le> n \<and> bit e n"
  by (auto simp: entry_address_def bit_push_bit_iff bit_drop_bit_eq dest: bit_imp_le_length)

lemma aligned_entry_address [simp]: "aligned (entry_address e)"
  unfolding aligned_def by (rule bit_word_eqI) (simp add: bit_take_bit_iff bit_entry_address)

lemma entry_address_aligned: "aligned a \<Longrightarrow> entry_address a = a"
  by (rule bit_word_eqI) (auto simp: bit_entry_address dest: aligned_bit)

lemma mask12: "a AND 0xFFF = take_bit 12 (a :: u32)"
  by (simp add: take_bit_eq_mask mask_eq_exp_minus_1)

lemma mask10: "a AND 0x3FF = take_bit 10 (a :: u32)"
  by (simp add: take_bit_eq_mask mask_eq_exp_minus_1)

lemma bit_11: "bit (0xB :: u32) 0" "bit (0xB :: u32) n \<Longrightarrow> n < 12"
proof -
  show "bit (0xB :: u32) 0" by simp
  have "take_bit 12 (0xB :: u32) = 0xB" by simp
  then show "bit (0xB :: u32) n \<Longrightarrow> n < 12" by (metis bit_take_bit_iff)
qed

lemma low_bits: "unat (f :: u32) < 2 ^ 12 \<Longrightarrow> bit f n \<Longrightarrow> n < 12"
proof -
  assume f: "unat f < 2 ^ 12" and n: "bit f n"
  have "take_bit 12 f = f"
    using f by (simp add: word_unat_eq_iff unsigned_take_bit_eq take_bit_nat_eq_self)
  then show "n < 12" using n by (metis bit_take_bit_iff)
qed

text \<open>The entries \<open>new_page\<close> writes.\<close>

lemma new_pte:
  assumes "aligned a" "unat flags < 2 ^ 12"
  shows "present ((set_address e a OR 0xB) OR flags)" "entry_address ((set_address e a OR 0xB) OR flags) = a"
proof -
  show "present ((set_address e a OR 0xB) OR flags)"
    by (simp add: present_bit bit_or_iff del: bit_0)
  show "entry_address ((set_address e a OR 0xB) OR flags) = a"
  proof (rule bit_word_eqI)
    fix n
    have "bit (0xB :: u32) n \<Longrightarrow> n < 12" "bit flags n \<Longrightarrow> n < 12" "bit a n \<Longrightarrow> 12 \<le> n \<and> n < 32"
      using bit_11(2) low_bits [OF assms(2)] aligned_bit [OF assms(1)] by (auto dest: bit_imp_le_length)
    then show "bit (entry_address ((set_address e a OR 0xB) OR flags)) n = bit a n"
      unfolding bit_entry_address set_address_def mask12 bit_or_iff bit_take_bit_iff bit_push_bit_iff bit_drop_bit_eq
      by auto
  qed
qed

lemma new_pde:
  assumes "aligned a"
  shows "present (set_address ((e OR 0xB) OR flags) a)" "entry_address (set_address ((e OR 0xB) OR flags) a) = a"
proof -
  show "present (set_address ((e OR 0xB) OR flags) a)"
    by (simp add: present_bit bit_or_iff set_address_def mask12 bit_take_bit_iff del: bit_0)
  show "entry_address (set_address ((e OR 0xB) OR flags) a) = a"
  proof (rule bit_word_eqI)
    fix n
    have "bit a n \<Longrightarrow> 12 \<le> n \<and> n < 32"
      using aligned_bit [OF assms(1)] by (auto dest: bit_imp_le_length)
    then show "bit (entry_address (set_address ((e OR 0xB) OR flags) a)) n = bit a n"
      unfolding bit_entry_address set_address_def mask12 bit_or_iff bit_take_bit_iff bit_push_bit_iff bit_drop_bit_eq
      by auto
  qed
qed

lemma aligned_room: "aligned a \<Longrightarrow> unat a + 4096 \<le> 2 ^ 32"
proof -
  assume "aligned a"
  then obtain k where "unat a = 4096 * k" by (auto simp: aligned_unat elim: dvdE)
  then show ?thesis using unat_u32_less [of a] by simp
qed

lemma unat_entry: "aligned a \<Longrightarrow> i < 1024 \<Longrightarrow> unat (a + 4 * i) = unat a + 4 * unat i"
  using aligned_room [of a] by (simp add: unat_plus_nowrap unat_times_nowrap word_less_nat_alt)

lemma aligned_apart: "aligned a \<Longrightarrow> aligned b \<Longrightarrow> a \<noteq> b \<Longrightarrow> apart a 4096 b 4096"
proof -
  assume a: "aligned a" and b: "aligned b" and ne: "a \<noteq> b"
  obtain k l where kl: "unat a = 4096 * k" "unat b = 4096 * l" using a b by (auto simp: aligned_unat elim!: dvdE)
  then have "k \<noteq> l" using ne by (auto simp: word_unat_eq_iff)
  then show ?thesis using kl by (auto simp: apart_def)
qed

lemma entry_apart:
  assumes "aligned a" "aligned b" "i < 1024" "j < 1024" "a \<noteq> b \<or> i \<noteq> j"
  shows "apart (a + 4 * i) 4 (b + 4 * j) 4"
proof (cases "a = b")
  case True
  then have "unat i \<noteq> unat j" using assms(5) by (simp add: word_unat_eq_iff)
  then show ?thesis using True assms unat_entry by (auto simp: apart_def)
next
  case False
  then show ?thesis
    using aligned_apart [OF assms(1,2)] assms unat_entry by (auto simp: apart_def word_less_nat_alt)
qed

lemma entry_fits: "aligned a \<Longrightarrow> i < 1024 \<Longrightarrow> unat (a + 4 * i) + 4 \<le> 2 ^ 32"
  using aligned_room [of a] by (simp add: unat_entry word_less_nat_alt)

lemma entry_at_store:
  assumes "aligned a" "aligned b" "i < 1024" "j < 1024"
  shows "entry_at (store32 m (a + 4 * i) v) b j = (if a = b \<and> i = j then v else entry_at m b j)"
  using load32_store32_apart [OF entry_fits [OF assms(1,3)] entry_fits [OF assms(2,4)] entry_apart [OF assms]]
  by (auto simp: entry_at_def)

section \<open>The mapping of a page directory\<close>

text \<open>\<open>lookup m pde i j\<close>: the page entry under directory index \<open>i\<close> and table index \<open>j\<close>.\<close>

definition lookup :: "bmem \<Rightarrow> ptr \<Rightarrow> u32 \<Rightarrow> u32 \<Rightarrow> u32 option" where
  "lookup m pde i j =
     (let e = entry_at m pde i; q = entry_at m (entry_address e) j
      in if present e \<and> present q then Some q else None)"

definition tables_ok :: "bmem \<Rightarrow> ptr \<Rightarrow> bool" where
  "tables_ok m pde \<longleftrightarrow> aligned pde \<and>
     (\<forall>i<1024. present (entry_at m pde i) \<longrightarrow> entry_address (entry_at m pde i) \<noteq> pde \<and>
        (\<forall>j<1024. j \<noteq> i \<longrightarrow> present (entry_at m pde j) \<longrightarrow>
           entry_address (entry_at m pde i) \<noteq> entry_address (entry_at m pde j)))"

lemma take_bit_10_less: "take_bit 10 (a :: u32) < 1024"
proof -
  have "unat (take_bit 10 a) = take_bit 10 (unat a)" by (rule unsigned_take_bit_eq)
  also have "\<dots> < 1024" using take_bit_nat_less_exp [of 10 "unat a"] by simp
  finally show ?thesis by (simp add: word_less_nat_alt)
qed

lemma virt_to_phys_lookup:
  "virt_to_phys m va pde =
     (case lookup m pde (take_bit 10 (drop_bit 22 va)) (take_bit 10 (drop_bit 12 va)) of
        None \<Rightarrow> PAGER_ERROR | Some q \<Rightarrow> entry_address q + take_bit 12 va)"
  by (simp add: virt_to_phys_def lookup_def Let_def mask10 mask12)

text \<open>A page entry stored in a table of the directory.\<close>

lemma lookup_store_pte:
  assumes ok: "tables_ok m pde" and i: "i < 1024" "j < 1024" and pr: "present (entry_at m pde i)"
    and i': "i' < 1024" "j' < 1024" and v: "present v"
  shows "lookup (store32 m (entry_address (entry_at m pde i) + 4 * j) v) pde i' j' =
    (if i' = i \<and> j' = j then Some v else lookup m pde i' j')"
proof -
  let ?t = "entry_address (entry_at m pde i)"
  let ?m = "store32 m (?t + 4 * j) v"
  have pde: "entry_at ?m pde k = entry_at m pde k" if "k < 1024" for k
    using ok i pr that by (simp add: entry_at_store tables_ok_def)
  have "entry_at ?m (entry_address (entry_at m pde i')) j' =
      (if i' = i \<and> j' = j then v else entry_at m (entry_address (entry_at m pde i')) j')"
    if "present (entry_at m pde i')"
  proof -
    have "?t = entry_address (entry_at m pde i') \<longleftrightarrow> i' = i"
      using ok i i' pr that unfolding tables_ok_def by metis
    then show ?thesis using i i' by (auto simp: entry_at_store)
  qed
  then show ?thesis using pde i' v pr by (auto simp: lookup_def Let_def)
qed

lemma tables_ok_store_pte:
  assumes "tables_ok m pde" "i < 1024" "j < 1024" "present (entry_at m pde i)"
  shows "tables_ok (store32 m (entry_address (entry_at m pde i) + 4 * j) v) pde"
proof -
  have "entry_at (store32 m (entry_address (entry_at m pde i) + 4 * j) v) pde k = entry_at m pde k" if "k < 1024" for k
    using assms that by (simp add: entry_at_store tables_ok_def)
  with assms show ?thesis by (simp add: tables_ok_def)
qed

text \<open>A new, empty table hung into the directory.\<close>

lemma memset_at:
  assumes "unat buf + unat n < 2 ^ 32"
  shows "fst (memset m buf v n) a = (if unat buf \<le> unat a \<and> unat a < unat buf + unat n then ucast v else m a)"
proof -
  have "i \<le> stop \<Longrightarrow> memset_loop m w i stop a = (if i \<le> a \<and> a < stop then w else m a)" for m w i stop
  proof (induction m w i stop rule: memset_loop.induct)
    case (1 m w i stop)
    show ?case
    proof (cases "i < stop")
      case True
      then have le: "i + 1 \<le> stop" "a \<noteq> i \<Longrightarrow> i + 1 \<le> a \<longleftrightarrow> i \<le> a" "\<not> i + 1 \<le> i"
        using unat_inc_u32 [OF True] by (auto simp: word_le_nat_alt word_less_nat_alt word_unat_eq_iff)
      have "memset_loop m w i stop a = memset_loop (m(i := w)) w (i + 1) stop a"
        using True by (subst memset_loop.simps) simp
      also have "\<dots> = (if i + 1 \<le> a \<and> a < stop then w else (m(i := w)) a)"
        using "1.IH" [OF True] le(1) by blast
      also have "\<dots> = (if i \<le> a \<and> a < stop then w else m a)"
        using le True by (cases "a = i") auto
      finally show ?thesis .
    next
      case False
      then show ?thesis using 1 by (subst memset_loop.simps) auto
    qed
  qed
  from this [of buf "buf + n" m "ucast v"] show ?thesis
    using assms by (simp add: memset_def word_le_nat_alt word_less_nat_alt unat_plus_nowrap)
qed

lemma entry_at_memset:
  assumes t: "aligned t" "unat t + 4096 < 2 ^ 32" and b: "aligned b" "j < 1024"
  shows "entry_at (fst (memset m t 0 0x1000)) b j = (if b = t then 0 else entry_at m b j)"
proof -
  have fits: "unat (b + 4 * j) + 4 \<le> 2 ^ 32" "unat (b + 4 * j) = unat b + 4 * unat j" "unat j < 1024"
    using entry_fits [OF b] unat_entry [OF b] b(2) by (simp_all add: word_less_nat_alt)
  have off: "unat (b + 4 * j + 1) = unat (b + 4 * j) + 1" "unat (b + 4 * j + 2) = unat (b + 4 * j) + 2"
    "unat (b + 4 * j + 3) = unat (b + 4 * j) + 3"
    using fits(1) by (simp_all add: unat_plus_nowrap)
  show ?thesis
  proof (cases "t = b")
    case True
    then show ?thesis
      using t(2) fits(2,3) by (simp add: entry_at_def load32_def memset_at off)
  next
    case False
    from aligned_apart [OF b(1) t(1) False [symmetric]] have "apart b 4096 t 4096" .
    then show ?thesis
      using False t(2) fits(2,3) by (auto simp: entry_at_def load32_def memset_at off apart_def)
  qed
qed

lemma present_0 [simp]: "\<not> present 0"
  by (simp add: present_def)

text \<open>The table of a new directory entry: none of the directory's own.\<close>

definition fresh_table :: "bmem \<Rightarrow> ptr \<Rightarrow> ptr \<Rightarrow> bool" where
  "fresh_table m pde t \<longleftrightarrow> aligned t \<and> t \<noteq> NULL \<and> t \<noteq> pde \<and> unat t + 4096 < 2 ^ 32 \<and>
     (\<forall>i<1024. present (entry_at m pde i) \<longrightarrow> entry_address (entry_at m pde i) \<noteq> t)"

lemma hang_table:
  assumes ok: "tables_ok m pde" and fr: "fresh_table m pde t" and i: "i < 1024"
    and np: "\<not> present (entry_at m pde i)" and e: "present e" "entry_address e = t"
  defines "m' \<equiv> store32 (fst (memset m t 0 0x1000)) (pde + 4 * i) e"
  shows "tables_ok m' pde" and "k < 1024 \<Longrightarrow> entry_at m' pde k = (if k = i then e else entry_at m pde k)"
    and "i' < 1024 \<Longrightarrow> j' < 1024 \<Longrightarrow> lookup m' pde i' j' = lookup m pde i' j'"
proof -
  have pde: "entry_at m' pde k = (if k = i then e else entry_at m pde k)" if "k < 1024" for k :: u32
    using ok fr i that unfolding m'_def fresh_table_def tables_ok_def
    by (auto simp: entry_at_store entry_at_memset)
  show "entry_at m' pde k = (if k = i then e else entry_at m pde k)" if "k < 1024" by (rule pde [OF that])
  have sub: "entry_at m' b j = (if b = t then 0 else entry_at m b j)" if "aligned b" "b \<noteq> pde" "j < 1024" for b j
    using ok fr i that unfolding m'_def fresh_table_def tables_ok_def
    by (simp add: entry_at_store entry_at_memset)
  show "tables_ok m' pde"
    using ok fr i e unfolding tables_ok_def fresh_table_def by (auto simp: pde split: if_splits)
  show "lookup m' pde i' j' = lookup m pde i' j'" if "i' < 1024" "j' < 1024"
  proof (cases "i' = i")
    case True
    have "entry_at m' t j' = 0" using fr that by (subst sub) (auto simp: fresh_table_def)
    then show ?thesis using True np e that by (simp add: lookup_def pde)
  next
    case False
    have "entry_address (entry_at m pde i') \<noteq> t" "entry_address (entry_at m pde i') \<noteq> pde" if "present (entry_at m pde i')"
      using ok fr that \<open>i' < 1024\<close> by (auto simp: fresh_table_def tables_ok_def)
    then show ?thesis using False that by (auto simp: lookup_def pde sub Let_def)
  qed
qed

section \<open>The first free page\<close>

definition lookup_index :: "bmem \<Rightarrow> ptr \<Rightarrow> nat \<Rightarrow> u32 option" where
  "lookup_index m pde k = lookup m pde (of_nat (k div 1024)) (of_nat (k mod 1024))"

lemma free_pte_index_spec:
  "case free_pte_index m t n j of
     Some r \<Rightarrow> j \<le> r \<and> r < j + n \<and> \<not> present (entry_at m t (of_nat r)) \<and> (\<forall>x. j \<le> x \<and> x < r \<longrightarrow> present (entry_at m t (of_nat x)))
   | None \<Rightarrow> \<forall>x. j \<le> x \<and> x < j + n \<longrightarrow> present (entry_at m t (of_nat x))"
proof (induction n arbitrary: j)
  case 0
  show ?case by simp (intro allI impI, linarith)
next
  case (Suc n)
  show ?case
  proof (cases "present (entry_at m t (of_nat j))")
    case True
    have "j \<le> x \<longleftrightarrow> x = j \<or> Suc j \<le> x" for x by auto
    then show ?thesis
      using True Suc.IH [of "j + 1"] by (auto split: option.splits)
  qed auto
qed

lemma free_page_index_loop_spec:
  assumes "k < 1024 * 1024" "lookup_index m pde k = None" "\<forall>x<k. lookup_index m pde x \<noteq> None"
  shows "i * 1024 \<le> k \<Longrightarrow> k < (i + n) * 1024 \<Longrightarrow> free_page_index_loop m pde n i = of_nat k"
proof (induction n arbitrary: i)
  case (Suc n)
  let ?e = "entry_at m pde (of_nat i)"
  have all: "present ?e \<and> present (entry_at m (entry_address ?e) (of_nat x))" if "i * 1024 + x < k" "x < 1024" for x
  proof -
    have d: "(i * 1024 + x) div 1024 = i" "(i * 1024 + x) mod 1024 = x" using that(2) by auto
    have "lookup_index m pde (i * 1024 + x) \<noteq> None" using assms(3) that by blast
    then show ?thesis unfolding lookup_index_def d lookup_def Let_def by (auto split: if_splits)
  qed
  show ?case
  proof (cases "k < (i + 1) * 1024")
    case True
    obtain j where j: "k = i * 1024 + j" "j < 1024" using True Suc.prems(1)
      by (metis add.commute add_mult_distrib le_Suc_ex less_add_eq_less mult_1 nat_add_left_cancel_less)
    have d: "k div 1024 = i" "k mod 1024 = j" using j by auto
    have np: "present ?e \<Longrightarrow> \<not> present (entry_at m (entry_address ?e) (of_nat j))"
      using assms(2) d by (auto simp: lookup_index_def lookup_def Let_def split: if_splits)
    show ?thesis
    proof (cases "present ?e")
      case False
      then have "j = 0" using all [of 0] j by (cases j) auto
      then show ?thesis using False j by (simp add: Let_def)
    next
      case True
      have "free_pte_index m (entry_address ?e) 1024 0 = Some j"
      proof (cases "free_pte_index m (entry_address ?e) 1024 0")
        case None
        with free_pte_index_spec [where m = m and t = "entry_address ?e" and n = 1024 and j = 0] np [OF True] j show ?thesis by auto
      next
        case (Some r)
        with free_pte_index_spec [where m = m and t = "entry_address ?e" and n = 1024 and j = 0] have
          r: "r < 1024" "\<not> present (entry_at m (entry_address ?e) (of_nat r))"
            "\<forall>x<r. present (entry_at m (entry_address ?e) (of_nat x))" by auto
        have "\<not> r < j" using all [of r] r j by auto
        moreover have "\<not> j < r" using r(3) np [OF True] by auto
        ultimately show ?thesis using Some by simp
      qed
      then show ?thesis using True j by (simp add: Let_def)
    qed
  next
    case False
    then have "i * 1024 + 1023 < k" by simp
    then have a: "present ?e \<and> present (entry_at m (entry_address ?e) (of_nat x))" if "x < 1024" for x
      using all [of x] that by simp
    have p: "present ?e" by (rule a [of 0, THEN conjunct1]) simp
    have p2: "\<forall>x<1024. present (entry_at m (entry_address ?e) (of_nat x))"
      using a by blast
    have "free_pte_index m (entry_address ?e) 1024 0 = None"
      using free_pte_index_spec [where m = m and t = "entry_address ?e" and n = 1024 and j = 0] p2 by (auto split: option.splits)
    moreover have "free_page_index_loop m pde n (i + 1) = of_nat k"
      using Suc False by (intro Suc.IH) auto
    ultimately show ?thesis using p by (simp add: Let_def)
  qed
qed simp

lemma va_index:
  "take_bit 10 (drop_bit 22 (va :: u32)) = of_nat (unat va div 4096 div 1024)"
  "take_bit 10 (drop_bit 12 (va :: u32)) = of_nat (unat va div 4096 mod 1024)"
proof -
  have n: "unat (take_bit 10 (drop_bit n va)) = unat va div 2 ^ n mod 1024" for n
  proof -
    have "unat (take_bit 10 (drop_bit n va)) = take_bit 10 (drop_bit n (unat va))"
      by (simp only: unsigned_take_bit_eq unat_drop_bit_eq)
    also have "\<dots> = unat va div 2 ^ n mod 1024" by (simp add: take_bit_eq_mod drop_bit_eq_div)
    finally show ?thesis .
  qed
  have "unat va div 4096 div 1024 < 1024" using unat_u32_less [of va] by simp
  then have "unat (take_bit 10 (drop_bit 22 va)) = unat va div 4096 div 1024"
    by (simp add: n div_mult2_eq [symmetric])
  then show "take_bit 10 (drop_bit 22 va) = of_nat (unat va div 4096 div 1024)" by (rule unat_eqD)
  have "unat (take_bit 10 (drop_bit 12 va)) = unat va div 4096 mod 1024" by (simp add: n)
  then show "take_bit 10 (drop_bit 12 va) = of_nat (unat va div 4096 mod 1024)" by (rule unat_eqD)
qed

lemma virt_to_phys_index:
  "virt_to_phys m va pde = (case lookup_index m pde (unat va div 4096) of
      None \<Rightarrow> PAGER_ERROR | Some q \<Rightarrow> entry_address q + take_bit 12 va)"
  by (simp only: virt_to_phys_lookup va_index lookup_index_def)

lemma split_va:
  "(va :: u32) = push_bit 22 (take_bit 10 (drop_bit 22 va)) OR push_bit 12 (take_bit 10 (drop_bit 12 va)) OR take_bit 12 va"
proof (rule bit_word_eqI)
  fix n assume "n < LENGTH(32)"
  then consider "n < 12" | "12 \<le> n" "n < 22" | "22 \<le> n" "n < 32" by fastforce
  then show "bit va n = bit (push_bit 22 (take_bit 10 (drop_bit 22 va)) OR push_bit 12 (take_bit 10 (drop_bit 12 va)) OR take_bit 12 va) n"
    by cases (auto simp: bit_or_iff bit_push_bit_iff bit_take_bit_iff bit_drop_bit_eq)
qed

lemma index_va:
  assumes "k < 1024 * 1024"
  shows "push_bit 22 (of_nat (k div 1024)) OR push_bit 12 (of_nat (k mod 1024)) = (of_nat (k * 4096) :: u32)"
    and "unat (of_nat (k * 4096) :: u32) div 4096 = k" "aligned (of_nat (k * 4096) :: u32)"
proof -
  have u: "unat (of_nat (k * 4096) :: u32) = k * 4096" using assms by (intro unat_of_nat_u32) simp
  then show al: "aligned (of_nat (k * 4096) :: u32)" unfolding aligned_unat by simp
  show i: "unat (of_nat (k * 4096) :: u32) div 4096 = k" unfolding u by simp
  show "push_bit 22 (of_nat (k div 1024)) OR push_bit 12 (of_nat (k mod 1024)) = (of_nat (k * 4096) :: u32)"
    using split_va [of "of_nat (k * 4096)"] al unfolding va_index i aligned_def by simp
qed

section \<open>Mapping a page\<close>

definition unmapped_first :: "bmem \<Rightarrow> ptr \<Rightarrow> nat \<Rightarrow> bool" where
  "unmapped_first m pde k \<longleftrightarrow> k < 1024 * 1024 \<and> lookup_index m pde k = None \<and> (\<forall>x<k. lookup_index m pde x \<noteq> None)"

lemma index_words:
  assumes "k < 1024 * 1024"
  shows "(of_nat k :: u32) div of_nat 1024 = of_nat (k div 1024)" "(of_nat k :: u32) mod of_nat 1024 = of_nat (k mod 1024)"
    "(of_nat (k div 1024) :: u32) < 1024" "(of_nat (k mod 1024) :: u32) < 1024"
  using assms by (auto intro!: unat_eqD simp: unat_div unat_mod unat_of_nat_u32 word_less_nat_alt)

lemma of_nat_1024_eq: "i < 1024 \<Longrightarrow> j < 1024 \<Longrightarrow> (of_nat i :: u32) = of_nat j \<longleftrightarrow> i = j"
  by (simp add: of_nat_eq_u32_iff)

lemma lookup_index_upd:
  assumes "\<And>i j. i < 1024 \<Longrightarrow> j < 1024 \<Longrightarrow>
      lookup m' pde i j = (if i = of_nat (k div 1024) \<and> j = of_nat (k mod 1024) then Some q else lookup m pde i j)"
    and "k < 1024 * 1024" "x < 1024 * 1024"
  shows "lookup_index m' pde x = (if x = k then Some q else lookup_index m pde x)"
proof -
  have "x div 1024 = k div 1024 \<and> x mod 1024 = k mod 1024 \<longleftrightarrow> x = k"
    by (metis div_mult_mod_eq)
  then show ?thesis
    using assms index_words(3,4) [OF assms(3)] by (simp add: lookup_index_def of_nat_1024_eq)
qed

lemma new_page_spec:
  fixes s :: "'a pager_state_scheme"
  defines "fb \<equiv> pager_blocks s (first_pager_block s)"
  assumes ok: "tables_ok (mem s) pde" and k: "unmapped_first (mem s) pde k"
    and pa: "aligned (fm_start fb)" "fm_start fb + 0xFFF \<noteq> fm_end fb" and fl: "unat flags < 2 ^ 12"
    and fr: "\<not> present (entry_at (mem s) pde (of_nat (k div 1024))) \<Longrightarrow> fresh_table (mem s) pde (page_tables_end s)"
  shows "\<exists>m' q e. new_page s PAGER_ERROR pde flags =
      Some (s\<lparr>mem := m', page_tables_end := e,
              pager_blocks := (pager_blocks s)(first_pager_block s := fb\<lparr>fm_start := fm_start fb + 0x1000\<rparr>)\<rparr>,
            of_nat (k * 4096)) \<and>
    tables_ok m' pde \<and> present q \<and> entry_address q = fm_start fb \<and>
    (\<forall>x<1024 * 1024. lookup_index m' pde x = (if x = k then Some q else lookup_index (mem s) pde x)) \<and>
    e = (if present (entry_at (mem s) pde (of_nat (k div 1024))) then page_tables_end s else page_tables_end s + 0x1000) \<and>
    (\<forall>i<1024. present (entry_at m' pde i) \<longrightarrow> present (entry_at (mem s) pde i) \<and>
        entry_address (entry_at m' pde i) = entry_address (entry_at (mem s) pde i) \<or>
        entry_address (entry_at m' pde i) = page_tables_end s \<and> e = page_tables_end s + 0x1000)"
proof -
  let ?i = "of_nat (k div 1024) :: u32" and ?j = "of_nat (k mod 1024) :: u32"
  let ?b = "(pager_blocks s)(first_pager_block s := fb\<lparr>fm_start := fm_start fb + 0x1000\<rparr>)"
  let ?s1 = "s\<lparr>pager_blocks := ?b\<rparr>"
  from k have kl: "k < 1024 * 1024" by (simp add: unmapped_first_def)
  note ij = index_words [OF kl]
  have rm: "pager_remove s (first_pager_block s) (fm_start fb) (fm_start fb + 0x1000 - 1) = Some ?s1"
    using pa(2) by (simp add: pager_remove_def fb_def Let_def add.commute)
  have idx: "get_free_page_index (mem s) pde = of_nat k"
    using k unfolding get_free_page_index_def unmapped_first_def
    by (intro free_page_index_loop_spec) auto
  note va = index_va(1) [OF kl]
  have rm2: "pager_remove s (first_pager_block s) (fm_start fb) (4095 + fm_start fb) = Some ?s1"
    using rm by (simp add: add.commute)
  note np = new_page_def rm2 fb_def [symmetric] idx ij [simplified] va [simplified] entry_at_def [symmetric]
  define q where "q m = (set_address (load32 m (entry_address (entry_at m pde ?i) + 4 * ?j)) (fm_start fb) OR 0xB) OR flags" for m
  have q: "present (q m)" "entry_address (q m) = fm_start fb" for m
    unfolding q_def using new_pte [OF pa(1) fl] by auto
  show ?thesis
  proof (cases "present (entry_at (mem s) pde ?i)")
    case True
    let ?t = "entry_address (entry_at (mem s) pde ?i)"
    let ?m = "store32 (mem s) (?t + 4 * ?j) (q (mem s))"
    have e: "entry_at ?m pde i = entry_at (mem s) pde i" if "i < 1024" for i
      using ok True that ij by (simp add: entry_at_store tables_ok_def)
    have "new_page s PAGER_ERROR pde flags = Some (?s1\<lparr>mem := ?m\<rparr>, of_nat (k * 4096))"
      using True by (simp add: np Let_def q_def)
    moreover have "lookup_index ?m pde x = (if x = k then Some (q (mem s)) else lookup_index (mem s) pde x)"
      if "x < 1024 * 1024" for x
      by (rule lookup_index_upd [OF _ kl that]) (rule lookup_store_pte [OF ok ij(3,4) True _ _ q(1)])
    moreover have "tables_ok ?m pde" by (rule tables_ok_store_pte [OF ok ij(3,4) True])
    ultimately show ?thesis
      using True q by (intro exI [of _ ?m] exI [of _ "q (mem s)"] exI [of _ "page_tables_end s"]) (auto simp: e)
  next
    case False
    then have fresh: "fresh_table (mem s) pde (page_tables_end s)" by (rule fr)
    let ?t = "page_tables_end s"
    have t: "aligned ?t" "?t \<noteq> NULL" using fresh by (simp_all add: fresh_table_def)
    have "?t \<noteq> PAGER_ERROR" using t(1) by (auto simp: aligned_def)
    define m1 where "m1 = fst (memset (mem s) ?t 0 0x1000)"
    define e where "e = set_address ((load32 m1 (pde + 4 * ?i) OR 0xB) OR flags) ?t"
    have e: "present e" "entry_address e = ?t" unfolding e_def using new_pde [OF t(1)] by auto
    define m2 where "m2 = store32 m1 (pde + 4 * ?i) e"
    note hang = hang_table [OF ok fresh ij(3) False e, folded m1_def, folded m2_def]
    have ei: "entry_at m2 pde ?i = e" using hang(2) [OF ij(3)] by simp
    have pr: "present (entry_at m2 pde ?i)" using ei e by simp
    let ?m = "store32 m2 (?t + 4 * ?j) (q m2)"
    have qm: "q m2 = (set_address (load32 m2 (?t + 4 * ?j)) (fm_start fb) OR 0xB) OR flags"
      by (simp add: q_def ei e)
    have c: "create_new_table ?s1 = (?s1\<lparr>page_tables_end := ?t + 0x1000, mem := m1\<rparr>, ?t)"
      using t(2) by (simp add: create_new_table_def alloc_table_def Let_def m1_def)
    have "new_page s PAGER_ERROR pde flags = Some (?s1\<lparr>page_tables_end := ?t + 0x1000, mem := ?m\<rparr>, of_nat (k * 4096))"
      unfolding qm using False \<open>?t \<noteq> PAGER_ERROR\<close> by (simp add: np Let_def c m2_def e_def)
    moreover have "lookup_index ?m pde x = (if x = k then Some (q m2) else lookup_index (mem s) pde x)"
      if "x < 1024 * 1024" for x
      using lookup_store_pte [OF hang(1) ij(3,4) pr _ _ q(1), of _ _ m2] hang(3)
      by (intro lookup_index_upd [OF _ kl that]) (simp add: ei e)
    moreover have "tables_ok ?m pde"
      using tables_ok_store_pte [OF hang(1) ij(3,4) pr, of "q m2"] by (simp add: ei e)
    moreover have "entry_at ?m pde i = (if i = ?i then e else entry_at (mem s) pde i)" if "i < 1024" for i
      using hang(2) [OF that] fresh ok ij that by (simp add: entry_at_store tables_ok_def fresh_table_def)
    ultimately show ?thesis
      using False q e by (intro exI [of _ ?m] exI [of _ "q m2"] exI [of _ "?t + 0x1000"]) auto
  qed
qed

text \<open>The first \<open>n\<close> pages are mapped to themselves and no others, and the first free block starts
  right after them.\<close>

definition identity_upto :: "'a pager_state_scheme \<Rightarrow> ptr \<Rightarrow> nat \<Rightarrow> bool" where
  "identity_upto s pde n \<longleftrightarrow> tables_ok (mem s) pde \<and>
     (\<forall>x<1024 * 1024. case lookup_index (mem s) pde x of
        None \<Rightarrow> n \<le> x | Some q \<Rightarrow> x < n \<and> entry_address q = of_nat (x * 4096)) \<and>
     fm_start (pager_blocks s (first_pager_block s)) = of_nat (n * 4096) \<and>
     fm_end (pager_blocks s (first_pager_block s)) = 0xFFFFFFFF"

lemma identity_first: "identity_upto s pde n \<Longrightarrow> n < 1024 * 1024 \<Longrightarrow> unmapped_first (mem s) pde n"
proof -
  assume a: "identity_upto s pde n" "n < 1024 * 1024"
  then have c: "case lookup_index (mem s) pde x of None \<Rightarrow> n \<le> x | Some q \<Rightarrow> x < n \<and> entry_address q = of_nat (x * 4096)"
    if "x < 1024 * 1024" for x using that by (simp add: identity_upto_def)
  have "lookup_index (mem s) pde n = None" using c [of n] a(2) by (auto split: option.splits)
  moreover have "lookup_index (mem s) pde x \<noteq> None" if "x < n" for x
    using c [of x] a(2) that by (auto split: option.splits)
  ultimately show ?thesis using a(2) by (simp add: unmapped_first_def)
qed

lemma identity_step:
  assumes inv: "identity_upto s pde n" and n: "n < 1024" and fl: "unat flags < 2 ^ 12"
    and fr: "n = 0 \<Longrightarrow> fresh_table (mem s) pde (page_tables_end s)"
  shows "\<exists>s'. new_page s PAGER_ERROR pde flags = Some (s', of_nat (n * 4096)) \<and> identity_upto s' pde (Suc n)"
proof -
  let ?fb = "pager_blocks s (first_pager_block s)"
  have fb: "fm_start ?fb = of_nat (n * 4096)" "fm_end ?fb = 0xFFFFFFFF" using inv by (simp_all add: identity_upto_def)
  have al: "aligned (fm_start ?fb)" using index_va(3) [of n] n fb(1) by simp
  have u: "unat (fm_start ?fb) = n * 4096" unfolding fb(1) by (rule unat_of_nat_u32) (use n in simp)
  then have "unat (fm_start ?fb + 0xFFF) = n * 4096 + 4095" using n by (simp add: unat_plus_nowrap)
  then have end': "fm_start ?fb + 0xFFF \<noteq> fm_end ?fb" using n fb(2) by auto
  have dir: "fresh_table (mem s) pde (page_tables_end s)"
    if "\<not> present (entry_at (mem s) pde (of_nat (n div 1024)))"
  proof (rule fr)
    show "n = 0"
    proof (rule ccontr)
      assume "n \<noteq> 0"
      then have "lookup_index (mem s) pde 0 \<noteq> None"
        using identity_first [OF inv] n by (simp add: unmapped_first_def)
      then have "present (entry_at (mem s) pde 0)"
        by (auto simp: lookup_index_def lookup_def Let_def split: if_splits)
      with that n show False by simp
    qed
  qed
  from inv have ok: "tables_ok (mem s) pde" by (simp add: identity_upto_def)
  have n20: "n < 1024 * 1024" using n by simp
  from new_page_spec [OF ok identity_first [OF inv n20] al end' fl dir]
  obtain m' q e where np: "new_page s PAGER_ERROR pde flags =
      Some (s\<lparr>mem := m', page_tables_end := e,
              pager_blocks := (pager_blocks s)(first_pager_block s := ?fb\<lparr>fm_start := fm_start ?fb + 0x1000\<rparr>)\<rparr>,
            of_nat (n * 4096))"
    and ok': "tables_ok m' pde" and q: "entry_address q = fm_start ?fb"
    and li: "\<forall>x<1024 * 1024. lookup_index m' pde x = (if x = n then Some q else lookup_index (mem s) pde x)"
    by blast
  have "case lookup_index m' pde x of None \<Rightarrow> Suc n \<le> x | Some q \<Rightarrow> x < Suc n \<and> entry_address q = of_nat (x * 4096)"
    if x: "x < 1024 * 1024" for x
  proof (cases "x = n")
    case True
    then show ?thesis using li x q fb(1) by simp
  next
    case False
    have "case lookup_index (mem s) pde x of None \<Rightarrow> n \<le> x | Some q \<Rightarrow> x < n \<and> entry_address q = of_nat (x * 4096)"
      using inv x by (simp add: identity_upto_def)
    then show ?thesis using li x False by (auto split: option.splits)
  qed
  then have "identity_upto (s\<lparr>mem := m', page_tables_end := e,
              pager_blocks := (pager_blocks s)(first_pager_block s := ?fb\<lparr>fm_start := fm_start ?fb + 0x1000\<rparr>)\<rparr>) pde (Suc n)"
    using ok' fb by (simp add: identity_upto_def algebra_simps)
  with np show ?thesis by blast
qed

lemma map_pages_identity:
  assumes "identity_upto s pde n" "n < 1024" "unat flags < 2 ^ 12"
    and "n = 0 \<Longrightarrow> fresh_table (mem s) pde (page_tables_end s)"
  shows "\<exists>s'. map_pages s pde flags 0x3FF000 = Some s' \<and> identity_upto s' pde 1024"
  using assms
proof (induction "1023 - n" arbitrary: n s)
  case 0
  then have n: "n = 1023" by simp
  from identity_step [OF 0(2-5)] obtain s' where
    "new_page s PAGER_ERROR pde flags = Some (s', of_nat (n * 4096))" "identity_upto s' pde (Suc n)" by blast
  then show ?case using n by (subst map_pages.simps) simp
next
  case (Suc d)
  from identity_step [OF Suc(3-6)] obtain s' where
    s': "new_page s PAGER_ERROR pde flags = Some (s', of_nat (n * 4096))" "identity_upto s' pde (Suc n)" by blast
  have "unat (of_nat (n * 4096) :: u32) = n * 4096" by (rule unat_of_nat_u32) (use Suc(4) in simp)
  then have "(of_nat (n * 4096) :: u32) < 0x3FF000" using Suc(2) unfolding word_less_nat_alt by simp
  moreover have "d = 1023 - Suc n" "Suc n < 1024" using Suc(2,4) by simp_all
  ultimately show ?case using Suc(1) [of "Suc n" s'] s' Suc(5) by (subst map_pages.simps) simp
qed

lemma aligned_offset:
  assumes "aligned a" "unat o' < 4096"
  shows "unat (a + o') div 4096 = unat a div 4096" "take_bit 12 (a + o') = o'"
proof -
  from assms(1) obtain k where k: "unat a = 4096 * k" by (auto simp: aligned_unat elim: dvdE)
  have u: "unat (a + o') = 4096 * k + unat o'" using aligned_room [OF assms(1)] assms(2) k by (simp add: unat_plus_nowrap)
  then show "unat (a + o') div 4096 = unat a div 4096" using assms(2) k by simp
  have "unat (take_bit 12 (a + o')) = take_bit 12 (unat (a + o'))" by (rule unsigned_take_bit_eq)
  also have "\<dots> = unat o'" unfolding u using assms(2) by (simp add: take_bit_eq_mod)
  finally show "take_bit 12 (a + o') = o'" by (simp add: word_unat_eq_iff)
qed

text \<open>The machine after \<open>init_pager\<close> and \<open>create_new_table\<close>: one empty directory, all memory free.\<close>

definition pager_demo :: pager_state where
  "pager_demo = io_state.extend io_demo (pager_state.fields 0x301000 0x211010
     (\<lambda>_. \<lparr>fm_start = 0, fm_end = 0xFFFFFFFF, fm_next = NULL, fm_prev = NULL\<rparr>) 0)"

lemma pager_demo_facts:
  "page_tables_end pager_demo = 0x301000" "first_pager_block pager_demo = 0x211010"
  "pager_blocks pager_demo p = \<lparr>fm_start = 0, fm_end = 0xFFFFFFFF, fm_next = NULL, fm_prev = NULL\<rparr>"
  "entry_at (mem pager_demo) t i = 0" "aligned 0x300000" "fresh_table (mem pager_demo) 0x300000 0x301000"
proof -
  show e: "entry_at (mem pager_demo) t i = 0" for t i
    by (simp add: pager_demo_def io_demo_def tty_demo_def kbd_demo_def kbd_state.defs tty_state.defs
        io_state.defs pager_state.defs entry_at_def load32_def)
  show "aligned 0x300000" by (simp add: aligned_def)
  show "fresh_table (mem pager_demo) 0x300000 0x301000" by (simp add: fresh_table_def aligned_def e)
qed (simp_all add: pager_demo_def io_state.defs pager_state.defs)

section \<open>Properties\<close>

text \<open>C4: Asking for any free page maps the first free physical page: the virtual page returned was not
  mapped and now translates, byte for byte, to that page; no other virtual address translates
  differently; and the physical page is taken from the free list. (The tables of the directory are
  distinct, a page remains in the first free block, and the next table to be carved out is fresh.)\<close>

theorem new_page_maps:
  assumes "tables_ok (mem s) pde" and "unmapped_first (mem s) pde k"
    and "aligned (fm_start (pager_blocks s (first_pager_block s)))"
    and "fm_start (pager_blocks s (first_pager_block s)) + 0xFFF \<noteq> fm_end (pager_blocks s (first_pager_block s))"
    and "unat flags < 2 ^ 12"
    and "\<not> present (entry_at (mem s) pde (of_nat (k div 1024))) \<Longrightarrow> fresh_table (mem s) pde (page_tables_end s)"
  shows "\<exists>s' va. new_page s PAGER_ERROR pde flags = Some (s', va) \<and>
    (\<forall>off. unat off < 4096 \<longrightarrow> virt_to_phys (mem s) (va + off) pde = PAGER_ERROR \<and>
       virt_to_phys (mem s') (va + off) pde = fm_start (pager_blocks s (first_pager_block s)) + off) \<and>
    (\<forall>a. unat a div 4096 \<noteq> unat va div 4096 \<longrightarrow> virt_to_phys (mem s') a pde = virt_to_phys (mem s) a pde) \<and>
    fm_start (pager_blocks s' (first_pager_block s')) = fm_start (pager_blocks s (first_pager_block s)) + 0x1000 \<and>
    tables_ok (mem s') pde"
proof -
  let ?fb = "pager_blocks s (first_pager_block s)"
  from new_page_spec [OF assms] obtain m' q e where
    np: "new_page s PAGER_ERROR pde flags =
      Some (s\<lparr>mem := m', page_tables_end := e,
              pager_blocks := (pager_blocks s)(first_pager_block s := ?fb\<lparr>fm_start := fm_start ?fb + 0x1000\<rparr>)\<rparr>,
            of_nat (k * 4096))" (is "_ = Some (?s', ?va)")
    and ok': "tables_ok m' pde" and q: "entry_address q = fm_start ?fb"
    and li: "\<forall>x<1024 * 1024. lookup_index m' pde x = (if x = k then Some q else lookup_index (mem s) pde x)"
    by blast
  have k: "k < 1024 * 1024" "lookup_index (mem s) pde k = None" using assms(2) by (simp_all add: unmapped_first_def)
  note iv = index_va(2,3) [OF k(1)]
  have off: "unat (?va + off) div 4096 = k" "take_bit 12 (?va + off) = off" if "unat off < 4096" for off
    using aligned_offset [OF iv(2) that] iv(1) by simp_all
  have page: "unat a div 4096 < 1024 * 1024" for a :: u32 using unat_u32_less [of a] by simp
  have a: "virt_to_phys (mem s) (?va + off) pde = PAGER_ERROR \<and> virt_to_phys m' (?va + off) pde = fm_start ?fb + off"
    if "unat off < 4096" for off
    unfolding virt_to_phys_index off [OF that] using li k q by simp
  have b: "virt_to_phys m' x pde = virt_to_phys (mem s) x pde" if "unat x div 4096 \<noteq> unat ?va div 4096" for x
    unfolding virt_to_phys_index using li page [of x] that iv(1) by simp
  show ?thesis
    using np a b ok' by (intro exI [of _ ?s'] exI [of _ ?va]) simp
qed

text \<open>C34: The boot loop of \<open>main\<close> maps the first 4 MiB one to one: from a page directory with no entry and
  all of physical memory free it returns, every virtual address below 0x400000 translates to itself
  and every other one is unmapped.\<close>

theorem boot_identity_map:
  assumes "aligned pde" and "\<forall>i<1024. \<not> present (entry_at (mem s) pde i)"
    and "fresh_table (mem s) pde (page_tables_end s)" and "unat flags < 2 ^ 12"
    and "fm_start (pager_blocks s (first_pager_block s)) = 0"
    and "fm_end (pager_blocks s (first_pager_block s)) = 0xFFFFFFFF"
  shows "\<exists>s'. map_pages s pde flags (0x400000 - PAGE_SIZE) = Some s' \<and>
    (\<forall>va. virt_to_phys (mem s') va pde = (if va < 0x400000 then va else PAGER_ERROR))"
proof -
  have "lookup_index (mem s) pde x = None" if "x < 1024 * 1024" for x
    using assms(2) index_words(3) [OF that] by (simp add: lookup_index_def lookup_def Let_def)
  then have "identity_upto s pde 0"
    using assms by (simp add: identity_upto_def tables_ok_def)
  from map_pages_identity [OF this _ assms(4)] assms(3) obtain s' where
    s': "map_pages s pde flags 0x3FF000 = Some s'" and id: "identity_upto s' pde 1024" by auto
  have "virt_to_phys (mem s') va pde = (if va < 0x400000 then va else PAGER_ERROR)" for va
  proof -
    let ?x = "unat va div 4096"
    have "?x < 1024 * 1024" using unat_u32_less [of va] by simp
    with id have c: "case lookup_index (mem s') pde ?x of None \<Rightarrow> 1024 \<le> ?x
       | Some q \<Rightarrow> ?x < 1024 \<and> entry_address q = of_nat (?x * 4096)" by (simp only: identity_upto_def)
    have lt: "va < 0x400000 \<longleftrightarrow> ?x < 1024" by (auto simp: word_less_nat_alt)
    have "unat (of_nat (?x * 4096) + take_bit 12 va) = unat va"
    proof -
      have "unat (take_bit 12 va) = take_bit 12 (unat va)" by (rule unsigned_take_bit_eq)
      then have t: "unat (take_bit 12 va) = unat va mod 4096" by (simp add: take_bit_eq_mod)
      have "?x * 4096 < 2 ^ 32" using unat_u32_less [of va] by simp
      then have u: "unat (of_nat (?x * 4096) :: u32) = ?x * 4096" by (rule unat_of_nat_u32)
      show ?thesis using unat_u32_less [of va] by (subst unat_plus_nowrap) (simp_all only: t u, simp_all)
    qed
    then have "of_nat (?x * 4096) + take_bit 12 va = va" by (simp only: word_unat_eq_iff)
    then show ?thesis
      unfolding virt_to_phys_index using c lt by (auto split: option.splits)
  qed
  with s' show ?thesis by auto
qed

theorem boot_identity_map_witness:
  "\<exists>s'. map_pages pager_demo 0x300000 256 0x3FF000 = Some s' \<and> virt_to_phys (mem s') 0xB8000 0x300000 = 0xB8000 \<and>
     virt_to_phys (mem s') 0x400000 0x300000 = PAGER_ERROR"
proof -
  have "\<forall>i<1024. \<not> present (entry_at (mem pager_demo) 0x300000 i)" by (simp add: pager_demo_facts)
  from boot_identity_map [OF pager_demo_facts(5) this, of 256] obtain s' where
    "map_pages pager_demo 0x300000 256 0x3FF000 = Some s'"
    "\<forall>va. virt_to_phys (mem s') va 0x300000 = (if va < 0x400000 then va else PAGER_ERROR)"
    by (auto simp: pager_demo_facts)
  then show ?thesis by auto
qed

theorem new_page_maps_witness:
  "\<exists>s' va. new_page pager_demo PAGER_ERROR 0x300000 6 = Some (s', va) \<and>
     virt_to_phys (mem s') (va + 5) 0x300000 = 5"
proof -
  have none: "lookup_index (mem pager_demo) 0x300000 x = None" for x
    by (simp add: lookup_index_def lookup_def pager_demo_facts)
  have a: "tables_ok (mem pager_demo) 0x300000" "unmapped_first (mem pager_demo) 0x300000 0"
    using none by (simp_all add: tables_ok_def unmapped_first_def pager_demo_facts)
  from new_page_maps [OF a, of 6] show ?thesis
    by (force simp: pager_demo_facts aligned_def dest: spec [of _ 5])
qed

text \<open>\<open>new_page\<close> does not check that a requested physical page is free. With the first free block at
  0x5000, removing page 0x2000 (in use, like all pages below the block) makes the pages from 0x3000 on
  free, so the used pages 0x3000 and 0x4000 can be handed out again.\<close>

theorem pager_remove_frees_used_pages:
  assumes "fm_start (pager_blocks s b) = 0x5000" and "fm_end (pager_blocks s b) = 0xFFFFFFFF"
    and "malloc s 16 = Some (s1, new)" and "new \<noteq> NULL" and "new \<noteq> b"
  shows "\<exists>s'. pager_remove s b 0x2000 0x2FFF = Some s' \<and> fm_next (pager_blocks s' b) = new \<and>
    fm_start (pager_blocks s' new) = 0x3000 \<and> fm_end (pager_blocks s' new) = 0xFFFFFFFF"
  using assms by (simp add: pager_remove_def Let_def)

theorem pager_remove_frees_used_pages_witness:
  "\<exists>s s'. pager_remove s 0x211010 0x2000 0x2FFF = Some (s' :: pager_state) \<and>
     fm_start (pager_blocks s' (fm_next (pager_blocks s' 0x211010))) = 0x3000"
proof -
  let ?s = "(init_heap pager_demo 0x1000 0x400)\<lparr>pager_blocks :=
    (\<lambda>_. \<lparr>fm_start = 0x5000, fm_end = 0xFFFFFFFF, fm_next = NULL, fm_prev = NULL\<rparr>)\<rparr>"
  have "\<exists>s1. malloc ?s 16 = Some (s1, 0x1010)" by (simp add: heap_eval)
  then obtain s1 where "malloc ?s 16 = Some (s1, 0x1010)" by blast
  from pager_remove_frees_used_pages [OF _ _ this, of "0x211010"] show ?thesis by force
qed

end
