(* ===== verification/Hashmap.thy ===== *)
theory Hashmap
  imports Pager
begin

text \<open>
  \<open>kernel/hashmap/hashmap.h\<close>: the open-addressing hash table behind the virtual file system,
  in the configuration the kernel compiles (the table-driven CRC, no SSE 4.2). The element array
  is in byte memory, so the array \<open>calloc\<close> returns starts with whatever that memory held.
  Keys are pointers; the comparer reads them through memory. \<open>hasher\<close> and \<open>comparer\<close> are
  always the two default functions in this repository.
\<close>

section \<open>Data\<close>

record hashmap_element =
  he_key :: ptr
  he_key_len :: u32
  he_in_use :: u32
  he_data :: ptr

record hashmap_s =
  log2_capacity :: u32
  hm_size :: u32
  hm_data :: ptr

abbreviation (input) "HASHMAP_LINEAR_PROBE_LENGTH \<equiv> 8 :: nat"
abbreviation (input) "sizeof_hashmap_element \<equiv> 16 :: u32"

definition element :: "bmem \<Rightarrow> hashmap_s \<Rightarrow> u32 \<Rightarrow> hashmap_element" where
  "element m h i =
     (let p = hm_data h + 16 * i
      in \<lparr>he_key = load32 m p, he_key_len = load32 m (p + 4), he_in_use = load32 m (p + 8), he_data = load32 m (p + 12)\<rparr>)"

definition set_element :: "bmem \<Rightarrow> hashmap_s \<Rightarrow> u32 \<Rightarrow> hashmap_element \<Rightarrow> bmem" where
  "set_element m h i e =
     (let p = hm_data h + 16 * i
      in store32 (store32 (store32 (store32 m p (he_key e)) (p + 4) (he_key_len e)) (p + 8) (he_in_use e))
           (p + 12) (he_data e))"

section \<open>Hashing\<close>

definition crc32_tab :: "u32 list" where
  "crc32_tab = [
     0x00000000, 0xF26B8303, 0xE13B70F7, 0x1350F3F4, 0xC79A971F, 0x35F1141C, 0x26A1E7E8, 0xD4CA64EB,
     0x8AD958CF, 0x78B2DBCC, 0x6BE22838, 0x9989AB3B, 0x4D43CFD0, 0xBF284CD3, 0xAC78BF27, 0x5E133C24,
     0x105EC76F, 0xE235446C, 0xF165B798, 0x030E349B, 0xD7C45070, 0x25AFD373, 0x36FF2087, 0xC494A384,
     0x9A879FA0, 0x68EC1CA3, 0x7BBCEF57, 0x89D76C54, 0x5D1D08BF, 0xAF768BBC, 0xBC267848, 0x4E4DFB4B,
     0x20BD8EDE, 0xD2D60DDD, 0xC186FE29, 0x33ED7D2A, 0xE72719C1, 0x154C9AC2, 0x061C6936, 0xF477EA35,
     0xAA64D611, 0x580F5512, 0x4B5FA6E6, 0xB93425E5, 0x6DFE410E, 0x9F95C20D, 0x8CC531F9, 0x7EAEB2FA,
     0x30E349B1, 0xC288CAB2, 0xD1D83946, 0x23B3BA45, 0xF779DEAE, 0x05125DAD, 0x1642AE59, 0xE4292D5A,
     0xBA3A117E, 0x4851927D, 0x5B016189, 0xA96AE28A, 0x7DA08661, 0x8FCB0562, 0x9C9BF696, 0x6EF07595,
     0x417B1DBC, 0xB3109EBF, 0xA0406D4B, 0x522BEE48, 0x86E18AA3, 0x748A09A0, 0x67DAFA54, 0x95B17957,
     0xCBA24573, 0x39C9C670, 0x2A993584, 0xD8F2B687, 0x0C38D26C, 0xFE53516F, 0xED03A29B, 0x1F682198,
     0x5125DAD3, 0xA34E59D0, 0xB01EAA24, 0x42752927, 0x96BF4DCC, 0x64D4CECF, 0x77843D3B, 0x85EFBE38,
     0xDBFC821C, 0x2997011F, 0x3AC7F2EB, 0xC8AC71E8, 0x1C661503, 0xEE0D9600, 0xFD5D65F4, 0x0F36E6F7,
     0x61C69362, 0x93AD1061, 0x80FDE395, 0x72966096, 0xA65C047D, 0x5437877E, 0x4767748A, 0xB50CF789,
     0xEB1FCBAD, 0x197448AE, 0x0A24BB5A, 0xF84F3859, 0x2C855CB2, 0xDEEEDFB1, 0xCDBE2C45, 0x3FD5AF46,
     0x7198540D, 0x83F3D70E, 0x90A324FA, 0x62C8A7F9, 0xB602C312, 0x44694011, 0x5739B3E5, 0xA55230E6,
     0xFB410CC2, 0x092A8FC1, 0x1A7A7C35, 0xE811FF36, 0x3CDB9BDD, 0xCEB018DE, 0xDDE0EB2A, 0x2F8B6829,
     0x82F63B78, 0x709DB87B, 0x63CD4B8F, 0x91A6C88C, 0x456CAC67, 0xB7072F64, 0xA457DC90, 0x563C5F93,
     0x082F63B7, 0xFA44E0B4, 0xE9141340, 0x1B7F9043, 0xCFB5F4A8, 0x3DDE77AB, 0x2E8E845F, 0xDCE5075C,
     0x92A8FC17, 0x60C37F14, 0x73938CE0, 0x81F80FE3, 0x55326B08, 0xA759E80B, 0xB4091BFF, 0x466298FC,
     0x1871A4D8, 0xEA1A27DB, 0xF94AD42F, 0x0B21572C, 0xDFEB33C7, 0x2D80B0C4, 0x3ED04330, 0xCCBBC033,
     0xA24BB5A6, 0x502036A5, 0x4370C551, 0xB11B4652, 0x65D122B9, 0x97BAA1BA, 0x84EA524E, 0x7681D14D,
     0x2892ED69, 0xDAF96E6A, 0xC9A99D9E, 0x3BC21E9D, 0xEF087A76, 0x1D63F975, 0x0E330A81, 0xFC588982,
     0xB21572C9, 0x407EF1CA, 0x532E023E, 0xA145813D, 0x758FE5D6, 0x87E466D5, 0x94B49521, 0x66DF1622,
     0x38CC2A06, 0xCAA7A905, 0xD9F75AF1, 0x2B9CD9F2, 0xFF56BD19, 0x0D3D3E1A, 0x1E6DCDEE, 0xEC064EED,
     0xC38D26C4, 0x31E6A5C7, 0x22B65633, 0xD0DDD530, 0x0417B1DB, 0xF67C32D8, 0xE52CC12C, 0x1747422F,
     0x49547E0B, 0xBB3FFD08, 0xA86F0EFC, 0x5A048DFF, 0x8ECEE914, 0x7CA56A17, 0x6FF599E3, 0x9D9E1AE0,
     0xD3D3E1AB, 0x21B862A8, 0x32E8915C, 0xC083125F, 0x144976B4, 0xE622F5B7, 0xF5720643, 0x07198540,
     0x590AB964, 0xAB613A67, 0xB831C993, 0x4A5A4A90, 0x9E902E7B, 0x6CFBAD78, 0x7FAB5E8C, 0x8DC0DD8F,
     0xE330A81A, 0x115B2B19, 0x020BD8ED, 0xF0605BEE, 0x24AA3F05, 0xD6C1BC06, 0xC5914FF2, 0x37FACCF1,
     0x69E9F0D5, 0x9B8273D6, 0x88D28022, 0x7AB90321, 0xAE7367CA, 0x5C18E4C9, 0x4F48173D, 0xBD23943E,
     0xF36E6F75, 0x0105EC76, 0x12551F82, 0xE03E9C81, 0x34F4F86A, 0xC69F7B69, 0xD5CF889D, 0x27A40B9E,
     0x79B737BA, 0x8BDCB4B9, 0x988C474D, 0x6AE7C44E, 0xBE2DA0A5, 0x4C4623A6, 0x5F16D052, 0xAD7D5351]"

fun crc32_loop :: "bmem \<Rightarrow> ptr \<Rightarrow> nat \<Rightarrow> u32 \<Rightarrow> u32" where
  "crc32_loop m s 0 crc32val = crc32val"
| "crc32_loop m s (Suc n) crc32val =
     crc32_loop m (s + 1) n ((crc32_tab ! unat (ucast crc32val XOR m s)) XOR drop_bit 8 crc32val)"

definition hashmap_crc32_hasher :: "bmem \<Rightarrow> u32 \<Rightarrow> ptr \<Rightarrow> u32 \<Rightarrow> u32" where
  "hashmap_crc32_hasher m seed k len =
     (let c0 = crc32_loop m k (unat len) seed;
          c1 = c0 XOR len;
          c2 = c1 XOR drop_bit 16 c1;
          c3 = c2 * 0x85ebca6b;
          c4 = c3 XOR drop_bit 13 c3;
          c5 = c4 * 0xc2b2ae35
      in c5 XOR drop_bit 16 c5)"

definition hashmap_memcmp_comparer :: "bmem \<Rightarrow> ptr \<Rightarrow> u32 \<Rightarrow> ptr \<Rightarrow> u32 \<Rightarrow> bool" where
  "hashmap_memcmp_comparer m a a_len b b_len \<longleftrightarrow> a_len = b_len \<and> memcmp m a b a_len = 0"

definition hashmap_hash_helper_int_helper :: "bmem \<Rightarrow> hashmap_s \<Rightarrow> ptr \<Rightarrow> u32 \<Rightarrow> u32" where
  "hashmap_hash_helper_int_helper m h k l =
     drop_bit (unat (32 - log2_capacity h)) (hashmap_crc32_hasher m (NOT 0) k l * 2654435769)"

definition hashmap_capacity :: "hashmap_s \<Rightarrow> u32" where
  "hashmap_capacity h = push_bit (unat (log2_capacity h)) 1"

definition hashmap_num_entries :: "hashmap_s \<Rightarrow> u32" where
  "hashmap_num_entries h = hm_size h"

definition hashmap_clz :: "u32 \<Rightarrow> u32" where
  "hashmap_clz x = of_nat (length (takeWhile (\<lambda>i. \<not> bit x i) (rev [0..<32])))"

section \<open>Create and destroy\<close>

definition hashmap_create_ex :: "'a heap_state_scheme \<Rightarrow> u32 \<Rightarrow> ('a heap_state_scheme \<times> hashmap_s) option" where
  "hashmap_create_ex s initial_capacity = do {
     let cap = (if initial_capacity < 2 then 2
                else if initial_capacity AND (initial_capacity - 1) \<noteq> 0
                then push_bit (unat (32 - hashmap_clz initial_capacity)) 1
                else initial_capacity);
     (s1, d) \<leftarrow> calloc s (cap + of_nat HASHMAP_LINEAR_PROBE_LENGTH) sizeof_hashmap_element;
     Some (s1, \<lparr>log2_capacity = 31 - hashmap_clz cap, hm_size = 0, hm_data = d\<rparr>) }"

definition hashmap_create :: "'a heap_state_scheme \<Rightarrow> u32 \<Rightarrow> ('a heap_state_scheme \<times> hashmap_s) option" where
  "hashmap_create s initial_capacity = hashmap_create_ex s initial_capacity"

definition hashmap_destroy :: "'a heap_state_scheme \<Rightarrow> hashmap_s \<Rightarrow> ('a heap_state_scheme \<times> hashmap_s) option" where
  "hashmap_destroy s h = do {
     s1 \<leftarrow> free s (hm_data h);
     Some (s1, \<lparr>log2_capacity = 0, hm_size = 0, hm_data = 0\<rparr>) }"

section \<open>Probing\<close>

text \<open>The loop of \<open>hashmap_hash_helper\<close>: the index to use, or None.\<close>

fun hash_helper_loop :: "bmem \<Rightarrow> hashmap_s \<Rightarrow> ptr \<Rightarrow> u32 \<Rightarrow> nat \<Rightarrow> u32 \<Rightarrow> u32 \<Rightarrow> u32 option" where
  "hash_helper_loop m h key len 0 index first_free = (if first_free = NOT 0 then None else Some first_free)"
| "hash_helper_loop m h key len (Suc n) index first_free =
     (let e = element m h index in
      if he_in_use e = 0 then
        hash_helper_loop m h key len n (index + 1) (if first_free < index then first_free else index)
      else if hashmap_memcmp_comparer m (he_key e) (he_key_len e) key len then Some index
      else hash_helper_loop m h key len n (index + 1) first_free)"

definition hashmap_hash_helper :: "bmem \<Rightarrow> hashmap_s \<Rightarrow> ptr \<Rightarrow> u32 \<Rightarrow> u32 option" where
  "hashmap_hash_helper m h key len =
     (if hashmap_num_entries h = hashmap_capacity h then None
      else hash_helper_loop m h key len HASHMAP_LINEAR_PROBE_LENGTH (hashmap_hash_helper_int_helper m h key len) (NOT 0))"

text \<open>The probe loop of \<open>hashmap_get\<close> and the two removals: the index of the key.\<close>

fun probe :: "bmem \<Rightarrow> hashmap_s \<Rightarrow> ptr \<Rightarrow> u32 \<Rightarrow> nat \<Rightarrow> u32 \<Rightarrow> u32 option" where
  "probe m h key len 0 index = None"
| "probe m h key len (Suc n) index =
     (let e = element m h index in
      if he_in_use e \<noteq> 0 \<and> hashmap_memcmp_comparer m (he_key e) (he_key_len e) key len then Some index
      else probe m h key len n (index + 1))"

definition hashmap_get :: "bmem \<Rightarrow> hashmap_s \<Rightarrow> ptr \<Rightarrow> u32 \<Rightarrow> ptr" where
  "hashmap_get m h key len =
     (if key = NULL \<or> len = 0 then NULL
      else case probe m h key len HASHMAP_LINEAR_PROBE_LENGTH (hashmap_hash_helper_int_helper m h key len) of
             Some index \<Rightarrow> he_data (element m h index)
           | None \<Rightarrow> NULL)"

definition no_element :: hashmap_element where
  "no_element = \<lparr>he_key = 0, he_key_len = 0, he_in_use = 0, he_data = 0\<rparr>"

definition hashmap_remove :: "bmem \<Rightarrow> hashmap_s \<Rightarrow> ptr \<Rightarrow> u32 \<Rightarrow> bmem \<times> hashmap_s \<times> u32" where
  "hashmap_remove m h key len =
     (if key = NULL \<or> len = 0 then (m, h, 1)
      else case probe m h key len HASHMAP_LINEAR_PROBE_LENGTH (hashmap_hash_helper_int_helper m h key len) of
             Some index \<Rightarrow> (set_element m h index no_element, h\<lparr>hm_size := hm_size h - 1\<rparr>, 0)
           | None \<Rightarrow> (m, h, 1))"

definition hashmap_remove_and_return_key :: "bmem \<Rightarrow> hashmap_s \<Rightarrow> ptr \<Rightarrow> u32 \<Rightarrow> bmem \<times> hashmap_s \<times> ptr" where
  "hashmap_remove_and_return_key m h key len =
     (if key = NULL \<or> len = 0 then (m, h, NULL)
      else case probe m h key len HASHMAP_LINEAR_PROBE_LENGTH (hashmap_hash_helper_int_helper m h key len) of
             Some index \<Rightarrow> (set_element m h index no_element, h\<lparr>hm_size := hm_size h - 1\<rparr>, he_key (element m h index))
           | None \<Rightarrow> (m, h, NULL))"

section \<open>Iteration\<close>

text \<open>\<open>hashmap_iterate\<close> hands the data pointers to \<open>f\<close> and stops when it returns 0.\<close>

fun iterate_loop :: "bmem \<Rightarrow> hashmap_s \<Rightarrow> ('s \<Rightarrow> ptr \<Rightarrow> 's \<times> u32) \<Rightarrow> 's \<Rightarrow> nat \<Rightarrow> u32 \<Rightarrow> 's \<times> u32" where
  "iterate_loop m h f c 0 i = (c, 0)"
| "iterate_loop m h f c (Suc n) i =
     (let e = element m h i in
      if he_in_use e \<noteq> 0 then
        (let (c', r) = f c (he_data e) in if r = 0 then (c', 1) else iterate_loop m h f c' n (i + 1))
      else iterate_loop m h f c n (i + 1))"

definition hashmap_iterate :: "bmem \<Rightarrow> hashmap_s \<Rightarrow> ('s \<Rightarrow> ptr \<Rightarrow> 's \<times> u32) \<Rightarrow> 's \<Rightarrow> 's \<times> u32" where
  "hashmap_iterate m h f c =
     iterate_loop m h f c (unat (hashmap_capacity h + of_nat HASHMAP_LINEAR_PROBE_LENGTH)) 0"

text \<open>\<open>hashmap_iterate_pairs\<close>: the callback works on the whole state \<open>(kernel state, context)\<close>; it
  returns -1 (remove), 0 (go on) or anything else (stop).\<close>

fun iterate_pairs_loop ::
  "('a heap_state_scheme \<Rightarrow> 'c \<Rightarrow> hashmap_element \<Rightarrow> ('a heap_state_scheme \<times> 'c \<times> int) option) \<Rightarrow>
   'a heap_state_scheme \<Rightarrow> hashmap_s \<Rightarrow> 'c \<Rightarrow> nat \<Rightarrow> u32 \<Rightarrow> ('a heap_state_scheme \<times> hashmap_s \<times> 'c \<times> u32) option" where
  "iterate_pairs_loop f s h c 0 i = Some (s, h, c, 0)"
| "iterate_pairs_loop f s h c (Suc n) i =
     (let e = element (mem s) h i in
      if he_in_use e \<noteq> 0 then do {
        (s1, c1, r) \<leftarrow> f s c e;
        if r = -1 then
          iterate_pairs_loop f (s1\<lparr>mem := set_element (mem s1) h i no_element\<rparr>) (h\<lparr>hm_size := hm_size h - 1\<rparr>) c1 n (i + 1)
        else if r = 0 then iterate_pairs_loop f s1 h c1 n (i + 1)
        else Some (s1, h, c1, 1)
      } else iterate_pairs_loop f s h c n (i + 1))"

definition hashmap_iterate_pairs ::
  "('a heap_state_scheme \<Rightarrow> 'c \<Rightarrow> hashmap_element \<Rightarrow> ('a heap_state_scheme \<times> 'c \<times> int) option) \<Rightarrow>
   'a heap_state_scheme \<Rightarrow> hashmap_s \<Rightarrow> 'c \<Rightarrow> ('a heap_state_scheme \<times> hashmap_s \<times> 'c \<times> u32) option" where
  "hashmap_iterate_pairs f s h c =
     iterate_pairs_loop f s h c (unat (hashmap_capacity h + of_nat HASHMAP_LINEAR_PROBE_LENGTH)) 0"

section \<open>Insertion\<close>

text \<open>Storing at the index found.\<close>

definition put_at :: "'a heap_state_scheme \<Rightarrow> hashmap_s \<Rightarrow> u32 \<Rightarrow> ptr \<Rightarrow> u32 \<Rightarrow> ptr \<Rightarrow> 'a heap_state_scheme \<times> hashmap_s" where
  "put_at s h index key len value =
     (let e = element (mem s) h index;
          used = he_in_use e
      in (s\<lparr>mem := set_element (mem s) h index
              \<lparr>he_key = key, he_key_len = len, he_in_use = (if used = 0 then 1 else used), he_data = value\<rparr>\<rparr>,
          if used = 0 then h\<lparr>hm_size := hm_size h + 1\<rparr> else h))"

text \<open>\<open>hashmap_put\<close> with the rehash it may need. Every rehash doubles the capacity, also of the new
  table that is filled during a rehash, so no chain of rehashes is longer than 32; the fuel counts
  them.\<close>

fun hashmap_put_fuel ::
  "nat \<Rightarrow> 'a heap_state_scheme \<Rightarrow> hashmap_s \<Rightarrow> ptr \<Rightarrow> u32 \<Rightarrow> ptr \<Rightarrow> ('a heap_state_scheme \<times> hashmap_s \<times> u32) option" where
  "hashmap_put_fuel 0 s h key len value = None"
| "hashmap_put_fuel (Suc fuel) s h key len value =
     (if key = NULL \<or> len = 0 then Some (s, h, 1)
      else case hashmap_hash_helper (mem s) h key len of
        Some index \<Rightarrow> (case put_at s h index key len value of (s1, h1) \<Rightarrow> Some (s1, h1, 0))
      | None \<Rightarrow>
          if hashmap_capacity h * 2 = 0 then Some (s, h, 1)
          else do {
            (s1, new_m) \<leftarrow> hashmap_create_ex s (hashmap_capacity h * 2);
            (s2, h2, new_m2, flag) \<leftarrow> hashmap_iterate_pairs
              (\<lambda>s new_m e. do {
                 (s', new_m', temp) \<leftarrow> hashmap_put_fuel fuel s new_m (he_key e) (he_key_len e) (he_data e);
                 Some (s', new_m', if 0 < temp then 1 else -1) }) s1 h new_m;
            if flag \<noteq> 0 then Some (s2, h2, 1)
            else do {
              (s3, _) \<leftarrow> hashmap_destroy s2 h2;
              hashmap_put_fuel fuel s3 new_m2 key len value } })"

definition hashmap_put ::
  "'a heap_state_scheme \<Rightarrow> hashmap_s \<Rightarrow> ptr \<Rightarrow> u32 \<Rightarrow> ptr \<Rightarrow> ('a heap_state_scheme \<times> hashmap_s \<times> u32) option" where
  "hashmap_put s h key len value = hashmap_put_fuel 40 s h key len value"

section \<open>Keys by content\<close>

definition content :: "bmem \<Rightarrow> ptr \<Rightarrow> u32 \<Rightarrow> u8 list" where
  "content m key len = bytes_at m key (unat len)"

lemma memcmp_loop_0:
  "memcmp_loop m a b n i 0 = 0 \<longleftrightarrow> (\<forall>j. unat i \<le> j \<and> j < unat n \<longrightarrow> m (a + of_nat j) = m (b + of_nat j))"
proof (induction "unat n - unat i" arbitrary: i)
  case 0
  then have "\<not> i < n" by (simp add: word_less_nat_alt)
  then show ?case using 0 by (subst memcmp_loop.simps) auto
next
  case (Suc d)
  then have lt: "i < n" by (simp add: word_less_nat_alt)
  note ui = unat_inc_u32 [OF lt]
  have IH: "memcmp_loop m a b n (i + 1) 0 = 0 \<longleftrightarrow>
      (\<forall>j. unat i + 1 \<le> j \<and> j < unat n \<longrightarrow> m (a + of_nat j) = m (b + of_nat j))"
    using Suc.hyps(1) [of "i + 1"] Suc.hyps(2) by (simp add: ui)
  have split: "(\<forall>j. unat i \<le> j \<and> j < unat n \<longrightarrow> P j) \<longleftrightarrow> P (unat i) \<and> (\<forall>j. unat i + 1 \<le> j \<and> j < unat n \<longrightarrow> P j)" for P
    using lt by (auto simp: word_less_nat_alt Suc_le_eq) (metis le_neq_implies_less)
  show ?case
    unfolding split [of "\<lambda>j. m (a + of_nat j) = m (b + of_nat j)"]
    using lt IH byte_diff_0 by (subst memcmp_loop.simps) (auto simp: Let_def byte_diff_def)
qed

lemma memcmp_0: "memcmp m a b n = 0 \<longleftrightarrow> bytes_at m a (unat n) = bytes_at m b (unat n)"
  by (auto simp: memcmp_def memcmp_loop_0 list_eq_iff_nth_eq)

lemma comparer_content: "hashmap_memcmp_comparer m a la b lb \<longleftrightarrow> content m a la = content m b lb"
  unfolding hashmap_memcmp_comparer_def memcmp_0 content_def
  by (metis length_bytes_at word_unat_eq_iff)

lemma crc32_loop_cong: "bytes_at m p n = bytes_at m' q n \<Longrightarrow> crc32_loop m p n c = crc32_loop m' q n c"
  by (induction n arbitrary: p q c) (auto simp: bytes_at_Suc)

lemma hash_content:
  assumes "content m k l = content m' k' l'"
  shows "hashmap_hash_helper_int_helper m h k l = hashmap_hash_helper_int_helper m' h k' l'"
proof -
  have "l = l'" using assms by (metis content_def length_bytes_at word_unat_eq_iff)
  with assms show ?thesis
    using crc32_loop_cong [of m k "unat l" m' k']
    by (simp add: content_def hashmap_hash_helper_int_helper_def hashmap_crc32_hasher_def)
qed

definition matches :: "bmem \<Rightarrow> hashmap_s \<Rightarrow> u8 list \<Rightarrow> u32 \<Rightarrow> bool" where
  "matches m h c i \<longleftrightarrow> he_in_use (element m h i) \<noteq> 0 \<and>
     content m (he_key (element m h i)) (he_key_len (element m h i)) = c"

definition window :: "bmem \<Rightarrow> hashmap_s \<Rightarrow> ptr \<Rightarrow> u32 \<Rightarrow> u32 list" where
  "window m h k l = map (\<lambda>j. hashmap_hash_helper_int_helper m h k l + of_nat j) [0..<8]"

lemma probe_find:
  "probe m h key len n index = find (matches m h (content m key len)) (map (\<lambda>j. index + of_nat j) [0..<n])"
proof (induction n arbitrary: index)
  case (Suc n)
  have "map (\<lambda>j. index + of_nat j) [0..<Suc n] = index # map (\<lambda>j. index + 1 + of_nat j) [0..<n]"
    by (simp add: upt_conv_Cons map_Suc_upt [symmetric] add.assoc comp_def del: upt_Suc)
  then show ?case using Suc.IH by (simp add: Let_def matches_def comparer_content del: upt_Suc)
qed simp

lemma get_find:
  "key \<noteq> NULL \<Longrightarrow> len \<noteq> 0 \<Longrightarrow> hashmap_get m h key len =
     (case find (matches m h (content m key len)) (window m h key len) of
        Some i \<Rightarrow> he_data (element m h i) | None \<Rightarrow> NULL)"
  by (simp add: hashmap_get_def probe_find window_def)

text \<open>The index for a new entry: the first match, or a free slot of a window without a match.\<close>

lemma hash_helper_loop_spec:
  "hash_helper_loop m h key len n index ff = Some r \<Longrightarrow>
     find (matches m h (content m key len)) (map (\<lambda>j. index + of_nat j) [0..<n]) = Some r \<or>
     find (matches m h (content m key len)) (map (\<lambda>j. index + of_nat j) [0..<n]) = None \<and>
       (r = ff \<and> ff \<noteq> NOT 0 \<or>
        r \<in> set (map (\<lambda>j. index + of_nat j) [0..<n]) \<and> he_in_use (element m h r) = 0)"
proof (induction n arbitrary: index ff)
  case 0
  then show ?case by (simp split: if_splits)
next
  case (Suc n)
  have m: "map (\<lambda>j. index + of_nat j) [0..<Suc n] = index # map (\<lambda>j. index + 1 + of_nat j) [0..<n]"
    by (simp add: upt_conv_Cons map_Suc_upt [symmetric] add.assoc comp_def del: upt_Suc)
  show ?case
  proof (cases "he_in_use (element m h index) = 0")
    case True
    let ?ff = "if ff < index then ff else index"
    from Suc.prems True have "hash_helper_loop m h key len n (index + 1) ?ff = Some r" by (simp add: Let_def)
    from Suc.IH [OF this] show ?thesis
      unfolding m using True by (auto simp: matches_def split: if_splits)
  next
    case False
    with Suc.prems Suc.IH [of "index + 1" ff] show ?thesis
      unfolding m by (auto simp: Let_def matches_def comparer_content split: if_splits)
  qed
qed

lemma hash_helper_spec:
  assumes "hashmap_hash_helper m h key len = Some r"
  shows "find (matches m h (content m key len)) (window m h key len) = Some r \<or>
    find (matches m h (content m key len)) (window m h key len) = None \<and>
      r \<in> set (window m h key len) \<and> he_in_use (element m h r) = 0"
  using assms hash_helper_loop_spec [of m h key len 8 "hashmap_hash_helper_int_helper m h key len" "NOT 0" r]
  by (auto simp: hashmap_hash_helper_def window_def split: if_splits)

section \<open>Where the table lies\<close>

definition slots :: "hashmap_s \<Rightarrow> nat" where
  "slots h = 2 ^ unat (log2_capacity h) + 8"

definition off_table :: "hashmap_s \<Rightarrow> ptr \<Rightarrow> u32 \<Rightarrow> bool" where
  "off_table h key len \<longleftrightarrow> key \<noteq> NULL \<and> len \<noteq> 0 \<and> unat key + unat len \<le> 2 ^ 32 \<and>
     apart key (unat len) (hm_data h) (16 * slots h)"

text \<open>The invariant: the table fits the address space and no stored key lies in it.\<close>

definition table_ok :: "bmem \<Rightarrow> hashmap_s \<Rightarrow> bool" where
  "table_ok m h \<longleftrightarrow> 1 \<le> unat (log2_capacity h) \<and> unat (log2_capacity h) < 28 \<and>
     unat (hm_data h) + 16 * slots h \<le> 2 ^ 32 \<and>
     (\<forall>i. unat i < slots h \<longrightarrow> he_in_use (element m h i) \<noteq> 0 \<longrightarrow>
        off_table h (he_key (element m h i)) (he_key_len (element m h i)))"

lemma slot_address:
  "unat (hm_data h) + 16 * slots h \<le> 2 ^ 32 \<Longrightarrow> unat i < slots h \<Longrightarrow>
     unat (hm_data h + 16 * i) = unat (hm_data h) + 16 * unat i"
  by (simp add: unat_plus_nowrap unat_times_nowrap)

lemma slot_field:
  "unat (hm_data h) + 16 * slots h \<le> 2 ^ 32 \<Longrightarrow> unat i < slots h \<Longrightarrow> unat k \<le> 12 \<Longrightarrow>
     unat (hm_data h + 16 * i + k) = unat (hm_data h) + 16 * unat i + unat k"
  by (simp add: unat_plus_nowrap slot_address)

lemma set_element_outside:
  assumes h: "unat (hm_data h) + 16 * slots h \<le> 2 ^ 32" "unat i < slots h"
    and a: "\<not> in_region a (hm_data h + 16 * i) 16"
  shows "set_element m h i e a = m a"
proof -
  note f = slot_field [OF h, of 4] slot_field [OF h, of 8] slot_field [OF h, of 12] slot_address [OF h]
  have "store32 x (hm_data h + 16 * i + k) v a = x a" if "k \<in> {0, 4, 8, 12}" for x k v
    by (rule store32_other) (use that f h a in \<open>auto simp: in_region_def\<close>)
  from this [of 0] this [of 4] this [of 8] this [of 12] show ?thesis
    by (simp add: set_element_def Let_def)
qed

lemma element_set_element:
  assumes h: "unat (hm_data h) + 16 * slots h \<le> 2 ^ 32" "unat i < slots h" "unat j < slots h"
  shows "element (set_element m h i e) h j = (if j = i then e else element m h j)"
proof (cases "j = i")
  case True
  note f = slot_field [OF h(1,2), of 4] slot_field [OF h(1,2), of 8] slot_field [OF h(1,2), of 12] slot_address [OF h(1,2)]
  let ?p = "hm_data h + 16 * i"
  have "load32 (store32 x (?p + k) v) (?p + l) = (if k = l then v else load32 x (?p + l))"
    if "k \<in> {0, 4, 8, 12}" "l \<in> {0, 4, 8, 12}" for x k l v
  proof (cases "k = l")
    case False
    then show ?thesis
      by (simp, intro load32_store32_apart) (use that f h in \<open>auto simp: apart_def\<close>)
  qed simp
  note this [of 0 0] this [of 4 0] this [of 8 0] this [of 12 0] this [of 4 4] this [of 8 4] this [of 12 4]
    this [of 8 8] this [of 12 8] this [of 12 12]
  then show ?thesis using True by (cases e) (simp add: element_def set_element_def Let_def)
next
  case False
  then have ne: "unat i \<noteq> unat j" by (simp add: word_unat_eq_iff)
  note f = slot_field [OF h(1,3), of 4] slot_field [OF h(1,3), of 8] slot_field [OF h(1,3), of 12] slot_address [OF h(1,3)]
    slot_address [OF h(1,2)]
  have "load32 (set_element m h i e) (hm_data h + 16 * j + k) = load32 m (hm_data h + 16 * j + k)"
    if "k \<in> {0, 4, 8, 12}" for k
  proof (rule load32_cong)
    show "unat (hm_data h + 16 * j + k) + 4 \<le> 2 ^ 32" using that f h by auto
    have ap: "apart (hm_data h + 16 * i) 16 (hm_data h + 16 * j + k) 4"
      using that f ne by (auto simp: apart_def)
    show "same_on (set_element m h i e) m (hm_data h + 16 * j + k) 4"
      unfolding same_on_def using set_element_outside [OF h(1,2)] apart_not_in [OF ap] by blast
  qed
  from this [of 0] this [of 4] this [of 8] this [of 12] False show ?thesis
    by (simp add: element_def Let_def)
qed

lemma in_slot: "unat (hm_data h) + 16 * slots h \<le> 2 ^ 32 \<Longrightarrow> unat i < slots h \<Longrightarrow>
    in_region a (hm_data h + 16 * i) 16 \<Longrightarrow> in_region a (hm_data h) (16 * slots h)"
  by (simp add: in_region_def slot_address)

text \<open>Storing an element leaves the content of every key outside the table.\<close>

lemma content_set_element:
  assumes h: "unat (hm_data h) + 16 * slots h \<le> 2 ^ 32" "unat i < slots h" and k: "off_table h key len"
  shows "content (set_element m h i e) key len = content m key len"
proof -
  have "set_element m h i e (key + of_nat j) = m (key + of_nat j)" if j: "j < unat len" for j
  proof (rule set_element_outside [OF h])
    have "in_region (key + of_nat j) key (unat len)"
      using j k by (intro in_region_offset) (auto simp: off_table_def)
    then have "\<not> in_region (key + of_nat j) (hm_data h) (16 * slots h)"
      using k apart_sym apart_not_in unfolding off_table_def by metis
    then show "\<not> in_region (key + of_nat j) (hm_data h + 16 * i) 16" using in_slot [OF h] by blast
  qed
  then show ?thesis by (simp add: content_def bytes_at_def)
qed

lemma window_slots:
  assumes "1 \<le> unat (log2_capacity h)" "unat (log2_capacity h) < 28"
  shows "distinct (window m h k l)" "i \<in> set (window m h k l) \<Longrightarrow> unat i < slots h"
proof -
  let ?c = "hashmap_hash_helper_int_helper m h k l"
  have d: "unat (32 - log2_capacity h) = 32 - unat (log2_capacity h)" using assms by (subst unat_minus_nowrap) auto
  have c: "unat ?c < 2 ^ unat (log2_capacity h)"
  proof -
    have "unat ?c = unat (hashmap_crc32_hasher m (NOT 0) k l * 2654435769) div 2 ^ (32 - unat (log2_capacity h))"
      unfolding hashmap_hash_helper_int_helper_def d unat_drop_bit_eq by (rule drop_bit_eq_div)
    also have "\<dots> < 2 ^ unat (log2_capacity h)"
    proof (rule less_mult_imp_div_less)
      have "(2::nat) ^ unat (log2_capacity h) * 2 ^ (32 - unat (log2_capacity h)) = 2 ^ 32"
        using assms by (simp add: power_add [symmetric])
      then show "unat (hashmap_crc32_hasher m (NOT 0) k l * 2654435769) <
          2 ^ unat (log2_capacity h) * 2 ^ (32 - unat (log2_capacity h))"
        using unat_u32_less by simp
    qed
    finally show ?thesis .
  qed
  have "(2::nat) ^ unat (log2_capacity h) \<le> 2 ^ 28" using assms(2) by (intro power_increasing) auto
  then have w: "unat (?c + of_nat j) = unat ?c + j" if "j < 8" for j
    using c that by (simp add: unat_plus_nowrap unat_of_nat_u32)
  show "distinct (window m h k l)"
    unfolding window_def distinct_map by (auto intro!: inj_onI simp: of_nat_eq_u32_iff)
  show "unat i < slots h" if "i \<in> set (window m h k l)"
    using that c w by (auto simp: window_def slots_def)
qed

section \<open>The dictionary\<close>

text \<open>\<open>put_at\<close> at the index the helper found updates one key of the dictionary.\<close>

lemma put_at_mem:
  assumes "put_at s h r key len v = (s', h')"
  obtains u where "u \<noteq> 0" "mem s' = set_element (mem s) h r \<lparr>he_key = key, he_key_len = len, he_in_use = u, he_data = v\<rparr>"
    "h' = h \<or> h' = h\<lparr>hm_size := hm_size h + 1\<rparr>"
proof (rule that)
  let ?u = "he_in_use (element (mem s) h r)"
  show "(if ?u = 0 then 1 else ?u) \<noteq> 0" by simp
  show "mem s' = set_element (mem s) h r
      \<lparr>he_key = key, he_key_len = len, he_in_use = if ?u = 0 then 1 else ?u, he_data = v\<rparr>"
    using assms by (auto simp: put_at_def Let_def)
  show "h' = h \<or> h' = h\<lparr>hm_size := hm_size h + 1\<rparr>" using assms by (auto simp: put_at_def Let_def)
qed

lemma size_irrelevant [simp]:
  "element m (h\<lparr>hm_size := n\<rparr>) i = element m h i" "slots (h\<lparr>hm_size := n\<rparr>) = slots h"
  "off_table (h\<lparr>hm_size := n\<rparr>) = off_table h" "window m (h\<lparr>hm_size := n\<rparr>) k l = window m h k l"
  "matches m (h\<lparr>hm_size := n\<rparr>) = matches m h" "hashmap_get m (h\<lparr>hm_size := n\<rparr>) k l = hashmap_get m h k l"
  "table_ok m (h\<lparr>hm_size := n\<rparr>) = table_ok m h"
proof -
  show e: "element m (h\<lparr>hm_size := n\<rparr>) i = element m h i" for i by (simp add: element_def)
  show s: "slots (h\<lparr>hm_size := n\<rparr>) = slots h" by (simp add: slots_def)
  show o': "off_table (h\<lparr>hm_size := n\<rparr>) = off_table h" by (intro ext) (simp add: off_table_def s)
  have hh: "hashmap_hash_helper_int_helper m (h\<lparr>hm_size := n\<rparr>) = hashmap_hash_helper_int_helper m h"
    by (intro ext) (simp add: hashmap_hash_helper_int_helper_def)
  show "window m (h\<lparr>hm_size := n\<rparr>) k l = window m h k l" by (simp add: window_def hh)
  show "matches m (h\<lparr>hm_size := n\<rparr>) = matches m h" by (intro ext) (simp add: matches_def e)
  have "probe m (h\<lparr>hm_size := n\<rparr>) key len j i = probe m h key len j i" for key len j i
    by (induction j arbitrary: i) (simp_all add: e Let_def)
  then show "hashmap_get m (h\<lparr>hm_size := n\<rparr>) k l = hashmap_get m h k l"
    by (simp add: hashmap_get_def hh e split: option.splits)
  show "table_ok m (h\<lparr>hm_size := n\<rparr>) = table_ok m h" by (simp add: table_ok_def e s o')
qed

lemma matches_put:
  assumes ok: "table_ok m h" and k: "off_table h key len" and r: "unat r < slots h" and u: "u \<noteq> 0" and i: "unat i < slots h"
  shows "matches (set_element m h r \<lparr>he_key = key, he_key_len = len, he_in_use = u, he_data = v\<rparr>) h c i \<longleftrightarrow>
    (if i = r then content m key len = c else matches m h c i)"
proof -
  let ?m = "set_element m h r \<lparr>he_key = key, he_key_len = len, he_in_use = u, he_data = v\<rparr>"
  from ok have h: "unat (hm_data h) + 16 * slots h \<le> 2 ^ 32" by (simp add: table_ok_def)
  have "content ?m (he_key (element m h i)) (he_key_len (element m h i)) =
      content m (he_key (element m h i)) (he_key_len (element m h i))"
    if "he_in_use (element m h i) \<noteq> 0"
    by (rule content_set_element [OF h r]) (use ok i that in \<open>simp add: table_ok_def\<close>)
  then show ?thesis
    using content_set_element [OF h r k] u by (auto simp: matches_def element_set_element [OF h r i])
qed

lemma find_ext: "(\<And>x. x \<in> set xs \<Longrightarrow> P x = Q x) \<Longrightarrow> find P xs = find Q xs"
  by (rule find_cong) auto

lemma find_first:
  "find P xs = Some r \<or> (find P xs = None \<and> r \<in> set xs) \<Longrightarrow> find (\<lambda>i. i = r \<or> P i) xs = Some r"
  by (induction xs) (auto split: if_splits)

lemma put_get:
  assumes ok: "table_ok (mem s) h" and k: "off_table h key len" and k': "off_table h key' len'"
    and hh: "hashmap_hash_helper (mem s) h key len = Some r" and put: "put_at s h r key len v = (s', h')"
  shows "hashmap_get (mem s') h' key' len' =
    (if content (mem s) key' len' = content (mem s) key len then v else hashmap_get (mem s) h key' len')"
proof -
  obtain u where u: "u \<noteq> 0" and m': "mem s' = set_element (mem s) h r \<lparr>he_key = key, he_key_len = len, he_in_use = u, he_data = v\<rparr>"
    and h': "h' = h \<or> h' = h\<lparr>hm_size := hm_size h + 1\<rparr>"
    by (rule put_at_mem [OF put])
  let ?m = "mem s" and ?m' = "mem s'"
  have h: "unat (hm_data h) + 16 * slots h \<le> 2 ^ 32" and lg: "1 \<le> unat (log2_capacity h)" "unat (log2_capacity h) < 28"
    using ok by (simp_all add: table_ok_def)
  note slot = window_slots(2) [OF lg]
  have r: "r \<in> set (window ?m h key len)" using hash_helper_spec [OF hh] by (auto simp: find_Some_iff)
  note rs = slot [OF r]
  have c: "content ?m' key' len' = content ?m key' len'" unfolding m' by (rule content_set_element [OF h rs k'])
  have w: "window ?m' h key' len' = window ?m h key' len'"
    unfolding window_def using hash_content [OF c] by simp
  have mt: "matches ?m' h (content ?m key' len') i \<longleftrightarrow>
      (if i = r then content ?m key len = content ?m key' len' else matches ?m h (content ?m key' len') i)"
    if "i \<in> set (window ?m h key' len')" for i
    unfolding m' by (rule matches_put [OF ok k rs u slot [OF that]])
  have el: "element ?m' h i = (if i = r then \<lparr>he_key = key, he_key_len = len, he_in_use = u, he_data = v\<rparr> else element ?m h i)"
    if "unat i < slots h" for i unfolding m' by (rule element_set_element [OF h rs that])
  have get: "hashmap_get ?m' h key' len' = (case find (matches ?m' h (content ?m key' len')) (window ?m h key' len') of
      Some i \<Rightarrow> he_data (element ?m' h i) | None \<Rightarrow> NULL)"
    using k' by (subst get_find) (simp_all add: off_table_def c w)
  have "hashmap_get ?m' h key' len' = (if content ?m key' len' = content ?m key len then v else hashmap_get ?m h key' len')"
  proof (cases "content ?m key' len' = content ?m key len")
    case True
    then have w': "window ?m h key' len' = window ?m h key len" unfolding window_def using hash_content by metis
    have "find (matches ?m' h (content ?m key' len')) (window ?m h key' len') =
        find (\<lambda>i. i = r \<or> matches ?m h (content ?m key len) i) (window ?m h key len)"
      unfolding w' by (rule find_ext) (use mt True w' in auto)
    also have "\<dots> = Some r" by (rule find_first) (use hash_helper_spec [OF hh] in blast)
    finally show ?thesis using True by (simp add: get el [OF rs])
  next
    case False
    have nm: "\<not> matches ?m h (content ?m key' len') r"
    proof
      assume a: "matches ?m h (content ?m key' len') r"
      from hash_helper_spec [OF hh] show False
      proof
        assume "find (matches ?m h (content ?m key len)) (window ?m h key len) = Some r"
        then have "matches ?m h (content ?m key len) r" by (auto simp: find_Some_iff)
        with a False show False by (auto simp: matches_def)
      qed (use a in \<open>auto simp: matches_def\<close>)
    qed
    have "find (matches ?m' h (content ?m key' len')) (window ?m h key' len') =
        find (matches ?m h (content ?m key' len')) (window ?m h key' len')"
      by (rule find_ext) (use mt nm False in auto)
    moreover have "he_data (element ?m' h i) = he_data (element ?m h i)"
      if "find (matches ?m h (content ?m key' len')) (window ?m h key' len') = Some i" for i
    proof -
      have "i \<in> set (window ?m h key' len')" "matches ?m h (content ?m key' len') i"
        using that by (auto simp: find_Some_iff)
      with nm have "i \<noteq> r" by auto
      with el [OF slot [OF \<open>i \<in> set (window ?m h key' len')\<close>]] show ?thesis by simp
    qed
    ultimately show ?thesis
      using False k' by (simp add: get get_find off_table_def split: option.splits)
  qed
  then show ?thesis using h' by auto
qed

lemma put_ok:
  assumes ok: "table_ok (mem s) h" and k: "off_table h key len"
    and hh: "hashmap_hash_helper (mem s) h key len = Some r" and put: "put_at s h r key len v = (s', h')"
  shows "table_ok (mem s') h' \<and> off_table h' = off_table h \<and>
    (\<forall>key' len'. off_table h key' len' \<longrightarrow> content (mem s') key' len' = content (mem s) key' len')"
proof -
  obtain u where u: "u \<noteq> 0" and m': "mem s' = set_element (mem s) h r \<lparr>he_key = key, he_key_len = len, he_in_use = u, he_data = v\<rparr>"
    and h': "h' = h \<or> h' = h\<lparr>hm_size := hm_size h + 1\<rparr>"
    by (rule put_at_mem [OF put])
  have h: "unat (hm_data h) + 16 * slots h \<le> 2 ^ 32" and lg: "1 \<le> unat (log2_capacity h)" "unat (log2_capacity h) < 28"
    using ok by (simp_all add: table_ok_def)
  have "r \<in> set (window (mem s) h key len)" using hash_helper_spec [OF hh] by (auto simp: find_Some_iff)
  note rs = window_slots(2) [OF lg this]
  have "table_ok (mem s') h" using ok k unfolding m' table_ok_def by (auto simp: element_set_element [OF h rs])
  then show ?thesis using h' content_set_element [OF h rs] unfolding m' by auto
qed

section \<open>Dictionaries\<close>

text \<open>What the virtual file system relies on: an insertion changes the value of one key, told by its
  content, and leaves the keys it uses readable.\<close>

fun ins_all :: "('s \<Rightarrow> 'k \<Rightarrow> 'v \<Rightarrow> 's option) \<Rightarrow> 's \<Rightarrow> ('k \<times> 'v) list \<Rightarrow> 's option" where
  "ins_all ins s [] = Some s"
| "ins_all ins s ((k, v) # kvs) = Option.bind (ins s k v) (\<lambda>s'. ins_all ins s' kvs)"

locale dictionary =
  fixes inv :: "'s \<Rightarrow> bool"
    and usable :: "'s \<Rightarrow> 'k \<Rightarrow> bool"
    and cont :: "'s \<Rightarrow> 'k \<Rightarrow> 'c"
    and look :: "'s \<Rightarrow> 'k \<Rightarrow> 'v"
    and ins :: "'s \<Rightarrow> 'k \<Rightarrow> 'v \<Rightarrow> 's option"
  assumes ins_inv: "inv s \<Longrightarrow> usable s k \<Longrightarrow> ins s k v = Some s' \<Longrightarrow> inv s'"
    and ins_usable: "inv s \<Longrightarrow> usable s k \<Longrightarrow> ins s k v = Some s' \<Longrightarrow> usable s' k' \<longleftrightarrow> usable s k'"
    and ins_cont: "inv s \<Longrightarrow> usable s k \<Longrightarrow> ins s k v = Some s' \<Longrightarrow> usable s k' \<Longrightarrow> cont s' k' = cont s k'"
    and look_ins: "inv s \<Longrightarrow> usable s k \<Longrightarrow> ins s k v = Some s' \<Longrightarrow> usable s k' \<Longrightarrow>
      look s' k' = (if cont s k' = cont s k then v else look s k')"
begin

lemma look_ins_all:
  "inv s \<Longrightarrow> (\<forall>kv\<in>set kvs. usable s (fst kv)) \<Longrightarrow> usable s k' \<Longrightarrow> ins_all ins s kvs = Some s' \<Longrightarrow>
     inv s' \<and> look s' k' =
       (case map_of (rev (map (\<lambda>(k, v). (cont s k, v)) kvs)) (cont s k') of Some v \<Rightarrow> v | None \<Rightarrow> look s k')"
proof (induction kvs arbitrary: s)
  case (Cons kv kvs)
  obtain k v where kv: "kv = (k, v)" by fastforce
  with Cons.prems obtain s1 where s1: "ins s k v = Some s1" "ins_all ins s1 kvs = Some s'"
    by (auto simp: bind_eq_Some_conv)
  have k: "usable s k" using Cons.prems(2) kv by simp
  note fr = Cons.prems(1) k s1(1)
  have cont: "cont s1 x = cont s x" if "usable s x" for x by (rule ins_cont [OF fr that])
  have eq: "map (\<lambda>(k, v). (cont s1 k, v)) kvs = map (\<lambda>(k, v). (cont s k, v)) kvs"
    using Cons.prems(2) cont by (intro map_cong) auto
  have "inv s' \<and> look s' k' =
      (case map_of (rev (map (\<lambda>(k, v). (cont s1 k, v)) kvs)) (cont s1 k') of Some v \<Rightarrow> v | None \<Rightarrow> look s1 k')"
    using Cons.prems(2,3) by (intro Cons.IH ins_inv [OF fr] s1(2)) (simp_all add: ins_usable [OF fr])
  then show ?case
    unfolding eq cont [OF Cons.prems(3)] look_ins [OF fr Cons.prems(3)]
    by (auto simp: kv map_add_def split: option.splits)
qed auto

end

definition dict_inv :: "'a heap_state_scheme \<times> hashmap_s \<Rightarrow> bool" where
  "dict_inv sh = table_ok (mem (fst sh)) (snd sh)"

definition dict_usable :: "'a heap_state_scheme \<times> hashmap_s \<Rightarrow> ptr \<times> u32 \<Rightarrow> bool" where
  "dict_usable sh k = off_table (snd sh) (fst k) (snd k)"

definition dict_content :: "'a heap_state_scheme \<times> hashmap_s \<Rightarrow> ptr \<times> u32 \<Rightarrow> u8 list" where
  "dict_content sh k = content (mem (fst sh)) (fst k) (snd k)"

definition dict_get :: "'a heap_state_scheme \<times> hashmap_s \<Rightarrow> ptr \<times> u32 \<Rightarrow> ptr" where
  "dict_get sh k = hashmap_get (mem (fst sh)) (snd sh) (fst k) (snd k)"

text \<open>Insertions that find a slot (None: the table would have to grow).\<close>

definition dict_put :: "'a heap_state_scheme \<times> hashmap_s \<Rightarrow> ptr \<times> u32 \<Rightarrow> ptr \<Rightarrow> ('a heap_state_scheme \<times> hashmap_s) option" where
  "dict_put sh k v =
     (if hashmap_hash_helper (mem (fst sh)) (snd sh) (fst k) (snd k) = None then None
      else map_option (\<lambda>(s', h', r). (s', h')) (hashmap_put (fst sh) (snd sh) (fst k) (snd k) v))"

lemma hashmap_put_slot:
  "key \<noteq> NULL \<Longrightarrow> len \<noteq> 0 \<Longrightarrow> hashmap_hash_helper (mem s) h key len = Some r \<Longrightarrow>
     hashmap_put s h key len v = (case put_at s h r key len v of (s', h') \<Rightarrow> Some (s', h', 0))"
  by (simp add: hashmap_put_def numeral_eq_Suc)

lemma dict_putD:
  assumes "dict_usable sh k" "dict_put sh k v = Some sh'"
  obtains r where "hashmap_hash_helper (mem (fst sh)) (snd sh) (fst k) (snd k) = Some r"
    "put_at (fst sh) (snd sh) r (fst k) (snd k) v = (fst sh', snd sh')"
  using assms hashmap_put_slot [of "fst k" "snd k" "fst sh" "snd sh" _ v]
  by (auto simp: dict_put_def dict_usable_def off_table_def split: if_splits prod.splits)

interpretation kdict: dictionary dict_inv dict_usable dict_content dict_get dict_put
proof
  fix s s' :: "'a heap_state_scheme \<times> hashmap_s" and k k' v
  assume inv: "dict_inv s" and k: "dict_usable s k" and put: "dict_put s k v = Some s'"
  from dict_putD [OF k put] obtain r where
    hh: "hashmap_hash_helper (mem (fst s)) (snd s) (fst k) (snd k) = Some r"
    and pa: "put_at (fst s) (snd s) r (fst k) (snd k) v = (fst s', snd s')" .
  note inv' = inv [unfolded dict_inv_def] and k' = k [unfolded dict_usable_def]
  note po = put_ok [OF inv' k' hh pa]
  show "dict_inv s'" using po by (simp add: dict_inv_def)
  show "dict_usable s' k' = dict_usable s k'" using po by (simp add: dict_usable_def)
  assume "dict_usable s k'"
  then have u: "off_table (snd s) (fst k') (snd k')" by (simp add: dict_usable_def)
  show "dict_content s' k' = dict_content s k'" using po u by (simp add: dict_content_def)
  show "dict_get s' k' = (if dict_content s k' = dict_content s k then v else dict_get s k')"
    using put_get [OF inv' k' u hh pa] by (simp add: dict_get_def dict_content_def)
qed

text \<open>A window with a free slot has room.\<close>

lemma hash_helper_loop_None:
  "\<forall>x\<in>set (map (\<lambda>j. index + of_nat j) [0..<n]). x \<noteq> NOT 0 \<Longrightarrow> hash_helper_loop m h key len n index ff = None \<Longrightarrow>
     ff = NOT 0 \<and> (\<forall>x\<in>set (map (\<lambda>j. index + of_nat j) [0..<n]). he_in_use (element m h x) \<noteq> 0)"
proof (induction n arbitrary: index ff)
  case 0
  then show ?case by (simp split: if_splits)
next
  case (Suc n)
  have m: "map (\<lambda>j. index + of_nat j) [0..<Suc n] = index # map (\<lambda>j. index + 1 + of_nat j) [0..<n]"
    by (simp add: upt_conv_Cons map_Suc_upt [symmetric] add.assoc comp_def del: upt_Suc)
  have rest: "\<forall>x\<in>set (map (\<lambda>j. index + 1 + of_nat j) [0..<n]). x \<noteq> NOT 0" "index \<noteq> NOT 0"
    using Suc.prems(1) unfolding m by auto
  show ?case
  proof (cases "he_in_use (element m h index) = 0")
    case True
    let ?ff = "if ff < index then ff else index"
    from Suc.prems(2) True have "hash_helper_loop m h key len n (index + 1) ?ff = None" by (simp add: Let_def)
    from Suc.IH [OF rest(1) this] have "?ff = NOT 0" by blast
    moreover have "\<not> NOT 0 < index" using word_n1_ge [of index] by (simp add: not_less)
    ultimately show ?thesis using rest(2) by (auto split: if_splits)
  next
    case False
    with Suc.prems(2) have "hash_helper_loop m h key len n (index + 1) ff = None"
      by (simp add: Let_def split: if_splits)
    from Suc.IH [OF rest(1) this] False show ?thesis unfolding m by auto
  qed
qed

lemma hash_helper_free:
  assumes ok: "table_ok m h" and "hm_size h \<noteq> hashmap_capacity h"
    and "x \<in> set (window m h key len)" "he_in_use (element m h x) = 0"
  shows "hashmap_hash_helper m h key len \<noteq> None"
proof
  assume "hashmap_hash_helper m h key len = None"
  then have n: "hash_helper_loop m h key len 8 (hashmap_hash_helper_int_helper m h key len) (NOT 0) = None"
    using assms(2) by (simp add: hashmap_hash_helper_def hashmap_num_entries_def)
  have lg: "1 \<le> unat (log2_capacity h)" "unat (log2_capacity h) < 28"
    and sz: "unat (hm_data h) + 16 * slots h \<le> 2 ^ 32" using ok by (simp_all add: table_ok_def)
  have "y \<noteq> NOT 0" if "y \<in> set (window m h key len)" for y
  proof
    assume "y = NOT 0"
    then have "unat y = 4294967295" by (simp add: unsigned_minus_1_eq_mask mask_eq_exp_minus_1)
    with window_slots(2) [OF lg that] sz show False by simp
  qed
  with hash_helper_loop_None [OF _ n] assms(3,4) show False unfolding window_def by blast
qed

section \<open>Properties\<close>


text \<open>A table of 16 at 0x8000, "a" at 0x100 and at 0x200.\<close>

definition dict_demo :: "heap_state \<times> hashmap_s" where
  "dict_demo = (boot_heap\<lparr>mem := (\<lambda>_. 0)(0x100 := 97, 0x200 := 97)\<rparr>, \<lparr>log2_capacity = 4, hm_size = 0, hm_data = 0x8000\<rparr>)"


lemma hashmap_clz_2: "hashmap_clz 2 = 30"
  by (simp add: hashmap_clz_def upt_rec)

text \<open>A new table is not empty: \<open>calloc\<close> does not clear, so whether slot 0 counts as used depends on
  what the memory held before.\<close>

theorem hashmap_create_keeps_junk:
  "\<exists>s' h. hashmap_create (init_heap s 0x1000 0x400) 2 = Some (s', h) \<and>
     he_in_use (element (mem s') h 0) = load32 (mem s) 0x1018"
  by (simp add: hashmap_create_def hashmap_create_ex_def calloc_def heap_eval hashmap_clz_2 element_def)
    (simp add: set_free_def set_next_def set_prev_def set_size_def load32_def store32_def)

end
