(* ===== verification/Numerals.thy ===== *)
theory Numerals
  imports Memory
begin

text \<open>
  Numbers and their numerals, the reference for the routines that print and read numbers: the
  textbook recursion of a numeral in any base, the signed value of a word, and C's division of
  signed integers, which rounds towards zero.
\<close>

fun numeral_of :: "nat \<Rightarrow> (nat \<Rightarrow> u8) \<Rightarrow> nat \<Rightarrow> u8 list" where
  "numeral_of base digit n =
     (if base < 2 \<or> n < base then [digit n] else numeral_of base digit (n div base) @ [digit (n mod base)])"

declare numeral_of.simps [simp del]

definition decimal :: "nat \<Rightarrow> u8 list" where
  "decimal n = numeral_of 10 (\<lambda>d. 48 + of_nat d) n"

definition signed_decimal :: "int \<Rightarrow> u8 list" where
  "signed_decimal v = (if v < 0 then 45 # decimal (nat (- v)) else decimal (nat v))"

definition cdiv :: "int \<Rightarrow> int \<Rightarrow> int" where
  "cdiv a b = sgn a * sgn b * (\<bar>a\<bar> div \<bar>b\<bar>)"

definition cmod :: "int \<Rightarrow> int \<Rightarrow> int" where
  "cmod a b = a - cdiv a b * b"

lemma sint_u32: "sint (w :: u32) = (if unat w < 2 ^ 31 then int (unat w) else int (unat w) - 2 ^ 32)"
proof (cases "unat w < 2 ^ 31")
  case False
  have u: "int (unat w) = uint w" by simp
  have "uint w < 2 ^ 32" by (rule order_less_le_trans [OF uint_bounded]) simp
  then have b: "uint w < 2 ^ 32" .
  have "2 ^ 31 \<le> uint w" using False of_nat_le_iff [of "2 ^ 31" "unat w", where 'a = int] by (simp add: not_less)
  with b have "uint w div 2 ^ 31 = 1" by (intro int_div_pos_eq [of _ _ _ "uint w - 2 ^ 31"]) simp_all
  moreover have "take_bit 32 (uint w) = uint w" using b by (intro take_bit_int_eq_self) simp_all
  ultimately show ?thesis using False
    unfolding u by (simp add: sint_uint signed_take_bit_eq_take_bit_minus bit_iff_odd)
qed (simp add: sint_small)

lemma numeral_of_not_Nil [simp]: "numeral_of base digit n \<noteq> []"
  by (subst numeral_of.simps) simp

lemma numeral_of_digits: "1 < base \<Longrightarrow> c \<in> set (numeral_of base digit n) \<Longrightarrow> \<exists>d<base. c = digit d"
proof (induction base digit n rule: numeral_of.induct)
  case (1 base digit n)
  show ?case
  proof (cases "n < base")
    case True
    then show ?thesis using 1(3) by (subst (asm) numeral_of.simps) auto
  next
    case False
    then consider "c \<in> set (numeral_of base digit (n div base))" | "c = digit (n mod base)"
      using 1(2,3) by (subst (asm) (2) numeral_of.simps) auto
    then show ?thesis
    proof cases
      case 1
      then show ?thesis using "1.IH" "1.prems"(1) False by simp
    next
      case 2
      then show ?thesis using "1.prems"(1) by (intro exI [of _ "n mod base"]) simp
    qed
  qed
qed

section \<open>Storing a string\<close>

lemma fold_upd_at:
  "\<forall>i\<in>set is. i < 2 ^ 32 \<Longrightarrow> k < 2 ^ 32 \<Longrightarrow>
     fold (\<lambda>i m. m(p + of_nat i := f i)) is m (p + of_nat k :: u32) = (if k \<in> set is then f k else m (p + of_nat k))"
proof (induction "is" arbitrary: m)
  case (Cons i js)
  then have "p + of_nat k = p + of_nat i \<longleftrightarrow> k = i" by (intro offset_eq_iff) simp_all
  then show ?case using Cons by (auto simp del: add_left_cancel)
qed simp

lemma fold_upd_other:
  "\<forall>i\<in>set is. a \<noteq> p + of_nat i \<Longrightarrow> fold (\<lambda>i m. m(p + of_nat i :: u32 := f i)) is m a = m a"
  by (induction "is" arbitrary: m) auto

lemma cstr_at_nth:
  "cstr_at m p bs \<longleftrightarrow>
     (\<forall>i<length bs. m (p + of_nat i) = bs ! i \<and> bs ! i \<noteq> 0) \<and> m (p + of_nat (length bs)) = 0"
  by (induction bs arbitrary: p) (auto simp: All_less_Suc2 add.assoc)

end
