(* ===== verification/LibString.thy ===== *)
theory LibString
  imports Memory
begin

text \<open>
  \<open>lib/goblibc/src/string.c\<close> and \<open>ctype.c\<close>, the string library of the applications. What a
  function reads through a pointer is a \<open>view\<close>: the bytes from that pointer on. The functions that
  write take the byte memory. The names carry \<open>_lib\<close> where the kernel has a function of that name.
\<close>

type_synonym view = "nat \<Rightarrow> u8"

definition view_at :: "bmem \<Rightarrow> ptr \<Rightarrow> view" where
  "view_at m p i = m (p + of_nat i)"

text \<open>A character array as a view; past its end the view is 0 (nothing below reads there).\<close>

definition view_of :: "u8 list \<Rightarrow> view" where
  "view_of bs i = (if i < length bs then bs ! i else 0)"

definition chr :: "char \<Rightarrow> u8" where
  "chr c = of_char c"

text \<open>A \<open>char\<close> is signed on the target.\<close>

definition schar :: "u8 \<Rightarrow> int" where
  "schar c = sint c"

text \<open>The numbers of \<open>errno.h\<close>.\<close>

abbreviation (input) "EINVAL \<equiv> 22 :: int"
abbreviation (input) "ERANGE \<equiv> 34 :: int"
abbreviation (input) "EOVERFLOW \<equiv> 79 :: int"
abbreviation (input) "EILSEQ \<equiv> 86 :: int"

section \<open>Strings\<close>

partial_function (option) strlen_from :: "view \<Rightarrow> nat \<Rightarrow> nat option" where
  "strlen_from str i = (if str i = 0 then Some i else strlen_from str (i + 1))"

definition strlen_lib :: "view \<Rightarrow> nat option" where
  "strlen_lib str = strlen_from str 0"

function strnlen_from :: "view \<Rightarrow> nat \<Rightarrow> nat \<Rightarrow> nat" where
  "strnlen_from str n i = (if str i \<noteq> 0 \<and> i < n then strnlen_from str n (i + 1) else i)"
  by pat_completeness auto
termination by (relation "measure (\<lambda>(str, n, i). n - i)") auto

declare strnlen_from.simps [simp del]

definition strnlen :: "view \<Rightarrow> nat \<Rightarrow> nat" where
  "strnlen str n = strnlen_from str n 0"

definition memcmp_lib :: "view \<Rightarrow> view \<Rightarrow> nat \<Rightarrow> int" where
  "memcmp_lib buf1 buf2 n = fold (\<lambda>i acc. acc + byte_diff (buf1 i) (buf2 i)) [0..<n] 0"

partial_function (option) strcmp_from :: "view \<Rightarrow> view \<Rightarrow> nat \<Rightarrow> int option" where
  "strcmp_from s1 s2 i =
     (if s1 i = 0 then Some (byte_diff (s1 i) (s2 i))
      else if s1 i = s2 i then strcmp_from s1 s2 (i + 1)
      else Some (byte_diff (s1 i) (s2 i)))"

definition strcmp_lib :: "view \<Rightarrow> view \<Rightarrow> int option" where
  "strcmp_lib p1 p2 = strcmp_from p1 p2 0"

function strncmp_from :: "view \<Rightarrow> view \<Rightarrow> nat \<Rightarrow> nat \<Rightarrow> int" where
  "strncmp_from s1 s2 len i =
     (if s1 i = 0 then byte_diff (s1 i) (s2 i)
      else if s1 i = s2 i \<and> i + 1 < len then strncmp_from s1 s2 len (i + 1)
      else byte_diff (s1 i) (s2 i))"
  by pat_completeness auto
termination by (relation "measure (\<lambda>(s1, s2, len, i). len - i)") auto

declare strncmp_from.simps [simp del]

definition strncmp_lib :: "view \<Rightarrow> view \<Rightarrow> nat \<Rightarrow> int" where
  "strncmp_lib p1 p2 len = strncmp_from p1 p2 len 0"

text \<open>\<open>strstr\<close> compares the whole rest of the string at each offset, and returns the string itself
  when none is equal; the result is the offset.\<close>

fun strstr_offsets :: "view \<Rightarrow> view \<Rightarrow> nat list \<Rightarrow> nat option" where
  "strstr_offsets str substr [] = Some 0"
| "strstr_offsets str substr (i # is) =
     (case strcmp_lib (\<lambda>j. str (i + j)) substr of None \<Rightarrow> None
      | Some r \<Rightarrow> if r = 0 then Some i else strstr_offsets str substr is)"

definition strstr_lib :: "view \<Rightarrow> view \<Rightarrow> nat option" where
  "strstr_lib str substr =
     (case (strlen_lib str, strlen_lib substr) of
        (Some len, Some sublen) \<Rightarrow>
          strstr_offsets str substr (if sublen \<le> len then [0..<len - sublen + 1] else [])
      | _ \<Rightarrow> None)"

section \<open>Writing\<close>

definition memcpy_lib :: "bmem \<Rightarrow> ptr \<Rightarrow> ptr \<Rightarrow> u32 \<Rightarrow> bmem \<times> ptr" where
  "memcpy_lib m dest source n =
     (fold (\<lambda>i m. m(dest + of_nat i := m (source + of_nat i))) [0..<unat n] m, dest)"

partial_function (option) strcpy_from :: "bmem \<Rightarrow> ptr \<Rightarrow> ptr \<Rightarrow> bmem option" where
  "strcpy_from m dest source =
     (let m' = m(dest := m source)
      in if m source \<noteq> 0 then strcpy_from m' (dest + 1) (source + 1) else Some m')"

definition strcpy_lib :: "bmem \<Rightarrow> ptr \<Rightarrow> ptr \<Rightarrow> (bmem \<times> ptr) option" where
  "strcpy_lib m dest source = map_option (\<lambda>m'. (m', dest)) (strcpy_from m dest source)"

text \<open>The copy of \<open>strncpy\<close>: \<open>len\<close> counts down from the length less one; the result has the memory,
  the position of the last byte written and what is left of \<open>len\<close>.\<close>

fun strncpy_copy :: "bmem \<Rightarrow> ptr \<Rightarrow> ptr \<Rightarrow> nat \<Rightarrow> bmem \<times> ptr \<times> nat" where
  "strncpy_copy m dest source len =
     (let m' = m(dest := m source)
      in if m source \<noteq> 0 \<and> len > 0 then strncpy_copy m' (dest + 1) (source + 1) (len - 1)
         else (m', dest, len))"

declare strncpy_copy.simps [simp del]

definition strncpy_lib :: "bmem \<Rightarrow> ptr \<Rightarrow> ptr \<Rightarrow> nat \<Rightarrow> bmem \<times> ptr" where
  "strncpy_lib m dest source len =
     (if len = 0 then (m, dest)
      else case strncpy_copy m dest source (len - 1) of (m1, d, left) \<Rightarrow>
        (fold (\<lambda>i m. m(d + of_nat i := 0)) [0..<left - 1] m1, dest))"

text \<open>The loop bound of \<open>memset\<close> is the address \<open>buf + size\<close>, which may wrap around.\<close>

definition memset_lib :: "bmem \<Rightarrow> ptr \<Rightarrow> u32 \<Rightarrow> u32 \<Rightarrow> bmem \<times> ptr" where
  "memset_lib m buf n sz = (memset_loop m (ucast n) buf (buf + sz), buf)"

section \<open>Characters\<close>

definition isalnum :: "int \<Rightarrow> bool" where
  "isalnum c \<longleftrightarrow> (97 \<le> c \<and> c \<le> 122) \<or> (65 \<le> c \<and> c \<le> 90) \<or> (48 \<le> c \<and> c \<le> 57)"

definition isalpha :: "int \<Rightarrow> bool" where
  "isalpha c \<longleftrightarrow> (97 \<le> c \<and> c \<le> 122) \<or> (65 \<le> c \<and> c \<le> 90)"

definition isdigit :: "int \<Rightarrow> bool" where
  "isdigit c \<longleftrightarrow> 48 \<le> c \<and> c \<le> 57"

definition isspace :: "int \<Rightarrow> bool" where
  "isspace c \<longleftrightarrow> c = 32 \<or> c = 9"

definition tolower :: "int \<Rightarrow> int" where
  "tolower c = (if 65 \<le> c \<and> c \<le> 90 then c + 32 else c)"

definition toupper :: "int \<Rightarrow> int" where
  "toupper c = (if 97 \<le> c \<and> c \<le> 122 then c - 32 else c)"

definition is_valid_hex :: "u8 \<Rightarrow> bool" where
  "is_valid_hex c \<longleftrightarrow> (48 \<le> schar c \<and> schar c \<le> 57) \<or> (65 \<le> schar c \<and> schar c \<le> 70) \<or> (97 \<le> schar c \<and> schar c \<le> 102)"

definition is_valid_bin :: "u8 \<Rightarrow> bool" where
  "is_valid_bin c \<longleftrightarrow> schar c = 48 \<or> schar c = 49"

section \<open>Lemmas\<close>

lemma strnlen_from_spec:
  "(\<And>j. i \<le> j \<Longrightarrow> j < k \<Longrightarrow> str j \<noteq> 0) \<Longrightarrow> i \<le> k \<Longrightarrow> k \<le> n \<Longrightarrow> str k = 0 \<or> k = n \<Longrightarrow> strnlen_from str n i = k"
proof (induction str n i rule: strnlen_from.induct)
  case (1 str n i)
  show ?case
  proof (cases "i = k")
    case True
    then show ?thesis using "1.prems" by (subst strnlen_from.simps) auto
  next
    case False
    then have "strnlen_from str n (i + 1) = k" using "1.prems" by (intro "1.IH") auto
    then show ?thesis using False "1.prems" by (subst strnlen_from.simps) auto
  qed
qed

lemma strnlen_view: "0 \<notin> set bs \<Longrightarrow> length bs \<le> n \<Longrightarrow> strnlen (view_of bs) n = length bs"
  unfolding strnlen_def by (rule strnlen_from_spec) (auto simp: view_of_def dest: nth_mem)

lemma strncmp_from_eq_0:
  assumes "i < len"
  shows "strncmp_from s1 s2 len i = 0 \<longleftrightarrow>
    (\<exists>k\<ge>i. k < len \<and> (\<forall>j\<in>{i..<k}. s1 j = s2 j \<and> s1 j \<noteq> 0) \<and> s1 k = s2 k \<and> (s1 k = 0 \<or> k + 1 = len))"
  using assms
proof (induction s1 s2 len i rule: strncmp_from.induct)
  case (1 s1 s2 len i)
  have iv: "{i..<k} = (if i < k then insert i {i+1..<k} else {})" for k by auto
  consider (stop) "s1 i = 0 \<or> s1 i \<noteq> s2 i \<or> i + 1 = len" | (more) "s1 i \<noteq> 0" "s1 i = s2 i" "i + 1 < len"
    using "1.prems" by linarith
  then show ?case
  proof cases
    case stop
    then have "strncmp_from s1 s2 len i = byte_diff (s1 i) (s2 i)"
      by (subst strncmp_from.simps) auto
    moreover have "k = i" if "k \<ge> i" "k < len" "\<forall>j\<in>{i..<k}. s1 j = s2 j \<and> s1 j \<noteq> 0" for k
      using that stop by (cases "k = i") (auto simp: iv)
    ultimately show ?thesis using stop "1.prems" by (auto simp: iv)
  next
    case more
    then have "strncmp_from s1 s2 len i = strncmp_from s1 s2 len (i + 1)"
      by (subst strncmp_from.simps) auto
    with more "1.IH" [OF more(1)] show ?thesis
      by (auto simp: iv Suc_le_eq)
  qed
qed

end
