(* ===== verification/GobFile.thy ===== *)
theory GobFile
  imports LibString Numerals
begin

text \<open>
  \<open>lib/goblibc/src/file_scan_helpers.c\<close> and \<open>include/file.h\<close>: the pseudo file over a string that the
  formatted output and input of the C library use. Pointers that are compared or subtracted are
  32-bit; \<open>shlim\<close> and \<open>shcnt\<close> (\<open>off_t\<close>, 64 bits) are integers. The lock and the function
  pointers for files are not there: \<open>write\<close> and \<open>read\<close> are always those of a string.
\<close>

record gob_file =
  g_mem :: bmem
  g_errno :: int
  g_buf :: ptr
  g_rpos :: ptr
  g_rend :: ptr
  g_wend :: ptr
  g_wpos :: ptr
  g_shend :: ptr
  g_shlim :: int
  g_shcnt :: int

definition scan_help_file_from_string :: "ptr \<Rightarrow> 'a gob_file_scheme \<Rightarrow> 'a gob_file_scheme" where
  "scan_help_file_from_string str s =
     s\<lparr>g_buf := str, g_rpos := str, g_rend := - 1, g_wend := 0, g_wpos := 0\<rparr>"

text \<open>The difference of two pointers is a signed 32-bit number.\<close>

definition ptrdiff :: "ptr \<Rightarrow> ptr \<Rightarrow> int" where
  "ptrdiff p q = sint (p - q)"

section \<open>Writing\<close>

definition scan_help_str_write :: "u8 list \<Rightarrow> 'a gob_file_scheme \<Rightarrow> 'a gob_file_scheme" where
  "scan_help_str_write bs s = fold (\<lambda>b s. s\<lparr>g_mem := (g_mem s)(g_rpos s := b), g_rpos := g_rpos s + 1\<rparr>) bs s"

text \<open>From a string in memory, which the bytes already written may change.\<close>

definition scan_help_str_write_from :: "ptr \<Rightarrow> nat \<Rightarrow> 'a gob_file_scheme \<Rightarrow> 'a gob_file_scheme" where
  "scan_help_str_write_from p n s =
     fold (\<lambda>i s. s\<lparr>g_mem := (g_mem s)(g_rpos s := g_mem s (p + of_nat i)), g_rpos := g_rpos s + 1\<rparr>) [0..<n] s"

definition scan_help_write_str :: "u8 list \<Rightarrow> 'a gob_file_scheme \<Rightarrow> 'a gob_file_scheme" where
  "scan_help_write_str bs s =
     (if unat (g_wend s - g_wpos s) < length bs then scan_help_str_write bs s else s)"

definition scan_help_write_from :: "ptr \<Rightarrow> nat \<Rightarrow> 'a gob_file_scheme \<Rightarrow> 'a gob_file_scheme" where
  "scan_help_write_from p n s =
     (if unat (g_wend s - g_wpos s) < n then scan_help_str_write_from p n s else s)"

section \<open>Reading\<close>

definition scan_help_cnt :: "'a gob_file_scheme \<Rightarrow> int" where
  "scan_help_cnt s = g_shcnt s + ptrdiff (g_rpos s) (g_buf s)"

definition scan_help_lim :: "int \<Rightarrow> 'a gob_file_scheme \<Rightarrow> 'a gob_file_scheme" where
  "scan_help_lim lim s =
     s\<lparr>g_shlim := lim, g_shcnt := ptrdiff (g_buf s) (g_rpos s),
       g_shend := (if lim \<noteq> 0 \<and> lim < ptrdiff (g_rend s) (g_rpos s) then g_rpos s + word_of_int lim else g_rend s)\<rparr>"

text \<open>There is never more to read: \<open>__uflow\<close> returns EOF, and \<open>__scan_help_getc\<close> takes its first branch.\<close>

definition uflow :: int where
  "uflow = - 1"

definition scan_help_getc_end :: "'a gob_file_scheme \<Rightarrow> 'a gob_file_scheme \<times> int" where
  "scan_help_getc_end s =
     (let cnt = scan_help_cnt s in
      if (0 < g_shlim s \<and> g_shlim s \<le> cnt) \<or> uflow < 0
      then (s\<lparr>g_shcnt := ptrdiff (g_buf s) (g_rpos s) + cnt, g_shend := g_rpos s, g_shlim := - 1\<rparr>, - 1)
      else (s, uflow))"

text \<open>The result is a \<open>char\<close>: bytes from 0x80 on are negative.\<close>

definition scan_help_getc :: "'a gob_file_scheme \<Rightarrow> 'a gob_file_scheme \<times> int" where
  "scan_help_getc s =
     (if g_rpos s \<noteq> g_shend s then (s\<lparr>g_rpos := g_rpos s + 1\<rparr>, schar (g_mem s (g_rpos s)))
      else scan_help_getc_end s)"

definition scan_help_unget :: "'a gob_file_scheme \<Rightarrow> 'a gob_file_scheme" where
  "scan_help_unget s = (if 0 \<le> g_shlim s then s\<lparr>g_rpos := g_rpos s - 1\<rparr> else s)"

section \<open>Lemmas\<close>

lemma store_bytes_Nil [simp]: "store_bytes m p [] = m"
  by (simp add: store_bytes_def)

lemma store_bytes_Cons: "store_bytes m p (b # bs) = store_bytes (m(p := b)) (p + 1) bs"
proof -
  have "[0..<Suc n] = 0 # map Suc [0..<n]" for n by (simp add: map_Suc_upt upt_conv_Cons del: upt_Suc)
  then show ?thesis by (simp add: store_bytes_def fold_map comp_def add.assoc del: upt_Suc)
qed

lemma store_bytes_append: "store_bytes m p (xs @ ys) = store_bytes (store_bytes m p xs) (p + of_nat (length xs)) ys"
  by (induction xs arbitrary: m p) (simp_all add: store_bytes_Cons add.assoc)

lemma store_bytes_other: "\<forall>i<length bs. a \<noteq> p + of_nat i \<Longrightarrow> store_bytes m p bs a = m a"
  by (simp add: store_bytes_def fold_upd_other)

lemma store_bytes_at: "i < length bs \<Longrightarrow> length bs < 2 ^ 31 \<Longrightarrow> store_bytes m p bs (p + of_nat i) = bs ! i"
  by (simp add: store_bytes_def fold_upd_at)

text \<open>What is written goes to the position of the file.\<close>

lemma str_write_store:
  "scan_help_str_write bs s = s\<lparr>g_mem := store_bytes (g_mem s) (g_rpos s) bs, g_rpos := g_rpos s + of_nat (length bs)\<rparr>"
  by (induction bs arbitrary: s) (simp_all add: scan_help_str_write_def store_bytes_Cons add.assoc)

lemma write_str_store:
  "g_wend s = g_wpos s \<Longrightarrow>
     scan_help_write_str bs s = s\<lparr>g_mem := store_bytes (g_mem s) (g_rpos s) bs, g_rpos := g_rpos s + of_nat (length bs)\<rparr>"
  by (simp add: scan_help_write_str_def str_write_store)

end
