(* ===== verification/LibStd.thy ===== *)
theory LibStd
  imports LibString Heap Numerals
begin

text \<open>
  \<open>lib/goblibc/src/stdlib.c\<close>: numbers and strings, and the heap of the applications. The text of
  \<open>init_heap\<close>, \<open>split\<close>, \<open>merge\<close> and \<open>free\<close> is that of \<open>kernel/heap.c\<close>; \<open>malloc\<close> does not test
  for the size 0, and \<open>realloc\<close> calls this \<open>malloc\<close>. An \<open>int\<close> that overflows wraps around. What an
  uninitialised or foreign byte or variable holds is a parameter.
\<close>

section \<open>Numbers to strings\<close>

text \<open>\<open>temp\<close>, lowest digit first. A radix of 0 divides by zero, one of 1 does not end: \<open>None\<close> below.\<close>

definition digit_char :: "u32 \<Rightarrow> u8" where
  "digit_char t = (if sint t < 10 then ucast t + 48 else ucast t + 55)"

function itoa_digits :: "u32 \<Rightarrow> u32 \<Rightarrow> u8 list" where
  "itoa_digits radix v =
     (if v = 0 \<or> unat radix < 2 then [] else digit_char (v mod radix) # itoa_digits radix (v div radix))"
  by pat_completeness auto
termination by (relation "measure (\<lambda>(radix, v). unat v)") (auto simp: unat_div unat_gt_0)

declare itoa_digits.simps [simp del]

text \<open>The loop from \<open>i = len\<close> down to 0 starts with the byte before \<open>temp\<close>, and the terminator replaces it.\<close>

definition copy_reversed :: "u8 \<Rightarrow> bmem \<Rightarrow> ptr \<Rightarrow> u8 list \<Rightarrow> bmem" where
  "copy_reversed before m buffer temp =
     (let len = length temp;
          m1 = fold (\<lambda>i m. m(buffer + of_nat i := (if i = len then before else temp ! (len - i - 1)))) (rev [0..<len + 1]) m
      in m1(buffer + of_nat len := 0))"

definition itoa :: "u8 \<Rightarrow> bmem \<Rightarrow> u32 \<Rightarrow> ptr \<Rightarrow> u32 \<Rightarrow> (bmem \<times> ptr) option" where
  "itoa before m val buffer radix =
     (if val = 0 then Some (m(buffer := 48, buffer + 1 := 0), buffer)
      else if unat radix < 2 then None
      else
        let sign = (sint val < 0 \<and> radix = 10);
            v = (if sign then - val else val);
            temp = itoa_digits radix v @ (if sign then [45] else [])
        in Some (copy_reversed before m buffer temp, buffer))"

text \<open>In \<open>int_to_str\<close> the division is signed; a radix of 1 or -1 does not end.\<close>

function int_digits_signed :: "int \<Rightarrow> int \<Rightarrow> u8 list" where
  "int_digits_signed radix val =
     (if val = 0 \<or> \<bar>radix\<bar> < 2 then []
      else digit_char (word_of_int (cmod val radix)) # int_digits_signed radix (cdiv val radix))"
  by pat_completeness auto

termination
proof (relation "measure (\<lambda>(radix, val). nat \<bar>val\<bar>)")
  fix radix val :: int
  assume "\<not> (val = 0 \<or> \<bar>radix\<bar> < 2)"
  then have "\<bar>val\<bar> div \<bar>radix\<bar> < \<bar>val\<bar>" by (intro int_div_less_self) auto
  moreover have "\<bar>cdiv val radix\<bar> = \<bar>val\<bar> div \<bar>radix\<bar>" using \<open>\<not> _\<close>
    by (simp add: cdiv_def abs_mult pos_imp_zdiv_nonneg_iff)
  ultimately show "((radix, cdiv val radix), (radix, val)) \<in> measure (\<lambda>(radix, val). nat \<bar>val\<bar>)"
    using \<open>\<not> _\<close> by auto
qed simp

declare int_digits_signed.simps [simp del]

definition int_to_str :: "u8 \<Rightarrow> bmem \<Rightarrow> u32 \<Rightarrow> ptr \<Rightarrow> u32 \<Rightarrow> (bmem \<times> ptr \<times> u32) option" where
  "int_to_str before m val buffer radix =
     (if val = 0 then Some (m(buffer := 48, buffer + 1 := 0), buffer, 1)
      else if \<bar>sint radix\<bar> < 2 then None
      else
        let sign = (sint val < 0);
            v = (if sign then - val else val);
            temp = int_digits_signed (sint radix) (sint v) @ (if sign then [45] else [])
        in Some (copy_reversed before m buffer temp, buffer, of_nat (length temp)))"

section \<open>Strings to numbers\<close>

text \<open>Characters that are not digits are skipped. The result is multiplied by 10 once too often and divided
  at the end.\<close>

partial_function (option) atoi_loop :: "view \<Rightarrow> nat \<Rightarrow> u32 \<Rightarrow> bool \<Rightarrow> int \<Rightarrow> (u32 \<times> int) option" where
  "atoi_loop buffer i result sign_set sign =
     (if buffer i = 0 then Some (result, sign)
      else
        let digit = isdigit (schar (buffer i));
            result1 = (if digit then (result + (ucast (buffer i) - 48)) * 10 else result);
            sign_set1 = (sign_set \<or> digit);
            sign1 = (if \<not> sign_set1 \<and> buffer i = 45 then - 1 else sign)
        in atoi_loop buffer (i + 1) result1 sign_set1 sign1)"

definition atoi :: "view \<Rightarrow> u32 option" where
  "atoi buffer =
     (case atoi_loop buffer 0 0 False 1 of None \<Rightarrow> None
      | Some (result, sign) \<Rightarrow> Some (word_of_int (cdiv (sint result) 10 * sign)))"

text \<open>\<open>stroll\<close>: the digit \<open>temp\<close> is used uninitialised, \<open>temp\<close> gives its value in each round; the
  cut-off of a negative number, \<open>-(LLONG_MIN - LLONG_MAX) + LLONG_MAX\<close>, wraps around to \<open>LLONG_MAX - 1\<close>.\<close>

record stroll_result =
  sr_value :: u64
  sr_end :: nat
  sr_errno :: "int option"

partial_function (option) skip_spaces :: "view \<Rightarrow> nat \<Rightarrow> nat option" where
  "skip_spaces str i = (if isspace (schar (str i)) then skip_spaces str (i + 1) else Some i)"

definition stroll_digit :: "int \<Rightarrow> u8 \<Rightarrow> int" where
  "stroll_digit temp c =
     (if isdigit (schar c) then temp + (schar c - 48)
      else if 65 \<le> schar c \<and> schar c \<le> 90 then temp + (65 - schar c)
      else if 97 \<le> schar c \<and> schar c \<le> 122 then temp + (97 - schar c) else temp)"

text \<open>The loop, at the character with index \<open>i\<close>; the result has the index it stops at.\<close>

partial_function (option) stroll_loop ::
  "(nat \<Rightarrow> int) \<Rightarrow> view \<Rightarrow> int \<Rightarrow> u64 \<Rightarrow> u64 \<Rightarrow> nat \<Rightarrow> u64 \<Rightarrow> int \<Rightarrow> (nat \<times> u64 \<times> int) option" where
  "stroll_loop temp str base cutoff cutlim i result did_read_any =
     (if \<not> is_valid_hex (str i) then Some (i, result, did_read_any)
      else
        let t = stroll_digit (temp i) (str i)
        in if base \<le> t then Some (i, result, did_read_any)
           else if did_read_any < 0 \<or> cutoff < result \<or> (result = cutoff \<and> cutlim < word_of_int t)
           then stroll_loop temp str base cutoff cutlim (i + 1) result (- 1)
           else stroll_loop temp str base cutoff cutlim (i + 1) (result * word_of_int base + word_of_int t) 1)"

text \<open>The prefix \<open>0x\<close>, and after it \<open>0b\<close>, which is given the base 16 too.\<close>

definition hex_prefix :: "char \<Rightarrow> char \<Rightarrow> view \<Rightarrow> nat \<times> int \<Rightarrow> nat \<times> int" where
  "hex_prefix x X str ib =
     (case ib of (i, base) \<Rightarrow>
        if (base = 0 \<or> base = 16) \<and> str i = 48 \<and> (str (i + 1) = of_char x \<or> str (i + 1) = of_char X) \<and> is_valid_hex (str (i + 2))
        then (i + 2, 16) else (i, base))"

definition stroll :: "(nat \<Rightarrow> int) \<Rightarrow> view \<Rightarrow> int \<Rightarrow> stroll_result option" where
  "stroll temp start base0 =
     (case skip_spaces start 0 of None \<Rightarrow> None
      | Some i0 \<Rightarrow>
          let neg = (start i0 = 45);
              i1 = (if neg then i0 + 1 else i0);
              (i2, base1) = hex_prefix CHR ''b'' CHR ''B'' start (hex_prefix CHR ''x'' CHR ''X'' start (i1, base0));
              base = (if base1 = 0 then if start i2 = 48 then 8 else 10 else base1)
          in if base < 2 \<or> 36 < base then Some \<lparr>sr_value = - 1, sr_end = 0, sr_errno = Some EINVAL\<rparr>
             else
               let cutoff = (if neg then 0x7FFFFFFFFFFFFFFE else 0x7FFFFFFFFFFFFFFF);
                   cutlim = cutoff mod word_of_int base
               in case stroll_loop temp start base cutoff cutlim i2 0 (- 1) of None \<Rightarrow> None
                  | Some (i, result, did_read_any) \<Rightarrow>
                      Some \<lparr>sr_value = (if did_read_any < 0 then if neg then 0x8000000000000000 else 0x7FFFFFFFFFFFFFFF
                                        else if 0 < did_read_any then - result else result),
                            sr_end = (if 0 < did_read_any then i else 0),
                            sr_errno = (if did_read_any < 0 then Some ERANGE else None)\<rparr>)"

section \<open>The heap\<close>

definition lib_malloc :: "'a heap_state_scheme \<Rightarrow> u32 \<Rightarrow> ('a heap_state_scheme \<times> ptr) option" where
  "lib_malloc s n = map_option (\<lambda>(m, p). (s\<lparr>mem := m\<rparr>, p)) (malloc_loop (mem s) n (first_entry s))"

lemma lib_malloc_kernel: "n \<noteq> 0 \<Longrightarrow> lib_malloc s n = malloc s n"
  by (simp add: lib_malloc_def malloc_def)

section \<open>Printing\<close>

lemma copy_reversed_at:
  assumes "i < length temp" "length temp < 2 ^ 31"
  shows "copy_reversed before m buffer temp (buffer + of_nat i) = rev temp ! i"
proof -
  have "buffer + of_nat i \<noteq> buffer + of_nat (length temp)" using assms by (subst offset_eq_iff) simp_all
  then show ?thesis using assms
    by (simp add: copy_reversed_def Let_def fold_upd_at rev_nth del: add_left_cancel)
qed

lemma copy_reversed_end: "copy_reversed before m buffer temp (buffer + of_nat (length temp)) = 0"
  by (simp add: copy_reversed_def Let_def)

lemma copy_reversed_other:
  "\<forall>i\<le>length temp. a \<noteq> buffer + of_nat i \<Longrightarrow> copy_reversed before m buffer temp a = m a"
  by (simp add: copy_reversed_def Let_def fold_upd_other)

lemma copy_reversed_cstr:
  assumes "0 \<notin> set temp" "length temp < 2 ^ 31"
  shows "cstr_at (copy_reversed before m buffer temp) buffer (rev temp)"
  using assms copy_reversed_at [OF _ assms(2), of _ before m buffer] copy_reversed_end [of before m buffer temp]
  by (auto simp: cstr_at_nth) (metis length_rev nth_mem set_rev)

text \<open>The digit characters in a base up to 36.\<close>

definition digit :: "nat \<Rightarrow> u8" where
  "digit d = digit_char (of_nat d)"

lemma digit_table:
  "map digit [0..<36] = [48, 49, 50, 51, 52, 53, 54, 55, 56, 57, 65, 66, 67, 68, 69, 70, 71, 72, 73, 74, 75, 76, 77, 78,
     79, 80, 81, 82, 83, 84, 85, 86, 87, 88, 89, 90]"
  by (simp add: digit_def digit_char_def upt_rec)

lemma digit_nonzero:
  assumes "d < 36"
  shows "digit d \<noteq> 0"
proof -
  have "digit d \<in> set (map digit [0..<36])" using assms by simp
  then show ?thesis unfolding digit_table by auto
qed

lemma digit_decimal:
  assumes "d < 10"
  shows "digit d = 48 + of_nat d"
proof -
  have "\<forall>d\<in>set [0..<10]. digit d = 48 + of_nat d" by (simp add: digit_def digit_char_def upt_rec)
  then show ?thesis using assms by simp
qed

lemma itoa_digits_numeral:
  "v \<noteq> 0 \<Longrightarrow> 2 \<le> unat radix \<Longrightarrow> rev (itoa_digits radix v) = numeral_of (unat radix) digit (unat v)"
proof (induction radix v rule: itoa_digits.induct)
  case (1 radix v)
  have d: "digit_char (v mod radix) = digit (unat v mod unat radix)"
    by (simp add: digit_def unat_mod [symmetric])
  show ?case
  proof (cases "unat v < unat radix")
    case True
    then have "v div radix = 0" by (simp add: word_unat_eq_iff unat_div)
    then show ?thesis using 1(2,3) d True
      by (simp add: itoa_digits.simps [of radix v] itoa_digits.simps [of radix 0] numeral_of.simps [of _ _ "unat v"])
  next
    case False
    then have "v div radix \<noteq> 0" using 1(3) by (simp add: word_unat_eq_iff unat_div div_eq_0_iff)
    then have "rev (itoa_digits radix (v div radix)) = numeral_of (unat radix) digit (unat v div unat radix)"
      using 1 by (simp add: unat_div)
    then show ?thesis using 1(2,3) d False
      by (subst itoa_digits.simps) (simp add: numeral_of.simps [of _ _ "unat v"])
  qed
qed

lemma numeral_of_cong:
  "(\<And>d. d < base \<Longrightarrow> f d = g d) \<Longrightarrow> 1 < base \<Longrightarrow> numeral_of base f n = numeral_of base g n"
proof (induction base f n rule: numeral_of.induct)
  case (1 base f n)
  have "n mod base < base" using 1(3) by simp
  then show ?case using 1
    by (cases "n < base") (simp_all add: numeral_of.simps [of _ _ n])
qed

lemma numeral_of_length: "1 < base \<Longrightarrow> n < 2 ^ k \<Longrightarrow> length (numeral_of base f n) \<le> Suc k"
proof (induction base f n arbitrary: k rule: numeral_of.induct)
  case (1 base f n)
  show ?case
  proof (cases "n < base")
    case True
    then show ?thesis by (subst numeral_of.simps) simp
  next
    case False
    then obtain j where j: "k = Suc j" using 1(2,3) by (cases k) auto
    have "n div base \<le> n div 2" using 1(2) by (intro div_le_mono2) simp_all
    also have "\<dots> < 2 ^ j" using 1(3) j by (simp add: less_mult_imp_div_less)
    finally have "length (numeral_of base f (n div base)) \<le> Suc j" using 1 False by simp
    then show ?thesis using j False by (subst numeral_of.simps) simp
  qed
qed

text \<open>What \<open>itoa\<close> prints.\<close>

definition itoa_text :: "u32 \<Rightarrow> u32 \<Rightarrow> u8 list" where
  "itoa_text val radix =
     (if radix = 10 then signed_decimal (sint val) else numeral_of (unat radix) digit (unat val))"

lemma decimal_digit: "decimal n = numeral_of 10 digit n"
  unfolding decimal_def by (rule numeral_of_cong) (simp_all add: digit_decimal)

lemma unat_neg: "sint (val :: u32) < 0 \<Longrightarrow> unat (- val) = nat (- sint val)"
proof -
  assume "sint val < 0"
  then have v: "sint val = int (unat val) - 2 ^ 32" "val \<noteq> 0" by (auto simp: sint_u32 split: if_splits)
  have "unat (0 - val) = 2 ^ 32 - unat val" using v(2) by (subst unat_sub_if') (simp add: word_unat_eq_iff)
  moreover have "- sint val = int (2 ^ 32 - unat val)" using v(1) unat_u32_less [of val] by (simp add: of_nat_diff)
  then have "nat (- sint val) = 2 ^ 32 - unat val" by (simp only: nat_int)
  ultimately show ?thesis by simp
qed

lemma sint_cases:
  "unat w < 2147483648 \<and> sint (w :: u32) = int (unat w) \<or> 2147483648 \<le> unat w \<and> sint w = int (unat w) - 4294967296"
  by (cases "unat w < 2 ^ 31") (simp_all add: sint_u32)

lemma nat_sint: "0 \<le> sint (val :: u32) \<Longrightarrow> nat (sint val) = unat val"
proof -
  assume "0 \<le> sint val"
  then have "sint val = int (unat val)" using sint_cases [of val] unat_u32_less [of val] by linarith
  then show "nat (sint val) = unat val" by (simp only: nat_int)
qed

lemma itoa_stores:
  assumes "2 \<le> unat radix" "unat radix \<le> 36"
  shows "\<exists>m'. itoa before m val buffer radix = Some (m', buffer) \<and> cstr_at m' buffer (itoa_text val radix) \<and>
    (\<forall>a. (\<forall>i\<le>length (itoa_text val radix). a \<noteq> buffer + of_nat i) \<longrightarrow> m' a = m a)"
proof (cases "val = 0")
  case True
  have "itoa_text val radix = [48]" using True assms(1)
    by (simp add: itoa_text_def signed_decimal_def decimal_digit numeral_of.simps digit_decimal)
  then show ?thesis using True by (auto simp: itoa_def)
next
  case False
  define sign where "sign = (sint val < 0 \<and> radix = 10)"
  define v where "v = (if sign then - val else val)"
  define temp where "temp = itoa_digits radix v @ (if sign then [45] else [])"
  have "v \<noteq> 0" using False by (auto simp: v_def)
  then have digits: "rev (itoa_digits radix v) = numeral_of (unat radix) digit (unat v)"
    using assms(1) by (rule itoa_digits_numeral)
  have r: "rev temp = (if sign then [45] else []) @ numeral_of (unat radix) digit (unat v)"
    by (simp add: temp_def digits)
  have rtemp: "rev temp = itoa_text val radix"
  proof (cases "radix = 10")
    case True
    then show ?thesis using nat_sint [of val] unat_neg [of val]
      by (cases "sint val < 0") (simp_all only: r itoa_text_def signed_decimal_def decimal_digit sign_def v_def, simp_all)
  next
    case False
    then show ?thesis by (simp only: r itoa_text_def sign_def v_def) simp
  qed
  have "0 \<notin> set (numeral_of (unat radix) digit (unat v))"
    using numeral_of_digits [of "unat radix" 0 digit "unat v"] assms digit_nonzero by force
  then have "0 \<notin> set temp" using digits by (auto simp: temp_def simp flip: set_rev [of "itoa_digits radix v"])
  moreover have "length (numeral_of (unat radix) digit (unat v)) \<le> Suc 32"
    using assms(1) unat_u32_less [of v] by (intro numeral_of_length) simp_all
  then have "length temp < 2 ^ 31" using arg_cong [OF digits, of length] by (simp add: temp_def)
  ultimately have "cstr_at (copy_reversed before m buffer temp) buffer (itoa_text val radix)"
    using copy_reversed_cstr rtemp by metis
  moreover have "itoa before m val buffer radix = Some (copy_reversed before m buffer temp, buffer)"
    using False assms(1) by (simp add: itoa_def sign_def v_def temp_def Let_def)
  moreover have "length temp = length (itoa_text val radix)" using arg_cong [OF rtemp, of length] by simp
  ultimately show ?thesis using copy_reversed_other [of temp _ buffer before m] by auto
qed

section \<open>Reading\<close>

text \<open>The loop of \<open>atoi\<close> over the characters of a string.\<close>

fun atoi_list :: "u8 list \<Rightarrow> u32 \<Rightarrow> bool \<Rightarrow> int \<Rightarrow> u32 \<times> int" where
  "atoi_list [] result sign_set sign = (result, sign)"
| "atoi_list (c # cs) result sign_set sign =
     (let digit = isdigit (schar c) in
      atoi_list cs (if digit then (result + (ucast c - 48)) * 10 else result) (sign_set \<or> digit)
        (if \<not> sign_set \<and> \<not> digit \<and> c = 45 then - 1 else sign))"

lemma atoi_loop_list:
  "cstr_at m (p + of_nat i) cs \<Longrightarrow>
     atoi_loop (view_at m p) i result sign_set sign = Some (atoi_list cs result sign_set sign)"
proof (induction cs arbitrary: i result sign_set sign)
  case Nil
  then show ?case by (subst atoi_loop.simps) (simp add: view_at_def)
next
  case (Cons c cs)
  then have "cstr_at m (p + of_nat (i + 1)) cs" by (simp add: ac_simps)
  note IH = Cons.IH [OF this]
  show ?case using Cons.prems by (subst atoi_loop.simps) (simp add: view_at_def Let_def IH [simplified])
qed

lemma atoi_digit:
  assumes "d < 10"
  shows "atoi_list ((48 + of_nat d) # cs) r s sign = atoi_list cs ((r + of_nat d) * 10) True sign"
proof -
  have "\<forall>d\<in>set [0..<10]. isdigit (schar (48 + of_nat d)) \<and> ucast (48 + of_nat d :: u8) - 48 = (of_nat d :: u32)"
    by (simp add: upt_rec isdigit_def schar_def)
  then show ?thesis using assms by simp
qed

lemma atoi_decimal:
  "atoi_list (decimal n @ cs) 0 s sign = atoi_list cs (of_nat (10 * n)) True sign"
proof (induction n arbitrary: cs rule: less_induct)
  case (less n)
  show ?case
  proof (cases "n < 10")
    case True
    then have "decimal n = [48 + of_nat n]" by (simp add: decimal_def numeral_of.simps)
    then show ?thesis using atoi_digit [OF True, of cs 0] by (simp add: mult.commute)
  next
    case False
    then have "decimal n = decimal (n div 10) @ [48 + of_nat (n mod 10)]"
      by (simp add: decimal_def numeral_of.simps [of _ _ n])
    moreover have "(of_nat (10 * (n div 10)) + of_nat (n mod 10)) * 10 = (of_nat (10 * n) :: u32)"
      unfolding of_nat_add [symmetric] by simp
    ultimately show ?thesis using less.IH [of "n div 10" "(48 + of_nat (n mod 10)) # cs"] False
        atoi_digit [of "n mod 10" cs "of_nat (10 * (n div 10))" True sign]
      by (simp del: atoi_list.simps)
  qed
qed

lemma atoi_signed_decimal:
  "atoi_list (signed_decimal v) 0 False 1 = (of_nat (10 * nat \<bar>v\<bar>), if v < 0 then - 1 else 1)"
proof (cases "v < 0")
  case True
  have "isdigit (schar 45) = False" by (simp add: isdigit_def schar_def)
  then show ?thesis using True atoi_decimal [of "nat (- v)" "[]" False "- 1"] by (simp add: signed_decimal_def)
next
  case False
  then show ?thesis using atoi_decimal [of "nat v" "[]" False 1] by (simp add: signed_decimal_def)
qed

text \<open>The division at the end undoes the last multiplication when this did not wrap around.\<close>

lemma scaled_back:
  assumes "- (2 ^ 31) \<le> v" "v < 2 ^ 31"
  shows "(word_of_int (cdiv (sint (of_nat (10 * nat \<bar>v\<bar>) :: u32)) 10 * (if v < 0 then - 1 else 1)) = (word_of_int v :: u32))
    \<longleftrightarrow> \<bar>v\<bar> \<le> 214748364"
proof -
  define r where "r = sint (of_nat (10 * nat \<bar>v\<bar>) :: u32)"
  define x where "x = cdiv r 10 * (if v < 0 then - 1 else 1)"
  have r: "- (2 ^ 31) \<le> r" "r < 2 ^ 31" unfolding r_def
    using sint_greater_eq [of "of_nat (10 * nat \<bar>v\<bar>) :: u32"] sint_less [of "of_nat (10 * nat \<bar>v\<bar>) :: u32"] by simp_all
  have c: "\<bar>cdiv r 10\<bar> = \<bar>r\<bar> div 10" by (auto simp: cdiv_def abs_mult sgn_if)
  then have x: "\<bar>x\<bar> \<le> 214748364" using r by (auto simp: x_def abs_mult)
  have s: "sint (word_of_int y :: u32) = y" if "- 2147483648 \<le> y" "y < 2147483648" for y
    using that by (simp add: int_word_sint)
  have "sint (word_of_int x :: u32) = x" "sint (word_of_int v :: u32) = v" using x assms by (auto intro!: s)
  then have "word_of_int x = (word_of_int v :: u32) \<longleftrightarrow> x = v" by metis
  moreover have "x = v \<longleftrightarrow> \<bar>v\<bar> \<le> 214748364"
  proof
    assume "\<bar>v\<bar> \<le> 214748364"
    then have "r = 10 * \<bar>v\<bar>" using s [of "10 * \<bar>v\<bar>"] by (simp add: r_def)
    then show "x = v" by (simp add: x_def cdiv_def sgn_if)
  qed (use x in simp)
  ultimately show ?thesis by (simp add: x_def r_def)
qed

text \<open>C22: \<open>itoa\<close> in base 10 stores the decimal numeral of every \<open>int\<close>, NUL-terminated, and nothing else;
  \<open>atoi\<close> returns it, and reads the number back exactly when its absolute value is at most 214748364.\<close>

theorem itoa_atoi:
  "\<exists>m'. itoa before m val buffer 10 = Some (m', buffer) \<and> cstr_at m' buffer (signed_decimal (sint val)) \<and>
    (\<forall>a. (\<forall>i\<le>length (signed_decimal (sint val)). a \<noteq> buffer + of_nat i) \<longrightarrow> m' a = m a) \<and>
    (\<exists>r. atoi (view_at m' buffer) = Some r \<and> (r = val \<longleftrightarrow> \<bar>sint val\<bar> \<le> 214748364))"
proof -
  obtain m' where m': "itoa before m val buffer 10 = Some (m', buffer)" "cstr_at m' buffer (signed_decimal (sint val))"
    "\<forall>a. (\<forall>i\<le>length (signed_decimal (sint val)). a \<noteq> buffer + of_nat i) \<longrightarrow> m' a = m a"
    using itoa_stores [of 10 before m val buffer] by (auto simp: itoa_text_def)
  have v: "- (2 ^ 31) \<le> sint val" "sint val < 2 ^ 31" using sint_greater_eq [of val] sint_less [of val] by simp_all
  have "atoi_loop (view_at m' buffer) 0 0 False 1 = Some (of_nat (10 * nat \<bar>sint val\<bar>), if sint val < 0 then - 1 else 1)"
    using atoi_loop_list [of m' buffer 0 "signed_decimal (sint val)"] m'(2) atoi_signed_decimal by simp
  then have a: "atoi (view_at m' buffer) = Some (word_of_int (cdiv (sint (of_nat (10 * nat \<bar>sint val\<bar>) :: u32)) 10 *
    (if sint val < 0 then - 1 else 1)))" by (simp only: atoi_def option.case prod.case)
  from scaled_back [OF v] have "word_of_int (cdiv (sint (of_nat (10 * nat \<bar>sint val\<bar>) :: u32)) 10 *
    (if sint val < 0 then - 1 else 1)) = val \<longleftrightarrow> \<bar>sint val\<bar> \<le> 214748364" by (simp only: of_int_sint scast_id)
  with a m' show ?thesis by blast
qed

theorem itoa_atoi_witness:
  "\<exists>m'. itoa 1 (\<lambda>_. 7) (- 42) 0x1000 10 = Some (m', 0x1000) \<and> cstr_at m' 0x1000 [45, 52, 50] \<and> m' 0x2000 = 7 \<and>
     atoi (view_at m' 0x1000) = Some (- 42)"
proof -
  have d: "signed_decimal (sint (- 42 :: u32)) = [45, 52, 50]"
    by (simp add: signed_decimal_def decimal_def numeral_of.simps)
  have "\<forall>i\<le>3. (0x2000 :: u32) \<noteq> 0x1000 + of_nat i"
  proof (intro allI impI)
    fix i :: nat assume "i \<le> 3"
    then have "i \<in> {0, 1, 2, 3}" by auto
    then show "(0x2000 :: u32) \<noteq> 0x1000 + of_nat i" by auto
  qed
  then show ?thesis using itoa_atoi [of 1 "\<lambda>_. 7" "- 42" "0x1000"] unfolding d by auto
qed

section \<open>The number parser that reads no numbers\<close>

lemma skip_spaces_stops: "i \<le> n \<Longrightarrow> str n = 0 \<Longrightarrow> \<exists>j\<le>n. skip_spaces str i = Some j"
proof (induction "n - i" arbitrary: i)
  case 0
  then have "i = n" by simp
  then show ?case using 0 by (subst skip_spaces.simps) (simp add: isspace_def schar_def)
next
  case (Suc k)
  then show ?case using Suc.hyps(1) [of "i + 1"] by (subst skip_spaces.simps) auto
qed

lemma hex_nonzero: "is_valid_hex c \<Longrightarrow> c \<noteq> 0"
  by (auto simp: is_valid_hex_def schar_def)

lemma hex_prefix_bound:
  assumes "i \<le> n" "str n = 0" "of_char x \<noteq> (0 :: u8)" "of_char X \<noteq> (0 :: u8)"
  shows "fst (hex_prefix x X str (i, base)) \<le> n"
proof (cases "i + 2 \<le> n")
  case False
  then have "n = i \<or> n = i + 1" using assms(1) by auto
  then show ?thesis using assms by (auto simp: hex_prefix_def dest!: hex_nonzero)
qed (auto simp: hex_prefix_def assms)

text \<open>\<open>did_read_any\<close> starts at -1 and then never changes.\<close>

lemma stroll_loop_negative:
  "i \<le> n \<Longrightarrow> str n = 0 \<Longrightarrow> \<exists>j result'. stroll_loop temp str base cutoff cutlim i result (- 1) = Some (j, result', - 1)"
proof (induction "n - i" arbitrary: i)
  case 0
  then have "\<not> is_valid_hex (str i)" using hex_nonzero [of "str i"] by auto
  then show ?case by (subst stroll_loop.simps) auto
next
  case (Suc k)
  then show ?case using Suc.hyps(1) [of "i + 1"] by (subst stroll_loop.simps) (auto simp: Let_def)
qed

text \<open>On every NUL-terminated string the number parser of the C library returns at the start of the string with
  an error, EINVAL for a base that is none and ERANGE otherwise: it reads no number.\<close>

theorem stroll_reads_nothing:
  assumes "start n = 0"
  shows "\<exists>r. stroll temp start base = Some r \<and> sr_end r = 0 \<and>
    (sr_errno r = Some EINVAL \<and> sr_value r = - 1 \<or>
     sr_errno r = Some ERANGE \<and> sr_value r \<in> {0x8000000000000000, 0x7FFFFFFFFFFFFFFF})"
proof -
  obtain i0 where i0: "i0 \<le> n" "skip_spaces start 0 = Some i0" using skip_spaces_stops [of 0 n start] assms by auto
  define neg where "neg = (start i0 = 45)"
  define i1 where "i1 = (if neg then i0 + 1 else i0)"
  have i1: "i1 \<le> n" using i0(1) assms by (cases "i0 = n") (auto simp: i1_def neg_def)
  obtain i2 base1 where h: "hex_prefix CHR ''x'' CHR ''X'' start (i1, base) = (i2, base1)" by fastforce
  obtain i3 base2 where h': "hex_prefix CHR ''b'' CHR ''B'' start (i2, base1) = (i3, base2)" by fastforce
  have "i2 \<le> n" using hex_prefix_bound [of i1 n start "CHR ''x''" "CHR ''X''" base] i1 h assms by simp
  then have i3: "i3 \<le> n" using hex_prefix_bound [of i2 n start "CHR ''b''" "CHR ''B''" base1] h' assms by simp
  define b where "b = (if base2 = 0 then if start i3 = 48 then 8 else 10 else base2)"
  define cutoff :: u64 where "cutoff = (if neg then 0x7FFFFFFFFFFFFFFE else 0x7FFFFFFFFFFFFFFF)"
  obtain j result where "stroll_loop temp start b cutoff (cutoff mod word_of_int b) i3 0 (- 1) = Some (j, result, - 1)"
    using stroll_loop_negative [of i3 n start, OF i3] assms by blast
  then show ?thesis
    by (simp add: stroll_def i0(2) neg_def [symmetric] i1_def [symmetric] h h' b_def [symmetric] cutoff_def [symmetric] Let_def)
qed

theorem stroll_reads_nothing_witness:
  "\<exists>r. stroll (\<lambda>_. 0) (view_of [52, 50]) 10 = Some r \<and> sr_end r = 0"
  using stroll_reads_nothing [of "view_of [52, 50]" 2 "\<lambda>_. 0" 10] by (auto simp: view_of_def)

end
