(* ===== verification/Wchar.thy ===== *)
theory Wchar
  imports LibString
begin

text \<open>
  \<open>lib/goblibc/src/wchar.c\<close> and \<open>mkinternal.c\<close>: wide characters. The library is built with
  \<open>CURRENT_UTF8\<close> 0, so a character is one byte and a byte above 0x7F is the wide character
  \<open>0xDF80 .. 0xDFFF\<close>; the UTF-8 branches are translated as well. Bytes to convert are the list of
  the \<open>n\<close> bytes at the source; errors are -1 with EILSEQ, an incomplete character is -2.
\<close>

definition CURRENT_UTF8 :: bool where
  "CURRENT_UTF8 = False"

definition MB_CUR_MAX :: nat where
  "MB_CUR_MAX = (if CURRENT_UTF8 then 4 else 1)"

section \<open>Wide characters to bytes\<close>

definition IS_CODEUNIT :: "u32 \<Rightarrow> bool" where
  "IS_CODEUNIT c \<longleftrightarrow> c - 0xDF80 < 0x80"

definition CODEUNIT :: "u8 \<Rightarrow> u32" where
  "CODEUNIT c = 0xDFFF AND scast c"

text \<open>The bytes stored, or \<open>None\<close> for -1 with EILSEQ; the count returned is their number. Without a
  buffer the result is 1 (\<open>wctomb\<close>: 0).\<close>

definition continuation :: "u32 \<Rightarrow> nat \<Rightarrow> u8" where
  "continuation wc k = ucast (0x80 OR (drop_bit k wc AND 0x3F))"

definition wcrtomb :: "u32 \<Rightarrow> u8 list option" where
  "wcrtomb wc =
     (if wc < 0x80 then Some [ucast wc]
      else if MB_CUR_MAX = 1 then if \<not> IS_CODEUNIT wc then None else Some [ucast wc]
      else if wc < 0x800 then Some [ucast (0xC0 OR drop_bit 6 wc), continuation wc 0]
      else if wc < 0xD800 \<or> wc - 0xE000 < 0x2000 then
        Some [ucast (0xE0 OR drop_bit 12 wc), continuation wc 6, continuation wc 0]
      else if wc - 0x10000 < 0x100000 then
        Some [ucast (0xF0 OR drop_bit 18 wc), continuation wc 12, continuation wc 6, continuation wc 0]
      else None)"

definition wctomb :: "u32 \<Rightarrow> u8 list option" where
  "wctomb wc = wcrtomb wc"

section \<open>Bytes to wide characters\<close>

definition R_range :: "u32 \<Rightarrow> u32 \<Rightarrow> u32" where
  "R_range a b = push_bit 23 (if a = 0x80 then 0x40 - b else 0 - a)"

definition bittab_C :: "u32 \<Rightarrow> u32" where
  "bittab_C x = (if x < 2 then - 1 else R_range 0x80 0xC0 OR x)"

definition bittab_E :: "u32 \<Rightarrow> u32" where
  "bittab_E x =
     (if x = 0 then R_range 0xA0 0xC0 else if x = 0xD then R_range 0x80 0xA0 else R_range 0x80 0xC0) OR
     drop_bit 6 (R_range 0x80 0xC0) OR x"

definition bittab_F :: "u32 \<Rightarrow> u32" where
  "bittab_F x =
     (if 5 \<le> x then 0 else if x = 0 then R_range 0x90 0xC0 else if x = 4 then R_range 0x80 0x90 else R_range 0x80 0xC0) OR
     drop_bit 6 (R_range 0x80 0xC0) OR drop_bit 12 (R_range 0x80 0xC0) OR x"

definition bittab :: "u32 list" where
  "bittab = map bittab_C [0x2, 0x3, 0x4, 0x5, 0x6, 0x7, 0x8, 0x9, 0xA, 0xB, 0xC, 0xD, 0xE, 0xF]
     @ map (\<lambda>x. bittab_C (x + 16)) [0x0, 0x1, 0x2, 0x3, 0x4, 0x5, 0x6, 0x7, 0x8, 0x9, 0xA, 0xB, 0xC, 0xD, 0xE, 0xF]
     @ map bittab_E [0x0, 0x1, 0x2, 0x3, 0x4, 0x5, 0x6, 0x7, 0x8, 0x9, 0xA, 0xB, 0xC, 0xD, 0xE, 0xF]
     @ map bittab_F [0x0, 0x1, 0x2, 0x3, 0x4]"

definition OOB_byte :: "u32 \<Rightarrow> u8 \<Rightarrow> bool" where
  "OOB_byte c b \<longleftrightarrow>
     (let b3 = drop_bit 3 (ucast b) :: u32 in ((b3 - 0x10) OR (b3 + signed_drop_bit 26 c)) AND NOT 7 \<noteq> 0)"

text \<open>The result, the wide character if one was stored, and the conversion state left.\<close>

type_synonym mb_result = "int \<times> u32 option \<times> u32"

abbreviation (input) ilseq :: mb_result where
  "ilseq \<equiv> (- 1, None, 0)"

text \<open>The label \<open>loop\<close>, at a byte; \<open>k\<close> bytes were read before it.\<close>

fun mb_loop :: "u32 \<Rightarrow> u8 list \<Rightarrow> nat \<Rightarrow> mb_result" where
  "mb_loop c [] k = (- 2, None, c)"
| "mb_loop c (b # bs) k =
     (let c1 = push_bit 6 c OR (ucast b - 0x80) in
      if c1 AND 0x80000000 = 0 then (int k + 1, Some c1, 0)
      else case bs of [] \<Rightarrow> (- 2, None, c1)
           | b1 # _ \<Rightarrow> if 0x40 \<le> (ucast b1 - 0x80 :: u32) then ilseq else mb_loop c1 bs (k + 1))"

definition mb_continue :: "u32 \<Rightarrow> u8 list \<Rightarrow> nat \<Rightarrow> mb_result" where
  "mb_continue c bs k =
     (case bs of [] \<Rightarrow> (- 2, None, c) | b # _ \<Rightarrow> if OOB_byte c b then ilseq else mb_loop c bs k)"

text \<open>\<open>src\<close> is \<open>None\<close> for a null pointer; \<open>st\<close> is the conversion state.\<close>

definition mbrtowc :: "u8 list option \<Rightarrow> u32 \<Rightarrow> mb_result" where
  "mbrtowc src st =
     (case src of
        None \<Rightarrow> if st \<noteq> 0 then ilseq else (0, None, st)
      | Some [] \<Rightarrow> (- 2, None, st)
      | Some (b # bs) \<Rightarrow>
          if st = 0 then
            if b < 0x80 then (if b \<noteq> 0 then 1 else 0, Some (ucast b), st)
            else if MB_CUR_MAX = 1 then (1, Some (CODEUNIT b), st)
            else if 0xF4 - 0xC2 < (ucast b - 0xC2 :: u32) then ilseq
            else mb_continue (bittab ! unat (ucast b - 0xC2 :: u32)) bs 1
          else mb_continue st (b # bs) 0)"

definition mbsinit :: "u32 option \<Rightarrow> bool" where
  "mbsinit st \<longleftrightarrow> (case st of None \<Rightarrow> True | Some c \<Rightarrow> c = 0)"

lemma codeunits:
  "\<forall>i\<in>set [128..<256]. 0x80 \<le> CODEUNIT (of_nat i) \<and> IS_CODEUNIT (CODEUNIT (of_nat i)) \<and>
     ucast (CODEUNIT (of_nat i)) = (of_nat i :: u8)"
  by (simp add: upt_rec CODEUNIT_def IS_CODEUNIT_def)

text \<open>Every byte is a character: it becomes one wide character, which is converted back to that byte.\<close>

theorem wchar_roundtrip:
  "\<exists>wc. mbrtowc (Some (b # bs)) 0 = (if b = 0 then 0 else 1, Some wc, 0) \<and> wcrtomb wc = Some [b]"
proof (cases "b < 0x80")
  case True
  then have "ucast b < (0x80 :: u32)" by (simp add: word_less_nat_alt unsigned_ucast_eq take_bit_nat_eq_self)
  moreover have "ucast (ucast b :: u32) = b" by (rule bit_word_eqI) (simp add: bit_ucast_iff)
  ultimately show ?thesis using True by (simp add: mbrtowc_def wcrtomb_def)
next
  case False
  define i where "i = unat b"
  have b: "b = of_nat i" by (simp add: i_def)
  have "i \<in> set [128..<256]" using False unat_u8_less [of b]
    by (simp only: set_upt atLeastLessThan_iff) (simp add: i_def word_less_nat_alt)
  with codeunits have "0x80 \<le> CODEUNIT b" "IS_CODEUNIT (CODEUNIT b)" "ucast (CODEUNIT b) = b" unfolding b by blast+
  then show ?thesis using False by (auto simp: mbrtowc_def wcrtomb_def MB_CUR_MAX_def CURRENT_UTF8_def not_less)
qed

end
