(* ===== verification/Format.thy ===== *)
theory Format
  imports GobFile LibStd Wchar
begin

text \<open>
  \<open>lib/goblibc/src/format.c\<close> and \<open>strerror.c\<close>: \<open>gob_sprintf\<close>. The format is the list of its bytes without
  the terminating NUL (peeking behind the end reads 0), the variadic arguments are a list of 32-bit
  words, of which 64-bit values take two and a \<open>long double\<close> three; \<open>None\<close> is an argument that was not
  passed. \<open>Inl\<close> is the return of -1 with \<open>errno\<close> set. \<open>gob_format_float\<close>, the printing of floating
  point numbers, is the parameter \<open>fmt_float\<close>, which theory FloatFormat defines. The file is \<open>NULL\<close> in the first pass over the format:
  \<open>printing\<close> is false.
\<close>

section \<open>Error messages\<close>

definition uprefix :: string where
  "uprefix = ''Unknown error''"

definition sys_errlist :: "string list" where
  "sys_errlist =
     [''No error: 0'', ''Operation not permitted'', ''No such file or directory'', ''No such process'',
       ''Interrupted system call'', ''Input/output error'', ''Device not configured'', ''Argument list too long'',
       ''Exec format error'', ''Bad file descriptor'', ''No child processes'', ''Resource deadlock avoided'',
       ''Cannot allocate memory'', ''Permission denied'', ''Bad address'', ''Block device required'',
       ''Device busy'', ''File exists'', ''Cross-device link'', ''Operation not supported by device'',
       ''Not a directory'', ''Is a directory'', ''Invalid argument'', ''Too many open files in system'',
       ''Too many open files'', ''Inappropriate ioctl for device'', ''Text file busy'', ''File too large'',
       ''No space left on device'', ''Illegal seek'', ''Read-only file system'', ''Too many links'',
       ''Broken pipe'', ''Numerical argument out of domain'', ''Result too large'',
       ''Resource temporarily unavailable'', ''Operation now in progress'', ''Operation already in progress'',
       ''Socket operation on non-socket'', ''Destination address required'', ''Message too long'',
       ''Protocol wrong type for socket'', ''Protocol not available'', ''Protocol not supported'',
       ''Socket type not supported'', ''Operation not supported'', ''Protocol family not supported'',
       ''Address family not supported by protocol family'', ''Address already in use'',
       ''Can't assign requested address'', ''Network is down'', ''Network is unreachable'',
       ''Network dropped connection on reset'', ''Software caused connection abort'',
       ''Connection reset by peer'', ''No buffer space available'', ''Socket is already connected'',
       ''Socket is not connected'', ''Can't send after socket shutdown'', ''Too many references: can't splice'',
       ''Operation timed out'', ''Connection refused'', ''Too many levels of symbolic links'',
       ''File name too long'', ''Host is down'', ''No route to host'', ''Directory not empty'',
       ''Too many processes'', ''Too many users'', ''Disc quota exceeded'', ''Stale NFS file handle'',
       ''Too many levels of remote in path'', ''RPC struct is bad'', ''RPC version wrong'',
       ''RPC prog. not avail'', ''Program version wrong'', ''Bad procedure for program'', ''No locks available'',
       ''Function not implemented'', ''Inappropriate file type or format'', ''Authentication error'',
       ''Need authenticator'', ''Identifier removed'', ''No message of desired type'',
       ''Value too large to be stored in data type'', ''Operation canceled'', ''Illegal byte sequence'',
       ''Attribute not found'', ''Programming error'', ''Bad message'', ''Multihop attempted'',
       ''Link has been severed'', ''Protocol error'', ''Capabilities insufficient'',
       ''Not permitted in capability mode'', ''State not recoverable'', ''Previous owner died'',
       ''Integrity check failed'']
     @ replicate 53 uprefix"

definition strerror :: "int \<Rightarrow> string" where
  "strerror e = sys_errlist ! nat e"

section \<open>Conversion states\<close>

datatype fstate = FS_BARE | FS_LPRE | FS_LLPRE | FS_HPRE | FS_HHPRE | FS_BIGLPRE | FS_ZTPRE | FS_JPRE | FS_STOP
  | FS_PTR | FS_INT | FS_UINT | FS_ULLONG | FS_LONG | FS_ULONG | FS_SHORT | FS_USHORT | FS_CHAR | FS_UCHAR
  | FS_LLONG | FS_SIZET | FS_IMAX | FS_UMAX | FS_PDIFF | FS_UIPTR | FS_DBL | FS_LDBL | FS_NOARG

text \<open>A row of the table: entries that are not given are 0, which is \<open>BARE\<close> and means an error.\<close>

fun table_row :: "(string \<times> fstate) list \<Rightarrow> u8 \<Rightarrow> fstate" where
  "table_row [] c = FS_BARE"
| "table_row ((cs, st) # rows) c = (if c \<in> set (map of_char cs) then st else table_row rows c)"

fun states :: "fstate \<Rightarrow> u8 \<Rightarrow> fstate" where
  "states FS_BARE = table_row [(''di'', FS_INT), (''ouxX'', FS_UINT), (''efgaEGA'', FS_DBL), (''c'', FS_INT),
     (''C'', FS_UINT), (''sS'', FS_PTR), (''p'', FS_UIPTR), (''n'', FS_PTR), (''m'', FS_NOARG), (''l'', FS_LPRE),
     (''h'', FS_HPRE), (''L'', FS_BIGLPRE), (''z'', FS_ZTPRE), (''j'', FS_JPRE), (''t'', FS_ZTPRE)]"
| "states FS_LPRE = table_row [(''di'', FS_LONG), (''ouxX'', FS_ULONG), (''efgaEGA'', FS_DBL), (''c'', FS_UINT),
     (''sn'', FS_PTR), (''l'', FS_LLPRE)]"
| "states FS_LLPRE = table_row [(''di'', FS_LLONG), (''ouxX'', FS_ULLONG), (''n'', FS_PTR)]"
| "states FS_HPRE = table_row [(''di'', FS_SHORT), (''ouxX'', FS_USHORT), (''n'', FS_PTR), (''h'', FS_HHPRE)]"
| "states FS_HHPRE = table_row [(''di'', FS_CHAR), (''ouxX'', FS_UCHAR), (''n'', FS_PTR)]"
| "states FS_BIGLPRE = table_row [(''efgaEGA'', FS_LDBL), (''n'', FS_PTR)]"
| "states FS_ZTPRE = table_row [(''di'', FS_PDIFF), (''ouxX'', FS_SIZET), (''n'', FS_PTR)]"
| "states FS_JPRE = table_row [(''di'', FS_IMAX), (''ouxX'', FS_UMAX), (''n'', FS_PTR)]"
| "states _ = table_row []"

text \<open>\<open>format_state - 1 < STOP\<close>: the row of a prefix follows.\<close>

definition is_prefix :: "fstate \<Rightarrow> bool" where
  "is_prefix st \<longleftrightarrow> st \<in> {FS_LPRE, FS_LLPRE, FS_HPRE, FS_HHPRE, FS_BIGLPRE, FS_ZTPRE, FS_JPRE, FS_STOP}"

definition OOB_char :: "u8 \<Rightarrow> bool" where
  "OOB_char c \<longleftrightarrow> 57 < (scast c - 65 :: u32)"

section \<open>Arguments\<close>

text \<open>\<open>union arg\<close>: the pointer is the low half of the integer, a floating point value is kept as its words.\<close>

record fmt_arg =
  arg_i :: u64
  arg_f :: "u32 list"

definition arg_p :: "fmt_arg \<Rightarrow> ptr" where
  "arg_p a = ucast (arg_i a)"

fun arg_words :: "fstate \<Rightarrow> nat" where
  "arg_words FS_ULLONG = 2" | "arg_words FS_LLONG = 2" | "arg_words FS_IMAX = 2" | "arg_words FS_UMAX = 2"
| "arg_words FS_DBL = 2" | "arg_words FS_LDBL = 3" | "arg_words FS_NOARG = 0"
| "arg_words FS_BARE = 0" | "arg_words FS_LPRE = 0" | "arg_words FS_LLPRE = 0" | "arg_words FS_HPRE = 0" | "arg_words FS_HHPRE = 0"
| "arg_words FS_BIGLPRE = 0" | "arg_words FS_ZTPRE = 0" | "arg_words FS_JPRE = 0" | "arg_words FS_STOP = 0"
| "arg_words _ = 1"

definition u64_of :: "u32 \<Rightarrow> u32 \<Rightarrow> u64" where
  "u64_of lo hi = ucast lo OR push_bit 32 (ucast hi)"

fun arg_value :: "fstate \<Rightarrow> u32 list \<Rightarrow> fmt_arg \<Rightarrow> fmt_arg" where
  "arg_value FS_PTR (w # _) a = a\<lparr>arg_i := ucast w\<rparr>"
| "arg_value FS_INT (w # _) a = a\<lparr>arg_i := scast w\<rparr>"
| "arg_value FS_UINT (w # _) a = a\<lparr>arg_i := ucast w\<rparr>"
| "arg_value FS_LONG (w # _) a = a\<lparr>arg_i := scast w\<rparr>"
| "arg_value FS_ULONG (w # _) a = a\<lparr>arg_i := ucast w\<rparr>"
| "arg_value FS_SHORT (w # _) a = a\<lparr>arg_i := scast (ucast w :: u16)\<rparr>"
| "arg_value FS_USHORT (w # _) a = a\<lparr>arg_i := ucast (ucast w :: u16)\<rparr>"
| "arg_value FS_CHAR (w # _) a = a\<lparr>arg_i := scast (ucast w :: u8)\<rparr>"
| "arg_value FS_UCHAR (w # _) a = a\<lparr>arg_i := ucast (ucast w :: u8)\<rparr>"
| "arg_value FS_SIZET (w # _) a = a\<lparr>arg_i := ucast w\<rparr>"
| "arg_value FS_PDIFF (w # _) a = a\<lparr>arg_i := scast w\<rparr>"
| "arg_value FS_UIPTR (w # _) a = a\<lparr>arg_i := ucast w\<rparr>"
| "arg_value FS_ULLONG (lo # hi # _) a = a\<lparr>arg_i := u64_of lo hi\<rparr>"
| "arg_value FS_LLONG (lo # hi # _) a = a\<lparr>arg_i := u64_of lo hi\<rparr>"
| "arg_value FS_IMAX (lo # hi # _) a = a\<lparr>arg_i := u64_of lo hi\<rparr>"
| "arg_value FS_UMAX (lo # hi # _) a = a\<lparr>arg_i := u64_of lo hi\<rparr>"
| "arg_value FS_DBL (lo # hi # _) a = a\<lparr>arg_f := [lo, hi]\<rparr>"
| "arg_value FS_LDBL (x # y # z # _) a = a\<lparr>arg_f := [x, y, z]\<rparr>"
| "arg_value _ _ a = a"

definition pop_arg :: "fstate \<Rightarrow> fmt_arg \<Rightarrow> u32 list \<Rightarrow> (fmt_arg \<times> u32 list) option" where
  "pop_arg st a args =
     (if length args < arg_words st then None else Some (arg_value st args a, drop (arg_words st) args))"

section \<open>State\<close>

record fmt_state = gob_file +
  fm_fmt :: "u8 list"
  fm_args :: "u32 list"
  fm_nl_arg :: "nat \<Rightarrow> fmt_arg"
  fm_nl_type :: "nat \<Rightarrow> fstate"
  fm_using_position :: bool
  fm_output_count :: int
  fm_len :: int

definition peek :: "fmt_state \<Rightarrow> nat \<Rightarrow> u8" where
  "peek s k = (if k < length (fm_fmt s) then fm_fmt s ! k else 0)"

definition advance :: "nat \<Rightarrow> fmt_state \<Rightarrow> fmt_state" where
  "advance k s = s\<lparr>fm_fmt := drop k (fm_fmt s)\<rparr>"

text \<open>A step fails with \<open>errno\<close> set, or goes on with a result; \<open>None\<close> is undefined behaviour.\<close>

type_synonym 'a result = "(fmt_state + 'a \<times> fmt_state) option"

definition fail :: "int \<Rightarrow> fmt_state \<Rightarrow> 'a result" where
  "fail e s = Some (Inl (s\<lparr>g_errno := e\<rparr>))"

definition ok :: "'a \<Rightarrow> fmt_state \<Rightarrow> 'a result" where
  "ok x s = Some (Inr (x, s))"

definition and_then :: "'a result \<Rightarrow> ('a \<Rightarrow> fmt_state \<Rightarrow> 'b result) \<Rightarrow> 'b result" where
  "and_then r f = (case r of None \<Rightarrow> None | Some (Inl s) \<Rightarrow> Some (Inl s) | Some (Inr (x, s)) \<Rightarrow> f x s)"

definition next_int :: "fmt_state \<Rightarrow> int result" where
  "next_int s = (case fm_args s of [] \<Rightarrow> None | w # ws \<Rightarrow> ok (sint w) (s\<lparr>fm_args := ws\<rparr>))"

section \<open>Flags and numbers of a directive\<close>

abbreviation (input) "ALT_FORM \<equiv> 0x8 :: u32"
abbreviation (input) "ZERO_PAD \<equiv> 0x10000 :: u32"
abbreviation (input) "LEFT_ADJ \<equiv> 0x2000 :: u32"
abbreviation (input) "PAD_POS \<equiv> 0x1 :: u32"
abbreviation (input) "MARK_POS \<equiv> 0x800 :: u32"
abbreviation (input) "GROUPED \<equiv> 0x80 :: u32"
abbreviation (input) "INT_MAX \<equiv> 2147483647 :: int"

definition FLAGMASK :: u32 where
  "FLAGMASK = ALT_FORM OR ZERO_PAD OR LEFT_ADJ OR PAD_POS OR MARK_POS OR GROUPED"

definition is_flag :: "u8 \<Rightarrow> bool" where
  "is_flag c \<longleftrightarrow> (scast c - 32 :: u32) < 32 \<and> bit FLAGMASK (unat (scast c - 32 :: u32))"

fun read_flags :: "u8 list \<Rightarrow> u32 \<Rightarrow> u32 \<times> u8 list" where
  "read_flags [] fl = (fl, [])"
| "read_flags (c # cs) fl =
     (if is_flag c then read_flags cs (fl OR push_bit (unat (scast c - 32 :: u32)) 1) else (fl, c # cs))"

fun getint :: "u8 list \<Rightarrow> int \<Rightarrow> int \<times> u8 list" where
  "getint [] i = (i, [])"
| "getint (c # cs) i =
     (if isdigit (schar c) then
        getint cs (if i < 0 \<or> 214748364 < i \<or> INT_MAX - 10 * i < schar c - 48 then - 1 else 10 * i + (schar c - 48))
      else (i, c # cs))"

text \<open>A position such as \<open>3$\<close> at offset \<open>k\<close>.\<close>

definition position_at :: "fmt_state \<Rightarrow> nat \<Rightarrow> nat option" where
  "position_at s k =
     (if isdigit (schar (peek s k)) \<and> peek s (k + 1) = chr CHR ''$'' then Some (nat (schar (peek s k) - 48)) else None)"

definition to_int :: "u64 \<Rightarrow> int" where
  "to_int i = sint (ucast i :: u32)"

text \<open>The value of \<open>*\<close> for the width and the precision, \<open>k\<close> characters after the current one.\<close>

definition star_value :: "bool \<Rightarrow> nat \<Rightarrow> fmt_state \<Rightarrow> int result" where
  "star_value printing k s =
     (case position_at s k of
        Some n \<Rightarrow>
          if \<not> printing then
            ok 0 (advance (k + 2) (s\<lparr>fm_using_position := True, fm_nl_type := (fm_nl_type s)(n := FS_INT)\<rparr>))
          else ok (to_int (arg_i (fm_nl_arg s n))) (advance (k + 2) (s\<lparr>fm_using_position := True\<rparr>))
      | None \<Rightarrow>
          if \<not> fm_using_position s then
            if printing then and_then (next_int s) (\<lambda>w s. ok w (advance k s)) else ok 0 (advance k s)
          else fail EINVAL s)"

definition read_width :: "bool \<Rightarrow> u32 \<Rightarrow> fmt_state \<Rightarrow> (u32 \<times> int) result" where
  "read_width printing fl s =
     (if peek s 0 = chr CHR ''*'' then
        and_then (star_value printing 1 s) (\<lambda>w s.
          if w < 0 then ok (fl OR LEFT_ADJ, sint (- word_of_int w :: u32)) s else ok (fl, w) s)
      else case getint (fm_fmt s) 0 of (w, rest) \<Rightarrow>
        if w < 0 then fail EOVERFLOW (s\<lparr>fm_fmt := rest\<rparr>) else ok (fl, w) (s\<lparr>fm_fmt := rest\<rparr>))"

text \<open>For the precision a position does not set \<open>using_position\<close>.\<close>

definition read_precision :: "bool \<Rightarrow> fmt_state \<Rightarrow> (int \<times> bool) result" where
  "read_precision printing s =
     (if peek s 0 = chr CHR ''.'' \<and> peek s 1 = chr CHR ''*'' then
        and_then (star_value printing 2 s) (\<lambda>p s'.
          ok (p, 0 \<le> p) (s'\<lparr>fm_using_position := fm_using_position s\<rparr>))
      else if peek s 0 = chr CHR ''.'' then
        (case getint (fm_fmt (advance 1 s)) 0 of (p, rest) \<Rightarrow> ok (p, True) (s\<lparr>fm_fmt := rest\<rparr>))
      else ok (- 1, False) s)"

text \<open>The loop through the table of states: the last two states and the last character.\<close>

fun read_states :: "fstate \<Rightarrow> u8 list \<Rightarrow> (fstate \<times> fstate \<times> u8 \<times> u8 list) option" where
  "read_states st [] = None"
| "read_states st (c # cs) =
     (if OOB_char c then None
      else if is_prefix (states st c) then read_states (states st c) cs
      else Some (states st c, st, c, cs))"

definition read_conversion :: "fmt_state \<Rightarrow> (fstate \<times> fstate \<times> u8) result" where
  "read_conversion s =
     (case read_states FS_BARE (fm_fmt s) of
        None \<Rightarrow> fail EINVAL s
      | Some (st, prev, c, rest) \<Rightarrow> if st = FS_BARE then fail EINVAL s else ok (st, prev, c) (s\<lparr>fm_fmt := rest\<rparr>))"

section \<open>Output\<close>

definition out :: "u8 list \<Rightarrow> 'a gob_file_scheme \<Rightarrow> 'a gob_file_scheme" where
  "out bs s = scan_help_write_str bs s"

text \<open>The field is padded with \<open>l\<close> characters, in pieces of 256, and not with what is missing to \<open>width\<close>.\<close>

function pad_out :: "u8 \<Rightarrow> nat \<Rightarrow> 'a gob_file_scheme \<Rightarrow> 'a gob_file_scheme" where
  "pad_out c l s = (if 256 \<le> l then pad_out c (l - 256) (out (replicate 256 c) s) else out (replicate l c) s)"
  by pat_completeness auto
termination by (relation "measure (\<lambda>(c, l, s). l)") auto

declare pad_out.simps [simp del]

definition pad :: "char \<Rightarrow> int \<Rightarrow> int \<Rightarrow> u32 \<Rightarrow> 'a gob_file_scheme \<Rightarrow> 'a gob_file_scheme" where
  "pad c width l fl s =
     (if fl AND (LEFT_ADJ OR ZERO_PAD) \<noteq> 0 \<or> width \<le> l then s else pad_out (chr c) (nat l) s)"

definition xdigits :: string where
  "xdigits = ''0123456789ABCDEF''"

function gob_format_hex :: "u64 \<Rightarrow> u8 \<Rightarrow> u8 list" where
  "gob_format_hex x lower =
     (if x = 0 then []
      else gob_format_hex (drop_bit 4 x) lower @ [of_char (xdigits ! unat (x AND 15)) OR lower])"
  by pat_completeness auto
termination
  by (relation "measure (\<lambda>(x, lower). unat x)") (auto simp: unat_drop_bit_eq drop_bit_eq_div unat_div unat_gt_0)

function gob_format_octal :: "u64 \<Rightarrow> u8 list" where
  "gob_format_octal x = (if x = 0 then [] else gob_format_octal (drop_bit 3 x) @ [48 + ucast (x AND 7)])"
  by pat_completeness auto
termination
  by (relation "measure unat") (auto simp: unat_drop_bit_eq drop_bit_eq_div unat_div unat_gt_0)

text \<open>The second loop divides 32-bit numbers.\<close>

function format_ulong :: "u32 \<Rightarrow> u8 list" where
  "format_ulong y = (if 10 \<le> y then format_ulong (y div 10) @ [48 + ucast (y mod 10)] else if y \<noteq> 0 then [48 + ucast y] else [])"
  by pat_completeness auto
termination by (relation "measure unat") (auto simp: unat_div word_le_nat_alt)

function gob_format_unsigned :: "u64 \<Rightarrow> u8 list" where
  "gob_format_unsigned v =
     (if 0xFFFFFFFF < v then gob_format_unsigned (v div 10) @ [48 + ucast (v mod 10)] else format_ulong (ucast v))"
  by pat_completeness auto
termination by (relation "measure unat") (auto simp: unat_div word_less_nat_alt)

declare gob_format_hex.simps [simp del] gob_format_octal.simps [simp del] format_ulong.simps [simp del]
  gob_format_unsigned.simps [simp del]

text \<open>What lies between \<open>fmt_start\<close> and \<open>fmt_end\<close>: bytes of a local buffer or literal, or a string in memory.\<close>

datatype piece = Bytes "u8 list" | From ptr nat

fun piece_length :: "piece \<Rightarrow> int" where
  "piece_length (Bytes bs) = int (length bs)"
| "piece_length (From p n) = int n"

fun out_piece :: "piece \<Rightarrow> 'a gob_file_scheme \<Rightarrow> 'a gob_file_scheme" where
  "out_piece (Bytes bs) s = out bs s"
| "out_piece (From p n) s = scan_help_write_from p n s"

text \<open>The end of the loop: the field with its sign or base prefix and its padding.\<close>

definition finish_field :: "u32 \<Rightarrow> int \<Rightarrow> int \<Rightarrow> u8 list \<Rightarrow> piece \<Rightarrow> fmt_state \<Rightarrow> unit result" where
  "finish_field fl width precision0 prefix z s =
     (let n = piece_length z;
          pl = int (length prefix);
          precision = max precision0 n
      in if INT_MAX - pl < precision then fail EOVERFLOW s
         else
           let w = max width (pl + precision)
           in if INT_MAX - fm_output_count s < w then fail EOVERFLOW s
              else
                let s1 = pad CHR '' '' w (pl + precision) fl s;
                    s2 = out prefix s1;
                    s3 = pad CHR ''0'' w (pl + precision) (fl XOR ZERO_PAD) s2;
                    s4 = pad CHR ''0'' precision n 0 s3;
                    s5 = out_piece z s4;
                    s6 = pad CHR '' '' w (pl + precision) (fl XOR LEFT_ADJ) s5
                in ok () (s6\<lparr>fm_len := w\<rparr>))"

section \<open>Conversions\<close>

text \<open>\<open>ifmt_tail\<close>: flags, precision and digits, \<open>None\<close> for an overflow.\<close>

definition integer_tail :: "bool \<Rightarrow> u32 \<Rightarrow> int \<Rightarrow> u64 \<Rightarrow> u8 list \<Rightarrow> (u32 \<times> int \<times> u8 list) option" where
  "integer_tail use_precision fl precision i ds =
     (if use_precision \<and> precision < 0 then None
      else
        let fl' = (if use_precision then fl AND NOT ZERO_PAD else fl)
        in if i = 0 \<and> precision = 0 then Some (fl', precision, [])
           else Some (fl', max precision (int (length ds) + (if i = 0 then 1 else 0)), ds))"

definition finish_integer ::
  "bool \<Rightarrow> u32 \<Rightarrow> int \<Rightarrow> int \<Rightarrow> u64 \<Rightarrow> string \<Rightarrow> u8 list \<Rightarrow> fmt_state \<Rightarrow> unit result" where
  "finish_integer use_precision fl width precision i prefix ds s =
     (case integer_tail use_precision fl precision i ds of None \<Rightarrow> fail EOVERFLOW s
      | Some (fl', precision', ds') \<Rightarrow> finish_field fl' width precision' (map of_char prefix) (Bytes ds') s)"

text \<open>\<open>MAX(precision, 2 * sizeof(void*))\<close> compares unsigned numbers.\<close>

definition convert_hex :: "bool \<Rightarrow> u32 \<Rightarrow> int \<Rightarrow> int \<Rightarrow> u8 \<Rightarrow> u64 \<Rightarrow> fmt_state \<Rightarrow> unit result" where
  "convert_hex use_precision fl width precision t i s =
     (let pointer = (t = chr CHR ''p'');
          precision1 = (if pointer \<and> (word_of_int precision :: u32) \<le> 8 then 8 else precision);
          t1 = (if pointer then chr CHR ''x'' else t);
          fl1 = (if pointer then fl OR ALT_FORM else fl);
          ds = gob_format_hex i (t1 AND 32);
          prefix = (if i \<noteq> 0 \<and> fl1 AND ALT_FORM \<noteq> 0 then if t1 = chr CHR ''x'' then ''0x'' else ''0X'' else [])
      in finish_integer use_precision fl1 width precision1 i prefix ds s)"

definition convert_octal :: "bool \<Rightarrow> u32 \<Rightarrow> int \<Rightarrow> int \<Rightarrow> u64 \<Rightarrow> fmt_state \<Rightarrow> unit result" where
  "convert_octal use_precision fl width precision i s =
     (let ds = gob_format_octal i;
          precision1 = (if fl AND ALT_FORM \<noteq> 0 \<and> precision < int (length ds) + 1 then int (length ds) + 1 else precision)
      in finish_integer use_precision fl width precision1 i [] ds s)"

definition convert_decimal :: "bool \<Rightarrow> u32 \<Rightarrow> int \<Rightarrow> int \<Rightarrow> bool \<Rightarrow> u64 \<Rightarrow> fmt_state \<Rightarrow> unit result" where
  "convert_decimal use_precision fl width precision with_sign i s =
     (let neg = (with_sign \<and> 0x7FFFFFFFFFFFFFFF < i);
          i1 = (if neg then - i else i);
          prefix = (if \<not> with_sign then [] else if neg then ''-'' else if fl AND MARK_POS \<noteq> 0 then ''+''
                    else if fl AND PAD_POS \<noteq> 0 then '' '' else [])
      in finish_integer use_precision fl width precision i1 prefix (gob_format_unsigned i1) s)"

definition convert_char :: "u32 \<Rightarrow> int \<Rightarrow> u64 \<Rightarrow> fmt_state \<Rightarrow> unit result" where
  "convert_char fl width i s = finish_field (fl AND NOT ZERO_PAD) width 1 [] (Bytes [ucast i]) s"

text \<open>\<open>%s\<close> and \<open>%m\<close>; without a precision the string must end within \<open>INT_MAX\<close> bytes.\<close>

definition convert_literal :: "u32 \<Rightarrow> int \<Rightarrow> int \<Rightarrow> string \<Rightarrow> fmt_state \<Rightarrow> unit result" where
  "convert_literal fl width precision str s =
     (let bs = map of_char (if precision < 0 then str else take (nat precision) str)
      in finish_field (fl AND NOT ZERO_PAD) width (int (length bs)) [] (Bytes bs) s)"

definition convert_string :: "u32 \<Rightarrow> int \<Rightarrow> int \<Rightarrow> ptr \<Rightarrow> fmt_state \<Rightarrow> unit result" where
  "convert_string fl width precision p s =
     (if p = NULL then convert_literal fl width precision ''(null)'' s
      else
        let n = strnlen (view_at (g_mem s) p) (if precision < 0 then nat INT_MAX else nat precision)
        in if precision < 0 \<and> g_mem s (p + of_nat n) \<noteq> 0 then fail EOVERFLOW s
           else finish_field (fl AND NOT ZERO_PAD) width (int n) [] (From p n) s)"

text \<open>Wide strings: the character at index \<open>k\<close> is read from memory, or from the local \<open>wc\<close>. The first loop
  measures, the second prints; \<open>precision\<close> is compared as an unsigned number.\<close>

datatype wide = Wide_At ptr | Wide_Char u32

fun wide_at :: "wide \<Rightarrow> bmem \<Rightarrow> nat \<Rightarrow> u32" where
  "wide_at (Wide_At p) m k = load32 m (p + 4 * of_nat k)"
| "wide_at (Wide_Char c) m k = (if k = 0 then c else 0)"

partial_function (option) wide_measure :: "wide \<Rightarrow> bmem \<Rightarrow> u32 \<Rightarrow> nat \<Rightarrow> u32 \<Rightarrow> u32 option option" where
  "wide_measure ws m precision k i =
     (if \<not> i < precision \<or> wide_at ws m k = 0 then Some (Some i)
      else case wctomb (wide_at ws m k) of None \<Rightarrow> Some None
           | Some bs \<Rightarrow> if of_nat (length bs) \<le> precision - i
               then wide_measure ws m precision (k + 1) (i + of_nat (length bs)) else Some (Some i))"

partial_function (option) wide_print :: "wide \<Rightarrow> u32 \<Rightarrow> nat \<Rightarrow> u32 \<Rightarrow> fmt_state \<Rightarrow> fmt_state option" where
  "wide_print ws precision k i s =
     (if \<not> i < precision \<or> wide_at ws (g_mem s) k = 0 then Some s
      else case wctomb (wide_at ws (g_mem s) k) of None \<Rightarrow> None
           | Some bs \<Rightarrow> if i + of_nat (length bs) \<le> precision
               then wide_print ws precision (k + 1) (i + of_nat (length bs)) (out bs s) else Some s)"

definition convert_wide :: "u32 \<Rightarrow> int \<Rightarrow> int \<Rightarrow> wide \<Rightarrow> fmt_state \<Rightarrow> unit result" where
  "convert_wide fl width precision ws s =
     (case wide_measure ws (g_mem s) (word_of_int precision) 0 0 of None \<Rightarrow> None
      | Some None \<Rightarrow> fail EILSEQ s
      | Some (Some i) \<Rightarrow>
          if 0x7FFFFFFF < i then fail EOVERFLOW s
          else
            let p = int (unat i)
            in case wide_print ws i 0 0 (pad CHR '' '' width p fl s) of None \<Rightarrow> None
               | Some s2 \<Rightarrow> ok () ((pad CHR '' '' width p (fl XOR LEFT_ADJ) s2)\<lparr>fm_len := max width p\<rparr>))"

text \<open>\<open>%n\<close> stores the number of characters written.\<close>

definition store_count :: "fstate \<Rightarrow> ptr \<Rightarrow> int \<Rightarrow> bmem \<Rightarrow> bmem" where
  "store_count prev p n m =
     (let lo = word_of_int n :: u32; hi = word_of_int (n div 2 ^ 32) :: u32 in
      if prev \<in> {FS_BARE, FS_LPRE, FS_ZTPRE} then store32 m p lo
      else if prev \<in> {FS_LLPRE, FS_JPRE} then store32 (store32 m p lo) (p + 4) hi
      else if prev = FS_HPRE then m(p := ucast lo, p + 1 := ucast (drop_bit 8 lo))
      else if prev = FS_HHPRE then m(p := ucast lo)
      else m)"

text \<open>What \<open>gob_format_float\<close> does: the words of the value, width, precision, flags, conversion and prefix
  state; the result is its return value, \<open>None\<close> an access outside an array or a loop that does not end.
  Theory FloatFormat has its model.\<close>

type_synonym float_printer = "u32 list \<Rightarrow> int \<Rightarrow> int \<Rightarrow> u32 \<Rightarrow> u8 \<Rightarrow> fstate \<Rightarrow> fmt_state \<Rightarrow> (fmt_state \<times> int) option"

definition convert_float ::
  "float_printer \<Rightarrow> u32 list \<Rightarrow> int \<Rightarrow> int \<Rightarrow> bool \<Rightarrow> u32 \<Rightarrow> u8 \<Rightarrow> fstate \<Rightarrow> fmt_state \<Rightarrow> unit result" where
  "convert_float fmt_float v width precision use_precision fl t prev s =
     (if use_precision \<and> precision < 0 then fail EOVERFLOW s
      else case fmt_float v width precision fl t prev s of None \<Rightarrow> None
      | Some (s1, len) \<Rightarrow> if len < 0 then fail EOVERFLOW s1 else ok () (s1\<lparr>fm_len := len\<rparr>))"

definition is_char :: "string \<Rightarrow> u8 \<Rightarrow> bool" where
  "is_char cs t \<longleftrightarrow> t \<in> set (map of_char cs)"

definition convert ::
  "float_printer \<Rightarrow> fmt_arg \<Rightarrow> u32 \<Rightarrow> int \<Rightarrow> int \<Rightarrow> bool \<Rightarrow> fstate \<Rightarrow> u8 \<Rightarrow> fmt_state \<Rightarrow> unit result" where
  "convert fmt_float a fl0 width precision use_precision prev t0 s =
     (let t = (if prev \<noteq> FS_BARE \<and> t0 AND 15 = 3 then t0 AND NOT 32 else t0);
          fl = (if fl0 AND LEFT_ADJ \<noteq> 0 then fl0 AND NOT ZERO_PAD else fl0)
      in if is_char ''n'' t then ok () (s\<lparr>g_mem := store_count prev (arg_p a) (fm_output_count s) (g_mem s)\<rparr>)
         else if is_char ''pxX'' t then convert_hex use_precision fl width precision t (arg_i a) s
         else if is_char ''o'' t then convert_octal use_precision fl width precision (arg_i a) s
         else if is_char ''di'' t then convert_decimal use_precision fl width precision True (arg_i a) s
         else if is_char ''u'' t then convert_decimal use_precision fl width precision False (arg_i a) s
         else if is_char ''c'' t then convert_char fl width (arg_i a) s
         else if is_char ''m'' t then convert_literal fl width precision (strerror (g_errno s)) s
         else if is_char ''s'' t then convert_string fl width precision (arg_p a) s
         else if is_char ''C'' t then
           if arg_i a = 0 then convert_char fl width (arg_i a) s
           else convert_wide fl width (- 1) (Wide_Char (ucast (arg_i a))) s
         else if is_char ''S'' t then convert_wide fl width precision (Wide_At (arg_p a)) s
         else if is_char ''efgaEFGA'' t then
           convert_float fmt_float (arg_f a) width precision use_precision fl t prev s
         else None)"

section \<open>The loop\<close>

fun percent_pairs :: "u8 list \<Rightarrow> nat" where
  "percent_pairs (c # d # cs) = (if c = 37 \<and> d = 37 then Suc (percent_pairs cs) else 0)"
| "percent_pairs _ = 0"

datatype step = Continue fmt_state | Return fmt_state int

definition returns :: "unit result \<Rightarrow> step option" where
  "returns r = (case r of None \<Rightarrow> None | Some (Inl s) \<Rightarrow> Some (Return s (- 1)) | Some (Inr (_, s)) \<Rightarrow> Some (Continue s))"

text \<open>The rest of a directive, from its modifiers on; \<open>None\<close> inside: the first pass ends with 0.\<close>

definition with_arg :: "bool \<Rightarrow> int \<Rightarrow> fstate \<Rightarrow> fmt_state \<Rightarrow> fmt_arg option result" where
  "with_arg printing arg_pos st s =
     (if st = FS_NOARG then
        if 0 \<le> arg_pos then fail EINVAL s else ok (Some \<lparr>arg_i = 0, arg_f = []\<rparr>) s
      else if 0 \<le> arg_pos then
        if \<not> printing then ok (Some \<lparr>arg_i = 0, arg_f = []\<rparr>) (s\<lparr>fm_nl_type := (fm_nl_type s)(nat arg_pos := st)\<rparr>)
        else ok (Some (fm_nl_arg s (nat arg_pos))) s
      else if printing then
        (case pop_arg st \<lparr>arg_i = 0, arg_f = []\<rparr> (fm_args s) of None \<Rightarrow> None
         | Some (a, args) \<Rightarrow> ok (Some a) (s\<lparr>fm_args := args\<rparr>))
      else ok None s)"

definition directive :: "float_printer \<Rightarrow> bool \<Rightarrow> int \<Rightarrow> fmt_state \<Rightarrow> step option" where
  "directive fmt_float printing arg_pos s =
     (case read_flags (fm_fmt s) 0 of (fl0, rest) \<Rightarrow>
      case and_then (read_width printing fl0 (s\<lparr>fm_fmt := rest\<rparr>)) (\<lambda>(fl, width) s.
           and_then (read_precision printing s) (\<lambda>(precision, use_precision) s.
           and_then (read_conversion s) (\<lambda>(st, prev, t) s.
           and_then (with_arg printing arg_pos st s) (\<lambda>a s. ok (a, fl, width, precision, use_precision, prev, t) s)))) of
        None \<Rightarrow> None
      | Some (Inl s) \<Rightarrow> Some (Return s (- 1))
      | Some (Inr ((None, _), s)) \<Rightarrow> Some (Return s 0)
      | Some (Inr ((Some a, fl, width, precision, use_precision, prev, t), s)) \<Rightarrow>
          if \<not> printing then Some (Continue s)
          else returns (convert fmt_float a fl width precision use_precision prev t s))"

text \<open>After the format: in the first pass the positional arguments are fetched in order.\<close>

definition pop_positional :: "fmt_state \<Rightarrow> fmt_state option" where
  "pop_positional s =
     fold (\<lambda>i r. case r of None \<Rightarrow> None
        | Some s \<Rightarrow>
            (case pop_arg (fm_nl_type s i) (fm_nl_arg s i) (fm_args s) of None \<Rightarrow> None
             | Some (a, args) \<Rightarrow> Some (s\<lparr>fm_nl_arg := (fm_nl_arg s)(i := a), fm_args := args\<rparr>)))
       (takeWhile (\<lambda>i. fm_nl_type s i \<noteq> FS_BARE) [1..<10]) (Some s)"

definition format_end :: "bool \<Rightarrow> fmt_state \<Rightarrow> step option" where
  "format_end printing s =
     (if printing then Some (Return s (fm_output_count s))
      else if \<not> fm_using_position s then Some (Return s 0)
      else case pop_positional s of None \<Rightarrow> None
           | Some s1 \<Rightarrow>
               if \<exists>i\<in>set (dropWhile (\<lambda>i. fm_nl_type s i \<noteq> FS_BARE) [1..<10]). fm_nl_type s i \<noteq> FS_BARE
               then Some (Return (s1\<lparr>g_errno := EINVAL\<rparr>) (- 1))
               else Some (Return s1 1))"

text \<open>One round of the loop.\<close>

definition format_step :: "float_printer \<Rightarrow> bool \<Rightarrow> fmt_state \<Rightarrow> step option" where
  "format_step fmt_float printing s0 =
     (if INT_MAX - fm_output_count s0 < fm_len s0 then Some (Return (s0\<lparr>g_errno := EOVERFLOW\<rparr>) (- 1))
      else
        let s = s0\<lparr>fm_output_count := fm_output_count s0 + fm_len s0\<rparr> in
        if fm_fmt s = [] then format_end printing s
        else
          let run = length (takeWhile (\<lambda>c. c \<noteq> 37) (fm_fmt s));
              pairs = percent_pairs (drop run (fm_fmt s));
              n = run + pairs
          in if INT_MAX - fm_output_count s < int n then
               Some (Return (advance (run + 2 * pairs) s\<lparr>g_errno := EOVERFLOW\<rparr>) (- 1))
             else
               let s1 = (advance (run + 2 * pairs) s)\<lparr>fm_len := int n\<rparr>;
                   s2 = (if printing then out (take n (fm_fmt s)) s1 else s1)
               in if 0 < n then Some (Continue s2)
                  else case position_at s2 1 of
                    Some k \<Rightarrow> directive fmt_float printing (int k) (advance 3 (s2\<lparr>fm_using_position := True\<rparr>))
                  | None \<Rightarrow> directive fmt_float printing (- 1) (advance 1 s2))"

partial_function (option) gob_format_core :: "float_printer \<Rightarrow> bool \<Rightarrow> fmt_state \<Rightarrow> (fmt_state \<times> int) option" where
  "gob_format_core fmt_float printing s =
     (case format_step fmt_float printing s of None \<Rightarrow> None
      | Some (Return s' r) \<Rightarrow> Some (s', r)
      | Some (Continue s') \<Rightarrow> gob_format_core fmt_float printing s')"

text \<open>Both passes use the copy of the argument list, so the second goes on where the first stopped.\<close>

definition start_pass :: "u8 list \<Rightarrow> fmt_state \<Rightarrow> fmt_state" where
  "start_pass fmt s = s\<lparr>fm_fmt := fmt, fm_using_position := False, fm_output_count := 0, fm_len := 0\<rparr>"

definition gob_vfprintf :: "float_printer \<Rightarrow> u8 list \<Rightarrow> u32 list \<Rightarrow> fmt_state \<Rightarrow> (fmt_state \<times> int) option" where
  "gob_vfprintf fmt_float fmt args s =
     (case gob_format_core fmt_float False (start_pass fmt (s\<lparr>fm_args := args, fm_nl_type := \<lambda>_. FS_BARE\<rparr>)) of
        None \<Rightarrow> None
      | Some (s1, r) \<Rightarrow> if r < 0 then Some (s1, - 1) else gob_format_core fmt_float True (start_pass fmt s1))"

text \<open>No NUL is written behind the result.\<close>

definition gob_sprintf :: "float_printer \<Rightarrow> ptr \<Rightarrow> u8 list \<Rightarrow> u32 list \<Rightarrow> fmt_state \<Rightarrow> (fmt_state \<times> int) option" where
  "gob_sprintf fmt_float str fmt args s = gob_vfprintf fmt_float fmt args (scan_help_file_from_string str s)"

end
