(* ===== verification/Render.thy ===== *)
theory Render
  imports Format
begin

text \<open>
  What \<open>gob_sprintf\<close> of \<open>format.c\<close> prints for plain directives: text, \<open>%d\<close>, \<open>%u\<close>, \<open>%x\<close>, \<open>%o\<close>, \<open>%c\<close>
  and \<open>%s\<close> in any number and order. A format is a list of items; the theorem at the end says which bytes
  are written and what is returned. A number is printed as its numeral, but 0 as nothing: \<open>pad\<close> pads an
  empty field with as many characters as the field has.
\<close>

definition directive_chars :: "u8 list" where
  "directive_chars = [100, 117, 120, 111, 99, 115]"

lemma char_class:
  "\<forall>c\<in>set directive_chars. \<not> is_flag c \<and> \<not> isdigit (schar c) \<and> \<not> OOB_char c \<and> c \<noteq> 42 \<and> c \<noteq> 46 \<and> c \<noteq> 36 \<and> c \<noteq> 37 \<and>
     \<not> is_prefix (states FS_BARE c) \<and> states FS_BARE c \<noteq> FS_BARE \<and> states FS_BARE c \<noteq> FS_NOARG \<and> arg_words (states FS_BARE c) = 1"
  by (simp add: directive_chars_def is_flag_def FLAGMASK_def isdigit_def schar_def OOB_char_def is_prefix_def)

lemma step_directive:
  assumes c: "c \<in> set directive_chars" and "fm_fmt s = 37 # c # rest" "fm_args s = w # ws"
    "fm_output_count s + fm_len s \<le> 2147483647" 
  shows "format_step ff True s = returns (convert ff (arg_value (states FS_BARE c) (w # ws) \<lparr>arg_i = 0, arg_f = []\<rparr>) 0 0 (- 1) False FS_BARE c
    (s\<lparr>fm_output_count := fm_output_count s + fm_len s, fm_len := 0, fm_fmt := rest, fm_args := ws\<rparr>))"
proof -
  note cc = bspec [OF char_class c]
  then have c1: "\<not> is_flag c" "\<not> isdigit (schar c)" "\<not> OOB_char c" "c \<noteq> 42" "c \<noteq> 46" "c \<noteq> 36" "c \<noteq> 37"
     "\<not> is_prefix (states FS_BARE c)" "states FS_BARE c \<noteq> FS_BARE" "states FS_BARE c \<noteq> FS_NOARG" "arg_words (states FS_BARE c) = 1" by auto
  have p: "percent_pairs (37 # c # rest) = 0" using c1 by simp
  show ?thesis using assms(2-) c1
    by (simp add: format_step_def p Let_def position_at_def peek_def out_def scan_help_write_str_def advance_def directive_def
        and_then_def read_width_def chr_def ok_def read_precision_def read_conversion_def with_arg_def pop_arg_def)
qed

lemma format_ulong_decimal: "y \<noteq> 0 \<Longrightarrow> format_ulong y = decimal (unat y)"
proof (induction y rule: format_ulong.induct)
  case (1 y)
  have d: "48 + ucast (y mod 10) = (48 + of_nat (unat y mod 10) :: u8)"
    using of_nat_unat [of "y mod 10", where 'a = u8] by (simp add: unat_mod)
  show ?case
  proof (cases "10 \<le> y")
    case True
    then have u: "10 \<le> unat y" by (simp add: word_le_nat_alt)
    then have "y div 10 \<noteq> 0" by (simp add: word_unat_eq_iff unat_div div_eq_0_iff)
    then show ?thesis using 1(1) True d u
      by (subst format_ulong.simps) (simp add: decimal_def numeral_of.simps [of _ _ "unat y"] unat_div)
  next
    case False
    then have u: "unat y < 10" by (simp add: word_le_nat_alt)
    have "48 + ucast y = (48 + of_nat (unat y) :: u8)" by simp
    then show ?thesis using False u 1(2) by (subst format_ulong.simps) (simp add: decimal_def numeral_of.simps)
  qed
qed

lemma gob_format_unsigned_decimal: "v \<noteq> 0 \<Longrightarrow> gob_format_unsigned v = decimal (unat v)"
proof (induction v rule: gob_format_unsigned.induct)
  case (1 v)
  have d: "48 + ucast (v mod 10) = (48 + of_nat (unat v mod 10) :: u8)"
    using of_nat_unat [of "v mod 10", where 'a = u8] by (simp add: unat_mod)
  show ?case
  proof (cases "0xFFFFFFFF < v")
    case True
    then have u: "10 \<le> unat v" by (simp add: word_less_nat_alt)
    then have "v div 10 \<noteq> 0" by (simp add: word_unat_eq_iff unat_div div_eq_0_iff)
    then show ?thesis using 1(1) True d u
      by (subst gob_format_unsigned.simps) (simp add: decimal_def numeral_of.simps [of _ _ "unat v"] unat_div)
  next
    case False
    then have "unat v < 2 ^ 32" by (simp add: word_less_nat_alt)
    then have u: "unat (ucast v :: u32) = unat v" by (simp add: unsigned_ucast_eq take_bit_nat_eq_self)
    then have "(ucast v :: u32) \<noteq> 0" using 1(2) by (simp add: word_unat_eq_iff)
    then show ?thesis using False u by (subst gob_format_unsigned.simps) (simp add: format_ulong_decimal)
  qed
qed

lemma gob_format_unsigned_0 [simp]: "gob_format_unsigned 0 = []"
  by (simp add: gob_format_unsigned.simps format_ulong.simps)

lemma gob_format_octal_0 [simp]: "gob_format_octal 0 = []"
  by (simp add: gob_format_octal.simps)

lemma gob_format_hex_0 [simp]: "gob_format_hex 0 lower = []"
  by (simp add: gob_format_hex.simps)

lemma unat_and_mask: "unat (x AND mask k :: u64) = unat x mod 2 ^ k"
  by (simp only: take_bit_eq_mask [symmetric] unsigned_take_bit_eq) (simp only: take_bit_eq_mod)

lemma unat_drop_bit_div: "unat (drop_bit k (x :: u64)) = unat x div 2 ^ k"
  by (simp only: unat_drop_bit_eq) (simp only: drop_bit_eq_div)

lemma gob_format_octal_numeral: "x \<noteq> 0 \<Longrightarrow> gob_format_octal x = numeral_of 8 (\<lambda>d. 48 + of_nat d) (unat x)"
proof (induction x rule: gob_format_octal.induct)
  case (1 x)
  have "(7 :: u64) = mask 3" by (simp add: mask_numeral)
  then have a: "unat (x AND 7) = unat x mod 8" using unat_and_mask [of x 3] by simp
  have d: "48 + ucast (x AND 7) = (48 + of_nat (unat x mod 8) :: u8)"
    using of_nat_unat [of "x AND 7", where 'a = u8] by (simp add: a)
  have s: "unat (drop_bit 3 x) = unat x div 8" using unat_drop_bit_div [of 3 x] by simp
  show ?case
  proof (cases "unat x < 8")
    case True
    then have "drop_bit 3 x = 0" using s by (simp add: word_unat_eq_iff)
    then show ?thesis using 1(2) True d by (subst gob_format_octal.simps) (simp add: numeral_of.simps)
  next
    case False
    then have "drop_bit 3 x \<noteq> 0" using s by (simp add: word_unat_eq_iff div_eq_0_iff)
    then show ?thesis using 1 False d s
      by (subst gob_format_octal.simps) (simp add: numeral_of.simps [of _ _ "unat x"])
  qed
qed

definition hex_digit :: "nat \<Rightarrow> u8" where
  "hex_digit d = (if d < 10 then 48 else 87) + of_nat d"

lemma hex_digit_table: "d < 16 \<Longrightarrow> of_char (xdigits ! d) OR 32 = hex_digit d"
proof -
  have "list_all (\<lambda>d. of_char (xdigits ! d) OR 32 = hex_digit d) [0..<16]"
    by code_simp
  then show "d < 16 \<Longrightarrow> of_char (xdigits ! d) OR 32 = hex_digit d" by (simp add: list_all_iff)
qed

lemma gob_format_hex_numeral: "x \<noteq> 0 \<Longrightarrow> gob_format_hex x 32 = numeral_of 16 hex_digit (unat x)"
proof (induction x "32 :: u8" rule: gob_format_hex.induct)
  case (1 x)
  have "(15 :: u64) = mask 4" by (simp add: mask_numeral)
  then have a: "unat (x AND 15) = unat x mod 16" using unat_and_mask [of x 4] by simp
  have s: "unat (drop_bit 4 x) = unat x div 16" using unat_drop_bit_div [of 4 x] by simp
  show ?case
  proof (cases "unat x < 16")
    case True
    then have "drop_bit 4 x = 0" using s by (simp add: word_unat_eq_iff)
    then show ?thesis using 1(2) True a by (subst gob_format_hex.simps) (simp add: numeral_of.simps hex_digit_table)
  next
    case False
    then have "drop_bit 4 x \<noteq> 0" using s by (simp add: word_unat_eq_iff div_eq_0_iff)
    then show ?thesis using 1 False a s
      by (subst gob_format_hex.simps) (simp add: numeral_of.simps [of _ _ "unat x"] hex_digit_table)
  qed
qed

lemma out_Nil [simp]: "out [] s = s"
  by (simp add: out_def scan_help_write_str_def)

lemma pad_narrow: "w \<le> l \<Longrightarrow> pad c w l fl s = s"
  by (simp add: pad_def)

text \<open>Padding an empty field prints nothing.\<close>

lemma pad_0: "pad c w 0 fl s = s"
  by (simp add: pad_def pad_out.simps)

lemma finish_field_plain:
  assumes "precision \<le> piece_length z \<or> piece_length z = 0" "m = max precision (piece_length z)"
    "fm_output_count s + int (length prefix) + m \<le> 2147483647" "0 \<le> fm_output_count s"
  shows "finish_field fl 0 precision prefix z s =
    ok () ((out_piece z (out prefix s))\<lparr>fm_len := int (length prefix) + m\<rparr>)"
proof -
  have "0 \<le> piece_length z" by (cases z) simp_all
  then have w: "max 0 (int (length prefix) + m) = int (length prefix) + m" "m = max precision (piece_length z)"
    using assms(2) by simp_all
  have "pad CHR ''0'' m (piece_length z) 0 s' = s'" for s' :: fmt_state
    using assms(1,2) by (cases "piece_length z = 0") (auto simp: pad_0 pad_narrow)
  then show ?thesis using assms(3,4) w(1)
    by (simp add: finish_field_def Let_def w(2) [symmetric] pad_narrow)
qed

text \<open>A number prints its numeral, and 0 prints nothing but counts for one character.\<close>

lemma finish_integer_plain:
  assumes "fm_output_count s + int (length prefix) + max 1 (int (length ds)) \<le> 2147483647" "0 \<le> fm_output_count s"
    "i = 0 \<longleftrightarrow> ds = []"
  shows "finish_integer False fl 0 (- 1) i prefix ds s =
    ok () ((out ds (out (map of_char prefix) s))\<lparr>fm_len := int (length prefix) + max 1 (int (length ds))\<rparr>)"
proof (cases "i = 0")
  case True
  then show ?thesis using assms finish_field_plain [of 1 "Bytes []" 1 s "map of_char prefix" fl]
    by (simp add: finish_integer_def integer_tail_def)
next
  case False
  then have "max 1 (int (length ds)) = int (length ds)" using assms(3) by (cases ds) simp_all
  then show ?thesis using False assms finish_field_plain [of "int (length ds)" "Bytes ds" "int (length ds)" s "map of_char prefix" fl]
    by (simp add: finish_integer_def integer_tail_def max_def)
qed

definition shown :: "(nat \<Rightarrow> u8 list) \<Rightarrow> nat \<Rightarrow> u8 list" where
  "shown num_text n = (if n = 0 then [] else num_text n)"

text \<open>Directives with their arguments: what they look like in the format, what they take from the argument
  list, what they print and how many characters they count.\<close>

datatype item = Text "u8 list" | Decimal u32 | Unsigned u32 | Hex u32 | Octal u32 | Character u32 | String ptr "u8 list"

fun item_format :: "item \<Rightarrow> u8 list" where
  "item_format (Text bs) = bs"
| "item_format (Decimal w) = [37, 100]"
| "item_format (Unsigned w) = [37, 117]"
| "item_format (Hex w) = [37, 120]"
| "item_format (Octal w) = [37, 111]"
| "item_format (Character w) = [37, 99]"
| "item_format (String p bs) = [37, 115]"

fun item_args :: "item \<Rightarrow> u32 list" where
  "item_args (Text bs) = []"
| "item_args (Decimal w) = [w]"
| "item_args (Unsigned w) = [w]"
| "item_args (Hex w) = [w]"
| "item_args (Octal w) = [w]"
| "item_args (Character w) = [w]"
| "item_args (String p bs) = [p]"

fun item_text :: "item \<Rightarrow> u8 list" where
  "item_text (Text bs) = bs"
| "item_text (Decimal w) = (if sint w < 0 then [45] else []) @ shown decimal (nat \<bar>sint w\<bar>)"
| "item_text (Unsigned w) = shown decimal (unat w)"
| "item_text (Hex w) = shown (numeral_of 16 hex_digit) (unat w)"
| "item_text (Octal w) = shown (numeral_of 8 (\<lambda>d. 48 + of_nat d)) (unat w)"
| "item_text (Character w) = [ucast w]"
| "item_text (String p bs) = bs"

fun item_count :: "item \<Rightarrow> int" where
  "item_count (Decimal w) = (if w = 0 then 1 else int (length (item_text (Decimal w))))"
| "item_count (Unsigned w) = max 1 (int (length (item_text (Unsigned w))))"
| "item_count (Hex w) = max 1 (int (length (item_text (Hex w))))"
| "item_count (Octal w) = max 1 (int (length (item_text (Octal w))))"
| "item_count i = int (length (item_text i))"

lemma scast_sint: "unat (ucast (w :: u32) :: u64) = unat w"
  using unat_u32_less [of w] by (simp add: unsigned_ucast_eq take_bit_nat_eq_self)

lemma scast_nonneg: "0 \<le> sint w \<Longrightarrow> (scast (w :: u32) :: u64) = ucast w \<and> unat w = nat \<bar>sint w\<bar>"
proof -
  assume "0 \<le> sint w"
  then have s: "sint w = int (unat w)" using nat_sint [of w] by (simp only: nat_eq_iff)
  have "(scast w :: u64) = word_of_int (sint w)" by (rule scast_eq)
  also have "\<dots> = of_nat (unat w)" by (simp only: s of_int_of_nat_eq)
  also have "\<dots> = of_nat (unat (ucast w :: u64))" by (simp only: scast_sint)
  also have "\<dots> = ucast w" by simp
  finally show ?thesis using s by (simp only: abs_of_nat nat_int)
qed

lemma scast_neg:
  assumes "sint w < 0"
  shows "0x7FFFFFFFFFFFFFFF < (scast (w :: u32) :: u64)" "unat (- (scast w :: u64)) = nat \<bar>sint w\<bar>"
proof -
  define k where "k = nat (- sint w)"
  define v where "v = (scast w :: u64)"
  have k: "int k = - sint w" "0 < k" "k \<le> 2 ^ 31" using sint_greater_eq [of w] assms by (simp_all add: k_def)
  have "- v = word_of_int (- sint w)" unfolding v_def by (simp only: scast_eq of_int_minus)
  also have "\<dots> = of_nat k" by (simp only: k(1) [symmetric] of_int_of_nat_eq)
  finally have m: "- v = of_nat k" .
  have u: "unat (of_nat k :: u64) = k" using k(3) by (simp add: unat_of_nat take_bit_nat_eq_self)
  have a: "nat \<bar>sint w\<bar> = k" using assms by (simp add: k_def)
  have "unat (- v) = nat \<bar>sint w\<bar>" by (simp only: m u a)
  then show "unat (- (scast w :: u64)) = nat \<bar>sint w\<bar>" unfolding v_def .
  have "v = 0 - (- v)" by (simp only: diff_0 minus_minus)
  then have v: "v = 0 - of_nat k" by (simp only: m)
  have "unat (0 - of_nat k :: u64) = 2 ^ 64 - k" using u k(2) by (subst unat_sub_if') simp
  then have "unat v = 2 ^ 64 - k" by (simp only: v)
  moreover have "2 ^ 63 \<le> 2 ^ 64 - k" using k(3) by simp
  ultimately have "2 ^ 63 \<le> unat v" by (simp only:)
  then have "0x7FFFFFFFFFFFFFFF < v" by (simp add: word_less_nat_alt)
  then show "0x7FFFFFFFFFFFFFFF < (scast w :: u64)" unfolding v_def .
qed

lemma bytes_at_snoc: "bytes_at m p (Suc n) = bytes_at m p n @ [m (p + of_nat n)]"
  by (simp add: bytes_at_def)

lemma str_write_from:
  "\<forall>i<n. \<forall>j<n. p + of_nat i \<noteq> g_rpos s + of_nat j \<Longrightarrow>
     scan_help_str_write_from p n s = scan_help_str_write (bytes_at (g_mem s) p n) s"
proof (induction n)
  case 0
  then show ?case by (simp add: scan_help_str_write_from_def scan_help_str_write_def)
next
  case (Suc n)
  have IH: "scan_help_str_write_from p n s = scan_help_str_write (bytes_at (g_mem s) p n) s" using Suc by simp
  have "store_bytes (g_mem s) (g_rpos s) (bytes_at (g_mem s) p n) (p + of_nat n) = g_mem s (p + of_nat n)"
    using Suc.prems by (intro store_bytes_other) auto
  then show ?case using IH
    by (simp add: scan_help_str_write_from_def str_write_store bytes_at_snoc store_bytes_append store_bytes_Cons)
qed

text \<open>Printing a string in memory prints its bytes when the output does not reach them.\<close>

lemma out_string:
  assumes "cstr_at (g_mem s) p bs" "\<forall>i\<le>length bs. \<forall>j<length bs. p + of_nat i \<noteq> g_rpos s + of_nat j"
  shows "out_piece (From p (length bs)) s = out bs s"
proof -
  have "bytes_at (g_mem s) p (length bs) = bs"
    using assms(1) by (intro nth_equalityI) (auto simp: cstr_at_nth)
  then show ?thesis using assms(2)
    by (simp add: out_def scan_help_write_from_def scan_help_write_str_def str_write_from)
qed

lemma strnlen_cstr:
  assumes "cstr_at m p bs" "length bs \<le> n"
  shows "strnlen (view_at m p) n = length bs"
  using assms unfolding strnlen_def by (intro strnlen_from_spec) (auto simp: cstr_at_nth view_at_def)

definition put :: "u8 list \<Rightarrow> int \<Rightarrow> fmt_state \<Rightarrow> fmt_state" where
  "put bs n s = (out bs s)\<lparr>fm_len := n\<rparr>"

lemma out_append: "g_wend s = g_wpos s \<Longrightarrow> out bs' (out bs s) = out (bs @ bs') s"
  by (simp add: out_def write_str_store store_bytes_append add.assoc)

fun item_char :: "item \<Rightarrow> u8" where
  "item_char (Decimal w) = 100" | "item_char (Unsigned w) = 117" | "item_char (Hex w) = 120" | "item_char (Octal w) = 111"
| "item_char (Character w) = 99" | "item_char (String p bs) = 115" | "item_char (Text bs) = 0"

fun item_word :: "item \<Rightarrow> u32" where
  "item_word (Decimal w) = w" | "item_word (Unsigned w) = w" | "item_word (Hex w) = w" | "item_word (Octal w) = w"
| "item_word (Character w) = w" | "item_word (String p bs) = p" | "item_word (Text bs) = 0"

fun item_fits :: "fmt_state \<Rightarrow> item \<Rightarrow> bool" where
  "item_fits s (String p bs) \<longleftrightarrow> p \<noteq> NULL \<and> cstr_at (g_mem s) p bs \<and> (\<forall>i\<le>length bs. \<forall>j<length bs. p + of_nat i \<noteq> g_rpos s + of_nat j)"
| "item_fits s (Text bs) \<longleftrightarrow> False"
| "item_fits s _ \<longleftrightarrow> True"

lemma convert_dispatch:
  "convert ff a 0 0 (- 1) False FS_BARE 100 s = convert_decimal False 0 0 (- 1) True (arg_i a) s"
  "convert ff a 0 0 (- 1) False FS_BARE 117 s = convert_decimal False 0 0 (- 1) False (arg_i a) s"
  "convert ff a 0 0 (- 1) False FS_BARE 120 s = convert_hex False 0 0 (- 1) 120 (arg_i a) s"
  "convert ff a 0 0 (- 1) False FS_BARE 111 s = convert_octal False 0 0 (- 1) (arg_i a) s"
  "convert ff a 0 0 (- 1) False FS_BARE 99 s = convert_char 0 0 (arg_i a) s"
  "convert ff a 0 0 (- 1) False FS_BARE 115 s = convert_string 0 0 (- 1) (arg_p a) s"
  by (simp_all add: convert_def is_char_def)

lemma item_states:
  "states FS_BARE 100 = FS_INT" "states FS_BARE 117 = FS_UINT" "states FS_BARE 120 = FS_UINT" "states FS_BARE 111 = FS_UINT"
  "states FS_BARE 99 = FS_INT" "states FS_BARE 115 = FS_PTR"
  by simp_all

lemma shown_nonzero: "n \<noteq> 0 \<Longrightarrow> shown f n = f n"
  by (simp add: shown_def)

lemma shown_Nil: "shown decimal n = [] \<longleftrightarrow> n = 0" "shown (numeral_of b f) n = [] \<longleftrightarrow> n = 0"
  by (simp_all add: shown_def decimal_def)

lemma ucast_0_iff: "(ucast (w :: u32) :: u64) = 0 \<longleftrightarrow> w = 0"
  by (simp only: word_unat_eq_iff scast_sint unat_0)

lemma format_unsigned_shown: "gob_format_unsigned v = shown decimal (unat v)"
  using gob_format_unsigned_decimal [of v] word_unat_eq_iff [of v 0] by (cases "v = 0") (simp_all add: shown_def)

lemma format_hex_shown: "gob_format_hex v 32 = shown (numeral_of 16 hex_digit) (unat v)"
  using gob_format_hex_numeral [of v] word_unat_eq_iff [of v 0] by (cases "v = 0") (simp_all add: shown_def)

lemma format_octal_shown: "gob_format_octal v = shown (numeral_of 8 (\<lambda>d. 48 + of_nat d)) (unat v)"
  using gob_format_octal_numeral [of v] word_unat_eq_iff [of v 0] by (cases "v = 0") (simp_all add: shown_def)

lemma print_unsigned:
  assumes "fm_output_count s + item_count (Unsigned w) \<le> 2147483647" "0 \<le> fm_output_count s"
  shows "convert_decimal False 0 0 (- 1) False (ucast w) s = ok () (put (item_text (Unsigned w)) (item_count (Unsigned w)) s)"
  using assms finish_integer_plain [of s "[]" "item_text (Unsigned w)" "ucast w" 0]
  by (simp add: convert_decimal_def put_def format_unsigned_shown scast_sint ucast_0_iff shown_Nil word_unat_eq_iff)

lemma print_hex_item:
  assumes "fm_output_count s + item_count (Hex w) \<le> 2147483647" "0 \<le> fm_output_count s"
  shows "convert_hex False 0 0 (- 1) 120 (ucast w) s = ok () (put (item_text (Hex w)) (item_count (Hex w)) s)"
  using assms finish_integer_plain [of s "[]" "item_text (Hex w)" "ucast w" 0]
  by (simp add: convert_hex_def put_def format_hex_shown scast_sint ucast_0_iff shown_Nil word_unat_eq_iff chr_def)

lemma print_octal:
  assumes "fm_output_count s + item_count (Octal w) \<le> 2147483647" "0 \<le> fm_output_count s"
  shows "convert_octal False 0 0 (- 1) (ucast w) s = ok () (put (item_text (Octal w)) (item_count (Octal w)) s)"
  using assms finish_integer_plain [of s "[]" "item_text (Octal w)" "ucast w" 0]
  by (simp add: convert_octal_def put_def format_octal_shown scast_sint ucast_0_iff shown_Nil word_unat_eq_iff)

lemma print_decimal:
  assumes "fm_output_count s + item_count (Decimal w) \<le> 2147483647" "0 \<le> fm_output_count s" "g_wend s = g_wpos s"
  shows "convert_decimal False 0 0 (- 1) True (scast w) s = ok () (put (item_text (Decimal w)) (item_count (Decimal w)) s)"
proof (cases "sint w < 0")
  case True
  note n = scast_neg [OF True]
  have "nat \<bar>sint w\<bar> \<noteq> 0" "w \<noteq> 0" using True by auto
  moreover from this have "shown decimal (nat \<bar>sint w\<bar>) \<noteq> []" by (simp add: shown_Nil)
  then have "max 1 (int (length (shown decimal (nat \<bar>sint w\<bar>)))) = int (length (shown decimal (nat \<bar>sint w\<bar>)))"
    by (cases "shown decimal (nat \<bar>sint w\<bar>)") simp_all
  ultimately show ?thesis using True assms n finish_integer_plain [of s "''-''" "shown decimal (nat \<bar>sint w\<bar>)" "- scast w" 0]
    by (simp add: convert_decimal_def put_def format_unsigned_shown shown_Nil word_unat_eq_iff out_append)
next
  case False
  then have n: "scast w = (ucast w :: u64)" "unat w = nat \<bar>sint w\<bar>" using scast_nonneg [of w] by auto
  have "\<not> 0x7FFFFFFFFFFFFFFF < (ucast w :: u64)" using unat_u32_less [of w] by (simp add: word_less_nat_alt scast_sint)
  then have "convert_decimal False 0 0 (- 1) True (scast w) s
      = finish_integer False 0 0 (- 1) (ucast w) [] (shown decimal (nat \<bar>sint w\<bar>)) s"
    by (simp add: convert_decimal_def n(1) format_unsigned_shown scast_sint n(2))
  moreover have "item_count (Decimal w) = max 1 (int (length (shown decimal (nat \<bar>sint w\<bar>))))"
    using False shown_Nil(1) [of "nat \<bar>sint w\<bar>"] n(2) word_unat_eq_iff [of w 0] by (cases "w = 0"; cases "shown decimal (nat \<bar>sint w\<bar>)") auto
  moreover have "ucast w = (0 :: u64) \<longleftrightarrow> shown decimal (nat \<bar>sint w\<bar>) = []"
    by (simp only: shown_Nil ucast_0_iff n(2) [symmetric]) (simp add: word_unat_eq_iff)
  ultimately show ?thesis using False assms finish_integer_plain [of s "[]" "shown decimal (nat \<bar>sint w\<bar>)" "ucast w" 0]
    by (simp add: put_def)
qed

lemma print_char_item:
  assumes "fm_output_count s + 1 \<le> 2147483647" "0 \<le> fm_output_count s" "ucast i = c"
  shows "convert_char 0 0 i s = ok () (put [c] 1 s)"
  using assms finish_field_plain [of 1 "Bytes [c]" 1 s "[]"] by (simp add: convert_char_def put_def)

lemma print_string_item:
  assumes "fm_output_count s + int (length bs) \<le> 2147483647" "0 \<le> fm_output_count s" "item_fits s (String p bs)"
  shows "convert_string 0 0 (- 1) p s = ok () (put bs (int (length bs)) s)"
proof -
  have "cstr_at (g_mem s) p bs" "p \<noteq> NULL" using assms(3) by simp_all
  moreover have "length bs \<le> 2147483647" using assms(1,2) by linarith
  moreover have "g_mem s (p + of_nat (length bs)) = 0" using assms(3) by (simp add: cstr_at_nth)
  moreover have "out_piece (From p (length bs)) s = out bs s" using assms(3) by (intro out_string) simp_all
  ultimately show ?thesis using assms finish_field_plain [of "int (length bs)" "From p (length bs)" "int (length bs)" s "[]" 0]
    by (simp add: convert_string_def put_def strnlen_cstr)
qed

lemma convert_item:
  assumes "item_fits s it" "g_wend s = g_wpos s" "fm_output_count s + item_count it \<le> 2147483647" "0 \<le> fm_output_count s"
  shows "convert ff (arg_value (states FS_BARE (item_char it)) (item_word it # ws) \<lparr>arg_i = 0, arg_f = []\<rparr>) 0 0 (- 1) False FS_BARE (item_char it) s
    = ok () (put (item_text it) (item_count it) s)"
proof (cases it)
  case (Character w)
  have "ucast (scast w :: u64) = (ucast w :: u8)"
    by (rule bit_word_eqI) (simp add: bit_ucast_iff bit_signed_iff min_def)
  then show ?thesis using Character assms print_char_item [of s "scast w" "ucast w"]
    by (simp del: states.simps add: convert_dispatch item_states)
next
  case (String p bs)
  have "ucast (ucast p :: u64) = p" by (rule bit_word_eqI) (simp add: bit_ucast_iff)
  then show ?thesis using String assms print_string_item [of s bs p]
    by (simp del: states.simps add: convert_dispatch item_states arg_p_def)
qed (use assms print_decimal print_unsigned print_hex_item print_octal in
    \<open>simp_all del: states.simps item_text.simps item_count.simps add: convert_dispatch item_states\<close>)

lemma put_simps [simp]:
  "fm_fmt (put bs n s) = fm_fmt s" "fm_args (put bs n s) = fm_args s" "fm_output_count (put bs n s) = fm_output_count s"
  "fm_len (put bs n s) = n" "g_wend (put bs n s) = g_wend s" "g_wpos (put bs n s) = g_wpos s"
  by (simp_all add: put_def out_def scan_help_write_str_def str_write_store)

lemma put_writes:
  "g_wend s = g_wpos s \<Longrightarrow> g_mem (put bs n s) = store_bytes (g_mem s) (g_rpos s) bs"
  "g_wend s = g_wpos s \<Longrightarrow> g_rpos (put bs n s) = g_rpos s + of_nat (length bs)"
  by (simp_all add: put_def out_def write_str_store)

fun is_text :: "item \<Rightarrow> bool" where
  "is_text (Text bs) = True"
| "is_text _ = False"

fun items_wf :: "item list \<Rightarrow> bool" where
  "items_wf [] = True"
| "items_wf (Text bs # its) = (bs \<noteq> [] \<and> 37 \<notin> set bs \<and> (its = [] \<or> \<not> is_text (hd its)) \<and> items_wf its)"
| "items_wf (_ # its) = items_wf its"

definition items_format :: "item list \<Rightarrow> u8 list" where
  "items_format its = concat (map item_format its)"

definition items_args :: "item list \<Rightarrow> u32 list" where
  "items_args its = concat (map item_args its)"

definition items_text :: "item list \<Rightarrow> u8 list" where
  "items_text its = concat (map item_text its)"

definition items_count :: "item list \<Rightarrow> int" where
  "items_count its = sum_list (map item_count its)"

lemmas items_defs = items_format_def items_args_def items_text_def items_count_def

text \<open>Every string argument is in memory, and \<open>n\<close> bytes from \<open>q\<close> on do not touch it.\<close>

fun item_apart :: "bmem \<Rightarrow> ptr \<Rightarrow> nat \<Rightarrow> item \<Rightarrow> bool" where
  "item_apart m q n (String p bs) \<longleftrightarrow> p \<noteq> NULL \<and> cstr_at m p bs \<and> (\<forall>i\<le>length bs. \<forall>j<n. p + of_nat i \<noteq> q + of_nat j)"
| "item_apart m q n _ \<longleftrightarrow> True"

lemma directive_item: "\<not> is_text it \<Longrightarrow> item_char it \<in> set directive_chars"
  "\<not> is_text it \<Longrightarrow> item_format it = [37, item_char it]" "\<not> is_text it \<Longrightarrow> item_args it = [item_word it]"
  by (cases it; simp add: directive_chars_def)+

lemma item_count_pos: "int (length (item_text it)) \<le> item_count it"
  by (cases it) (auto simp: shown_def)

lemma items_count_pos: "int (length (items_text its)) \<le> items_count its"
proof (induction its)
  case (Cons it its)
  then show ?case using item_count_pos [of it] by (simp add: items_defs)
qed (simp add: items_defs)

lemma item_fits_apart: "\<not> is_text it \<Longrightarrow> item_apart (g_mem s) (g_rpos s) n it \<Longrightarrow> length (item_text it) \<le> n \<Longrightarrow> item_fits s it"
  by (cases it) auto

lemma format_shape: "items_wf its \<Longrightarrow> its = [] \<or> \<not> is_text (hd its) \<Longrightarrow>
  items_format its = [] \<or> (\<exists>c rest. items_format its = 37 # c # rest \<and> c \<noteq> 37)"
  by (cases its; cases "hd its") (auto simp: items_format_def)

lemma pairs_none: "items_wf its \<Longrightarrow> its = [] \<or> \<not> is_text (hd its) \<Longrightarrow> percent_pairs (items_format its) = 0"
  using format_shape by fastforce

definition counted :: "fmt_state \<Rightarrow> fmt_state" where
  "counted s = s\<lparr>fm_output_count := fm_output_count s + fm_len s, fm_len := 0\<rparr>"

lemma step_text:
  assumes "fm_fmt s = bs @ items_format its" "items_wf (Text bs # its)"
    "fm_output_count s + fm_len s + int (length bs) \<le> 2147483647"
  shows "format_step ff printing s = Some (Continue ((if printing then put bs (int (length bs)) else (\<lambda>s. s\<lparr>fm_len := int (length bs)\<rparr>))
    (counted s\<lparr>fm_fmt := items_format its\<rparr>)))"
proof -
  have t: "takeWhile (\<lambda>c. c \<noteq> 37) (bs @ items_format its) = bs"
    using assms(2) format_shape [of its] by (auto simp: takeWhile_append)
  have "percent_pairs (items_format its) = 0" using assms(2) pairs_none by auto
  moreover have "out bs (s'\<lparr>fm_fmt := f, fm_len := n\<rparr>) = put bs n (s'\<lparr>fm_len := 0, fm_fmt := f\<rparr>)" for s' f n
    by (simp add: put_def out_def scan_help_write_str_def str_write_store)
  ultimately show ?thesis using assms
    by (auto simp: format_step_def Let_def t advance_def counted_def)
qed

lemma step_item:
  assumes "fm_fmt s = item_format it @ items_format its" "fm_args s = item_args it @ ws" "items_wf (it # its)"
    "item_apart (g_mem s) (g_rpos s) (length (item_text it)) it" "g_wend s = g_wpos s"
    "0 \<le> fm_output_count s" "0 \<le> fm_len s" "fm_output_count s + fm_len s + item_count it \<le> 2147483647"
  shows "format_step ff True s = Some (Continue (put (item_text it) (item_count it) (counted s\<lparr>fm_fmt := items_format its, fm_args := ws\<rparr>)))"
proof (cases "is_text it")
  case True
  then obtain bs where it: "it = Text bs" by (cases it) auto
  have p: "put bs n (s'\<lparr>fm_len := n'\<rparr>) = put bs n s'" for s' n n'
    by (simp add: put_def out_def scan_help_write_str_def str_write_store)
  have "fm_args s = ws" using assms(2) it by simp
  then have c: "counted s\<lparr>fm_fmt := items_format its, fm_args := ws\<rparr> = counted s\<lparr>fm_fmt := items_format its\<rparr>"
    by (cases s) (simp add: counted_def)
  have "format_step ff True s = Some (Continue (put bs (int (length bs)) (counted s\<lparr>fm_fmt := items_format its\<rparr>)))"
    using assms(1,3,8) step_text [of s bs its ff True] it by simp
  then show ?thesis by (simp only: it item_text.simps item_count.simps p c)
next
  case False
  note d = directive_item [OF False]
  have n: "0 \<le> item_count it" using item_count_pos [of it] by linarith
  let ?s = "counted s\<lparr>fm_fmt := items_format its, fm_args := ws\<rparr>"
  have "format_step ff True s = returns (convert ff (arg_value (states FS_BARE (item_char it)) (item_word it # ws) \<lparr>arg_i = 0, arg_f = []\<rparr>) 0 0 (- 1) False FS_BARE (item_char it) ?s)"
    using step_directive [OF d(1), of s "items_format its" "item_word it" ws ff] assms d(2,3) n
    by (simp del: states.simps add: counted_def)
  moreover have "item_fits ?s it" using False assms by (intro item_fits_apart [of _ _ "length (item_text it)"]) (simp_all add: counted_def)
  ultimately show ?thesis using convert_item [of ?s it ff ws] assms
    by (simp del: states.simps add: returns_def ok_def counted_def)
qed

lemma apart_after:
  assumes "item_apart m q n it" "length bs \<le> n"
  shows "item_apart (store_bytes m q bs) (q + of_nat (length bs)) (n - length bs) it"
proof (cases it)
  case (String p cs)
  then have c: "cstr_at m p cs" and a: "\<And>i j. i \<le> length cs \<Longrightarrow> j < n \<Longrightarrow> p + of_nat i \<noteq> q + of_nat j" using assms(1) by auto
  have "store_bytes m q bs (p + of_nat i) = m (p + of_nat i)" if "i \<le> length cs" for i
    using a [OF that] assms(2) by (intro store_bytes_other) auto
  then have "cstr_at (store_bytes m q bs) p cs" using c unfolding cstr_at_nth by simp
  moreover have "p + of_nat i \<noteq> q + of_nat (length bs) + of_nat j" if "i \<le> length cs" "j < n - length bs" for i j
    using a [OF that(1), of "length bs + j"] that(2) by (simp add: add.assoc)
  ultimately show ?thesis using String assms(1) by simp
qed simp_all

lemma items_Cons:
  "items_format (it # its) = item_format it @ items_format its" "items_args (it # its) = item_args it @ items_args its"
  "items_text (it # its) = item_text it @ items_text its" "items_count (it # its) = item_count it + items_count its"
  by (simp_all add: items_defs)

lemma items_Nil: "items_format [] = []" "items_args [] = []" "items_text [] = []" "items_count [] = 0"
  by (simp_all add: items_defs)

lemma items_wf_tl: "items_wf (it # its) \<Longrightarrow> items_wf its"
  by (cases it) simp_all

text \<open>The printing pass.\<close>

lemma core_renders:
  assumes "items_wf its" "fm_fmt s = items_format its" "fm_args s = items_args its @ ws" "g_wend s = g_wpos s"
    "\<forall>it\<in>set its. item_apart (g_mem s) (g_rpos s) (length (items_text its)) it"
    "0 \<le> fm_output_count s" "0 \<le> fm_len s" "fm_output_count s + fm_len s + items_count its \<le> 2147483647"
  shows "\<exists>s'. gob_format_core ff True s = Some (s', fm_output_count s + fm_len s + items_count its) \<and>
    g_mem s' = store_bytes (g_mem s) (g_rpos s) (items_text its) \<and> g_errno s' = g_errno s"
  using assms
proof (induction its arbitrary: s)
  case Nil
  then show ?case by (subst gob_format_core.simps) (simp add: format_step_def format_end_def items_Nil)
next
  case (Cons it its)
  have n: "0 \<le> item_count it" "int (length (items_text its)) \<le> items_count its"
    using item_count_pos [of it] items_count_pos [of its] by linarith+
  let ?s = "put (item_text it) (item_count it) (counted s\<lparr>fm_fmt := items_format its, fm_args := items_args its @ ws\<rparr>)"
  have a1: "item_apart (g_mem s) (g_rpos s) (length (item_text it)) it"
    using Cons.prems(5) by (cases it) (auto simp: items_Cons)
  have step: "format_step ff True s = Some (Continue ?s)"
    using step_item [of s it its "items_args its @ ws" ff] Cons.prems a1 n by (simp add: items_Cons)
  have m: "g_mem ?s = store_bytes (g_mem s) (g_rpos s) (item_text it)" "g_rpos ?s = g_rpos s + of_nat (length (item_text it))"
    using Cons.prems(4) by (simp_all add: put_writes counted_def)
  have "\<forall>x\<in>set its. item_apart (g_mem ?s) (g_rpos ?s) (length (items_text its)) x"
    using Cons.prems(5) apart_after [of "g_mem s" "g_rpos s" "length (item_text it) + length (items_text its)" _ "item_text it"]
    unfolding m by (simp add: items_Cons)
  moreover have "g_errno ?s = g_errno s" by (simp add: put_def out_def scan_help_write_str_def str_write_store counted_def)
  ultimately have "\<exists>s'. gob_format_core ff True ?s = Some (s', fm_output_count s + fm_len s + items_count (it # its)) \<and>
      g_mem s' = store_bytes (g_mem ?s) (g_rpos ?s) (items_text its) \<and> g_errno s' = g_errno s"
    using Cons.IH [of ?s] Cons.prems n items_wf_tl [of it its]
    by (simp add: items_Cons counted_def add.assoc)
  then show ?case
    by (subst gob_format_core.simps) (simp add: step m items_Cons store_bytes_append)
qed

text \<open>The first pass looks for positional arguments and stops at the first directive.\<close>

lemma first_pass_directive:
  assumes c: "c \<in> set directive_chars" and "fm_fmt s = 37 # c # rest" "fm_output_count s + fm_len s \<le> 2147483647"
  shows "\<exists>s'. gob_format_core ff False s = Some (s', 0) \<and> g_mem s' = g_mem s \<and> g_rpos s' = g_rpos s \<and> fm_args s' = fm_args s \<and>
    g_errno s' = g_errno s \<and> g_wend s' = g_wend s \<and> g_wpos s' = g_wpos s"
proof -
  note cc = bspec [OF char_class c]
  then have c1: "\<not> is_flag c" "\<not> isdigit (schar c)" "\<not> OOB_char c" "c \<noteq> 42" "c \<noteq> 46" "c \<noteq> 36" "c \<noteq> 37"
     "\<not> is_prefix (states FS_BARE c)" "states FS_BARE c \<noteq> FS_BARE" "states FS_BARE c \<noteq> FS_NOARG" by auto
  have p: "percent_pairs (37 # c # rest) = 0" using c1 by simp
  show ?thesis using assms(2-) c1
    by (subst gob_format_core.simps)
      (simp add: format_step_def p Let_def position_at_def peek_def advance_def directive_def
        and_then_def read_width_def chr_def ok_def read_precision_def read_conversion_def with_arg_def)
qed

definition same_output :: "fmt_state \<Rightarrow> fmt_state \<Rightarrow> bool" where
  "same_output s s' \<longleftrightarrow> g_mem s' = g_mem s \<and> g_rpos s' = g_rpos s \<and> fm_args s' = fm_args s \<and>
    g_errno s' = g_errno s \<and> g_wend s' = g_wend s \<and> g_wpos s' = g_wpos s"

lemma first_pass:
  assumes "items_wf its" "fm_fmt s = items_format its" "\<not> fm_using_position s"
    "0 \<le> fm_output_count s" "0 \<le> fm_len s" "fm_output_count s + fm_len s + items_count its \<le> 2147483647"
  shows "\<exists>s'. gob_format_core ff False s = Some (s', 0) \<and> same_output s s'"
proof -
  have stop: "\<exists>s'. gob_format_core ff False s = Some (s', 0) \<and> same_output s s'"
    if "items_wf its" "fm_fmt s = items_format its" "\<not> fm_using_position s" "its = [] \<or> \<not> is_text (hd its)"
      "fm_output_count s + fm_len s \<le> 2147483647" for s its
  proof (cases its)
    case Nil
    then show ?thesis using that
      by (subst gob_format_core.simps) (simp add: format_step_def format_end_def items_Nil same_output_def)
  next
    case (Cons it its')
    then show ?thesis using first_pass_directive [of "item_char it" s "items_format its'" ff] that directive_item [of it]
      by (simp add: items_Cons same_output_def)
  qed
  have n: "0 \<le> items_count its" using items_count_pos [of its] by linarith
  show ?thesis
  proof (cases "its = [] \<or> \<not> is_text (hd its)")
    case True
    then show ?thesis using stop [of its s] assms n by simp
  next
    case False
    then obtain bs its' where its: "its = Text bs # its'" by (cases its; cases "hd its") auto
    have n': "0 \<le> items_count its'" using items_count_pos [of its'] by linarith
    let ?s = "counted s\<lparr>fm_fmt := items_format its', fm_len := int (length bs)\<rparr>"
    have "format_step ff False s = Some (Continue ?s)"
      using step_text [of s bs its' ff False] assms n' its by (simp add: items_Cons)
    moreover have "\<exists>s'. gob_format_core ff False ?s = Some (s', 0) \<and> same_output ?s s'"
      using stop [of its' ?s] assms n' its by (simp add: items_Cons counted_def)
    ultimately show ?thesis by (subst gob_format_core.simps) (simp add: same_output_def counted_def)
  qed
qed

text \<open>C13: for any sequence of text and plain directives whose string arguments the output does not overwrite,
  \<open>gob_sprintf\<close> takes the arguments in order, writes the texts of the items one behind the other at \<open>str\<close> and
  nothing else (no NUL), leaves \<open>errno\<close> alone and returns the sum of the counts of the items.\<close>

theorem sprintf_renders:
  assumes "items_wf its" "items_count its \<le> 2147483647"
    "\<forall>it\<in>set its. item_apart (g_mem s) str (length (items_text its)) it"
  shows "\<exists>s'. gob_sprintf ff str (items_format its) (items_args its @ ws) s = Some (s', items_count its) \<and>
    g_mem s' = store_bytes (g_mem s) str (items_text its) \<and> g_errno s' = g_errno s"
proof -
  let ?s0 = "scan_help_file_from_string str s\<lparr>fm_args := items_args its @ ws, fm_nl_type := \<lambda>_. FS_BARE\<rparr>"
  have "\<exists>s1. gob_format_core ff False (start_pass (items_format its) ?s0) = Some (s1, 0) \<and> same_output (start_pass (items_format its) ?s0) s1"
    using assms by (intro first_pass) (simp_all add: start_pass_def)
  then obtain s1 where s1: "gob_format_core ff False (start_pass (items_format its) ?s0) = Some (s1, 0)"
    "same_output (start_pass (items_format its) ?s0) s1" by blast
  show ?thesis using core_renders [of its "start_pass (items_format its) s1" ws ff] assms s1
    by (simp add: gob_sprintf_def gob_vfprintf_def same_output_def start_pass_def scan_help_file_from_string_def)
qed

theorem sprintf_renders_witness:
  "\<exists>s'. gob_sprintf (\<lambda>_ _ _ _ _ _ s. Some (s, 0)) 1000 [120, 61, 37, 100, 37, 117, 44, 37, 120, 37, 115] [- 25, 0, 255, 500]
       \<lparr>g_mem = (\<lambda>_. 0)(500 := 111, 501 := 107), g_errno = 0, g_buf = 0, g_rpos = 0, g_rend = 0, g_wend = 0, g_wpos = 0,
         g_shend = 0, g_shlim = 0, g_shcnt = 0, fm_fmt = [], fm_args = [], fm_nl_arg = \<lambda>_. \<lparr>arg_i = 0, arg_f = []\<rparr>,
         fm_nl_type = \<lambda>_. FS_BARE, fm_using_position = False, fm_output_count = 0, fm_len = 0\<rparr> = Some (s', 11) \<and>
     map (\<lambda>i. g_mem s' (1000 + of_nat i)) [0..<11] = [120, 61, 45, 50, 53, 44, 102, 102, 111, 107, 0]"
proof -
  let ?its = "[Text [120, 61], Decimal (- 25), Unsigned 0, Text [44], Hex 255, String 500 [111, 107]]"
  let ?s = "\<lparr>g_mem = (\<lambda>_. 0)(500 := 111, 501 := 107), g_errno = 0, g_buf = 0, g_rpos = 0, g_rend = 0, g_wend = 0, g_wpos = 0,
         g_shend = 0, g_shlim = 0, g_shcnt = 0, fm_fmt = [], fm_args = [], fm_nl_arg = \<lambda>_. \<lparr>arg_i = 0, arg_f = []\<rparr>,
         fm_nl_type = \<lambda>_. FS_BARE, fm_using_position = False, fm_output_count = 0, fm_len = 0\<rparr>"
  have t: "items_text ?its = [120, 61, 45, 50, 53, 44, 102, 102, 111, 107]"
    by (simp add: items_text_def shown_def decimal_def numeral_of.simps hex_digit_def)
  have c: "items_count ?its = 11"
    by (simp add: items_count_def shown_def decimal_def numeral_of.simps hex_digit_def)
  have a: "\<forall>it\<in>set ?its. item_apart (g_mem ?s) 1000 (length (items_text ?its)) it"
  proof -
    have n: "(\<forall>i\<le>k. P i) \<longleftrightarrow> list_all P [0..<k + 1]" "(\<forall>j<k. P j) \<longleftrightarrow> list_all P [0..<k]" for P and k :: nat
      by (auto simp: list_all_iff)
    show ?thesis by (simp add: t n upt_rec_numeral)
  qed
  have "items_wf ?its" "items_count ?its \<le> 2147483647" by (simp_all add: c)
  from sprintf_renders [OF this a, of "\<lambda>_ _ _ _ _ _ s. Some (s, 0)" "[]"]
  obtain s' where "gob_sprintf (\<lambda>_ _ _ _ _ _ s. Some (s, 0)) 1000 (items_format ?its) (items_args ?its @ []) ?s = Some (s', 11)"
    "g_mem s' = store_bytes (g_mem ?s) 1000 (items_text ?its)" unfolding c by blast
  moreover have "[0..<11] = [0 :: nat, 1, 2, 3, 4, 5, 6, 7, 8, 9, 10]" by (simp add: upt_conv_Cons)
  ultimately show ?thesis
    by (intro exI [of _ s']) (simp add: t items_format_def items_args_def store_bytes_def upt_rec_numeral)
qed

end
