(* ===== verification/Scan.thy ===== *)
theory Scan
  imports GobFile LibStd Wchar "HOL-Library.Monad_Syntax"
begin

text \<open>
  \<open>lib/goblibc/src/intscan.c\<close> and \<open>scanf.c\<close>: \<open>gob_intscan\<close>, \<open>gob_vfscanf\<close> and \<open>gob_sscanf\<close> over the pseudo file of a
  string. The format is the list of its bytes before the NUL, the variadic arguments (all
  pointers) are a list. \<open>None\<close> is undefined behaviour: a table read outside its bounds, a missing argument, a format that is read
  behind its end, or a loop that does not end. The scanner for floating point numbers (\<open>gob_floatscan\<close>)
  is the parameter \<open>float_scan\<close>.
\<close>

section \<open>Integers\<close>

text \<open>\<open>table\<close>: the values of the digits and letters; index 0 is for EOF.\<close>

definition intscan_table :: "u8 list" where
  "intscan_table = replicate 49 255 @ [0, 1, 2, 3, 4, 5, 6, 7, 8, 9] @ replicate 7 255 @
     [10, 11, 12, 13, 14, 15, 16, 17, 18, 19, 20, 21, 22, 23, 24, 25, 26, 27, 28, 29, 30, 31, 32, 33, 34, 35] @ replicate 6 255 @
     [10, 11, 12, 13, 14, 15, 16, 17, 18, 19, 20, 21, 22, 23, 24, 25, 26, 27, 28, 29, 30, 31, 32, 33, 34, 35] @ replicate 133 255"

definition digit_val :: "int \<Rightarrow> u32 option" where
  "digit_val c = (if -1 \<le> c \<and> c < 256 then Some (ucast (intscan_table ! nat (c + 1))) else None)"

definition below_base :: "u32 \<Rightarrow> int \<Rightarrow> bool option" where
  "below_base base c = map_option (\<lambda>v. v < base) (digit_val c)"

partial_function (option) scan_spaces :: "'a gob_file_scheme \<Rightarrow> ('a gob_file_scheme \<times> int) option" where
  "scan_spaces s = (case scan_help_getc s of (s1, c) \<Rightarrow> if isspace c then scan_spaces s1 else Some (s1, c))"

text \<open>\<open>for (; go; c = scan_help_getc(file)) x = step\<close>\<close>

partial_function (option) scan_while ::
  "(int \<Rightarrow> 'w \<Rightarrow> bool option) \<Rightarrow> (int \<Rightarrow> 'w \<Rightarrow> 'w) \<Rightarrow> int \<Rightarrow> 'w \<Rightarrow> 'a gob_file_scheme \<Rightarrow> ('a gob_file_scheme \<times> int \<times> 'w) option" where
  "scan_while go f c x s =
     (case go c x of None \<Rightarrow> None
      | Some b \<Rightarrow>
          if b then (case scan_help_getc s of (s1, c1) \<Rightarrow> scan_while go f c1 (f c x) s1) else Some (s, c, x))"

definition decimal_digit :: "int \<Rightarrow> bool" where
  "decimal_digit c \<longleftrightarrow> (word_of_int (c - 48) :: u32) < 10"

definition digit_num :: "int \<Rightarrow> 'b::len word" where
  "digit_num c = word_of_int (c - 48)"

definition scan_decimal :: "int \<Rightarrow> 'a gob_file_scheme \<Rightarrow> ('a gob_file_scheme \<times> int \<times> u64) option" where
  "scan_decimal c s = do {
     (s1, c1, x) \<leftarrow> scan_while (\<lambda>c (x :: u32). Some (decimal_digit c \<and> x \<le> 0xFFFFFFFF div 10 - 1))
       (\<lambda>c x. x * 10 + digit_num c) c 0 s;
     scan_while (\<lambda>c y. Some (decimal_digit c \<and> y \<le> 0xFFFFFFFFFFFFFFFF div 10 \<and> 10 * y \<le> 0xFFFFFFFFFFFFFFFF - digit_num c))
       (\<lambda>c y. y * 10 + digit_num c) c1 (ucast x) s1
   }"

text \<open>A value that is known to be in the table.\<close>

definition val_of :: "int \<Rightarrow> u32" where
  "val_of c = the (digit_val c)"

definition digit_and :: "u32 \<Rightarrow> bool \<Rightarrow> int \<Rightarrow> bool option" where
  "digit_and base b c = map_option (\<lambda>d. d \<and> b) (below_base base c)"

definition base_shift :: "u32 \<Rightarrow> nat" where
  "base_shift base = [0, 1, 2, 4, 7, 3, 6, 5] ! unat (drop_bit 5 (0x17 * base) AND 7)"

definition scan_power :: "u32 \<Rightarrow> int \<Rightarrow> 'a gob_file_scheme \<Rightarrow> ('a gob_file_scheme \<times> int \<times> u64) option" where
  "scan_power base c s = do {
     let bs = base_shift base;
     (s1, c1, x) \<leftarrow> scan_while (\<lambda>c (x :: u32). digit_and base (x \<le> 0xFFFFFFFF div 32) c) (\<lambda>c x. push_bit bs x OR val_of c) c 0 s;
     scan_while (\<lambda>c y. digit_and base (y \<le> drop_bit bs 0xFFFFFFFFFFFFFFFF) c) (\<lambda>c y. push_bit bs y OR ucast (val_of c)) c1 (ucast x) s1
   }"

definition scan_other :: "u32 \<Rightarrow> int \<Rightarrow> 'a gob_file_scheme \<Rightarrow> ('a gob_file_scheme \<times> int \<times> u64) option" where
  "scan_other base c s = do {
     (s1, c1, x) \<leftarrow> scan_while (\<lambda>c (x :: u32). digit_and base (x \<le> 0xFFFFFFFF div 36 - 1) c) (\<lambda>c x. x * base + val_of c) c 0 s;
     scan_while (\<lambda>c y. digit_and base (y \<le> 0xFFFFFFFFFFFFFFFF div ucast base \<and> ucast base * y \<le> 0xFFFFFFFFFFFFFFFF - ucast (val_of c)) c)
       (\<lambda>c y. y * ucast base + ucast (val_of c)) c1 (ucast x) s1
   }"

text \<open>The end of the function; \<open>neg\<close> is 0 or -1.\<close>

definition intscan_done :: "u64 \<Rightarrow> u64 \<Rightarrow> u64 \<Rightarrow> 'a gob_file_scheme \<Rightarrow> 'a gob_file_scheme \<times> u64" where
  "intscan_done lim neg y s =
     (let s1 = scan_help_unget s in
      if lim \<le> y \<and> lim AND 1 = 0 \<and> neg = 0 then (s1\<lparr>g_errno := ERANGE\<rparr>, lim - 1)
      else if lim < y then (s1\<lparr>g_errno := ERANGE\<rparr>, lim)
      else (s1, (y XOR neg) - neg))"

definition intscan_overflow :: "u32 \<Rightarrow> u64 \<Rightarrow> u64 \<Rightarrow> u64 \<Rightarrow> int \<Rightarrow> 'a gob_file_scheme \<Rightarrow> ('a gob_file_scheme \<times> u64) option" where
  "intscan_overflow base lim neg y c s =
     (case below_base base c of None \<Rightarrow> None
      | Some digit_left \<Rightarrow>
          if digit_left then
            map_option (\<lambda>(s1, _, _). intscan_done lim (if lim AND 1 \<noteq> 0 then 0 else neg) lim (s1\<lparr>g_errno := ERANGE\<rparr>))
              (scan_while (\<lambda>c _. below_base base c) (\<lambda>_ u. u) c () s)
          else Some (intscan_done lim neg y s))"

definition intscan_digits :: "u32 \<Rightarrow> u64 \<Rightarrow> u64 \<Rightarrow> int \<Rightarrow> 'a gob_file_scheme \<Rightarrow> ('a gob_file_scheme \<times> u64) option" where
  "intscan_digits base lim neg c s =
     (if base = 10 then do {
        (s1, c1, y) \<leftarrow> scan_decimal c s;
        if \<not> decimal_digit c1 then Some (intscan_done lim neg y s1) else intscan_overflow base lim neg y c1 s1
      }
      else do {
        (s1, c1, y) \<leftarrow> (if base AND (base - 1) = 0 then scan_power base c s else scan_other base c s);
        intscan_overflow base lim neg y c1 s1
      })"

definition intscan_body :: "u32 \<Rightarrow> bool \<Rightarrow> u64 \<Rightarrow> u64 \<Rightarrow> int \<Rightarrow> 'a gob_file_scheme \<Rightarrow> ('a gob_file_scheme \<times> u64) option" where
  "intscan_body base pok lim neg c s =
     (if (base = 0 \<or> base = 16) \<and> c = 48 then
        (case scan_help_getc s of (s1, c1) \<Rightarrow>
           if c1 = 120 \<or> c1 = 88 then
             (case scan_help_getc s1 of (s2, c2) \<Rightarrow>
                case below_base 16 c2 of None \<Rightarrow> None
                | Some is_hex \<Rightarrow>
                    if \<not> is_hex then
                      let s3 = scan_help_unget s2
                      in Some (if pok then scan_help_unget s3 else scan_help_lim 0 s3, 0)
                    else intscan_digits 16 lim neg c2 s2)
           else intscan_digits (if base = 0 then 8 else base) lim neg c1 s1)
      else
        let base1 = (if base = 0 then 10 else base) in
        case below_base base1 c of None \<Rightarrow> None
        | Some is_digit \<Rightarrow>
            if \<not> is_digit then Some ((scan_help_lim 0 (scan_help_unget s))\<lparr>g_errno := EINVAL\<rparr>, 0)
            else intscan_digits base1 lim neg c s)"

definition gob_intscan :: "u32 \<Rightarrow> bool \<Rightarrow> u64 \<Rightarrow> 'a gob_file_scheme \<Rightarrow> ('a gob_file_scheme \<times> u64) option" where
  "gob_intscan base pok lim s =
     (if 36 < base \<or> base = 1 then Some (s\<lparr>g_errno := EINVAL\<rparr>, 0)
      else do {
        (s1, c) \<leftarrow> scan_spaces s;
        if c = 43 \<or> c = 45 then
          (case scan_help_getc s1 of (s2, c2) \<Rightarrow> intscan_body base pok lim (if c = 45 then - 1 else 0) c2 s2)
        else intscan_body base pok lim 0 c s1
      })"


section \<open>Formatted input\<close>

text \<open>The sizes of \<open>scanf.c\<close>.\<close>

abbreviation (input) "SIZE_hh \<equiv> - 2 :: int"
abbreviation (input) "SIZE_h \<equiv> - 1 :: int"
abbreviation (input) "SIZE_def \<equiv> 0 :: int"
abbreviation (input) "SIZE_l \<equiv> 1 :: int"
abbreviation (input) "SIZE_L \<equiv> 2 :: int"
abbreviation (input) "SIZE_ll \<equiv> 3 :: int"

definition store_int :: "ptr \<Rightarrow> int \<Rightarrow> u64 \<Rightarrow> bmem \<Rightarrow> bmem" where
  "store_int dest sz i m =
     (if dest = NULL then m
      else if sz = SIZE_hh then m(dest := ucast i)
      else if sz = SIZE_h then m(dest := ucast i, dest + 1 := ucast (drop_bit 8 i))
      else if sz = SIZE_def \<or> sz = SIZE_l then store32 m dest (ucast i)
      else if sz = SIZE_ll then store32 (store32 m dest (ucast i)) (dest + 4) (ucast (drop_bit 32 i))
      else m)"

text \<open>The argument at position \<open>i\<close> of those that are left.\<close>

definition get_arg_at :: "u32 list \<Rightarrow> nat \<Rightarrow> ptr option" where
  "get_arg_at args i = (if i - 1 < length args then Some (args ! (i - 1)) else None)"

record scan_state = gob_file +
  sc_heap :: ptr
  sc_heap_size :: u32
  sc_first_entry :: ptr
  sc_fmt :: "u8 list"
  sc_args :: "u32 list"
  sc_matches :: int
  sc_pos :: int

text \<open>The variables of one directive.\<close>

record scan_dir =
  sd_dest :: ptr
  sd_width :: int
  sd_alloc :: bool
  sd_size :: int
  sd_t :: u8
  sd_s :: ptr
  sd_wide :: ptr

datatype scan_step = Scan_Next scan_state | Scan_Return scan_state int

definition scan_peek :: "scan_state \<Rightarrow> nat \<Rightarrow> u8" where
  "scan_peek s k = (if k < length (sc_fmt s) then sc_fmt s ! k else 0)"

definition skip :: "nat \<Rightarrow> scan_state \<Rightarrow> scan_state" where
  "skip k s = s\<lparr>sc_fmt := drop k (sc_fmt s)\<rparr>"

text \<open>\<open>fmt_ptr++\<close> of the loop, after the last character of a directive: not past the NUL.\<close>

definition next_directive :: "scan_state \<Rightarrow> scan_step option" where
  "next_directive s = (if sc_fmt s = [] then None else Some (Scan_Next (skip 1 s)))"

text \<open>The heap functions on the memory of the file.\<close>

definition heap_of :: "scan_state \<Rightarrow> heap_state" where
  "heap_of s = \<lparr>heap = sc_heap s, heap_size = sc_heap_size s, first_entry = sc_first_entry s, mem = g_mem s\<rparr>"

definition with_heap :: "(heap_state \<Rightarrow> (heap_state \<times> ptr) option) \<Rightarrow> scan_state \<Rightarrow> (scan_state \<times> ptr) option" where
  "with_heap f s = map_option (\<lambda>(h, p). (s\<lparr>g_mem := mem h\<rparr>, p)) (f (heap_of s))"

definition scan_free :: "ptr \<Rightarrow> scan_state \<Rightarrow> scan_state option" where
  "scan_free p s = map_option (\<lambda>h. s\<lparr>g_mem := mem h\<rparr>) (free (heap_of s) p)"

text \<open>The labels at the end.\<close>

definition match_fail :: "scan_dir \<Rightarrow> scan_state \<Rightarrow> scan_step option" where
  "match_fail d s =
     (if sd_alloc d then do {
        s1 \<leftarrow> scan_free (sd_s d) s;
        s2 \<leftarrow> scan_free (sd_wide d) s1;
        Some (Scan_Return s2 (sc_matches s2))
      }
      else Some (Scan_Return s (sc_matches s)))"

definition input_fail :: "scan_dir \<Rightarrow> scan_state \<Rightarrow> scan_step option" where
  "input_fail d s = match_fail d (if sc_matches s = 0 then s\<lparr>sc_matches := - 1\<rparr> else s)"

definition no_dir :: scan_dir where
  "no_dir = \<lparr>sd_dest = NULL, sd_width = 0, sd_alloc = False, sd_size = 0, sd_t = 0, sd_s = NULL, sd_wide = NULL\<rparr>"

text \<open>White space in the format, and a character that must be there.\<close>

definition skip_white :: "scan_state \<Rightarrow> scan_state option" where
  "skip_white s = map_option (\<lambda>(s1, _). let s2 = scan_help_unget s1 in s2\<lparr>sc_pos := sc_pos s2 + scan_help_cnt s2\<rparr>)
     (scan_spaces (scan_help_lim 0 s))"

definition literal_char :: "scan_state \<Rightarrow> scan_step option" where
  "literal_char s0 = do {
     (s, c) \<leftarrow> (if scan_peek s0 0 = chr CHR ''%'' then scan_spaces (scan_help_lim 0 (skip 1 s0))
       else Some (scan_help_getc (scan_help_lim 0 s0)));
     if c \<noteq> uint (scan_peek s 0) then
       let s1 = scan_help_unget s in if c < 0 then input_fail no_dir s1 else match_fail no_dir s1
     else next_directive (s\<lparr>sc_pos := sc_pos s + scan_help_cnt s\<rparr>)
   }"

text \<open>The beginning of a directive.\<close>

definition read_dest :: "scan_state \<Rightarrow> (scan_state \<times> ptr) option" where
  "read_dest s =
     (if scan_peek s 0 = chr CHR ''*'' then Some (skip 1 s, NULL)
      else if isdigit (uint (scan_peek s 0)) \<and> scan_peek s 1 = chr CHR ''$'' then
        map_option (Pair (skip 2 s)) (get_arg_at (sc_args s) (nat (uint (scan_peek s 0) - 48)))
      else (case sc_args s of [] \<Rightarrow> None | p # ps \<Rightarrow> Some (s\<lparr>sc_args := ps\<rparr>, p)))"

fun read_scan_width :: "u8 list \<Rightarrow> int \<Rightarrow> int \<times> u8 list" where
  "read_scan_width [] w = (w, [])"
| "read_scan_width (c # cs) w = (if isdigit (uint c) then read_scan_width cs (10 * w + uint c - 48) else (w, c # cs))"

text \<open>The size, and how many characters it takes; \<open>None\<close> is the label \<open>fmt_fail\<close>.\<close>

definition read_size :: "scan_state \<Rightarrow> (int \<times> nat) option" where
  "read_size s =
     (let c = scan_peek s 0 in
      if c = chr CHR ''h'' then if scan_peek s 1 = chr CHR ''h'' then Some (SIZE_hh, 2) else Some (SIZE_h, 1)
      else if c = chr CHR ''l'' then if scan_peek s 1 = chr CHR ''l'' then Some (SIZE_ll, 2) else Some (SIZE_l, 1)
      else if c = chr CHR ''j'' then Some (SIZE_ll, 1)
      else if c = chr CHR ''z'' \<or> c = chr CHR ''t'' then Some (SIZE_l, 1)
      else if c = chr CHR ''L'' then Some (SIZE_L, 1)
      else if c \<in> set (map of_char ''diouxaefgAEFGXsc[SCpn'') then Some (SIZE_def, 0)
      else None)"

text \<open>Sets of characters: \<open>scanset\<close> has 257 entries, index 0 is for EOF.\<close>

definition scanset_add :: "nat \<Rightarrow> u8 \<Rightarrow> u8 list \<Rightarrow> u8 list" where
  "scanset_add c v cset = cset[1 + c := v]"

definition scanset_for :: "u8 \<Rightarrow> u8 list" where
  "scanset_for t =
     (let cset = (replicate 257 255)[0 := 0]
      in if t = chr CHR ''s'' then fold (\<lambda>c. scanset_add c 0) [9, 10, 11, 12, 13, 32] cset else cset)"

text \<open>The loop up to \<open>]\<close>: \<open>prev\<close> is the character before the current one; \<open>None\<close> when the format ends.\<close>

fun scanset_loop :: "u8 \<Rightarrow> u8 \<Rightarrow> u8 list \<Rightarrow> u8 list \<Rightarrow> (u8 list \<times> u8 list) option" where
  "scanset_loop iv prev [] cset = None"
| "scanset_loop iv prev (c # cs) cset =
     (if c = chr CHR '']'' then Some (cset, c # cs)
      else case cs of
        d # ds \<Rightarrow>
          if c = chr CHR ''-'' \<and> d \<noteq> chr CHR '']'' then
            scanset_loop iv d ds (scanset_add (unat d) (1 - iv) (fold (\<lambda>k. scanset_add k (1 - iv)) [unat prev..<unat d] cset))
          else scanset_loop iv c cs (scanset_add (unat c) (1 - iv) cset)
      | [] \<Rightarrow> scanset_loop iv c cs (scanset_add (unat c) (1 - iv) cset))"

text \<open>The format is at \<open>[\<close>; afterwards it is at \<open>]\<close>.\<close>

definition read_scanset :: "u8 list \<Rightarrow> (u8 list \<times> u8 list) option" where
  "read_scanset fmt =
     (let inverted = (case drop 1 fmt of c # _ \<Rightarrow> c = chr CHR ''^'' | [] \<Rightarrow> False);
          iv = (if inverted then 1 else 0);
          before = (if inverted then chr CHR ''^'' else chr CHR ''['');
          rest = drop (if inverted then 2 else 1) fmt;
          cset = (replicate 257 iv)[0 := 0]
      in case rest of
        c # cs \<Rightarrow>
          if c = chr CHR ''-'' \<or> c = chr CHR '']'' then scanset_loop iv c cs (scanset_add (unat c) (1 - iv) cset)
          else scanset_loop iv before rest cset
      | [] \<Rightarrow> None)"

definition in_scanset :: "u8 list \<Rightarrow> int \<Rightarrow> bool option" where
  "in_scanset cset c = (if - 1 \<le> c \<and> c < 256 then Some (cset ! nat (c + 1) \<noteq> 0) else None)"

text \<open>Reading characters of the set: to nowhere, to a string, to a string that grows, to a wide string.\<close>

partial_function (option) read_set :: "u8 list \<Rightarrow> ptr \<Rightarrow> nat \<Rightarrow> scan_state \<Rightarrow> (scan_state \<times> nat) option" where
  "read_set cset p i s =
     (case scan_help_getc s of (s1, c) \<Rightarrow>
        case in_scanset cset c of None \<Rightarrow> None
        | Some b \<Rightarrow>
            if b then read_set cset p (i + 1) (if p = NULL then s1 else s1\<lparr>g_mem := (g_mem s1)(p + of_nat i := word_of_int c)\<rparr>)
            else Some (s1, i))"

text \<open>The flag is set when an allocation fails.\<close>

partial_function (option) read_set_alloc ::
  "u8 list \<Rightarrow> ptr \<Rightarrow> nat \<Rightarrow> nat \<Rightarrow> scan_state \<Rightarrow> (scan_state \<times> ptr \<times> nat \<times> bool) option" where
  "read_set_alloc cset p i k s =
     (case scan_help_getc s of (s1, c) \<Rightarrow>
        case in_scanset cset c of None \<Rightarrow> None
        | Some b \<Rightarrow>
            if \<not> b then Some (s1, p, i, False)
            else
              let s2 = s1\<lparr>g_mem := (g_mem s1)(p + of_nat i := word_of_int c)\<rparr>
              in if i + 1 = k then
                   (case with_heap (\<lambda>h. realloc h p (of_nat (k + k + 1))) s2 of None \<Rightarrow> None
                    | Some (s3, tmp) \<Rightarrow>
                        if tmp = NULL then Some (s3, p, i + 1, True) else read_set_alloc cset tmp (i + 1) (k + k + 1) s3)
                 else read_set_alloc cset p (i + 1) k s2)"

datatype wide_end = Wide_Done | Wide_Input_Fail | Wide_Alloc_Fail

partial_function (option) read_set_wide ::
  "u8 list \<Rightarrow> bool \<Rightarrow> ptr \<Rightarrow> nat \<Rightarrow> nat \<Rightarrow> u32 \<Rightarrow> u32 \<Rightarrow> scan_state \<Rightarrow> (scan_state \<times> ptr \<times> nat \<times> u32 \<times> wide_end) option" where
  "read_set_wide cset alloc p i k st wc s =
     (case scan_help_getc s of (s1, c) \<Rightarrow>
        case in_scanset cset c of None \<Rightarrow> None
        | Some b \<Rightarrow>
            if \<not> b then Some (s1, p, i, st, Wide_Done)
            else case mbrtowc (Some [word_of_int c]) st of (r, out_char, st1) \<Rightarrow>
              if r = - 1 then Some (s1\<lparr>g_errno := EILSEQ\<rparr>, p, i, st1, Wide_Input_Fail)
              else if r = - 2 then read_set_wide cset alloc p i k st1 wc s1
              else
                let wc1 = (case out_char of None \<Rightarrow> wc | Some w \<Rightarrow> w);
                    s2 = (if p = NULL then s1 else s1\<lparr>g_mem := store32 (g_mem s1) (p + 4 * of_nat i) wc1\<rparr>);
                    i1 = (if p = NULL then i else i + 1)
                in if alloc \<and> i1 = k then
                     (case with_heap (\<lambda>h. realloc h p (4 * of_nat (k + k + 1))) s2 of None \<Rightarrow> None
                      | Some (s3, tmp) \<Rightarrow>
                          if tmp = NULL then Some (s3, p, i1, st1, Wide_Alloc_Fail)
                          else read_set_wide cset alloc tmp i1 (k + k + 1) st1 wc1 s3)
                   else read_set_wide cset alloc p i1 k st1 wc1 s2)"

text \<open>After the characters: \<open>i\<close> were stored.\<close>

definition set_done :: "scan_dir \<Rightarrow> nat \<Rightarrow> scan_state \<Rightarrow> (scan_state + scan_state) option" where
  "set_done d i s0 =
     (let s = scan_help_unget s0 in
      if scan_help_cnt s = 0 \<or> (sd_t d = chr CHR ''c'' \<and> scan_help_cnt s \<noteq> sd_width d) then Some (Inl s)
      else
        let m1 = (if sd_alloc d then store32 (g_mem s) (sd_dest d) (if sd_size d = SIZE_l then sd_wide d else sd_s d) else g_mem s);
            m2 = (if sd_t d \<noteq> chr CHR ''c'' \<and> sd_wide d \<noteq> NULL then store32 m1 (sd_wide d + 4 * of_nat i) 0 else m1);
            m3 = (if sd_t d \<noteq> chr CHR ''c'' \<and> sd_s d \<noteq> NULL then m2(sd_s d + of_nat i := 0) else m2)
        in Some (Inr (s\<lparr>g_mem := m3\<rparr>)))"

text \<open>The end of a directive that was converted.\<close>

definition matched :: "scan_dir \<Rightarrow> scan_state \<Rightarrow> scan_step option" where
  "matched d s =
     (let s1 = s\<lparr>sc_pos := sc_pos s + scan_help_cnt s\<rparr>
      in next_directive (if sd_dest d \<noteq> NULL then s1\<lparr>sc_matches := sc_matches s1 + 1\<rparr> else s1))"

definition finish_set :: "scan_dir \<Rightarrow> nat \<Rightarrow> scan_state \<Rightarrow> scan_step option" where
  "finish_set d i s = (case set_done d i s of None \<Rightarrow> None | Some (Inl s1) \<Rightarrow> match_fail d s1 | Some (Inr s1) \<Rightarrow> matched d s1)"

definition scan_set :: "u8 list \<Rightarrow> scan_dir \<Rightarrow> scan_state \<Rightarrow> scan_step option" where
  "scan_set cset d0 s =
     (let k = (if sd_t d0 = chr CHR ''c'' then nat (sd_width d0) + 1 else 31); d = d0\<lparr>sd_s := NULL, sd_wide := NULL\<rparr> in
      if sd_size d = SIZE_l then do {
        (s1, p) \<leftarrow> (if sd_alloc d then with_heap (\<lambda>h. lib_malloc h (of_nat k * 4)) s else Some (s, sd_dest d));
        if sd_alloc d \<and> p = NULL then input_fail d s1
        else do {
          (s2, p2, i, st, r) \<leftarrow> read_set_wide cset (sd_alloc d) p 0 k 0 0 s1;
          let d2 = d\<lparr>sd_wide := p2\<rparr>;
          if r \<noteq> Wide_Done \<or> \<not> mbsinit (Some st) then input_fail d2 s2 else finish_set d2 i s2
        }
      }
      else if sd_alloc d then do {
        (s1, p) \<leftarrow> with_heap (\<lambda>h. lib_malloc h (of_nat k)) s;
        if p = NULL then input_fail d s1
        else do {
          (s2, p2, i, failed) \<leftarrow> read_set_alloc cset p 0 k s1;
          if failed then input_fail (d\<lparr>sd_s := p2\<rparr>) s2 else finish_set (d\<lparr>sd_s := p2\<rparr>) i s2
        }
      }
      else do {
        (s1, i) \<leftarrow> read_set cset (sd_dest d) 0 s;
        finish_set (d\<lparr>sd_s := sd_dest d\<rparr>) (if sd_dest d = NULL then 0 else i) s1
      })"

text \<open>Integers: \<open>%p\<close> stores a pointer.\<close>

definition scan_int :: "u32 \<Rightarrow> scan_dir \<Rightarrow> scan_state \<Rightarrow> scan_step option" where
  "scan_int base d s = do {
     (s1, x) \<leftarrow> gob_intscan base False (- 1) s;
     if scan_help_cnt s1 = 0 then match_fail d s1
     else matched d (s1\<lparr>g_mem := (if sd_t d = chr CHR ''p'' \<and> sd_dest d \<noteq> NULL then store32 (g_mem s1) (sd_dest d) (ucast x)
       else store_int (sd_dest d) (sd_size d) x (g_mem s1))\<rparr>)
   }"

text \<open>\<open>float_scan\<close>: the file after the number, and its bytes in the type that belongs to the size, if there is one.\<close>

type_synonym float_scanner = "int \<Rightarrow> scan_state \<Rightarrow> (scan_state \<times> u8 list) option"

definition scan_float :: "float_scanner \<Rightarrow> scan_dir \<Rightarrow> scan_state \<Rightarrow> scan_step option" where
  "scan_float float_scan d s = do {
     (s1, bs) \<leftarrow> float_scan (sd_size d) s;
     if scan_help_cnt s1 = 0 then match_fail d s1
     else matched d (if sd_dest d \<noteq> NULL \<and> sd_size d \<in> {SIZE_def, SIZE_l, SIZE_L}
       then s1\<lparr>g_mem := store_bytes (g_mem s1) (sd_dest d) bs\<rparr> else s1)
   }"

definition scan_convert :: "float_scanner \<Rightarrow> scan_dir \<Rightarrow> scan_state \<Rightarrow> scan_step option" where
  "scan_convert float_scan d s =
     (let t = sd_t d in
      if t = chr CHR ''s'' \<or> t = chr CHR ''c'' then scan_set (scanset_for t) d s
      else if t = chr CHR ''['' then
        (case read_scanset (sc_fmt s) of None \<Rightarrow> input_fail d s
         | Some (cset, rest) \<Rightarrow> scan_set cset d (s\<lparr>sc_fmt := rest\<rparr>))
      else if t \<in> {chr CHR ''p'', chr CHR ''X'', chr CHR ''x''} then scan_int 16 d s
      else if t = chr CHR ''o'' then scan_int 8 d s
      else if t = chr CHR ''d'' \<or> t = chr CHR ''u'' then scan_int 10 d s
      else if t = chr CHR ''i'' then scan_int 0 d s
      else if t \<in> set (map of_char ''aAeEfFgG'') then scan_float float_scan d s
      else matched d s)"

text \<open>Before a conversion: white space is skipped, the width is set and there must be a character.\<close>

definition scan_input :: "float_scanner \<Rightarrow> scan_dir \<Rightarrow> scan_state \<Rightarrow> scan_step option" where
  "scan_input float_scan d s =
     (case scan_help_getc (scan_help_lim (sd_width d) s) of (s1, c) \<Rightarrow>
        if c < 0 then input_fail d s1 else scan_convert float_scan d (scan_help_unget s1))"

definition scan_conversion :: "float_scanner \<Rightarrow> scan_dir \<Rightarrow> scan_state \<Rightarrow> scan_step option" where
  "scan_conversion float_scan d0 s =
     (let t0 = scan_peek s 0;
          wide = (t0 AND 0x2F = 3);
          t = (if wide then t0 OR 32 else t0);
          d = d0\<lparr>sd_t := t, sd_size := (if wide then SIZE_l else sd_size d0)\<rparr>
      in if t = chr CHR ''c'' then scan_input float_scan (d\<lparr>sd_width := max 1 (sd_width d)\<rparr>) s
         else if t = chr CHR ''['' then scan_input float_scan d s
         else if t = chr CHR ''n'' then
           next_directive (s\<lparr>g_mem := store_int (sd_dest d) (sd_size d) (word_of_int (sc_pos s)) (g_mem s)\<rparr>)
         else (case skip_white s of None \<Rightarrow> None | Some s1 \<Rightarrow> scan_input float_scan d s1))"

definition scan_directive :: "float_scanner \<Rightarrow> scan_state \<Rightarrow> scan_step option" where
  "scan_directive float_scan s0 = do {
     (s, dest) \<leftarrow> read_dest (skip 1 s0);
     let (width, rest) = read_scan_width (sc_fmt s) 0;
     let with_m = (rest \<noteq> [] \<and> hd rest = chr CHR ''m'');
     let s1 = s\<lparr>sc_fmt := (if with_m then tl rest else rest)\<rparr>;
     let d = no_dir\<lparr>sd_dest := dest, sd_width := width, sd_alloc := (with_m \<and> dest \<noteq> NULL)\<rparr>;
     (case read_size s1 of None \<Rightarrow> input_fail d (skip 1 s1)
      | Some (sz, n) \<Rightarrow> scan_conversion float_scan (d\<lparr>sd_size := sz\<rparr>) (skip n s1))
   }"

text \<open>One round of the loop. A run of white space in the format counts as one.\<close>

definition scan_round :: "float_scanner \<Rightarrow> scan_state \<Rightarrow> scan_step option" where
  "scan_round float_scan s =
     (if sc_fmt s = [] then Some (Scan_Return s (sc_matches s))
      else if isspace (uint (scan_peek s 0)) then
        map_option Scan_Next (skip_white (s\<lparr>sc_fmt := dropWhile (\<lambda>c. isspace (uint c)) (sc_fmt s)\<rparr>))
      else if scan_peek s 0 \<noteq> chr CHR ''%'' \<or> scan_peek s 1 = chr CHR ''%'' then literal_char s
      else scan_directive float_scan s)"

partial_function (option) scan_loop :: "float_scanner \<Rightarrow> scan_state \<Rightarrow> (scan_state \<times> int) option" where
  "scan_loop float_scan s =
     (case scan_round float_scan s of None \<Rightarrow> None
      | Some (Scan_Return s1 r) \<Rightarrow> Some (s1, r)
      | Some (Scan_Next s1) \<Rightarrow> scan_loop float_scan s1)"

definition gob_vfscanf :: "float_scanner \<Rightarrow> u8 list \<Rightarrow> u32 list \<Rightarrow> scan_state \<Rightarrow> (scan_state \<times> int) option" where
  "gob_vfscanf float_scan fmt args s =
     (if g_rpos s = NULL then Some (s, 0)
      else scan_loop float_scan (s\<lparr>sc_fmt := fmt, sc_args := args, sc_matches := 0, sc_pos := 0\<rparr>))"

definition gob_sscanf :: "float_scanner \<Rightarrow> ptr \<Rightarrow> u8 list \<Rightarrow> u32 list \<Rightarrow> scan_state \<Rightarrow> (scan_state \<times> int) option" where
  "gob_sscanf float_scan str fmt args s = gob_vfscanf float_scan fmt args (scan_help_file_from_string str s)"

end
