(* ===== verification/ScanInts.thy ===== *)
theory ScanInts
  imports Scan
begin

text \<open>
  What \<open>gob_sscanf\<close> (goblibc/src/scanf.c) makes of numbers: \<open>ahead\<close> says which bytes a file will
  deliver; the loops of \<open>gob_intscan\<close> are followed over a decimal numeral (\<open>intscan_signed\<close>), one
  round of the format loop over \<open>%d\<close> (\<open>round_int\<close>), and the loop over a list of them.
\<close>

section \<open>Reading ahead\<close>

definition adv :: "nat \<Rightarrow> 'a gob_file_scheme \<Rightarrow> 'a gob_file_scheme" where
  "adv n s = s\<lparr>g_rpos := g_rpos s + of_nat n\<rparr>"

text \<open>The bytes from the position of the file on, before its end.\<close>

definition ahead :: "'a gob_file_scheme \<Rightarrow> u8 list \<Rightarrow> bool" where
  "ahead s bs \<longleftrightarrow> (\<forall>j<length bs. g_rpos s + of_nat j \<noteq> g_shend s \<and> g_mem s (g_rpos s + of_nat j) = bs ! j)"

lemma adv_simps [simp]: "adv 0 s = s" "adv m (adv n s) = adv (n + m) s" "g_mem (adv n s) = g_mem s" "g_shend (adv n s) = g_shend s"
  "g_rpos (adv n s) = g_rpos s + of_nat n" "g_shlim (adv n s) = g_shlim s" "g_shcnt (adv n s) = g_shcnt s" "g_buf (adv n s) = g_buf s"
  "g_errno (adv n s) = g_errno s" "g_rend (adv n s) = g_rend s"
  by (simp_all add: adv_def add.assoc)

lemma ahead_Cons: "ahead s (b # bs) \<longleftrightarrow> g_rpos s \<noteq> g_shend s \<and> g_mem s (g_rpos s) = b \<and> ahead (adv 1 s) bs"
  by (auto simp: ahead_def All_less_Suc2 add.assoc)

lemma ahead_append: "ahead s (xs @ ys) \<longleftrightarrow> ahead s xs \<and> ahead (adv (length xs) s) ys"
proof (induction xs arbitrary: s)
  case Nil
  then show ?case by (simp add: ahead_def)
qed (simp add: ahead_Cons)

lemma ahead_Nil [simp]: "ahead s []"
  by (simp add: ahead_def)

lemma getc_ahead: "ahead s (b # bs) \<Longrightarrow> scan_help_getc s = (adv 1 s, schar b)"
  by (simp add: scan_help_getc_def ahead_Cons adv_def)

lemma unget_adv: "g_shlim s = 0 \<Longrightarrow> scan_help_unget (adv (Suc n) s) = adv n s"
  by (simp add: scan_help_unget_def adv_def)

lemma scan_spaces_run:
  "ahead s (bl @ [b]) \<Longrightarrow> \<forall>x\<in>set bl. isspace (schar x) \<Longrightarrow> \<not> isspace (schar b) \<Longrightarrow>
     scan_spaces s = Some (adv (length bl + 1) s, schar b)"
proof (induction bl arbitrary: s)
  case Nil
  then show ?case by (subst scan_spaces.simps) (simp add: getc_ahead)
next
  case (Cons x bl)
  then have "scan_spaces (adv 1 s) = Some (adv (length bl + 1) (adv 1 s), schar b)" by (simp add: ahead_Cons)
  then show ?case using Cons.prems getc_ahead [of s x "bl @ [b]"] by (subst scan_spaces.simps) simp
qed

section \<open>Decimal numerals\<close>

definition digit_byte :: "u8 \<Rightarrow> bool" where
  "digit_byte b \<longleftrightarrow> 48 \<le> unat b \<and> unat b \<le> 57"

fun decimal_value :: "nat \<Rightarrow> u8 list \<Rightarrow> nat" where
  "decimal_value v [] = v"
| "decimal_value v (b # bs) = decimal_value (10 * v + (unat b - 48)) bs"

lemma decimal_value_append [simp]: "decimal_value v (xs @ ys) = decimal_value (decimal_value v xs) ys"
  by (induction xs arbitrary: v) simp_all

lemma decimal_value_mono: "v \<le> decimal_value v bs"
proof (induction bs arbitrary: v)
  case (Cons b bs)
  have "v \<le> 10 * v + (unat b - 48)" by simp
  also have "\<dots> \<le> decimal_value (10 * v + (unat b - 48)) bs" by (rule Cons.IH)
  finally show ?case by simp
qed simp

lemma digit_schar:
  assumes "digit_byte b"
  shows "schar b = int (unat b)" "decimal_digit (schar b)" "digit_num (schar b) = of_nat (unat b - 48)" "unat b - 48 < 10"
    "digit_val (schar b) = Some (of_nat (unat b - 48))" "\<not> isspace (schar b)" "schar b \<noteq> 43" "schar b \<noteq> 45" "0 \<le> schar b"
proof -
  have b: "48 \<le> unat b" "unat b \<le> 57" using assms by (simp_all add: digit_byte_def)
  then have "unat b = 48 \<or> unat b = 49 \<or> unat b = 50 \<or> unat b = 51 \<or> unat b = 52 \<or> unat b = 53 \<or> unat b = 54 \<or>
      unat b = 55 \<or> unat b = 56 \<or> unat b = 57" by arith
  then have "b \<in> {48, 49, 50, 51, 52, 53, 54, 55, 56, 57}" by (simp add: word_unat_eq_iff)
  then show "schar b = int (unat b)" "decimal_digit (schar b)" "digit_num (schar b) = of_nat (unat b - 48)" "unat b - 48 < 10"
    "digit_val (schar b) = Some (of_nat (unat b - 48))" "\<not> isspace (schar b)" "schar b \<noteq> 43" "schar b \<noteq> 45" "0 \<le> schar b"
    by (auto simp: schar_def decimal_digit_def digit_num_def digit_val_def intscan_table_def isspace_def nth_append)
qed

lemma hd_ahead: "ahead s (tl (xs @ [e])) \<Longrightarrow> xs = x # ys \<Longrightarrow> scan_help_getc s = (adv 1 s, schar (hd (ys @ [e]))) \<and> ahead (adv 1 s) (tl (ys @ [e]))"
  using getc_ahead [of s "hd (ys @ [e])" "tl (ys @ [e])"] by (cases ys) (simp_all add: ahead_Cons)

lemma scan_decimal_first:
  assumes "\<forall>d\<in>set ds. digit_byte d" "\<not> decimal_digit (schar e)" "ahead s (tl (ds @ [e]))"
  shows "\<exists>k\<le>length ds. \<exists>x'. scan_while (\<lambda>c (x :: u32). Some (decimal_digit c \<and> x \<le> 0xFFFFFFFF div 10 - 1))
       (\<lambda>c x. x * 10 + digit_num c) (schar (hd (ds @ [e]))) x s = Some (adv k s, schar (hd (drop k ds @ [e])), x') \<and>
     unat x' = decimal_value (unat x) (take k ds) \<and> ahead (adv k s) (tl (drop k ds @ [e]))"
  using assms
proof (induction ds arbitrary: x s)
  case Nil
  then show ?case by (subst scan_while.simps) simp
next
  case (Cons d ds)
  have d: "digit_byte d" using Cons.prems by simp
  note g = hd_ahead [OF Cons.prems(3) refl]
  show ?case
  proof (cases "x \<le> 0xFFFFFFFF div 10 - 1")
    case False
    then show ?thesis using Cons.prems(3) by (intro exI [of _ 0] exI [of _ x]) (subst scan_while.simps, simp)
  next
    case True
    let ?x = "x * 10 + of_nat (unat d - 48)"
    have "unat x \<le> 429496728" using True by (simp add: word_le_nat_alt)
    then have u: "unat ?x = 10 * unat x + (unat d - 48)"
      using digit_schar(4) [OF d] by (simp add: unat_word_ariths unat_of_nat_u32)
    obtain k x' where k: "k \<le> length ds" "scan_while (\<lambda>c (x :: u32). Some (decimal_digit c \<and> x \<le> 0xFFFFFFFF div 10 - 1))
       (\<lambda>c x. x * 10 + digit_num c) (schar (hd (ds @ [e]))) ?x (adv 1 s) = Some (adv k (adv 1 s), schar (hd (drop k ds @ [e])), x')"
     "unat x' = decimal_value (unat ?x) (take k ds)" "ahead (adv k (adv 1 s)) (tl (drop k ds @ [e]))"
      using Cons.IH [of "adv 1 s" ?x] Cons.prems g by auto
    then show ?thesis using True g
      by (intro exI [of _ "Suc k"] exI [of _ x']) (subst scan_while.simps, simp add: u digit_schar(2,3) [OF d])
  qed
qed

lemma scan_decimal_second:
  assumes "\<forall>d\<in>set ds. digit_byte d" "\<not> decimal_digit (schar e)" "ahead s (tl (ds @ [e]))" "decimal_value (unat y) ds < 2 ^ 64"
  shows "\<exists>y'. scan_while (\<lambda>c (y :: u64). Some (decimal_digit c \<and> y \<le> 0xFFFFFFFFFFFFFFFF div 10 \<and> 10 * y \<le> 0xFFFFFFFFFFFFFFFF - digit_num c))
       (\<lambda>c y. y * 10 + digit_num c) (schar (hd (ds @ [e]))) y s = Some (adv (length ds) s, schar e, y') \<and>
     unat y' = decimal_value (unat y) ds"
  using assms
proof (induction ds arbitrary: y s)
  case Nil
  then show ?case by (subst scan_while.simps) simp
next
  case (Cons d ds)
  have d: "digit_byte d" using Cons.prems by simp
  note g = hd_ahead [OF Cons.prems(3) refl]
  let ?d = "unat d - 48"
  let ?y = "y * 10 + of_nat ?d"
  have l: "10 * unat y + ?d < 2 ^ 64" using decimal_value_mono [of "10 * unat y + ?d" ds] Cons.prems(4) by simp
  have ud: "unat (of_nat ?d :: u64) = ?d" using digit_schar(4) [OF d] by (simp add: unat_of_nat take_bit_nat_eq_self)
  have u: "unat ?y = 10 * unat y + ?d" using l ud by (simp add: unat_word_ariths)
  have m: "unat (10 * y) = 10 * unat y" using l by (simp add: unat_word_ariths)
  have "y \<le> 0xFFFFFFFFFFFFFFFF div 10" using l by (simp add: word_le_nat_alt)
  moreover have "unat (0xFFFFFFFFFFFFFFFF - of_nat ?d :: u64) = 0xFFFFFFFFFFFFFFFF - ?d"
    using digit_schar(4) [OF d] ud by (subst unat_sub) (simp_all add: word_le_nat_alt)
  then have "10 * y \<le> 0xFFFFFFFFFFFFFFFF - of_nat ?d" using l m by (simp add: word_le_nat_alt)
  moreover obtain y' where "scan_while (\<lambda>c (y :: u64). Some (decimal_digit c \<and> y \<le> 0xFFFFFFFFFFFFFFFF div 10 \<and> 10 * y \<le> 0xFFFFFFFFFFFFFFFF - digit_num c))
       (\<lambda>c y. y * 10 + digit_num c) (schar (hd (ds @ [e]))) ?y (adv 1 s) = Some (adv (length ds) (adv 1 s), schar e, y')"
     "unat y' = decimal_value (unat ?y) ds"
    using Cons.IH [of "adv 1 s" ?y] Cons.prems g u by auto
  ultimately show ?case using g
    by (intro exI [of _ y']) (subst scan_while.simps, simp add: u digit_schar(2,3) [OF d])
qed

lemma scan_decimal_run:
  assumes "\<forall>d\<in>set ds. digit_byte d" "\<not> decimal_digit (schar e)" "ahead s (tl (ds @ [e]))" "decimal_value 0 ds < 2 ^ 64"
  shows "scan_decimal (schar (hd (ds @ [e]))) s = Some (adv (length ds) s, schar e, of_nat (decimal_value 0 ds))"
proof -
  obtain k x where k: "k \<le> length ds" "scan_while (\<lambda>c (x :: u32). Some (decimal_digit c \<and> x \<le> 0xFFFFFFFF div 10 - 1))
       (\<lambda>c x. x * 10 + digit_num c) (schar (hd (ds @ [e]))) 0 s = Some (adv k s, schar (hd (drop k ds @ [e])), x)"
     "unat x = decimal_value 0 (take k ds)" "ahead (adv k s) (tl (drop k ds @ [e]))"
    using scan_decimal_first [OF assms(1-3), of 0] by auto
  have v: "decimal_value (unat x) (drop k ds) = decimal_value 0 ds" using decimal_value_append [of 0 "take k ds" "drop k ds"] k(3) by simp
  moreover have "unat (ucast x :: u64) = unat x" using unat_u32_less [of x] by (simp add: unsigned_ucast_eq take_bit_nat_eq_self)
  ultimately obtain y where "scan_while (\<lambda>c (y :: u64). Some (decimal_digit c \<and> y \<le> 0xFFFFFFFFFFFFFFFF div 10 \<and> 10 * y \<le> 0xFFFFFFFFFFFFFFFF - digit_num c))
       (\<lambda>c y. y * 10 + digit_num c) (schar (hd (drop k ds @ [e]))) (ucast x) (adv k s) = Some (adv (length (drop k ds)) (adv k s), schar e, y)"
     "unat y = decimal_value 0 ds"
    using scan_decimal_second [of "drop k ds" e "adv k s" "ucast x"] assms k(1,4) by (auto dest: in_set_dropD)
  moreover have "y = of_nat (decimal_value 0 ds)" using calculation(2) [symmetric] by simp
  ultimately show ?thesis using k(1,2) by (simp add: scan_decimal_def)
qed

lemma decimal_step: "decimal n = (if n < 10 then [48 + of_nat n] else decimal (n div 10) @ [48 + of_nat (n mod 10)])"
  by (simp add: decimal_def numeral_of.simps [of _ _ n])

lemma digit_byte_num: "d < 10 \<Longrightarrow> digit_byte (48 + of_nat d) \<and> unat (48 + of_nat d :: u8) = 48 + d"
  by (simp add: digit_byte_def unat_word_ariths unat_of_nat take_bit_nat_eq_self)

lemma decimal_digits: "\<forall>d\<in>set (decimal n). digit_byte d"
  using numeral_of_digits [of 10] digit_byte_num by (auto simp: decimal_def)

lemma decimal_value_decimal: "decimal_value 0 (decimal n) = n"
proof (induction n rule: less_induct)
  case (less n)
  show ?case
  proof (cases "n < 10")
    case True
    then show ?thesis using digit_byte_num [of n] by (simp add: decimal_step)
  next
    case False
    then show ?thesis using less [of "n div 10"] digit_byte_num [of "n mod 10"] by (simp add: decimal_step [of n])
  qed
qed

lemma decimal_not_Nil [simp]: "decimal n \<noteq> []"
  by (simp add: decimal_def)

text \<open>A byte that does not continue a number.\<close>

definition number_end_byte :: "u8 \<Rightarrow> bool" where
  "number_end_byte e \<longleftrightarrow> \<not> decimal_digit (schar e)"

lemma intscan_done_max: "g_shlim s = 0 \<Longrightarrow> intscan_done (- 1) neg y (adv (Suc n) s) = (adv n s, (y XOR neg) - neg)"
proof -
  have "\<not> (- 1 :: u64) < y" by (simp add: not_less)
  moreover have "(- 1 :: u64) AND 1 \<noteq> 0" by simp
  ultimately show "g_shlim s = 0 \<Longrightarrow> ?thesis" by (simp add: intscan_done_def unget_adv Let_def)
qed

lemma intscan_decimal:
  assumes "ahead s (tl (decimal n @ [e]))" "number_end_byte e" "g_shlim s = 0" "n < 2 ^ 64"
  shows "intscan_body 10 False (- 1) neg (schar (hd (decimal n))) s = Some (adv (length (decimal n) - 1) s, (of_nat n XOR neg) - neg)"
proof -
  obtain d ds where d: "decimal n = d # ds" by (cases "decimal n") auto
  then have b: "digit_byte d" using decimal_digits [of n] by simp
  then have "below_base 10 (schar d) = Some True" using digit_schar(4) [OF b]
    by (simp add: below_base_def digit_schar(5) word_less_nat_alt unat_of_nat_u32)
  moreover have "scan_decimal (schar (hd (decimal n @ [e]))) s = Some (adv (length (decimal n)) s, schar e, of_nat n)"
    using scan_decimal_run [OF decimal_digits _ assms(1)] assms(2,4) by (simp add: decimal_value_decimal number_end_byte_def)
  ultimately show ?thesis using assms(2,3) d
    by (simp add: intscan_body_def Let_def intscan_digits_def number_end_byte_def intscan_done_max)
qed

lemma intscan_signed:
  assumes "ahead s (signed_decimal v @ [e])" "number_end_byte e" "g_shlim s = 0" "\<bar>v\<bar> < 2 ^ 63"
  shows "gob_intscan 10 False (- 1) s = Some (adv (length (signed_decimal v)) s, of_int v)"
proof (cases "v < 0")
  case True
  obtain d ds where d: "decimal (nat (- v)) = d # ds" by (cases "decimal (nat (- v))") auto
  have n: "nat (- v) < 2 ^ 64" using assms(4) True by (simp add: nat_less_iff)
  have a: "ahead s (45 # d # ds @ [e])" using assms(1) True d by (simp add: signed_decimal_def)
  have "schar 45 = 45" "\<not> isspace 45" by (simp_all add: schar_def isspace_def)
  then have "scan_spaces s = Some (adv 1 s, 45)" using scan_spaces_run [of s "[]" 45] a by (simp add: ahead_Cons)
  moreover have "scan_help_getc (adv 1 s) = (adv 2 s, schar d)" using getc_ahead [of "adv 1 s" d "ds @ [e]"] a by (simp add: ahead_Cons numeral_2_eq_2)
  moreover have "intscan_body 10 False (- 1) (- 1) (schar d) (adv 2 s) = Some (adv (length ds) (adv 2 s), (of_nat (nat (- v)) XOR - 1) - - 1)"
    using intscan_decimal [of "adv 2 s" "nat (- v)" e "- 1"] a assms(2,3) n d by (simp add: ahead_Cons numeral_2_eq_2)
  moreover have "(of_nat (nat (- v)) XOR - 1) - - 1 = (of_int v :: u64)"
  proof -
    have "(of_nat (nat (- v)) XOR - 1) - - 1 = - (of_nat (nat (- v)) :: u64)" by (simp add: not_eq_complement)
    also have "\<dots> = - of_int (int (nat (- v)))" by (simp only: of_int_of_nat_eq)
    also have "\<dots> = of_int v" using True by simp
    finally show ?thesis .
  qed
  ultimately show ?thesis using True d by (simp add: gob_intscan_def signed_decimal_def)
next
  case False
  obtain d ds where d: "decimal (nat v) = d # ds" by (cases "decimal (nat v)") auto
  have n: "nat v < 2 ^ 64" using assms(4) False by (simp add: nat_less_iff)
  have a: "ahead s (d # ds @ [e])" using assms(1) False d by (simp add: signed_decimal_def)
  have b: "digit_byte d" using decimal_digits [of "nat v"] d by simp
  have "scan_spaces s = Some (adv 1 s, schar d)" using scan_spaces_run [of s "[]" d] a digit_schar(6) [OF b] by (simp add: ahead_Cons)
  moreover have "intscan_body 10 False (- 1) 0 (schar d) (adv 1 s) = Some (adv (length ds) (adv 1 s), of_nat (nat v))"
    using intscan_decimal [of "adv 1 s" "nat v" e 0] a assms(2,3) n d by (simp add: ahead_Cons)
  moreover have "of_nat (nat v) = (of_int v :: u64)"
  proof -
    have "of_nat (nat v) = (of_int (int (nat v)) :: u64)" by (simp only: of_int_of_nat_eq)
    also have "\<dots> = of_int v" using False by simp
    finally show ?thesis .
  qed
  ultimately show ?thesis using False d digit_schar(7,8) [OF b] by (simp add: gob_intscan_def signed_decimal_def)
qed

lemma adv_scan [simp]: "sc_fmt (adv n s) = sc_fmt s" "sc_args (adv n s) = sc_args s" "sc_matches (adv n s) = sc_matches s"
  "sc_pos (adv n s) = sc_pos s"
  by (simp_all add: adv_def)

lemma sint_of_int_small: "- (2 ^ 31) \<le> k \<Longrightarrow> k < 2 ^ 31 \<Longrightarrow> sint (word_of_int k :: u32) = k"
  by (simp add: signed_of_int signed_take_bit_int_eq_self)

lemma ptrdiff_offset: "j < 2 ^ 31 \<Longrightarrow> ptrdiff (p + of_nat j) p = int j" "j < 2 ^ 31 \<Longrightarrow> ptrdiff p (p + of_nat j) = - int j"
proof -
  assume j: "j < 2 ^ 31"
  have "sint (word_of_int (int j) :: u32) = int j" using j by (intro sint_of_int_small) simp_all
  then show "ptrdiff (p + of_nat j) p = int j" by (simp add: ptrdiff_def)
  have "sint (word_of_int (- int j) :: u32) = - int j" using j by (intro sint_of_int_small) simp_all
  then show "ptrdiff p (p + of_nat j) = - int j" by (simp add: ptrdiff_def)
qed

lemma narrow_int: "ucast (of_int (sint w) :: u64) = (w :: u32)"
proof -
  have "(of_int (sint w) :: u64) = scast w" by (rule scast_eq [symmetric])
  moreover have "ucast (scast w :: u64) = w" proof (rule bit_word_eqI)
    fix n
    assume "n < LENGTH(32)"
    then have "n < 31 \<or> n = 31" by auto
    then show "bit (ucast (scast w :: u64) :: u32) n = bit w n" by (auto simp: bit_ucast_iff bit_signed_iff min_def)
  qed
  ultimately show ?thesis by (simp only:)
qed

text \<open>A file over the string at \<open>str\<close>, at the offset \<open>i\<close>.\<close>

definition file_at :: "ptr \<Rightarrow> nat \<Rightarrow> 'a gob_file_scheme \<Rightarrow> bool" where
  "file_at str i s \<longleftrightarrow> g_buf s = str \<and> g_rpos s = str + of_nat i \<and> g_rend s = - 1"

definition bytes_ahead :: "'a gob_file_scheme \<Rightarrow> u8 list \<Rightarrow> bool" where
  "bytes_ahead s bs \<longleftrightarrow> (\<forall>j<length bs. g_rpos s + of_nat j \<noteq> - 1 \<and> g_mem s (g_rpos s + of_nat j) = bs ! j)"

lemma lim_0: "scan_help_lim 0 s = s\<lparr>g_shlim := 0, g_shcnt := ptrdiff (g_buf s) (g_rpos s), g_shend := g_rend s\<rparr>"
  by (simp add: scan_help_lim_def)

lemma ahead_cong: "g_rpos s = g_rpos t \<Longrightarrow> g_shend s = g_shend t \<Longrightarrow> g_mem s = g_mem t \<Longrightarrow> ahead s bs = ahead t bs"
  by (simp add: ahead_def)

lemma ahead_lim: "g_rend s = - 1 \<Longrightarrow> ahead (scan_help_lim 0 s) bs = bytes_ahead s bs"
  by (simp add: lim_0 ahead_def bytes_ahead_def)

definition blank :: "u8 \<Rightarrow> bool" where
  "blank b \<longleftrightarrow> isspace (schar b)"

lemma first_char:
  "\<exists>c cs. signed_decimal v = c # cs \<and> \<not> isspace (schar c) \<and> 0 \<le> schar c"
proof (cases "v < 0")
  case False
  obtain d ds where d: "decimal (nat v) = d # ds" by (cases "decimal (nat v)") auto
  then have "digit_byte d" using decimal_digits [of "nat v"] by simp
  then show ?thesis using d False digit_schar(6,9) by (simp add: signed_decimal_def)
qed (simp add: signed_decimal_def schar_def isspace_def)

lemma round_int:
  assumes fmt: "sc_fmt s = 37 # 100 # rest" "sc_args s = p # ps" "p \<noteq> NULL"
    and f: "file_at str i s" "i + length bl + length (signed_decimal (sint w)) < 2 ^ 31"
    and b: "bytes_ahead s (bl @ signed_decimal (sint w) @ [e])" "\<forall>x\<in>set bl. blank x" "number_end_byte e"
  shows "\<exists>s'. scan_round F s = Some (Scan_Next s') \<and> file_at str (i + length bl + length (signed_decimal (sint w))) s' \<and>
    g_mem s' = store32 (g_mem s) p w \<and> sc_fmt s' = rest \<and> sc_args s' = ps \<and> sc_matches s' = sc_matches s + 1 \<and> g_errno s' = g_errno s"
proof -
  let ?num = "signed_decimal (sint w)"
  obtain c cs where c: "?num = c # cs" "\<not> isspace (schar c)" "0 \<le> schar c" using first_char by blast
  have pos: "g_buf s = str" "g_rpos s = str + of_nat i" "g_rend s = - 1" using f(1) by (simp_all add: file_at_def)
  let ?s0 = "s\<lparr>sc_args := ps, sc_fmt := 100 # rest\<rparr>"
  let ?l0 = "scan_help_lim 0 ?s0"
  have a0: "ahead ?l0 (bl @ ?num @ [e])" using b(1) pos(3) by (simp add: ahead_lim bytes_ahead_def)
  then have "scan_spaces ?l0 = Some (adv (length bl + 1) ?l0, schar c)"
    using b(2) c by (intro scan_spaces_run) (simp_all add: ahead_append ahead_Cons blank_def)
  then have w: "skip_white ?s0 = Some ((adv (length bl) ?l0)\<lparr>sc_pos := sc_pos s + scan_help_cnt (adv (length bl) ?l0)\<rparr>)"
    using unget_adv [of ?l0 "length bl"] by (simp add: skip_white_def lim_0 adv_def Let_def)
  let ?s1 = "(adv (length bl) ?l0)\<lparr>sc_pos := sc_pos s + scan_help_cnt (adv (length bl) ?l0)\<rparr>"
  let ?l1 = "scan_help_lim 0 ?s1"
  have a1: "ahead ?l1 (?num @ [e])" using a0 by (subst ahead_cong [of _ "adv (length bl) ?l0"]) (simp_all add: ahead_append lim_0 adv_def)
  have g: "scan_help_getc ?l1 = (adv 1 ?l1, schar c)" using a1 c(1) getc_ahead [of ?l1 c "cs @ [e]"] by simp
  have u: "scan_help_unget (adv 1 ?l1) = ?l1" using unget_adv [of ?l1 0] by (simp add: lim_0)
  have "sint w < 2 ^ 31" "- (2 ^ 31) \<le> sint w" using sint_less [of w] sint_greater_eq [of w] by simp_all
  then have "\<bar>sint w\<bar> < 2 ^ 63" by simp
  then have n: "gob_intscan 10 False (- 1) ?l1 = Some (adv (length ?num) ?l1, of_int (sint w))"
    using intscan_signed [OF a1 b(3)] by (simp add: lim_0)
  let ?d = "no_dir\<lparr>sd_dest := p, sd_width := 0, sd_alloc := False, sd_t := 100, sd_size := 0\<rparr>"
  let ?s2 = "adv (length ?num) ?l1"
  have "scan_round F s = scan_directive F s"
    by (simp add: scan_round_def fmt(1) scan_peek_def chr_def isspace_def)
  also have "\<dots> = scan_conversion F (no_dir\<lparr>sd_dest := p, sd_width := 0, sd_alloc := False, sd_size := 0\<rparr>) ?s0"
    by (simp add: scan_directive_def read_dest_def fmt skip_def scan_peek_def chr_def isdigit_def read_size_def Let_def)
  also have "\<dots> = scan_input F ?d ?s1"
    using w by (simp add: scan_conversion_def scan_peek_def chr_def Let_def)
  also have "\<dots> = scan_convert F ?d ?l1"
    using g u c(3) by (simp add: scan_input_def)
  also have "\<dots> = scan_int 10 ?d ?l1"
    by (simp add: scan_convert_def chr_def Let_def)
  finally have r: "scan_round F s = scan_int 10 ?d ?l1" .
  have cnt: "scan_help_cnt ?s2 = int (length ?num)"
    using ptrdiff_offset [of "i + length bl" str] ptrdiff_offset [of "i + length bl + length ?num" str] f(2) pos
    by (simp add: scan_help_cnt_def lim_0 add.assoc)
  have "store_int p 0 (of_int (sint w)) (g_mem s) = store32 (g_mem s) p w"
    using fmt(3) narrow_int [of w] by (simp add: store_int_def del: of_int_sint)
  then show ?thesis using r n cnt c(1) pos fmt(3) f(2)
    by (simp add: scan_int_def matched_def next_directive_def no_dir_def chr_def file_at_def skip_def lim_0 add.assoc Let_def del: of_int_sint)
qed

section \<open>Several integers\<close>

text \<open>The blanks before a number, the number, and where it goes.\<close>

type_synonym scan_item = "u8 list \<times> u32 \<times> ptr"

fun scanned_text :: "scan_item list \<Rightarrow> u8 list" where
  "scanned_text [] = [0]"
| "scanned_text ((bl, w, p) # its) = bl @ signed_decimal (sint w) @ scanned_text its"

fun scanned_format :: "scan_item list \<Rightarrow> u8 list" where
  "scanned_format [] = []"
| "scanned_format (it # its) = 37 # 100 # scanned_format its"

fun scanned_args :: "scan_item list \<Rightarrow> ptr list" where
  "scanned_args [] = []"
| "scanned_args ((bl, w, p) # its) = p # scanned_args its"

fun store_scanned :: "scan_item list \<Rightarrow> bmem \<Rightarrow> bmem" where
  "store_scanned [] m = m"
| "store_scanned ((bl, w, p) # its) m = store_scanned its (store32 m p w)"

text \<open>The destinations are words apart from the \<open>n\<close> bytes at \<open>str\<close>.\<close>

fun items_scannable :: "bool \<Rightarrow> ptr \<Rightarrow> nat \<Rightarrow> scan_item list \<Rightarrow> bool" where
  "items_scannable first str n [] = True"
| "items_scannable first str n ((bl, w, p) # its) \<longleftrightarrow> (first \<or> bl \<noteq> []) \<and> (\<forall>x\<in>set bl. blank x) \<and> p \<noteq> NULL \<and> unat p + 4 \<le> 2 ^ 32 \<and>
     apart p 4 str n \<and> items_scannable False str n its"

lemma blank_number_end: "blank b \<Longrightarrow> number_end_byte b"
  by (auto simp: blank_def isspace_def number_end_byte_def decimal_digit_def)

lemma decimal_digit_0: "number_end_byte 0"
  by (simp add: number_end_byte_def schar_def decimal_digit_def)

lemma scanned_text_first: "items_scannable False str n its \<Longrightarrow> \<exists>e es. scanned_text its = e # es \<and> number_end_byte e"
proof (cases its)
  case (Cons it its')
  moreover assume "items_scannable False str n its"
  ultimately show ?thesis by (cases it; cases "fst it") (auto intro: blank_number_end)
qed (simp add: decimal_digit_0)

lemma bytes_ahead_sub:
  assumes "bytes_ahead s (xs @ ys @ zs)" "g_rpos s' = g_rpos s + of_nat (length xs)" "\<And>j. j < length ys \<Longrightarrow> g_mem s' (g_rpos s' + of_nat j) = g_mem s (g_rpos s' + of_nat j)"
  shows "bytes_ahead s' ys"
  unfolding bytes_ahead_def
proof (intro allI impI)
  fix j assume j: "j < length ys"
  then show "g_rpos s' + of_nat j \<noteq> - 1 \<and> g_mem s' (g_rpos s' + of_nat j) = ys ! j"
    using assms(1) [unfolded bytes_ahead_def, rule_format, of "length xs + j"] assms(2) assms(3) [OF j] by (simp add: nth_append add.assoc)
qed

lemma bytes_ahead_prefix: "bytes_ahead s (ys @ zs) \<Longrightarrow> bytes_ahead s ys"
  by (rule bytes_ahead_sub [of s "[]" ys zs]) simp_all

lemma scan_ints_loop:
  assumes "sc_fmt s = scanned_format its" "sc_args s = scanned_args its @ ps" "file_at str i s" "items_scannable first str n its"
    "bytes_ahead s (scanned_text its)" "i + length (scanned_text its) = n" "n < 2 ^ 31" "unat str + n \<le> 2 ^ 32"
  shows "\<exists>s'. scan_loop F s = Some (s', sc_matches s + int (length its)) \<and> g_mem s' = store_scanned its (g_mem s) \<and> g_errno s' = g_errno s"
  using assms
proof (induction its arbitrary: s i first)
  case Nil
  then show ?case by (subst scan_loop.simps) (simp add: scan_round_def)
next
  case (Cons it its)
  obtain bl w p where it: "it = (bl, w, p)" by (cases it)
  let ?num = "signed_decimal (sint w)"
  have ok: "\<forall>x\<in>set bl. blank x" "p \<noteq> NULL" "unat p + 4 \<le> 2 ^ 32" "apart p 4 str n" "items_scannable False str n its"
    using Cons.prems(4) it by simp_all
  obtain e es where e: "scanned_text its = e # es" "number_end_byte e" using scanned_text_first [OF ok(5)] by blast
  have "bytes_ahead s (bl @ ?num @ [e])" using Cons.prems(5) by (intro bytes_ahead_prefix [of s "bl @ ?num @ [e]" es]) (simp_all add: it e(1))
  moreover have "sc_fmt s = 37 # 100 # scanned_format its" "sc_args s = p # scanned_args its @ ps" using Cons.prems(1,2) it by simp_all
  moreover have "i + length bl + length ?num < 2 ^ 31" using Cons.prems(6,7) it by simp
  ultimately obtain s1 where s1: "scan_round F s = Some (Scan_Next s1)" "file_at str (i + length bl + length ?num) s1"
      "g_mem s1 = store32 (g_mem s) p w" "sc_fmt s1 = scanned_format its" "sc_args s1 = scanned_args its @ ps"
      "sc_matches s1 = sc_matches s + 1" "g_errno s1 = g_errno s"
    using round_int [of s "scanned_format its" p "scanned_args its @ ps" str i bl w e F] ok(1,2) Cons.prems(3) e(2) by blast
  have "bytes_ahead s1 (scanned_text its)"
  proof (rule bytes_ahead_sub [of s "bl @ ?num" _ "[]"])
    show "bytes_ahead s ((bl @ ?num) @ scanned_text its @ [])" using Cons.prems(5) it by simp
    show pos: "g_rpos s1 = g_rpos s + of_nat (length (bl @ ?num))" using s1(2) Cons.prems(3) by (simp add: file_at_def)
    fix j assume j: "j < length (scanned_text its)"
    let ?k = "i + length bl + length ?num + j"
    have "?k < n" using j Cons.prems(6) it by simp
    then have k: "in_region (str + of_nat ?k) str n" using Cons.prems(8) by (intro in_region_offset) simp_all
    have "g_rpos s1 + of_nat j = str + of_nat ?k" using s1(2) by (simp add: file_at_def)
    then show "g_mem s1 (g_rpos s1 + of_nat j) = g_mem s (g_rpos s1 + of_nat j)"
      using store32_other [OF ok(3) apart_not_in [OF ok(4) k]] by (simp only: s1(3))
  qed
  then obtain s' where "scan_loop F s1 = Some (s', sc_matches s1 + int (length its)) \<and> g_mem s' = store_scanned its (g_mem s1) \<and> g_errno s' = g_errno s1"
    using Cons.IH [OF s1(4,5,2) ok(5)] Cons.prems(6-8) it by auto
  then show ?case using s1 it by (subst scan_loop.simps) simp
qed

text \<open>C16: \<open>sscanf\<close> with a format of \<open>%d\<close>s, on a string of decimal numbers with white space between them, returns how
  many there are and stores each at its destination; nothing else is written.\<close>

theorem sscanf_ints:
  assumes "items_scannable True str (length (scanned_text its)) its" "length (scanned_text its) < 2 ^ 31"
    "unat str + length (scanned_text its) < 2 ^ 32" "\<forall>j<length (scanned_text its). g_mem s (str + of_nat j) = scanned_text its ! j" "str \<noteq> NULL"
  shows "\<exists>s'. gob_sscanf F str (scanned_format its) (scanned_args its @ ps) s = Some (s', int (length its)) \<and>
    g_mem s' = store_scanned its (g_mem s) \<and> g_errno s' = g_errno s"
proof -
  let ?s = "scan_help_file_from_string str s\<lparr>sc_fmt := scanned_format its, sc_args := scanned_args its @ ps, sc_matches := 0, sc_pos := 0\<rparr>"
  have "str + of_nat j \<noteq> - 1" if "j < length (scanned_text its)" for j
  proof -
    have "unat (str + of_nat j) < 2 ^ 32 - 1" using assms(3) that by (simp add: unat_plus_nowrap unat_of_nat_u32)
    moreover have "unat (- 1 :: u32) = 2 ^ 32 - 1" by (simp add: unsigned_minus_1_eq_mask mask_eq_exp_minus_1)
    ultimately show ?thesis by auto
  qed
  then have "bytes_ahead ?s (scanned_text its)" using assms(4) by (simp add: bytes_ahead_def scan_help_file_from_string_def)
  then have "\<exists>s'. scan_loop F ?s = Some (s', sc_matches ?s + int (length its)) \<and> g_mem s' = store_scanned its (g_mem ?s) \<and> g_errno s' = g_errno ?s"
    using assms by (intro scan_ints_loop [where i = 0 and str = str and ps = ps and first = True and n = "length (scanned_text its)"])
      (simp_all add: scan_help_file_from_string_def file_at_def)
  then show ?thesis using assms(5)
    by (simp add: gob_sscanf_def gob_vfscanf_def scan_help_file_from_string_def)
qed

definition string_at :: "ptr \<Rightarrow> u8 list \<Rightarrow> bmem" where
  "string_at p bs a = (if unat a - unat p < length bs \<and> p \<le> a then bs ! (unat a - unat p) else 0)"

theorem sscanf_ints_witness:
  "\<exists>s'. gob_sscanf (\<lambda>_ _. None) 500 [37, 100, 37, 100] [600, 604]
      \<lparr>g_mem = string_at 500 [45, 49, 50, 32, 9, 55, 0], g_errno = 0, g_buf = 0, g_rpos = 0, g_rend = 0, g_wend = 0, g_wpos = 0,
        g_shend = 0, g_shlim = 0, g_shcnt = 0, sc_heap = 0, sc_heap_size = 0, sc_first_entry = 0, sc_fmt = [], sc_args = [],
        sc_matches = 0, sc_pos = 0\<rparr> = Some (s', 2) \<and>
    load32 (g_mem s') 600 = - 12 \<and> load32 (g_mem s') 604 = 7"
proof -
  let ?its = "[([], - 12, 600), ([32, 9], 7, 604)] :: scan_item list"
  let ?m = "string_at 500 [45, 49, 50, 32, 9, 55, 0]"
  let ?s = "\<lparr>g_mem = ?m, g_errno = 0, g_buf = 0, g_rpos = 0, g_rend = 0, g_wend = 0, g_wpos = 0,
        g_shend = 0, g_shlim = 0, g_shcnt = 0, sc_heap = 0, sc_heap_size = 0, sc_first_entry = 0, sc_fmt = [], sc_args = [],
        sc_matches = 0, sc_pos = 0\<rparr>"
  have t: "scanned_text ?its = [45, 49, 50, 32, 9, 55, 0]" by (simp add: signed_decimal_def decimal_def numeral_of.simps)
  have n: "(\<forall>j<k. P j) \<longleftrightarrow> list_all P [0..<k]" for P and k :: nat by (auto simp: list_all_iff)
  have "items_scannable True 500 7 ?its" by (simp add: apart_def blank_def schar_def isspace_def)
  moreover have "\<forall>j<7. ?m (500 + of_nat j) = [45, 49, 50, 32, 9, 55, 0] ! j"
    unfolding n by code_simp
  ultimately have "\<exists>s'. gob_sscanf (\<lambda>_ _. None) 500 (scanned_format ?its) (scanned_args ?its @ []) ?s = Some (s', int (length ?its)) \<and>
      g_mem s' = store_scanned ?its (g_mem ?s) \<and> g_errno s' = g_errno ?s"
    by (intro sscanf_ints [of 500 ?its ?s "\<lambda>_ _. None" "[]", unfolded t]) (simp_all add: apart_def)
  then obtain s' where "gob_sscanf (\<lambda>_ _. None) 500 (scanned_format ?its) (scanned_args ?its @ []) ?s = Some (s', int (length ?its))"
      "g_mem s' = store_scanned ?its (g_mem ?s)" by blast
  then show ?thesis by (intro exI [of _ s']) (simp add: load32_store32_apart apart_def)
qed

end
