(* ===== verification/Arith64.thy ===== *)
theory Arith64
  imports Prelude
begin

text \<open>
  \<open>lib/goblibc/src/arith64.c\<close>: the 64-bit division of the C library, which the compiler calls on the
  32-bit target. \<open>None\<close> is the trap of a division by zero; the optional result \<open>c\<close> is always
  returned.
\<close>

text \<open>One line of \<open>__clzdi2\<close>: when no bit of \<open>m\<close> is set in \<open>a\<close>, shift by \<open>k\<close>.\<close>

definition clz_step :: "u64 \<Rightarrow> nat \<Rightarrow> nat \<times> u64 \<Rightarrow> nat \<times> u64" where
  "clz_step m k na =
     (case na of (n, a) \<Rightarrow> let b = (if a AND m = 0 then k else 0) in (n + b, push_bit b a))"

definition clzdi2 :: "u64 \<Rightarrow> nat" where
  "clzdi2 a0 =
     (case clz_step 0xC000000000000000 2 (clz_step 0xF000000000000000 4 (clz_step 0xFF00000000000000 8
            (clz_step 0xFFFF000000000000 16 (clz_step 0xFFFFFFFF00000000 32 (0, a0))))) of (n, a) \<Rightarrow>
        n + (if a AND 0x8000000000000000 = 0 then 1 else 0))"

definition arith64_hi :: "u64 \<Rightarrow> u32" where
  "arith64_hi n = ucast (drop_bit 32 n)"

definition arith64_lo :: "u64 \<Rightarrow> u32" where
  "arith64_lo n = ucast n"

text \<open>The loop of the long division, over (a, rem, wrap).\<close>

fun div_loop :: "u64 \<Rightarrow> nat \<Rightarrow> u64 \<times> u64 \<times> u64 \<Rightarrow> u64 \<times> u64 \<times> u64" where
  "div_loop b 0 t = t"
| "div_loop b (Suc bits) (a, rem, wrap) =
     (let rem1 = push_bit 1 rem OR drop_bit 63 a;
          a1 = push_bit 1 a OR (wrap AND 1);
          wrap1 = signed_drop_bit 63 (b - rem1 - 1)
      in div_loop b bits (a1, rem1 - (b AND wrap1), wrap1))"

definition divmoddi4 :: "u64 \<Rightarrow> u64 \<Rightarrow> (u64 \<times> u64) option" where
  "divmoddi4 a b =
     (if a < b then Some (0, a)
      else if arith64_hi b = 0 \<and> b = 0 then None
      else if arith64_hi b = 0 \<and> b = 1 then Some (a, 0)
      else if arith64_hi b = 0 \<and> arith64_hi a = 0 then
        Some (ucast (arith64_lo a div arith64_lo b), ucast (arith64_lo a mod arith64_lo b))
      else
        let bits = nat (int (clzdi2 b) - int (clzdi2 a) + 1)
        in case div_loop b bits (push_bit (64 - bits) a, drop_bit bits a, 0) of (a1, rem, wrap) \<Rightarrow>
             Some (push_bit 1 a1 OR (wrap AND 1), rem))"

definition udivdi3 :: "u64 \<Rightarrow> u64 \<Rightarrow> u64 option" where
  "udivdi3 a b = map_option fst (divmoddi4 a b)"

definition umoddi3 :: "u64 \<Rightarrow> u64 \<Rightarrow> u64 option" where
  "umoddi3 a b = map_option snd (divmoddi4 a b)"

section \<open>Leading zeros\<close>

lemma unat_u64_less: "unat (a :: u64) < 2 ^ 64"
  using unsigned_less [of a] by simp

lemma drop_bit_zero: "drop_bit j (a :: u64) = 0 \<longleftrightarrow> unat a < 2 ^ j"
proof -
  have "drop_bit j a = 0 \<longleftrightarrow> unat a div 2 ^ j = 0"
    by (simp only: word_unat_eq_iff unat_drop_bit_eq unat_0) (simp only: drop_bit_eq_div)
  also have "\<dots> \<longleftrightarrow> unat a < 2 ^ j" by (simp add: div_eq_0_iff)
  finally show ?thesis .
qed

text \<open>The masks of \<open>__clzdi2\<close> cover the bits from \<open>j\<close> on.\<close>

lemma high_bits_zero: "(a :: u64) AND NOT (mask j) = 0 \<longleftrightarrow> unat a < 2 ^ j"
proof -
  have "a AND NOT (mask j) = 0 \<longleftrightarrow> drop_bit j a = 0"
  proof
    assume 0: "a AND NOT (mask j) = 0"
    show "drop_bit j a = 0"
    proof (rule bit_word_eqI)
      fix n assume "n < LENGTH(64)"
      have "\<not> bit (a AND NOT (mask j)) (j + n)" by (simp add: 0)
      then show "bit (drop_bit j a) n = bit 0 n"
        by (auto simp: bit_and_iff bit_not_iff bit_mask_iff bit_drop_bit_eq dest: bit_imp_le_length)
    qed
  next
    assume 0: "drop_bit j a = 0"
    show "a AND NOT (mask j) = 0"
    proof (rule bit_word_eqI)
      fix n assume "n < LENGTH(64)"
      have "\<not> bit (drop_bit j a) (n - j)" by (simp add: 0)
      then show "bit (a AND NOT (mask j)) n = bit 0 n"
        by (cases "j \<le> n") (auto simp: bit_and_iff bit_not_iff bit_mask_iff bit_drop_bit_eq)
    qed
  qed
  also have "\<dots> \<longleftrightarrow> unat a < 2 ^ j" by (rule drop_bit_zero)
  finally show ?thesis .
qed

lemma clz_masks:
  "(0xFFFFFFFF00000000 :: u64) = NOT (mask 32)" "(0xFFFF000000000000 :: u64) = NOT (mask 48)"
  "(0xFF00000000000000 :: u64) = NOT (mask 56)" "(0xF000000000000000 :: u64) = NOT (mask 60)"
  "(0xC000000000000000 :: u64) = NOT (mask 62)" "(0x8000000000000000 :: u64) = NOT (mask 63)"
  by (simp_all add: mask_numeral)

lemma unat_push_bit: "unat a * 2 ^ k < 2 ^ 64 \<Longrightarrow> unat (push_bit k a :: u64) = unat a * 2 ^ k"
proof (cases "unat a = 0")
  case False
  assume less: "unat a * 2 ^ k < 2 ^ 64"
  have "2 ^ k \<le> unat a * 2 ^ k" using False by simp
  then have "(2 :: nat) ^ k < 2 ^ 64" using less by (rule order_le_less_trans)
  then have k: "k < 64" by (rule power_less_imp_less_exp [rotated]) simp
  have "unat (of_nat (2 ^ k) :: u64) = 2 ^ k" unfolding unat_of_nat
    by (rule mod_less) (rule power_strict_increasing, simp_all add: k)
  then have p: "unat (2 ^ k :: u64) = 2 ^ k" by simp
  have "unat (push_bit k a) = unat (a * 2 ^ k)" by (simp add: push_bit_eq_mult)
  also have "\<dots> = unat a * 2 ^ k" using less by (simp add: unat_word_ariths p)
  finally show ?thesis .
next
  case True
  then have "a = 0" by (simp only: word_unat_eq_iff unat_0)
  then show ?thesis by simp
qed

text \<open>What is known after the lines for more than \<open>k\<close> bits.\<close>

definition clz_inv :: "u64 \<Rightarrow> nat \<Rightarrow> nat \<times> u64 \<Rightarrow> bool" where
  "clz_inv a0 k na \<longleftrightarrow>
     unat (snd na) = unat a0 * 2 ^ fst na \<and> 2 ^ (64 - k) \<le> unat (snd na)"

lemma clz_step_inv:
  assumes "clz_inv a0 (2 * k) na" "k + j = 64" "k \<le> j"
  shows "clz_inv a0 k (clz_step (NOT (mask j)) k na)"
proof -
  obtain n a where na: "na = (n, a)" by (cases na)
  have inv: "unat a = unat a0 * 2 ^ n" "2 ^ (64 - 2 * k) \<le> unat a" using assms(1) by (simp_all add: clz_inv_def na)
  show ?thesis
  proof (cases "unat a < 2 ^ j")
    case True
    have "unat a * 2 ^ k < 2 ^ j * 2 ^ k" using True by simp
    also have "\<dots> = 2 ^ 64" using assms(2) by (simp add: power_add [symmetric] add.commute)
    finally have u: "unat (push_bit k a) = unat a * 2 ^ k" by (rule unat_push_bit)
    have "(2 :: nat) ^ (64 - k) = 2 ^ (64 - 2 * k) * 2 ^ k" using assms(2,3) by (simp add: power_add [symmetric])
    also have "\<dots> \<le> unat a * 2 ^ k" using inv(2) by simp
    finally show ?thesis using True u inv(1)
      by (simp add: clz_inv_def clz_step_def na high_bits_zero power_add)
  next
    case False
    moreover have "64 - k = j" using assms(2) by simp
    ultimately have "2 ^ (64 - k) \<le> unat a" by (simp only: not_less)
    with False inv show ?thesis by (simp add: clz_inv_def clz_step_def na high_bits_zero)
  qed
qed

text \<open>\<open>__clzdi2\<close> counts the leading zeros.\<close>

lemma clzdi2_bounds:
  assumes "a \<noteq> 0"
  shows "clzdi2 a < 64" "2 ^ (63 - clzdi2 a) \<le> unat a" "unat a < 2 ^ (64 - clzdi2 a)"
proof -
  define t where "t = clz_step (NOT (mask 62)) 2 (clz_step (NOT (mask 60)) 4 (clz_step (NOT (mask 56)) 8
    (clz_step (NOT (mask 48)) 16 (clz_step (NOT (mask 32)) 32 (0, a)))))"
  have "clz_inv a (2 * 32) (0, a)" using assms by (simp add: clz_inv_def Suc_le_eq unat_gt_0)
  then have "clz_inv a 32 (clz_step (NOT (mask 32)) 32 (0, a))" by (rule clz_step_inv) simp_all
  then have "clz_inv a (2 * 16) (clz_step (NOT (mask 32)) 32 (0, a))" by simp
  from clz_step_inv [OF this, of 48] have "clz_inv a (2 * 8) (clz_step (NOT (mask 48)) 16 (clz_step (NOT (mask 32)) 32 (0, a)))" by simp
  from clz_step_inv [OF this, of 56]
  have "clz_inv a (2 * 4) (clz_step (NOT (mask 56)) 8 (clz_step (NOT (mask 48)) 16 (clz_step (NOT (mask 32)) 32 (0, a))))" by simp
  from clz_step_inv [OF this, of 60]
  have "clz_inv a (2 * 2) (clz_step (NOT (mask 60)) 4 (clz_step (NOT (mask 56)) 8 (clz_step (NOT (mask 48)) 16
    (clz_step (NOT (mask 32)) 32 (0, a)))))" by simp
  from clz_step_inv [OF this, of 62] have "clz_inv a (2 * 1) t" by (simp add: t_def)
  then have "clz_inv a 1 (clz_step (NOT (mask 63)) 1 t)" by (intro clz_step_inv) simp_all
  moreover have "clzdi2 a = fst (clz_step (NOT (mask 63)) 1 t)"
    unfolding clzdi2_def clz_masks t_def [symmetric] by (cases t) (simp only: clz_step_def Let_def prod.case fst_conv)
  ultimately obtain w where w: "unat (w :: u64) = unat a * 2 ^ clzdi2 a" "2 ^ 63 \<le> unat w"
    by (auto simp: clz_inv_def)
  let ?n = "clzdi2 a"
  have less: "unat a * 2 ^ ?n < 2 ^ 64" using unat_u64_less [of w] w(1) by simp
  have "2 ^ ?n \<le> unat a * 2 ^ ?n" using assms by (simp add: unat_gt_0 Suc_le_eq)
  then have "(2 :: nat) ^ ?n < 2 ^ 64" using less by (rule order_le_less_trans)
  then show n: "?n < 64" by (rule power_less_imp_less_exp [rotated]) simp
  have "(2 :: nat) ^ 63 = 2 ^ (63 - ?n) * 2 ^ ?n" using n by (simp add: power_add [symmetric])
  then have "2 ^ (63 - ?n) * 2 ^ ?n \<le> unat a * 2 ^ ?n" using w by simp
  then show "2 ^ (63 - ?n) \<le> unat a" by simp
  have "(2 :: nat) ^ 64 = 2 ^ (64 - ?n) * 2 ^ ?n" using n by (simp add: power_add [symmetric])
  then have "unat a * 2 ^ ?n < 2 ^ (64 - ?n) * 2 ^ ?n" using less by simp
  then show "unat a < 2 ^ (64 - ?n)" by simp
qed

section \<open>Long division\<close>

lemma bit_63: "bit (w :: u64) 63 \<longleftrightarrow> 2 ^ 63 \<le> unat w"
  using drop_bit_eq_zero_iff_not_bit_last [of w] drop_bit_zero [of 63 w] by auto

lemma sign_mask: "signed_drop_bit 63 (w :: u64) = (if 2 ^ 63 \<le> unat w then - 1 else 0)"
proof (rule bit_word_eqI)
  fix n assume "n < LENGTH(64)"
  then show "bit (signed_drop_bit 63 w) n = bit (if 2 ^ 63 \<le> unat w then - 1 else 0 :: u64) n"
    using bit_63 [of w] by (cases n) (auto simp: bit_signed_drop_bit_iff)
qed

lemma unat_shift_in:
  assumes "unat a < 2 ^ 63" "unat (c :: u64) < 2"
  shows "unat (push_bit 1 a OR c) = 2 * unat a + unat c"
proof -
  have p: "unat (push_bit 1 a) = 2 * unat a" using assms(1) unat_push_bit [of a 1] by simp
  have "push_bit 1 a AND c = 0"
  proof (rule bit_word_eqI)
    fix n
    have "drop_bit 1 c = 0" using assms(2) by (simp only: drop_bit_zero) simp
    then have "\<not> bit (drop_bit 1 c) (n - 1)" by simp
    then show "bit (push_bit 1 a AND c) n = bit 0 n" by (cases n) (auto simp: bit_and_iff bit_push_bit_iff bit_drop_bit_eq bit_0 even_and_iff)
  qed
  then have "push_bit 1 a OR c = push_bit 1 a + c" by (simp add: disjunctive_add_eq_or)
  then show ?thesis using assms p by (simp add: unat_word_ariths)
qed

text \<open>One round: the remainder of the division of the numerator's leading bits.\<close>

lemma div_round:
  assumes "unat rem < unat b" "unat (b :: u64) \<le> 2 ^ 63" "x < 2" "unat rem1 = 2 * unat rem + x"
  defines "wrap \<equiv> signed_drop_bit 63 (b - rem1 - 1)"
  shows "wrap = (if unat b \<le> unat rem1 then - 1 else 0)"
    and "unat (rem1 - (b AND wrap)) = (if unat b \<le> unat rem1 then unat rem1 - unat b else unat rem1)"
    and "unat (rem1 - (b AND wrap)) < unat b"
proof -
  show w: "wrap = (if unat b \<le> unat rem1 then - 1 else 0)"
  proof (cases "unat b \<le> unat rem1")
    case True
    then have d: "unat (rem1 - b) = unat rem1 - unat b" by (simp add: unat_sub_if')
    then have e: "unat (rem1 - b + 1) = unat rem1 - unat b + 1" using assms(1-4) by (simp add: unat_word_ariths)
    have "unat (0 - (rem1 - b + 1)) = 2 ^ 64 - unat (rem1 - b + 1)"
      using e by (subst unat_sub_if') simp
    moreover have "b - rem1 - 1 = 0 - (rem1 - b + 1)" by simp
    ultimately have "unat (b - rem1 - 1) = 2 ^ 64 - (unat rem1 - unat b + 1)" by (simp only: e)
    then have "2 ^ 63 \<le> unat (b - rem1 - 1)" using assms(1-4) by simp
    then show ?thesis using True by (simp only: wrap_def sign_mask if_True)
  next
    case False
    then have "unat (b - rem1) = unat b - unat rem1" by (simp add: unat_sub_if')
    then have "unat (b - rem1 - 1) = unat b - unat rem1 - 1" using False by (simp add: unat_sub_if')
    then show ?thesis using False assms(2) by (simp add: wrap_def sign_mask)
  qed
  show "unat (rem1 - (b AND wrap)) = (if unat b \<le> unat rem1 then unat rem1 - unat b else unat rem1)"
    by (simp add: w unat_sub_if')
  then show "unat (rem1 - (b AND wrap)) < unat b" using assms(1-4) by auto
qed

lemma odd_wrap:
  "unat ((if odd q then - 1 else 0 :: u64) AND 1) = q mod 2"
  by (simp add: odd_iff_mod_2_eq_one)

lemma shifted_numerator:
  fixes a n h :: nat
  assumes "a = (n mod 2 ^ Suc k) * 2 ^ (63 - k) + h" "h < 2 ^ (63 - k)" "k < 64"
  shows "a div 2 ^ 63 = n div 2 ^ k mod 2" "a mod 2 ^ 63 = (n mod 2 ^ k) * 2 ^ (63 - k) + h"
proof -
  define x r where "x = n div 2 ^ k mod 2" and "r = n mod 2 ^ k"
  have p: "(2 :: nat) ^ 63 = 2 ^ k * 2 ^ (63 - k)" using assms(3) by (simp add: power_add [symmetric])
  have "n mod 2 ^ Suc k = 2 ^ k * x + r" unfolding x_def r_def by (simp add: mod_mult2_eq mult.commute [of 2])
  then have a: "a = x * 2 ^ 63 + (r * 2 ^ (63 - k) + h)" by (simp only: assms(1) p) (simp add: algebra_simps)
  have "r * 2 ^ (63 - k) + h < (r + 1) * 2 ^ (63 - k)" using assms(2) by simp
  also have "\<dots> \<le> 2 ^ k * 2 ^ (63 - k)" by (intro mult_right_mono) (simp_all add: r_def Suc_leI)
  finally have less: "r * 2 ^ (63 - k) + h < 2 ^ 63" by (simp only: p)
  show "a div 2 ^ 63 = n div 2 ^ k mod 2" "a mod 2 ^ 63 = (n mod 2 ^ k) * 2 ^ (63 - k) + h"
    using less unfolding a by (simp_all add: x_def r_def)
qed

text \<open>The invariant of the loop: \<open>q\<close> is the quotient of the numerator's leading bits.\<close>

lemma div_loop_correct:
  assumes "unat b \<le> 2 ^ 63" "bits < 64" "unat rem < unat b"
    "n div 2 ^ bits = q * unat b + unat rem" "q < 2 ^ (64 - bits)" "wrap = (if odd q then - 1 else 0)"
    "unat a = (n mod 2 ^ bits) * 2 ^ (64 - bits) + q div 2"
    "div_loop b bits (a, rem, wrap) = (a', rem', wrap')"
  shows "unat rem' = n mod unat b \<and> unat (push_bit 1 a' OR (wrap' AND 1)) = n div unat b"
  using assms(2-8)
proof (induction bits arbitrary: a rem wrap q)
  case 0
  have "n = q * unat b + unat rem" "unat a = q div 2" using 0 by simp_all
  moreover from this have "unat a < 2 ^ 63" using 0(4) by simp
  ultimately show ?case using 0(2,5,7) unat_shift_in [of a "wrap AND 1"]
    by (auto simp: odd_wrap)
next
  case (Suc bits)
  define x where "x = unat a div 2 ^ 63"
  define rem1 where "rem1 = push_bit 1 rem OR drop_bit 63 a"
  define wrap1 where "wrap1 = signed_drop_bit 63 (b - rem1 - 1)"
  define a1 where "a1 = push_bit 1 a OR (wrap AND 1)"
  define q1 where "q1 = 2 * q + (if unat b \<le> unat rem1 then 1 else 0)"
  have k: "bits < 64" using Suc.prems(1) by simp
  have q: "q < 2 ^ (63 - bits)" using Suc.prems(4) by simp
  have "q div 2 < 2 ^ (63 - bits)" using q by simp
  from shifted_numerator [OF _ this k, of "unat a" n] Suc.prems(6)
  have a: "x = n div 2 ^ bits mod 2" "unat a mod 2 ^ 63 = (n mod 2 ^ bits) * 2 ^ (63 - bits) + q div 2"
    by (simp_all add: x_def)
  have x: "x < 2" by (simp add: a)
  have drop: "unat (drop_bit 63 a) = x" unfolding x_def unat_drop_bit_eq by (rule drop_bit_eq_div)
  have rem1: "unat rem1 = 2 * unat rem + x"
    unfolding rem1_def using unat_shift_in [of rem "drop_bit 63 a"] Suc.prems(2) assms(1) x drop by simp
  note r = div_round [OF Suc.prems(2) assms(1) x rem1, folded wrap1_def]
  have "push_bit 1 a = push_bit 1 (take_bit 63 a)"
    by (rule bit_word_eqI) (simp only: bit_push_bit_iff bit_take_bit_iff, auto)
  moreover have "unat (take_bit 63 a) = unat a mod 2 ^ 63" by (simp only: unsigned_take_bit_eq) (simp only: take_bit_eq_mod)
  ultimately have "unat a1 = 2 * (unat a mod 2 ^ 63) + q mod 2"
    unfolding a1_def Suc.prems(5) using unat_shift_in [of "take_bit 63 a" "(if odd q then - 1 else 0) AND 1"]
    by (simp add: odd_wrap)
  also have "\<dots> = (n mod 2 ^ bits) * (2 * 2 ^ (63 - bits)) + q" unfolding a(2) by (simp add: algebra_simps)
  also have "(2 :: nat) * 2 ^ (63 - bits) = 2 ^ (64 - bits)"
    using k Suc.prems(1) by (simp add: power_Suc [symmetric] Suc_diff_Suc del: power_Suc)
  finally have a1: "unat a1 = (n mod 2 ^ bits) * 2 ^ (64 - bits) + q1 div 2" by (simp add: q1_def)
  have "n div 2 ^ bits = 2 * (n div 2 ^ Suc bits) + x" unfolding a(1)
    by (simp add: div_mult2_eq mult.commute [of 2])
  also have "\<dots> = 2 * q * unat b + unat rem1" using Suc.prems(3) rem1 by (simp add: algebra_simps)
  also have "\<dots> = q1 * unat b + unat (rem1 - (b AND wrap1))" unfolding r(2) q1_def by (auto simp: algebra_simps)
  finally have n: "n div 2 ^ bits = q1 * unat b + unat (rem1 - (b AND wrap1))" .
  have q1: "q1 < 2 ^ (64 - bits)" using q \<open>2 * 2 ^ (63 - bits) = 2 ^ (64 - bits)\<close> by (simp add: q1_def)
  have "div_loop b bits (a1, rem1 - (b AND wrap1), wrap1) = (a', rem', wrap')"
    using Suc.prems(7) unfolding div_loop.simps Let_def rem1_def a1_def wrap1_def .
  moreover have "wrap1 = (if odd q1 then - 1 else 0)" by (simp add: r(1) q1_def)
  ultimately show ?case using k by (intro Suc.IH [OF _ r(3) n q1 _ a1]) simp_all
qed

text \<open>A divisor with its top bit set takes one round.\<close>

lemma clz_top: "2 ^ 63 \<le> unat a \<Longrightarrow> clzdi2 a = 0"
proof (rule ccontr)
  assume a: "2 ^ 63 \<le> unat a" "clzdi2 a \<noteq> 0"
  then have "a \<noteq> 0" by auto
  then have "unat a < 2 ^ (64 - clzdi2 a)" by (rule clzdi2_bounds)
  also have "\<dots> \<le> 2 ^ 63" using a(2) by (intro power_increasing) simp_all
  finally show False using a(1) by simp
qed

lemma clz_less:
  assumes "unat b \<le> unat a" "b \<noteq> 0"
  shows "clzdi2 a \<le> clzdi2 b"
proof (rule ccontr)
  assume less: "\<not> clzdi2 a \<le> clzdi2 b"
  have "a \<noteq> 0" using assms by (auto simp: word_unat_eq_iff)
  then have "unat a < 2 ^ (64 - clzdi2 a)" by (rule clzdi2_bounds)
  also have "\<dots> \<le> 2 ^ (63 - clzdi2 b)" using less by (intro power_increasing) simp_all
  also have "\<dots> \<le> unat b" using assms(2) by (rule clzdi2_bounds)
  finally show False using assms(1) by simp
qed

lemma unat_hi: "unat (arith64_hi a) = unat a div 2 ^ 32"
proof -
  have less: "unat a div 2 ^ 32 < 2 ^ 32" using unat_u64_less [of a] by (simp add: less_mult_imp_div_less)
  have d: "unat (drop_bit 32 a) = unat a div 2 ^ 32" unfolding unat_drop_bit_eq by (rule drop_bit_eq_div)
  show ?thesis unfolding arith64_hi_def unsigned_ucast_eq d using less by (simp add: take_bit_nat_eq_self)
qed

lemma hi_zero: "arith64_hi a = 0 \<longleftrightarrow> unat a < 2 ^ 32"
  by (simp only: word_unat_eq_iff [of "arith64_hi a"] unat_hi unat_0 div_eq_0_iff) simp

lemma unat_lo: "unat a < 2 ^ 32 \<Longrightarrow> unat (arith64_lo a) = unat a"
  by (simp add: arith64_lo_def unsigned_ucast_eq take_bit_nat_eq_self)

lemma narrow_division:
  "unat a < 2 ^ 32 \<Longrightarrow> unat b < 2 ^ 32 \<Longrightarrow>
     ucast (arith64_lo a div arith64_lo b) = a div b \<and> ucast (arith64_lo a mod arith64_lo b) = a mod b"
proof -
  assume "unat a < 2 ^ 32" "unat b < 2 ^ 32"
  then have "unat (arith64_lo a) = unat a" "unat (arith64_lo b) = unat b" by (simp_all add: unat_lo)
  moreover have "unat (ucast (w :: u32) :: u64) = unat w" for w
    using unat_u32_less [of w] by (simp add: unsigned_ucast_eq take_bit_nat_eq_self)
  ultimately show ?thesis by (simp only: word_unat_eq_iff unat_div unat_mod)
qed

text \<open>The long division, from the state that \<open>__divmoddi4\<close> starts it in.\<close>

lemma long_division:
  assumes "unat b \<le> unat a" "2 \<le> unat b"
  defines "bits \<equiv> nat (int (clzdi2 b) - int (clzdi2 a) + 1)"
  assumes "div_loop b bits (push_bit (64 - bits) a, drop_bit bits a, 0) = (a', rem', wrap')"
  shows "unat rem' = unat a mod unat b \<and> unat (push_bit 1 a' OR (wrap' AND 1)) = unat a div unat b"
proof -
  have b: "b \<noteq> 0" using assms(2) by auto
  have a: "a \<noteq> 0" using assms(1,2) by (auto simp: word_unat_eq_iff)
  note clz = clzdi2_bounds [OF a] clzdi2_bounds [OF b] clz_less [OF assms(1) b]
  have "clzdi2 b \<le> 62"
  proof (rule ccontr)
    assume "\<not> clzdi2 b \<le> 62"
    then have "(2 :: nat) ^ (64 - clzdi2 b) \<le> 2 ^ 1" by (intro power_increasing) simp_all
    then show False using clz(6) assms(2) by simp
  qed
  then have bits: "bits = clzdi2 b - clzdi2 a + 1" "bits < 64" using clz(7) by (simp_all add: bits_def)
  have top: "64 - bits + bits = 64" using bits(2) by simp
  have drop: "unat (drop_bit bits a) = unat a div 2 ^ bits" unfolding unat_drop_bit_eq by (rule drop_bit_eq_div)
  show ?thesis
  proof (cases "unat b \<le> 2 ^ 63")
    case True
    have "63 - clzdi2 b + bits = 64 - clzdi2 a" using bits(1) clz(1,4,7) by simp
    then have "(2 :: nat) ^ (64 - clzdi2 a) = 2 ^ (63 - clzdi2 b) * 2 ^ bits" by (simp only: power_add [symmetric])
    then have "unat a div 2 ^ bits < 2 ^ (63 - clzdi2 b)" using clz(3) by (simp add: less_mult_imp_div_less)
    then have rem: "unat (drop_bit bits a) < unat b" using clz(5) drop by simp
    have "push_bit (64 - bits) a = push_bit (64 - bits) (take_bit bits a)"
      using bits(2) by (intro bit_word_eqI) (simp only: bit_push_bit_iff bit_take_bit_iff, auto)
    moreover have t: "unat (take_bit bits a) = unat a mod 2 ^ bits"
      by (simp only: unsigned_take_bit_eq) (simp only: take_bit_eq_mod)
    moreover have "unat a mod 2 ^ bits * 2 ^ (64 - bits) < 2 ^ bits * 2 ^ (64 - bits)" by simp
    then have "unat (take_bit bits a) * 2 ^ (64 - bits) < 2 ^ 64"
      unfolding t power_add [symmetric] using top by (simp add: add.commute)
    ultimately have "unat (push_bit (64 - bits) a) = (unat a mod 2 ^ bits) * 2 ^ (64 - bits)"
      using unat_push_bit [of "take_bit bits a" "64 - bits"] by simp
    then show ?thesis using drop assms(4)
      by (intro div_loop_correct [OF True bits(2) rem, where q = 0]) simp_all
  next
    case False
    then have 1: "bits = 1" using assms(1) by (simp add: bits_def clz_top)
    have "bit (push_bit 1 (drop_bit 1 a) OR drop_bit 63 (push_bit 63 a)) n = bit a n" if "n < LENGTH(64)" for n
      using that by (cases n) (auto simp only: bit_or_iff bit_push_bit_iff bit_drop_bit_eq comp_def, auto)
    then have rem1: "push_bit 1 (drop_bit 1 a) OR drop_bit 63 (push_bit 63 a) = a" by (rule bit_word_eqI)
    have a1: "push_bit 1 (push_bit 63 a) = 0"
      by (rule bit_word_eqI) (simp only: bit_push_bit_iff, auto)
    have less: "unat a - unat b + 1 \<le> 2 ^ 63" using False unat_u64_less [of a] by simp
    have "unat (a - b) = unat a - unat b" using assms(1) by (simp add: unat_sub_if')
    then have e: "unat (a - b + 1) = unat a - unat b + 1" using less by (simp add: unat_word_ariths)
    have "unat (0 - (a - b + 1)) = 2 ^ 64 - unat (a - b + 1)" using e by (subst unat_sub_if') simp
    moreover have "b - a - 1 = 0 - (a - b + 1)" by simp
    ultimately have "unat (b - a - 1) = 2 ^ 64 - (unat a - unat b + 1)" by (simp only: e)
    then have wrap: "signed_drop_bit 63 (b - a - 1) = - 1" using less by (simp only: sign_mask) simp
    have "div_loop b bits (push_bit (64 - bits) a, drop_bit bits a, 0) = (0, a - b, - 1)"
      unfolding 1 One_nat_def div_loop.simps Let_def using rem1 a1 wrap by simp
    then have r: "a' = 0" "rem' = a - b" "wrap' = - 1" using assms(4) by simp_all
    have "unat a < 2 * unat b" using False unat_u64_less [of a] by simp
    then have "unat a div unat b = 1" "unat a mod unat b = unat a - unat b"
      using assms(1,2) by (simp_all add: div_nat_eqI mod_if div_if) 
    then show ?thesis using \<open>unat (a - b) = unat a - unat b\<close> by (simp add: r)
  qed
qed

text \<open>C11: The shift-and-subtract division of the C library is the division of unsigned 64-bit numbers, with
  quotient and remainder; by zero it traps.\<close>

theorem division_correct:
  "divmoddi4 a b = (if b = 0 then None else Some (a div b, a mod b)) \<and>
   udivdi3 a b = (if b = 0 then None else Some (a div b)) \<and>
   umoddi3 a b = (if b = 0 then None else Some (a mod b))"
proof -
  have "divmoddi4 a b = (if b = 0 then None else Some (a div b, a mod b))"
  proof (cases "unat a < unat b \<or> unat b < 2 \<or> unat a < 2 ^ 32 \<and> unat b < 2 ^ 32")
    case True
    have small: "unat b < 2 \<Longrightarrow> b = 0 \<or> b = 1" by (auto simp: word_unat_eq_iff)
    have less: "unat a < unat b \<Longrightarrow> a div b = 0 \<and> a mod b = a"
      by (simp add: word_unat_eq_iff unat_div unat_mod)
    have "arith64_hi 0 = 0" "arith64_hi 1 = 0" by (simp_all add: hi_zero)
    then show ?thesis using True less small
      by (auto simp: divmoddi4_def hi_zero narrow_division word_less_nat_alt)
  next
    case False
    then have b: "unat b \<le> unat a" "2 \<le> unat b" "\<not> a < b" "b \<noteq> 0" "b \<noteq> 1" "\<not> (arith64_hi b = 0 \<and> arith64_hi a = 0)"
      by (auto simp: hi_zero word_less_nat_alt)
    define bits where "bits = nat (int (clzdi2 b) - int (clzdi2 a) + 1)"
    obtain a' rem' wrap' where l: "div_loop b bits (push_bit (64 - bits) a, drop_bit bits a, 0) = (a', rem', wrap')"
      by (cases "div_loop b bits (push_bit (64 - bits) a, drop_bit bits a, 0)")
    have "unat rem' = unat (a mod b) \<and> unat (push_bit 1 a' OR (wrap' AND 1)) = unat (a div b)"
      using long_division [OF b(1,2) l [unfolded bits_def]] by (simp only: unat_div unat_mod)
    then have "rem' = a mod b" "push_bit 1 a' OR (wrap' AND 1) = a div b" by (simp_all only: word_unat_eq_iff)
    then show ?thesis using b(3-6) l by (auto simp: divmoddi4_def bits_def [symmetric] Let_def)
  qed
  then show ?thesis by (simp add: udivdi3_def umoddi3_def)
qed

end
