(* ===== verification/LongDouble.thy ===== *)
theory LongDouble
  imports Arith64
begin

text \<open>
  The arithmetic of \<open>long double\<close> and \<open>double\<close> that the C library uses: the 80-bit format of the x87, rounding to
  nearest with ties to even, and the conversions to and from 32-bit and 64-bit numbers. A number is its bits;
  \<open>ld_class\<close> is what the bits mean: \<open>Ld_Fin s m e\<close> is \<open>m * 2^e\<close>, negative when \<open>s\<close>. Of a NaN only the
  sign is kept; an invalid operation gives the default NaN, which is negative. A \<open>double\<close> variable is rounded whenever it is assigned.
\<close>

section \<open>The format\<close>

record ldshape =
  ld_m :: u64
  ld_se :: u16

datatype ld_kind = Ld_NaN bool | Ld_Inf bool | Ld_Fin bool nat int

text \<open>The smallest exponent, that of zeros and subnormal numbers.\<close>

abbreviation "LD_EMIN \<equiv> - 16445 :: int"

definition ld_make :: "bool \<Rightarrow> u64 \<Rightarrow> nat \<Rightarrow> ldshape" where
  "ld_make s m e = \<lparr>ld_m = m, ld_se = of_nat (e + (if s then 32768 else 0))\<rparr>"

definition ld_sign :: "ldshape \<Rightarrow> bool" where
  "ld_sign x \<longleftrightarrow> 32768 \<le> unat (ld_se x)"

definition ld_exp :: "ldshape \<Rightarrow> nat" where
  "ld_exp x = unat (ld_se x) mod 32768"

definition ld_class :: "ldshape \<Rightarrow> ld_kind" where
  "ld_class x =
     (let m = unat (ld_m x) in
      if ld_exp x = 0x7FFF then if m = 2 ^ 63 then Ld_Inf (ld_sign x) else Ld_NaN (ld_sign x)
      else if ld_exp x = 0 then Ld_Fin (ld_sign x) m LD_EMIN
      else if m < 2 ^ 63 then Ld_NaN True
      else Ld_Fin (ld_sign x) m (int (ld_exp x) - 16446))"

definition ld_is_nan :: "ldshape \<Rightarrow> bool" where
  "ld_is_nan x \<longleftrightarrow> (case ld_class x of Ld_NaN _ \<Rightarrow> True | _ \<Rightarrow> False)"

definition ld_nan :: "bool \<Rightarrow> ldshape" where
  "ld_nan s = ld_make s (push_bit 62 3) 0x7FFF"

definition ld_inf :: "bool \<Rightarrow> ldshape" where
  "ld_inf s = ld_make s (push_bit 63 1) 0x7FFF"

definition ld_zero :: "bool \<Rightarrow> ldshape" where
  "ld_zero s = ld_make s 0 0"

section \<open>Rounding\<close>

fun bit_length :: "nat \<Rightarrow> nat" where
  "bit_length n = (if n = 0 then 0 else Suc (bit_length (n div 2)))"

declare bit_length.simps [simp del]

text \<open>\<open>m / 2^k\<close>, to nearest, ties to even.\<close>

definition round_shift :: "nat \<Rightarrow> nat \<Rightarrow> nat" where
  "round_shift m k =
     (let q = m div 2 ^ k; r = m mod 2 ^ k in if 2 ^ k < 2 * r \<or> (2 * r = 2 ^ k \<and> odd q) then q + 1 else q)"

text \<open>\<open>m * 2^e\<close> with a mantissa of at most \<open>p\<close> bits and an exponent from \<open>emin\<close>.\<close>

definition round_to :: "nat \<Rightarrow> int \<Rightarrow> nat \<Rightarrow> int \<Rightarrow> nat \<times> int" where
  "round_to p emin m e =
     (let sh = max (int (bit_length m) - int p) (emin - e);
          q = (if sh \<le> 0 then m * 2 ^ nat (- sh) else round_shift m (nat sh))
      in if q = 2 ^ p then (2 ^ (p - 1), e + sh + 1) else (q, e + sh))"

definition ld_round :: "bool \<Rightarrow> nat \<Rightarrow> int \<Rightarrow> ldshape" where
  "ld_round s m e =
     (if m = 0 then ld_zero s
      else case round_to 64 LD_EMIN m e of (q, e') \<Rightarrow>
        if q < 2 ^ 63 then ld_make s (of_nat q) 0
        else if 0x7FFF \<le> e' + 16446 then ld_inf s
        else ld_make s (of_nat q) (nat (e' + 16446)))"

section \<open>Arithmetic\<close>

definition signed_nat :: "bool \<Rightarrow> nat \<Rightarrow> int" where
  "signed_nat s m = (if s then - int m else int m)"

definition ld_neg :: "ldshape \<Rightarrow> ldshape" where
  "ld_neg x = x\<lparr>ld_se := ld_se x XOR 0x8000\<rparr>"

fun class_add :: "ld_kind \<Rightarrow> ld_kind \<Rightarrow> ldshape" where
  "class_add (Ld_Fin s1 m1 e1) (Ld_Fin s2 m2 e2) =
     (let e = min e1 e2;
          a = signed_nat s1 (m1 * 2 ^ nat (e1 - e)) + signed_nat s2 (m2 * 2 ^ nat (e2 - e))
      in if a = 0 then ld_zero (s1 \<and> s2) else ld_round (a < 0) (nat \<bar>a\<bar>) e)"
| "class_add (Ld_Inf s1) (Ld_Inf s2) = (if s1 = s2 then ld_inf s1 else ld_nan True)"
| "class_add (Ld_Inf s1) (Ld_Fin s2 m2 e2) = ld_inf s1"
| "class_add (Ld_Fin s1 m1 e1) (Ld_Inf s2) = ld_inf s2"
| "class_add (Ld_NaN s1) _ = ld_nan s1"
| "class_add _ (Ld_NaN s2) = ld_nan s2"

definition ld_add :: "ldshape \<Rightarrow> ldshape \<Rightarrow> ldshape" where
  "ld_add x y = class_add (ld_class x) (ld_class y)"

definition ld_sub :: "ldshape \<Rightarrow> ldshape \<Rightarrow> ldshape" where
  "ld_sub x y = ld_add x (if ld_is_nan y then y else ld_neg y)"

fun class_mul :: "ld_kind \<Rightarrow> ld_kind \<Rightarrow> ldshape" where
  "class_mul (Ld_Fin s1 m1 e1) (Ld_Fin s2 m2 e2) = ld_round (s1 \<noteq> s2) (m1 * m2) (e1 + e2)"
| "class_mul (Ld_Inf s1) (Ld_Inf s2) = ld_inf (s1 \<noteq> s2)"
| "class_mul (Ld_Inf s1) (Ld_Fin s2 m2 e2) = (if m2 = 0 then ld_nan True else ld_inf (s1 \<noteq> s2))"
| "class_mul (Ld_Fin s1 m1 e1) (Ld_Inf s2) = (if m1 = 0 then ld_nan True else ld_inf (s1 \<noteq> s2))"
| "class_mul (Ld_NaN s1) _ = ld_nan s1"
| "class_mul _ (Ld_NaN s2) = ld_nan s2"

definition ld_mul :: "ldshape \<Rightarrow> ldshape \<Rightarrow> ldshape" where
  "ld_mul x y = class_mul (ld_class x) (ld_class y)"

text \<open>The quotient has at least 65 bits and a last bit that tells whether there is a remainder.\<close>

fun class_div :: "ld_kind \<Rightarrow> ld_kind \<Rightarrow> ldshape" where
  "class_div (Ld_Fin s1 m1 e1) (Ld_Fin s2 m2 e2) =
     (if m2 = 0 then if m1 = 0 then ld_nan True else ld_inf (s1 \<noteq> s2)
      else
        let k = 66 + bit_length m2;
            n = m1 * 2 ^ k
        in ld_round (s1 \<noteq> s2) (2 * (n div m2) + (if n mod m2 = 0 then 0 else 1)) (e1 - e2 - int k - 1))"
| "class_div (Ld_Inf s1) (Ld_Fin s2 m2 e2) = ld_inf (s1 \<noteq> s2)"
| "class_div (Ld_Fin s1 m1 e1) (Ld_Inf s2) = ld_zero (s1 \<noteq> s2)"
| "class_div (Ld_NaN s1) _ = ld_nan s1"
| "class_div _ (Ld_NaN s2) = ld_nan s2"
| "class_div (Ld_Inf s1) (Ld_Inf s2) = ld_nan True"

definition ld_div :: "ldshape \<Rightarrow> ldshape \<Rightarrow> ldshape" where
  "ld_div x y = class_div (ld_class x) (ld_class y)"

text \<open>Comparisons are false for NaNs.\<close>

fun class_less :: "ld_kind \<Rightarrow> ld_kind \<Rightarrow> bool" where
  "class_less (Ld_Fin s1 m1 e1) (Ld_Fin s2 m2 e2) \<longleftrightarrow>
     (let e = min e1 e2 in signed_nat s1 (m1 * 2 ^ nat (e1 - e)) < signed_nat s2 (m2 * 2 ^ nat (e2 - e)))"
| "class_less (Ld_Inf s1) (Ld_Inf s2) \<longleftrightarrow> s1 \<and> \<not> s2"
| "class_less (Ld_Inf s1) (Ld_Fin s2 m2 e2) \<longleftrightarrow> s1"
| "class_less (Ld_Fin s1 m1 e1) (Ld_Inf s2) \<longleftrightarrow> \<not> s2"
| "class_less _ _ \<longleftrightarrow> False"

definition ld_less :: "ldshape \<Rightarrow> ldshape \<Rightarrow> bool" where
  "ld_less x y = class_less (ld_class x) (ld_class y)"

definition ld_less_eq :: "ldshape \<Rightarrow> ldshape \<Rightarrow> bool" where
  "ld_less_eq x y \<longleftrightarrow> \<not> ld_is_nan x \<and> \<not> ld_is_nan y \<and> \<not> ld_less y x"

definition ld_equal :: "ldshape \<Rightarrow> ldshape \<Rightarrow> bool" where
  "ld_equal x y \<longleftrightarrow> ld_less_eq x y \<and> \<not> ld_less x y"

text \<open>The truth value of a number.\<close>

definition ld_true :: "ldshape \<Rightarrow> bool" where
  "ld_true x \<longleftrightarrow> \<not> ld_equal x (ld_zero False)"

section \<open>Conversions\<close>

definition ld_of_int :: "int \<Rightarrow> ldshape" where
  "ld_of_int i = ld_round (i < 0) (nat \<bar>i\<bar>) 0"

text \<open>\<open>2^n\<close>.\<close>

definition ld_power :: "int \<Rightarrow> ldshape" where
  "ld_power n = ld_round False 1 n"

text \<open>To an integer, towards zero; \<open>None\<close> for infinities and NaNs.\<close>

definition ld_trunc :: "ldshape \<Rightarrow> int option" where
  "ld_trunc x =
     (case ld_class x of
        Ld_Fin s m e \<Rightarrow> Some (signed_nat s (if 0 \<le> e then m * 2 ^ nat e else m div 2 ^ nat (- e)))
      | _ \<Rightarrow> None)"

text \<open>The formats with a fraction of \<open>f\<close> bits below an exponent field of \<open>w\<close> bits.\<close>

definition small_bits :: "nat \<Rightarrow> nat \<Rightarrow> ldshape \<Rightarrow> nat" where
  "small_bits f w x =
     (let top = 2 ^ w - 1; sign = (\<lambda>s. if s then 2 ^ (f + w) else 0); emin = 2 - 2 ^ (w - 1) - int f in
      case ld_class x of
        Ld_NaN s \<Rightarrow> top * 2 ^ f + 2 ^ (f - 1) + sign s
      | Ld_Inf s \<Rightarrow> top * 2 ^ f + sign s
      | Ld_Fin s m e \<Rightarrow>
          if m = 0 then sign s
          else case round_to (f + 1) emin m e of (q, e') \<Rightarrow>
            if q < 2 ^ f then q + sign s
            else let be = nat (e' - emin + 1)
                 in if top \<le> be then top * 2 ^ f + sign s else be * 2 ^ f + (q - 2 ^ f) + sign s)"

definition small_class :: "nat \<Rightarrow> nat \<Rightarrow> nat \<Rightarrow> ld_kind" where
  "small_class f w n =
     (let top = 2 ^ w - 1; s = odd (n div 2 ^ (f + w)); be = n div 2 ^ f mod 2 ^ w; m = n mod 2 ^ f; emin = 2 - 2 ^ (w - 1) - int f in
      if be = top then if m = 0 then Ld_Inf s else Ld_NaN s
      else if be = 0 then Ld_Fin s m emin else Ld_Fin s (2 ^ f + m) (emin + int be - 1))"

fun class_ld :: "ld_kind \<Rightarrow> ldshape" where
  "class_ld (Ld_NaN s) = ld_nan s"
| "class_ld (Ld_Inf s) = ld_inf s"
| "class_ld (Ld_Fin s m e) = ld_round s m e"

definition ld_to_double :: "ldshape \<Rightarrow> u64" where
  "ld_to_double x = of_nat (small_bits 52 11 x)"

definition ld_of_double :: "u64 \<Rightarrow> ldshape" where
  "ld_of_double d = class_ld (small_class 52 11 (unat d))"

definition ld_to_float :: "ldshape \<Rightarrow> u32" where
  "ld_to_float x = of_nat (small_bits 23 8 x)"

text \<open>The product of two doubles.\<close>

definition d_mul :: "u64 \<Rightarrow> u64 \<Rightarrow> u64" where
  "d_mul x y = ld_to_double (ld_mul (ld_of_double x) (ld_of_double y))"

definition d_div :: "u64 \<Rightarrow> u64 \<Rightarrow> u64" where
  "d_div x y = ld_to_double (ld_div (ld_of_double x) (ld_of_double y))"

end
