(* ===== verification/LongDoubleExact.thy ===== *)
theory LongDoubleExact
  imports LongDouble Complex_Main
begin

text \<open>
  The arithmetic of LongDouble is exact where the result has a mantissa of 64 bits: \<open>ld_is x v\<close> says that the bits
  \<open>x\<close> are the real number \<open>v\<close>, and \<open>representable v\<close> that there are such bits. Each operation has its lemma.
\<close>

section \<open>Values\<close>

definition fin_val :: "bool \<Rightarrow> nat \<Rightarrow> int \<Rightarrow> real" where
  "fin_val s m e = (if s then - 1 else 1) * real m * 2 powi e"

definition ld_is :: "ldshape \<Rightarrow> real \<Rightarrow> bool" where
  "ld_is x v \<longleftrightarrow> (\<exists>s m e. ld_class x = Ld_Fin s m e \<and> v = fin_val s m e)"

definition ld_limit :: real where
  "ld_limit = 2 powi 16384"

definition representable :: "real \<Rightarrow> bool" where
  "representable v \<longleftrightarrow> (\<exists>q f. q < 2 ^ 64 \<and> LD_EMIN \<le> f \<and> \<bar>v\<bar> = real q * 2 powi f) \<and> \<bar>v\<bar> < ld_limit"

lemma powi_pos [simp]: "0 < (2 :: real) powi e" "\<not> (2 :: real) powi e \<le> 0"
  by (simp_all add: not_le)

lemma powi_add: "2 powi (a + b) = 2 powi a * (2 :: real) powi b"
  by (simp add: power_int_add)

lemma powi_nat: "0 \<le> e \<Longrightarrow> 2 powi e = real (2 ^ nat e)"
  by (simp add: power_int_def)

lemma powi_less_iff: "2 powi a < (2 :: real) powi b \<longleftrightarrow> a < b"
  using power_int_strict_increasing [of a b "2 :: real"] power_int_increasing [of b a "2 :: real"] by (cases "a < b") auto

lemma powi_shift: "f \<le> e \<Longrightarrow> 2 powi e = real (2 ^ nat (e - f)) * 2 powi f"
proof -
  assume "f \<le> e"
  then have "2 powi e = 2 powi (e - f) * (2 powi f :: real)" by (simp flip: power_int_add)
  then show ?thesis using \<open>f \<le> e\<close> by (simp add: powi_nat)
qed

lemma abs_fin_val: "\<bar>fin_val s m e\<bar> = real m * 2 powi e"
  by (simp add: fin_val_def abs_mult)

lemma fin_val_signed: "f \<le> e \<Longrightarrow> fin_val s m e = real_of_int (signed_nat s (m * 2 ^ nat (e - f))) * 2 powi f"
  by (simp add: fin_val_def signed_nat_def powi_shift [of f e])

section \<open>Rounding is exact\<close>

lemma bit_length_bounds: "m \<noteq> 0 \<Longrightarrow> 2 ^ (bit_length m - 1) \<le> m \<and> m < 2 ^ bit_length m \<and> 0 < bit_length m"
proof (induction m rule: bit_length.induct)
  case (1 n)
  show ?case
  proof (cases "n = 1")
    case True
    then show ?thesis by (simp add: bit_length.simps)
  next
    case False
    then have h: "n div 2 \<noteq> 0" using 1(2) by simp
    note ih = 1(1) [OF 1(2) h]
    have b: "bit_length n = Suc (bit_length (n div 2))" using 1(2) by (subst bit_length.simps) simp
    obtain k where k: "bit_length (n div 2) = Suc k" using ih by (cases "bit_length (n div 2)") auto
    have "2 ^ k \<le> n div 2" "n div 2 < 2 ^ Suc k" using ih k by simp_all
    then show ?thesis unfolding b k by (simp, linarith)
  qed
qed

lemma round_shift_exact: "2 ^ k dvd m \<Longrightarrow> round_shift m k = m div 2 ^ k"
  by (simp add: round_shift_def)

lemma unat_of_nat_u64: "q < 2 ^ 64 \<Longrightarrow> unat (of_nat q :: u64) = q"
  by (simp add: unat_of_nat take_bit_eq_mod)

lemma class_make:
  assumes "m < 2 ^ 64" "e < 0x7FFF" "e = 0 \<or> 2 ^ 63 \<le> m"
  shows "ld_class (ld_make s (of_nat m) e) = Ld_Fin s m (if e = 0 then LD_EMIN else int e - 16446)"
proof -
  have u: "unat (of_nat (e + (if s then 32768 else 0)) :: u16) = e + (if s then 32768 else 0)"
    using assms(2) by (subst unat_of_nat) (simp add: take_bit_eq_mod)
  then have "ld_exp (ld_make s (of_nat m) e) = e" "ld_sign (ld_make s (of_nat m) e) = s"
    using assms(2) by (auto simp: ld_exp_def ld_sign_def ld_make_def)
  moreover have "unat (ld_m (ld_make s (of_nat m) e)) = m" using assms(1) by (simp add: ld_make_def unat_of_nat_u64)
  ultimately show ?thesis using assms(2,3) by (cases "e = 0") (auto simp: ld_class_def Let_def)
qed

text \<open>The shift of \<open>round_to\<close> only drops zeros.\<close>

lemma round_to_exact:
  assumes m: "m \<noteq> 0" and v: "real m * 2 powi e = real q * 2 powi f" "q < 2 ^ 64" "LD_EMIN \<le> f"
  obtains r e' where "round_to 64 LD_EMIN m e = (r, e')" "real r * 2 powi e' = real m * 2 powi e" "r < 2 ^ 64" "LD_EMIN \<le> e'"
    "2 ^ 63 \<le> r \<or> e' = LD_EMIN"
proof -
  define b where "b = bit_length m"
  have b: "2 ^ (b - 1) \<le> m" "m < 2 ^ b" "0 < b" using bit_length_bounds [OF m] by (simp_all add: b_def)
  define sh where "sh = max (int b - 64) (LD_EMIN - e)"
  define r where "r = (if sh \<le> 0 then m * 2 ^ nat (- sh) else m div 2 ^ nat sh)"
  have val: "real r * 2 powi (e + sh) = real m * 2 powi e" and small: "r < 2 ^ 64"
    and norm: "2 ^ 63 \<le> r \<or> e + sh = LD_EMIN" and div: "0 < sh \<longrightarrow> 2 ^ nat sh dvd m"
  proof -
    have dvd: "2 ^ nat sh dvd m" if "0 < sh"
    proof -
      have "sh \<le> f - e"
      proof (cases "sh = LD_EMIN - e")
        case True
        then show ?thesis using v(3) by simp
      next
        case False
        then have sh: "sh = int b - 64" by (simp add: sh_def max_def split: if_splits)
        have "2 powi (int b - 1) \<le> real m" using b(1,3) of_nat_le_iff [of "2 ^ (b - 1)" m, where 'a = real]
          by (simp add: powi_nat nat_diff_distrib)
        also have "\<dots> = real q * 2 powi (f - e)" using v(1) by (simp add: power_int_diff field_simps)
        also have "\<dots> < 2 powi 64 * 2 powi (f - e)" using v(2) of_nat_less_iff [of q "2 ^ 64", where 'a = real] by (simp add: powi_nat)
        also have "\<dots> = 2 powi (64 + (f - e))" by (simp add: power_int_add)
        finally have "int b - 1 < 64 + (f - e)" by (simp only: powi_less_iff)
        then show ?thesis using sh by simp
      qed
      then have ef: "0 \<le> f - e" using that by simp
      have "real m = real q * 2 powi (f - e)" using v(1) by (simp add: power_int_diff field_simps)
      then have "real m = real (q * 2 ^ nat (f - e))" using ef by (simp add: powi_nat)
      then have "m = q * 2 ^ nat (f - e)" by (simp only: of_nat_eq_iff)
      moreover have "2 ^ nat sh dvd (2 ^ nat (f - e) :: nat)" using \<open>sh \<le> f - e\<close> by (intro le_imp_power_dvd) simp
      ultimately show ?thesis by simp
    qed
    then show "0 < sh \<longrightarrow> 2 ^ nat sh dvd m" by simp
    have eq: "if sh \<le> 0 then r = m * 2 ^ nat (- sh) else m = r * 2 ^ nat sh" using dvd by (simp add: r_def)
    show "real r * 2 powi (e + sh) = real m * 2 powi e"
    proof (cases "sh \<le> 0")
      case True
      then show ?thesis using eq powi_shift [of "e + sh" e] by simp
    next
      case False
      then show ?thesis using eq powi_shift [of e "e + sh"] by (simp add: mult.assoc)
    qed
    have b64: "int b - sh \<le> 64" by (simp add: sh_def)
    show "r < 2 ^ 64"
    proof (cases "sh \<le> 0")
      case True
      then have "r < 2 ^ b * 2 ^ nat (- sh)" using eq b(2) by simp
      also have "\<dots> = 2 ^ (b + nat (- sh))" by (simp add: power_add)
      also have "\<dots> \<le> 2 ^ 64" using b64 True by (intro power_increasing) simp_all
      finally show ?thesis .
    next
      case False
      then have "r * 2 ^ nat sh < 2 ^ b" using eq b(2) by simp
      also have "(2 :: nat) ^ b \<le> 2 ^ (64 + nat sh)" using b64 False by (intro power_increasing) simp_all
      finally show ?thesis by (simp add: power_add)
    qed
    show "2 ^ 63 \<le> r \<or> e + sh = LD_EMIN"
    proof (cases "sh = LD_EMIN - e")
      case False
      then have sh: "sh = int b - 64" by (simp add: sh_def max_def split: if_splits)
      show ?thesis
      proof (cases "sh \<le> 0")
        case True
        have "2 ^ (b - 1) * 2 ^ nat (- sh) \<le> r" using eq True b(1) by simp
        moreover have "b - 1 + nat (- sh) = 63" using sh True b(3) by simp
        ultimately show ?thesis by (simp flip: power_add)
      next
        case False
        then have "2 ^ (b - 1) \<le> r * 2 ^ nat sh" using eq b(1) by simp
        moreover have "b - 1 = 63 + nat sh" using sh False by simp
        ultimately show ?thesis by (simp add: power_add)
      qed
    qed simp
  qed
  have "round_to 64 LD_EMIN m e = (r, e + sh)"
    using small div by (auto simp: round_to_def Let_def r_def round_shift_exact simp flip: sh_def b_def)
  then show ?thesis using that val small norm by (auto simp: sh_def)
qed

lemma round_is:
  assumes "representable (fin_val s m e)"
  shows "ld_is (ld_round s m e) (fin_val s m e)"
proof (cases "m = 0")
  case True
  then show ?thesis using class_make [of 0 0 s] by (simp add: ld_round_def ld_zero_def ld_is_def fin_val_def)
next
  case False
  obtain q f where v: "real m * 2 powi e = real q * 2 powi f" "q < 2 ^ 64" "LD_EMIN \<le> f" "real m * 2 powi e < ld_limit"
    using assms by (auto simp: representable_def abs_fin_val)
  obtain r e' where r: "round_to 64 LD_EMIN m e = (r, e')" "real r * 2 powi e' = real m * 2 powi e" "r < 2 ^ 64" "LD_EMIN \<le> e'"
    "2 ^ 63 \<le> r \<or> e' = LD_EMIN" by (rule round_to_exact [OF False v(1-3)])
  have val: "fin_val s m e = fin_val s r e'" using r(2) by (simp add: fin_val_def mult.assoc)
  show ?thesis
  proof (cases "r < 2 ^ 63")
    case True
    then have "ld_class (ld_round s m e) = Ld_Fin s r e'" using False r(1,5) class_make [of r 0 s] by (simp add: ld_round_def)
    then show ?thesis by (auto simp: ld_is_def val)
  next
    case big: False
    have "2 powi 63 * 2 powi e' \<le> real r * 2 powi e'" using big of_nat_le_iff [of "2 ^ 63" r, where 'a = real]
      by (intro mult_right_mono) (simp_all add: powi_nat)
    also have "\<dots> < 2 powi 16384" using r(2) v(4) by (simp only: ld_limit_def)
    finally have "2 powi (63 + e') < (2 :: real) powi 16384" by (simp only: powi_add)
    then have "63 + e' < 16384" by (simp only: powi_less_iff)
    moreover have "0 < nat (e' + 16446)" using r(4) by simp
    ultimately have "ld_class (ld_round s m e) = Ld_Fin s r e'"
      using False r big class_make [of r "nat (e' + 16446)" s] by (simp add: ld_round_def)
    then show ?thesis by (auto simp: ld_is_def val)
  qed
qed

section \<open>Operations\<close>

lemma class_finite: "ld_is x v \<Longrightarrow> \<exists>s m e. ld_class x = Ld_Fin s m e \<and> v = fin_val s m e \<and> m < 2 ^ 64 \<and> LD_EMIN \<le> e"
proof -
  assume "ld_is x v"
  then obtain s m e where x: "ld_class x = Ld_Fin s m e" "v = fin_val s m e" by (auto simp: ld_is_def)
  have "m < 2 ^ 64" using x(1) unat_u64_less [of "ld_m x"] by (auto simp: ld_class_def Let_def split: if_splits)
  moreover have "LD_EMIN \<le> e" using x(1) by (auto simp: ld_class_def Let_def split: if_splits)
  ultimately show ?thesis using x by auto
qed

lemma is_zero: "ld_is (ld_zero s) 0"
  using class_make [of 0 0 s] by (simp add: ld_zero_def ld_is_def fin_val_def)

lemma is_add:
  assumes "ld_is x a" "ld_is y b" "representable (a + b)"
  shows "ld_is (ld_add x y) (a + b)"
proof -
  obtain s1 m1 e1 s2 m2 e2 where c: "ld_class x = Ld_Fin s1 m1 e1" "a = fin_val s1 m1 e1" "ld_class y = Ld_Fin s2 m2 e2" "b = fin_val s2 m2 e2"
    using assms(1,2) by (auto simp: ld_is_def)
  define e where "e = min e1 e2"
  define t where "t = signed_nat s1 (m1 * 2 ^ nat (e1 - e)) + signed_nat s2 (m2 * 2 ^ nat (e2 - e))"
  have ab: "a + b = real_of_int t * 2 powi e"
    by (simp add: c(2,4) fin_val_signed [of e e1] fin_val_signed [of e e2] e_def t_def distrib_right)
  have l: "ld_add x y = (if t = 0 then ld_zero (s1 \<and> s2) else ld_round (t < 0) (nat \<bar>t\<bar>) e)"
    by (simp add: ld_add_def c Let_def flip: e_def t_def)
  have "a + b = fin_val (t < 0) (nat \<bar>t\<bar>) e" by (simp add: ab fin_val_def)
  then show ?thesis using l round_is [of "t < 0" "nat \<bar>t\<bar>" e] assms(3) is_zero ab by auto
qed

lemma class_neg: "ld_class x = Ld_Fin s m e \<Longrightarrow> ld_class (ld_neg x) = Ld_Fin (\<not> s) m e"
proof -
  assume x: "ld_class x = Ld_Fin s m e"
  have m: "ld_m (ld_neg x) = ld_m x" by (simp add: ld_neg_def)
  have "0x8000 = (push_bit 15 1 :: u16)" by simp
  then have "bit (0x8000 :: u16) n \<longleftrightarrow> n = 15" for n by (simp only: bit_push_bit_iff bit_1_iff) auto
  then have "take_bit 15 (ld_se (ld_neg x)) = take_bit 15 (ld_se x)"
    by (intro bit_word_eqI) (auto simp: ld_neg_def bit_take_bit_iff bit_xor_iff)
  then have "ld_exp (ld_neg x) = ld_exp x"
    by (simp add: ld_exp_def word_unat_eq_iff unsigned_take_bit_eq) (simp add: take_bit_eq_mod)
  moreover have "ld_sign (ld_neg x) = (\<not> ld_sign x)"
  proof -
    have top: "32768 \<le> unat w \<longleftrightarrow> bit w 15" for w :: u16
    proof -
      have "bit w 15 \<longleftrightarrow> bit (unat w) 15" by (simp only: bit_unsigned_iff) simp
      then have "bit w 15 \<longleftrightarrow> odd (unat w div 2 ^ 15)" by (simp only: bit_iff_odd)
      moreover have "unat w < 2 ^ 16" using unsigned_less [of w] by simp
      moreover have "unat w div 2 ^ 15 = 1" if "32768 \<le> unat w" "unat w < 2 ^ 16" using that by (intro div_nat_eqI) simp_all
      ultimately show ?thesis by (cases "32768 \<le> unat w") (auto simp: div_eq_0_iff)
    qed
    show ?thesis by (simp add: ld_sign_def top) (simp add: ld_neg_def bit_xor_iff \<open>\<And>n. bit (0x8000 :: u16) n \<longleftrightarrow> n = 15\<close>)
  qed
  ultimately show ?thesis using x m by (auto simp: ld_class_def Let_def split: if_splits)
qed

lemma is_neg: "ld_is x a \<Longrightarrow> ld_is (ld_neg x) (- a)"
proof -
  assume "ld_is x a"
  then obtain s m e where "ld_class x = Ld_Fin s m e" "a = fin_val s m e" by (auto simp: ld_is_def)
  then have "ld_class (ld_neg x) = Ld_Fin (\<not> s) m e" "- a = fin_val (\<not> s) m e" by (simp_all add: class_neg fin_val_def)
  then show ?thesis by (auto simp: ld_is_def)
qed

lemma is_sub:
  assumes "ld_is x a" "ld_is y b" "representable (a - b)"
  shows "ld_is (ld_sub x y) (a - b)"
proof -
  have "\<not> ld_is_nan y" using assms(2) by (auto simp: ld_is_nan_def ld_is_def)
  then show ?thesis using is_add [OF assms(1) is_neg [OF assms(2)]] assms(3) by (simp add: ld_sub_def)
qed

lemma is_mul:
  assumes "ld_is x a" "ld_is y b" "representable (a * b)"
  shows "ld_is (ld_mul x y) (a * b)"
proof -
  obtain s1 m1 e1 s2 m2 e2 where c: "ld_class x = Ld_Fin s1 m1 e1" "a = fin_val s1 m1 e1" "ld_class y = Ld_Fin s2 m2 e2" "b = fin_val s2 m2 e2"
    using assms(1,2) by (auto simp: ld_is_def)
  have "a * b = fin_val (s1 \<noteq> s2) (m1 * m2) (e1 + e2)" by (auto simp: c fin_val_def power_int_add)
  then show ?thesis using round_is assms(3) by (simp add: ld_mul_def c)
qed

lemma less_iff: "ld_is x a \<Longrightarrow> ld_is y b \<Longrightarrow> ld_less x y \<longleftrightarrow> a < b"
proof -
  assume "ld_is x a" "ld_is y b"
  then obtain s1 m1 e1 s2 m2 e2 where c: "ld_class x = Ld_Fin s1 m1 e1" "a = fin_val s1 m1 e1" "ld_class y = Ld_Fin s2 m2 e2" "b = fin_val s2 m2 e2"
    by (auto simp: ld_is_def)
  show ?thesis by (simp add: ld_less_def c fin_val_signed [of "min e1 e2" e1] fin_val_signed [of "min e1 e2" e2] Let_def)
qed

lemma true_iff: "ld_is x a \<Longrightarrow> ld_true x \<longleftrightarrow> a \<noteq> 0"
proof -
  assume a: "ld_is x a"
  then have "\<not> ld_is_nan x" "\<not> ld_is_nan (ld_zero False)" using is_zero [of False] by (auto simp: ld_is_nan_def ld_is_def)
  then show ?thesis using less_iff [OF a is_zero [of False]] less_iff [OF is_zero [of False] a]
    by (auto simp: ld_true_def ld_equal_def ld_less_eq_def)
qed

lemma is_trunc:
  assumes "ld_is x a" "0 \<le> a"
  shows "ld_trunc x = Some \<lfloor>a\<rfloor>"
proof -
  obtain s m e where x: "ld_class x = Ld_Fin s m e" "a = fin_val s m e" using assms(1) by (auto simp: ld_is_def)
  have a: "a = real m * 2 powi e"
  proof (cases s)
    case True
    then have "m = 0" using assms(2) x(2) by (simp add: fin_val_def mult_le_0_iff)
    then show ?thesis by (simp add: x(2) fin_val_def)
  qed (simp add: x(2) fin_val_def)
  have s: "signed_nat s k = int k" if "s \<longrightarrow> k = 0" for k using that by (auto simp: signed_nat_def)
  have m: "s \<longrightarrow> m = 0" using a x(2) by (auto simp: fin_val_def)
  show ?thesis
  proof (cases "0 \<le> e")
    case True
    then have "a = of_int (int (m * 2 ^ nat e))" by (simp add: a powi_nat)
    then have "\<lfloor>a\<rfloor> = int (m * 2 ^ nat e)" by (simp only: floor_of_int)
    then show ?thesis using True m by (simp add: ld_trunc_def x(1) s)
  next
    case False
    have "a = real m / real (2 ^ nat (- e))"
      using False by (simp add: a power_int_def field_simps)
    then have "\<lfloor>a\<rfloor> = int (m div 2 ^ nat (- e))" by (simp only: floor_divide_of_nat_eq)
    then show ?thesis using False m by (simp add: ld_trunc_def x(1) s)
  qed
qed

text \<open>What is representable.\<close>

lemma representable_of_nat: "k < 2 ^ 64 \<Longrightarrow> LD_EMIN \<le> f \<Longrightarrow> f \<le> 16000 \<Longrightarrow> representable (real k * 2 powi f)"
proof -
  assume k: "k < 2 ^ 64" and f: "LD_EMIN \<le> f" "f \<le> 16000"
  have "real k * 2 powi f < 2 powi 64 * 2 powi f" using k of_nat_less_iff [of k "2 ^ 64", where 'a = real] by (simp add: powi_nat)
  also have "\<dots> = 2 powi (64 + f)" by (simp only: powi_add)
  also have "\<dots> \<le> ld_limit" unfolding ld_limit_def using f by (intro power_int_increasing) simp_all
  finally show ?thesis using k f by (auto simp: representable_def abs_mult)
qed

lemma representable_int: "\<bar>i\<bar> < 2 ^ 64 \<Longrightarrow> representable (real_of_int i)"
proof -
  assume "\<bar>i\<bar> < 2 ^ 64"
  then have "representable (real (nat \<bar>i\<bar>) * 2 powi 0)" by (intro representable_of_nat) auto
  then show ?thesis by (simp add: representable_def)
qed

lemma is_of_int: "\<bar>i\<bar> < 2 ^ 64 \<Longrightarrow> ld_is (ld_of_int i) (real_of_int i)"
proof -
  assume i: "\<bar>i\<bar> < 2 ^ 64"
  have "real_of_int i = fin_val (i < 0) (nat \<bar>i\<bar>) 0" by (simp add: fin_val_def)
  then show ?thesis using round_is [of "i < 0" "nat \<bar>i\<bar>" 0] representable_int [OF i] by (simp add: ld_of_int_def)
qed

lemma is_power: "- 16000 \<le> n \<Longrightarrow> n \<le> 16000 \<Longrightarrow> ld_is (ld_power n) (2 powi n)"
  using round_is [of False 1 n] representable_of_nat [of 1 n] by (simp add: ld_power_def fin_val_def)

lemma powi_neg: "x * 2 powi (- int j) = x / (2 :: real) ^ j"
  by (simp add: power_int_minus divide_inverse)

section \<open>Integers\<close>

lemma int_class:
  assumes "\<bar>i\<bar> < 2 ^ 64"
  shows "\<exists>m e. ld_class (ld_of_int i) = Ld_Fin (i < 0) m e \<and> real (nat \<bar>i\<bar>) = real m * 2 powi e"
proof (cases "i = 0")
  case True
  then show ?thesis using class_make [of 0 0 False] by (simp add: ld_of_int_def ld_round_def ld_zero_def)
next
  case False
  obtain s m e where c: "ld_class (ld_of_int i) = Ld_Fin s m e" "real_of_int i = fin_val s m e"
    using is_of_int [OF assms] by (auto simp: ld_is_def)
  have pos: "0 \<le> real m * 2 powi e" by simp
  have "s = (i < 0)"
  proof (cases s)
    case True
    then have "real_of_int i \<le> 0" using c(2) pos by (simp add: fin_val_def)
    then show ?thesis using True False by simp
  next
    case False
    then have "0 \<le> real_of_int i" using c(2) pos by (simp add: fin_val_def)
    then show ?thesis using False by simp
  qed
  moreover have "real (nat \<bar>i\<bar>) = real m * 2 powi e" using abs_fin_val [of s m e] c(2) by simp
  ultimately show ?thesis using c(1) by auto
qed

text \<open>A result that is exact does not depend on how its value was written.\<close>

lemma mantissa_unique:
  assumes eq: "real r1 * 2 powi e1 = real r2 * 2 powi e2" and e: "e2 \<le> e1" and b: "r2 < 2 ^ 64" "2 ^ 63 \<le> r1 \<or> e1 = LD_EMIN" "LD_EMIN \<le> e2"
  shows "r1 = r2 \<and> e1 = e2"
proof -
  have "real r2 = real (r1 * 2 ^ nat (e1 - e2))" using eq powi_shift [OF e] by (simp add: mult.assoc)
  then have r: "r2 = r1 * 2 ^ nat (e1 - e2)" by (simp only: of_nat_eq_iff)
  show ?thesis
  proof (cases "e1 = e2")
    case False
    then have "2 ^ 63 \<le> r1" using b(2,3) e by auto
    then have "2 ^ 63 * 2 ^ 1 \<le> r1 * 2 ^ nat (e1 - e2)" using False e by (intro mult_le_mono power_increasing) simp_all
    then show ?thesis using r b(1) by simp
  qed (use r in simp)
qed

lemma round_unique:
  assumes m: "m1 \<noteq> 0" "m2 \<noteq> 0" and eq: "real m1 * 2 powi e1 = real m2 * 2 powi e2"
    and r: "real m1 * 2 powi e1 = real q * 2 powi f" "q < 2 ^ 64" "LD_EMIN \<le> f"
  shows "ld_round s m1 e1 = ld_round s m2 e2"
proof -
  obtain r1 f1 where r1: "round_to 64 LD_EMIN m1 e1 = (r1, f1)" "real r1 * 2 powi f1 = real m1 * 2 powi e1" "r1 < 2 ^ 64" "LD_EMIN \<le> f1"
    "2 ^ 63 \<le> r1 \<or> f1 = LD_EMIN" by (rule round_to_exact [OF m(1) r])
  obtain r2 f2 where r2: "round_to 64 LD_EMIN m2 e2 = (r2, f2)" "real r2 * 2 powi f2 = real m2 * 2 powi e2" "r2 < 2 ^ 64" "LD_EMIN \<le> f2"
    "2 ^ 63 \<le> r2 \<or> f2 = LD_EMIN" using round_to_exact [OF m(2), of e2 q f] r eq by auto
  have "r1 = r2 \<and> f1 = f2"
  proof (cases "f2 \<le> f1")
    case True
    then show ?thesis using mantissa_unique [of r1 f1 r2 f2] r1 r2 eq by simp
  next
    case False
    then show ?thesis using mantissa_unique [of r2 f2 r1 f1] r1 r2 eq by simp
  qed
  then show ?thesis using m r1(1) r2(1) by (simp add: ld_round_def)
qed

lemma round_of_int:
  assumes "i \<noteq> 0" "\<bar>i\<bar> < 2 ^ 64" "real m * 2 powi e = real (nat \<bar>i\<bar>)"
  shows "ld_round (i < 0) m e = ld_of_int i"
proof -
  have "m \<noteq> 0" using assms(1,3) by (intro notI) simp
  then show ?thesis unfolding ld_of_int_def using assms by (intro round_unique [where q = "nat \<bar>i\<bar>" and f = 0]) simp_all
qed

lemma class_bounds: "ld_class x = Ld_Fin s m e \<Longrightarrow> m < 2 ^ 64 \<and> (2 ^ 63 \<le> m \<or> e = LD_EMIN)"
  using unat_u64_less [of "ld_m x"] by (auto simp: ld_class_def Let_def split: if_splits)

lemma int_class_exp:
  assumes "ld_class x = Ld_Fin s m e" "real n = real m * 2 powi e" "n < 2 ^ 64"
  shows "e \<le> 0" "0 < n \<Longrightarrow> - 64 < e"
proof -
  show "e \<le> 0"
  proof (cases "e = LD_EMIN")
    case False
    then have "2 ^ 63 \<le> m" using class_bounds [OF assms(1)] by simp
    then have "2 powi 63 * 2 powi e \<le> real m * 2 powi e" using of_nat_le_iff [of "2 ^ 63" m, where 'a = real]
      by (intro mult_right_mono) (simp_all add: powi_nat)
    also have "\<dots> < 2 powi 64" using assms(2,3) of_nat_less_iff [of n "2 ^ 64", where 'a = real] by (simp add: powi_nat)
    finally have "63 + e < 64" by (simp only: flip: powi_add powi_less_iff)
    then show ?thesis by simp
  qed simp
  assume "0 < n"
  then have "1 \<le> real m * 2 powi e" by (simp flip: assms(2))
  also have "\<dots> < 2 powi 64 * 2 powi e" using class_bounds [OF assms(1)] of_nat_less_iff [of m "2 ^ 64", where 'a = real] by (simp add: powi_nat)
  finally have "2 powi 0 < (2 :: real) powi (64 + e)" by (simp add: powi_add)
  then have "0 < 64 + e" by (simp only: powi_less_iff)
  then show "- 64 < e" by simp
qed

lemma mul_of_int:
  assumes "i \<noteq> 0" "j \<noteq> 0" "\<bar>i * j\<bar> < 2 ^ 64"
  shows "ld_mul (ld_of_int i) (ld_of_int j) = ld_of_int (i * j)"
proof -
  have "\<bar>i\<bar> \<le> \<bar>i\<bar> * \<bar>j\<bar>" "\<bar>j\<bar> \<le> \<bar>i\<bar> * \<bar>j\<bar>" using assms(1,2) mult_mono [of 1 "\<bar>i\<bar>" "\<bar>j\<bar>" "\<bar>j\<bar>"] mult_mono [of "\<bar>i\<bar>" "\<bar>i\<bar>" 1 "\<bar>j\<bar>"] by simp_all
  then have b: "\<bar>i\<bar> < 2 ^ 64" "\<bar>j\<bar> < 2 ^ 64" using assms(3) by (simp_all add: abs_mult)
  obtain m1 e1 m2 e2 where c: "ld_class (ld_of_int i) = Ld_Fin (i < 0) m1 e1" "real (nat \<bar>i\<bar>) = real m1 * 2 powi e1"
    "ld_class (ld_of_int j) = Ld_Fin (j < 0) m2 e2" "real (nat \<bar>j\<bar>) = real m2 * 2 powi e2"
    using int_class [OF b(1)] int_class [OF b(2)] by auto
  have "real (m1 * m2) * 2 powi (e1 + e2) = real (nat \<bar>i\<bar>) * real (nat \<bar>j\<bar>)" by (simp add: c powi_add)
  also have "\<dots> = real (nat \<bar>i * j\<bar>)" by (simp add: abs_mult)
  finally have "ld_round (i * j < 0) (m1 * m2) (e1 + e2) = ld_of_int (i * j)" using assms by (intro round_of_int) simp_all
  moreover have "(i * j < 0) = ((i < 0) \<noteq> (j < 0))" using assms(1,2) by (auto simp: mult_less_0_iff)
  ultimately show ?thesis by (simp add: ld_mul_def c)
qed

lemma div_of_int:
  assumes "i \<noteq> 0" "0 < j" "\<bar>i * j\<bar> < 2 ^ 64"
  shows "ld_div (ld_of_int (i * j)) (ld_of_int j) = ld_of_int i"
proof -
  have "\<bar>i\<bar> \<le> \<bar>i\<bar> * \<bar>j\<bar>" "\<bar>j\<bar> \<le> \<bar>i\<bar> * \<bar>j\<bar>" using assms(1,2) mult_mono [of 1 "\<bar>i\<bar>" "\<bar>j\<bar>" "\<bar>j\<bar>"] mult_mono [of "\<bar>i\<bar>" "\<bar>i\<bar>" 1 "\<bar>j\<bar>"] by simp_all
  then have b: "\<bar>i\<bar> < 2 ^ 64" "\<bar>j\<bar> < 2 ^ 64" using assms(3) by (simp_all add: abs_mult)
  have s: "(i * j < 0) = (i < 0)" "\<not> j < 0" using assms(2) by (auto simp: mult_less_0_iff)
  obtain m1 e1 m2 e2 where c: "ld_class (ld_of_int (i * j)) = Ld_Fin (i < 0) m1 e1" "real (nat \<bar>i * j\<bar>) = real m1 * 2 powi e1"
    "ld_class (ld_of_int j) = Ld_Fin False m2 e2" "real (nat \<bar>j\<bar>) = real m2 * 2 powi e2"
    using int_class [OF assms(3)] int_class [OF b(2)] s by auto
  have m2: "m2 \<noteq> 0" using c(4) assms(2) by (intro notI) simp
  define k where "k = 66 + bit_length m2"
  have "e1 \<le> 0" "- 64 < e2" using int_class_exp(1) [OF c(1,2)] int_class_exp(2) [OF c(3,4)] assms b by simp_all
  then have k: "0 \<le> e2 - e1 + int k" by (simp add: k_def)
  have "real m1 * 2 powi e1 = real (nat \<bar>i\<bar>) * (real m2 * 2 powi e2)" by (simp add: abs_mult flip: c(2,4))
  then have "real m1 = real (nat \<bar>i\<bar>) * real m2 * 2 powi (e2 - e1)" by (simp add: power_int_diff field_simps)
  then have "real m1 * 2 powi int k = real (nat \<bar>i\<bar>) * real m2 * 2 powi (e2 - e1 + int k)" by (simp only: powi_add)
  then have "real (m1 * 2 ^ k) = real (nat \<bar>i\<bar> * m2 * 2 ^ nat (e2 - e1 + int k))" using k by (simp add: powi_nat)
  then have n: "m1 * 2 ^ k = nat \<bar>i\<bar> * 2 ^ nat (e2 - e1 + int k) * m2" by (simp only: of_nat_eq_iff) simp
  have "ld_div (ld_of_int (i * j)) (ld_of_int j) = ld_round (i < 0) (2 * (nat \<bar>i\<bar> * 2 ^ nat (e2 - e1 + int k))) (e1 - e2 - int k - 1)"
    using m2 by (simp add: ld_div_def c Let_def n flip: k_def)
  also have "\<dots> = ld_of_int i"
  proof (rule round_of_int [OF assms(1) b(1)])
    have "real (2 * (nat \<bar>i\<bar> * 2 ^ nat (e2 - e1 + int k))) * 2 powi (e1 - e2 - int k - 1) =
        real (nat \<bar>i\<bar>) * (2 powi 1 * 2 powi (e2 - e1 + int k) * 2 powi (e1 - e2 - int k - 1))" using k by (simp add: powi_nat)
    also have "2 powi 1 * 2 powi (e2 - e1 + int k) * 2 powi (e1 - e2 - int k - 1) = (1 :: real)"
      by (simp only: flip: powi_add) simp
    also have "real (nat \<bar>i\<bar>) * 1 = real (nat \<bar>i\<bar>)" by simp
    finally show "real (2 * (nat \<bar>i\<bar> * 2 ^ nat (e2 - e1 + int k))) * 2 powi (e1 - e2 - int k - 1) = real (nat \<bar>i\<bar>)" .
  qed
  finally show ?thesis .
qed

end
