(* ===== verification/FMath.thy ===== *)
theory FMath
  imports LongDouble "HOL-Library.Monad_Syntax"
begin

text \<open>
  \<open>lib/goblibc/src/fmath.c\<close>: the functions on floating point numbers, which work on their bits, over the arithmetic of
  LongDouble. A double is its 64 bits, a long double its mantissa and its sign and exponent (\<open>union ldshape\<close>).
  \<open>None\<close> is a loop that does not end; that \<open>fmod\<close> returns, and what, is proved in FMathExact.
\<close>

section \<open>Doubles\<close>

definition d_exp :: "u64 \<Rightarrow> u64" where
  "d_exp x = drop_bit 52 x AND 0x7FF"

definition d_manl :: "u64 \<Rightarrow> u64" where
  "d_manl x = x AND 0xFFFFFFFF"

definition d_manh :: "u64 \<Rightarrow> u64" where
  "d_manh x = drop_bit 32 x AND 0xFFFFF"

definition isnan :: "u64 \<Rightarrow> bool" where
  "isnan d \<longleftrightarrow> d_exp d = 2047 \<and> (d_manl d \<noteq> 0 \<or> d_manh d \<noteq> 0)"

definition isnanf :: "u32 \<Rightarrow> bool" where
  "isnanf f \<longleftrightarrow> drop_bit 23 f AND 0xFF = 255 \<and> f AND 0x7FFFFF \<noteq> 0"

definition isfinite :: "u64 \<Rightarrow> bool" where
  "isfinite d \<longleftrightarrow> d_exp d \<noteq> 2047"

definition isfinitef :: "u32 \<Rightarrow> bool" where
  "isfinitef f \<longleftrightarrow> drop_bit 23 f AND 0xFF \<noteq> 255"

definition copysign :: "u64 \<Rightarrow> u64 \<Rightarrow> u64" where
  "copysign x y = (x AND (- 1 div 2)) OR (y AND push_bit 63 1)"

definition fabs :: "u64 \<Rightarrow> u64" where
  "fabs x = x AND (- 1 div 2)"

text \<open>The result is a double: 0.0 or 1.0.\<close>

definition signbit :: "u64 \<Rightarrow> u64" where
  "signbit x = (if drop_bit 63 x = 0 then 0 else 0x3FF0000000000000)"

text \<open>\<open>0x1p1023\<close> and \<open>0x1p-1022 * 0x1p53\<close>.\<close>

definition scalbn :: "u64 \<Rightarrow> int \<Rightarrow> u64" where
  "scalbn x n =
     (let big = 0x7FE0000000000000; small = 0x0360000000000000;
          (y, n') =
            (if n > 1023 then
               if n - 1023 > 1023 then (d_mul (d_mul x big) big, min (n - 1023 - 1023) 1023) else (d_mul x big, n - 1023)
             else if n < - 1022 then
               if n + (1022 - 53) < - 1022 then (d_mul (d_mul x small) small, max (n + (1022 - 53) + (1022 - 53)) (- 1022))
               else (d_mul x small, n + (1022 - 53))
             else (x, n))
      in d_mul y (push_bit 52 (word_of_int (0x3FF + n'))))"

section \<open>The remainder\<close>

text \<open>\<open>0 * x\<close> for a finite number: zero with its sign.\<close>

definition times_zero :: "u64 \<Rightarrow> u64" where
  "times_zero x = x AND push_bit 63 1"

text \<open>\<open>for (i; i >> 63 == 0; ex--, i <<= 1)\<close>\<close>

partial_function (option) leading_exp :: "u64 \<Rightarrow> int \<Rightarrow> int option" where
  "leading_exp i ex = (if drop_bit 63 i = 0 then leading_exp (push_bit 1 i) (ex - 1) else Some ex)"

text \<open>The exponent and the mantissa with its leading bit at 52; \<open>e\<close> is the exponent field.\<close>

definition fmod_normalise :: "u64 \<Rightarrow> int \<Rightarrow> (u64 \<times> int) option" where
  "fmod_normalise i e =
     (if e = 0 then map_option (\<lambda>ex. (push_bit (nat (- ex + 1)) i, ex)) (leading_exp (push_bit 12 i) e)
      else Some ((i AND drop_bit 12 (- 1)) OR push_bit 52 1, e))"

text \<open>The loop of the long division, over the difference of the exponents; \<open>None\<close> is \<open>return 0 * x\<close>.\<close>

fun fmod_steps :: "nat \<Rightarrow> u64 \<Rightarrow> u64 \<Rightarrow> u64 option" where
  "fmod_steps 0 uxi uyi = Some uxi"
| "fmod_steps (Suc n) uxi uyi =
     (let i = uxi - uyi in
      if drop_bit 63 i = 0 then if i = 0 then None else fmod_steps n (push_bit 1 i) uyi
      else fmod_steps n (push_bit 1 uxi) uyi)"

partial_function (option) fmod_shift_up :: "u64 \<Rightarrow> int \<Rightarrow> (u64 \<times> int) option" where
  "fmod_shift_up uxi ex = (if drop_bit 52 uxi = 0 then fmod_shift_up (push_bit 1 uxi) (ex - 1) else Some (uxi, ex))"

definition fmod_scale :: "u64 \<Rightarrow> u64 \<Rightarrow> int \<Rightarrow> u64" where
  "fmod_scale sx uxi ex =
     (if ex > 0 then (uxi - push_bit 52 1) OR push_bit 52 (word_of_int ex) else drop_bit (nat (- ex + 1)) uxi) OR push_bit 63 sx"

text \<open>From the long division on.\<close>

definition fmod_divide :: "u64 \<Rightarrow> u64 \<Rightarrow> int \<Rightarrow> u64 \<Rightarrow> int \<Rightarrow> u64 option" where
  "fmod_divide x uxi ex uyi ey =
     (case fmod_steps (nat (ex - ey)) uxi uyi of None \<Rightarrow> Some (times_zero x)
      | Some u \<Rightarrow>
          let i = u - uyi in
          if drop_bit 63 i = 0 \<and> i = 0 then Some (times_zero x)
          else map_option (\<lambda>(v, e). fmod_scale (drop_bit 63 x) v e) (fmod_shift_up (if drop_bit 63 i = 0 then i else u) (min ex ey)))"

definition fmod :: "u64 \<Rightarrow> u64 \<Rightarrow> u64 option" where
  "fmod x y =
     (if push_bit 1 y = 0 \<or> isnan y \<or> d_exp x = 0x7FF then Some (d_div (d_mul x y) (d_mul x y))
      else if push_bit 1 x \<le> push_bit 1 y then Some (if push_bit 1 x = push_bit 1 y then times_zero x else x)
      else do {
        (uxi, ex) \<leftarrow> fmod_normalise x (uint (d_exp x));
        (uyi, ey) \<leftarrow> fmod_normalise y (uint (d_exp y));
        fmod_divide x uxi ex uyi ey
      })"

section \<open>Long doubles\<close>

definition scalbnl :: "ldshape \<Rightarrow> int \<Rightarrow> ldshape" where
  "scalbnl x n =
     (let big = ld_power 16383; small = ld_power (- 16382 + 113);
          (y, n') =
            (if n > 16383 then
               if n - 16383 > 16383 then (ld_mul (ld_mul x big) big, min (n - 16383 - 16383) 16383) else (ld_mul x big, n - 16383)
             else if n < - 16382 then
               if n + (16382 - 113) < - 16382 then (ld_mul (ld_mul x small) small, max (n + (16382 - 113) + (16382 - 113)) (- 16382))
               else (ld_mul x small, n + (16382 - 113))
             else (x, n))
      in ld_mul y \<lparr>ld_m = push_bit 63 1, ld_se = word_of_int (0x3FFF + n')\<rparr>)"

definition fabsl :: "ldshape \<Rightarrow> ldshape" where
  "fabsl x = x\<lparr>ld_se := ld_se x AND 0x7FFF\<rparr>"

definition copysignl :: "ldshape \<Rightarrow> ldshape \<Rightarrow> ldshape" where
  "copysignl x y = x\<lparr>ld_se := (ld_se x AND 0x7FFF) OR (ld_se y AND 0x8000)\<rparr>"

definition isfinitel :: "ldshape \<Rightarrow> bool" where
  "isfinitel x \<longleftrightarrow> ld_se x AND 0x7FFF \<noteq> 32767"

definition ld_exponent :: "ldshape \<Rightarrow> int" where
  "ld_exponent x = uint (ld_se x AND 0x7FFF)"

text \<open>The exponent is stored through \<open>ex\<close>; for infinities and NaNs it is not.\<close>

definition frexpl :: "ldshape \<Rightarrow> ldshape \<times> int option" where
  "frexpl x =
     (let set_exp = (\<lambda>u. u\<lparr>ld_se := (ld_se u AND 0x8000) OR 0x3FFE\<rparr>) in
      if ld_exponent x = 0 then
        if ld_m x = 0 then (x, Some 0)
        else let u = ld_mul x (ld_power 514) in (set_exp u, Some (ld_exponent u - 0x4200))
      else if ld_exponent x = 0x7FFF then (x, None)
      else (set_exp x, Some (ld_exponent x - 0x3FFE)))"

fun fmodl_steps :: "nat \<Rightarrow> u64 \<Rightarrow> u64 \<Rightarrow> u64 option" where
  "fmodl_steps 0 mx my = Some mx"
| "fmodl_steps (Suc n) mx my =
     (let i = mx - my in
      if mx \<ge> my then if i = 0 then None else fmodl_steps n (2 * i) my
      else if 2 * mx < mx then fmodl_steps n (2 * mx - my) my
      else fmodl_steps n (2 * mx) my)"

partial_function (option) fmodl_shift_up :: "u64 \<Rightarrow> int \<Rightarrow> (u64 \<times> int) option" where
  "fmodl_shift_up mx ex = (if drop_bit 63 mx = 0 then fmodl_shift_up (mx * 2) (ex - 1) else Some (mx, ex))"

definition fmodl_normalise :: "ldshape \<Rightarrow> int \<Rightarrow> ldshape \<times> int" where
  "fmodl_normalise u e =
     (if e = 0 then let v = ld_mul u (ld_power 120) in (v, uint (ld_se v) - 120) else (u, e))"

definition fmodl_scale :: "u16 \<Rightarrow> u64 \<Rightarrow> int \<Rightarrow> ldshape" where
  "fmodl_scale sx m e =
     (if e \<le> 0 then ld_mul \<lparr>ld_m = m, ld_se = word_of_int (e + 120) OR sx\<rparr> (ld_power (- 120))
      else \<lparr>ld_m = m, ld_se = word_of_int e OR sx\<rparr>)"

definition fmodl :: "ldshape \<Rightarrow> ldshape \<Rightarrow> ldshape option" where
  "fmodl x y =
     (let ex = ld_exponent x; ey = ld_exponent y; sx = ld_se x AND 0x8000;
          ux = x\<lparr>ld_se := word_of_int ex\<rparr>; uy = y\<lparr>ld_se := word_of_int ey\<rparr>
      in if ld_equal y (ld_zero False) \<or> isnan (ld_to_double y) \<or> ex = 0x7FFF then Some (ld_div (ld_mul x y) (ld_mul x y))
         else if ld_less_eq ux uy then Some (if ld_equal ux uy then ld_mul (ld_zero False) x else x)
         else
           let (vx, ex1) = fmodl_normalise ux ex; (vy, ey1) = fmodl_normalise uy ey
           in case fmodl_steps (nat (ex1 - ey1)) (ld_m vx) (ld_m vy) of
               None \<Rightarrow> Some (ld_mul (ld_zero False) x)
             | Some mx \<Rightarrow>
                 let i = mx - ld_m vy in
                 if mx \<ge> ld_m vy \<and> i = 0 then Some (ld_mul (ld_zero False) x)
                 else map_option (\<lambda>(m, e). fmodl_scale sx m e)
                   (fmodl_shift_up (if mx \<ge> ld_m vy then i else mx) (min ex1 ey1)))"

end
