(* ===== verification/FMathExact.thy ===== *)
theory FMathExact
  imports FMath
begin

text \<open>
  \<open>fmod\<close> of \<open>lib/goblibc/src/fmath.c\<close> is exact. The magnitude of a double is a number of units of the smallest
  positive double, so that the remainder is the one of natural numbers; zeros, subnormal numbers and all
  exponents are included. Each loop has its lemma: \<open>leading_exp_spec\<close> (normalising), \<open>fmod_steps_spec\<close>
  (the long division) and \<open>shift_up_spec\<close>; \<open>normalise_spec\<close> and \<open>scale_spec\<close> are the two conversions.
\<close>


declare push_bit_Suc [simp del] drop_bit_Suc [simp del]

section \<open>The value of a double\<close>

text \<open>The magnitude, in units of the smallest positive double.\<close>

definition magnitude :: "nat \<Rightarrow> nat" where
  "magnitude n = (let e = n div 2 ^ 52; f = n mod 2 ^ 52 in if e = 0 then f else (2 ^ 52 + f) * 2 ^ (e - 1))"

definition d_mag :: "u64 \<Rightarrow> nat" where
  "d_mag x = magnitude (unat x mod 2 ^ 63)"

lemma unat_shl: "unat (push_bit k (x :: u64)) = unat x * 2 ^ k mod 2 ^ 64"
  by (simp only: unsigned_push_bit_eq) (simp add: take_bit_eq_mod push_bit_eq_mult)

lemma unat_shr: "unat (drop_bit k (x :: u64)) = unat x div 2 ^ k"
  by (simp only: unat_drop_bit_eq) (simp only: drop_bit_eq_div)

lemma unat_mask64: "unat (x AND mask k :: u64) = unat x mod 2 ^ k"
proof -
  have "x AND mask k = take_bit k x" by (simp only: take_bit_eq_mask)
  then show ?thesis by (simp only: unsigned_take_bit_eq) (simp only: take_bit_eq_mod)
qed

lemma unat_d_exp: "unat (d_exp x) = unat x div 2 ^ 52 mod 2 ^ 11"
proof -
  have "(0x7FF :: u64) = mask 11" by (simp add: mask_eq_exp_minus_1)
  then show ?thesis by (simp only: d_exp_def unat_mask64 unat_shr)
qed

lemma mod_div_powers: "n mod 2 ^ (a + b) div 2 ^ a = n div 2 ^ a mod (2 ^ b :: nat)"
  by (simp add: power_add mod_mult2_eq)

lemma d_mag_fields:
  "d_mag x = (if unat (d_exp x) = 0 then unat x mod 2 ^ 52 else (2 ^ 52 + unat x mod 2 ^ 52) * 2 ^ (unat (d_exp x) - 1))"
proof -
  have "unat x mod 2 ^ 63 div 2 ^ 52 = unat (d_exp x)" using mod_div_powers [of "unat x" 52 11] by (simp add: unat_d_exp)
  moreover have "unat x mod 2 ^ 63 mod 2 ^ 52 = unat x mod 2 ^ 52" by (simp add: mod_mod_cancel le_imp_power_dvd)
  ultimately show ?thesis by (simp only: d_mag_def magnitude_def Let_def)
qed

lemma magnitude_Suc: "magnitude n < magnitude (Suc n)"
proof (cases "n mod 2 ^ 52 = 2 ^ 52 - 1")
  case True
  have "2 ^ 52 * (n div 2 ^ 52) + (2 ^ 52 - 1) = n" using mult_div_mod_eq [of "2 ^ 52" n] unfolding True .
  then have "Suc n = 2 ^ 52 * (n div 2 ^ 52 + 1)" by simp
  then have "Suc n div 2 ^ 52 = n div 2 ^ 52 + 1" "Suc n mod 2 ^ 52 = 0"
    using nonzero_mult_div_cancel_left [of "2 ^ 52 :: nat" "n div 2 ^ 52 + 1"] mod_mult_self1_is_0 [of "2 ^ 52" "n div 2 ^ 52 + 1"]
    by (simp_all only:) simp_all
  then have "magnitude (Suc n) = 2 ^ 52 * 2 ^ (n div 2 ^ 52)" by (simp add: magnitude_def Let_def)
  moreover have "magnitude n < 2 ^ 52 * 2 ^ (n div 2 ^ 52)"
    using True by (cases "n div 2 ^ 52") (simp_all add: magnitude_def Let_def)
  ultimately show ?thesis by simp
next
  case False
  then have "n mod 2 ^ 52 + 1 < 2 ^ 52" using mod_less_divisor [of "2 ^ 52" n] by simp
  then have "Suc n div 2 ^ 52 = n div 2 ^ 52" "Suc n mod 2 ^ 52 = n mod 2 ^ 52 + 1"
    by (simp_all add: div_Suc mod_Suc)
  then show ?thesis by (simp add: magnitude_def Let_def)
qed

lemma magnitude_less: "m < n \<longleftrightarrow> magnitude m < magnitude n"
  using strict_mono_less [of magnitude m n] magnitude_Suc by (simp add: strict_mono_Suc_iff)

lemma unat_shl1: "unat (push_bit 1 (x :: u64)) = 2 * (unat x mod 2 ^ 63)"
proof -
  have "unat x * 2 mod (2 ^ 63 * 2) = unat x mod 2 ^ 63 * 2" by (rule mult_mod_left [symmetric])
  then show ?thesis using unat_shl [of 1 x] by simp
qed

lemma shl1_less: "push_bit 1 x < push_bit 1 (y :: u64) \<longleftrightarrow> d_mag x < d_mag y"
  using magnitude_less [of "unat x mod 2 ^ 63" "unat y mod 2 ^ 63"] by (simp only: word_less_nat_alt unat_shl1 d_mag_def) simp

lemma shl1_eq: "push_bit 1 x = push_bit 1 (y :: u64) \<longleftrightarrow> d_mag x = d_mag y"
  using shl1_less [of x y] shl1_less [of y x] by (metis linorder_neq_iff)

lemma shl1_0: "push_bit 1 (y :: u64) = 0 \<longleftrightarrow> d_mag y = 0"
  using shl1_eq [of y 0] by (simp add: d_mag_def magnitude_def)

section \<open>The loops\<close>

lemma leading_exp_spec:
  "2 ^ 63 \<le> unat i * 2 ^ n \<Longrightarrow> \<exists>k\<le>n. leading_exp i ex = Some (ex - int k) \<and> 2 ^ 63 \<le> unat i * 2 ^ k \<and> unat i * 2 ^ k < 2 ^ 64"
proof (induction n arbitrary: i ex)
  case 0
  then have "drop_bit 63 i \<noteq> 0" by (simp add: drop_bit_zero)
  then show ?case using 0 unat_u64_less [of i] by (subst leading_exp.simps) simp
next
  case (Suc n)
  show ?case
  proof (cases "drop_bit 63 i = 0")
    case True
    then have u: "unat (push_bit 1 i) = unat i * 2" by (simp add: drop_bit_zero unat_shl)
    then obtain k where "k \<le> n" "leading_exp (push_bit 1 i) (ex - 1) = Some (ex - 1 - int k)" "2 ^ 63 \<le> unat i * 2 * 2 ^ k" "unat i * 2 * 2 ^ k < 2 ^ 64"
      using Suc.IH [of "push_bit 1 i" "ex - 1"] Suc.prems by auto
    then show ?thesis using True by (intro exI [of _ "Suc k"]) (subst leading_exp.simps, simp add: algebra_simps)
  next
    case False
    then show ?thesis using unat_u64_less [of i]
      by (intro exI [of _ 0]) (subst leading_exp.simps, simp add: drop_bit_zero not_less)
  qed
qed

lemma shift_up_spec:
  "2 ^ 52 \<le> unat u * 2 ^ n \<Longrightarrow> unat u < 2 ^ 53 \<Longrightarrow> \<exists>k\<le>n. \<exists>v. fmod_shift_up u ex = Some (v, ex - int k) \<and> unat v = unat u * 2 ^ k \<and> 2 ^ 52 \<le> unat v \<and> unat v < 2 ^ 53"
proof (induction n arbitrary: u ex)
  case 0
  then have "drop_bit 52 u \<noteq> 0" by (simp add: drop_bit_zero)
  then show ?case using 0 by (subst fmod_shift_up.simps) simp
next
  case (Suc n)
  show ?case
  proof (cases "drop_bit 52 u = 0")
    case True
    then have u: "unat (push_bit 1 u) = unat u * 2" "unat (push_bit 1 u) < 2 ^ 53" by (simp_all add: drop_bit_zero unat_shl)
    then obtain k v where "k \<le> n" "fmod_shift_up (push_bit 1 u) (ex - 1) = Some (v, ex - 1 - int k)" "unat v = unat u * 2 * 2 ^ k" "2 ^ 52 \<le> unat v" "unat v < 2 ^ 53"
      using Suc.IH [of "push_bit 1 u" "ex - 1"] Suc.prems by auto
    then show ?thesis using True by (intro exI [of _ "Suc k"]) (subst fmod_shift_up.simps, simp add: algebra_simps)
  next
    case False
    then show ?thesis using Suc.prems
      by (intro exI [of _ 0]) (subst fmod_shift_up.simps, simp add: drop_bit_zero not_less)
  qed
qed

text \<open>The difference of two small words has its top bit clear exactly when it does not wrap.\<close>

lemma sub_sign:
  assumes "unat u < 2 ^ 54" "unat v < 2 ^ 54"
  shows "drop_bit 63 (u - v :: u64) = 0 \<longleftrightarrow> unat v \<le> unat u" "unat v \<le> unat u \<Longrightarrow> unat (u - v) = unat u - unat v"
proof -
  show le: "unat (u - v) = unat u - unat v" if "unat v \<le> unat u" using that by (simp add: unat_sub_if')
  show "drop_bit 63 (u - v) = 0 \<longleftrightarrow> unat v \<le> unat u"
  proof (cases "unat v \<le> unat u")
    case True
    then show ?thesis using le assms by (simp add: drop_bit_zero)
  next
    case False
    then have "unat (u - v) = unat u + 2 ^ 64 - unat v" by (simp add: unat_sub_if')
    then show ?thesis using False assms by (simp add: drop_bit_zero)
  qed
qed

lemma unat_double: "unat u < 2 ^ 63 \<Longrightarrow> unat (push_bit 1 (u :: u64)) = 2 * unat u"
  by (simp only: unat_shl1 mod_less)

lemma mod_after_sub:
  "v \<le> u \<Longrightarrow> u * 2 ^ Suc n mod v = 2 * (u - v) * 2 ^ n mod (v :: nat)"
proof -
  assume "v \<le> u"
  then have "u * 2 ^ Suc n = 2 * (u - v) * 2 ^ n + v * 2 ^ Suc n" by (simp add: algebra_simps)
  then show ?thesis by (simp only: mod_mult_self2)
qed

lemma fmod_steps_spec:
  assumes v: "0 < unat v" "unat v < 2 ^ 53"
  shows "0 < unat u \<Longrightarrow> unat u < 2 * unat v \<Longrightarrow>
    (case fmod_steps n u v of None \<Rightarrow> unat u * 2 ^ n mod unat v = 0
     | Some w \<Rightarrow> 0 < unat w \<and> unat w < 2 * unat v \<and> unat w mod unat v = unat u * 2 ^ n mod unat v)"
proof (induction n arbitrary: u)
  case (Suc n)
  have s: "unat u < 2 ^ 54" "unat v < 2 ^ 54" using Suc.prems v by simp_all
  note sub = sub_sign [OF s]
  show ?case
  proof (cases "unat v \<le> unat u")
    case le: True
    let ?i = "u - v"
    note i = sub(2) [OF le]
    have p: "unat (push_bit 1 ?i) = 2 * unat ?i" using i s by (intro unat_double) simp
    have m: "unat u * 2 ^ Suc n mod unat v = 2 * unat ?i * 2 ^ n mod unat v" using mod_after_sub [OF le] i by (simp only:)
    show ?thesis
    proof (cases "?i = 0")
      case True
      then have "fmod_steps (Suc n) u v = None" by (simp add: Let_def)
      then show ?thesis using m True by (simp only: option.case unat_0 mult_0 mult_0_right mod_0)
    next
      case False
      then have "0 < 2 * unat ?i" by (simp only: unat_gt_0 nat_0_less_mult_iff) simp
      moreover have "2 * unat ?i < 2 * unat v" using i Suc.prems by linarith
      moreover have "fmod_steps (Suc n) u v = fmod_steps n (push_bit 1 ?i) v"
        using sub(1) le False by (simp only: fmod_steps.simps Let_def if_True if_False)
      ultimately show ?thesis using Suc.IH [of "push_bit 1 ?i"] p m by (simp only:)
    qed
  next
    case False
    have p: "unat (push_bit 1 u) = 2 * unat u" using s by (intro unat_double) simp
    have "fmod_steps (Suc n) u v = fmod_steps n (push_bit 1 u) v"
      using sub(1) False by (simp only: fmod_steps.simps Let_def if_False)
    moreover have "0 < 2 * unat u" "2 * unat u < 2 * unat v" using Suc.prems False by linarith+
    moreover have "unat u * 2 ^ Suc n = 2 * unat u * 2 ^ n" by simp
    ultimately show ?thesis using Suc.IH [of "push_bit 1 u"] p by (simp only:)
  qed
qed simp

section \<open>Taking a number apart and putting it together\<close>


lemma or_is_add: "unat x < 2 ^ k \<Longrightarrow> x OR push_bit k z = x + push_bit k (z :: u64)"
proof -
  assume "unat x < 2 ^ k"
  then have "take_bit k x = x" by (simp only: word_unat_eq_iff unsigned_take_bit_eq) (simp add: take_bit_eq_mod)
  then have "\<not> bit x n \<or> \<not> bit (push_bit k z) n" for n by (metis bit_push_bit_iff bit_take_bit_iff not_le)
  then show ?thesis by (rule disjunctive_add [symmetric])
qed

lemma unat_or_shift:
  assumes "unat x < 2 ^ k" "unat x + unat z * 2 ^ k < 2 ^ 64"
  shows "unat (x OR push_bit k z) = unat x + unat (z :: u64) * 2 ^ k"
proof -
  have "unat (push_bit k z) = unat z * 2 ^ k" using assms by (simp only: unat_shl) simp
  then show ?thesis using assms by (simp only: or_is_add unat_word_ariths) simp
qed

lemma mantissa_mask: "unat (x AND drop_bit 12 (- 1) :: u64) = unat x mod 2 ^ 52"
proof -
  have "drop_bit 12 (- 1) = (mask 52 :: u64)" by (simp add: mask_eq_exp_minus_1)
  then show ?thesis by (simp only: unat_mask64)
qed

lemma normalise_normal:
  assumes "d_exp x \<noteq> 0"
  shows "\<exists>m. fmod_normalise x (uint (d_exp x)) = Some (m, int (unat (d_exp x))) \<and> unat m = 2 ^ 52 + unat x mod 2 ^ 52"
proof -
  have "unat ((x AND drop_bit 12 (- 1)) OR push_bit 52 1) = unat x mod 2 ^ 52 + unat (1 :: u64) * 2 ^ 52"
  proof (subst unat_or_shift)
    show "unat (x AND drop_bit 12 (- 1)) < 2 ^ 52" by (simp only: mantissa_mask) simp
    show "unat (x AND drop_bit 12 (- 1)) + unat (1 :: u64) * 2 ^ 52 < 2 ^ 64"
      using mod_less_divisor [of "2 ^ 52" "unat x"] by (simp only: mantissa_mask) simp
  qed (simp only: mantissa_mask)
  moreover have "uint (d_exp x) = int (unat (d_exp x))" by simp
  moreover have "uint (d_exp x) \<noteq> 0" using assms by (metis uint_0_iff)
  ultimately show ?thesis unfolding fmod_normalise_def by (simp only: if_False unat_1) simp
qed

lemma normalise_spec:
  assumes "d_mag x \<noteq> 0"
  shows "\<exists>m ex. fmod_normalise x (uint (d_exp x)) = Some (m, ex) \<and> 2 ^ 52 \<le> unat m \<and> unat m < 2 ^ 53 \<and>
    - 51 \<le> ex \<and> ex \<le> int (unat (d_exp x)) \<and> unat m * 2 ^ nat (ex + 51) = d_mag x * 2 ^ 52"
proof (cases "d_exp x = 0")
  case False
  obtain m where m: "fmod_normalise x (uint (d_exp x)) = Some (m, int (unat (d_exp x)))" "unat m = 2 ^ 52 + unat x mod 2 ^ 52"
    using normalise_normal [OF False] by auto
  have e: "0 < unat (d_exp x)" using False unat_gt_0 by blast
  then have "d_mag x = unat m * 2 ^ (unat (d_exp x) - 1)" using m(2) by (simp only: d_mag_fields) simp
  moreover have "nat (int (unat (d_exp x)) + 51) = unat (d_exp x) - 1 + 52" using e by linarith
  moreover have "unat x mod 2 ^ 52 < 2 ^ 52" by simp
  ultimately show ?thesis using m by (simp add: power_add)
next
  case True
  let ?f = "unat x mod 2 ^ 52"
  have f: "d_mag x = ?f" "0 < ?f" using True assms by (simp_all add: d_mag_fields)
  have "unat (push_bit 12 x) = ?f * 2 ^ 12" by (simp only: unat_shl) (simp add: mult_mod_left)
  then obtain k where k: "k \<le> 51" "leading_exp (push_bit 12 x) 0 = Some (0 - int k)"
      "2 ^ 63 \<le> ?f * 2 ^ 12 * 2 ^ k" "?f * 2 ^ 12 * 2 ^ k < 2 ^ 64"
    using leading_exp_spec [of "push_bit 12 x" 51 0] f(2) by auto
  have "unat (d_exp x) = 0" using True by (simp only: unat_0)
  then have "unat x mod 2 ^ 63 div 2 ^ 52 = 0" using mod_div_powers [of "unat x" 52 11] by (simp add: unat_d_exp)
  then have "unat x mod 2 ^ 63 mod 2 ^ 52 = unat x mod 2 ^ 63" by (simp add: div_eq_0_iff)
  moreover have "unat x mod 2 ^ 63 mod 2 ^ 52 = ?f" by (intro mod_mod_cancel le_imp_power_dvd) simp
  ultimately have "unat x mod 2 ^ 63 = ?f" by (simp only:)
  then have one: "unat (push_bit 1 x) = 2 * ?f" by (simp only: unat_shl1)
  have lim: "?f * 2 ^ k < 2 ^ 52" "2 ^ 51 \<le> ?f * 2 ^ k" using k(3, 4) by (simp_all add: mult.commute)
  have "push_bit (nat (- (0 - int k) + 1)) x = push_bit k (push_bit 1 x)" by (simp add: push_bit_push_bit nat_add_distrib)
  then have "unat (push_bit (nat (- (0 - int k) + 1)) x) = 2 * ?f * 2 ^ k mod 2 ^ 64"
    using unat_shl [of k "push_bit 1 x"] by (simp only: one)
  also have "\<dots> = 2 * ?f * 2 ^ k" using lim by (intro mod_less) (simp add: mult_ac)
  finally have u: "unat (push_bit (nat (- (0 - int k) + 1)) x) = 2 * ?f * 2 ^ k" .
  have n: "fmod_normalise x (uint (d_exp x)) = Some (push_bit (nat (- (0 - int k) + 1)) x, 0 - int k)"
    using True k(2) by (simp only: fmod_normalise_def unsigned_0 simp_thms if_True option.map prod.case)
  let ?m = "push_bit (nat (- (0 - int k) + 1)) x"
  have two: "2 * ?f * 2 ^ k = 2 * (?f * 2 ^ k)" by (simp only: mult.assoc)
  have "2 ^ 52 \<le> unat ?m" "unat ?m < 2 ^ 53" using lim unfolding u two by (simp_all add: mult_ac)
  moreover have "- 51 \<le> 0 - int k" using k(1) by simp
  moreover have "0 - int k \<le> int (unat (d_exp x))" by linarith
  moreover have "unat ?m * 2 ^ nat (0 - int k + 51) = d_mag x * 2 ^ 52"
  proof -
    have "nat (0 - int k + 51) = 51 - k" using k(1) by simp
    moreover have "(2 :: nat) ^ k * 2 ^ (51 - k) = 2 ^ 51" using k(1) by (simp flip: power_add)
    then have "2 * ?f * (2 ^ k * 2 ^ (51 - k)) = ?f * 2 ^ 52" by simp
    ultimately show ?thesis by (simp only: u f(1) mult.assoc)
  qed
  ultimately show ?thesis using n by blast
qed

lemma top_bit_value: "unat r = unat s * 2 ^ 63 + c \<Longrightarrow> c < 2 ^ 63 \<Longrightarrow> d_mag r = magnitude c \<and> drop_bit 63 r = (s :: u64) \<and> unat (d_exp r) = c div 2 ^ 52"
  using mod_div_powers [of "unat r" 52 11]
  by (simp only: d_mag_def word_unat_eq_iff unat_shr unat_d_exp) (simp add: div_mult_self3)

lemma scale_spec:
  assumes v: "2 ^ 52 \<le> unat v" "unat v < 2 ^ 53" and e: "- 51 \<le> e" "e \<le> 2046" and r: "unat v * 2 ^ nat (e + 51) = r * 2 ^ 52"
    and s: "unat s < 2"
  shows "d_mag (fmod_scale s v e) = r \<and> drop_bit 63 (fmod_scale s v e) = s \<and> unat (d_exp (fmod_scale s v e)) < 2047"
proof -
  have sign: "unat (z OR push_bit 63 s) = unat s * 2 ^ 63 + unat z" if "unat z < 2 ^ 63" for z
    using that s by (subst unat_or_shift) simp_all
  show ?thesis
  proof (cases "0 < e")
    case True
    define f where "f = unat v - 2 ^ 52"
    have f: "f < 2 ^ 52" "unat v = 2 ^ 52 + f" using v by (simp_all add: f_def)
    have "unat (v - push_bit 52 1) = f" using v by (simp only: unat_sub_if' unat_shl unat_1) (simp add: f_def)
    moreover have "unat (word_of_int e :: u64) = nat e" using True e by (simp only: unat_eq_nat_uint uint_word_of_int) simp
    moreover have ne: "nat e < 2047" using e True by simp
    ultimately have "unat ((v - push_bit 52 1) OR push_bit 52 (word_of_int e)) = f + nat e * 2 ^ 52" using f(1) by (subst unat_or_shift) simp_all
    moreover have "f + nat e * 2 ^ 52 < 2 ^ 63" using f(1) ne by simp
    ultimately have c: "unat (fmod_scale s v e) = unat s * 2 ^ 63 + (f + nat e * 2 ^ 52)"
      using sign True by (simp only: fmod_scale_def if_True)
    have d: "(f + nat e * 2 ^ 52) div 2 ^ 52 = nat e" "(f + nat e * 2 ^ 52) mod 2 ^ 52 = f" using f(1) by simp_all
    have "nat (e + 51) = nat e - 1 + 52" using True by simp
    then have "(2 ^ 52 + f) * 2 ^ (nat e - 1) = r" using r by (simp only: f(2) power_add) simp
    then have "magnitude (f + nat e * 2 ^ 52) = r" using True by (simp only: magnitude_def Let_def d) simp
    then show ?thesis using top_bit_value [OF c \<open>f + nat e * 2 ^ 52 < 2 ^ 63\<close>] d ne by (simp only:)
  next
    case False
    let ?k = "nat (- e + 1)"
    have "(2 :: nat) ^ ?k * 2 ^ nat (e + 51) = 2 ^ 52" using False e by (simp flip: power_add nat_add_distrib)
    then have "unat v * 2 ^ nat (e + 51) = r * 2 ^ ?k * 2 ^ nat (e + 51)" using r by (simp only: mult.assoc)
    then have v': "unat v = r * 2 ^ ?k" by simp
    have "r * 2 \<le> r * 2 ^ ?k" using False power_increasing [of 1 ?k "2 :: nat"] by (intro mult_le_mono2) simp
    then have "r * 2 \<le> unat v" by (simp only: v')
    then have r': "r < 2 ^ 52" using v(2) by simp
    have u: "unat (drop_bit ?k v) = r" using v' by (simp only: unat_shr) simp
    then have "unat (fmod_scale s v e) = unat s * 2 ^ 63 + r" using sign [of "drop_bit ?k v"] r' False by (simp add: fmod_scale_def)
    moreover have "magnitude r = r" "r div 2 ^ 52 = 0" using r' by (simp_all add: magnitude_def)
    ultimately show ?thesis using top_bit_value [of "fmod_scale s v e" s r] r' by simp
  qed
qed

section \<open>The remainder is exact\<close>


lemma sign_bit: "unat (drop_bit 63 x :: u64) < 2"
  using unat_u64_less [of x] by (simp only: unat_shr) (simp add: less_mult_imp_div_less)

lemma times_zero_fields: "d_mag (times_zero x) = 0 \<and> drop_bit 63 (times_zero x) = drop_bit 63 x \<and> unat (d_exp (times_zero x)) < 2047"
proof -
  have "times_zero x = push_bit 63 (drop_bit 63 x)"
  proof (rule bit_word_eqI)
    fix n assume "n < LENGTH(64)"
    then have "63 \<le> n \<longleftrightarrow> n = 63" by auto
    then show "bit (times_zero x) n \<longleftrightarrow> bit (push_bit 63 (drop_bit 63 x)) n"
      by (simp only: times_zero_def bit_and_iff bit_push_bit_iff bit_drop_bit_eq bit_1_iff o_apply) auto
  qed
  then have "unat (times_zero x) = unat (drop_bit 63 x) * 2 ^ 63 + 0" using sign_bit [of x] by (simp only: unat_shl) simp
  then show ?thesis using top_bit_value [of "times_zero x" "drop_bit 63 x" 0] by (simp add: magnitude_def)
qed

text \<open>The long division and the scaling, for numbers with their leading bit at 52.\<close>

lemma divide_spec:
  assumes u: "2 ^ 52 \<le> unat u" "unat u < 2 ^ 53" and v: "2 ^ 52 \<le> unat v" "unat v < 2 ^ 53"
    and e: "- 51 \<le> ey" "ey \<le> ex" "ey \<le> 2046"
    and r: "(unat u * 2 ^ nat (ex - ey)) mod unat v * 2 ^ nat (ey + 51) = r * 2 ^ 52"
  shows "\<exists>z. fmod_divide x u ex v ey = Some z \<and> d_mag z = r \<and> drop_bit 63 z = drop_bit 63 x \<and> unat (d_exp z) < 2047"
proof -
  let ?R = "(unat u * 2 ^ nat (ex - ey)) mod unat v"
  have zero: ?thesis if "?R = 0" "fmod_divide x u ex v ey = Some (times_zero x)"
    using that r times_zero_fields [of x] by simp
  have "0 < unat v" "0 < unat u" "unat u < 2 * unat v" using u v by simp_all
  note steps = fmod_steps_spec [OF this(1) v(2) this(2,3), of "nat (ex - ey)"]
  show ?thesis
  proof (cases "fmod_steps (nat (ex - ey)) u v")
    case None
    then show ?thesis using steps by (intro zero) (simp_all add: fmod_divide_def)
  next
    case (Some w)
    then have w: "0 < unat w" "unat w < 2 * unat v" "unat w mod unat v = ?R" using steps by simp_all
    have ws: "unat w < 2 ^ 54" "unat v < 2 ^ 54" using w v by simp_all
    note sub = sub_sign [OF ws]
    show ?thesis
    proof (cases "w = v")
      case True
      then have "?R = 0" using w(3) by simp
      then show ?thesis using True Some by (intro zero) (simp_all add: fmod_divide_def)
    next
      case False
      define t where "t = (if drop_bit 63 (w - v) = 0 then w - v else w)"
      have t: "unat t = ?R"
      proof (cases "unat v \<le> unat w")
        case True
        then have "unat t = unat w - unat v" using sub by (simp add: t_def)
        moreover have "unat w mod unat v = unat w - unat v" using True w(2) by (simp add: le_mod_geq)
        ultimately show ?thesis using w(3) by simp
      next
        case False
        then show ?thesis using sub(1) w(3) by (simp add: t_def)
      qed
      have R: "0 < ?R" "?R < 2 ^ 53"
      proof -
        have "unat w \<noteq> unat v" using False by (metis word_unat_eq_iff)
        then have "unat t \<noteq> 0" using sub w(1) by (cases "unat v \<le> unat w") (simp_all add: t_def)
        then show "0 < ?R" using t by simp
        show "?R < 2 ^ 53" using v by (intro less_trans [OF mod_less_divisor]) simp_all
      qed
      then have "2 ^ 52 \<le> unat t * 2 ^ 52" "unat t < 2 ^ 53" using t by simp_all
      from shift_up_spec [OF this, of ey] obtain k y where
        y: "fmod_shift_up t ey = Some (y, ey - int k)" "unat y = ?R * 2 ^ k" "2 ^ 52 \<le> unat y" "unat y < 2 ^ 53"
        using t by auto
      have ry: "r * 2 ^ 52 * 2 ^ k = unat y * 2 ^ nat (ey + 51)" using r y(2) by (simp only: mult_ac)
      have "1 \<le> r" using r R(1) by (cases r) simp_all
      then have "1 * (2 ^ 52 * 2 ^ k) \<le> r * (2 ^ 52 * 2 ^ k)" by (rule mult_le_mono1)
      then have "2 ^ (52 + k) \<le> unat y * 2 ^ nat (ey + 51)" by (simp only: power_add mult_1 ry flip: mult.assoc)
      also have "\<dots> < 2 ^ (53 + nat (ey + 51))" using y(4) by (simp add: power_add)
      finally have "52 + k < 53 + nat (ey + 51)" by (rule power_less_imp_less_exp [rotated]) simp
      then have k: "int k \<le> ey + 51" using e by simp
      then have "nat (ey + 51) = nat (ey - int k + 51) + k" by simp
      then have "unat y * 2 ^ nat (ey - int k + 51) * 2 ^ k = r * 2 ^ 52 * 2 ^ k"
        using ry by (simp only: power_add mult_ac)
      then have "unat y * 2 ^ nat (ey - int k + 51) = r * 2 ^ 52" by simp
      from scale_spec [OF y(3,4) _ _ this sign_bit [of x]]
      have "d_mag (fmod_scale (drop_bit 63 x) y (ey - int k)) = r \<and> drop_bit 63 (fmod_scale (drop_bit 63 x) y (ey - int k)) = drop_bit 63 x \<and>
        unat (d_exp (fmod_scale (drop_bit 63 x) y (ey - int k))) < 2047" using k e by simp
      moreover have "fmod_divide x u ex v ey = Some (fmod_scale (drop_bit 63 x) y (ey - int k))"
        using False Some y(1) e by (simp add: fmod_divide_def Let_def t_def)
      ultimately show ?thesis by blast
    qed
  qed
qed

lemma finite_exp: "d_exp x \<noteq> 0x7FF \<Longrightarrow> unat (d_exp x) < 2047"
proof -
  assume "d_exp x \<noteq> 0x7FF"
  then have "unat (d_exp x) \<noteq> unat (0x7FF :: u64)" by (metis word_unat_eq_iff)
  moreover have "unat (d_exp x) < 2 ^ 11" by (simp only: unat_d_exp) simp
  ultimately show ?thesis by simp
qed

lemma d_exp_finite: "unat (d_exp x) < 2047 \<Longrightarrow> d_exp x \<noteq> 0x7FF"
  by auto

text \<open>C12: \<open>fmod\<close> is exact: for two finite doubles, the second not zero, it returns the remainder of the magnitudes, with the sign of the first.\<close>

theorem fmod_exact:
  assumes "d_exp x \<noteq> 0x7FF" "d_exp y \<noteq> 0x7FF" "d_mag y \<noteq> 0"
  shows "\<exists>z. fmod x y = Some z \<and> d_exp z \<noteq> 0x7FF \<and> d_mag z = d_mag x mod d_mag y \<and> drop_bit 63 z = drop_bit 63 x"
proof (cases "d_mag y < d_mag x")
  case False
  then show ?thesis using assms shl1_0 [of y] shl1_less [of y x] shl1_eq [of x y] times_zero_fields [of x] d_exp_finite [of "times_zero x"]
    by (auto simp: fmod_def isnan_def not_less)
next
  case True
  obtain mx ex where mx: "fmod_normalise x (uint (d_exp x)) = Some (mx, ex)" "2 ^ 52 \<le> unat mx" "unat mx < 2 ^ 53" "- 51 \<le> ex"
    "unat mx * 2 ^ nat (ex + 51) = d_mag x * 2 ^ 52" using normalise_spec [of x] True by auto
  obtain my ey where my: "fmod_normalise y (uint (d_exp y)) = Some (my, ey)" "2 ^ 52 \<le> unat my" "unat my < 2 ^ 53" "- 51 \<le> ey"
    "ey \<le> int (unat (d_exp y))" "unat my * 2 ^ nat (ey + 51) = d_mag y * 2 ^ 52" using normalise_spec [of y] assms(3) by blast
  have "2 ^ (52 + nat (ey + 51)) \<le> unat my * 2 ^ nat (ey + 51)" using my(2) by (simp add: power_add)
  also have "\<dots> < unat mx * 2 ^ nat (ex + 51)" using True mx(5) my(6) by simp
  also have "\<dots> < 2 ^ (53 + nat (ex + 51))" using mx(3) by (simp add: power_add)
  finally have "52 + nat (ey + 51) < 53 + nat (ex + 51)" by (rule power_less_imp_less_exp [rotated]) simp
  then have le: "ey \<le> ex" using mx(4) my(4) by simp
  then have "nat (ex + 51) = nat (ex - ey) + nat (ey + 51)" using my(4) by simp
  then have "unat mx * 2 ^ nat (ex - ey) * 2 ^ nat (ey + 51) = d_mag x * 2 ^ 52" using mx(5) by (simp only: power_add mult_ac)
  then have "(unat mx * 2 ^ nat (ex - ey)) mod unat my * 2 ^ nat (ey + 51) = d_mag x mod d_mag y * 2 ^ 52"
    using my(6) by (simp only: mult_mod_left)
  from divide_spec [OF mx(2,3) my(2,3,4) le _ this, of x] obtain z where
    "fmod_divide x mx ex my ey = Some z" "d_mag z = d_mag x mod d_mag y" "drop_bit 63 z = drop_bit 63 x" "unat (d_exp z) < 2047"
    using my(5) finite_exp [OF assms(2)] by auto
  moreover have "fmod x y = fmod_divide x mx ex my ey"
  proof -
    have "push_bit 1 y \<noteq> 0" "\<not> isnan y" using assms shl1_0 [of y] by (simp_all only: isnan_def simp_thms)
    moreover have "\<not> push_bit 1 x \<le> push_bit 1 y" using True shl1_less [of y x] by (simp only: not_le)
    ultimately show ?thesis using assms(1) mx(1) my(1) by (simp only: fmod_def if_False simp_thms bind.bind_lunit prod.case)
  qed
  ultimately show ?thesis using d_exp_finite by auto
qed

text \<open>7.5 and 2.0: the result is 1.5.\<close>

lemma fmod_exact_witness:
  "\<exists>z. fmod 0x401E000000000000 0x4000000000000000 = Some z \<and> d_mag z = d_mag 0x3FF8000000000000 \<and> drop_bit 63 z = 0"
proof -
  have "d_exp 0x401E000000000000 \<noteq> 0x7FF" "d_exp 0x4000000000000000 \<noteq> 0x7FF" "d_mag 0x4000000000000000 \<noteq> 0"
    by (simp_all add: d_exp_def d_mag_def magnitude_def)
  note z = fmod_exact [OF this]
  have "d_mag 0x401E000000000000 mod d_mag 0x4000000000000000 = d_mag 0x3FF8000000000000" "drop_bit 63 (0x401E000000000000 :: u64) = 0"
    by (simp_all add: d_mag_def magnitude_def)
  then show ?thesis using z by (metis (no_types))
qed

end
