(* ===== verification/FloatScan.thy ===== *)
theory FloatScan
  imports FMath Scan
begin

text \<open>
  \<open>lib/goblibc/src/floatscan.c\<close> and \<open>atof.c\<close>: reading floating point numbers. The digits are collected in the
  array \<open>x\<close>, nine to an element, which is used as a ring of \<open>KMAX\<close> elements: \<open>a\<close> is its first index, \<open>z\<close> the one behind its
  last. \<open>junk\<close> is what the array holds before. \<open>None\<close> is an access outside an array or a loop that does not end.
\<close>

section \<open>The exponent\<close>

abbreviation (input) "LLONG_MIN \<equiv> - (2 ^ 63) :: int"

definition gob_scanexp :: "bool \<Rightarrow> 'a gob_file_scheme \<Rightarrow> ('a gob_file_scheme \<times> int) option" where
  "gob_scanexp pok s0 =
     (let (s1, c0) = scan_help_getc s0;
          (s, c, neg) =
            (if c0 = 43 \<or> c0 = 45 then
               let (s2, c1) = scan_help_getc s1 in (if \<not> decimal_digit c1 \<and> pok then scan_help_unget s2 else s2, c1, c0 = 45)
             else (s1, c0, False))
      in if \<not> decimal_digit c then Some (scan_help_unget s, LLONG_MIN)
         else do {
           (s3, c3, x) \<leftarrow> scan_while (\<lambda>c x. Some (decimal_digit c \<and> x < 214748364)) (\<lambda>c x. 10 * x + c - 48) c (0 :: int) s;
           (s4, c4, y) \<leftarrow> scan_while (\<lambda>c y. Some (decimal_digit c \<and> y < (2 ^ 63 - 1) div 100)) (\<lambda>c y. 10 * y + c - 48) c3 x s3;
           (s5, c5, u) \<leftarrow> scan_while (\<lambda>c _. Some (decimal_digit c)) (\<lambda>_ u. u) c4 () s4;
           Some (scan_help_unget s5, if neg then - y else y)
         })"

section \<open>The digits\<close>

abbreviation "KMAX \<equiv> 2048 :: nat"

record dec_state =
  dd_x :: "nat \<Rightarrow> u32"
  dd_j :: nat
  dd_k :: nat
  dd_lrp :: int
  dd_dc :: int
  dd_lnz :: int
  dd_gotdig :: bool
  dd_gotrad :: bool

definition dec_start :: "(nat \<Rightarrow> u32) \<Rightarrow> dec_state" where
  "dec_start junk =
     \<lparr>dd_x = junk(0 := 0), dd_j = 0, dd_k = 0, dd_lrp = 0, dd_dc = 0, dd_lnz = 0, dd_gotdig = False, dd_gotrad = False\<rparr>"

text \<open>Leading zeros, before and after the point.\<close>

definition dec_leading :: "int \<Rightarrow> dec_state \<Rightarrow> 'a gob_file_scheme \<Rightarrow> ('a gob_file_scheme \<times> int \<times> dec_state) option" where
  "dec_leading c d s = do {
     (s1, c1, d1) \<leftarrow> scan_while (\<lambda>c _. Some (c = 48)) (\<lambda>_ d. d\<lparr>dd_gotdig := True\<rparr>) c d s;
     if c1 = 46 then
       (case scan_help_getc s1 of (s2, c2) \<Rightarrow>
          scan_while (\<lambda>c _. Some (c = 48)) (\<lambda>_ d. d\<lparr>dd_gotdig := True, dd_lrp := dd_lrp d - 1\<rparr>) c2 (d1\<lparr>dd_gotrad := True\<rparr>) s2)
     else Some (s1, c1, d1)
   }"

definition dec_digit :: "int \<Rightarrow> dec_state \<Rightarrow> dec_state" where
  "dec_digit c d =
     (if c = 46 then d\<lparr>dd_gotrad := True, dd_lrp := dd_dc d\<rparr>
      else
        let dc = dd_dc d + 1; k = dd_k d; x = dd_x d in
        if k < KMAX - 3 then
          d\<lparr>dd_dc := dc, dd_lnz := (if c \<noteq> 48 then dc else dd_lnz d),
            dd_x := x(k := (if dd_j d \<noteq> 0 then x k * 10 + digit_num c else digit_num c)),
            dd_k := (if dd_j d + 1 = 9 then k + 1 else k), dd_j := (if dd_j d + 1 = 9 then 0 else dd_j d + 1),
            dd_gotdig := True\<rparr>
        else if c \<noteq> 48 then d\<lparr>dd_dc := dc, dd_lnz := int (KMAX - 4) * 9, dd_x := x(KMAX - 4 := x (KMAX - 4) OR 1)\<rparr>
        else d\<lparr>dd_dc := dc\<rparr>)"

text \<open>The loop ends at a second point.\<close>

definition dec_digits :: "int \<Rightarrow> dec_state \<Rightarrow> 'a gob_file_scheme \<Rightarrow> ('a gob_file_scheme \<times> int \<times> dec_state) option" where
  "dec_digits c d s =
     map_option (\<lambda>(s1, c1, d1). (s1, c1, if dd_gotrad d1 then d1 else d1\<lparr>dd_lrp := dd_dc d1\<rparr>))
       (scan_while (\<lambda>c d. Some (decimal_digit c \<or> c = 46 \<and> \<not> dd_gotrad d)) dec_digit c d s)"

text \<open>The number up to its last character. \<open>Inl\<close> is an early return of 0.\<close>

definition dec_number :: "(nat \<Rightarrow> u32) \<Rightarrow> bool \<Rightarrow> int \<Rightarrow> 'a gob_file_scheme \<Rightarrow> ('a gob_file_scheme + 'a gob_file_scheme \<times> dec_state) option" where
  "dec_number junk pok c0 s0 = do {
     (s1, c1, d1) \<leftarrow> dec_leading c0 (dec_start junk) s0;
     (s2, c, d) \<leftarrow> dec_digits c1 d1 s1;
     if dd_gotdig d \<and> c OR 32 = 101 then do {
       (s3, e10) \<leftarrow> gob_scanexp pok s2;
       if e10 = LLONG_MIN then
         if pok then Some (Inr (scan_help_unget s3, d)) else Some (Inl (scan_help_lim 0 s3))
       else Some (Inr (s3, d\<lparr>dd_lrp := dd_lrp d + e10\<rparr>))
     }
     else
       let s3 = (if 0 \<le> c then scan_help_unget s2 else s2) in
       if \<not> dd_gotdig d then Some (Inl (scan_help_lim 0 (s3\<lparr>g_errno := EINVAL\<rparr>))) else Some (Inr (s3, d))
   }"

section \<open>Scaling\<close>

record dec_ring =
  dr_x :: "nat \<Rightarrow> u32"
  dr_a :: nat
  dr_z :: nat
  dr_rp :: int
  dr_e2 :: int

definition ring_next :: "nat \<Rightarrow> nat" where
  "ring_next k = (k + 1) mod KMAX"

definition ring_prev :: "nat \<Rightarrow> nat" where
  "ring_prev k = (k + (KMAX - 1)) mod KMAX"

definition ring_dist :: "nat \<Rightarrow> nat \<Rightarrow> nat" where
  "ring_dist a z = (z + KMAX - a) mod KMAX"

definition p10s :: "u32 list" where
  "p10s = [10, 100, 1000, 10000, 100000, 1000000, 10000000, 100000000]"

definition th :: "u32 list" where
  "th = [18, 446744073, 709551615]"

text \<open>The last element is filled up to nine digits.\<close>

definition dec_fill :: "dec_state \<Rightarrow> dec_ring" where
  "dec_fill d =
     (let x = dd_x d; k = dd_k d in
      \<lparr>dr_x = (if dd_j d \<noteq> 0 then x(k := x k * 10 ^ (9 - dd_j d)) else x), dr_a = 0,
       dr_z = (if dd_j d \<noteq> 0 then k + 1 else k), dr_rp = dd_lrp d, dr_e2 = 0\<rparr>)"

fun drop_zeros :: "(nat \<Rightarrow> u32) \<Rightarrow> nat \<Rightarrow> nat" where
  "drop_zeros x 0 = 0"
| "drop_zeros x (Suc z) = (if x z = 0 then drop_zeros x z else Suc z)"

text \<open>The radix point is moved to the boundary of an element.\<close>

definition align_step :: "u32 \<Rightarrow> nat \<Rightarrow> dec_ring \<times> u32 \<Rightarrow> dec_ring \<times> u32" where
  "align_step p10 k = (\<lambda>(r, carry).
     let v = dr_x r k div p10 + carry; r1 = r\<lparr>dr_x := (dr_x r)(k := v)\<rparr>; carry1 = 1000000000 div p10 * (dr_x r k mod p10) in
     if k = dr_a r \<and> v = 0 then (r1\<lparr>dr_a := ring_next (dr_a r), dr_rp := dr_rp r - 9\<rparr>, carry1) else (r1, carry1))"

definition dec_align :: "dec_ring \<Rightarrow> dec_ring" where
  "dec_align r =
     (if dr_rp r mod 9 = 0 then r
      else
        let rpm9 = dr_rp r mod 9;
            p10 = p10s ! nat (8 - rpm9);
            (r1, carry) = fold (align_step p10) [dr_a r..<dr_z r] (r, 0);
            r2 = (if carry \<noteq> 0 then r1\<lparr>dr_x := (dr_x r1)(dr_z r1 := carry), dr_z := dr_z r1 + 1\<rparr> else r1)
        in r2\<lparr>dr_rp := dr_rp r2 + 9 - rpm9\<rparr>)"

text \<open>One round of scaling up by \<open>2^29\<close>: the elements from the last to the first. The number is the distance from \<open>a\<close>.\<close>

definition up_digit :: "nat \<Rightarrow> dec_ring \<times> u32 \<Rightarrow> dec_ring \<times> u32" where
  "up_digit n = (\<lambda>(r, carry).
     let k = (dr_a r + n) mod KMAX;
         tmp = push_bit 29 (ucast (dr_x r k)) + ucast carry :: u64;
         carry1 = (if 1000000000 < tmp then ucast (tmp div 1000000000) else 0);
         v = (if 1000000000 < tmp then ucast (tmp mod 1000000000) else ucast tmp) :: u32;
         r1 = r\<lparr>dr_x := (dr_x r)(k := v)\<rparr>
     in (if k = ring_prev (dr_z r) \<and> k \<noteq> dr_a r \<and> v = 0 then r1\<lparr>dr_z := k\<rparr> else r1, carry1))"

fun up_digits :: "nat \<Rightarrow> dec_ring \<times> u32 \<Rightarrow> dec_ring \<times> u32" where
  "up_digits 0 rc = up_digit 0 rc"
| "up_digits (Suc n) rc = up_digits n (up_digit (Suc n) rc)"

definition up_carry :: "dec_ring \<times> u32 \<Rightarrow> dec_ring" where
  "up_carry = (\<lambda>(r, carry).
     if carry = 0 then r
     else
       let a = ring_prev (dr_a r);
           r1 = r\<lparr>dr_rp := dr_rp r + 9, dr_a := a\<rparr>;
           r2 = (if a = dr_z r then
               let z = ring_prev (dr_z r); w = ring_prev z; x = dr_x r
               in r1\<lparr>dr_z := z, dr_x := x(w := x w OR x z)\<rparr> else r1)
       in r2\<lparr>dr_x := (dr_x r2)(a := carry)\<rparr>)"

partial_function (option) upscale :: "dec_ring \<Rightarrow> dec_ring option" where
  "upscale r =
     (if dr_rp r < 27 \<or> dr_rp r = 27 \<and> dr_x r (dr_a r) < th ! 0
      then upscale (up_carry (up_digits (ring_dist (dr_a r) (ring_prev (dr_z r))) (r\<lparr>dr_e2 := dr_e2 r - 29\<rparr>, 0)))
      else Some r)"

text \<open>Whether the first three elements are more than \<open>2^64 - 1\<close>.\<close>

fun exceeds :: "dec_ring \<Rightarrow> nat \<Rightarrow> u32 list \<Rightarrow> bool" where
  "exceeds r k [] = False"
| "exceeds r k (t # ts) =
     (let v = dr_x r k in if k = dr_z r \<or> v < t then False else if t < v then True else exceeds r (ring_next k) ts)"

text \<open>One round of scaling down by \<open>2^sh\<close>.\<close>

definition down_digit :: "nat \<Rightarrow> nat \<Rightarrow> dec_ring \<times> u32 \<Rightarrow> dec_ring \<times> u32" where
  "down_digit sh k = (\<lambda>(r, carry).
     let v = drop_bit sh (dr_x r k) + carry;
         carry1 = drop_bit sh 1000000000 * (dr_x r k AND (push_bit sh 1 - 1));
         r1 = r\<lparr>dr_x := (dr_x r)(k := v)\<rparr>
     in if k = dr_a r \<and> v = 0 then (r1\<lparr>dr_a := ring_next (dr_a r), dr_rp := dr_rp r - 9\<rparr>, carry1) else (r1, carry1))"

definition down_carry :: "dec_ring \<times> u32 \<Rightarrow> dec_ring" where
  "down_carry = (\<lambda>(r, carry).
     if carry = 0 then r
     else if ring_next (dr_z r) \<noteq> dr_a r then r\<lparr>dr_x := (dr_x r)(dr_z r := carry), dr_z := ring_next (dr_z r)\<rparr>
     else let w = ring_prev (dr_z r) in r\<lparr>dr_x := (dr_x r)(w := dr_x r w OR 1)\<rparr>)"

partial_function (option) downscale :: "dec_ring \<Rightarrow> dec_ring option" where
  "downscale r =
     (if \<not> exceeds r (dr_a r) th \<and> dr_rp r = 27 then Some r
      else
        let sh = (if 36 < dr_rp r then 9 else 1) :: nat;
            ks = map (\<lambda>n. (dr_a r + n) mod KMAX) [0..<ring_dist (dr_a r) (dr_z r)]
        in downscale (down_carry (fold (down_digit sh) ks (r\<lparr>dr_e2 := dr_e2 r + int sh\<rparr>, 0))))"

section \<open>The value\<close>

text \<open>The first three elements; a missing one is added as 0.\<close>

definition assemble_step :: "nat \<Rightarrow> (dec_ring \<times> ldshape) option \<Rightarrow> (dec_ring \<times> ldshape) option" where
  "assemble_step i st = do {
     (r, y) \<leftarrow> st;
     let k = (dr_a r + i) mod KMAX;
     r1 \<leftarrow> (if k = dr_z r then
         let z = ring_next (dr_z r) in if z = 0 then None else Some (r\<lparr>dr_z := z, dr_x := (dr_x r)(z - 1 := 0)\<rparr>)
       else Some r);
     Some (r1, ld_add (ld_mul (ld_of_int 1000000000) y) (ld_of_int (uint (dr_x r1 k))))
   }"

text \<open>What lies behind the first three elements.\<close>

definition dec_tail :: "int \<Rightarrow> int \<Rightarrow> dec_ring \<Rightarrow> ldshape \<Rightarrow> ldshape option" where
  "dec_tail sign bits r frac =
     (let k = (dr_a r + 3) mod KMAX; t = dr_x r k; last = (ring_next k = dr_z r);
          quarters = (\<lambda>n. ld_add frac (ld_mul (ld_of_int (n * sign)) (ld_power (- 2))))
      in if k = dr_z r then Some frac
         else
           let frac1 =
             (if t < 500000000 \<and> (t \<noteq> 0 \<or> \<not> last) then quarters 1
              else if 500000000 < t then quarters 3
              else if t = 500000000 then if last then quarters 2 else quarters 3
              else frac)
           in if 2 \<le> 64 - bits then
                map_option (\<lambda>m. if ld_true m then frac1 else ld_add frac1 (ld_of_int 1)) (fmodl frac1 (ld_of_int 1))
              else Some frac1)"

definition ld_scalbn1 :: "int \<Rightarrow> ldshape" where
  "ld_scalbn1 n = ld_of_double (scalbn 0x3FF0000000000000 n)"

text \<open>Rounding to \<open>bits\<close>, and the exponent. The flag is set when \<open>errno\<close> becomes \<open>ERANGE\<close>.\<close>

definition dec_round :: "int \<Rightarrow> int \<Rightarrow> int \<Rightarrow> ldshape \<Rightarrow> dec_ring \<Rightarrow> (ldshape \<times> bool) option" where
  "dec_round bits0 emin sign y0 r = do {
     let emax = - emin - bits0 + 3;
     let denormal = (64 + dr_e2 r - emin < bits0);
     let bits = (if denormal then max 0 (64 + dr_e2 r - emin) else bits0);
     let y1 = ld_mul y0 (ld_of_int sign);
     (frac, bias, y2) \<leftarrow>
       (if bits < 64 then
          let bias = copysignl (ld_scalbn1 (2 * 64 - bits - 1)) y1
          in map_option (\<lambda>frac. (frac, bias, ld_add (ld_sub y1 frac) bias)) (fmodl y1 (ld_scalbn1 (64 - bits)))
        else Some (ld_zero False, ld_zero False, y1));
     frac1 \<leftarrow> dec_tail sign bits r frac;
     let y3 = ld_sub (ld_add y2 frac1) bias;
     let e2 = dr_e2 r;
     if emax - 5 < (e2 + 64) mod 2 ^ 31 then
       let large = ld_less_eq (ld_power 64) (fabsl y3);
           denormal1 = (denormal \<and> \<not> (large \<and> bits = 64 + e2 - emin));
           e2' = (if large then e2 + 1 else e2);
           y4 = (if large then ld_mul y3 (ld_power (- 1)) else y3)
       in Some (scalbnl y4 e2', emax < e2' + 64 \<or> denormal1 \<and> ld_true frac1)
     else Some (scalbnl y3 e2, False)
   }"

definition LDBL_MAX :: ldshape where
  "LDBL_MAX = ld_make False (- 1) 0x7FFE"

definition LDBL_MIN :: ldshape where
  "LDBL_MIN = ld_make False (push_bit 63 1) 1"

text \<open>Numbers of few digits: \<open>x0\<close> has the first nine.\<close>

definition dec_short :: "int \<Rightarrow> int \<Rightarrow> int \<Rightarrow> int \<Rightarrow> u32 \<Rightarrow> ldshape option" where
  "dec_short bits sign lnz rp x0 =
     (let y = ld_mul (ld_of_int sign) (ld_of_int (uint x0)); bitlim = bits - 3 * (rp - 9) in
      if \<not> (lnz < 9 \<and> lnz \<le> rp \<and> rp < 18) then None
      else if rp = 9 then Some y
      else if rp < 9 then Some (ld_div y (ld_of_int (uint (p10s ! nat (8 - rp)))))
      else if 30 < bitlim \<or> drop_bit (nat bitlim) x0 = 0 then Some (ld_mul y (ld_of_int (uint (p10s ! nat (rp - 10)))))
      else None)"

definition dec_value :: "int \<Rightarrow> int \<Rightarrow> int \<Rightarrow> dec_state \<Rightarrow> (ldshape \<times> bool) option" where
  "dec_value bits emin sign d =
     (let x0 = dd_x d 0; s = ld_of_int sign; lrp = dd_lrp d in
      if x0 = 0 then Some (ld_mul s (ld_zero False), False)
      else if lrp = dd_dc d \<and> dd_dc d < 10 \<and> (30 < bits \<or> drop_bit (nat bits) x0 = 0) then Some (ld_mul s (ld_of_int (uint x0)), False)
      else if - emin div 2 < lrp then Some (ld_mul (ld_mul s LDBL_MAX) LDBL_MAX, True)
      else if lrp < emin - 2 * 64 then Some (ld_mul (ld_mul s LDBL_MIN) LDBL_MIN, True)
      else
        let r = dec_fill d in
        case dec_short bits sign (dd_lnz d) lrp (dr_x r 0) of Some y \<Rightarrow> Some (y, False)
        | None \<Rightarrow> do {
            r1 \<leftarrow> upscale (dec_align (r\<lparr>dr_z := drop_zeros (dr_x r) (dr_z r)\<rparr>));
            r2 \<leftarrow> downscale r1;
            (r3, y) \<leftarrow> fold assemble_step [0, 1, 2] (Some (r2, ld_zero False));
            dec_round bits emin sign y r3
          })"

definition gob_decfloat ::
  "(nat \<Rightarrow> u32) \<Rightarrow> int \<Rightarrow> int \<Rightarrow> int \<Rightarrow> int \<Rightarrow> bool \<Rightarrow> 'a gob_file_scheme \<Rightarrow> ('a gob_file_scheme \<times> ldshape) option" where
  "gob_decfloat junk c bits emin sign pok s = do {
     n \<leftarrow> dec_number junk pok c s;
     (case n of Inl s1 \<Rightarrow> Some (s1, ld_zero False)
      | Inr (s1, d) \<Rightarrow> map_option (\<lambda>(y, range). (if range then s1\<lparr>g_errno := ERANGE\<rparr> else s1, y)) (dec_value bits emin sign d))
   }"

section \<open>The scanner\<close>

text \<open>A word is matched without case; the last character that was read and the number that matched.\<close>

fun match_word :: "string \<Rightarrow> int \<Rightarrow> nat \<Rightarrow> 'a gob_file_scheme \<Rightarrow> 'a gob_file_scheme \<times> int \<times> nat" where
  "match_word [] c i s = (s, c, i)"
| "match_word (w # ws) c i s =
     (if c OR 32 \<noteq> of_char w then (s, c, i)
      else if ws = [] then (s, c, i + 1)
      else case scan_help_getc s of (s1, c1) \<Rightarrow> match_word ws c1 (i + 1) s1)"

definition unget_times :: "nat \<Rightarrow> 'a gob_file_scheme \<Rightarrow> 'a gob_file_scheme" where
  "unget_times n = scan_help_unget ^^ n"

definition nan_char :: "int \<Rightarrow> bool" where
  "nan_char c \<longleftrightarrow> decimal_digit c \<or> (word_of_int (c - 65) :: u32) < 26 \<or> (word_of_int (c - 97) :: u32) < 26 \<or> c = 95"

text \<open>What follows \<open>nan(\<close>.\<close>

partial_function (option) nan_paren :: "bool \<Rightarrow> nat \<Rightarrow> 'a gob_file_scheme \<Rightarrow> ('a gob_file_scheme \<times> ldshape) option" where
  "nan_paren pok i s =
     (case scan_help_getc s of (s1, c) \<Rightarrow>
        if nan_char c then nan_paren pok (i + 1) s1
        else if c = 41 then Some (s1, ld_nan True)
        else
          let s2 = scan_help_unget s1 in
          if \<not> pok then Some (scan_help_lim 0 (s2\<lparr>g_errno := EINVAL\<rparr>), ld_zero False) else Some (unget_times i s2, ld_nan True))"

text \<open>\<open>bits\<close> and \<open>emin\<close> for \<open>float\<close>, \<open>double\<close> and \<open>long double\<close>.\<close>

definition float_kind :: "int \<Rightarrow> (int \<times> int) option" where
  "float_kind prec =
     (if prec = 0 then Some (24, - 125 - 24) else if prec = 1 then Some (53, - 1021 - 53)
      else if prec = 2 then Some (64, - 16381 - 64) else None)"

definition floatscan_nan :: "(nat \<Rightarrow> u32) \<Rightarrow> int \<times> int \<Rightarrow> bool \<Rightarrow> int \<Rightarrow> nat \<Rightarrow> int \<Rightarrow> 'a gob_file_scheme \<Rightarrow> ('a gob_file_scheme \<times> ldshape) option" where
  "floatscan_nan junk kind pok sign i0 c0 s0 =
     (let (s, c, i) = (if i0 = 0 then match_word ''nan'' c0 0 s0 else (s0, c0, i0)) in
      if i = 3 then
        case scan_help_getc s of (s1, c1) \<Rightarrow>
          if c1 \<noteq> 40 then Some (scan_help_unget s1, ld_nan True) else nan_paren pok 1 s1
      else if i \<noteq> 0 then Some (scan_help_lim 0 ((scan_help_unget s)\<lparr>g_errno := EINVAL\<rparr>), ld_zero False)
      else gob_decfloat junk c (fst kind) (snd kind) sign pok s)"

definition gob_floatscan :: "(nat \<Rightarrow> u32) \<Rightarrow> int \<Rightarrow> bool \<Rightarrow> 'a gob_file_scheme \<Rightarrow> ('a gob_file_scheme \<times> ldshape) option" where
  "gob_floatscan junk prec pok s0 =
     (case float_kind prec of None \<Rightarrow> Some (s0, ld_zero False)
      | Some kind \<Rightarrow> do {
          (s1, c1) \<leftarrow> scan_spaces s0;
          let (s2, c2, sign) = (if c1 = 43 \<or> c1 = 45 then case scan_help_getc s1 of (s2, c2) \<Rightarrow> (s2, c2, if c1 = 45 then - 1 else 1)
            else (s1, c1, 1));
          (case match_word ''infinity'' c2 0 s2 of (s, c, i) \<Rightarrow>
             if i = 3 \<or> i = 8 \<or> 3 < i \<and> pok then
               Some (if i = 8 then s else let s' = scan_help_unget s in if pok then unget_times (i - 3) s' else s', ld_inf (sign < 0))
             else floatscan_nan junk kind pok sign i c s)
        })"

section \<open>\<open>strtod\<close> and its relatives\<close>

definition strtox :: "(nat \<Rightarrow> u32) \<Rightarrow> ptr \<Rightarrow> ptr \<Rightarrow> int \<Rightarrow> 'a gob_file_scheme \<Rightarrow> ('a gob_file_scheme \<times> ldshape) option" where
  "strtox junk str p prec s0 = do {
     (s1, y) \<leftarrow> gob_floatscan junk prec True (scan_help_lim 0 (scan_help_file_from_string str s0));
     let count = scan_help_cnt s1;
     Some (if p \<noteq> NULL then s1\<lparr>g_mem := store32 (g_mem s1) p (if 0 < count then str + word_of_int count else str)\<rparr> else s1, y)
   }"

definition strtof :: "(nat \<Rightarrow> u32) \<Rightarrow> ptr \<Rightarrow> ptr \<Rightarrow> 'a gob_file_scheme \<Rightarrow> ('a gob_file_scheme \<times> u32) option" where
  "strtof junk str p s = map_option (\<lambda>(s1, y). (s1, ld_to_float y)) (strtox junk str p 0 s)"

definition strtod :: "(nat \<Rightarrow> u32) \<Rightarrow> ptr \<Rightarrow> ptr \<Rightarrow> 'a gob_file_scheme \<Rightarrow> ('a gob_file_scheme \<times> u64) option" where
  "strtod junk str p s = map_option (\<lambda>(s1, y). (s1, ld_to_double y)) (strtox junk str p 1 s)"

definition strtold :: "(nat \<Rightarrow> u32) \<Rightarrow> ptr \<Rightarrow> ptr \<Rightarrow> 'a gob_file_scheme \<Rightarrow> ('a gob_file_scheme \<times> ldshape) option" where
  "strtold junk str p s = strtox junk str p 2 s"

text \<open>The scanner of \<open>gob_vfscanf\<close>: what \<open>scanf.c\<close> stores for a size.\<close>

definition float_bytes :: "int \<Rightarrow> ldshape \<Rightarrow> u8 list" where
  "float_bytes sz y =
     (if sz = SIZE_def then map (\<lambda>i. ucast (drop_bit (8 * i) (ld_to_float y))) [0..<4]
      else if sz = SIZE_l then map (\<lambda>i. ucast (drop_bit (8 * i) (ld_to_double y))) [0..<8]
      else if sz = SIZE_L then map (\<lambda>i. ucast (drop_bit (8 * i) (ld_m y))) [0..<8] @ [ucast (ld_se y), ucast (drop_bit 8 (ld_se y))]
      else [])"

definition gob_float_scanner :: "(nat \<Rightarrow> u32) \<Rightarrow> float_scanner" where
  "gob_float_scanner junk sz s = map_option (\<lambda>(s1, y). (s1, float_bytes sz y)) (gob_floatscan junk sz False s)"

end
