(* ===== verification/FloatFormat.thy ===== *)
theory FloatFormat
  imports FMath Format
begin

text \<open>
  \<open>gob_format_float\<close> of \<open>lib/goblibc/src/format.c\<close>, the printing of floating point numbers. The array \<open>big\<close> holds nine
  decimal digits in an element; \<open>a\<close>, \<open>z\<close>, \<open>d\<close> are indices of it and \<open>r\<close> is the element before the decimal point.
  \<open>junk\<close> is what the array holds before. \<open>None\<close> is a write outside the array or a loop that does not end.
\<close>

section \<open>The sign\<close>

definition float_prefix :: string where
  "float_prefix = ''-0X+0X 0X-0x+0x 0x''"

text \<open>The value without its sign, the offset of the prefix and its length.\<close>

definition take_sign :: "u32 \<Rightarrow> ldshape \<Rightarrow> ldshape \<times> nat \<times> nat" where
  "take_sign fl value =
     (if signbit (ld_to_double value) \<noteq> 0 then (ld_neg value, 0, 1)
      else if fl AND MARK_POS \<noteq> 0 then (value, 3, 1)
      else if fl AND PAD_POS \<noteq> 0 then (value, 6, 1)
      else (value, 1, 0))"

definition prefix_bytes :: "nat \<Rightarrow> nat \<Rightarrow> u8 list" where
  "prefix_bytes p n = map of_char (take n (drop p float_prefix))"

definition lower_case :: "u8 \<Rightarrow> bool" where
  "lower_case t \<longleftrightarrow> t AND 32 \<noteq> 0"

definition conversion :: "u8 \<Rightarrow> char \<Rightarrow> bool" where
  "conversion t c \<longleftrightarrow> t OR 32 = of_char c"

text \<open>\<open>value\<close> was converted to \<open>double\<close> before it was found to be infinite.\<close>

definition format_infinite :: "int \<Rightarrow> u32 \<Rightarrow> u8 \<Rightarrow> ldshape \<Rightarrow> nat \<Rightarrow> nat \<Rightarrow> fmt_state \<Rightarrow> fmt_state \<times> int" where
  "format_infinite width fl t value p n s =
     (let str = (if \<not> ld_equal value value then if lower_case t then ''nan'' else ''NAN'' else if lower_case t then ''inf'' else ''INF'');
          s1 = pad CHR '' '' width (3 + int n) (fl AND NOT ZERO_PAD) s;
          s2 = out (map of_char str) (out (prefix_bytes p n) s1)
      in (pad CHR '' '' width (3 + int n) (fl XOR LEFT_ADJ) s2, max width (3 + int n)))"

section \<open>Hexadecimal\<close>

definition exponent_digits :: "nat \<Rightarrow> int \<Rightarrow> u8 \<Rightarrow> u8 list" where
  "exponent_digits least e c =
     (let ds = gob_format_unsigned (word_of_int \<bar>e\<bar>)
      in c # (if e < 0 then 45 else 43) # replicate (least - length ds) 48 @ ds)"

text \<open>Rounding to \<open>p\<close> hexadecimal digits.\<close>

definition hex_round :: "bool \<Rightarrow> int \<Rightarrow> ldshape \<Rightarrow> ldshape" where
  "hex_round neg p value =
     (if 0 \<le> p \<and> p < (64 - 1 + 3) div 4 then
        let round = ld_of_double (scalbn 0x3FF0000000000000 (64 - 1 - p * 4)) in
        if neg then ld_neg (ld_add (ld_sub (ld_neg value) round) round)
        else ld_sub (ld_add value round) round
      else value)"

partial_function (option) hexf_digits :: "u8 \<Rightarrow> int \<Rightarrow> u32 \<Rightarrow> u8 list \<Rightarrow> ldshape \<Rightarrow> u8 list option" where
  "hexf_digits t p fl buf value =
     (case ld_trunc value of None \<Rightarrow> None
      | Some x \<Rightarrow>
          if x < 0 \<or> 15 < x then None
          else
            let buf1 = buf @ [of_char (xdigits ! nat x) OR (t AND 32)];
                value1 = ld_mul (ld_of_int 16) (ld_sub value (ld_of_int x));
                buf2 = (if length buf1 = 1 \<and> (ld_true value1 \<or> 0 < p \<or> fl AND ALT_FORM \<noteq> 0) then buf1 @ [46] else buf1)
            in if ld_true value1 then hexf_digits t p fl buf2 value1 else Some buf2)"

definition format_hex_float ::
  "int \<Rightarrow> int \<Rightarrow> u32 \<Rightarrow> u8 \<Rightarrow> ldshape \<Rightarrow> int \<Rightarrow> nat \<Rightarrow> nat \<Rightarrow> fmt_state \<Rightarrow> (fmt_state \<times> int) option" where
  "format_hex_float width p fl t value e2 p0 n0 s =
     (let po = p0 + (if lower_case t then 9 else 0); pl = int n0 + 2;
          estr = exponent_digits 1 e2 (t + 15); elen = int (length estr) in
      case hexf_digits t p fl [] (hex_round (float_prefix ! po = CHR ''-'') p value) of None \<Rightarrow> None
      | Some buf \<Rightarrow>
          let blen = int (length buf) in
          if INT_MAX - 2 - elen - pl < p then Some (s, - 1)
          else
            let len = (if p \<noteq> 0 \<and> blen - 2 < p then p + 2 + elen else blen + elen);
                s1 = out (prefix_bytes po (n0 + 2)) (pad CHR '' '' width (pl + len) fl s);
                s2 = out buf (pad CHR ''0'' width (pl + len) (fl XOR ZERO_PAD) s1);
                s3 = out estr (pad CHR ''0'' (len - elen - blen) 0 0 s2)
            in Some (pad CHR '' '' width (pl + len) (fl XOR LEFT_ADJ) s3, max width (pl + len)))"

section \<open>The decimal digits\<close>

record float_digits =
  fd_big :: "int \<Rightarrow> u32"
  fd_a :: int
  fd_z :: int
  fd_e2 :: int

text \<open>The number of elements of \<open>big\<close>.\<close>

definition float_bufsize :: "fstate \<Rightarrow> int" where
  "float_bufsize prev =
     (if prev = FS_BIGLPRE then (64 + 28) div 29 + 1 + (16384 + 64 + 28 + 8) div 9
      else (53 + 28) div 29 + 1 + (1024 + 53 + 28 + 8) div 9)"

text \<open>\<open>do { *z = value; value = 1000000000 * (value - *z++); } while (value)\<close>\<close>

partial_function (option) split_value :: "int \<Rightarrow> ldshape \<Rightarrow> float_digits \<Rightarrow> float_digits option" where
  "split_value bufsize value f =
     (case ld_trunc value of None \<Rightarrow> None
      | Some i \<Rightarrow>
          if bufsize \<le> fd_z f then None
          else
            let w = word_of_int i :: u32;
                value1 = ld_mul (ld_of_int 1000000000) (ld_sub value (ld_of_int (uint w)));
                f1 = f\<lparr>fd_big := (fd_big f)(fd_z f := w), fd_z := fd_z f + 1\<rparr>
            in if ld_true value1 then split_value bufsize value1 f1 else Some f1)"

text \<open>\<open>while (z > a && !z[-1]) z--\<close>; the number is \<open>z - a\<close>.\<close>

fun strip_zeros :: "(int \<Rightarrow> u32) \<Rightarrow> int \<Rightarrow> nat \<Rightarrow> int" where
  "strip_zeros big a 0 = a"
| "strip_zeros big a (Suc n) = (if big (a + int n) = 0 then strip_zeros big a n else a + int n + 1)"

definition strip :: "float_digits \<Rightarrow> float_digits" where
  "strip f = (if fd_a f < fd_z f then f\<lparr>fd_z := strip_zeros (fd_big f) (fd_a f) (nat (fd_z f - fd_a f))\<rparr> else f)"

definition grow_digit :: "nat \<Rightarrow> int \<Rightarrow> (int \<Rightarrow> u32) \<times> u32 \<Rightarrow> (int \<Rightarrow> u32) \<times> u32" where
  "grow_digit sh d = (\<lambda>(big, carry).
     let x = push_bit sh (ucast (big d)) + ucast carry :: u64 in (big(d := ucast (x mod 1000000000)), ucast (x div 1000000000)))"

partial_function (option) grow :: "float_digits \<Rightarrow> float_digits option" where
  "grow f =
     (if 0 < fd_e2 f then
        let sh = min 29 (nat (fd_e2 f));
            (big, carry) = fold (grow_digit sh) (rev [fd_a f..fd_z f - 1]) (fd_big f, 0)
        in if carry \<noteq> 0 \<and> fd_a f \<le> 0 then None
           else
             let f1 = (if carry \<noteq> 0 then f\<lparr>fd_a := fd_a f - 1, fd_big := big(fd_a f - 1 := carry)\<rparr> else f\<lparr>fd_big := big\<rparr>)
             in grow ((strip f1)\<lparr>fd_e2 := fd_e2 f - int sh\<rparr>)
      else Some f)"

definition shrink_digit :: "nat \<Rightarrow> int \<Rightarrow> (int \<Rightarrow> u32) \<times> u32 \<Rightarrow> (int \<Rightarrow> u32) \<times> u32" where
  "shrink_digit sh d = (\<lambda>(big, carry).
     let rm = big d AND (push_bit sh 1 - 1) in (big(d := drop_bit sh (big d) + carry), drop_bit sh 1000000000 * rm))"

text \<open>Digits behind the precision are dropped.\<close>

partial_function (option) shrink :: "int \<Rightarrow> int \<Rightarrow> bool \<Rightarrow> int \<Rightarrow> float_digits \<Rightarrow> float_digits option" where
  "shrink bufsize r fixed p f =
     (if fd_e2 f < 0 then
        let sh = min 9 (nat (- fd_e2 f));
            need = 1 + (p + 21 + 8) div 9;
            (big, carry) = fold (shrink_digit sh) [fd_a f..fd_z f - 1] (fd_big f, 0);
            a = (if big (fd_a f) = 0 then fd_a f + 1 else fd_a f)
        in if carry \<noteq> 0 \<and> bufsize \<le> fd_z f then None
           else
             let big1 = (if carry \<noteq> 0 then big(fd_z f := carry) else big);
                 z = (if carry \<noteq> 0 then fd_z f + 1 else fd_z f);
                 b = (if fixed then r else a)
             in shrink bufsize r fixed p
                  (f\<lparr>fd_big := big1, fd_a := a, fd_z := (if need < z - b then b + need else z), fd_e2 := fd_e2 f + int sh\<rparr>)
      else Some f)"

text \<open>The exponent of ten of the first digit. An element is less than \<open>10^9\<close>.\<close>

definition ten_exp :: "u32 \<Rightarrow> int" where
  "ten_exp x = int (length (takeWhile (\<lambda>k. 10 ^ k \<le> unat x) [1..<10]))"

definition decimal_exp :: "int \<Rightarrow> float_digits \<Rightarrow> int" where
  "decimal_exp r f = 9 * (r - fd_a f) + ten_exp (fd_big f (fd_a f))"

section \<open>Rounding\<close>

text \<open>The carry of the last digit that is kept.\<close>

partial_function (option) round_carry :: "int \<Rightarrow> float_digits \<Rightarrow> (int \<times> float_digits) option" where
  "round_carry d f =
     (if 999999999 < fd_big f d then
        let f1 = f\<lparr>fd_big := (fd_big f)(d := 0)\<rparr>; d1 = d - 1 in
        if d1 < 0 then None
        else
          let f2 = (if d1 < fd_a f1 then f1\<lparr>fd_a := fd_a f1 - 1, fd_big := (fd_big f1)(fd_a f1 - 1 := 0)\<rparr> else f1)
          in round_carry d1 (f2\<lparr>fd_big := (fd_big f2)(d1 := fd_big f2 d1 + 1)\<rparr>)
      else Some (d, f))"

text \<open>Whether to round up is found by adding to a number whose last bit is that of the digit.\<close>

definition rounds_up :: "bool \<Rightarrow> u32 \<Rightarrow> u32 \<Rightarrow> bool \<Rightarrow> bool \<Rightarrow> bool" where
  "rounds_up neg x i is_odd is_last =
     (let round = (if is_odd then ld_add (ld_power 64) (ld_of_int 2) else ld_power 64);
          small = ld_mul (ld_of_int (if x < i div 2 then 1 else if x = i div 2 \<and> is_last then 2 else 3)) (ld_power (- 1));
          round1 = (if neg then ld_neg round else round);
          small1 = (if neg then ld_neg small else small)
      in \<not> ld_equal (ld_add round1 small1) round1)"

text \<open>\<open>j\<close> is the number of digits behind the point that are kept. The second component is the exponent.\<close>

definition round_digits :: "int \<Rightarrow> bool \<Rightarrow> int \<Rightarrow> float_digits \<Rightarrow> int \<Rightarrow> (float_digits \<times> int) option" where
  "round_digits r neg j f e =
     (if j < 9 * (fd_z f - r - 1) then
        let d = r + 1 + ((j + 9 * 16384) div 9 - 16384);
            i = 10 ^ nat (9 - (j + 9 * 16384) mod 9) :: u32;
            v = fd_big f d;
            x = v mod i
        in if x \<noteq> 0 \<or> d + 1 \<noteq> fd_z f then do {
             let is_odd = (v div i AND 1 \<noteq> 0 \<or> (i = 1000000000 \<and> fd_a f < d \<and> fd_big f (d - 1) AND 1 \<noteq> 0));
             let f1 = f\<lparr>fd_big := (fd_big f)(d := v - x)\<rparr>;
             (d2, f2, e2) \<leftarrow>
               (if rounds_up neg x i is_odd (d + 1 = fd_z f) then
                  map_option (\<lambda>(d2, f2). (d2, f2, decimal_exp r f2)) (round_carry d (f1\<lparr>fd_big := (fd_big f1)(d := v - x + i)\<rparr>))
                else Some (d, f1, e));
             Some (if d2 + 1 < fd_z f2 then f2\<lparr>fd_z := d2 + 1\<rparr> else f2, e2)
           }
           else Some (if d + 1 < fd_z f then f\<lparr>fd_z := d + 1\<rparr> else f, e)
      else Some (f, e))"

section \<open>The output\<close>

text \<open>The number of trailing zeros of a number that is not 0.\<close>

definition trailing_zeros :: "u32 \<Rightarrow> int" where
  "trailing_zeros x = int (length (takeWhile (\<lambda>k. unat x mod 10 ^ k = 0) [1..<10]))"

text \<open>\<open>%g\<close> chooses another conversion and precision.\<close>

definition general :: "int \<Rightarrow> u32 \<Rightarrow> u8 \<Rightarrow> int \<Rightarrow> float_digits \<Rightarrow> int \<Rightarrow> u8 \<times> int" where
  "general r fl t p0 f e =
     (let p1 = (if p0 = 0 then 1 else p0);
          (t', p) = (if e < p1 \<and> - 4 \<le> e then (t - 1, p1 - (e + 1)) else (t - 2, p1 - 1))
      in if fl AND ALT_FORM \<noteq> 0 then (t', p)
         else
           let v = fd_big f (fd_z f - 1);
               j = (if fd_a f < fd_z f \<and> v \<noteq> 0 then trailing_zeros v else 9);
               frac = 9 * (fd_z f - r - 1)
           in (t', min p (max 0 (if conversion t' CHR ''f'' then frac - j else frac + e - j))))"

definition element_digits :: "u32 \<Rightarrow> u8 list" where
  "element_digits w = gob_format_unsigned (ucast w)"

definition nine_digits :: "u32 \<Rightarrow> u8 list" where
  "nine_digits w = replicate (9 - length (element_digits w)) 48 @ element_digits w"

text \<open>\<open>for (; d < z && p > 0; d++, p -= 9)\<close>\<close>

fun put_fraction :: "nat \<Rightarrow> (int \<Rightarrow> u32) \<Rightarrow> int \<Rightarrow> int \<Rightarrow> fmt_state \<Rightarrow> fmt_state \<times> int" where
  "put_fraction 0 big d p s = (s, p)"
| "put_fraction (Suc n) big d p s =
     (if 0 < p then put_fraction n big (d + 1) (p - 9) (out (take (nat (min 9 p)) (nine_digits (big d))) s) else (s, p))"

definition print_fixed :: "int \<Rightarrow> int \<Rightarrow> u32 \<Rightarrow> float_digits \<Rightarrow> fmt_state \<Rightarrow> fmt_state" where
  "print_fixed r p fl f s =
     (let a = min (fd_a f) r;
          first = (if element_digits (fd_big f a) = [] then [48] else element_digits (fd_big f a));
          s1 = fold (\<lambda>d. out (nine_digits (fd_big f d))) [a + 1..r] (out first s);
          s2 = (if p \<noteq> 0 \<or> fl AND ALT_FORM \<noteq> 0 then out [46] s1 else s1);
          (s3, p1) = put_fraction (nat (fd_z f - (r + 1))) (fd_big f) (r + 1) p s2
      in pad CHR ''0'' (p1 + 9) 9 0 s3)"

text \<open>\<open>for (; d < z && p >= 0; d++)\<close>, behind the first element.\<close>

fun put_rest :: "nat \<Rightarrow> (int \<Rightarrow> u32) \<Rightarrow> int \<Rightarrow> int \<Rightarrow> fmt_state \<Rightarrow> fmt_state \<times> int" where
  "put_rest 0 big d p s = (s, p)"
| "put_rest (Suc n) big d p s =
     (if 0 \<le> p then put_rest n big (d + 1) (p - 9) (out (take (nat (min 9 p)) (nine_digits (big d))) s) else (s, p))"

definition print_exponent :: "int \<Rightarrow> u32 \<Rightarrow> u8 list \<Rightarrow> float_digits \<Rightarrow> fmt_state \<Rightarrow> fmt_state" where
  "print_exponent p fl estr f s =
     (let a = fd_a f;
          z = max (fd_z f) (a + 1);
          ds = (if element_digits (fd_big f a) = [] then [48] else element_digits (fd_big f a));
          (s3, p3) =
            (if 0 \<le> p then
               let s1 = out [hd ds] s;
                   s2 = (if 0 < p \<or> fl AND ALT_FORM \<noteq> 0 then out [46] s1 else s1)
               in put_rest (nat (z - (a + 1))) (fd_big f) (a + 1) (p - int (length (tl ds))) (out (take (nat (min (int (length (tl ds))) p)) (tl ds)) s2)
             else (s, p))
      in out estr (pad CHR ''0'' (p3 + 18) 18 0 s3))"

text \<open>The length of the field, or \<open>None\<close> when it is too large.\<close>

definition float_length :: "u8 \<Rightarrow> int \<Rightarrow> u32 \<Rightarrow> int \<Rightarrow> int \<Rightarrow> int \<Rightarrow> int option" where
  "float_length t p fl e elen pl =
     (let point = (if p \<noteq> 0 \<or> fl AND ALT_FORM \<noteq> 0 then 1 else 0);
          len = 1 + p + point;
          len1 = (if conversion t CHR ''f'' then if 0 < e then len + e else len else len + elen)
      in if INT_MAX - 1 - point < p \<or> INT_MAX - len < (if conversion t CHR ''f'' then e else elen) \<or> INT_MAX - pl < len1 then None else Some len1)"

definition print_digits ::
  "int \<Rightarrow> int \<Rightarrow> int \<Rightarrow> u32 \<Rightarrow> u8 \<Rightarrow> nat \<Rightarrow> nat \<Rightarrow> float_digits \<Rightarrow> int \<Rightarrow> fmt_state \<Rightarrow> fmt_state \<times> int" where
  "print_digits r width p fl t po n f e s =
     (let estr = exponent_digits 2 e t; pl = int n in
      case float_length t p fl e (int (length estr)) pl of None \<Rightarrow> (s, - 1)
      | Some len \<Rightarrow>
          let s1 = out (prefix_bytes po n) (pad CHR '' '' width (pl + len) fl s);
              s2 = pad CHR ''0'' width (pl + len) (fl XOR ZERO_PAD) s1;
              s3 = (if conversion t CHR ''f'' then print_fixed r p fl f s2 else print_exponent p fl estr f s2)
          in (pad CHR '' '' width (pl + len) (fl XOR LEFT_ADJ) s3, max width (pl + len)))"

section \<open>All of it\<close>

definition decimal_digits ::
  "(int \<Rightarrow> u32) \<Rightarrow> int \<Rightarrow> int \<Rightarrow> bool \<Rightarrow> int \<Rightarrow> ldshape \<Rightarrow> int \<Rightarrow> float_digits option" where
  "decimal_digits junk bufsize r fixed p value e2 = do {
     f1 \<leftarrow> split_value bufsize value \<lparr>fd_big = junk, fd_a = r, fd_z = r, fd_e2 = e2\<rparr>;
     f2 \<leftarrow> grow f1;
     shrink bufsize r fixed p f2
   }"

definition format_decimal_float ::
  "(int \<Rightarrow> u32) \<Rightarrow> int \<Rightarrow> int \<Rightarrow> u32 \<Rightarrow> u8 \<Rightarrow> fstate \<Rightarrow> ldshape \<Rightarrow> int \<Rightarrow> nat \<Rightarrow> nat \<Rightarrow> fmt_state \<Rightarrow> (fmt_state \<times> int) option" where
  "format_decimal_float junk width p0 fl t prev value0 e20 po n s = do {
     let p = (if p0 < 0 then 6 else p0);
     let nonzero = ld_true value0;
     let value = (if nonzero then ld_mul value0 (ld_power 28) else value0);
     let e2 = (if nonzero then e20 - 28 else e20);
     let bufsize = float_bufsize prev;
     let r = (if e2 < 0 then 0 else bufsize - 64 - 1);
     let fixed = conversion t CHR ''f'';
     f \<leftarrow> decimal_digits junk bufsize r fixed p value e2;
     let e = (if fd_a f < fd_z f then decimal_exp r f else 0);
     let j = p - (if fixed then 0 else e) - (if conversion t CHR ''g'' \<and> p \<noteq> 0 then 1 else 0);
     (f1, e1) \<leftarrow> round_digits r (0 < n \<and> float_prefix ! po = CHR ''-'') j f e;
     let f2 = strip f1;
     let (t', p') = (if conversion t CHR ''g'' then general r fl t p f2 e1 else (t, p));
     Some (print_digits r width p' fl t' po n f2 e1 s)
   }"

definition format_float ::
  "(int \<Rightarrow> u32) \<Rightarrow> ldshape \<Rightarrow> int \<Rightarrow> int \<Rightarrow> u32 \<Rightarrow> u8 \<Rightarrow> fstate \<Rightarrow> fmt_state \<Rightarrow> (fmt_state \<times> int) option" where
  "format_float junk value0 width p fl t prev s =
     (let (value1, po, n) = take_sign fl value0 in
      if \<not> isfinite (ld_to_double value1) then Some (format_infinite width fl t value1 po n s)
      else
        let (y, ex) = frexpl value1;
            value = ld_mul y (ld_of_int 2);
            e = (case ex of Some e \<Rightarrow> e | None \<Rightarrow> 0);
            e2 = (if ld_true value then e - 1 else e)
        in if conversion t CHR ''a'' then format_hex_float width p fl t value e2 po n s
           else format_decimal_float junk width p fl t prev value e2 po n s)"

text \<open>The argument as \<open>pop_arg\<close> read it: a \<open>double\<close> or a \<open>long double\<close>.\<close>

fun float_arg :: "u32 list \<Rightarrow> ldshape" where
  "float_arg [lo, hi] = ld_of_double (u64_of lo hi)"
| "float_arg [x, y, z] = \<lparr>ld_m = u64_of x y, ld_se = ucast z\<rparr>"
| "float_arg _ = ld_zero False"

definition gob_format_float :: "(int \<Rightarrow> u32) \<Rightarrow> float_printer" where
  "gob_format_float junk v = format_float junk (float_arg v)"

end
