(* ===== verification/FloatDigits.thy ===== *)
theory FloatDigits
  imports FMathExact LongDoubleExact FloatFormat Render
begin

text \<open>
  What the digit array of \<open>gob_format_float\<close> (FloatFormat) holds: \<open>fd_val\<close> reads the array as a real number in base
  10^9, and \<open>split_value\<close>, \<open>grow\<close> and \<open>shrink\<close> keep it equal to the number they were given, as long as that
  is an integer of up to 64 bits. Decimal numerals are read off the array nine digits at a time (\<open>decimal_nval\<close>).
\<close>

section \<open>Doubles and exponents\<close>

lemma round_shift_le: "m < 2 ^ (p + k) \<Longrightarrow> round_shift m k \<le> 2 ^ p"
proof -
  assume "m < 2 ^ (p + k)"
  then have "m div 2 ^ k < 2 ^ p" by (simp add: power_add less_mult_imp_div_less)
  then show ?thesis by (simp add: round_shift_def Let_def)
qed

lemma round_to_bound:
  assumes "m \<noteq> 0" "0 < p" "round_to p emin m e = (q, e')"
  shows "q < 2 ^ p \<and> e' \<le> max (e + int (bit_length m) - int p) emin + 1"
proof -
  define sh where "sh = max (int (bit_length m) - int p) (emin - e)"
  define r where "r = (if sh \<le> 0 then m * 2 ^ nat (- sh) else round_shift m (nat sh))"
  have b: "m < 2 ^ bit_length m" using bit_length_bounds [OF assms(1)] by simp
  have "r \<le> 2 ^ p"
  proof (cases "sh \<le> 0")
    case True
    then have "r \<le> 2 ^ bit_length m * 2 ^ nat (- sh)" using b by (simp add: r_def)
    also have "\<dots> = 2 ^ (bit_length m + nat (- sh))" by (simp add: power_add)
    also have "\<dots> \<le> 2 ^ p" using True by (intro power_increasing) (auto simp: sh_def)
    finally show ?thesis .
  next
    case False
    have "(2 :: nat) ^ bit_length m \<le> 2 ^ (p + nat sh)" using False by (intro power_increasing) (auto simp: sh_def)
    then have "m < 2 ^ (p + nat sh)" using b by (rule less_le_trans [rotated])
    then show ?thesis using False by (simp add: r_def round_shift_le)
  qed
  moreover have "(q, e') = (if r = 2 ^ p then (2 ^ (p - 1), e + sh + 1) else (r, e + sh))"
    using assms(3) unfolding round_to_def Let_def sh_def [symmetric] r_def [symmetric] by (rule sym)
  moreover have "(2 :: nat) ^ (p - 1) < 2 ^ p" using assms(2) by simp
  moreover have "e + sh = max (e + int (bit_length m) - int p) emin" by (simp add: sh_def max_def)
  ultimately show ?thesis by (auto split: if_splits)
qed

lemma to_double:
  assumes x: "ld_class x = Ld_Fin s m e" "real m * 2 powi e < 2 powi 64"
  shows "\<exists>c < 0x7FF * 2 ^ 52. unat (ld_to_double x) = (if s then 2 ^ 63 else 0) + c"
proof -
  have w: "unat (of_nat n :: u64) = n" if "n < 2 ^ 64" for n using that by (rule unat_of_nat_u64)
  have goal: ?thesis if "small_bits 52 11 x = c + (if s then 2 ^ 63 else 0)" "c < 0x7FF * 2 ^ 52" for c
    using that w [of "c + (if s then 2 ^ 63 else 0)"] by (intro exI [of _ c]) (auto simp: ld_to_double_def)
  show ?thesis
  proof (cases "m = 0")
    case True
    then show ?thesis by (intro goal [of 0]) (simp_all add: small_bits_def x(1))
  next
    case False
    obtain q e' where r: "round_to 53 (- 1074) m e = (q, e')" by (cases "round_to 53 (- 1074) m e")
    have "2 powi (int (bit_length m) - 1) \<le> real m"
      using bit_length_bounds [OF False] of_nat_le_iff [of "2 ^ (bit_length m - 1)" m, where 'a = real] by (simp add: powi_nat nat_diff_distrib)
    then have "2 powi (int (bit_length m) - 1) * 2 powi e \<le> real m * 2 powi e" by (intro mult_right_mono) simp_all
    then have "2 powi (int (bit_length m) - 1 + e) < (2 :: real) powi 64" using x(2) by (simp only: powi_add)
    then have "int (bit_length m) - 1 + e < 64" by (simp only: powi_less_iff)
    then have q: "q < 2 ^ 53" "e' \<le> 12" using round_to_bound [OF False _ r] by auto
    have "\<not> 2047 \<le> nat (e' + 1075)" using q(2) by simp
    then have sb: "small_bits 52 11 x =
      (if q < 2 ^ 52 then q + (if s then 2 ^ 63 else 0) else nat (e' + 1075) * 2 ^ 52 + (q - 2 ^ 52) + (if s then 2 ^ 63 else 0))"
      using False r q(2) by (simp add: small_bits_def x(1) Let_def add.commute)
    show ?thesis
    proof (cases "q < 2 ^ 52")
      case True
      then show ?thesis using sb by (intro goal [of q]) simp_all
    next
      case big: False
      have "nat (e' + 1075) \<le> 1087" using q(2) by simp
      then have "nat (e' + 1075) * 2 ^ 52 \<le> 1087 * 2 ^ 52" by (rule mult_le_mono1)
      then have "nat (e' + 1075) * 2 ^ 52 + (q - 2 ^ 52) < 0x7FF * 2 ^ 52" using q(1) by simp
      then show ?thesis using sb big by (intro goal [of "nat (e' + 1075) * 2 ^ 52 + (q - 2 ^ 52)"]) simp_all
    qed
  qed
qed

lemma double_finite:
  assumes "ld_class x = Ld_Fin s m e" "real m * 2 powi e < 2 powi 64"
  shows "isfinite (ld_to_double x)" "signbit (ld_to_double x) \<noteq> 0 \<longleftrightarrow> s"
proof -
  obtain c where c: "c < 0x7FF * 2 ^ 52" "unat (ld_to_double x) = (if s then 2 ^ 63 else 0) + c" using to_double [OF assms] by blast
  have "unat (ld_to_double x) mod 2 ^ (52 + 11) = c" using c by simp
  then have "unat (ld_to_double x) div 2 ^ 52 mod 2 ^ 11 = c div 2 ^ 52" by (simp only: flip: mod_div_powers)
  then have "unat (d_exp (ld_to_double x)) < 2047" using c(1) by (simp only: unat_d_exp) (simp add: less_mult_imp_div_less)
  then show "isfinite (ld_to_double x)" by (auto simp: isfinite_def)
  have "drop_bit 63 (ld_to_double x) = 0 \<longleftrightarrow> \<not> s" using c by (simp only: drop_bit_zero) auto
  then show "signbit (ld_to_double x) \<noteq> 0 \<longleftrightarrow> s" by (simp add: signbit_def)
qed

lemma is_frexp:
  assumes x: "ld_class x = Ld_Fin False m e" "1 \<le> real m * 2 powi e"
  shows "\<exists>y k. frexpl x = (y, Some k) \<and> ld_class y = Ld_Fin False m (-64) \<and> e = k - 64 \<and> 2 ^ 63 \<le> m"
proof -
  have m: "m < 2 ^ 64" using class_finite [of x "fin_val False m e"] x by (auto simp: ld_is_def)
  have nz: "ld_exp x \<noteq> 0"
  proof
    assume "ld_exp x = 0"
    then have "e = LD_EMIN" using x(1) by (simp add: ld_class_def Let_def split: if_splits)
    then have e: "64 + e < 0" by simp
    have "real m < 2 powi 64" using m of_nat_less_iff [of m "2 ^ 64", where 'a = real] by (simp add: powi_nat)
    then have "real m * 2 powi e < 2 powi 64 * 2 powi e" by (intro mult_strict_right_mono powi_pos(1))
    also have "\<dots> = 2 powi (64 + e)" by (simp only: powi_add)
    also have "\<dots> < 2 powi 0" using e by (simp only: powi_less_iff)
    finally show False using x(2) by (simp only: power_int_0_right)
  qed
  then have f: "\<not> ld_sign x" "unat (ld_m x) = m" "2 ^ 63 \<le> m" "e = int (ld_exp x) - 16446" "ld_exp x \<noteq> 0x7FFF"
    using x(1) by (auto simp: ld_class_def Let_def split: if_splits)
  have mask: "(0x7FFF :: u16) = mask 15" by (simp add: mask_eq_exp_minus_1)
  have "unat (ld_se x AND 0x7FFF) = ld_exp x"
  proof -
    have "ld_se x AND mask 15 = take_bit 15 (ld_se x)" by (simp only: take_bit_eq_mask)
    then show ?thesis unfolding mask by (simp only: unsigned_take_bit_eq ld_exp_def) (simp add: take_bit_eq_mod)
  qed
  moreover have "ld_exponent x = int (unat (ld_se x AND 0x7FFF))" unfolding ld_exponent_def by simp
  ultimately have ex: "ld_exponent x = int (ld_exp x)" by (simp only:)
  have low: "unat (ld_se x) < 32768" using f(1) by (simp add: ld_sign_def)
  have "ld_se x AND 0x8000 = 0"
  proof (rule bit_word_eqI)
    fix n assume "n < LENGTH(16)"
    have "bit (0x8000 :: u16) n \<longleftrightarrow> n = 15" using bit_push_bit_iff [of 15 "1 :: u16" n] by (auto simp: bit_1_iff)
    moreover have "\<not> bit (ld_se x) 15"
    proof -
      have "bit (ld_se x) 15 \<longleftrightarrow> bit (unat (ld_se x)) 15" by (simp only: bit_unsigned_iff) simp
      then show ?thesis using low by (simp add: bit_iff_odd)
    qed
    ultimately show "bit (ld_se x AND 0x8000) n \<longleftrightarrow> bit (0 :: u16) n" by (auto simp: bit_and_iff)
  qed
  then have "frexpl x = (x\<lparr>ld_se := 0x3FFE\<rparr>, Some (int (ld_exp x) - 0x3FFE))"
    using nz f(5) by (simp add: frexpl_def Let_def ex)
  moreover have "ld_class (x\<lparr>ld_se := 0x3FFE\<rparr>) = Ld_Fin False m (- 64)"
    using f by (simp add: ld_class_def ld_exp_def ld_sign_def Let_def)
  ultimately show ?thesis using f(3,4) by auto
qed

section \<open>The number in the array\<close>

abbreviation "BILLION \<equiv> 1000000000 :: nat"

definition dval :: "(int \<Rightarrow> u32) \<Rightarrow> int \<Rightarrow> int \<Rightarrow> int \<Rightarrow> real" where
  "dval big r a z = (\<Sum>i\<in>{a..<z}. real (unat (big i)) * 1000000000 powi (r - i))"

lemma billion_powi: "1000000000 powi (k + 1) = 1000000000 * (1000000000 powi k :: real)"
  by (simp add: power_int_add)

lemma dval_empty [simp]: "z \<le> a \<Longrightarrow> dval big r a z = 0"
  by (simp add: dval_def)

lemma dval_first: "a < z \<Longrightarrow> dval big r a z = real (unat (big a)) * 1000000000 powi (r - a) + dval big r (a + 1) z"
proof -
  assume "a < z"
  then have "{a..<z} = insert a {a + 1..<z}" by auto
  then show ?thesis by (simp add: dval_def)
qed

lemma dval_last: "a \<le> z \<Longrightarrow> dval big r a (z + 1) = dval big r a z + real (unat (big z)) * 1000000000 powi (r - z)"
proof -
  assume "a \<le> z"
  then have "{a..<z + 1} = insert z {a..<z}" by auto
  then show ?thesis by (simp add: dval_def)
qed

lemma dval_cong: "(\<And>i. a \<le> i \<Longrightarrow> i < z \<Longrightarrow> big i = big' i) \<Longrightarrow> dval big r a z = dval big' r a z"
  by (simp add: dval_def)

lemma dval_shift: "dval big (r + 1) a z = 1000000000 * dval big r a z"
proof -
  have "1000000000 powi (r + 1 - i) = 1000000000 * (1000000000 powi (r - i) :: real)" for i
    using billion_powi [of "r - i"] by (simp add: algebra_simps)
  then show ?thesis by (simp add: dval_def sum_distrib_left mult.left_commute)
qed

text \<open>Zeros behind the last digit do not count.\<close>

lemma dval_zeros: "a \<le> z' \<Longrightarrow> z' \<le> z \<Longrightarrow> (\<And>i. z' \<le> i \<Longrightarrow> i < z \<Longrightarrow> big i = 0) \<Longrightarrow> dval big r a z = dval big r a z'"
proof -
  assume z: "a \<le> z'" "z' \<le> z" "\<And>i. z' \<le> i \<Longrightarrow> i < z \<Longrightarrow> big i = 0"
  have "dval big r a z = (\<Sum>i\<in>{a..<z'}. real (unat (big i)) * 1000000000 powi (r - i)) + (\<Sum>i\<in>{z'..<z}. real (unat (big i)) * 1000000000 powi (r - i))"
    unfolding dval_def using z(1,2) by (subst sum.union_disjoint [symmetric]) (auto simp: ivl_disj_un)
  also have "(\<Sum>i\<in>{z'..<z}. real (unat (big i)) * 1000000000 powi (r - i)) = 0" using z(3) by (intro sum.neutral) simp
  finally show ?thesis by (simp add: dval_def)
qed

section \<open>Splitting the value\<close>

lemma split_value_step:
  assumes v: "ld_is v (real k / 2 ^ j)" "k < BILLION * 2 ^ j" "j \<le> 35"
  defines "w \<equiv> k div 2 ^ j" and "m \<equiv> k mod 2 ^ j"
  shows "ld_trunc v = Some (int w)" "w < BILLION"
    "ld_is (ld_mul (ld_of_int 1000000000) (ld_sub v (ld_of_int (int w)))) (real (1000000000 * m) / 2 ^ j)"
proof -
  have kw: "k = w * 2 ^ j + m" unfolding w_def m_def by (rule div_mult_mod_eq [symmetric])
  have val: "real k / 2 ^ j = real w + real m / 2 ^ j" by (simp add: kw add_divide_distrib)
  have m: "m < 2 ^ j" by (simp add: m_def)
  show w: "w < BILLION" using v(2) by (simp add: w_def less_mult_imp_div_less)
  have "\<lfloor>real k / 2 ^ j\<rfloor> = int w" using floor_divide_of_nat_eq [of k "2 ^ j"] by (simp add: w_def)
  then show "ld_trunc v = Some (int w)" using is_trunc [OF v(1)] by simp
  have j35: "(2 :: nat) ^ j \<le> 2 ^ 35" using v(3) by (intro power_increasing) simp_all
  have neg: "real x / 2 ^ j = real x * 2 powi (- int j)" for x by (simp add: power_int_minus divide_inverse)
  have iw: "ld_is (ld_of_int (int w)) (real w)" using is_of_int [of "int w"] w by simp
  have "representable (real m * 2 powi (- int j))" using m j35 v(3) by (intro representable_of_nat) simp_all
  then have rm: "representable (real m / 2 ^ j)" by (simp only: neg)
  have "real k / 2 ^ j - real w = real m / 2 ^ j" by (simp only: val add_diff_cancel_left')
  then have "ld_is (ld_sub v (ld_of_int (int w))) (real m / 2 ^ j)"
    using is_sub [OF v(1) iw] rm by (simp only:)
  moreover have "ld_is (ld_of_int 1000000000) 1000000000" using is_of_int [of 1000000000] by simp
  moreover have "representable (1000000000 * (real m / 2 ^ j))"
  proof -
    have "1000000000 * (real m / 2 ^ j) = real (1953125 * m) * 2 powi (9 - int j)" by (simp add: power_int_diff)
    moreover have "representable (real (1953125 * m) * 2 powi (9 - int j))" using m j35 v(3) by (intro representable_of_nat) simp_all
    ultimately show ?thesis by (simp only:)
  qed
  ultimately have "ld_is (ld_mul (ld_of_int 1000000000) (ld_sub v (ld_of_int (int w)))) (1000000000 * (real m / 2 ^ j))" by (intro is_mul)
  then show "ld_is (ld_mul (ld_of_int 1000000000) (ld_sub v (ld_of_int (int w)))) (real (1000000000 * m) / 2 ^ j)" by simp
qed

lemma split_value_spec:
  "ld_is v (real k / 2 ^ j) \<Longrightarrow> k < BILLION * 2 ^ j \<Longrightarrow> j \<le> 35 \<Longrightarrow> fd_z f + int ((j + 8) div 9) < n \<Longrightarrow>
   \<exists>f'. split_value n v f = Some f' \<and> fd_a f' = fd_a f \<and> fd_e2 f' = fd_e2 f \<and> fd_z f < fd_z f' \<and> (j = 0 \<longrightarrow> fd_z f' = fd_z f + 1) \<and>
     (\<forall>i<fd_z f. fd_big f' i = fd_big f i) \<and> (\<forall>i\<ge>fd_z f. i < fd_z f' \<longrightarrow> unat (fd_big f' i) < BILLION) \<and>
     unat (fd_big f' (fd_z f)) = k div 2 ^ j \<and> dval (fd_big f') (fd_z f) (fd_z f) (fd_z f') = real k / 2 ^ j"
proof (induction j arbitrary: k v f rule: less_induct)
  case (less j)
  define w m where "w = k div 2 ^ j" and "m = k mod 2 ^ j"
  note step = split_value_step [OF less.prems(1-3), folded w_def m_def]
  let ?v = "ld_mul (ld_of_int 1000000000) (ld_sub v (ld_of_int (int w)))"
  let ?f = "f\<lparr>fd_big := (fd_big f)(fd_z f := of_nat w), fd_z := fd_z f + 1\<rparr>"
  have uw: "unat (of_nat w :: u32) = w" using step(2) by (simp add: unat_of_nat take_bit_eq_mod)
  have iw: "uint (of_nat w :: u32) = int w" using uw by (metis uint_nat)
  have wi: "word_of_int (int w) = (of_nat w :: u32)" by simp
  have true: "ld_true ?v \<longleftrightarrow> m \<noteq> 0" using true_iff [OF step(3)] by simp
  have run: "split_value n v f = (if m \<noteq> 0 then split_value n ?v ?f else Some ?f)"
  proof -
    have "\<not> n \<le> fd_z f" using less.prems(4) by simp
    then show ?thesis by (subst split_value.simps) (simp only: step(1) option.case if_False Let_def wi iw true)
  qed
  have val: "real k / 2 ^ j = real w + real m / 2 ^ j"
  proof -
    have "k = w * 2 ^ j + m" unfolding w_def m_def by (rule div_mult_mod_eq [symmetric])
    then show ?thesis by (simp add: add_divide_distrib)
  qed
  show ?case
  proof (cases "m = 0")
    case True
    then show ?thesis using run uw step(2) val dval_first [of "fd_z f" "fd_z f + 1" "(fd_big f)(fd_z f := of_nat w)" "fd_z f"]
      by (auto simp flip: w_def)
  next
    case False
    then have j: "j \<noteq> 0" by (cases j) (simp_all add: m_def)
    define j' k' where "j' = j - 9" and "k' = (if 9 \<le> j then 1953125 * m else 1953125 * m * 2 ^ (9 - j))"
    have v': "real (1000000000 * m) / 2 ^ j = real k' / 2 ^ j'"
    proof (cases "9 \<le> j")
      case True
      then have "(2 :: real) ^ j = 2 ^ (j - 9) * 2 ^ 9" by (simp only: power_add [symmetric] le_add_diff_inverse2)
      then show ?thesis using True by (simp add: j'_def k'_def)
    next
      case False
      then have "(2 :: real) ^ 9 = 2 ^ (9 - j) * 2 ^ j" by (simp only: power_add [symmetric] le_add_diff_inverse2 not_le less_imp_le)
      then show ?thesis using False by (simp add: j'_def k'_def field_simps)
    qed
    have "real k' < real BILLION * 2 ^ j'"
    proof -
      have "m < 2 ^ j" by (simp add: m_def)
      then have "real m < real (2 ^ j)" by (simp only: of_nat_less_iff)
      then have "real (1000000000 * m) / 2 ^ j < real BILLION" by (simp add: field_simps)
      then show ?thesis unfolding v' by (simp add: field_simps)
    qed
    then have "real k' < real (BILLION * 2 ^ j')" by simp
    then have k': "k' < BILLION * 2 ^ j'" by (simp only: of_nat_less_iff)
    have "(j - 9 + 8) div 9 + 1 \<le> (j + 8) div 9" using j by presburger
    then have room: "fd_z ?f + int ((j' + 8) div 9) < n" using less.prems(4) by (simp add: j'_def)
    have jj: "j' < j" "j' \<le> 35" using j less.prems(3) by (simp_all add: j'_def)
    obtain f' where f': "split_value n ?v ?f = Some f'" "fd_a f' = fd_a f" "fd_e2 f' = fd_e2 f" "fd_z f + 1 < fd_z f'"
        "\<forall>i<fd_z f + 1. fd_big f' i = (if i = fd_z f then of_nat w else fd_big f i)"
        "\<forall>i\<ge>fd_z f + 1. i < fd_z f' \<longrightarrow> unat (fd_big f' i) < BILLION"
        "dval (fd_big f') (fd_z f + 1) (fd_z f + 1) (fd_z f') = real k' / 2 ^ j'"
      using less.IH [OF jj(1) step(3) [unfolded v'] k' jj(2) room] by auto
    have top: "fd_big f' (fd_z f) = of_nat w" using f'(5) by simp
    have "dval (fd_big f') (fd_z f) (fd_z f) (fd_z f') = real w + dval (fd_big f') (fd_z f) (fd_z f + 1) (fd_z f')"
      using f'(4) top uw by (subst dval_first) simp_all
    also have "\<dots> = real k / 2 ^ j" using dval_shift [of "fd_big f'" "fd_z f" "fd_z f + 1" "fd_z f'"] f'(7) v' val by simp
    finally have d: "dval (fd_big f') (fd_z f) (fd_z f) (fd_z f') = real k / 2 ^ j" .
    have "\<forall>i\<ge>fd_z f. i < fd_z f' \<longrightarrow> unat (fd_big f' i) < BILLION"
    proof (intro allI impI)
      fix i assume "fd_z f \<le> i" "i < fd_z f'"
      then show "unat (fd_big f' i) < BILLION" using f'(6) top uw step(2) by (cases "i = fd_z f") auto
    qed
    then show ?thesis using False run f'(1-5) top uw d j by (auto simp flip: w_def)
  qed
qed

section \<open>Growing\<close>

lemma unat_extend: "unat (ucast (w :: u32) :: u64) = unat w"
  using unat_u32_less [of w] by (simp only: unsigned_ucast_eq) (simp add: take_bit_eq_mod)

lemma grow_digit_step:
  assumes "unat (d :: u32) < BILLION" "unat (c :: u32) < 2 ^ sh" "sh \<le> 29"
  defines "x \<equiv> unat d * 2 ^ sh + unat c"
  defines "t \<equiv> push_bit sh (ucast d) + ucast c :: u64"
  shows "unat (ucast (t mod 1000000000) :: u32) = x mod BILLION" "unat (ucast (t div 1000000000) :: u32) = x div BILLION" "x div BILLION < 2 ^ sh"
proof -
  have sh: "(2 :: nat) ^ sh \<le> 2 ^ 29" using assms(3) by (intro power_increasing) simp_all
  have "x < BILLION * 2 ^ sh"
  proof -
    have "(unat d + 1) * 2 ^ sh \<le> BILLION * 2 ^ sh" using assms(1) by (intro mult_le_mono1) simp
    moreover have "(unat d + 1) * 2 ^ sh = unat d * 2 ^ sh + 2 ^ sh" by simp
    ultimately show ?thesis using assms(2) unfolding x_def by linarith
  qed
  then show q: "x div BILLION < 2 ^ sh" by (simp add: less_mult_imp_div_less mult.commute)
  have "x < BILLION * 2 ^ 29" using \<open>x < BILLION * 2 ^ sh\<close> mult_le_mono2 [OF sh, of BILLION] by linarith
  then have x64: "x < 2 ^ 64" by simp
  have "unat d * 2 ^ sh < 2 ^ 64" using x64 by (simp add: x_def)
  then have "unat (push_bit sh (ucast d) :: u64) = unat d * 2 ^ sh"
    by (simp only: unat_shl) (simp add: unat_extend)
  moreover have "unat (ucast c :: u64) = unat c" by (rule unat_extend)
  ultimately have t: "unat t = x" using x64 by (simp add: t_def x_def unat_word_ariths)
  have "unat (t mod 1000000000) = x mod BILLION" "unat (t div 1000000000) = x div BILLION" using t by (simp_all add: unat_mod unat_div)
  moreover have "x mod BILLION < 2 ^ 32" using mod_less_divisor [of BILLION x] by (rule less_trans) simp_all
  moreover have "x div BILLION < 2 ^ 32" using q sh by (intro less_le_trans [OF q]) simp
  ultimately show "unat (ucast (t mod 1000000000) :: u32) = x mod BILLION" "unat (ucast (t div 1000000000) :: u32) = x div BILLION"
    by (simp_all add: unsigned_ucast_eq take_bit_eq_mod)
qed

text \<open>The digits from the last one down to \<open>b\<close>: the carry is the digit before.\<close>

lemma grow_digits:
  assumes sh: "sh \<le> 29" and dig: "\<forall>i. b \<le> i \<and> i < z \<longrightarrow> unat (big i) < BILLION" and bz: "b \<le> z"
  shows "\<exists>big' c. fold (grow_digit sh) (rev [b..z - 1]) (big, 0) = (big', c) \<and> unat c < 2 ^ sh \<and>
    (\<forall>i. i < b \<or> z \<le> i \<longrightarrow> big' i = big i) \<and> (\<forall>i. b \<le> i \<and> i < z \<longrightarrow> unat (big' i) < BILLION) \<and>
    dval big' r b z + real (unat c) * 1000000000 powi (r - b + 1) = 2 ^ sh * dval big r b z \<and>
    (b < z \<longrightarrow> big b \<noteq> 0 \<longrightarrow> c = 0 \<longrightarrow> big' b \<noteq> 0)"
  using dig bz
proof (induction "nat (z - b)" arbitrary: b)
  case 0
  then have "[b..z - 1] = []" "z = b" by simp_all
  then show ?case by simp
next
  case (Suc n)
  have bz: "b < z" using Suc.hyps(2) by simp
  have "n = nat (z - (b + 1))" "\<forall>i. b + 1 \<le> i \<and> i < z \<longrightarrow> unat (big i) < BILLION" "b + 1 \<le> z"
    using Suc.hyps(2) Suc.prems bz by auto
  note IH = Suc.hyps(1) [OF this]
  obtain big1 c1 where ih: "fold (grow_digit sh) (rev [b + 1..z - 1]) (big, 0) = (big1, c1)" "unat c1 < 2 ^ sh"
    "\<forall>i. i < b + 1 \<or> z \<le> i \<longrightarrow> big1 i = big i" "\<forall>i. b + 1 \<le> i \<and> i < z \<longrightarrow> unat (big1 i) < BILLION"
    "dval big1 r (b + 1) z + real (unat c1) * 1000000000 powi (r - (b + 1) + 1) = 2 ^ sh * dval big r (b + 1) z"
    using IH by (elim exE conjE) (rule that)
  have lst: "rev [b..z - 1] = rev [b + 1..z - 1] @ [b]" using bz by (simp add: upto_rec1)
  have db: "big1 b = big b" "unat (big b) < BILLION" using ih(3) Suc.prems(1) bz by simp_all
  define x where "x = unat (big b) * 2 ^ sh + unat c1"
  define t :: u64 where "t = push_bit sh (ucast (big b)) + ucast c1"
  note st = grow_digit_step [OF db(2) ih(2) sh, folded x_def t_def]
  let ?big = "big1(b := ucast (t mod 1000000000))" and ?c = "ucast (t div 1000000000) :: u32"
  have run: "fold (grow_digit sh) (rev [b..z - 1]) (big, 0) = (?big, ?c)"
    by (simp add: lst ih(1) grow_digit_def db(1) t_def Let_def)
  have digs: "\<forall>i. b \<le> i \<and> i < z \<longrightarrow> unat (?big i) < BILLION" using ih(4) st(1) by auto
  have "dval ?big r b z = real (x mod BILLION) * 1000000000 powi (r - b) + dval big1 r (b + 1) z"
    using bz st(1) dval_cong [of "b + 1" z ?big big1 r] by (simp add: dval_first [of b z])
  moreover have "real (unat ?c) * 1000000000 powi (r - b + 1) = real (BILLION * (x div BILLION)) * 1000000000 powi (r - b)"
    unfolding st(2) billion_powi by simp
  ultimately have "dval ?big r b z + real (unat ?c) * 1000000000 powi (r - b + 1) =
      (real (x mod BILLION) + real (BILLION * (x div BILLION))) * 1000000000 powi (r - b) + dval big1 r (b + 1) z"
    by (simp only: distrib_right)
  also have "real (x mod BILLION) + real (BILLION * (x div BILLION)) = real x"
    by (simp only: of_nat_add [symmetric] mod_mult_div_eq)
  also have "real x * 1000000000 powi (r - b) + dval big1 r (b + 1) z =
      2 ^ sh * (real (unat (big b)) * 1000000000 powi (r - b)) + (dval big1 r (b + 1) z + real (unat c1) * 1000000000 powi (r - (b + 1) + 1))"
    by (simp add: x_def algebra_simps)
  also have "\<dots> = 2 ^ sh * dval big r b z" using bz by (simp only: ih(5) dval_first [of b z] distrib_left)
  finally have val: "dval ?big r b z + real (unat ?c) * 1000000000 powi (r - b + 1) = 2 ^ sh * dval big r b z" .
  have "?big b \<noteq> 0" if "big b \<noteq> 0" "?c = 0"
  proof -
    have "x div BILLION = 0" using st(2) that(2) by simp
    moreover have "0 < unat (big b)" using that(1) unat_gt_0 by blast
    then have "0 < x" by (simp add: x_def)
    ultimately have "x mod BILLION \<noteq> 0" by (metis div_mult_mod_eq add_0 mult_0 less_irrefl)
    then show ?thesis using st(1) by (metis fun_upd_same unat_0)
  qed
  then show ?case using run digs val st(2,3) ih(3) bz by (intro exI [of _ ?big] exI [of _ ?c]) auto
qed

text \<open>A number in the array, with its most significant element at \<open>fd_a\<close>.\<close>

definition good :: "int \<Rightarrow> float_digits \<Rightarrow> bool" where
  "good r f \<longleftrightarrow> fd_a f \<le> r \<and> fd_a f < fd_z f \<and> (\<forall>i. fd_a f \<le> i \<and> i < fd_z f \<longrightarrow> unat (fd_big f i) < BILLION) \<and>
     fd_big f (fd_a f) \<noteq> 0 \<and> (\<forall>i. fd_z f \<le> i \<and> i \<le> r \<longrightarrow> fd_big f i = 0)"

definition fd_val :: "int \<Rightarrow> float_digits \<Rightarrow> real" where
  "fd_val r f = dval (fd_big f) r (fd_a f) (fd_z f)"

lemma strip_zeros_spec:
  "big a \<noteq> 0 \<Longrightarrow> \<exists>z. strip_zeros big a (Suc n) = z \<and> a < z \<and> z \<le> a + int n + 1 \<and> big (z - 1) \<noteq> 0 \<and> (\<forall>i. z \<le> i \<and> i < a + int n + 1 \<longrightarrow> big i = 0)"
proof (induction n)
  case (Suc n)
  obtain z where z: "strip_zeros big a (Suc n) = z" "a < z" "z \<le> a + int n + 1" "big (z - 1) \<noteq> 0" "\<forall>i. z \<le> i \<and> i < a + int n + 1 \<longrightarrow> big i = 0"
    using Suc.IH [OF Suc.prems] by (elim exE conjE) (rule that)
  show ?case
  proof (cases "big (a + int (Suc n)) = 0")
    case True
    have "\<forall>i. z \<le> i \<and> i < a + int (Suc n) + 1 \<longrightarrow> big i = 0"
    proof (intro allI impI)
      fix i assume "z \<le> i \<and> i < a + int (Suc n) + 1"
      then show "big i = 0" using z(5) True by (cases "i = a + int (Suc n)") auto
    qed
    then show ?thesis using True z by (intro exI [of _ z]) simp
  next
    case False
    then show ?thesis by (intro exI [of _ "a + int (Suc n) + 1"]) (auto simp: algebra_simps)
  qed
next
  case 0
  then show ?case by (intro exI [of _ "a + 1"]) auto
qed

lemma strip_good:
  assumes "good r f"
  shows "good r (strip f) \<and> fd_val r (strip f) = fd_val r f \<and> fd_a (strip f) = fd_a f \<and> fd_e2 (strip f) = fd_e2 f \<and>
    fd_big (strip f) = fd_big f \<and> fd_z (strip f) \<le> fd_z f \<and> fd_big (strip f) (fd_z (strip f) - 1) \<noteq> 0"
proof -
  have az: "fd_a f < fd_z f" "fd_big f (fd_a f) \<noteq> 0" using assms by (simp_all add: good_def)
  then obtain n where n: "nat (fd_z f - fd_a f) = Suc n" by (cases "nat (fd_z f - fd_a f)") auto
  then have zn: "fd_z f = fd_a f + int n + 1" by simp
  obtain z where z: "strip_zeros (fd_big f) (fd_a f) (Suc n) = z" "fd_a f < z" "z \<le> fd_a f + int n + 1" "fd_big f (z - 1) \<noteq> 0"
    "\<forall>i. z \<le> i \<and> i < fd_a f + int n + 1 \<longrightarrow> fd_big f i = 0" using strip_zeros_spec [where big = "fd_big f" and a = "fd_a f", OF az(2), of n] by (elim exE conjE) (rule that)
  have s: "strip f = f\<lparr>fd_z := z\<rparr>" using az n z(1) by (simp add: strip_def)
  have "dval (fd_big f) r (fd_a f) (fd_z f) = dval (fd_big f) r (fd_a f) z" using z zn by (intro dval_zeros) auto
  moreover have "\<forall>i. z \<le> i \<and> i \<le> r \<longrightarrow> fd_big f i = 0"
  proof (intro allI impI)
    fix i assume "z \<le> i \<and> i \<le> r"
    then show "fd_big f i = 0" using z(5) zn assms by (cases "i < fd_z f") (auto simp: good_def)
  qed
  ultimately show ?thesis using assms z(2-4) zn by (auto simp: s good_def fd_val_def)
qed

lemma grow_spec:
  "good r f \<Longrightarrow> 0 \<le> fd_e2 f \<Longrightarrow> fd_e2 f \<le> int N \<Longrightarrow> int N div 29 + 1 \<le> fd_a f \<Longrightarrow>
   \<exists>f'. grow f = Some f' \<and> good r f' \<and> fd_e2 f' = 0 \<and> fd_val r f' = 2 ^ nat (fd_e2 f) * fd_val r f \<and>
     (if fd_e2 f = 0 then f' = f else fd_big f' (fd_z f' - 1) \<noteq> 0)"
proof (induction N arbitrary: f rule: less_induct)
  case (less N)
  show ?case
  proof (cases "fd_e2 f = 0")
    case True
    then show ?thesis using less.prems by (subst grow.simps) simp
  next
    case False
    define sh where "sh = min 29 (nat (fd_e2 f))"
    have sh: "sh \<le> 29" "0 < sh" "int sh \<le> fd_e2 f" using False less.prems(2) by (auto simp: sh_def)
    have g: "fd_a f \<le> r" "fd_a f < fd_z f" "\<forall>i. fd_a f \<le> i \<and> i < fd_z f \<longrightarrow> unat (fd_big f i) < BILLION" "fd_big f (fd_a f) \<noteq> 0"
      "\<forall>i. fd_z f \<le> i \<and> i \<le> r \<longrightarrow> fd_big f i = 0" using less.prems(1) by (simp_all add: good_def)
    obtain big c where bc: "fold (grow_digit sh) (rev [fd_a f..fd_z f - 1]) (fd_big f, 0) = (big, c)" "unat c < 2 ^ sh"
      "\<forall>i. i < fd_a f \<or> fd_z f \<le> i \<longrightarrow> big i = fd_big f i" "\<forall>i. fd_a f \<le> i \<and> i < fd_z f \<longrightarrow> unat (big i) < BILLION"
      "dval big r (fd_a f) (fd_z f) + real (unat c) * 1000000000 powi (r - fd_a f + 1) = 2 ^ sh * fd_val r f"
      "c = 0 \<longrightarrow> big (fd_a f) \<noteq> 0"
      using grow_digits [OF sh(1) g(3), of r] g(2,4) by (auto simp: fd_val_def)
    define f1 where "f1 = (if c \<noteq> 0 then f\<lparr>fd_a := fd_a f - 1, fd_big := big(fd_a f - 1 := c)\<rparr> else f\<lparr>fd_big := big\<rparr>)"
    have "(2 :: nat) ^ sh \<le> 2 ^ 29" using sh(1) by (intro power_increasing) simp_all
    then have c: "unat c < BILLION" using bc(2) by simp
    have good1: "good r f1" using g bc(3,4,6) c by (auto simp: good_def f1_def)
    have val1: "fd_val r f1 = 2 ^ sh * fd_val r f"
    proof (cases "c = 0")
      case True
      then show ?thesis using bc(5) by (simp add: f1_def fd_val_def)
    next
      case False
      have "dval (big(fd_a f - 1 := c)) r (fd_a f) (fd_z f) = dval big r (fd_a f) (fd_z f)" by (rule dval_cong) simp
      moreover have "r - (fd_a f - 1) = r - fd_a f + 1" "fd_a f - 1 + 1 = fd_a f" by simp_all
      moreover have "fd_val r f1 = dval (big(fd_a f - 1 := c)) r (fd_a f - 1) (fd_z f)" using False by (simp add: f1_def fd_val_def)
      ultimately show ?thesis using bc(5) g(2) dval_first [of "fd_a f - 1" "fd_z f" "big(fd_a f - 1 := c)" r]
        by (simp only: fun_upd_same)
    qed
    define f2 where "f2 = (strip f1)\<lparr>fd_e2 := fd_e2 f - int sh\<rparr>"
    have good2: "good r f2" "fd_val r f2 = 2 ^ sh * fd_val r f" "fd_big f2 (fd_z f2 - 1) \<noteq> 0" "fd_a f2 = fd_a f1" "fd_e2 f2 = fd_e2 f - int sh"
      using strip_good [OF good1] val1 by (auto simp: f2_def good_def fd_val_def)
    have a1: "0 < fd_a f" using less.prems(4) by simp
    have run: "grow f = grow f2"
      using False less.prems(2) a1 by (subst grow.simps) (simp add: bc(1) Let_def flip: sh_def f1_def f2_def)
    show ?thesis
    proof (cases "fd_e2 f2 = 0")
      case True
      then have "grow f2 = Some f2" by (subst grow.simps) simp
      moreover have "nat (fd_e2 f) = sh" using True good2(5) by simp
      ultimately show ?thesis using run good2 True False by auto
    next
      case e2: False
      then have s29: "sh = 29" "29 < fd_e2 f" using good2(5) sh less.prems(2) by (auto simp: sh_def)
      then have N: "29 < N" using less.prems(3) by simp
      then have "int (N - 29) div 29 + 1 = int N div 29" by (simp add: of_nat_diff)
      moreover have "fd_a f - 1 \<le> fd_a f2" using good2(4) by (simp add: f1_def)
      ultimately have "\<exists>f'. grow f2 = Some f' \<and> good r f' \<and> fd_e2 f' = 0 \<and> fd_val r f' = 2 ^ nat (fd_e2 f2) * fd_val r f2 \<and>
          (if fd_e2 f2 = 0 then f' = f2 else fd_big f' (fd_z f' - 1) \<noteq> 0)"
        using less.prems good2(1,5) s29 N by (intro less.IH [of "N - 29"]) auto
      moreover have "2 ^ nat (fd_e2 f2) * fd_val r f2 = 2 ^ nat (fd_e2 f) * fd_val r f"
      proof -
        have "nat (fd_e2 f) = nat (fd_e2 f2) + sh" using good2(5) s29 by simp
        then show ?thesis using good2(2) by (simp add: power_add)
      qed
      ultimately show ?thesis using run e2 False by auto
    qed
  qed
qed

section \<open>Shrinking\<close>

lemma low_mask: "w AND (2 ^ k - 1) = take_bit k (w :: u32)"
  by (simp only: mask_eq_exp_minus_1 [symmetric] take_bit_eq_mask)

lemma unat_shr32: "unat (drop_bit k (x :: u32)) = unat x div 2 ^ k"
  by (simp only: unat_drop_bit_eq) (simp only: drop_bit_eq_div)

lemma shrink_spec:
  "0 < n \<Longrightarrow> 0 \<le> p \<Longrightarrow> fd_a f = 0 \<Longrightarrow> fd_z f = 1 \<Longrightarrow> fd_e2 f = - int t \<Longrightarrow> unat (fd_big f 0) = n * 2 ^ t \<Longrightarrow>
   \<exists>f'. shrink bufsize 0 True p f = Some f' \<and> fd_a f' = 0 \<and> fd_z f' = 1 \<and> fd_e2 f' = 0 \<and> unat (fd_big f' 0) = n"
proof (induction t arbitrary: f rule: less_induct)
  case (less t)
  show ?case
  proof (cases "t = 0")
    case True
    then show ?thesis using less.prems by (subst shrink.simps) simp
  next
    case False
    define sh where "sh = min 9 t"
    have sh: "0 < sh" "sh \<le> t" using False by (simp_all add: sh_def)
    have nsh: "min 9 (nat (- fd_e2 f)) = sh" using less.prems(5) by (simp add: sh_def)
    have split: "n * 2 ^ t = n * 2 ^ (t - sh) * 2 ^ sh" using sh(2) by (simp add: mult.assoc flip: power_add)
    have "take_bit sh (fd_big f 0) = 0"
    proof -
      have "unat (take_bit sh (fd_big f 0)) = unat (fd_big f 0) mod 2 ^ sh"
        by (simp only: unsigned_take_bit_eq) (simp only: take_bit_eq_mod)
      then show ?thesis using less.prems(6) split by (simp add: word_unat_eq_iff)
    qed
    then have fold1: "shrink_digit sh 0 (fd_big f, 0) = ((fd_big f)(0 := drop_bit sh (fd_big f 0)), 0)"
      by (simp add: shrink_digit_def low_mask)
    have w: "unat (drop_bit sh (fd_big f 0)) = n * 2 ^ (t - sh)" using less.prems(6) split by (simp only: unat_shr32) simp
    then have nz: "drop_bit sh (fd_big f 0) \<noteq> 0" using less.prems(1) by (intro notI) simp
    define f1 where "f1 = f\<lparr>fd_big := (fd_big f)(0 := drop_bit sh (fd_big f 0)), fd_a := 0, fd_z := 1, fd_e2 := int sh - int t\<rparr>"
    have "\<not> 1 + (p + 21 + 8) div 9 < 1" using less.prems(2) by simp
    then have "shrink bufsize 0 True p f = shrink bufsize 0 True p f1"
      using False less.prems(3-5) nz by (subst shrink.simps) (simp add: fold1 Let_def f1_def flip: sh_def)
    moreover have "fd_e2 f1 = - int (t - sh)" using less.prems(5) sh(2) by (simp add: f1_def of_nat_diff)
    ultimately show ?thesis using less.IH [of "t - sh" f1] less.prems(1-4) sh w by (simp add: f1_def)
  qed
qed

section \<open>Numerals\<close>

fun dig :: "nat \<Rightarrow> nat \<Rightarrow> u8 list" where
  "dig 0 d = []"
| "dig (Suc k) d = dig k (d div 10) @ [48 + of_nat (d mod 10)]"

lemma decimal_big: "10 \<le> n \<Longrightarrow> decimal n = decimal (n div 10) @ [48 + of_nat (n mod 10)]"
  unfolding decimal_def by (subst numeral_of.simps) simp

lemma decimal_small: "n < 10 \<Longrightarrow> decimal n = [48 + of_nat n]"
  unfolding decimal_def by (subst numeral_of.simps) simp

lemma decimal_append: "0 < m \<Longrightarrow> d < 10 ^ k \<Longrightarrow> decimal (m * 10 ^ k + d) = decimal m @ dig k d"
proof (induction k arbitrary: d)
  case (Suc k)
  have e: "m * 10 ^ Suc k + d = m * 10 ^ k * 10 + d" by simp
  have "1 \<le> m * 10 ^ k" using Suc.prems(1) by simp
  then have "10 \<le> m * 10 ^ k * 10 + d" by linarith
  then have "decimal (m * 10 ^ Suc k + d) = decimal (m * 10 ^ k + d div 10) @ [48 + of_nat (d mod 10)]"
    unfolding e using decimal_big [of "m * 10 ^ k * 10 + d"] by simp
  moreover have "d div 10 < 10 ^ k" using Suc.prems(2) by (simp add: less_mult_imp_div_less)
  ultimately show ?case using Suc.IH Suc.prems(1) by simp
qed simp

lemma dig_decimal:
  "d < 10 ^ k \<Longrightarrow> (let e = if d = 0 then [] else decimal d in length e \<le> k \<and> dig k d = replicate (k - length e) 48 @ e)"
proof (induction k arbitrary: d)
  case (Suc k)
  have "d div 10 < 10 ^ k" using Suc.prems by (simp add: less_mult_imp_div_less)
  note ih = Suc.IH [OF this]
  show ?case
  proof (cases "d < 10")
    case True
    then have "dig k (d div 10) = replicate k 48" using ih by simp
    then show ?thesis using True by (auto simp: decimal_small replicate_append_same)
  next
    case False
    then have "d div 10 \<noteq> 0" by simp
    then show ?thesis using ih False decimal_big [of d] by (auto simp: Let_def Suc_diff_le)
  qed
qed simp

lemma element_digits_decimal: "element_digits w = (if w = 0 then [] else decimal (unat w))"
proof (cases "w = 0")
  case False
  then have "(ucast w :: u64) \<noteq> 0" using unat_extend [of w] by (metis unat_0 word_unat_eq_iff)
  then show ?thesis using False by (simp add: element_digits_def gob_format_unsigned_decimal unat_extend)
qed (simp add: element_digits_def)

lemma nine_digits_dig: "unat w < BILLION \<Longrightarrow> nine_digits w = dig 9 (unat w)"
  using dig_decimal [of "unat w" 9] by (auto simp: nine_digits_def element_digits_decimal Let_def unat_eq_0)

lemma length_decimal: "length (decimal n) \<le> k \<longleftrightarrow> 0 < k \<and> n < 10 ^ k"
proof (induction k arbitrary: n)
  case (Suc k)
  show ?case
  proof (cases "n < 10")
    case True
    moreover have "n < 10 * 10 ^ k" using True by (rule less_le_trans) simp
    ultimately show ?thesis by (simp add: decimal_small)
  next
    case False
    have "n div 10 < 10 ^ k \<longleftrightarrow> n < 10 ^ Suc k" by (simp add: div_less_iff_less_mult mult.commute)
    moreover have "k = 0 \<Longrightarrow> \<not> n < 10 ^ Suc k" using False by simp
    moreover have "length (decimal n) = Suc (length (decimal (n div 10)))" using False decimal_big [of n] by simp
    ultimately show ?thesis using Suc.IH [of "n div 10"] by auto
  qed
qed (simp add: decimal_def)

lemma ten_exp_length: "0 < unat w \<Longrightarrow> unat w < BILLION \<Longrightarrow> ten_exp w = int (length (decimal (unat w))) - 1"
proof -
  assume w: "0 < unat w" "unat w < BILLION"
  define l where "l = length (decimal (unat w))"
  have l: "1 \<le> l" "l \<le> 9" using w length_decimal [of "unat w" 9] by (simp_all add: l_def decimal_def Suc_le_eq)
  have P: "(\<lambda>k. 10 ^ k \<le> unat w) k \<longleftrightarrow> k < l" if "k \<in> set [1..<10]" for k
    using that length_decimal [of "unat w" k] by (auto simp: l_def)
  have up: "[1..<10] = [1..<l] @ [l..<10]" using l upt_add_eq_append [of 1 l "10 - l"] by simp
  have "takeWhile (\<lambda>k. 10 ^ k \<le> unat w) [1..<10] = takeWhile (\<lambda>k. k < l) [1..<10]" using P by (rule takeWhile_cong [OF refl])
  also have "\<dots> = [1..<l] @ takeWhile (\<lambda>k. k < l) [l..<10]" unfolding up by (rule takeWhile_append2) simp
  also have "takeWhile (\<lambda>k. k < l) [l..<10] = []" using l by (simp add: upt_conv_Cons del: upt.simps)
  finally show ?thesis using l by (simp add: ten_exp_def flip: l_def)
qed

section \<open>The elements up to the point\<close>

fun nval :: "(int \<Rightarrow> u32) \<Rightarrow> int \<Rightarrow> nat \<Rightarrow> nat" where
  "nval big a 0 = unat (big a)"
| "nval big a (Suc k) = nval big a k * BILLION + unat (big (a + 1 + int k))"

lemma dval_nval: "dval big r a (a + int k + 1) = real (nval big a k) * 1000000000 powi (r - (a + int k))"
proof (induction k)
  case 0
  then show ?case using dval_last [of a a big r] by simp
next
  case (Suc k)
  have e: "a + int (Suc k) + 1 = (a + int k + 1) + 1" by simp
  have "dval big r a (a + int (Suc k) + 1) =
      real (nval big a k) * 1000000000 powi (r - (a + int k)) + real (unat (big (a + int k + 1))) * 1000000000 powi (r - (a + int k + 1))"
    using dval_last [of a "a + int k + 1" big r] unfolding e Suc by simp
  moreover have "r - (a + int k) = (r - (a + int k + 1)) + 1" by simp
  then have "(1000000000 :: real) powi (r - (a + int k)) = 1000000000 * 1000000000 powi (r - (a + int k + 1))"
    using billion_powi [of "r - (a + int k + 1)"] by (simp only:)
  ultimately show ?case by (simp add: algebra_simps)
qed

lemma decimal_nval:
  "big a \<noteq> 0 \<Longrightarrow> \<forall>i. a \<le> i \<and> i \<le> a + int k \<longrightarrow> unat (big i) < BILLION \<Longrightarrow>
   0 < nval big a k \<and> decimal (nval big a k) = element_digits (big a) @ concat (map (\<lambda>d. nine_digits (big d)) [a + 1..a + int k])"
proof (induction k)
  case 0
  then have "0 < unat (big a)" using unat_gt_0 by blast
  then show ?case using 0 by (simp add: element_digits_decimal)
next
  case (Suc k)
  have up: "[a + 1..a + int (Suc k)] = [a + 1..a + int k] @ [a + 1 + int k]" using upto_rec2 [of "a + 1" "a + int (Suc k)"] by (simp add: algebra_simps)
  have d: "unat (big (a + 1 + int k)) < 10 ^ 9" using Suc.prems(2) by simp
  have ih: "0 < nval big a k" "decimal (nval big a k) = element_digits (big a) @ concat (map (\<lambda>d. nine_digits (big d)) [a + 1..a + int k])"
    using Suc by auto
  have "decimal (nval big a (Suc k)) = decimal (nval big a k) @ dig 9 (unat (big (a + 1 + int k)))"
    using decimal_append [OF ih(1) d] by simp
  then show ?case using ih d unfolding up by (simp add: nine_digits_dig)
qed

end
