(* ===== verification/FloatPrint.thy ===== *)
theory FloatPrint
  imports FloatDigits
begin

text \<open>
  \<open>%f\<close> of an integer: the digits that \<open>decimal_digits\<close> finds (\<open>decimal_digits_integer\<close>), what \<open>print_digits\<close> writes of
  them (\<open>print_digits_spec\<close>) and the whole call (\<open>format_float_integer\<close>).
\<close>

section \<open>The whole number is before the point\<close>

lemma good_integer:
  assumes g: "good r f" "fd_val r f = real n" and e: "fd_z f = r + 1 \<or> fd_big f (fd_z f - 1) \<noteq> 0"
  shows "fd_z f \<le> r + 1 \<and> decimal n = element_digits (fd_big f (fd_a f)) @ concat (map (\<lambda>d. nine_digits (fd_big f d)) [fd_a f + 1..r]) \<and> 0 < n"
proof -
  let ?a = "fd_a f" and ?z = "fd_z f" and ?big = "fd_big f"
  have a: "?a \<le> r" "?a < ?z" "\<forall>i. ?a \<le> i \<and> i < ?z \<longrightarrow> unat (?big i) < BILLION" "?big ?a \<noteq> 0" "\<forall>i. ?z \<le> i \<and> i \<le> r \<longrightarrow> ?big i = 0"
    using g(1) by (simp_all add: good_def)
  have z: "?z \<le> r + 1"
  proof (rule ccontr)
    assume big: "\<not> ?z \<le> r + 1"
    then obtain k where k: "?z = ?a + int (Suc k) + 1"
      using a(1) by (intro that [of "nat (?z - ?a - 2)"]) simp
    have e2: "r - (?a + int (Suc k)) = - int (nat (?z - 1 - r))" using k big by simp
    have "real n = real (nval ?big ?a (Suc k)) * 1000000000 powi (r - (?a + int (Suc k)))"
      using g(2) dval_nval [of ?big r ?a "Suc k"] k by (simp only: fd_val_def)
    moreover define J where "J = nat (?z - 1 - r)"
    moreover have "1000000000 powi (- int j) = 1 / (1000000000 :: real) ^ j" for j by (simp add: power_int_minus divide_inverse)
    ultimately have "real n = real (nval ?big ?a (Suc k)) / 1000000000 ^ J" by (simp only: e2 times_divide_eq_right mult_1_right)
    then have "real n * 1000000000 ^ J = real (nval ?big ?a (Suc k))" by (simp only: nonzero_eq_divide_eq) simp
    then have "real n * 1000000000 ^ nat (?z - 1 - r) = real (nval ?big ?a (Suc k))" by (simp only: J_def)
    then have "real (n * BILLION ^ nat (?z - 1 - r)) = real (nval ?big ?a (Suc k))" by simp
    then have eq: "n * BILLION ^ nat (?z - 1 - r) = nval ?big ?a k * BILLION + unat (?big (?z - 1))"
      using k by (simp only: of_nat_eq_iff nval.simps) (simp add: algebra_simps)
    obtain m where m: "nat (?z - 1 - r) = Suc m" using big by (cases "nat (?z - 1 - r)") auto
    have "nval ?big ?a k * BILLION + unat (?big (?z - 1)) = (n * BILLION ^ m) * BILLION"
      using eq [symmetric] unfolding m by (simp only: power_Suc2 mult.assoc)
    then have "(nval ?big ?a k * BILLION + unat (?big (?z - 1))) mod BILLION = 0" by (simp only: mod_mult_self2_is_0)
    then have "unat (?big (?z - 1)) mod BILLION = 0" by (simp only: mod_mult_self3)
    moreover have "unat (?big (?z - 1)) < BILLION" using a(2,3) by simp
    ultimately have "unat (?big (?z - 1)) = 0" by simp
    then have "?big (?z - 1) = 0" by (metis word_unat_eq_iff unat_0)
    then show False using e big by simp
  qed
  define k where "k = nat (r - ?a)"
  have k: "r = ?a + int k" using a(1) by (simp add: k_def)
  have "fd_val r f = dval ?big r ?a (?a + int k + 1)"
    unfolding fd_val_def using dval_zeros [of ?a ?z "r + 1" ?big r] a z k by auto
  also have "\<dots> = real (nval ?big ?a k)" unfolding dval_nval by (simp add: k)
  finally have n: "n = nval ?big ?a k" using g(2) by simp
  have "\<forall>i. ?a \<le> i \<and> i \<le> ?a + int k \<longrightarrow> unat (?big i) < BILLION"
  proof (intro allI impI)
    fix i assume "?a \<le> i \<and> i \<le> ?a + int k"
    then show "unat (?big i) < BILLION" using a(3,5) k by (cases "i < ?z") auto
  qed
  then show ?thesis using z decimal_nval [where big = ?big and a = ?a and k = k, OF a(4)] n k by simp
qed

section \<open>Printing it\<close>

lemma out_frame: "g_wend s = g_wpos s \<Longrightarrow> g_wend (out bs s) = g_wpos (out bs s)"
  by (simp add: out_def write_str_store)

lemma out_elements:
  "g_wend s = g_wpos s \<Longrightarrow> fold (\<lambda>d. out (nine_digits (big d))) ds (out bs s) = out (bs @ concat (map (\<lambda>d. nine_digits (big d)) ds)) s"
proof (induction ds arbitrary: bs)
  case (Cons d ds)
  then show ?case using Cons.IH [of "bs @ nine_digits (big d)"] by (simp add: out_append)
qed simp

text \<open>Whatever the precision, the point is followed by nine zeros.\<close>

definition nine_zeros :: "int \<Rightarrow> u8 list" where
  "nine_zeros p = (if p = 0 then [] else 46 # replicate 9 48)"

lemma print_fixed_spec:
  assumes s: "g_wend s = g_wpos s" and f: "fd_a f \<le> r" "fd_z f \<le> r + 1" and p: "0 \<le> p"
    and ds: "ds = (if element_digits (fd_big f (fd_a f)) = [] then [48] else element_digits (fd_big f (fd_a f))) @
      concat (map (\<lambda>d. nine_digits (fd_big f d)) [fd_a f + 1..r])"
  shows "print_fixed r p 0 f s = out (ds @ nine_zeros p) s"
proof -
  have a: "min (fd_a f) r = fd_a f" "nat (fd_z f - (r + 1)) = 0" using f by simp_all
  show ?thesis
  proof (cases "p = 0")
    case True
    then show ?thesis using s by (simp add: print_fixed_def a out_elements ds nine_zeros_def pad_narrow Let_def)
  next
    case False
    have "pad CHR ''0'' (p + 9) 9 0 t = out (replicate 9 48) t" for t :: fmt_state
      using False p by (simp add: pad_def pad_out.simps chr_def)
    then show ?thesis using s False out_append [OF s]
      by (simp add: print_fixed_def a out_elements ds nine_zeros_def Let_def out_append out_frame)
  qed
qed

lemma print_digits_spec:
  assumes s: "g_wend s = g_wpos s" and f: "fd_a f \<le> r" "fd_z f \<le> r + 1" and p: "0 \<le> p" "p \<le> 2 ^ 30"
    and ds: "ds = (if element_digits (fd_big f (fd_a f)) = [] then [48] else element_digits (fd_big f (fd_a f))) @
      concat (map (\<lambda>d. nine_digits (fd_big f d)) [fd_a f + 1..r])"
    and e: "0 \<le> e" "e \<le> 100" and n: "n \<le> 1"
  shows "print_digits r 0 p 0 (of_char CHR ''f'') po n f e s =
    (out (prefix_bytes po n @ ds @ nine_zeros p) s, int n + 1 + e + (if p = 0 then 0 else 1 + p))"
proof -
  have t: "conversion 102 CHR ''f''" by (simp add: conversion_def)
  have len: "float_length 102 p 0 e el (int n) = Some (1 + e + (if p = 0 then 0 else 1 + p))" for el
    using p e n by (simp add: float_length_def t Let_def)
  have pd: "print_fixed r p 0 f (out bs s) = out (ds @ nine_zeros p) (out bs s)" for bs
    using s f p ds by (intro print_fixed_spec out_frame) auto
  show ?thesis using p e
    by (simp add: print_digits_def len t pad_narrow pd out_append [OF s] Let_def)
qed

section \<open>The digits of an integer\<close>

lemma bufsize_values: "float_bufsize prev = 126 \<or> float_bufsize prev = 1835"
  by (simp add: float_bufsize_def)

lemma decimal_digits_integer:
  fixes prev :: fstate
  assumes m: "2 ^ 63 \<le> m" "m < 2 ^ 64" and n: "real n = real m * 2 powi (k - 64)" "0 < n" "n < 2 ^ 64"
    and v: "ld_is v (real m * 2 powi (- 35))" and p: "0 \<le> p"
  defines "b \<equiv> float_bufsize prev"
  defines "r \<equiv> (if k - 29 < 0 then 0 else b - 64 - 1)"
  shows "\<exists>f. decimal_digits junk b r True p v (k - 29) = Some f \<and> good r f \<and> fd_val r f = real n \<and>
    (fd_z f = r + 1 \<or> fd_big f (fd_z f - 1) \<noteq> 0) \<and> fd_e2 f = 0"
proof -
  have b: "126 \<le> b" using bufsize_values [of prev] by (auto simp: b_def)
  have "2 powi 63 * 2 powi (k - 64) \<le> real n"
    using m(1) of_nat_le_iff [of "2 ^ 63" m, where 'a = real] by (simp add: n(1) powi_nat)
  moreover have "real n < 2 powi 64" using n(3) of_nat_less_iff [of n "2 ^ 64", where 'a = real] by (simp add: powi_nat)
  ultimately have "2 powi (63 + (k - 64)) < (2 :: real) powi 64" by (simp only: powi_add)
  then have k64: "k \<le> 64" by (simp only: powi_less_iff)
  let ?f0 = "\<lparr>fd_big = junk, fd_a = r, fd_z = r, fd_e2 = k - 29\<rparr>"
  have run: "decimal_digits junk b r True p v (k - 29) =
      (case split_value b v ?f0 of None \<Rightarrow> None | Some f1 \<Rightarrow> case grow f1 of None \<Rightarrow> None | Some f2 \<Rightarrow> shrink b r True p f2)"
    by (simp add: decimal_digits_def split: option.splits)
  show ?thesis
  proof (cases "k - 29 \<le> 0")
    case True
    define t where "t = nat (29 - k)"
    have t: "k = 29 - int t" using True by (simp add: t_def)
    have val: "real m * 2 powi (- 35) = real (n * 2 ^ t)"
    proof -
      have "real m * 2 powi (- 35) = real m * 2 powi (k - 64) * 2 powi (int t)"
        by (simp only: mult.assoc powi_add [symmetric]) (simp add: t)
      then show ?thesis using n(1) by (simp add: powi_nat)
    qed
    have "real (n * 2 ^ t) < 2 powi 29"
    proof -
      have "real m < 2 powi 64" using m(2) of_nat_less_iff [of m "2 ^ 64", where 'a = real] by (simp add: powi_nat)
      then have "real m * 2 powi (- 35) < 2 powi 64 * 2 powi (- 35)" by (intro mult_strict_right_mono powi_pos(1))
      also have "\<dots> = 2 powi 29" by (simp only: powi_add [symmetric]) simp
      finally show ?thesis by (simp only: val)
    qed
    then have "real (n * 2 ^ t) < real (2 ^ 29)" by (simp add: powi_nat)
    then have lim: "n * 2 ^ t < 2 ^ 29" by (simp only: of_nat_less_iff)
    have v0: "ld_is v (real (n * 2 ^ t) / 2 ^ 0)" using v by (simp only: val power_0 div_by_1)
    have pre: "n * 2 ^ t < BILLION * 2 ^ 0" "fd_z ?f0 + int ((0 + 8) div 9) < b" using lim b by (simp_all add: r_def)
    obtain f1 where f1: "split_value b v ?f0 = Some f1" "fd_a f1 = r" "fd_e2 f1 = k - 29" "fd_z f1 = r + 1"
      "unat (fd_big f1 r) = n * 2 ^ t"
      using split_value_spec [OF v0 pre(1) _ pre(2)] by auto
    have g: "grow f1 = Some f1" using f1(3) True by (subst grow.simps) simp
    have val1: "fd_val r f = real (unat (fd_big f r))" if "fd_a f = r" "fd_z f = r + 1" for f
      using that dval_first [of r "r + 1" "fd_big f" r] by (simp add: fd_val_def)
    have good1: "good r f" if "fd_a f = r" "fd_z f = r + 1" "unat (fd_big f r) = n" for f
    proof -
      have "n * 1 \<le> n * 2 ^ t" by (intro mult_le_mono2) simp
      then have "n < 2 ^ 29" using lim unfolding mult_1_right by (rule le_less_trans)
      then have "n < BILLION" by simp
      moreover have "fd_big f r \<noteq> 0" using that(3) n(2) by auto
      ultimately show ?thesis using that by (auto simp: good_def)
    qed
    show ?thesis
    proof (cases "t = 0")
      case True
      then have "shrink b r True p f1 = Some f1" using f1(3) t by (subst shrink.simps) simp
      then show ?thesis using run f1 g True t val1 [of f1] good1 [of f1] by (intro exI [of _ f1]) simp
    next
      case False
      then have r0: "r = 0" by (simp add: r_def t)
      obtain f2 where f2: "shrink b 0 True p f1 = Some f2" "fd_a f2 = 0" "fd_z f2 = 1" "fd_e2 f2 = 0" "unat (fd_big f2 0) = n"
        using shrink_spec [OF n(2) p, of f1 t b] f1(2-5) t r0 by auto
      then show ?thesis using run f1 g val1 [of f2] good1 [of f2] r0 by (intro exI [of _ f2]) simp
    qed
  next
    case False
    then have r: "r = b - 65" by (simp add: r_def)
    have m35: "real m * 2 powi (- 35) = real m / 2 ^ 35" using powi_neg [of "real m" 35] by (simp only: of_nat_numeral)
    then have v0: "ld_is v (real m / 2 ^ 35)" using v by (simp only: m35)
    have pre: "m < BILLION * 2 ^ 35" "fd_z ?f0 + int ((35 + 8) div 9) < b" using m(2) by (simp_all add: r)
    have le: "(35 :: nat) \<le> 35" by (rule order_refl)
    obtain f1 where f1': "split_value b v ?f0 = Some f1" "fd_a f1 = fd_a ?f0" "fd_e2 f1 = fd_e2 ?f0" "fd_z ?f0 < fd_z f1"
      "\<forall>i\<ge>fd_z ?f0. i < fd_z f1 \<longrightarrow> unat (fd_big f1 i) < BILLION" "unat (fd_big f1 (fd_z ?f0)) = m div 2 ^ 35"
      "dval (fd_big f1) (fd_z ?f0) (fd_z ?f0) (fd_z f1) = real m / 2 ^ 35"
      using split_value_spec [OF v0 pre(1) le pre(2)] by (elim exE conjE) (rule that)
    note f1 = f1' [unfolded float_digits.simps]
    have "2 ^ 63 div 2 ^ 35 \<le> m div 2 ^ 35" using m(1) by (rule div_le_mono)
    then have top: "fd_big f1 r \<noteq> 0" using f1(6) by auto
    have good1: "good r f1" using f1(2,4,5) top by (auto simp: good_def)
    have e: "0 \<le> fd_e2 f1" "fd_e2 f1 \<le> int 35" "int 35 div 29 + 1 \<le> fd_a f1" using f1(2,3) False k64 b r by simp_all
    obtain f2 where f2: "grow f1 = Some f2" "good r f2" "fd_e2 f2 = 0" "fd_val r f2 = 2 ^ nat (fd_e2 f1) * fd_val r f1"
      "fd_big f2 (fd_z f2 - 1) \<noteq> 0"
      using grow_spec [OF good1 e] f1(3) False by auto
    have "2 ^ nat (fd_e2 f1) * fd_val r f1 = real n"
    proof -
      have "fd_val r f1 = real m * 2 powi (- 35)" using f1(2,7) by (simp only: fd_val_def m35)
      moreover have "(2 :: real) ^ nat (fd_e2 f1) = 2 powi (k - 29)" using f1(3) False by (simp add: powi_nat)
      ultimately have "2 ^ nat (fd_e2 f1) * fd_val r f1 = real m * (2 powi (- 35) * 2 powi (k - 29))" by simp
      also have "2 powi (- 35) * 2 powi (k - 29) = (2 :: real) powi (k - 64)" by (simp only: powi_add [symmetric]) simp
      finally show ?thesis using n(1) by simp
    qed
    moreover have "shrink b r True p f2 = Some f2" using f2(3) by (subst shrink.simps) simp
    ultimately show ?thesis using run f1(1) f2 by auto
  qed
qed

lemma decimal_digits_zero:
  fixes prev :: fstate
  defines "b \<equiv> float_bufsize prev"
  assumes "ld_is v 0"
  shows "decimal_digits junk b (b - 64 - 1) fixed p v 0 =
    Some \<lparr>fd_big = junk(b - 65 := 0), fd_a = b - 65, fd_z = b - 65 + 1, fd_e2 = 0\<rparr>"
proof -
  have billion: "ld_is (ld_of_int 1000000000) 1000000000" using is_of_int [of 1000000000] by simp
  have zero: "ld_is (ld_sub v (ld_of_int 0)) 0"
    using is_sub [OF assms(2) is_of_int [of 0]] representable_int [of 0] by simp
  have "ld_is (ld_mul (ld_of_int 1000000000) (ld_sub v (ld_of_int 0))) 0"
    using is_mul [OF billion zero] representable_int [of 0] by simp
  then have "\<not> ld_true (ld_mul (ld_of_int 1000000000) (ld_sub v (ld_of_int 0)))" using true_iff by blast
  moreover have "ld_trunc v = Some 0" using is_trunc [OF assms(2)] by simp
  ultimately have "split_value b v \<lparr>fd_big = junk, fd_a = b - 65, fd_z = b - 65, fd_e2 = 0\<rparr> =
      Some \<lparr>fd_big = junk(b - 65 := 0), fd_a = b - 65, fd_z = b - 65 + 1, fd_e2 = 0\<rparr>"
    by (subst split_value.simps) (simp add: Let_def)
  then show ?thesis by (simp add: decimal_digits_def grow.simps shrink.simps)
qed

lemma length_dig: "length (dig k d) = k"
  by (induction k arbitrary: d) simp_all

lemma ten_exp_zero: "ten_exp 0 = 0"
  by (simp add: ten_exp_def upt_conv_Cons del: upt.simps)

text \<open>The printing of a number whose digits are known, behind the sign.\<close>

lemma format_decimal_spec:
  assumes s: "g_wend s = g_wpos s" and p: "0 \<le> p" "p \<le> 2 ^ 30" and n: "n0 \<le> 1"
    and d: "decimal_digits junk (float_bufsize prev) r True p value e2 = Some f" "fd_a f \<le> r" "fd_a f < fd_z f" "fd_z f \<le> r + 1"
    and v: "value = (if ld_true value0 then ld_mul value0 (ld_power 28) else value0)" "e2 = (if ld_true value0 then e20 - 28 else e20)"
      "r = (if e2 < 0 then 0 else float_bufsize prev - 64 - 1)"
    and ds: "ds = (if element_digits (fd_big f (fd_a f)) = [] then [48] else element_digits (fd_big f (fd_a f))) @
      concat (map (\<lambda>d. nine_digits (fd_big f d)) [fd_a f + 1..r])"
    and e: "decimal_exp r f = e" "0 \<le> e" "e \<le> 100"
  shows "format_decimal_float junk 0 p 0 (of_char CHR ''f'') prev value0 e20 po n0 s =
    Some (out (prefix_bytes po n0 @ ds @ nine_zeros p) s, int n0 + 1 + e + (if p = 0 then 0 else 1 + p))"
proof -
  have t: "conversion 102 CHR ''f''" "\<not> conversion 102 CHR ''g''" by (simp_all add: conversion_def)
  have rd: "round_digits r neg p f e = Some (f, e)" for neg using d(4) p(1) by (simp add: round_digits_def)
  have fz: "fd_z (strip f) \<le> fd_z f"
  proof -
    have "strip_zeros big a n \<le> a + int n" for big a n by (induction big a n rule: strip_zeros.induct) auto
    from this [of "fd_big f" "fd_a f" "nat (fd_z f - fd_a f)"] show ?thesis using d(3) by (simp add: strip_def)
  qed
  have st: "fd_a (strip f) = fd_a f" "fd_big (strip f) = fd_big f" by (simp_all add: strip_def)
  have "print_digits r 0 p 0 (of_char CHR ''f'') po n0 (strip f) e s =
      (out (prefix_bytes po n0 @ ds @ nine_zeros p) s, int n0 + 1 + e + (if p = 0 then 0 else 1 + p))"
    using s d(2,4) fz p ds e n by (intro print_digits_spec) (simp_all add: st)
  then show ?thesis using p d(1,3)
    by (simp add: format_decimal_float_def t Let_def rd e(1) flip: v)
qed

lemma format_float_nat:
  fixes prev :: fstate
  assumes x: "ld_class x = Ld_Fin False m e" "real n = real m * 2 powi e" "n < 2 ^ 64" "n = 0 \<longrightarrow> x = ld_zero False"
    and s: "g_wend s = g_wpos s" and p: "0 \<le> p" "p \<le> 2 ^ 30" and n0: "n0 \<le> 1"
  shows "(case frexpl x of (y, ex) \<Rightarrow>
      let value = ld_mul y (ld_of_int 2); e = (case ex of Some e \<Rightarrow> e | None \<Rightarrow> 0); e2 = (if ld_true value then e - 1 else e)
      in format_decimal_float junk 0 p 0 (of_char CHR ''f'') prev value e2 po n0 s) =
    Some (out (prefix_bytes po n0 @ decimal n @ nine_zeros p) s, int n0 + int (length (decimal n)) + (if p = 0 then 0 else 1 + p))"
proof (cases "n = 0")
  case True
  have b: "126 \<le> float_bufsize prev" using bufsize_values [of prev] by auto
  have fx: "frexpl x = (ld_zero False, Some 0)" using x(4) True by (simp add: frexpl_def ld_exponent_def ld_zero_def ld_make_def Let_def)
  have "ld_is (ld_mul (ld_zero False) (ld_of_int 2)) 0"
    using is_mul [OF is_zero is_of_int [of 2]] representable_int [of 0] by simp
  then have v: "ld_is (ld_mul (ld_zero False) (ld_of_int 2)) 0" "\<not> ld_true (ld_mul (ld_zero False) (ld_of_int 2))" using true_iff by blast+
  let ?r = "float_bufsize prev - 65"
  have "format_decimal_float junk 0 p 0 (of_char CHR ''f'') prev (ld_mul (ld_zero False) (ld_of_int 2)) 0 po n0 s =
      Some (out (prefix_bytes po n0 @ [48] @ nine_zeros p) s, int n0 + 1 + 0 + (if p = 0 then 0 else 1 + p))"
    using v b by (intro format_decimal_spec [OF s p n0 decimal_digits_zero [OF v(1)]])
      (simp_all add: element_digits_decimal decimal_exp_def ten_exp_zero)
  then show ?thesis using True v(2) by (simp add: fx decimal_small)
next
  case False
  then have n1: "1 \<le> real m * 2 powi e" using x(2) by simp
  obtain y k where y: "frexpl x = (y, Some k)" "ld_class y = Ld_Fin False m (-64)" "e = k - 64" "2 ^ 63 \<le> m"
    using is_frexp [OF x(1) n1] by blast
  have m64: "m < 2 ^ 64" using class_finite [of x "fin_val False m e"] x(1) by (auto simp: ld_is_def)
  have iy: "ld_is y (real m * 2 powi (- 64))" unfolding ld_is_def
    by (rule exI [of _ False], rule exI [of _ m], rule exI [of _ "- 64"]) (simp add: y(2) fin_val_def)
  have rep: "representable (real m * 2 powi j)" if "- 100 \<le> j" "j \<le> 100" for j using that m64 by (intro representable_of_nat) simp_all
  let ?v1 = "ld_mul y (ld_of_int 2)"
  have "real m * 2 powi (- 64) * 2 = real m * 2 powi (- 63)" using powi_add [of "- 64" 1] by simp
  then have v1: "ld_is ?v1 (real m * 2 powi (- 63))" using is_mul [OF iy is_of_int [of 2]] rep [of "- 63"] by simp
  have t1: "ld_true ?v1" using true_iff [OF v1] y(4) by auto
  have "real m * 2 powi (- 63) * 2 powi 28 = real m * 2 powi (- 35)" using powi_add [of "- 63" 28] by simp
  then have v2: "ld_is (ld_mul ?v1 (ld_power 28)) (real m * 2 powi (- 35))" using is_mul [OF v1 is_power [of 28]] rep [of "- 35"] by simp
  define r where "r = (if k - 29 < 0 then 0 else float_bufsize prev - 64 - 1)"
  obtain f where f: "decimal_digits junk (float_bufsize prev) r True p (ld_mul ?v1 (ld_power 28)) (k - 29) = Some f" "good r f"
      "fd_val r f = real n" "fd_z f = r + 1 \<or> fd_big f (fd_z f - 1) \<noteq> 0"
    using decimal_digits_integer [OF y(4) m64 _ _ x(3) v2 p(1), of k junk prev] x(2) y(3) False unfolding r_def by auto
  have g: "fd_a f \<le> r" "fd_a f < fd_z f" "fd_big f (fd_a f) \<noteq> 0" "unat (fd_big f (fd_a f)) < BILLION" using f(2) by (auto simp: good_def)
  have dn: "fd_z f \<le> r + 1" "decimal n = element_digits (fd_big f (fd_a f)) @ concat (map (\<lambda>d. nine_digits (fd_big f d)) [fd_a f + 1..r])"
    using good_integer [OF f(2-4)] by auto
  have el: "element_digits (fd_big f (fd_a f)) = decimal (unat (fd_big f (fd_a f)))" using g(3) by (simp add: element_digits_decimal)
  have ne: "element_digits (fd_big f (fd_a f)) \<noteq> []" using el by (simp add: decimal_def)
  have ex: "decimal_exp r f = int (length (decimal n)) - 1"
  proof -
    have nine: "length (nine_digits (fd_big f d)) = 9" if "d \<in> set [fd_a f + 1..r]" for d
    proof -
      have "unat (fd_big f d) < BILLION" using that f(2) by (cases "d < fd_z f") (auto simp: good_def)
      then show ?thesis by (simp add: nine_digits_dig length_dig)
    qed
    have "length (concat (map (\<lambda>d. nine_digits (fd_big f d)) ds)) = 9 * length ds" if "set ds \<subseteq> set [fd_a f + 1..r]" for ds
      using that nine by (induction ds) auto
    then have "length (decimal n) = length (decimal (unat (fd_big f (fd_a f)))) + 9 * nat (r - fd_a f)"
      unfolding dn(2) el by simp
    moreover have "0 < unat (fd_big f (fd_a f))" using g(3) unat_gt_0 by blast
    ultimately show ?thesis using ten_exp_length [OF _ g(4)] g(1) by (simp add: decimal_exp_def)
  qed
  have l: "1 \<le> length (decimal n)" "length (decimal n) \<le> 20"
  proof -
    show "1 \<le> length (decimal n)" by (simp add: decimal_def Suc_le_eq)
    have "n < 10 ^ 20" using x(3) by simp
    then show "length (decimal n) \<le> 20" by (simp only: length_decimal) simp
  qed
  have ve: "ld_mul ?v1 (ld_power 28) = (if ld_true ?v1 then ld_mul ?v1 (ld_power 28) else ?v1)"
    "k - 29 = (if ld_true ?v1 then (k - 1) - 28 else k - 1)" using t1 by simp_all
  have ds: "decimal n = (if element_digits (fd_big f (fd_a f)) = [] then [48] else element_digits (fd_big f (fd_a f))) @
      concat (map (\<lambda>d. nine_digits (fd_big f d)) [fd_a f + 1..r])" using ne dn(2) by (simp only: if_False)
  have lb: "0 \<le> int (length (decimal n)) - 1" "int (length (decimal n)) - 1 \<le> 100" using l by linarith+
  have "format_decimal_float junk 0 p 0 (of_char CHR ''f'') prev ?v1 (k - 1) po n0 s =
      Some (out (prefix_bytes po n0 @ decimal n @ nine_zeros p) s, int n0 + 1 + (int (length (decimal n)) - 1) + (if p = 0 then 0 else 1 + p))"
    by (rule format_decimal_spec [OF s p n0 f(1) g(1,2) dn(1) ve r_def ds ex lb])
  then show ?thesis using t1 by (simp add: y(1))
qed

lemma format_integer:
  assumes "\<bar>i\<bar> < 2 ^ 64" "float_arg v = ld_of_int i" "0 \<le> p" "p \<le> 2 ^ 30" "g_wend s = g_wpos s"
  shows "gob_format_float junk v 0 p 0 (of_char CHR ''f'') prev s =
    Some (out (signed_decimal i @ nine_zeros p) s, int (length (signed_decimal i)) + (if p = 0 then 0 else 1 + p))"
proof -
  obtain m e where x: "ld_class (ld_of_int i) = Ld_Fin (i < 0) m e" "real (nat \<bar>i\<bar>) = real m * 2 powi e"
    using int_class [OF assms(1)] by auto
  have n: "nat \<bar>i\<bar> < 2 ^ 64" using assms(1) by simp
  then have lim: "real m * 2 powi e < 2 powi 64" using of_nat_less_iff [of "nat \<bar>i\<bar>" "2 ^ 64", where 'a = real] by (simp add: powi_nat flip: x(2))
  define x1 where "x1 = (if i < 0 then ld_neg (ld_of_int i) else ld_of_int i)"
  have c1: "ld_class x1 = Ld_Fin False m e" using x(1) class_neg [OF x(1)] by (auto simp: x1_def)
  have z: "nat \<bar>i\<bar> = 0 \<longrightarrow> x1 = ld_zero False" by (simp add: x1_def ld_of_int_def ld_round_def)
  have sgn: "take_sign 0 (ld_of_int i) = (x1, if i < 0 then 0 else 1, if i < 0 then 1 else 0)"
    using double_finite(2) [OF x(1) lim] by (simp add: take_sign_def x1_def)
  have fin: "isfinite (ld_to_double x1)" using double_finite(1) [OF c1 lim] .
  have t: "\<not> conversion 102 CHR ''a''" by (simp add: conversion_def)
  have pre: "prefix_bytes (if i < 0 then 0 else 1) (if i < 0 then 1 else 0) @ decimal (nat \<bar>i\<bar>) = signed_decimal i"
    by (simp add: prefix_bytes_def float_prefix_def signed_decimal_def)
  have len: "length (signed_decimal i) = (if i < 0 then 1 else 0) + length (decimal (nat \<bar>i\<bar>))"
    by (simp add: signed_decimal_def)
  have pre2: "prefix_bytes (if i < 0 then 0 else 1) (if i < 0 then 1 else 0) @ decimal (nat \<bar>i\<bar>) @ zs = signed_decimal i @ zs" for zs
    using pre by (metis append_assoc)
  show ?thesis
    using format_float_nat [OF c1 x(2) n z assms(5,3,4), of "if i < 0 then 1 else 0" junk prev "if i < 0 then 0 else 1"] len
    by (simp add: pre2 gob_format_float_def format_float_def assms(2) sgn fin t Let_def split: if_splits prod.splits)
qed

text \<open>A double that is an integer, for the examples.\<close>

lemma float_arg_minus_25: "float_arg [0, 0xC0390000] = ld_of_int (- 25)"
proof -
  have "bit_length 25 = 5" "bit_length (25 * 2 ^ 48) = 53" by (simp_all add: bit_length.simps)
  moreover have "u64_of 0 0xC0390000 = 0xC039000000000000" by (simp add: u64_of_def)
  moreover have "small_class 52 11 (unat (0xC039000000000000 :: u64)) = Ld_Fin True (25 * 2 ^ 48) (- 48)"
    by (simp add: small_class_def Let_def)
  ultimately show ?thesis by (simp add: ld_of_double_def ld_of_int_def ld_round_def round_to_def ld_make_def Let_def)
qed

lemma signed_decimal_minus_25: "signed_decimal (- 25) = [45, 50, 53]"
  by (simp add: signed_decimal_def decimal_small decimal_big)

text \<open>C14: \<open>%f\<close> of an integer of up to 64 bits prints its decimal numeral, and for any precision but 0 a point with nine
  zeros; the result is the length that the right number of zeros would have.\<close>

theorem format_float_integer:
  assumes "\<bar>i\<bar> < 2 ^ 64" "float_arg v = ld_of_int i" "0 \<le> p" "p \<le> 2 ^ 30" "g_wend s = g_wpos s"
  shows "gob_format_float junk v 0 p 0 (of_char CHR ''f'') prev s =
    Some (out (signed_decimal i @ (if p = 0 then [] else 46 # replicate 9 48)) s,
      int (length (signed_decimal i)) + (if p = 0 then 0 else 1 + p))"
  using format_integer [OF assms] by (simp add: nine_zeros_def)

theorem format_float_integer_witness:
  "let s = \<lparr>g_mem = (\<lambda>_. 0), g_errno = 0, g_buf = 0, g_rpos = 0, g_rend = 0, g_wend = 0, g_wpos = 0, g_shend = 0, g_shlim = 0,
      g_shcnt = 0, fm_fmt = [], fm_args = [], fm_nl_arg = \<lambda>_. \<lparr>arg_i = 0, arg_f = []\<rparr>, fm_nl_type = \<lambda>_. FS_BARE,
      fm_using_position = False, fm_output_count = 0, fm_len = 0\<rparr>
   in gob_format_float (\<lambda>_. 7) [0, 0xC0390000] 0 2 0 (of_char CHR ''f'') FS_DBL s =
     Some (out ([45, 50, 53] @ 46 # replicate 9 48) s, 6)"
proof -
  show ?thesis unfolding Let_def
    by (subst format_float_integer [OF _ float_arg_minus_25]) (simp_all only: signed_decimal_minus_25 gob_file.simps, simp_all)
qed

end
