(* ===== verification/FloatRead.thy ===== *)
theory FloatRead
  imports FloatPrint FloatScan ScanInts
begin

text \<open>
  Reading back what \<open>%f\<close> printed: what the digit loops of \<open>gob_decfloat\<close> (FloatScan) collect from a numeral
  (\<open>dec_number_text\<close>), the value they give it (\<open>decfloat_numeral\<close>), \<open>gob_floatscan\<close> and \<open>strtold\<close>.
\<close>

section \<open>The digits\<close>

text \<open>A loop over characters that it accepts in every state.\<close>

lemma scan_while_over:
  "\<forall>b\<in>set bs. \<forall>x. I x \<longrightarrow> go (schar b) x = Some True \<and> I (f (schar b) x) \<Longrightarrow> I x \<Longrightarrow> ahead s (tl (bs @ [e])) \<Longrightarrow>
   scan_while go f (schar (hd (bs @ [e]))) x s =
     scan_while go f (schar e) (fold (\<lambda>b. f (schar b)) bs x) (adv (length bs) s)"
proof (induction bs arbitrary: x s)
  case (Cons b bs)
  note g = hd_ahead [OF Cons.prems(3) refl]
  have "go (schar b) x = Some True" "I (f (schar b) x)" using Cons.prems(1,2) by simp_all
  moreover have "scan_while go f (schar (hd (bs @ [e]))) (f (schar b) x) (adv 1 s) =
      scan_while go f (schar e) (fold (\<lambda>b. f (schar b)) bs (f (schar b) x)) (adv (length bs) (adv 1 s))"
    using Cons.prems(1) calculation(2) g by (intro Cons.IH) auto
  ultimately show ?case using g by (subst scan_while.simps) simp
qed simp

abbreviation digit_fold :: "u8 list \<Rightarrow> dec_state \<Rightarrow> dec_state" where
  "digit_fold ds \<equiv> fold (\<lambda>b. dec_digit (schar b)) ds"

lemma dec_int_digits:
  "\<forall>b\<in>set ds. digit_byte b \<Longrightarrow> length ds < 9 \<Longrightarrow> d = digit_fold ds (dec_start junk) \<Longrightarrow>
   dd_x d 0 = of_nat (decimal_value 0 ds) \<and> dd_j d = length ds \<and> dd_k d = 0 \<and> dd_dc d = int (length ds) \<and> dd_lnz d \<le> int (length ds) \<and>
   \<not> dd_gotrad d \<and> dd_gotdig d = (ds \<noteq> [])"
proof (induction ds arbitrary: d rule: rev_induct)
  case Nil
  then show ?case by (simp add: dec_start_def)
next
  case (snoc b ds)
  define d0 where "d0 = digit_fold ds (dec_start junk)"
  have ih: "dd_x d0 0 = of_nat (decimal_value 0 ds)" "dd_j d0 = length ds" "dd_k d0 = 0" "dd_dc d0 = int (length ds)"
    "dd_lnz d0 \<le> int (length ds)" "\<not> dd_gotrad d0" using snoc by (simp_all add: d0_def)
  have b: "digit_byte b" using snoc.prems(1) by simp
  have "schar b \<noteq> 46" using digit_schar(2) [OF b] by (intro notI) (simp add: decimal_digit_def)
  moreover have "d = dec_digit (schar b) d0" using snoc.prems(3) by (simp add: d0_def)
  ultimately show ?case using ih snoc.prems(2) digit_schar(3) [OF b]
    by (auto simp: dec_digit_def Let_def of_nat_diff)
qed

lemma zero_digits:
  assumes "0 < dd_j d" "dd_j d < 9" "dd_k d = 0" "dd_gotrad d" "dd_gotdig d" "t \<le> 9"
  shows "let e = digit_fold (replicate t 48) d in
    dd_x e 0 = dd_x d 0 * 10 ^ min t (9 - dd_j d) \<and> dd_j e = (if dd_j d + t < 9 then dd_j d + t else dd_j d + t - 9) \<and>
    dd_k e = (if dd_j d + t < 9 then 0 else 1) \<and> dd_dc e = dd_dc d + int t \<and> dd_lnz e = dd_lnz d \<and> dd_lrp e = dd_lrp d \<and> dd_gotrad e \<and> dd_gotdig e"
  using assms(6)
proof (induction t)
  case 0
  then show ?case using assms by simp
next
  case (Suc t)
  define e where "e = digit_fold (replicate t 48) d"
  have "replicate (Suc t) (48 :: u8) = replicate t 48 @ [48]" by (simp add: replicate_append_same)
  then have f: "digit_fold (replicate (Suc t) 48) d = dec_digit (schar 48) e" by (simp add: e_def)
  have ih: "dd_x e 0 = dd_x d 0 * 10 ^ min t (9 - dd_j d)" "dd_j e = (if dd_j d + t < 9 then dd_j d + t else dd_j d + t - 9)"
    "dd_k e = (if dd_j d + t < 9 then 0 else 1)" "dd_dc e = dd_dc d + int t" "dd_lnz e = dd_lnz d" "dd_lrp e = dd_lrp d" "dd_gotrad e" "dd_gotdig e"
    using Suc by (simp_all add: e_def Let_def)
  have c: "schar 48 = 48" "(digit_num 48 :: u32) = 0" by (simp_all add: schar_def digit_num_def)
  show ?case
  proof (cases "dd_j d + t < 9")
    case True
    then have "min (Suc t) (9 - dd_j d) = Suc (min t (9 - dd_j d))" by simp
    then show ?thesis unfolding f using ih c True assms(1) by (auto simp: dec_digit_def Let_def)
  next
    case False
    then have "min (Suc t) (9 - dd_j d) = min t (9 - dd_j d)" by simp
    then show ?thesis unfolding f using ih c False assms(1,2) Suc.prems by (auto simp: dec_digit_def Let_def)
  qed
qed

lemma decimal_first: "n \<noteq> 0 \<Longrightarrow> hd (decimal n) \<noteq> 48"
proof (induction n rule: less_induct)
  case (less n)
  show ?case
  proof (cases "n < 10")
    case True
    then have u: "unat (48 + of_nat n :: u8) = 48 + n" using digit_byte_num by blast
    have "(48 + of_nat n :: u8) \<noteq> 48"
    proof
      assume "(48 + of_nat n :: u8) = 48"
      then have "48 + n = unat (48 :: u8)" by (simp only: flip: u)
      then show False using less.prems by simp
    qed
    then show ?thesis using True by (simp add: decimal_step)
  next
    case False
    then show ?thesis using less.IH [of "n div 10"] by (simp add: decimal_step [of n])
  qed
qed

section \<open>A numeral\<close>

lemma nothing_more: "schar 0 = 0" "\<not> decimal_digit 0" "(0 :: int) OR 32 \<noteq> 101" "schar 46 = 46" "\<not> decimal_digit 46" "schar 48 = 48" "decimal_digit 48"
  by (simp_all add: schar_def decimal_digit_def)

lemma digits_over:
  assumes "\<forall>b\<in>set bs. digit_byte b" "ahead s (tl (bs @ [e]))"
  shows "scan_while (\<lambda>c d. Some (decimal_digit c \<or> c = 46 \<and> \<not> dd_gotrad d)) dec_digit (schar (hd (bs @ [e]))) d s =
    scan_while (\<lambda>c d. Some (decimal_digit c \<or> c = 46 \<and> \<not> dd_gotrad d)) dec_digit (schar e) (digit_fold bs d) (adv (length bs) s)"
  using assms digit_schar(2) by (intro scan_while_over [where I = "\<lambda>_. True"]) auto

lemma digits_end:
  "scan_while (\<lambda>c d. Some (decimal_digit c \<or> c = 46 \<and> \<not> dd_gotrad d)) dec_digit (schar 0) d s = Some (s, 0, d)"
  by (subst scan_while.simps) (simp add: nothing_more)

lemma zero_bytes: "\<forall>b\<in>set (replicate n 48). digit_byte b"
  by (simp add: digit_byte_def)

lemma dec_digits_plain:
  assumes a: "ahead s (tl (decimal n @ [0]))" and l: "length (decimal n) < 9"
  shows "\<exists>d. dec_digits (schar (hd (decimal n))) (dec_start junk) s = Some (adv (length (decimal n)) s, 0, d) \<and>
    dd_x d 0 = of_nat n \<and> dd_lrp d = dd_dc d \<and> dd_dc d = int (length (decimal n)) \<and> dd_gotdig d"
proof -
  define d where "d = digit_fold (decimal n) (dec_start junk)"
  have d: "dd_x d 0 = of_nat n" "dd_dc d = int (length (decimal n))" "dd_gotdig d" "\<not> dd_gotrad d"
    using dec_int_digits [OF decimal_digits l d_def] by (simp_all add: decimal_value_decimal)
  have "hd (decimal n @ [0]) = hd (decimal n)" by simp
  then show ?thesis using digits_over [OF decimal_digits a, of "dec_start junk"] d
    by (intro exI [of _ "d\<lparr>dd_lrp := dd_dc d\<rparr>"]) (simp add: dec_digits_def digits_end flip: d_def)
qed

lemma dec_digits_fraction:
  assumes a: "ahead s (tl (decimal n @ 46 # replicate 9 48 @ [0]))" and l: "length (decimal n) < 9"
  shows "\<exists>d. dec_digits (schar (hd (decimal n))) (dec_start junk) s = Some (adv (length (decimal n) + 10) s, 0, d) \<and>
    dd_x d 0 = of_nat n * 10 ^ (9 - length (decimal n)) \<and> dd_lrp d = int (length (decimal n)) \<and>
    dd_dc d = int (length (decimal n)) + 9 \<and> dd_lnz d \<le> int (length (decimal n)) \<and> dd_j d = length (decimal n) \<and> dd_k d = 1 \<and> dd_gotdig d"
proof -
  let ?L = "length (decimal n)"
  have L: "0 < ?L" by (simp add: decimal_def)
  define d1 where "d1 = digit_fold (decimal n) (dec_start junk)"
  have d1: "dd_x d1 0 = of_nat n" "dd_dc d1 = int ?L" "dd_gotdig d1" "\<not> dd_gotrad d1" "dd_j d1 = ?L" "dd_k d1 = 0" "dd_lnz d1 \<le> int ?L"
    using dec_int_digits [OF decimal_digits l d1_def] by (simp_all add: decimal_value_decimal)
  define d2 where "d2 = d1\<lparr>dd_gotrad := True, dd_lrp := dd_dc d1\<rparr>"
  define d where "d = digit_fold (replicate 9 48) d2"
  have d: "dd_x d 0 = of_nat n * 10 ^ (9 - ?L)" "dd_lrp d = int ?L" "dd_dc d = int ?L + 9" "dd_lnz d \<le> int ?L" "dd_j d = ?L" "dd_k d = 1" "dd_gotdig d" "dd_gotrad d"
    using zero_digits [of d2 9, folded d_def, unfolded Let_def] d1 L l by (simp_all add: d2_def)
  have t: "tl (decimal n @ xs) = tl (decimal n) @ xs" for xs by simp
  have lt: "length (tl (decimal n)) = ?L - 1" by simp
  have a1: "ahead s (tl (decimal n @ [46]))" and a2: "ahead (adv ?L s) (replicate 9 48 @ [0])"
    using a L by (simp_all only: t ahead_append ahead_Cons lt) simp_all
  have r9: "replicate 9 (48 :: u8) = 48 # replicate 8 48" by (simp flip: replicate_Suc)
  have a2': "ahead (adv ?L s) (48 # replicate 8 48 @ [0])" using a2 by (simp only: r9 append_Cons)
  have a3: "ahead (adv (?L + 1) s) (tl (replicate 9 48 @ [0]))" "scan_help_getc (adv ?L s) = (adv (?L + 1) s, schar 48)"
    using a2' getc_ahead [OF a2'] by (simp_all add: r9 ahead_Cons)
  have "scan_while (\<lambda>c d. Some (decimal_digit c \<or> c = 46 \<and> \<not> dd_gotrad d)) dec_digit (schar (hd (decimal n @ [46]))) (dec_start junk) s =
      scan_while (\<lambda>c d. Some (decimal_digit c \<or> c = 46 \<and> \<not> dd_gotrad d)) dec_digit (schar 46) d1 (adv ?L s)"
    using digits_over [OF decimal_digits a1] by (simp add: d1_def)
  also have "\<dots> = scan_while (\<lambda>c d. Some (decimal_digit c \<or> c = 46 \<and> \<not> dd_gotrad d)) dec_digit (schar (hd (replicate 9 48 @ [0]))) d2 (adv (?L + 1) s)"
    by (subst scan_while.simps) (simp add: nothing_more d1(4) a3 dec_digit_def flip: d2_def)
  also have "\<dots> = Some (adv (?L + 10) s, 0, d)"
    using digits_over [OF zero_bytes a3(1), of d2] by (simp add: digits_end add.commute del: fold_replicate flip: d_def)
  finally show ?thesis using d by (intro exI [of _ d]) (simp add: dec_digits_def)
qed

lemma not_leading: "c \<noteq> 48 \<Longrightarrow> c \<noteq> 46 \<Longrightarrow> dec_leading c d s = Some (s, c, d)"
  by (subst dec_leading_def) (subst scan_while.simps, simp)

lemma digit_schar_48: "digit_byte b \<Longrightarrow> b \<noteq> 48 \<Longrightarrow> schar b \<noteq> 48 \<and> schar b \<noteq> 46"
proof -
  assume b: "digit_byte b" "b \<noteq> 48"
  have "schar b \<noteq> 46" using digit_schar(2) [OF b(1)] nothing_more(5) by auto
  moreover have "unat b \<noteq> unat (48 :: u8)" using b(2) by (simp only: word_unat_eq_iff not_False_eq_True)
  then have "unat b \<noteq> 48" by simp
  then have "int (unat b) \<noteq> 48" by linarith
  then have "schar b \<noteq> 48" by (simp only: digit_schar(1) [OF b(1)] not_False_eq_True)
  ultimately show ?thesis by simp
qed

text \<open>The number without its sign: the state of the digits at the end.\<close>

lemma dec_number_text:
  assumes a: "ahead s (tl (decimal n @ nine_zeros p @ [0]))" and n: "n \<noteq> 0" "length (decimal n) < 9" and s: "g_shlim s = 0"
  shows "\<exists>d. dec_number junk True (schar (hd (decimal n))) s = Some (Inr (adv (length (decimal n @ nine_zeros p) - 1) s, d)) \<and>
    dd_lrp d = int (length (decimal n)) \<and>
    (if p = 0 then dd_x d 0 = of_nat n \<and> dd_dc d = int (length (decimal n))
     else dd_x d 0 = of_nat n * 10 ^ (9 - length (decimal n)) \<and> dd_dc d = int (length (decimal n)) + 9 \<and>
       dd_lnz d \<le> int (length (decimal n)) \<and> dd_j d = length (decimal n) \<and> dd_k d = 1)"
proof -
  let ?L = "length (decimal n)"
  have L: "0 < ?L" by (simp add: decimal_def)
  have "hd (decimal n) \<in> set (decimal n)" by simp
  then have l: "dec_leading (schar (hd (decimal n))) (dec_start junk) s = Some (s, schar (hd (decimal n)), dec_start junk)"
    using digit_schar_48 decimal_first [OF n(1)] decimal_digits by (intro not_leading) blast+
  show ?thesis
  proof (cases "p = 0")
    case True
    then obtain d where d: "dec_digits (schar (hd (decimal n))) (dec_start junk) s = Some (adv ?L s, 0, d)"
      "dd_x d 0 = of_nat n" "dd_lrp d = dd_dc d" "dd_dc d = int ?L" "dd_gotdig d"
      using dec_digits_plain [OF _ n(2), of s junk] a by (auto simp: nine_zeros_def)
    have "scan_help_unget (adv ?L s) = adv (?L - 1) s" using unget_adv [OF s, of "?L - 1"] L by simp
    then show ?thesis using d True
      by (intro exI [of _ d]) (simp add: dec_number_def l nothing_more nine_zeros_def)
  next
    case False
    then obtain d where d: "dec_digits (schar (hd (decimal n))) (dec_start junk) s = Some (adv (?L + 10) s, 0, d)"
      "dd_x d 0 = of_nat n * 10 ^ (9 - ?L)" "dd_lrp d = int ?L" "dd_dc d = int ?L + 9" "dd_lnz d \<le> int ?L" "dd_j d = ?L" "dd_k d = 1" "dd_gotdig d"
      using dec_digits_fraction [OF _ n(2), of s junk] a by (auto simp: nine_zeros_def)
    have "scan_help_unget (adv (?L + 10) s) = adv (?L + 9) s" using unget_adv [OF s, of "?L + 9"] by (simp add: add.commute)
    then show ?thesis using d False
      by (intro exI [of _ d]) (simp add: dec_number_def l nothing_more nine_zeros_def add.commute)
  qed
qed

lemma p10s_nth: "1 \<le> l \<Longrightarrow> l \<le> 8 \<Longrightarrow> p10s ! (8 - l) = 10 ^ (9 - l)"
proof -
  assume "1 \<le> l" "l \<le> 8"
  then have "l \<in> {1, 2, 3, 4, 5, 6, 7, 8}" by auto
  then show ?thesis by (auto simp: p10s_def)
qed

lemma decfloat_integer:
  assumes a: "ahead s (tl (decimal n @ nine_zeros p @ [0]))" and n: "n \<noteq> 0" "n < 10 ^ 8" and s: "g_shlim s = 0" and sg: "sign = 1 \<or> sign = - 1"
  shows "gob_decfloat junk (schar (hd (decimal n))) 64 (- 16445) sign True s =
    Some (adv (length (decimal n @ nine_zeros p) - 1) s, ld_of_int (sign * int n))"
proof -
  let ?L = "length (decimal n)"
  have L: "1 \<le> ?L" "?L \<le> 8" using n(2) length_decimal [of n 8] by (simp_all add: decimal_def Suc_le_eq)
  have "n < 10 ^ ?L" using length_decimal [of n ?L] by simp
  then have "n * 10 ^ (9 - ?L) < 10 ^ ?L * 10 ^ (9 - ?L)" by simp
  also have "10 ^ ?L * 10 ^ (9 - ?L) = (10 ^ 9 :: nat)" using L by (simp flip: power_add)
  finally have x: "n * 10 ^ (9 - ?L) < 10 ^ 9" .
  obtain d where d: "dec_number junk True (schar (hd (decimal n))) s = Some (Inr (adv (length (decimal n @ nine_zeros p) - 1) s, d))"
    "dd_lrp d = int ?L" "if p = 0 then dd_x d 0 = of_nat n \<and> dd_dc d = int ?L
     else dd_x d 0 = of_nat n * 10 ^ (9 - ?L) \<and> dd_dc d = int ?L + 9 \<and> dd_lnz d \<le> int ?L \<and> dd_j d = ?L \<and> dd_k d = 1"
    using dec_number_text [OF a n(1) _ s, of junk] L by auto
  have sg0: "sign \<noteq> 0" "\<bar>sign\<bar> = 1" using sg by auto
  have "dec_value 64 (- 16445) sign d = Some (ld_of_int (sign * int n), False)"
  proof (cases "p = 0")
    case True
    have un: "unat (of_nat n :: u32) = n" using n(2) by (simp add: unat_of_nat_u32)
    then have "0 < unat (of_nat n :: u32)" using n(1) by (simp only: neq0_conv)
    then have nz: "(of_nat n :: u32) \<noteq> 0" by (simp only: unat_gt_0 not_False_eq_True)
    have u: "uint (of_nat n :: u32) = int n" using un by (simp only: uint_nat)
    have "ld_mul (ld_of_int sign) (ld_of_int (int n)) = ld_of_int (sign * int n)" using n sg0 by (intro mul_of_int) (simp_all add: abs_mult)
    then show ?thesis using True d(2,3) u nz L by (simp add: dec_value_def)
  next
    case False
    define x0 where "x0 = (of_nat (n * 10 ^ (9 - ?L)) :: u32)"
    have ux: "unat x0 = n * 10 ^ (9 - ?L)" using x by (simp only: x0_def) (intro unat_of_nat_u32, simp)
    have "0 < unat x0" using n(1) by (simp add: ux)
    then have nz: "x0 \<noteq> 0" by (simp only: unat_gt_0 not_False_eq_True)
    have u: "uint x0 = int n * 10 ^ (9 - ?L)" by (simp only: uint_nat ux) simp
    have p: "uint (10 ^ (9 - ?L) :: u32) = 10 ^ (9 - ?L)"
    proof -
      have "?L \<in> {1, 2, 3, 4, 5, 6, 7, 8}" using L by auto
      then show ?thesis by auto
    qed
    have b: "\<bar>sign * int n * 10 ^ (9 - ?L)\<bar> < 2 ^ 64"
    proof -
      have "int (n * 10 ^ (9 - ?L)) < int (10 ^ 9)" using x by (simp only: of_nat_less_iff)
      then show ?thesis using sg0 by (simp add: abs_mult)
    qed
    have m: "ld_mul (ld_of_int sign) (ld_of_int (uint x0)) = ld_of_int (sign * int n * 10 ^ (9 - ?L))"
      unfolding u using b n(1) sg0 by (subst mul_of_int) (simp_all add: mult.assoc)
    have dv: "ld_div (ld_of_int (sign * int n * 10 ^ (9 - ?L))) (ld_of_int (10 ^ (9 - ?L))) = ld_of_int (sign * int n)"
      using b n(1) sg0 by (intro div_of_int) simp_all
    have x00: "dd_x d 0 = x0" "dd_lrp d \<noteq> dd_dc d" using d(2,3) False by (simp_all add: x0_def)
    have nl: "nat (8 - int ?L) = 8 - ?L" by simp
    have "dec_short 64 sign (dd_lnz d) (int ?L) x0 = Some (ld_of_int (sign * int n))"
      using L d(3) False by (simp add: dec_short_def Let_def m nl p10s_nth p dv)
    moreover have "dr_x (dec_fill d) 0 = x0" using x00 d(3) False by (simp add: dec_fill_def Let_def)
    ultimately show ?thesis using x00 nz d(2) L by (simp add: dec_value_def Let_def)
  qed
  then show ?thesis by (simp add: gob_decfloat_def d(1))
qed

lemma decfloat_zero:
  assumes a: "ahead s (nine_zeros p @ [0])" and s: "g_shlim s = 0"
  shows "gob_decfloat junk (schar 48) 64 (- 16445) 1 True s = Some (adv (length (nine_zeros p)) s, ld_of_int 0)"
proof -
  let ?d = "dec_start junk"
  have z: "dec_value 64 (- 16445) 1 d = Some (ld_of_int 0, False)" if "dd_x d 0 = 0" for d
  proof -
    have "ld_class (ld_zero False) = Ld_Fin False 0 LD_EMIN" using class_make [of 0 0 False] by (simp add: ld_zero_def)
    moreover obtain m e where "ld_class (ld_of_int 1) = Ld_Fin False m e" using int_class [of 1] by auto
    ultimately have "ld_mul (ld_of_int 1) (ld_zero False) = ld_of_int 0" by (simp add: ld_mul_def ld_of_int_def ld_round_def)
    then show ?thesis using that by (simp add: dec_value_def)
  qed
  let ?go = "\<lambda>c (_ :: dec_state). Some (c = 48)"
  have lead: "scan_while ?go f (schar (hd (replicate k 48 @ [e]))) d t = Some (adv k t, schar e, (f 48 ^^ k) d)"
    if "schar e \<noteq> 48" "ahead t (tl (replicate k 48 @ [e]))" for f k e d and t :: "'a gob_file_scheme"
  proof -
    have "scan_while ?go f (schar (hd (replicate k 48 @ [e]))) d t = scan_while ?go f (schar e) (fold (\<lambda>b. f (schar b)) (replicate k 48) d) (adv k t)"
      using that(2) scan_while_over [of "replicate k 48" "\<lambda>_. True" ?go f d t e] by (simp add: nothing_more del: fold_replicate)
    then show ?thesis using that(1) by (subst (asm) (2) scan_while.simps) (simp add: nothing_more)
  qed
  let ?lead = "\<lambda>d. d\<lparr>dd_gotdig := True, dd_lrp := dd_lrp d - 1\<rparr>"
  define d1 where "d1 = ?d\<lparr>dd_gotdig := True\<rparr>"
  show ?thesis
  proof (cases "p = 0")
    case True
    then have "ahead s (tl (replicate 1 48 @ [0]))" using a by (simp add: nine_zeros_def)
    then have "scan_while ?go (\<lambda>_ d. d\<lparr>dd_gotdig := True\<rparr>) (schar 48) ?d s = Some (adv 1 s, 0, d1)"
      using lead [of 0 s 1 "\<lambda>_ d. d\<lparr>dd_gotdig := True\<rparr>" ?d] by (simp add: nothing_more d1_def)
    then have "dec_leading (schar 48) ?d s = Some (adv 1 s, schar 0, d1)" by (simp add: dec_leading_def nothing_more)
    moreover have "dec_digits (schar 0) d1 (adv 1 s) = Some (adv 1 s, 0, d1\<lparr>dd_lrp := dd_dc d1\<rparr>)"
      by (simp add: dec_digits_def digits_end d1_def dec_start_def)
    moreover have "scan_help_unget (adv 1 s) = s" using unget_adv [OF s, of 0] by simp
    ultimately show ?thesis using True by (simp add: gob_decfloat_def dec_number_def nothing_more z d1_def dec_start_def nine_zeros_def)
  next
    case False
    have r9: "replicate 9 (48 :: u8) = 48 # replicate 8 48" by (simp flip: replicate_Suc)
    have a': "ahead s (46 # 48 # replicate 8 48 @ [0])" using a False by (simp add: nine_zeros_def r9)
    have g: "scan_help_getc (adv 1 s) = (adv 2 s, schar 48)" "ahead (adv 2 s) (tl (replicate 9 48 @ [0]))"
      using a' getc_ahead [of "adv 1 s" 48 "replicate 8 48 @ [0]"] by (simp_all add: ahead_Cons r9 numeral_2_eq_2)
    have "ahead s (tl (replicate 1 48 @ [46]))" using a' by (simp add: ahead_Cons)
    then have "scan_while ?go (\<lambda>_ d. d\<lparr>dd_gotdig := True\<rparr>) (schar 48) ?d s = Some (adv 1 s, 46, d1)"
      using lead [of 46 s 1 "\<lambda>_ d. d\<lparr>dd_gotdig := True\<rparr>" ?d] by (simp add: nothing_more d1_def)
    moreover define d where "d = (?lead ^^ 9) (d1\<lparr>dd_gotrad := True\<rparr>)"
    have h: "hd (replicate 9 48 @ [0 :: u8]) = 48" by (simp add: r9)
    have "scan_while ?go (\<lambda>_. ?lead) (schar 48) (d1\<lparr>dd_gotrad := True\<rparr>) (adv 2 s) = Some (adv 11 s, 0, d)"
      using lead [OF _ g(2), of "\<lambda>_. ?lead" "d1\<lparr>dd_gotrad := True\<rparr>"] by (simp add: h nothing_more flip: d_def)
    ultimately have "dec_leading (schar 48) ?d s = Some (adv 11 s, schar 0, d)" using g(1) by (simp add: dec_leading_def nothing_more)
    moreover have d: "dd_x d 0 = 0" "dd_gotrad d" "dd_gotdig d"
      by (simp_all add: d_def d1_def dec_start_def numeral_eq_Suc)
    then have "dec_digits (schar 0) d (adv 11 s) = Some (adv 11 s, 0, d)" by (simp add: dec_digits_def digits_end)
    moreover have "scan_help_unget (adv 11 s) = adv 10 s" using unget_adv [OF s, of 10] by simp
    ultimately show ?thesis using False d by (simp add: gob_decfloat_def dec_number_def nothing_more z nine_zeros_def)
  qed
qed

section \<open>The scanner\<close>

lemma digit_no_word: "digit_byte b \<Longrightarrow> schar b OR 32 \<noteq> 105 \<and> schar b OR 32 \<noteq> 110"
proof -
  assume "digit_byte b"
  then have b: "48 \<le> unat b" "unat b \<le> 57" by (simp_all add: digit_byte_def)
  then have "unat b = 48 \<or> unat b = 49 \<or> unat b = 50 \<or> unat b = 51 \<or> unat b = 52 \<or> unat b = 53 \<or> unat b = 54 \<or>
      unat b = 55 \<or> unat b = 56 \<or> unat b = 57" by arith
  then have "b \<in> {48, 49, 50, 51, 52, 53, 54, 55, 56, 57}" by (simp add: word_unat_eq_iff)
  then show ?thesis by (auto simp: schar_def)
qed

lemma decfloat_numeral:
  assumes a: "ahead s (tl (decimal n @ nine_zeros p @ [0]))" and n: "n < 10 ^ 8" "n = 0 \<longrightarrow> sign = 1" and s: "g_shlim s = 0" and sg: "sign = 1 \<or> sign = - 1"
  shows "gob_decfloat junk (schar (hd (decimal n))) 64 (- 16445) sign True s =
    Some (adv (length (decimal n @ nine_zeros p) - 1) s, ld_of_int (sign * int n))"
proof (cases "n = 0")
  case True
  then show ?thesis using decfloat_zero [OF _ s, of p junk] a n(2) by (simp add: decimal_small)
next
  case False
  then show ?thesis using decfloat_integer [OF a _ n(1) s sg] by simp
qed

lemma floatscan_integer:
  assumes a: "ahead s (signed_decimal i @ nine_zeros p @ [0])" and i: "\<bar>i\<bar> < 10 ^ 8" and s: "g_shlim s = 0"
  shows "gob_floatscan junk 2 True s = Some (adv (length (signed_decimal i @ nine_zeros p)) s, ld_of_int i)"
proof -
  define n where "n = nat \<bar>i\<bar>"
  have n: "n < 10 ^ 8" using i by (simp add: n_def)
  obtain d ds where d: "decimal n = d # ds" by (cases "decimal n") auto
  have b: "digit_byte d" using decimal_digits [of n] d by simp
  have w: "match_word ''infinity'' (schar d) 0 t = (t, schar d, 0)" "match_word ''nan'' (schar d) 0 t = (t, schar d, 0)"
    for t :: "'a gob_file_scheme" using digit_no_word [OF b] by simp_all
  show ?thesis
  proof (cases "i < 0")
    case True
    have sd: "signed_decimal i = 45 # d # ds" using True d by (simp add: signed_decimal_def n_def)
    have a': "ahead s (45 # d # ds @ nine_zeros p @ [0])" using a sd by simp
    have "schar 45 = 45" "\<not> isspace 45" by (simp_all add: schar_def isspace_def)
    then have sp: "scan_spaces s = Some (adv 1 s, 45)" using scan_spaces_run [of s "[]" 45] a' by (simp add: ahead_Cons)
    have g: "scan_help_getc (adv 1 s) = (adv 2 s, schar d)"
      using getc_ahead [of "adv 1 s" d "ds @ nine_zeros p @ [0]"] a' by (simp add: ahead_Cons numeral_2_eq_2)
    have "gob_decfloat junk (schar (hd (decimal n))) 64 (- 16445) (- 1) True (adv 2 s) =
        Some (adv (length (decimal n @ nine_zeros p) - 1) (adv 2 s), ld_of_int (- 1 * int n))"
      using a' n s True d by (intro decfloat_numeral) (simp_all add: ahead_Cons numeral_2_eq_2 n_def)
    moreover have "- 1 * int n = i" using True by (simp add: n_def)
    ultimately show ?thesis
      by (simp add: gob_floatscan_def float_kind_def sp g w floatscan_nan_def sd d del: match_word.simps One_nat_def)
  next
    case False
    have sd: "signed_decimal i = d # ds" using False d by (simp add: signed_decimal_def n_def)
    have a': "ahead s (d # ds @ nine_zeros p @ [0])" using a sd by simp
    have sp: "scan_spaces s = Some (adv 1 s, schar d)"
      using scan_spaces_run [of s "[]" d] a' digit_schar(6) [OF b] by (simp add: ahead_Cons)
    have "gob_decfloat junk (schar (hd (decimal n))) 64 (- 16445) 1 True (adv 1 s) =
        Some (adv (length (decimal n @ nine_zeros p) - 1) (adv 1 s), ld_of_int (1 * int n))"
      using a' n s d by (intro decfloat_numeral) (simp_all add: ahead_Cons)
    moreover have "1 * int n = i" using False by (simp add: n_def)
    ultimately show ?thesis using digit_schar(7,8) [OF b]
      by (simp add: gob_floatscan_def float_kind_def sp w floatscan_nan_def sd d del: match_word.simps)
  qed
qed

lemma length_signed_decimal: "\<bar>i\<bar> < 10 ^ 8 \<Longrightarrow> 0 < length (signed_decimal i) \<and> length (signed_decimal i @ nine_zeros p) \<le> 19"
proof -
  assume "\<bar>i\<bar> < 10 ^ 8"
  then have "length (decimal (nat \<bar>i\<bar>)) \<le> 8" unfolding length_decimal by simp
  then show ?thesis by (cases "i < 0") (simp_all add: signed_decimal_def nine_zeros_def)
qed

text \<open>\<open>strtold\<close> on such a text, which does not reach the last address.\<close>

lemma strtold_integer:
  assumes m: "\<forall>j<length bs. g_mem s (str + of_nat j) = bs ! j" and bs: "bs = signed_decimal i @ nine_zeros p @ [0]"
    and i: "\<bar>i\<bar> < 10 ^ 8" and e: "unat str + 32 < 2 ^ 32" and q: "q \<noteq> NULL"
  shows "\<exists>s2. strtold junk str q s = Some (s2, ld_of_int i) \<and>
    g_mem s2 = store32 (g_mem s) q (str + of_nat (length (signed_decimal i @ nine_zeros p)))"
proof -
  define N where "N = length (signed_decimal i @ nine_zeros p)"
  have l: "0 < N" "N \<le> 19" using length_signed_decimal [OF i, of p] by (simp_all only: N_def) simp_all
  define t where "t = scan_help_lim 0 (scan_help_file_from_string str s)"
  have t: "g_rpos t = str" "g_shend t = - 1" "g_mem t = g_mem s" "g_shlim t = 0" "g_buf t = str" "g_shcnt t = 0"
    by (simp_all add: t_def lim_0 scan_help_file_from_string_def ptrdiff_def)
  have "str + of_nat j \<noteq> - 1" if "j < length bs" for j
  proof -
    have j: "j < 21" using that l by (simp add: bs N_def)
    then have "unat (str + of_nat j) = unat str + j" using e by (simp add: unat_word_ariths unat_of_nat_u32)
    moreover have "unat (- 1 :: u32) = 4294967295" by (simp add: unsigned_minus_1_eq_mask mask_eq_exp_minus_1)
    ultimately have "unat (str + of_nat j) \<noteq> unat (- 1 :: u32)" using e j by simp
    then show ?thesis by metis
  qed
  then have "ahead t bs" using m by (simp add: ahead_def t)
  then have f: "gob_floatscan junk 2 True t = Some (adv N t, ld_of_int i)" unfolding bs N_def by (intro floatscan_integer i t(4))
  have "ptrdiff (str + of_nat N) str = int N" using l by (intro ptrdiff_offset(1)) simp
  then have c: "scan_help_cnt (adv N t) = int N" by (simp only: scan_help_cnt_def adv_simps t)
  have "word_of_int (int N) = (of_nat N :: u32)" by simp
  then show ?thesis unfolding strtold_def strtox_def t_def [symmetric] N_def [symmetric] f
    using q l by (simp add: c t Let_def)
qed

text \<open>C15: What \<open>%f\<close> prints for an integer of up to eight digits, \<open>strtold\<close> reads back: the value is the very number that was
  printed, and the end pointer is where the printing stopped.\<close>

theorem float_roundtrip:
  assumes v: "float_arg v = ld_of_int i" "\<bar>i\<bar> < 10 ^ 8" and p: "0 \<le> p" "p \<le> 2 ^ 30"
    and s: "g_wend s = g_wpos s" "unat (g_rpos s) + 32 < 2 ^ 32"
    and f: "gob_format_float junk v 0 p 0 (of_char CHR ''f'') prev s = Some (s1, n)"
    and z: "g_mem s1 (g_rpos s1) = 0" and q: "q \<noteq> NULL"
  shows "\<exists>s2. strtold junk2 (g_rpos s) q s1 = Some (s2, float_arg v) \<and> g_mem s2 = store32 (g_mem s1) q (g_rpos s1)"
proof -
  let ?bs = "signed_decimal i @ nine_zeros p"
  have l: "length ?bs \<le> 19" using length_signed_decimal [OF v(2)] by blast
  have "\<bar>i\<bar> < 2 ^ 64" using v(2) by simp
  then have s1: "s1 = out ?bs s" using format_integer [OF _ v(1) p s(1), of junk prev] f by simp
  then have m: "g_mem s1 = store_bytes (g_mem s) (g_rpos s) ?bs" "g_rpos s1 = g_rpos s + of_nat (length ?bs)"
    using s(1) by (simp_all only: out_def write_str_store) simp_all
  have at: "g_mem s1 (g_rpos s + of_nat j) = ?bs ! j" if "j < length ?bs" for j unfolding m(1) using l that by (intro store_bytes_at) simp_all
  have "\<forall>j<length (?bs @ [0]). g_mem s1 (g_rpos s + of_nat j) = (?bs @ [0]) ! j"
  proof (intro allI impI)
    fix j assume "j < length (?bs @ [0])"
    then consider "j < length ?bs" | "j = length ?bs" by fastforce
    then show "g_mem s1 (g_rpos s + of_nat j) = (?bs @ [0]) ! j" 
    proof cases
      case 1
      then show ?thesis using at by (simp only: nth_append if_True)
    next
      case 2
      then show ?thesis using z m(2) by (simp only: nth_append_length)
    qed
  qed
  then show ?thesis using strtold_integer [OF _ _ v(2) s(2) q, of "?bs @ [0]" s1 p junk2] v(1) m(2) by simp
qed

theorem float_roundtrip_witness:
  "\<exists>s1 n s2. gob_format_float (\<lambda>_. 7) [0, 0xC0390000] 0 2 0 (of_char CHR ''f'') FS_DBL
      \<lparr>g_mem = (\<lambda>_. 0), g_errno = 0, g_buf = 0, g_rpos = 1000, g_rend = 0, g_wend = 0, g_wpos = 0, g_shend = 0, g_shlim = 0,
        g_shcnt = 0, fm_fmt = [], fm_args = [], fm_nl_arg = \<lambda>_. \<lparr>arg_i = 0, arg_f = []\<rparr>, fm_nl_type = \<lambda>_. FS_BARE,
        fm_using_position = False, fm_output_count = 0, fm_len = 0\<rparr> = Some (s1, n) \<and>
     strtold (\<lambda>_. 9) 1000 500 s1 = Some (s2, ld_of_int (- 25)) \<and> g_mem s2 = store32 (g_mem s1) 500 1013"
proof -
  let ?s = "\<lparr>g_mem = (\<lambda>_. 0), g_errno = 0, g_buf = 0, g_rpos = 1000, g_rend = 0, g_wend = 0, g_wpos = 0, g_shend = 0, g_shlim = 0,
        g_shcnt = 0, fm_fmt = [], fm_args = [], fm_nl_arg = \<lambda>_. \<lparr>arg_i = 0, arg_f = []\<rparr>, fm_nl_type = \<lambda>_. FS_BARE,
        fm_using_position = False, fm_output_count = 0, fm_len = 0\<rparr>"
  let ?bs = "signed_decimal (- 25) @ nine_zeros 2"
  have bs: "?bs = [45, 50, 53, 46, 48, 48, 48, 48, 48, 48, 48, 48, 48]" by (simp add: signed_decimal_minus_25 nine_zeros_def numeral_eq_Suc)
  have f: "gob_format_float (\<lambda>_. 7) [0, 0xC0390000] 0 2 0 (of_char CHR ''f'') FS_DBL ?s = Some (out ?bs ?s, 6)"
    by (subst format_integer [OF _ float_arg_minus_25]) (simp_all add: signed_decimal_minus_25)
  have "g_rpos (out ?bs ?s) = 1013" "g_mem (out ?bs ?s) 1013 = 0"
    unfolding bs by (simp_all add: out_def write_str_store store_bytes_Cons)
  then show ?thesis using float_roundtrip [OF float_arg_minus_25 _ _ _ _ _ f, of 500 "\<lambda>_. 9", unfolded float_arg_minus_25] f by auto
qed

end
