(* ===== verification/Brainfuck.thy ===== *)
theory Brainfuck
  imports Input LibString
begin

text \<open>
  \<open>apps/brainfuck/main.c\<close>: the interpreter and the editor around it. The text screen is a
  function of the cell index from \<open>text_buffer\<close>; \<open>command_text_buffer\<close> is the cell
  \<open>80 * 24 + 1\<close>. What a system call does to the screen is the argument \<open>os\<close>; the calls
  themselves are recorded in \<open>calls\<close>. A key code is its number, as in \<open>Input\<close> (the tables of
  \<open>lib/estros/include/estros/keyboard.h\<close> are those of the kernel).
\<close>

section \<open>The interpreter\<close>

datatype CodeRunResult =
  ECRR_Unfinished | ECRR_Success | ECRR_MemoryOutOfBounds | ECRR_UnmatchedPair | ECRR_ForcedExit
| ECRR_Invalid | ECRR_ExpectInput

text \<open>\<open>memory\<close> has 300 cells and \<open>mem_pos\<close> follows it, so the cell at 300 is the low byte of
  \<open>mem_pos\<close>. The pointer \<open>code\<close> is an argument of the functions: the bytes relative to it.\<close>

record CodeExecutionData =
  memory :: "u8 list"
  mem_pos :: u32
  exec_code_len :: int
  current_code_offset :: int

definition init_exec_data :: "int \<Rightarrow> CodeExecutionData" where
  "init_exec_data code_len = \<lparr>memory = replicate 300 0, mem_pos = 0, exec_code_len = code_len, current_code_offset = 0\<rparr>"

definition cell :: "CodeExecutionData \<Rightarrow> u8" where
  "cell d = (if mem_pos d < 300 then memory d ! unat (mem_pos d) else ucast (mem_pos d))"

definition set_cell :: "u8 \<Rightarrow> CodeExecutionData \<Rightarrow> CodeExecutionData" where
  "set_cell v d =
     (if mem_pos d < 300 then d\<lparr>memory := (memory d)[unat (mem_pos d) := v]\<rparr>
      else d\<lparr>mem_pos := (mem_pos d AND 0xFFFFFF00) OR ucast v\<rparr>)"

text \<open>The two searches for a matching bracket. The result is the offset where the loop ended, and
  whether it returned \<open>ECRR_UnmatchedPair\<close>: the code compares the character, not the offset, with
  the length (and with 0).\<close>

function scan_forward :: "(int \<Rightarrow> u8) \<Rightarrow> int \<Rightarrow> int \<Rightarrow> int \<Rightarrow> int \<times> bool" where
  "scan_forward code n off counter =
     (if \<not> (code off = chr CHR '']'' \<and> counter \<le> 0) \<and> off < n then
        (if schar (code off) \<ge> n then (off, True)
         else scan_forward code n (off + 1)
           (if code off = chr CHR ''['' then counter + 1
            else if code off = chr CHR '']'' then counter - 1 else counter))
      else (off, False))"
  by pat_completeness auto
termination by (relation "measure (\<lambda>(code, n, off, c). nat (n - off))") auto

function scan_backward :: "(int \<Rightarrow> u8) \<Rightarrow> int \<Rightarrow> int \<Rightarrow> int \<times> bool" where
  "scan_backward code off counter =
     (if \<not> (code off = chr CHR ''['' \<and> counter \<le> 0) \<and> off \<ge> 0 then
        (if schar (code off) < 0 then (off, True)
         else scan_backward code (off - 1)
           (if code off = chr CHR '']'' then counter + 1
            else if code off = chr CHR ''['' then counter - 1 else counter))
      else (off, False))"
  by pat_completeness auto
termination by (relation "measure (\<lambda>(code, off, c). nat (off + 1))") auto

declare scan_forward.simps [simp del] scan_backward.simps [simp del]

text \<open>What the character under the offset does; \<open>Inl\<close> is an early return. The list is what is passed
  to \<open>sys_print\<close>.\<close>

definition exec_char ::
  "(int \<Rightarrow> u8) \<Rightarrow> CodeExecutionData \<Rightarrow> bool \<Rightarrow> u8 \<Rightarrow>
   CodeExecutionData \<times> CodeRunResult option \<times> u8 list" where
  "exec_char code data has_input inp =
     (let off = current_code_offset data; ch = code off in
      if ch = chr CHR ''+'' then (set_cell (cell data + 1) data, None, [])
      else if ch = chr CHR ''-'' then (set_cell (cell data - 1) data, None, [])
      else if ch = chr CHR ''>'' then (data\<lparr>mem_pos := mem_pos data + 1\<rparr>, None, [])
      else if ch = chr CHR ''<'' then (data\<lparr>mem_pos := mem_pos data - 1\<rparr>, None, [])
      else if ch = chr CHR ''.'' then (data, None, [cell data])
      else if ch = chr CHR '','' then
        (if \<not> has_input then (data, Some ECRR_ExpectInput, []) else (set_cell inp data, None, []))
      else if ch = chr CHR ''['' then
        (if cell data = 0 then
           (case scan_forward code (exec_code_len data) (off + 1) 0 of (off', unmatched) \<Rightarrow>
              (data\<lparr>current_code_offset := off'\<rparr>, if unmatched then Some ECRR_UnmatchedPair else None, []))
         else (data, None, []))
      else if ch = chr CHR '']'' then
        (if cell data \<noteq> 0 then
           (case scan_backward code (off - 1) 0 of (off', unmatched) \<Rightarrow>
              (data\<lparr>current_code_offset := off'\<rparr>, if unmatched then Some ECRR_UnmatchedPair else None, []))
         else (data, None, []))
      else (data, None, []))"

definition step_data ::
  "(int \<Rightarrow> u8) \<Rightarrow> CodeExecutionData \<Rightarrow> bool \<Rightarrow> u8 \<Rightarrow> CodeExecutionData \<times> CodeRunResult \<times> u8 list" where
  "step_data code data has_input inp =
     (if current_code_offset data < 0 then (data, ECRR_UnmatchedPair, [])
      else if current_code_offset data \<ge> exec_code_len data then (data, ECRR_Success, [])
      else if mem_pos data > 300 then (data, ECRR_MemoryOutOfBounds, [])
      else case exec_char code data has_input inp of
        (d, Some r, printed) \<Rightarrow> (d, r, printed)
      | (d, None, printed) \<Rightarrow>
          (d\<lparr>current_code_offset := current_code_offset d + 1\<rparr>, ECRR_Unfinished, printed))"

text \<open>\<open>None\<close> is the NULL pointer.\<close>

fun step_code ::
  "(int \<Rightarrow> u8) \<Rightarrow> CodeExecutionData option \<Rightarrow> bool \<Rightarrow> u8 \<Rightarrow>
   CodeExecutionData option \<times> CodeRunResult \<times> u8 list" where
  "step_code code None has_input inp = (None, ECRR_Invalid, [])"
| "step_code code (Some data) has_input inp =
     (case step_data code data has_input inp of (d, r, printed) \<Rightarrow> (Some d, r, printed))"

section \<open>The application\<close>

datatype EditorMode =
  EEM_Editing | EEM_Command | EEM_Running | EEM_RunningWaitingForInput | EEM_RunningFinished
| EEM_ViewingHelp | EEM_Exit

record Input_t =
  keycode :: u8
  shift_pressed :: bool

datatype syscall = Sys_print "u8 list" | Sys_clear | Sys_set_cursor u16 u16

type_synonym screen = "int \<Rightarrow> u16"
type_synonym os_effect = "syscall \<Rightarrow> screen \<Rightarrow> screen"

record AppState =
  current_mode :: EditorMode
  code_buffer :: "u8 list"
  command_buffer :: "u8 list"
  text_buffer :: screen
  code_len :: int
  code_text_offset :: int
  command_text_offset :: int
  window_width :: int
  window_height :: int
  cursor_pos :: int
  prev_cursor_pos :: int
  command_display_offset :: u32
  shift_state :: bool
  exec_data :: CodeExecutionData
  calls :: "syscall list"

abbreviation (input) "command_text_start \<equiv> 1921 :: int"

text \<open>The bytes relative to \<open>code_buffer\<close>: it is followed by \<open>command_buffer\<close>, and the byte before it is
  the top byte of the enumeration \<open>current_mode\<close>.\<close>

definition code_view :: "AppState \<Rightarrow> int \<Rightarrow> u8" where
  "code_view app i =
     (if 0 \<le> i \<and> i < 512 then code_buffer app ! nat i
      else if 512 \<le> i \<and> i < 562 then command_buffer app ! nat (i - 512)
      else 0)"

definition sys :: "os_effect \<Rightarrow> syscall \<Rightarrow> AppState \<Rightarrow> AppState" where
  "sys os c app = app\<lparr>text_buffer := os c (text_buffer app), calls := calls app @ [c]\<rparr>"

definition isvalidinput :: "int \<Rightarrow> bool" where
  "isvalidinput c \<longleftrightarrow> 33 \<le> c \<and> c \<le> 126"

text \<open>The loop of \<open>isbf\<close> includes the terminating NUL of the string.\<close>

definition isbf :: "int \<Rightarrow> bool" where
  "isbf c \<longleftrightarrow> (\<exists>v \<in> set (map chr ''[]+-,.<>'' @ [0]). schar v = c)"

abbreviation (input) "put_cell_at i v app \<equiv> app\<lparr>text_buffer := (text_buffer app)(i := v)\<rparr>"

definition write_text_to_status_bar :: "u8 list \<Rightarrow> u8 \<Rightarrow> int \<Rightarrow> AppState \<Rightarrow> AppState" where
  "write_text_to_status_bar txt color status_bar_start app =
     app\<lparr>text_buffer := fold (\<lambda>i scr. scr(status_bar_start + int i := push_bit 8 (ucast color) OR ucast (txt ! i)))
       [0..<length txt] (text_buffer app)\<rparr>"

definition reset_display :: "os_effect \<Rightarrow> AppState \<Rightarrow> AppState" where
  "reset_display os app =
     sys os (Sys_print (takeWhile (\<lambda>c. c \<noteq> 0) (map (code_view app) [0..561])))
       (sys os Sys_clear (sys os (Sys_set_cursor 0 0) app))"

definition prepare_for_exec :: "os_effect \<Rightarrow> AppState \<Rightarrow> AppState" where
  "prepare_for_exec os app = sys os Sys_clear (sys os (Sys_set_cursor 0 0) app)"

definition help_lines :: "string list" where
  "help_lines = [
     ''  Simple brainfuck interpreter'',
     ''            by Sofia \"MetalPizzaCat\"'',
     ''        Modes:'',
     ''        * Editor - accessed by pressing TAB. - Allows user to edit code'',
     ''        * Commands - accessed by pressing ESC. - Allows user to enter commands'',
     ''        Commands: '',
     ''        * run   | r - run current code'',
     ''        * help  | h - display help'',
     ''        * new   | n - clear inputted code'',
     ''        * quit  | q - exit'',
     ''        Brainfuck commands: '',
     ''        * '' @ [CHR 0x27, CHR ''+'', CHR 0x27] @ '' - increase current cell value by one'',
     ''        * '' @ [CHR 0x27, CHR ''-'', CHR 0x27] @ '' - decrease current cell value by one'',
     ''        * '' @ [CHR 0x27, CHR ''>'', CHR 0x27] @ '' - move cell pointer right'',
     ''        * '' @ [CHR 0x27, CHR ''<'', CHR 0x27] @ '' - move cell pointer left'',
     ''        * '' @ [CHR 0x27, CHR ''['', CHR 0x27] @ '' - if current cell is 0, move to matching '' @
       [CHR 0x27, CHR '']'', CHR 0x27],
     ''        * '' @ [CHR 0x27, CHR '']'', CHR 0x27] @ '' - if current cell is NOT 0, move to matching '' @
       [CHR 0x27, CHR ''['', CHR 0x27],
     ''        * '' @ [CHR 0x27, CHR '','', CHR 0x27] @ '' - accept one byte of input'',
     ''        * '' @ [CHR 0x27, CHR '']'', CHR 0x27] @ '' - print value of current memory cell as ASII'',
     ''        There are 300 cells each storing value in range of 0 to 255 '',
     ''        Press ESC - to exit help'']"

text \<open>The whole array is printed, with its terminating NUL.\<close>

definition help_text :: "u8 list" where
  "help_text = concat (map (\<lambda>l. map chr l @ [10]) help_lines) @ map chr ''        '' @ [0]"

definition display_help :: "os_effect \<Rightarrow> AppState \<Rightarrow> AppState" where
  "display_help os app = sys os (Sys_print help_text) (sys os Sys_clear app)"


subsection \<open>Editing\<close>

abbreviation (input) "KC_ESC \<equiv> 0x01 :: u8"
abbreviation (input) "KC_TAB \<equiv> 0x0F :: u8"
abbreviation (input) "KC_ENTER \<equiv> 0x1C :: u8"

text \<open>The attribute bytes \<open>((EC_Black << 4) | EC_White) << 8\<close>, with a blue background for the cursor,
  and green for the command line.\<close>

abbreviation (input) "white \<equiv> 0x0F00 :: u16"
abbreviation (input) "white_on_blue \<equiv> 0x1F00 :: u16"
abbreviation (input) "green \<equiv> 0x0200 :: u16"

definition set_attr :: "int \<Rightarrow> u16 \<Rightarrow> AppState \<Rightarrow> AppState" where
  "set_attr i attr app = put_cell_at i ((text_buffer app i AND 0x00FF) OR attr) app"

definition put_code :: "int \<Rightarrow> u8 \<Rightarrow> AppState \<Rightarrow> AppState" where
  "put_code i c app = app\<lparr>code_buffer := (code_buffer app)[nat i := c]\<rparr>"

text \<open>\<open>code_buffer[i] = code_buffer[j]; text_buffer[i] = text_buffer[j];\<close>\<close>

definition copy_code :: "int \<Rightarrow> int \<Rightarrow> AppState \<Rightarrow> AppState" where
  "copy_code i j app = put_cell_at i (text_buffer app j) (put_code i (code_buffer app ! nat j) app)"

definition editor_left :: "AppState \<Rightarrow> AppState" where
  "editor_left app =
     (let app1 = set_attr (code_text_offset app) white app;
          app2 = app1\<lparr>code_text_offset := max 0 (code_text_offset app1 - 1)\<rparr>
      in set_attr (code_text_offset app2) white_on_blue app2)"

text \<open>\<open>text & 0xFF00 == 0\<close> compares first, so its blank cell is never drawn.\<close>

definition editor_right :: "AppState \<Rightarrow> AppState" where
  "editor_right app =
     (let app1 = set_attr (code_text_offset app) white app;
          app2 = app1\<lparr>code_text_offset := min (code_len app1) (code_text_offset app1 + 1)\<rparr>;
          app3 = set_attr (code_text_offset app2) white_on_blue app2
      in if text_buffer app3 (code_text_offset app3) AND (if (0xFF00 :: u16) = 0 then 1 else 0) \<noteq> 0
         then put_cell_at (code_text_offset app3) (0x20 OR white_on_blue) app3
         else app3)"

definition editor_backspace :: "AppState \<Rightarrow> AppState" where
  "editor_backspace app =
     (if code_text_offset app \<ge> 0 \<and> code_len app > 0 then
        (let app1 = set_attr (code_text_offset app) white app;
             len = code_len app - 1;
             off = code_text_offset app - 1;
             app2 = app1\<lparr>code_len := len, code_text_offset := off\<rparr>;
             app3 = (if off < len then
                       fold (\<lambda>i. copy_code i (i + 1)) [off + 1..len - 1]
                         (put_cell_at len 0 (put_code len 0 app2))
                     else put_cell_at off 0 (put_code off 0 app2));
             app4 = app3\<lparr>code_text_offset := max 0 (code_text_offset app3)\<rparr>
         in set_attr (code_text_offset app4) white_on_blue app4)
      else app)"

definition editor_insert :: "u8 \<Rightarrow> AppState \<Rightarrow> AppState" where
  "editor_insert ch app =
     (if \<not> ((isalnum (uint ch) \<or> isvalidinput (uint ch) \<or> ch = chr CHR '' '') \<and> 0 \<le> code_len app \<and> code_len app < 512)
      then app
      else
        let off = code_text_offset app in
        if off = code_len app then
          (let app1 = put_cell_at off (white OR ucast ch) (put_code off ch app);
               app2 = app1\<lparr>code_text_offset := off + 1, code_len := code_len app + 1\<rparr>
           in put_cell_at (off + 1) (white OR ucast (chr CHR '' '')) app2)
        else
          (let app1 = fold (\<lambda>i. copy_code i (i - 1)) (rev [max 0 off + 1..code_len app]) app;
               app2 = app1\<lparr>code_len := code_len app + 1\<rparr>;
               app3 = put_cell_at off (white OR ucast ch) (put_code off ch app2)
           in app3\<lparr>code_text_offset := off + 1\<rparr>))"

definition of_shift :: "bool \<Rightarrow> u8" where
  "of_shift b = (if b then 1 else 0)"

definition editor_mode :: "Input_t \<Rightarrow> AppState \<Rightarrow> AppState" where
  "editor_mode input app =
     (let kc = keycode input in
      if kc = 0x4b then editor_left app
      else if kc = 0x4d then editor_right app
      else if kc = KC_BACKSPACE then editor_backspace app
      else if kc = KC_ESC then
        put_cell_at (command_text_start - 1) (green OR ucast (chr CHR '':'')) (app\<lparr>current_mode := EEM_Command\<rparr>)
      else editor_insert (keycode_to_ascii kc (of_shift (shift_state app))) app)"

subsection \<open>Commands\<close>

definition is_command :: "AppState \<Rightarrow> string \<Rightarrow> bool" where
  "is_command app word \<longleftrightarrow> strncmp_lib (view_of (command_buffer app)) (view_of (map chr word)) 50 = 0"

definition command_enter :: "os_effect \<Rightarrow> AppState \<Rightarrow> AppState" where
  "command_enter os app =
     (if is_command app ''quit'' \<or> is_command app ''q'' then app\<lparr>current_mode := EEM_Exit\<rparr>
      else if is_command app ''new'' \<or> is_command app ''n'' then
        app\<lparr>code_buffer := replicate 512 0,
            text_buffer := (\<lambda>i. if 0 \<le> i \<and> i < 4000 then 0 else text_buffer app i),
            command_buffer := replicate 50 0, command_display_offset := 0, code_text_offset := 0,
            command_text_offset := 0, current_mode := EEM_Editing\<rparr>
      else if is_command app ''help'' \<or> is_command app ''h'' then app\<lparr>current_mode := EEM_ViewingHelp\<rparr>
      else if is_command app ''run'' \<or> is_command app ''r'' then
        (prepare_for_exec os (app\<lparr>current_mode := EEM_Running\<rparr>))\<lparr>exec_data := init_exec_data 512\<rparr>
      else app)"

definition command_backspace :: "AppState \<Rightarrow> AppState" where
  "command_backspace app =
     (if command_text_offset app > 0 then
        (let app1 = app\<lparr>command_display_offset := command_display_offset app - 1,
                        command_text_offset := command_text_offset app - 1\<rparr>;
             app2 = app1\<lparr>command_buffer := (command_buffer app1)[nat (command_text_offset app1) := 0]\<rparr>
         in put_cell_at (command_text_start + uint (command_display_offset app2)) green app2)
      else app)"

definition command_insert :: "u8 \<Rightarrow> AppState \<Rightarrow> AppState" where
  "command_insert ch app =
     (if isalnum (uint ch) \<and> 0 \<le> command_text_offset app \<and> command_text_offset app < 50 then
        (let app1 = app\<lparr>command_buffer := (command_buffer app)[nat (command_text_offset app) := ch]\<rparr>;
             app2 = put_cell_at (command_text_start + uint (command_display_offset app1)) (green OR ucast ch) app1
         in app2\<lparr>command_display_offset := command_display_offset app2 + 1,
                 command_text_offset := command_text_offset app2 + 1\<rparr>)
      else app)"

definition command_mode :: "os_effect \<Rightarrow> Input_t \<Rightarrow> AppState \<Rightarrow> AppState" where
  "command_mode os input app =
     (let kc = keycode input in
      if kc = KC_ENTER then command_enter os app
      else if kc = KC_BACKSPACE then command_backspace app
      else if kc = KC_TAB then put_cell_at (command_text_start - 1) green (app\<lparr>current_mode := EEM_Editing\<rparr>)
      else command_insert (keycode_to_ascii kc (of_shift (shift_pressed input))) app)"

subsection \<open>Running\<close>

definition finish_run :: "string \<Rightarrow> u8 \<Rightarrow> AppState \<Rightarrow> AppState" where
  "finish_run txt color app =
     (write_text_to_status_bar (map chr txt) color command_text_start app)\<lparr>current_mode := EEM_RunningFinished\<rparr>"

definition run_mode :: "os_effect \<Rightarrow> bool \<Rightarrow> Input_t \<Rightarrow> AppState \<Rightarrow> AppState" where
  "run_mode os has_input input app =
     (if current_mode app \<noteq> EEM_Running \<and> current_mode app \<noteq> EEM_RunningWaitingForInput then app
      else if has_input \<and> keycode input = KC_ESC then
        finish_run ''Execution interrupted! TAB to edit code'' 0xE0 app
      else
        (case step_code (code_view app) (Some (exec_data app)) has_input
                (keycode_to_ascii (keycode input) (of_shift (shift_pressed input))) of
           (data, res, printed) \<Rightarrow>
             let app1 = (case data of Some d \<Rightarrow> app\<lparr>exec_data := d\<rparr> | None \<Rightarrow> app);
                 app2 = (if printed = [] then app1 else sys os (Sys_print printed) app1)
             in (case res of
                   ECRR_Unfinished \<Rightarrow> app2\<lparr>current_mode := EEM_Running\<rparr>
                 | ECRR_ExpectInput \<Rightarrow> app2\<lparr>current_mode := EEM_RunningWaitingForInput\<rparr>
                 | ECRR_Success \<Rightarrow> finish_run ''Finished! TAB to edit code'' 0x2F app2
                 | ECRR_MemoryOutOfBounds \<Rightarrow> finish_run ''Pointer out of bounds! TAB to edit code'' 0x4F app2
                 | ECRR_UnmatchedPair \<Rightarrow> finish_run ''Unmatched brackets! TAB to edit code'' 0x4F app2
                 | ECRR_Invalid \<Rightarrow> finish_run ''Invalid app situation occurred! PANIC! TAB to edit code'' 0xE0 app2
                 | ECRR_ForcedExit \<Rightarrow> app2)))"

definition help_mode :: "os_effect \<Rightarrow> Input_t \<Rightarrow> AppState \<Rightarrow> AppState" where
  "help_mode os input app =
     (let app1 = display_help os app in
      if keycode input = KC_ESC then
        put_cell_at (command_text_start - 1) (green OR ucast (chr CHR '':''))
          (reset_display os (app1\<lparr>current_mode := EEM_Command\<rparr>))
      else app1)"

subsection \<open>The main loop\<close>

text \<open>One iteration of the loop of \<open>main\<close>. The event is what \<open>read_file\<close> delivers; \<open>None\<close> is a read of
  nothing, on which only a running program goes on: every other mode is still in its inner loop. The
  variable \<open>input\<close> is not initialised then: its value is \<open>junk\<close>.\<close>

definition main_iteration :: "os_effect \<Rightarrow> Input_t \<Rightarrow> KeyboardEvent option \<Rightarrow> AppState \<Rightarrow> AppState" where
  "main_iteration os junk event app =
     (if current_mode app = EEM_Running then
        (case event of
           None \<Rightarrow> run_mode os False junk app
         | Some e \<Rightarrow> run_mode os (ev_type e = KEY_PRESSED)
             \<lparr>keycode = scancode_to_keycode (ucast (ev_scancode e)), shift_pressed = shift_state app\<rparr> app)
      else case event of None \<Rightarrow> app | Some e \<Rightarrow>
        (let app1 = (if current_mode app = EEM_ViewingHelp then display_help os app else app);
             code = scancode_to_keycode (ucast (ev_scancode e));
             app2 = (if code = KC_LEFT_SHIFT \<or> code = KC_RIGHT_SHIFT
                     then app1\<lparr>shift_state := (ev_type e = KEY_PRESSED)\<rparr> else app1);
             input = \<lparr>keycode = code, shift_pressed = shift_state app2\<rparr>
         in if ev_type e = KEY_RELEASED then app2
            else (case current_mode app2 of
                EEM_ViewingHelp \<Rightarrow> help_mode os input app2
              | EEM_RunningFinished \<Rightarrow>
                  (if code = KC_TAB then reset_display os (app2\<lparr>current_mode := EEM_Editing\<rparr>) else app2)
              | EEM_RunningWaitingForInput \<Rightarrow> run_mode os True input app2
              | EEM_Editing \<Rightarrow> editor_mode input app2
              | EEM_Command \<Rightarrow> command_mode os input app2
              | _ \<Rightarrow> app2)))"

text \<open>The application before its loop, and the loop on the reads that follow; \<open>None\<close> when they are used
  up before the application exits.\<close>

definition main_init :: "os_effect \<Rightarrow> screen \<Rightarrow> CodeExecutionData \<Rightarrow> AppState" where
  "main_init os scr junk_exec =
     put_cell_at (command_text_start - 1) (green OR ucast (chr CHR '':'')) (sys os Sys_clear
       \<lparr>current_mode = EEM_Command, code_buffer = replicate 512 0, command_buffer = replicate 50 0,
        text_buffer = scr, code_len = 0, code_text_offset = 0, command_text_offset = 0,
        window_width = 80, window_height = 25, cursor_pos = 0, prev_cursor_pos = 0,
        command_display_offset = 0, shift_state = False, exec_data = junk_exec, calls = []\<rparr>)"

fun main_loop :: "os_effect \<Rightarrow> Input_t \<Rightarrow> KeyboardEvent option list \<Rightarrow> AppState \<Rightarrow> AppState option" where
  "main_loop os junk events app =
     (if current_mode app = EEM_Exit then Some app
      else case events of [] \<Rightarrow> None
      | event # events' \<Rightarrow> main_loop os junk events' (main_iteration os junk event app))"

section \<open>Programs\<close>

datatype bf = Plus | Minus | Rght | Lft | Print | Read | Nop u8 | Loop "bf list"

lemma chr_bf [simp]:
  "chr CHR ''+'' = 43" "chr CHR ''-'' = 45" "chr CHR ''>'' = 62" "chr CHR ''<'' = 60"
  "chr CHR ''.'' = 46" "chr CHR '','' = 44" "chr CHR ''['' = 91" "chr CHR '']'' = 93"
  by (simp_all add: chr_def of_char_def)

fun bf_text :: "bf list \<Rightarrow> u8 list" where
  "bf_text [] = []"
| "bf_text (Plus # p) = chr CHR ''+'' # bf_text p"
| "bf_text (Minus # p) = chr CHR ''-'' # bf_text p"
| "bf_text (Rght # p) = chr CHR ''>'' # bf_text p"
| "bf_text (Lft # p) = chr CHR ''<'' # bf_text p"
| "bf_text (Print # p) = chr CHR ''.'' # bf_text p"
| "bf_text (Read # p) = chr CHR '','' # bf_text p"
| "bf_text (Nop c # p) = c # bf_text p"
| "bf_text (Loop b # p) = chr CHR ''['' # bf_text b @ chr CHR '']'' # bf_text p"

definition bf_chars :: "u8 list" where
  "bf_chars = map chr ''+-><.,[]''"

fun bf_wf :: "bf list \<Rightarrow> bool" where
  "bf_wf [] = True"
| "bf_wf (Nop c # p) = (c \<notin> set bf_chars \<and> 0 \<le> schar c \<and> bf_wf p)"
| "bf_wf (Loop b # p) = (bf_wf b \<and> bf_wf p)"
| "bf_wf (_ # p) = bf_wf p"

text \<open>The language on 300 cells: cells, position, input, output.\<close>

type_synonym bf_state = "u8 list \<times> nat \<times> u8 list \<times> u8 list"

inductive bf_exec :: "bf list \<Rightarrow> bf_state \<Rightarrow> bf_state \<Rightarrow> bool" where
  stop: "bf_exec [] s s"
| plus: "bf_exec p (cells[pos := cells ! pos + 1], pos, inp, out) s' \<Longrightarrow>
    bf_exec (Plus # p) (cells, pos, inp, out) s'"
| minus: "bf_exec p (cells[pos := cells ! pos - 1], pos, inp, out) s' \<Longrightarrow>
    bf_exec (Minus # p) (cells, pos, inp, out) s'"
| right: "Suc pos < 300 \<Longrightarrow> bf_exec p (cells, Suc pos, inp, out) s' \<Longrightarrow>
    bf_exec (Rght # p) (cells, pos, inp, out) s'"
| left: "bf_exec p (cells, pos, inp, out) s' \<Longrightarrow> bf_exec (Lft # p) (cells, Suc pos, inp, out) s'"
| print: "bf_exec p (cells, pos, inp, out @ [cells ! pos]) s' \<Longrightarrow>
    bf_exec (Print # p) (cells, pos, inp, out) s'"
| read: "bf_exec p (cells[pos := x], pos, inp, out) s' \<Longrightarrow>
    bf_exec (Read # p) (cells, pos, x # inp, out) s'"
| nop: "bf_exec p s s' \<Longrightarrow> bf_exec (Nop c # p) s s'"
| exit: "cells ! pos = 0 \<Longrightarrow> bf_exec p (cells, pos, inp, out) s' \<Longrightarrow>
    bf_exec (Loop b # p) (cells, pos, inp, out) s'"
| iterate: "cells ! pos \<noteq> 0 \<Longrightarrow> bf_exec b (cells, pos, inp, out) s1 \<Longrightarrow> bf_exec (Loop b # p) s1 s' \<Longrightarrow>
    bf_exec (Loop b # p) (cells, pos, inp, out) s'"

section \<open>Matching brackets\<close>

definition code_at :: "(int \<Rightarrow> u8) \<Rightarrow> int \<Rightarrow> u8 list \<Rightarrow> bool" where
  "code_at code off bs \<longleftrightarrow> (\<forall>i < length bs. code (off + int i) = bs ! i)"

lemma code_at_Nil [simp]: "code_at code off []"
  by (simp add: code_at_def)

lemma code_at_Cons [simp]:
  "code_at code off (b # bs) \<longleftrightarrow> code off = b \<and> code_at code (off + 1) bs"
proof -
  have "(\<forall>i < Suc (length bs). code (off + int i) = (b # bs) ! i) \<longleftrightarrow>
      code off = b \<and> (\<forall>i < length bs. code (off + int (Suc i)) = bs ! i)"
    by (simp add: All_less_Suc2)
  then show ?thesis by (simp add: code_at_def add.assoc)
qed

lemma code_at_append [simp]:
  "code_at code off (bs @ cs) \<longleftrightarrow> code_at code off bs \<and> code_at code (off + int (length bs)) cs"
  by (induction bs arbitrary: off) (auto simp: add.assoc add.commute)

lemma schar_bf [simp]: "schar 43 = 43" "schar 45 = 45" "schar 62 = 62" "schar 60 = 60" "schar 46 = 46"
  "schar 44 = 44" "schar 91 = 91" "schar 93 = 93"
  by (simp_all add: schar_def)

lemma schar_less: "schar c < 128"
  using sint_less [of c] by (simp add: schar_def)

lemma bf_chars_set [simp]: "set bf_chars = {43, 45, 62, 60, 46, 44, 91, 93}"
  by (simp add: bf_chars_def)

lemma scan_forward_char:
  assumes "scan_forward code n (off + 1) c = scan_forward code n (off + 1 + l) c"
    and "code off \<noteq> 91" "code off \<noteq> 93" "off < n" "128 \<le> n"
  shows "scan_forward code n off c = scan_forward code n (off + (1 + l)) c"
  using assms schar_less [of "code off"] by (simp add: scan_forward.simps [of code n off] add.assoc)

lemma scan_forward_over:
  "bf_wf p \<Longrightarrow> code_at code off (bf_text p) \<Longrightarrow> off + int (length (bf_text p)) \<le> n \<Longrightarrow> 128 \<le> n \<Longrightarrow> 0 \<le> c \<Longrightarrow>
   scan_forward code n off c = scan_forward code n (off + int (length (bf_text p))) c"
proof (induction p arbitrary: off c rule: bf_text.induct)
  case (9 b p)
  let ?k = "off + 1 + int (length (bf_text b))"
  have "scan_forward code n off c = scan_forward code n (off + 1) (c + 1)"
    using 9 by (subst scan_forward.simps) simp
  also have "\<dots> = scan_forward code n ?k (c + 1)" using 9 by (intro "9.IH"(1)) auto
  also have "\<dots> = scan_forward code n (?k + 1) c" using 9 by (subst scan_forward.simps) (simp add: add.assoc)
  also have "\<dots> = scan_forward code n (?k + 1 + int (length (bf_text p))) c"
    using 9 by (intro "9.IH"(2)) (auto simp: add.assoc)
  finally show ?case by (simp add: algebra_simps)
qed (auto intro!: scan_forward_char)

lemma scan_backward_char:
  assumes "scan_backward code (a + 1 + l) c = scan_backward code (a + 1) c"
    and "code (a + 1) \<noteq> 91" "code (a + 1) \<noteq> 93" "0 \<le> schar (code (a + 1))" "0 \<le> a + 1"
  shows "scan_backward code (a + (1 + l)) c = scan_backward code a c"
  using assms by (simp add: scan_backward.simps [of code "a + 1"] add.assoc)

lemma scan_backward_over:
  "bf_wf p \<Longrightarrow> code_at code (a + 1) (bf_text p) \<Longrightarrow> 0 \<le> a + 1 \<Longrightarrow> 0 \<le> c \<Longrightarrow>
   scan_backward code (a + int (length (bf_text p))) c = scan_backward code a c"
proof (induction p arbitrary: a c rule: bf_text.induct)
  case (9 b p)
  let ?k = "a + 1 + int (length (bf_text b))"
  have "scan_backward code (?k + 1 + int (length (bf_text p))) c = scan_backward code (?k + 1) c"
    using 9 by (intro "9.IH"(2)) (auto simp: algebra_simps)
  also have "\<dots> = scan_backward code ?k (c + 1)"
    using 9 by (subst scan_backward.simps) (simp add: algebra_simps)
  also have "\<dots> = scan_backward code (a + 1) (c + 1)" using 9 by (intro "9.IH"(1)) auto
  also have "\<dots> = scan_backward code a c" using 9 by (subst scan_backward.simps) simp
  finally show ?case by (simp add: algebra_simps)
qed (auto intro!: scan_backward_char)


section \<open>Simulation\<close>

abbreviation xd :: "u8 list \<Rightarrow> nat \<Rightarrow> int \<Rightarrow> CodeExecutionData" where
  "xd cells pos off \<equiv> \<lparr>memory = cells, mem_pos = of_nat pos, exec_code_len = 512, current_code_offset = off\<rparr>"

lemma pos_word:
  assumes "pos < 300"
  shows "unat (of_nat pos :: u32) = pos" "(of_nat pos :: u32) < 300" "\<not> 300 < (of_nat pos :: u32)"
  using assms by (simp_all add: unat_of_nat_u32 word_less_nat_alt)

lemma cell_xd:
  assumes "pos < 300"
  shows "cell (xd cells pos off) = cells ! pos" "set_cell v (xd cells pos off) = xd (cells[pos := v]) pos off"
  using pos_word [OF assms] by (simp_all add: cell_def set_cell_def)

definition at_code :: "AppState \<Rightarrow> int \<Rightarrow> u8 list \<Rightarrow> nat \<Rightarrow> bool" where
  "at_code app off cells pos \<longleftrightarrow> current_mode app = EEM_Running \<and> exec_data app = xd cells pos off \<and>
     length cells = 300 \<and> pos < 300"

definition printed :: "syscall list \<Rightarrow> u8 list" where
  "printed cs = concat (map (\<lambda>c. case c of Sys_print bs \<Rightarrow> bs | _ \<Rightarrow> []) cs)"

lemma printed_simps [simp]: "printed [] = []" "printed (cs @ ds) = printed cs @ printed ds"
  "printed [Sys_print bs] = bs"
  by (simp_all add: printed_def)

text \<open>A key that is typed while the program waits, and the byte it delivers.\<close>

definition plain_key :: "KeyboardEvent \<Rightarrow> bool" where
  "plain_key e \<longleftrightarrow> ev_type e = KEY_PRESSED \<and>
     scancode_to_keycode (ucast (ev_scancode e)) \<notin> {KC_ESC, KC_LEFT_SHIFT, KC_RIGHT_SHIFT}"

definition typed :: "bool \<Rightarrow> KeyboardEvent \<Rightarrow> u8" where
  "typed shift e = keycode_to_ascii (scancode_to_keycode (ucast (ev_scancode e))) (of_shift shift)"

definition reaches ::
  "os_effect \<Rightarrow> Input_t \<Rightarrow> AppState \<Rightarrow> KeyboardEvent list \<Rightarrow> KeyboardEvent option list \<Rightarrow> AppState \<Rightarrow>
   KeyboardEvent list \<Rightarrow> u8 list \<Rightarrow> bool" where
  "reaches os junk app evs reads app' evs' bs \<longleftrightarrow>
     fold (main_iteration os junk) reads app = app' \<and> code_view app' = code_view app \<and>
     shift_state app' = shift_state app \<and> printed (calls app') = printed (calls app) @ bs \<and>
     evs = List.map_filter id reads @ evs'"

lemma map_filter_simps [simp]: "List.map_filter id [] = []" "List.map_filter id (None # r) = List.map_filter id r"
  "List.map_filter id (Some e # r) = e # List.map_filter id r"
  "List.map_filter id (r1 @ r2) = List.map_filter id r1 @ List.map_filter id r2"
  by (simp_all add: List.map_filter_def)

lemma reaches_refl [simp]: "reaches os junk app evs [] app evs []"
  by (simp add: reaches_def)

lemma reaches_trans:
  "reaches os junk app evs r1 app1 evs1 b1 \<Longrightarrow> reaches os junk app1 evs1 r2 app2 evs2 b2 \<Longrightarrow>
   reaches os junk app evs (r1 @ r2) app2 evs2 (b1 @ b2)"
  by (auto simp: reaches_def)

lemma code_view_cong: "code_buffer app' = code_buffer app \<Longrightarrow> command_buffer app' = command_buffer app \<Longrightarrow>
   code_view app' = code_view app"
  by (simp add: code_view_def fun_eq_iff)

lemma sim_step:
  assumes at: "at_code app off cells pos"
    and step: "\<And>v. step_data (code_view app) (xd cells pos off) False v = (xd cells' pos' off', ECRR_Unfinished, bs)"
    and wf: "length cells' = 300" "pos' < 300"
  shows "reaches os junk app evs [None] (main_iteration os junk None app) evs bs"
    and "at_code (main_iteration os junk None app) off' cells' pos'"
proof -
  have "main_iteration os junk None app = (if bs = [] then app\<lparr>exec_data := xd cells' pos' off'\<rparr>
      else sys os (Sys_print bs) (app\<lparr>exec_data := xd cells' pos' off'\<rparr>))"
    using at by (simp add: main_iteration_def run_mode_def at_code_def step sys_def)
  then show "reaches os junk app evs [None] (main_iteration os junk None app) evs bs"
    and "at_code (main_iteration os junk None app) off' cells' pos'"
    using at wf by (auto simp: reaches_def at_code_def sys_def intro: code_view_cong)
qed

text \<open>Waiting for input takes an iteration that reads nothing, and one that reads the key.\<close>

lemma sim_read:
  assumes at: "at_code app off cells pos" and off: "0 \<le> off" "off < 512" and code: "code_view app off = 44"
    and e: "plain_key e"
  shows "\<exists>app'. reaches os junk app (e # evs) [None, Some e] app' evs [] \<and>
    at_code app' (off + 1) (cells[pos := typed (shift_state app) e]) pos"
proof -
  from at have pos: "pos < 300" by (simp add: at_code_def)
  let ?w = "app\<lparr>current_mode := EEM_RunningWaitingForInput\<rparr>"
  have cv: "code_view ?w = code_view app" by (intro code_view_cong) auto
  have "main_iteration os junk None app = ?w"
    using at off code pos
    by (simp add: main_iteration_def run_mode_def at_code_def step_data_def exec_char_def pos_word)
  moreover have "main_iteration os junk (Some e) ?w =
      app\<lparr>exec_data := xd (cells[pos := typed (shift_state app) e]) pos (off + 1)\<rparr>"
    using at off code e pos
    by (simp add: main_iteration_def run_mode_def at_code_def cv plain_key_def step_data_def exec_char_def pos_word
        cell_xd typed_def Let_def)
  ultimately show ?thesis
    using at pos by (auto simp: reaches_def at_code_def intro!: code_view_cong)
qed


text \<open>The simulation: what is reached from a state at the text of \<open>p\<close>.\<close>

definition simulated ::
  "os_effect \<Rightarrow> Input_t \<Rightarrow> bf list \<Rightarrow> bf_state \<Rightarrow> bf_state \<Rightarrow> AppState \<Rightarrow> int \<Rightarrow> KeyboardEvent list \<Rightarrow> bool" where
  "simulated os junk p s s' app off evs \<longleftrightarrow>
     (case (s, s') of ((cells, pos, inp, out), (cells', pos', inp', out')) \<Rightarrow>
       at_code app off cells pos \<longrightarrow> code_at (code_view app) off (bf_text p) \<longrightarrow>
       0 \<le> off \<longrightarrow> off + int (length (bf_text p)) \<le> 512 \<longrightarrow> inp = map (typed (shift_state app)) evs \<longrightarrow>
       (\<forall>e\<in>set evs. plain_key e) \<longrightarrow>
       (\<exists>reads app' evs' bs. reaches os junk app evs reads app' evs' bs \<and>
          at_code app' (off + int (length (bf_text p))) cells' pos' \<and>
          inp' = map (typed (shift_state app)) evs' \<and> out' = out @ bs \<and>
          (p \<noteq> [] \<longrightarrow> (\<exists>r. reads = None # r))))"

lemmas step_simps = step_data_def exec_char_def at_code_def pos_word cell_xd

lemma step_nop: "c \<notin> set bf_chars \<Longrightarrow> at_code app off cells pos \<Longrightarrow> 0 \<le> off \<Longrightarrow> off < 512 \<Longrightarrow> code_view app off = c \<Longrightarrow>
  step_data (code_view app) (xd cells pos off) False v = (xd cells pos (off + 1), ECRR_Unfinished, [])"
  by (auto simp: step_simps)

text \<open>The brackets: past a loop whose cell is 0, and back to its start from its end.\<close>

lemma step_open_zero:
  assumes "bf_wf b" "at_code app off cells pos" "0 \<le> off" "off + int (length (bf_text b)) + 1 < 512"
    and "code_at (code_view app) off (91 # bf_text b @ [93])" and "cells ! pos = 0"
  shows "step_data (code_view app) (xd cells pos off) False v =
    (xd cells pos (off + int (length (bf_text b)) + 2), ECRR_Unfinished, [])"
proof -
  have "scan_forward (code_view app) 512 (off + 1) 0 =
      scan_forward (code_view app) 512 (off + 1 + int (length (bf_text b))) 0"
    using assms by (intro scan_forward_over) auto
  also have "\<dots> = (off + 1 + int (length (bf_text b)), False)"
    using assms by (subst scan_forward.simps) (simp add: add.assoc)
  finally show ?thesis using assms by (simp add: step_simps)
qed

lemma step_open_nonzero:
  assumes "at_code app off cells pos" "0 \<le> off" "off < 512" "code_view app off = 91" "cells ! pos \<noteq> 0"
  shows "step_data (code_view app) (xd cells pos off) False v = (xd cells pos (off + 1), ECRR_Unfinished, [])"
  using assms by (simp add: step_simps)

lemma step_close:
  assumes "bf_wf b" "at_code app k cells pos" "0 \<le> off" "k = off + int (length (bf_text b)) + 1" "k < 512"
    and "code_at (code_view app) off (91 # bf_text b @ [93])"
  shows "step_data (code_view app) (xd cells pos k) False v =
    (xd cells pos (if cells ! pos = 0 then k + 1 else off + 1), ECRR_Unfinished, [])"
proof -
  have "scan_backward (code_view app) (k - 1) 0 = scan_backward (code_view app) off 0"
    using scan_backward_over [of b "code_view app" off 0] assms by simp
  also have "\<dots> = (off, False)" using assms by (subst scan_backward.simps) simp
  finally have sc: "scan_backward (code_view app) (k - 1) 0 = (off, False)" .
  have k: "code_view app k = 93" "\<not> k < 0" using assms by (auto simp: algebra_simps)
  have "pos < 300" using assms by (simp add: at_code_def)
  then show ?thesis using k sc \<open>k < 512\<close> by (simp add: step_data_def exec_char_def Let_def pos_word cell_xd)
qed

lemma simulatedD:
  assumes "simulated os junk p (cells, pos, inp, out) (cells', pos', inp', out') app off evs"
    and "at_code app off cells pos" "code_at (code_view app) off (bf_text p)" "0 \<le> off"
    "off + int (length (bf_text p)) \<le> 512" "shift_state app = sh" "inp = map (typed sh) evs" "\<forall>e\<in>set evs. plain_key e"
  shows "\<exists>reads app' evs' bs. reaches os junk app evs reads app' evs' bs \<and>
    at_code app' (off + int (length (bf_text p))) cells' pos' \<and> inp' = map (typed sh) evs' \<and>
    out' = out @ bs \<and> (p \<noteq> [] \<longrightarrow> (\<exists>r. reads = None # r))"
  using assms unfolding simulated_def prod.case by blast

lemma simulatedI:
  assumes "\<And>cells pos inp out cells' pos' inp' out'. s = (cells, pos, inp, out) \<Longrightarrow> s' = (cells', pos', inp', out') \<Longrightarrow>
      at_code app off cells pos \<Longrightarrow> code_at (code_view app) off (bf_text p) \<Longrightarrow> 0 \<le> off \<Longrightarrow>
      off + int (length (bf_text p)) \<le> 512 \<Longrightarrow> inp = map (typed (shift_state app)) evs \<Longrightarrow>
      \<forall>e\<in>set evs. plain_key e \<Longrightarrow>
      \<exists>reads app' evs' bs. reaches os junk app evs reads app' evs' bs \<and>
          at_code app' (off + int (length (bf_text p))) cells' pos' \<and>
          inp' = map (typed (shift_state app)) evs' \<and> out' = out @ bs \<and>
          (p \<noteq> [] \<longrightarrow> (\<exists>r. reads = None # r))"
  shows "simulated os junk p s s' app off evs"
  using assms by (cases s; cases s') (simp add: simulated_def)

lemma simulated_step:
  assumes IH: "\<And>app off evs. simulated os junk p (cells', pos', inp, out @ bs) s' app off evs"
    and tx: "bf_text q = cs @ bf_text p" "cs \<noteq> []"
    and step: "\<And>app off v. at_code app off cells pos \<Longrightarrow> 0 \<le> off \<Longrightarrow> off + int (length cs) \<le> 512 \<Longrightarrow>
      code_at (code_view app) off cs \<Longrightarrow>
      step_data (code_view app) (xd cells pos off) False v =
        (xd cells' pos' (off + int (length cs)), ECRR_Unfinished, bs) \<and> length cells' = 300 \<and> pos' < 300"
  shows "simulated os junk q (cells, pos, inp, out) s' app off evs"
proof (rule simulatedI, goal_cases)
  case (1 c0 pos0 inp0 out0 cells2 pos2 inp2 out2)
  let ?a = "main_iteration os junk None app" and ?l = "int (length cs)"
  from 1 tx have at: "at_code app off cells pos" and off: "0 \<le> off" "off + ?l \<le> 512" "off + ?l + int (length (bf_text p)) \<le> 512"
    and code: "code_at (code_view app) off cs" "code_at (code_view app) (off + ?l) (bf_text p)" by auto
  note st = step [OF at off(1,2) code(1)]
  have r1: "reaches os junk app evs [None] ?a evs bs" and a1: "at_code ?a (off + ?l) cells' pos'"
    using sim_step [OF at, of cells' pos' "off + ?l" bs] st by blast+
  from r1 have fr: "code_view ?a = code_view app" "shift_state ?a = shift_state app" by (auto simp: reaches_def)
  have "code_at (code_view ?a) (off + ?l) (bf_text p)" "0 \<le> off + ?l" "inp = map (typed (shift_state app)) evs"
    using fr code off 1 by auto
  from simulatedD [OF IH [unfolded 1(2)] a1 this(1,2) off(3) fr(2) this(3) 1(8)] obtain reads app' evs' bs' where
    r2: "reaches os junk ?a evs reads app' evs' bs'" and
    *: "at_code app' (off + ?l + int (length (bf_text p))) cells2 pos2"
      "inp2 = map (typed (shift_state app)) evs'" "out2 = (out @ bs) @ bs'" by blast
  show ?case using reaches_trans [OF r1 r2] * tx 1
    by (intro exI [of _ "[None] @ reads"] exI [of _ app'] exI [of _ evs'] exI [of _ "bs @ bs'"]) (simp add: add.assoc)
qed

lemma simulated_read:
  assumes IH: "\<And>app off evs. simulated os junk p (cells[pos := x], pos, inp, out) s' app off evs"
  shows "simulated os junk (Read # p) (cells, pos, x # inp, out) s' app off evs"
proof (rule simulatedI, goal_cases)
  case (1 c0 pos0 inp0 out0 cells2 pos2 inp2 out2)
  then have at: "at_code app off cells pos" and code: "code_view app off = 44" "code_at (code_view app) (off + 1) (bf_text p)"
    and off: "0 \<le> off" "off < 512" "off + 1 + int (length (bf_text p)) \<le> 512"
    and inp: "x # inp = map (typed (shift_state app)) evs" and evs: "\<forall>e\<in>set evs. plain_key e" by auto
  from inp obtain e es where e: "evs = e # es" "x = typed (shift_state app) e" "inp = map (typed (shift_state app)) es"
    by (cases evs) auto
  from sim_read [OF at off(1,2) code(1), of e os junk es] evs e obtain a where
    r1: "reaches os junk app evs [None, Some e] a es []" and at1: "at_code a (off + 1) (cells[pos := x]) pos" by auto
  from r1 have fr: "code_view a = code_view app" "shift_state a = shift_state app" by (auto simp: reaches_def)
  have sim: "simulated os junk p (cells[pos := x], pos, inp, out) (cells2, pos2, inp2, out2) a (off + 1) es"
    using IH 1 by simp
  have "code_at (code_view a) (off + 1) (bf_text p)" "0 \<le> off + 1" "\<forall>e\<in>set es. plain_key e" using fr code off e evs by auto
  from simulatedD [OF sim at1 this(1,2) off(3) fr(2) e(3) this(3)] obtain reads app' evs' bs where
    r2: "reaches os junk a es reads app' evs' bs" "at_code app' (off + 1 + int (length (bf_text p))) cells2 pos2"
    "inp2 = map (typed (shift_state app)) evs'" "out2 = out @ bs" by blast
  then show ?case using reaches_trans [OF r1 r2(1)] fr 1
    by (intro exI [of _ "[None, Some e] @ reads"] exI [of _ app'] exI [of _ evs'] exI [of _ bs]) (simp add: add.assoc)
qed

text \<open>A further round of a loop is reached from its closing bracket as from its opening bracket: the
  first iteration is the same.\<close>

lemma simulated_iterate:
  assumes wf: "bf_wf b" and nz: "cells ! pos \<noteq> 0"
    and body: "\<And>app off evs. simulated os junk b (cells, pos, inp, out) s1 app off evs"
    and loop: "\<And>app off evs. simulated os junk (Loop b # p) s1 s' app off evs"
  shows "simulated os junk (Loop b # p) (cells, pos, inp, out) s' app off evs"
proof (rule simulatedI, goal_cases)
  case (1 c0 pos0 inp0 out0 cells2 pos2 inp2 out2)
  let ?k = "off + 1 + int (length (bf_text b))"
  from 1 have at: "at_code app off cells pos" and off: "0 \<le> off" "?k < 512" "off < 512"
    and code: "code_at (code_view app) off (91 # bf_text b @ [93])" "code_view app off = 91"
    and inp: "inp = map (typed (shift_state app)) evs" and evs: "\<forall>e\<in>set evs. plain_key e"
    by (auto simp: algebra_simps)
  have wf1: "length cells = 300" "pos < 300" using at by (auto simp: at_code_def)
  let ?a = "main_iteration os junk None app"
  have r1: "reaches os junk app evs [None] ?a evs []" and a1: "at_code ?a (off + 1) cells pos"
    using sim_step [OF at step_open_nonzero [OF at off(1,3) code(2) nz] wf1] by blast+
  from r1 have fr1: "code_view ?a = code_view app" "shift_state ?a = shift_state app" by (auto simp: reaches_def)
  obtain cells1 pos1 inp1 out1 where s1: "s1 = (cells1, pos1, inp1, out1)" by (cases s1) auto
  have "code_at (code_view ?a) (off + 1) (bf_text b)" "0 \<le> off + 1" "off + 1 + int (length (bf_text b)) \<le> 512"
    using fr1 code off by auto
  from simulatedD [OF body [unfolded s1] a1 this fr1(2) inp evs] obtain reads2 app2 evs2 bs2 where
    r2: "reaches os junk ?a evs reads2 app2 evs2 bs2"
    and a2: "at_code app2 ?k cells1 pos1" and i2: "inp1 = map (typed (shift_state app)) evs2" "out1 = out @ bs2" by blast
  from r2 fr1 have fr2: "code_view app2 = code_view app" "shift_state app2 = shift_state app" by (auto simp: reaches_def)
  have evs2: "\<forall>e\<in>set evs2. plain_key e" using r2 evs by (auto simp: reaches_def)
  let ?o = "app2\<lparr>exec_data := xd cells1 pos1 off\<rparr>"
  have "code_view ?o = code_view app2" by (intro code_view_cong) auto
  with fr2 have frO: "code_view ?o = code_view app" by simp
  have atO: "at_code ?o off cells1 pos1" using a2 by (auto simp: at_code_def)
  have "code_at (code_view ?o) off (bf_text (Loop b # p))" "shift_state ?o = shift_state app" using 1 frO fr2 by simp_all
  from simulatedD [OF loop [unfolded s1 1(2)] atO this(1) off(1) 1(6) this(2) i2(1) evs2] obtain reads3 app3 evs3 bs3 where
    r3: "reaches os junk ?o evs2 (None # reads3) app3 evs3 bs3"
    and a3: "at_code app3 (off + int (length (bf_text (Loop b # p)))) cells2 pos2"
      "inp2 = map (typed (shift_state app)) evs3" "out2 = out1 @ bs3" by blast
  have eq: "main_iteration os junk None app2 = main_iteration os junk None ?o"
  proof -
    have cl: "step_data (code_view app2) (xd cells1 pos1 ?k) False v =
        (xd cells1 pos1 (if cells1 ! pos1 = 0 then ?k + 1 else off + 1), ECRR_Unfinished, [])" for v
      using step_close [OF wf a2 off(1) _ off(2)] code fr2 by simp
    have op: "step_data (code_view ?o) (xd cells1 pos1 off) False v =
        (xd cells1 pos1 (if cells1 ! pos1 = 0 then ?k + 1 else off + 1), ECRR_Unfinished, [])" for v
      using step_open_zero [OF wf atO off(1) _ _] step_open_nonzero [OF atO off(1,3)] off code frO by auto
    show ?thesis using a2 by (simp add: main_iteration_def run_mode_def at_code_def cl op)
  qed
  have r3': "reaches os junk app2 evs2 (None # reads3) app3 evs3 bs3"
    using r3 eq frO fr2 by (auto simp: reaches_def)
  show ?case using reaches_trans [OF reaches_trans [OF r1 r2] r3'] a3 i2 1
    by (intro exI [of _ "([None] @ reads2) @ None # reads3"] exI [of _ app3] exI [of _ evs3] exI [of _ "bs2 @ bs3"]) simp
qed


theorem bf_exec_simulated: "bf_exec p s s' \<Longrightarrow> bf_wf p \<Longrightarrow> simulated os junk p s s' app off evs"
proof (induction arbitrary: app off evs rule: bf_exec.induct)
  case (stop s)
  show ?case
    by (rule simulatedI) (fastforce intro: reaches_refl)
next
  case (plus p cells pos inp out s')
  show ?case
    by (rule simulated_step [where cells' = "cells[pos := cells ! pos + 1]" and pos' = pos and bs = "[]" and p = p and cs = "[43]"])
      (use plus in \<open>auto simp: step_simps\<close>)
next
  case (minus p cells pos inp out s')
  show ?case
    by (rule simulated_step [where cells' = "cells[pos := cells ! pos - 1]" and pos' = pos and bs = "[]" and p = p and cs = "[45]"])
      (use minus in \<open>auto simp: step_simps\<close>)
next
  case (right pos p cells inp out s')
  show ?case
    by (rule simulated_step [where cells' = cells and pos' = "Suc pos" and bs = "[]" and p = p and cs = "[62]"])
      (use right in \<open>auto simp: step_simps\<close>)
next
  case (left p cells pos inp out s')
  show ?case
    by (rule simulated_step [where cells' = cells and pos' = pos and bs = "[]" and p = p and cs = "[60]"])
      (use left in \<open>auto simp: step_simps pos_word [of "Suc pos", simplified]\<close>)
next
  case (print p cells pos inp out s')
  show ?case
    by (rule simulated_step [where cells' = cells and pos' = pos and bs = "[cells ! pos]" and p = p and cs = "[46]"])
      (use print in \<open>auto simp: step_simps\<close>)
next
  case (read p cells pos x inp out s')
  then show ?case by (intro simulated_read) auto
next
  case (nop p s s' c)
  obtain cells pos inp out where s: "s = (cells, pos, inp, out)" by (cases s) auto
  show ?case unfolding s
    by (rule simulated_step [where cells' = cells and pos' = pos and bs = "[]" and p = p and cs = "[c]"])
      (use nop s in \<open>auto simp: at_code_def intro!: step_nop\<close>)
next
  case (exit cells pos p inp out s' b)
  show ?case
    by (rule simulated_step [where cells' = cells and pos' = pos and bs = "[]" and p = p and cs = "91 # bf_text b @ [93]"])
      (use exit in \<open>auto simp: at_code_def intro!: step_open_zero [THEN trans]\<close>)
next
  case (iterate cells pos b inp out s1 p s')
  then show ?case by (intro simulated_iterate) auto
qed


lemma bf_wf_append [simp]: "bf_wf (p @ q) \<longleftrightarrow> bf_wf p \<and> bf_wf q"
  by (induction p rule: bf_wf.induct) auto

lemma bf_text_append [simp]: "bf_text (p @ q) = bf_text p @ bf_text q"
  by (induction p rule: bf_text.induct) auto

lemma bf_exec_append: "bf_exec p s s' \<Longrightarrow> bf_exec q s' s'' \<Longrightarrow> bf_exec (p @ q) s s''"
  by (induction rule: bf_exec.induct) (auto intro: bf_exec.intros)

text \<open>The zeros behind the program text do nothing.\<close>

lemma padding: "bf_wf (replicate n (Nop 0))" "bf_text (replicate n (Nop 0)) = replicate n 0"
  "bf_exec (replicate n (Nop 0)) s s"
  by (induction n) (auto intro: bf_exec.intros simp: schar_def)

lemma code_at_view: "length bs = 512 \<Longrightarrow> code_buffer app = bs \<Longrightarrow> code_at (code_view app) 0 bs"
  by (simp add: code_at_def code_view_def)

definition enter_key :: KeyboardEvent where
  "enter_key = \<lparr>ev_scancode = ucast KC_ENTER, ev_type = KEY_PRESSED\<rparr>"

lemma run_command:
  assumes "current_mode app = EEM_Command" "command_buffer app = map chr ''run'' @ replicate 47 0"
  shows "main_iteration os junk (Some enter_key) app =
    (prepare_for_exec os (app\<lparr>current_mode := EEM_Running\<rparr>))\<lparr>exec_data := init_exec_data 512\<rparr>"
  using assms
  by (simp add: main_iteration_def enter_key_def scancode_to_keycode_def command_mode_def command_enter_def is_command_def
      strncmp_lib_def strncmp_from.simps view_of_def byte_diff_def chr_def of_char_def Let_def)

text \<open>C9: Running a program from the command line of the interpreter executes it: when the program
  terminates in the language (with 300 cells and the keys typed while it waits as input), the main
  loop reaches the finished mode with the same cells, having printed the same output and consumed
  the same keys.\<close>

theorem bf_program_runs:
  assumes "bf_wf p" "length (bf_text p) \<le> 512"
    and "bf_exec p (replicate 300 0, 0, map (typed (shift_state app)) keys, []) (cells, pos, inp', out)"
    and "current_mode app = EEM_Command" "command_buffer app = map chr ''run'' @ replicate 47 0"
    and "code_buffer app = bf_text p @ replicate (512 - length (bf_text p)) 0"
    and "\<forall>e\<in>set keys. plain_key e"
  shows "\<exists>reads rest app'. keys = List.map_filter id reads @ rest \<and> inp' = map (typed (shift_state app)) rest \<and>
    app' = fold (main_iteration os junk) (Some enter_key # reads) app \<and>
    current_mode app' = EEM_RunningFinished \<and> memory (exec_data app') = cells \<and>
    printed (calls app') = printed (calls app) @ out"
proof -
  let ?q = "p @ replicate (512 - length (bf_text p)) (Nop 0)"
  let ?a = "main_iteration os junk (Some enter_key) app"
  note a = run_command [OF assms(4,5), of os junk]
  have at: "at_code ?a 0 (replicate 300 0) 0"
    by (simp add: a at_code_def init_exec_data_def prepare_for_exec_def sys_def)
  have fr: "shift_state ?a = shift_state app" "printed (calls ?a) = printed (calls app)" "code_buffer ?a = code_buffer app"
    by (simp_all add: a prepare_for_exec_def sys_def printed_def)
  have q: "bf_wf ?q" "bf_text ?q = code_buffer app" "length (code_buffer app) = 512"
    using assms(1,2,6) by (simp_all add: padding)
  have "simulated os junk ?q (replicate 300 0, 0, map (typed (shift_state app)) keys, []) (cells, pos, inp', out) ?a 0 keys"
    using bf_exec_append [OF assms(3) padding(3)] q(1) by (rule bf_exec_simulated)
  moreover have "code_at (code_view ?a) 0 (bf_text ?q)" unfolding q(2) using q(3) fr(3) by (intro code_at_view) auto
  moreover have l: "int (length (bf_text ?q)) = 512" unfolding q(2) using q(3) by simp
  ultimately have "\<exists>reads app1 rest bs. reaches os junk ?a keys reads app1 rest bs \<and> at_code app1 (0 + 512) cells pos \<and>
      inp' = map (typed (shift_state app)) rest \<and> out = [] @ bs \<and> (?q \<noteq> [] \<longrightarrow> (\<exists>r. reads = None # r))"
    unfolding l [symmetric] using at fr(1) assms(7) l by (intro simulatedD) (auto simp del: bf_text_append)
  then obtain reads app1 rest bs where r: "reaches os junk ?a keys reads app1 rest bs"
    "at_code app1 512 cells pos" "inp' = map (typed (shift_state app)) rest" "out = bs" by auto
  have "current_mode (main_iteration os junk None app1) = EEM_RunningFinished \<and>
      memory (exec_data (main_iteration os junk None app1)) = cells \<and>
      printed (calls (main_iteration os junk None app1)) = printed (calls app1)"
    using r(2) by (simp add: main_iteration_def run_mode_def at_code_def step_data_def finish_run_def
        write_text_to_status_bar_def)
  with r fr show ?thesis
    by (intro exI [of _ "reads @ [None]"] exI [of _ rest]) (auto simp: reaches_def)
qed

definition bf_demo :: "bf list" where
  "bf_demo = [Plus, Loop [Minus], Read, Plus, Print]"

definition bf_demo_app :: AppState where
  "bf_demo_app = (main_init (\<lambda>_ scr. scr) (\<lambda>_. 0) (init_exec_data 0))
     \<lparr>code_buffer := bf_text bf_demo @ replicate 505 0, command_buffer := map chr ''run'' @ replicate 47 0\<rparr>"

theorem bf_program_runs_witness:
  "\<exists>reads app'. [\<lparr>ev_scancode = 0x1E, ev_type = KEY_PRESSED\<rparr>] = List.map_filter id reads \<and>
    app' = fold (main_iteration (\<lambda>_ scr. scr) \<lparr>keycode = 0, shift_pressed = False\<rparr>) (Some enter_key # reads) bf_demo_app \<and>
    current_mode app' = EEM_RunningFinished \<and> printed (calls app') = [chr CHR ''b'']"
proof -
  let ?e = "\<lparr>ev_scancode = 0x1E, ev_type = KEY_PRESSED\<rparr>"
  have app: "shift_state bf_demo_app = False" "current_mode bf_demo_app = EEM_Command" "printed (calls bf_demo_app) = []"
    by (simp_all add: bf_demo_app_def main_init_def sys_def printed_def)
  have t: "typed False ?e = 97" "plain_key ?e"
    by (simp_all add: typed_def plain_key_def scancode_to_keycode_def keycode_to_ascii_def ascii_table_def of_shift_def
        of_char_def)
  have "bf_exec bf_demo (replicate 300 0, 0, map (typed (shift_state bf_demo_app)) [?e], [])
      ((replicate 300 0)[0 := 98], 0, [], [98])"
    unfolding bf_demo_def
    by (rule bf_exec.intros | simp add: app t bf_exec.intros)+
  moreover have "bf_wf bf_demo" "length (bf_text bf_demo) \<le> 512"
    "code_buffer bf_demo_app = bf_text bf_demo @ replicate (512 - length (bf_text bf_demo)) 0"
    "command_buffer bf_demo_app = map chr ''run'' @ replicate 47 0"
    by (simp_all add: bf_demo_def bf_demo_app_def)
  ultimately have "\<exists>reads rest app'. [?e] = List.map_filter id reads @ rest \<and> [] = map (typed (shift_state bf_demo_app)) rest \<and>
    app' = fold (main_iteration (\<lambda>_ scr. scr) \<lparr>keycode = 0, shift_pressed = False\<rparr>) (Some enter_key # reads) bf_demo_app \<and>
    current_mode app' = EEM_RunningFinished \<and> memory (exec_data app') = (replicate 300 0)[0 := 98] \<and>
    printed (calls app') = printed (calls bf_demo_app) @ [98]"
    using t app by (intro bf_program_runs) auto
  moreover have "chr CHR ''b'' = 98" by (simp add: chr_def of_char_def)
  ultimately show ?thesis using app by (auto simp del: fold_simps)
qed

text \<open>An unmatched closing bracket on a cell that is not 0 sends the program back to its start, and
  does not end it with \<open>ECRR_UnmatchedPair\<close>: the search stops before the first character and the
  increment that follows hides it from the test for a negative offset.\<close>

theorem bf_unmatched_restarts:
  assumes "0 \<le> off" "off < exec_code_len d" "current_code_offset d = off" "mem_pos d \<le> 300"
    and "code off = chr CHR '']''" "cell d \<noteq> 0"
    and "\<forall>i. 0 \<le> i \<and> i < off \<longrightarrow> code i \<noteq> chr CHR ''['' \<and> 0 \<le> schar (code i)"
  shows "step_code code (Some d) has_input inp = (Some (d\<lparr>current_code_offset := 0\<rparr>), ECRR_Unfinished, [])"
proof -
  have "-1 \<le> k \<Longrightarrow> k < off \<Longrightarrow> \<forall>i. 0 \<le> i \<and> i < off \<longrightarrow> code i \<noteq> 91 \<and> 0 \<le> schar (code i) \<Longrightarrow>
      scan_backward code k c = (-1, False)" for k c
  proof (induction code k c rule: scan_backward.induct)
    case (1 code k c)
    then show ?case
    proof (cases "k = -1")
      case False
      with 1 have k: "0 \<le> k" "code k \<noteq> 91 \<and> 0 \<le> schar (code k)" by force+
      then have "\<not> schar (code k) < 0" by simp
      with k 1 show ?thesis by (subst scan_backward.simps) simp
    qed (subst scan_backward.simps; simp)
  qed
  from this [of "off - 1" 0] assms show ?thesis by (simp add: step_data_def exec_char_def)
qed

theorem bf_unmatched_restarts_witness:
  "step_code (view_of (map chr ''+]'') \<circ> nat)
     (Some \<lparr>memory = (replicate 300 0)[0 := 1], mem_pos = 0, exec_code_len = 512, current_code_offset = 1\<rparr>) False 0 =
   (Some \<lparr>memory = (replicate 300 0)[0 := 1], mem_pos = 0, exec_code_len = 512, current_code_offset = 0\<rparr>,
    ECRR_Unfinished, [])"
  using bf_unmatched_restarts [of 1 "\<lparr>memory = (replicate 300 0)[0 := 1], mem_pos = 0, exec_code_len = 512,
      current_code_offset = 1\<rparr>" "view_of (map chr ''+]'') \<circ> nat" False 0]
  by (simp add: view_of_def cell_def)


section \<open>The editor\<close>

text \<open>The shifts of the editor on the code buffer alone.\<close>

lemma copy_code_buffer:
  "code_buffer (fold (\<lambda>i. copy_code i (f i)) is app) = fold (\<lambda>i b. b[nat i := b ! nat (f i)]) is (code_buffer app)"
  "code_len (fold (\<lambda>i. copy_code i (f i)) is app) = code_len app"
  "code_text_offset (fold (\<lambda>i. copy_code i (f i)) is app) = code_text_offset app"
  by (induction "is" arbitrary: app) (simp_all add: copy_code_def put_code_def)

lemma shift_down:
  assumes "k \<le> m" "m < length b"
  shows "length (fold (\<lambda>i b. b[nat i := b ! nat (i + 1)]) [int k..int m - 1] b) = length b \<and>
    (\<forall>j<length b. fold (\<lambda>i b. b[nat i := b ! nat (i + 1)]) [int k..int m - 1] b ! j =
      (if k \<le> j \<and> j < m then b ! (j + 1) else b ! j))"
  using assms
proof (induction m)
  case (Suc m)
  show ?case
  proof (cases "k \<le> m")
    case True
    then have "[int k..int (Suc m) - 1] = [int k..int m - 1] @ [int m]" by (subst upto_rec2) auto
    moreover have "nat (int m + 1) = Suc m" by simp
    ultimately show ?thesis using Suc True by (auto simp: nth_list_update)
  qed (use Suc in auto)
qed simp

lemma set_attr_code [simp]: "code_buffer (set_attr i a app) = code_buffer app" "code_len (set_attr i a app) = code_len app"
  "code_text_offset (set_attr i a app) = code_text_offset app"
  by (simp_all add: set_attr_def)

lemma backspace_buffer:
  assumes "0 < k" "k \<le> n" "n \<le> length b" "code_buffer app = b" "code_len app = int n" "code_text_offset app = int k"
  shows "code_len (editor_backspace app) = int (n - 1) \<and> length (code_buffer (editor_backspace app)) = length b \<and>
    (\<forall>i<length b. code_buffer (editor_backspace app) ! i =
      (if k \<le> i \<and> i + 2 < n then b ! (i + 1) else if (k \<le> i \<and> i + 2 = n) \<or> i + 1 = n then 0 else b ! i))"
proof -
  let ?b = "b[n - 1 := 0]"
  have n: "nat (int n - 1) = n - 1" "nat (int k - 1) = k - 1" by auto
  have len: "code_len (editor_backspace app) = int (n - 1)"
    using assms by (simp add: editor_backspace_def put_code_def copy_code_buffer Let_def)
  show ?thesis
  proof (cases "k < n")
    case False
    then have "k = n" using assms by simp
    moreover from this have "code_buffer (editor_backspace app) = ?b"
      using assms n by (simp add: editor_backspace_def put_code_def Let_def)
    moreover have "?b ! i = (if k \<le> i \<and> i + 2 < n then b ! (i + 1) else if (k \<le> i \<and> i + 2 = n) \<or> i + 1 = n then 0 else b ! i)"
      if "i < length b" for i
      using \<open>k = n\<close> assms that by (cases "i + 1 = n") auto
    ultimately show ?thesis using len by simp
  next
    case True
    have i: "int n - 1 - 1 = int (n - 1) - 1" "int k - 1 + 1 = int k" using True assms(1) by simp_all
    let ?f = "fold (\<lambda>i b. b[nat i := b ! nat (i + 1)]) [int k..int (n - 1) - 1] ?b"
    have "code_buffer (editor_backspace app) = ?f"
      using True assms n i by (simp add: editor_backspace_def put_code_def copy_code_buffer Let_def)
    moreover have "length ?f = length b \<and>
        (\<forall>j<length b. ?f ! j = (if k \<le> j \<and> j < n - 1 then ?b ! (j + 1) else ?b ! j))"
      using shift_down [of k "n - 1" ?b] True assms(3) by simp
    moreover have "(if k \<le> j \<and> j < n - 1 then ?b ! (j + 1) else ?b ! j) =
      (if k \<le> j \<and> j + 2 < n then b ! (j + 1) else if (k \<le> j \<and> j + 2 = n) \<or> j + 1 = n then 0 else b ! j)"
      if "j < length b" for j
      using True assms(3) that by (cases "j = n - 1"; cases "j + 2 = n") (simp_all add: nth_list_update, linarith+)
    ultimately show ?thesis using len by simp
  qed
qed

text \<open>Backspace in the middle of the code does not delete the character before the cursor: it
  deletes the one after it, and replaces the last character by a NUL when others follow.\<close>

theorem bf_backspace_deletes_wrong:
  assumes "code_buffer app = pre @ c # d # post @ pad" "code_len app = int (length pre + 2 + length post)"
    and "code_text_offset app = int (length pre + 1)"
  shows "take (nat (code_len (editor_backspace app))) (code_buffer (editor_backspace app)) =
    pre @ c # (if post = [] then [] else butlast post @ [0])"
proof -
  let ?n = "length pre + 2 + length post" and ?b = "pre @ c # d # post @ pad"
  note bb = backspace_buffer [of "length pre + 1" ?n ?b app, OF _ _ _ assms]
  from bb have "code_len (editor_backspace app) = int (?n - 1)" by simp
  then have nl: "nat (code_len (editor_backspace app)) = ?n - 1" by (simp only: nat_int)
  show ?thesis unfolding nl
  proof (rule nth_equalityI, goal_cases)
    case 1
    then show ?case using bb by simp
  next
    case (2 i)
    then have i: "i < ?n - 1" using bb by simp
    then have "take (?n - 1) (code_buffer (editor_backspace app)) ! i =
      (if length pre + 1 \<le> i \<and> i + 2 < ?n then ?b ! (i + 1)
       else if (length pre + 1 \<le> i \<and> i + 2 = ?n) \<or> i + 1 = ?n then 0 else ?b ! i)"
      using bb by simp
    then show ?case using i by (auto simp: nth_append nth_Cons' nth_butlast)
  qed
qed

theorem bf_backspace_deletes_wrong_witness:
  "take 3 (code_buffer (editor_backspace (bf_demo_app\<lparr>code_buffer := map chr ''+->.'' @ replicate 508 0, code_len := 4,
     code_text_offset := 2\<rparr>))) = map chr ''+-'' @ [0]"
proof -
  let ?app = "bf_demo_app\<lparr>code_buffer := map chr ''+->.'' @ replicate 508 0, code_len := 4, code_text_offset := 2\<rparr>"
  have "code_len (editor_backspace ?app) = 3"
    using backspace_buffer [of 2 4 _ ?app] by simp
  with bf_backspace_deletes_wrong [of ?app "[chr CHR ''+'']" "chr CHR ''-''" "chr CHR ''>''" "[chr CHR ''.'']" "replicate 508 0"]
  show ?thesis by simp
qed

end
