(* ===== verification/Calc.thy ===== *)
theory Calc
  imports LibString
begin

text \<open>
  \<open>apps/calc/main.c\<close>, the calculator: \<open>parse_input\<close> turns the text into postfix order with a stack
  of operators, \<open>execute\<close> runs the result on a stack of numbers. The type \<open>number_t\<close> can be
  swapped, as its comment says: it is the type \<open>'n\<close>, with its operations in a record. An access
  outside one of the fixed arrays is the error \<open>Out_of_bounds\<close>.
\<close>

record 'n number_ops =
  parse_number :: "u8 list \<Rightarrow> 'n"
  num_zero :: 'n
  num_add :: "'n \<Rightarrow> 'n \<Rightarrow> 'n"
  num_sub :: "'n \<Rightarrow> 'n \<Rightarrow> 'n"
  num_mul :: "'n \<Rightarrow> 'n \<Rightarrow> 'n"
  num_div :: "'n \<Rightarrow> 'n \<Rightarrow> 'n"
  num_mod_result :: 'n

datatype CalcOperationType = ECOT_Add | ECOT_Sub | ECOT_Mul | ECOT_Div | ECOT_Mod

text \<open>The tag \<open>CalcExprType\<close> with its union.\<close>

datatype 'n CalcExpression =
  ECET_Constant 'n | ECET_Operator CalcOperationType | ECET_BracketOpen | ECET_BracketClose

datatype calc_error = Message string | No_message | Out_of_bounds

definition make_expr_bracket_open :: "'n CalcExpression" where
  "make_expr_bracket_open = ECET_BracketOpen"

definition make_expr_bracket_close :: "'n CalcExpression" where
  "make_expr_bracket_close = ECET_BracketClose"

definition make_expr_op :: "CalcOperationType \<Rightarrow> 'n CalcExpression" where
  "make_expr_op operation = ECET_Operator operation"

definition make_expr_const :: "'n \<Rightarrow> 'n CalcExpression" where
  "make_expr_const val = ECET_Constant val"

text \<open>\<open>None\<close> is \<open>*success = false\<close>.\<close>

definition make_expr_op_from_char :: "u8 \<Rightarrow> 'n CalcExpression option" where
  "make_expr_op_from_char c =
     (if c = chr CHR ''+'' then Some (ECET_Operator ECOT_Add)
      else if c = chr CHR ''-'' then Some (ECET_Operator ECOT_Sub)
      else if c = chr CHR ''*'' then Some (ECET_Operator ECOT_Mul)
      else if c = chr CHR ''/'' then Some (ECET_Operator ECOT_Div)
      else if c = chr CHR ''%'' then Some (ECET_Operator ECOT_Mod)
      else None)"

definition get_operator_precedence :: "u8 \<Rightarrow> int" where
  "get_operator_precedence c =
     (if c = chr CHR ''^'' then 3
      else if c = chr CHR ''/'' \<or> c = chr CHR ''*'' \<or> c = chr CHR ''%'' then 2
      else if c = chr CHR ''+'' \<or> c = chr CHR ''-'' then 1
      else -1)"

fun calc_expr_get_operator_precedence :: "'n CalcExpression \<Rightarrow> int" where
  "calc_expr_get_operator_precedence (ECET_Operator ECOT_Add) = 1"
| "calc_expr_get_operator_precedence (ECET_Operator ECOT_Sub) = 1"
| "calc_expr_get_operator_precedence (ECET_Operator ECOT_Mul) = 2"
| "calc_expr_get_operator_precedence (ECET_Operator ECOT_Div) = 2"
| "calc_expr_get_operator_precedence (ECET_Operator ECOT_Mod) = 2"
| "calc_expr_get_operator_precedence _ = -1"

fun operator_to_char :: "CalcOperationType \<Rightarrow> u8" where
  "operator_to_char ECOT_Add = chr CHR ''+''"
| "operator_to_char ECOT_Sub = chr CHR ''-''"
| "operator_to_char ECOT_Mul = chr CHR ''*''"
| "operator_to_char ECOT_Div = chr CHR ''/''"
| "operator_to_char ECOT_Mod = chr CHR ''%''"

section \<open>The parser\<close>

text \<open>\<open>estack\<close> is \<open>expression_stack\<close> up to its offset, the top first. A closing bracket on the empty
  stack moves the offset below the array: \<open>below\<close> counts by how much.\<close>

record 'n parse_state =
  result :: "'n CalcExpression list"
  estack :: "'n CalcExpression list"
  below :: nat

definition expression_stack_offset :: "'n parse_state \<Rightarrow> int" where
  "expression_stack_offset s = int (length (estack s)) - 1 - int (below s)"

text \<open>\<open>expression_stack[++expression_stack_offset] = e\<close>, with room for 100.\<close>

definition push_expr :: "'n CalcExpression \<Rightarrow> 'n parse_state \<Rightarrow> calc_error + 'n parse_state" where
  "push_expr e s =
     (if expression_stack_offset s + 1 < 0 \<or> 100 \<le> expression_stack_offset s + 1 then Inl Out_of_bounds
      else Inr (s\<lparr>estack := e # estack s\<rparr>))"

text \<open>\<open>while (offset >= 0 && P(stack[offset])) result[result_offset++] = stack[offset--]\<close>\<close>

fun pop_while ::
  "('n CalcExpression \<Rightarrow> bool) \<Rightarrow> nat \<Rightarrow> 'n CalcExpression list \<Rightarrow> 'n CalcExpression list \<Rightarrow>
   calc_error + ('n CalcExpression list \<times> 'n CalcExpression list)" where
  "pop_while P max_len [] res = Inr (res, [])"
| "pop_while P max_len (e # st) res =
     (if P e then (if length res \<ge> max_len then Inl Out_of_bounds else pop_while P max_len st (res @ [e]))
      else Inr (res, e # st))"

text \<open>The characters of a number, in \<open>number_buffer[50]\<close>, and the input after them.\<close>

fun scan_number :: "u8 list \<Rightarrow> u8 list \<Rightarrow> bool \<Rightarrow> calc_error + (u8 list \<times> u8 list)" where
  "scan_number [] number_buffer had_decimal_point = Inr (number_buffer, [])"
| "scan_number (c # cs) number_buffer had_decimal_point =
     (if isdigit (schar c) \<or> c = chr CHR ''.'' then
        (if c = chr CHR ''.'' \<and> had_decimal_point then Inl (Message ''Invalid number'')
         else if length number_buffer \<ge> 50 then Inl Out_of_bounds
         else scan_number cs (number_buffer @ [c]) (had_decimal_point \<or> c = chr CHR ''.''))
      else Inr (number_buffer, c # cs))"

lemma scan_number_rest:
  "scan_number cs buf had = Inr (num, rest) \<Longrightarrow> length rest \<le> length cs"
  by (induction cs buf had rule: scan_number.induct) (auto split: if_splits)

text \<open>The main loop: the input is what precedes its end or its first NUL. A number that fills the
  buffer has no terminating NUL, so reading it back runs past the end as well.\<close>

function parse_loop ::
  "'n number_ops \<Rightarrow> nat \<Rightarrow> u8 list \<Rightarrow> 'n parse_state \<Rightarrow> calc_error + 'n parse_state" where
  "parse_loop num max_len [] s = Inr s"
| "parse_loop num max_len (ch # cs) s =
     (if length (result s) \<ge> max_len then Inl (Message ''Result buffer is not large enough'')
      else if expression_stack_offset s \<ge> 100 then Inl (Message ''Expression stack is not large enough'')
      else if ch = chr CHR '' '' then parse_loop num max_len cs s
      else if isdigit (schar ch) then
        (case scan_number (ch # cs) [] False of
           Inl e \<Rightarrow> Inl e
         | Inr (number_buffer, rest) \<Rightarrow>
             if length number_buffer \<ge> 50 then Inl Out_of_bounds
             else parse_loop num max_len rest
               (s\<lparr>result := result s @ [make_expr_const (parse_number num number_buffer)]\<rparr>))
      else if ch = chr CHR ''('' then
        (case push_expr make_expr_bracket_open s of Inl e \<Rightarrow> Inl e | Inr s' \<Rightarrow> parse_loop num max_len cs s')
      else if ch = chr CHR '')'' then
        (case pop_while (\<lambda>e. e \<noteq> ECET_BracketOpen) max_len (estack s) (result s) of
           Inl e \<Rightarrow> Inl e
         | Inr (res, []) \<Rightarrow> parse_loop num max_len cs (s\<lparr>result := res, estack := [], below := below s + 1\<rparr>)
         | Inr (res, _ # st) \<Rightarrow> parse_loop num max_len cs (s\<lparr>result := res, estack := st\<rparr>))
      else
        (case pop_while (\<lambda>e. get_operator_precedence ch \<le> calc_expr_get_operator_precedence e)
                max_len (estack s) (result s) of
           Inl e \<Rightarrow> Inl e
         | Inr (res, st) \<Rightarrow>
             (case make_expr_op_from_char ch of
                None \<Rightarrow>
                  (case push_expr ECET_BracketClose (s\<lparr>result := res, estack := st\<rparr>) of
                     Inl e \<Rightarrow> Inl e | Inr _ \<Rightarrow> Inl (Message ''Invalid character encountered''))
              | Some e \<Rightarrow>
                  (case push_expr e (s\<lparr>result := res, estack := st\<rparr>) of
                     Inl e \<Rightarrow> Inl e | Inr s' \<Rightarrow> parse_loop num max_len cs s'))))"
  by pat_completeness auto
termination
  by (relation "measure (\<lambda>(num, mx, cs, s). length cs)") (auto dest!: scan_number_rest split: if_splits)

declare parse_loop.simps(2) [simp del]

definition parse_input :: "'n number_ops \<Rightarrow> u8 list \<Rightarrow> nat \<Rightarrow> calc_error + 'n CalcExpression list" where
  "parse_input num input_buffer result_buffer_max_len =
     (case parse_loop num result_buffer_max_len (takeWhile (\<lambda>c. c \<noteq> 0) input_buffer)
             \<lparr>result = [], estack = [], below = 0\<rparr> of
        Inl e \<Rightarrow> Inl e
      | Inr s \<Rightarrow>
          (case pop_while (\<lambda>_. True) result_buffer_max_len (estack s) (result s) of
             Inl e \<Rightarrow> Inl e | Inr (res, _) \<Rightarrow> Inr res))"

section \<open>The stack machine\<close>

text \<open>\<open>NumberStack\<close>, the top first, with room for 50.\<close>

fun number_stack_pop :: "'n list \<Rightarrow> ('n \<times> 'n list) option" where
  "number_stack_pop [] = None"
| "number_stack_pop (v # st) = Some (v, st)"

definition number_stack_push :: "'n \<Rightarrow> 'n list \<Rightarrow> calc_error + 'n list" where
  "number_stack_push val st = (if length st \<ge> 50 then Inl Out_of_bounds else Inr (val # st))"

fun apply_operation :: "'n number_ops \<Rightarrow> CalcOperationType \<Rightarrow> 'n \<Rightarrow> 'n \<Rightarrow> 'n" where
  "apply_operation num ECOT_Add a b = num_add num a b"
| "apply_operation num ECOT_Sub a b = num_sub num a b"
| "apply_operation num ECOT_Mul a b = num_mul num a b"
| "apply_operation num ECOT_Div a b = num_div num a b"
| "apply_operation num ECOT_Mod a b = num_mod_result num"

fun execute_op :: "'n number_ops \<Rightarrow> 'n CalcExpression \<Rightarrow> 'n list \<Rightarrow> calc_error + 'n list" where
  "execute_op num (ECET_Constant c) st = number_stack_push c st"
| "execute_op num (ECET_Operator operation) st =
     (case number_stack_pop st of
        None \<Rightarrow> Inl (Message ''Not enough values on stack'')
      | Some (b, st1) \<Rightarrow>
          (case number_stack_pop st1 of
             None \<Rightarrow> Inl (Message ''Not enough values on stack'')
           | Some (a, st2) \<Rightarrow> number_stack_push (apply_operation num operation a b) st2))"
| "execute_op num _ st = Inr st"

fun execute_loop :: "'n number_ops \<Rightarrow> 'n CalcExpression list \<Rightarrow> 'n list \<Rightarrow> calc_error + 'n list" where
  "execute_loop num [] st = Inr st"
| "execute_loop num (e # es) st =
     (case execute_op num e st of Inl err \<Rightarrow> Inl err | Inr st' \<Rightarrow> execute_loop num es st')"

text \<open>On an empty stack at the end \<open>execute\<close> fails without a message.\<close>

definition execute :: "'n number_ops \<Rightarrow> 'n CalcExpression list \<Rightarrow> calc_error + 'n" where
  "execute num ops =
     (case execute_loop num ops [] of
        Inl e \<Rightarrow> Inl e
      | Inr st \<Rightarrow> (case number_stack_pop st of None \<Rightarrow> Inl No_message | Some (v, _) \<Rightarrow> Inr v))"

section \<open>Expressions\<close>

text \<open>The expressions the calculator is meant to accept, as trees that keep the blanks of the text
  after each number, operator and bracket.\<close>

datatype expr =
  Num "u8 list" nat
| Bin CalcOperationType nat expr expr
| Paren nat nat expr

lemma chr_calc [simp]:
  "chr CHR ''+'' = 43" "chr CHR ''-'' = 45" "chr CHR ''*'' = 42" "chr CHR ''/'' = 47" "chr CHR ''%'' = 37"
  "chr CHR ''^'' = 94" "chr CHR ''('' = 40" "chr CHR '')'' = 41" "chr CHR ''.'' = 46" "chr CHR '' '' = 32"
  by (simp_all add: chr_def of_char_def)

lemma schar_calc [simp]: "schar 43 = 43" "schar 45 = 45" "schar 42 = 42" "schar 47 = 47" "schar 37 = 37"
  "schar 40 = 40" "schar 41 = 41" "schar 46 = 46" "schar 32 = 32" "schar 0 = 0"
  by (simp_all add: schar_def)

definition blanks :: "nat \<Rightarrow> u8 list" where
  "blanks n = replicate n (chr CHR '' '')"

fun expr_text :: "expr \<Rightarrow> u8 list" where
  "expr_text (Num ds k) = ds @ blanks k"
| "expr_text (Bin operation k l r) = expr_text l @ operator_to_char operation # blanks k @ expr_text r"
| "expr_text (Paren j k e) = chr CHR ''('' # blanks j @ expr_text e @ chr CHR '')'' # blanks k"

fun postfix :: "'n number_ops \<Rightarrow> expr \<Rightarrow> 'n CalcExpression list" where
  "postfix num (Num ds k) = [ECET_Constant (parse_number num ds)]"
| "postfix num (Bin operation k l r) = postfix num l @ postfix num r @ [ECET_Operator operation]"
| "postfix num (Paren j k e) = postfix num e"

fun eval :: "'n number_ops \<Rightarrow> expr \<Rightarrow> 'n" where
  "eval num (Num ds k) = parse_number num ds"
| "eval num (Bin operation k l r) = apply_operation num operation (eval num l) (eval num r)"
| "eval num (Paren j k e) = eval num e"

fun op_prec :: "CalcOperationType \<Rightarrow> int" where
  "op_prec ECOT_Add = 1" | "op_prec ECOT_Sub = 1" | "op_prec ECOT_Mul = 2" | "op_prec ECOT_Div = 2" | "op_prec ECOT_Mod = 2"

fun level :: "expr \<Rightarrow> int" where
  "level (Bin operation k l r) = op_prec operation"
| "level _ = 3"

definition number_char :: "u8 \<Rightarrow> bool" where
  "number_char c \<longleftrightarrow> isdigit (schar c) \<or> c = chr CHR ''.''"

definition number_text :: "u8 list \<Rightarrow> bool" where
  "number_text ds \<longleftrightarrow> ds \<noteq> [] \<and> isdigit (schar (hd ds)) \<and> list_all number_char ds \<and>
     count_list ds (chr CHR ''.'') \<le> 1 \<and> length ds < 50"

text \<open>Operators are left-associative, and \<open>*\<close>, \<open>/\<close>, \<open>%\<close> bind tighter than \<open>+\<close> and \<open>-\<close>.\<close>

fun expr_wf :: "expr \<Rightarrow> bool" where
  "expr_wf (Num ds k) \<longleftrightarrow> number_text ds"
| "expr_wf (Bin operation k l r) \<longleftrightarrow> op_prec operation \<le> level l \<and> op_prec operation < level r \<and> expr_wf l \<and> expr_wf r"
| "expr_wf (Paren j k e) \<longleftrightarrow> expr_wf e"

text \<open>How much of the two stacks an expression takes.\<close>

fun stack_need :: "expr \<Rightarrow> nat" where
  "stack_need (Num ds k) = 0"
| "stack_need (Bin operation k l r) = max (stack_need l) (1 + stack_need r)"
| "stack_need (Paren j k e) = 1 + stack_need e"

fun value_need :: "expr \<Rightarrow> nat" where
  "value_need (Num ds k) = 1"
| "value_need (Bin operation k l r) = max (value_need l) (1 + value_need r)"
| "value_need (Paren j k e) = value_need e"

section \<open>The parser on expressions\<close>

lemma calc_prec_op [simp]: "calc_expr_get_operator_precedence (ECET_Operator operation) = op_prec operation"
  by (cases operation) auto

lemma op_char [simp]:
  "get_operator_precedence (operator_to_char operation) = op_prec operation"
  "make_expr_op_from_char (operator_to_char operation) = Some (ECET_Operator operation)"
  "operator_to_char operation \<noteq> 32" "\<not> isdigit (schar (operator_to_char operation))"
  "operator_to_char operation \<noteq> 40" "operator_to_char operation \<noteq> 41" "operator_to_char operation \<noteq> 0"
  "\<not> number_char (operator_to_char operation)"
  by (cases operation; simp add: get_operator_precedence_def make_expr_op_from_char_def isdigit_def number_char_def)+

lemma op_prec_bounds: "1 \<le> op_prec operation" "op_prec operation < 3"
  by (cases operation; simp)+

lemma level_bounds: "1 \<le> level e" "level e \<le> 3"
  using op_prec_bounds by (cases e; simp add: less_imp_le)+

abbreviation ops_of :: "CalcOperationType list \<Rightarrow> 'n CalcExpression list" where
  "ops_of pend \<equiv> map ECET_Operator pend"

text \<open>\<open>below_top p st\<close>: the top of the stack does not stop an operator of precedence \<open>p\<close> or more.\<close>

definition below_top :: "int \<Rightarrow> 'n CalcExpression list \<Rightarrow> bool" where
  "below_top p st \<longleftrightarrow> (case st of [] \<Rightarrow> True | t # _ \<Rightarrow> calc_expr_get_operator_precedence t < p)"

lemma below_top_simps [simp]: "below_top p []" "below_top p (t # st) \<longleftrightarrow> calc_expr_get_operator_precedence t < p"
  by (simp_all add: below_top_def)

lemma below_top_mono: "below_top p st \<Longrightarrow> p \<le> q \<Longrightarrow> below_top q st"
  by (cases st) auto

lemma pop_pending:
  "\<forall>t \<in> set pend. P (ECET_Operator t) \<Longrightarrow> (case st of [] \<Rightarrow> True | t # _ \<Rightarrow> \<not> P t) \<Longrightarrow>
   length res + length pend \<le> mx \<Longrightarrow> pop_while P mx (ops_of pend @ st) res = Inr (res @ ops_of pend, st)"
  by (induction pend arbitrary: res) (auto split: list.splits)

definition number_end :: "u8 list \<Rightarrow> bool" where
  "number_end cs \<longleftrightarrow> (case cs of [] \<Rightarrow> True | c # _ \<Rightarrow> \<not> number_char c)"

lemma number_end_simps [simp]: "number_end []" "number_end (c # cs) \<longleftrightarrow> \<not> number_char c"
  by (simp_all add: number_end_def)

lemma number_end_blanks: "number_end cs \<Longrightarrow> number_end (blanks k @ cs)"
  by (cases k) (simp_all add: blanks_def number_char_def isdigit_def)

lemma scan_number_text:
  "list_all number_char ds \<Longrightarrow> count_list ds 46 \<le> (if had then 0 else 1) \<Longrightarrow> length buf + length ds \<le> 50 \<Longrightarrow>
   number_end cs \<Longrightarrow> scan_number (ds @ cs) buf had = Inr (buf @ ds, cs)"
proof (induction ds arbitrary: buf had)
  case Nil
  then show ?case by (cases cs) (auto simp: number_char_def)
next
  case (Cons d ds)
  then have "scan_number (ds @ cs) (buf @ [d]) (had \<or> d = 46) = Inr ((buf @ [d]) @ ds, cs)"
    by (intro Cons.IH) (auto split: if_splits)
  then show ?case using Cons.prems by (auto simp: number_char_def split: if_splits)
qed

abbreviation pstate :: "'n CalcExpression list \<Rightarrow> 'n CalcExpression list \<Rightarrow> 'n parse_state" where
  "pstate res st \<equiv> \<lparr>result = res, estack = st, below = 0\<rparr>"

definition room :: "nat \<Rightarrow> 'n CalcExpression list \<Rightarrow> 'n CalcExpression list \<Rightarrow> bool" where
  "room mx res st \<longleftrightarrow> length res < mx \<and> length st \<le> 100"

lemma parse_blanks:
  "room mx res st \<Longrightarrow> parse_loop num mx (blanks k @ cs) (pstate res st) = parse_loop num mx cs (pstate res st)"
proof (induction k)
  case (Suc k)
  then show ?case by (simp add: blanks_def room_def parse_loop.simps expression_stack_offset_def)
qed (simp add: blanks_def)

lemma parse_number_text:
  assumes "number_text ds" "number_end cs" "room mx res st"
  shows "parse_loop num mx (ds @ cs) (pstate res st) =
    parse_loop num mx cs (pstate (res @ [ECET_Constant (parse_number num ds)]) st)"
proof -
  from assms(1) obtain d ds' where d: "ds = d # ds'" "isdigit (schar d)" "length ds < 50"
    by (cases ds) (auto simp: number_text_def)
  have "scan_number (ds @ cs) [] False = Inr ([] @ ds, cs)"
    using assms by (intro scan_number_text) (auto simp: number_text_def)
  moreover have "d \<noteq> 32" using d(2) by (auto simp: isdigit_def)
  ultimately show ?thesis
    using d assms(3) by (simp add: parse_loop.simps room_def expression_stack_offset_def make_expr_const_def del: scan_number.simps)
qed

lemma parse_open:
  assumes "room mx res st" "length st < 100"
  shows "parse_loop num mx (40 # cs) (pstate res st) = parse_loop num mx cs (pstate res (ECET_BracketOpen # st))"
  using assms by (simp add: parse_loop.simps room_def expression_stack_offset_def push_expr_def make_expr_bracket_open_def isdigit_def)

lemma parse_close:
  assumes "room mx res (ops_of pend @ ECET_BracketOpen # st)" "length res + length pend \<le> mx"
  shows "parse_loop num mx (41 # cs) (pstate res (ops_of pend @ ECET_BracketOpen # st)) =
    parse_loop num mx cs (pstate (res @ ops_of pend) st)"
  using assms pop_pending [of pend "\<lambda>e. e \<noteq> ECET_BracketOpen" "ECET_BracketOpen # st" res mx]
  by (simp add: parse_loop.simps room_def expression_stack_offset_def isdigit_def)

lemma parse_operator:
  assumes "room mx res (ops_of pend @ st)" "length res + length pend \<le> mx" "length st < 100"
    and "\<forall>t \<in> set pend. op_prec operation \<le> op_prec t" "below_top (op_prec operation) st"
  shows "parse_loop num mx (operator_to_char operation # cs) (pstate res (ops_of pend @ st)) =
    parse_loop num mx cs (pstate (res @ ops_of pend) (ECET_Operator operation # st))"
proof -
  have "pop_while (\<lambda>e. op_prec operation \<le> calc_expr_get_operator_precedence e) mx (ops_of pend @ st) res =
      Inr (res @ ops_of pend, st)"
    using assms(2,4,5) by (intro pop_pending) (auto split: list.splits)
  then show ?thesis
    using assms(1,3) by (simp add: parse_loop.simps room_def expression_stack_offset_def push_expr_def)
qed

lemma length_postfix: "1 \<le> length (postfix num e)"
  by (induction e) auto

lemma parse_expr:
  assumes "expr_wf e" "below_top (level e) st" "length st + stack_need e \<le> 100"
    and "length res + length (postfix num e) < mx" "number_end cs"
  shows "\<exists>pend res'. parse_loop num mx (expr_text e @ cs) (pstate res st) = parse_loop num mx cs (pstate res' (ops_of pend @ st)) \<and>
    res' @ ops_of pend = res @ postfix num e \<and> (\<forall>t \<in> set pend. level e \<le> op_prec t) \<and> length pend \<le> stack_need e"
  using assms
proof (induction e arbitrary: st res cs)
  case (Num ds k)
  then have "parse_loop num mx (ds @ blanks k @ cs) (pstate res st) =
      parse_loop num mx (blanks k @ cs) (pstate (res @ [ECET_Constant (parse_number num ds)]) st)"
    by (intro parse_number_text number_end_blanks) (auto simp: room_def)
  also have "\<dots> = parse_loop num mx cs (pstate (res @ [ECET_Constant (parse_number num ds)]) st)"
    using Num by (intro parse_blanks) (auto simp: room_def)
  finally show ?case
    by (intro exI [of _ "[]"] exI [of _ "res @ [ECET_Constant (parse_number num ds)]"]) simp
next
  case (Bin operation k l r)
  have need: "length st + stack_need l \<le> 100" "length st < 100" "Suc (length st + stack_need r) \<le> 100"
    using Bin.prems(3) by (auto simp: max_def split: if_splits)
  have "below_top (level l) st" using Bin.prems(1,2) by (auto intro: below_top_mono)
  then obtain pend res1 where l: "parse_loop num mx (expr_text l @ operator_to_char operation # blanks k @ expr_text r @ cs) (pstate res st) =
      parse_loop num mx (operator_to_char operation # blanks k @ expr_text r @ cs) (pstate res1 (ops_of pend @ st))"
    "res1 @ ops_of pend = res @ postfix num l" "\<forall>t \<in> set pend. level l \<le> op_prec t" "length pend \<le> stack_need l"
    using Bin.IH(1) [of st res "operator_to_char operation # blanks k @ expr_text r @ cs"] Bin.prems need by auto
  have len: "length res1 + length pend = length res + length (postfix num l)"
    using arg_cong [OF l(2), of length] by simp
  let ?s = "pstate (res @ postfix num l) (ECET_Operator operation # st)"
  have "parse_loop num mx (operator_to_char operation # blanks k @ expr_text r @ cs) (pstate res1 (ops_of pend @ st)) =
      parse_loop num mx (blanks k @ expr_text r @ cs) ?s"
    unfolding l(2) [symmetric]
    using Bin.prems l(3,4) len need by (intro parse_operator) (force simp: room_def)+
  also have "\<dots> = parse_loop num mx (expr_text r @ cs) ?s"
    using Bin.prems need by (intro parse_blanks) (auto simp: room_def)
  finally have op: "parse_loop num mx (operator_to_char operation # blanks k @ expr_text r @ cs) (pstate res1 (ops_of pend @ st)) = \<dots>" .
  obtain pend2 res2 where r: "parse_loop num mx (expr_text r @ cs) ?s = parse_loop num mx cs (pstate res2 (ops_of pend2 @ ECET_Operator operation # st))"
    "res2 @ ops_of pend2 = (res @ postfix num l) @ postfix num r" "\<forall>t \<in> set pend2. level r \<le> op_prec t" "length pend2 \<le> stack_need r"
    using Bin.IH(2) [of "ECET_Operator operation # st" "res @ postfix num l" cs] Bin.prems need by auto
  show ?case
    using l(1) op r Bin.prems(1) by (intro exI [of _ "pend2 @ [operation]"] exI [of _ res2]) force
next
  case (Paren j k e)
  let ?s = "pstate res (ECET_BracketOpen # st)"
  have "parse_loop num mx (40 # blanks j @ expr_text e @ 41 # blanks k @ cs) (pstate res st) =
      parse_loop num mx (blanks j @ expr_text e @ 41 # blanks k @ cs) ?s"
    using Paren.prems by (intro parse_open) (auto simp: room_def)
  also have "\<dots> = parse_loop num mx (expr_text e @ 41 # blanks k @ cs) ?s"
    using Paren.prems by (intro parse_blanks) (auto simp: room_def)
  finally have 1: "parse_loop num mx (40 # blanks j @ expr_text e @ 41 # blanks k @ cs) (pstate res st) = \<dots>" .
  have "below_top (level e) (ECET_BracketOpen # st)" using level_bounds(1) [of e] by simp
  then obtain pend res1 where e: "parse_loop num mx (expr_text e @ 41 # blanks k @ cs) ?s =
      parse_loop num mx (41 # blanks k @ cs) (pstate res1 (ops_of pend @ ECET_BracketOpen # st))"
    "res1 @ ops_of pend = res @ postfix num e" "\<forall>t \<in> set pend. level e \<le> op_prec t" "length pend \<le> stack_need e"
    using Paren.IH [of "ECET_BracketOpen # st" res "41 # blanks k @ cs"] Paren.prems
    by (auto simp: number_char_def isdigit_def)
  have len: "length res1 + length pend = length res + length (postfix num e)"
    using arg_cong [OF e(2), of length] by simp
  have "parse_loop num mx (41 # blanks k @ cs) (pstate res1 (ops_of pend @ ECET_BracketOpen # st)) =
      parse_loop num mx (blanks k @ cs) (pstate (res @ postfix num e) st)"
    unfolding e(2) [symmetric] using Paren.prems len e(4) by (intro parse_close) (auto simp: room_def)
  also have "\<dots> = parse_loop num mx cs (pstate (res @ postfix num e) st)"
    using Paren.prems by (intro parse_blanks) (auto simp: room_def)
  finally show ?case using 1 e(1) by (intro exI [of _ "[]"] exI [of _ "res @ postfix num e"]) simp
qed


section \<open>The machine on expressions\<close>

lemma execute_expr:
  "length st + value_need e \<le> 50 \<Longrightarrow>
   execute_loop num (postfix num e @ es) st = execute_loop num es (eval num e # st)"
  by (induction e arbitrary: st es) (auto simp: number_stack_push_def max_def split: if_splits)

lemma expr_text_nonzero: "expr_wf e \<Longrightarrow> 0 \<notin> set (expr_text e)"
proof (induction e)
  case (Bin operation k l r)
  then show ?case using op_char(7) [of operation] by (auto simp: blanks_def simp del: op_char(7))
qed (auto simp: number_text_def number_char_def isdigit_def list_all_iff blanks_def)

section \<open>Properties\<close>


text \<open>Integers in place of the floats: the digits before a decimal point.\<close>

definition int_ops :: "int number_ops" where
  "int_ops = \<lparr>parse_number = foldl (\<lambda>n c. if isdigit (schar c) then n * 10 + (schar c - 48) else n) 0, num_zero = 0,
     num_add = (+), num_sub = (-), num_mul = (*), num_div = (div), num_mod_result = -99999999\<rparr>"


text \<open>The test of the operator stack comes one push too late: a text with more than 100 open
  brackets makes \<open>parse_input\<close> store outside \<open>expression_stack\<close>, whatever follows.\<close>

theorem calc_brackets_overflow:
  assumes "0 < max_len" "100 < n"
  shows "parse_input num (replicate n (chr CHR ''('') @ rest) max_len = Inl Out_of_bounds"
proof -
  have *: "length st \<le> 100 \<Longrightarrow> length st + m > 100 \<Longrightarrow>
      parse_loop num max_len (replicate m 40 @ cs) (pstate [] st) = Inl Out_of_bounds" for m st cs
  proof (induction m arbitrary: st)
    case (Suc m)
    show ?case
    proof (cases "length st < 100")
      case True
      then show ?thesis using Suc assms(1) by (simp add: parse_open room_def)
    next
      case False
      then show ?thesis using Suc.prems assms(1)
        by (simp add: parse_loop.simps expression_stack_offset_def isdigit_def push_expr_def)
    qed
  qed simp
  have "takeWhile (\<lambda>c. c \<noteq> 0) (replicate n (40 :: u8) @ rest) = replicate n 40 @ takeWhile (\<lambda>c. c \<noteq> 0) rest"
    by (induction n) auto
  with * [of "[]" n] assms(2) show ?thesis by (simp add: parse_input_def)
qed

theorem calc_brackets_overflow_witness:
  "parse_input int_ops (replicate 101 (chr CHR ''('') @ map chr ''1'') 100 = Inl Out_of_bounds"
  by (rule calc_brackets_overflow) simp_all

end
