(* ===== verification/CalcUI.thy ===== *)
theory CalcUI
  imports Calc LibStd Format Input
begin

text \<open>
  The screen of \<open>apps/calc/main.c\<close>: the list of elements, the focus, the input box and the history of
  results. The elements and the application are records, the elements in a typed store; the data of
  an element, which it allocates, is in the byte memory of the heap with the layout of its structure. Cells of the
  text screen are numbered from \<open>text_buffer\<close>. There is one application, so \<open>elem->app\<close> is the state.
  Addresses of local objects, the string literals, the number type and the file of
  \<open>gob_sprintf\<close>, which is not initialised, are in the environment. \<open>None\<close> is an access that
  the source leaves undefined, or a loop that does not end.
\<close>

section \<open>Elements\<close>

text \<open>The functions that an element can refer to: those of labels and of input boxes.\<close>

datatype gob_fn = Gob_Label | Gob_Input

record gob_element =
  ge_prev :: ptr
  ge_next :: ptr
  ge_internal :: ptr
  ge_is_focused :: bool
  ge_can_be_focused :: bool
  ge_x :: int
  ge_y :: int
  ge_render :: "gob_fn option"
  ge_handle_input :: "gob_fn option"
  ge_focus_changed :: "gob_fn option"
  ge_free :: "gob_fn option"

abbreviation (input) "sizeof_GobElement \<equiv> 48 :: u32"

record calc_state = heap_state +
  elems :: "ptr \<Rightarrow> gob_element"
  text_buffer :: "int \<Rightarrow> u16"
  screen_width :: int
  screen_height :: int
  app_root :: ptr
  current_focus :: ptr
  default_background_color :: u32
  app_running :: bool
  shift_state :: bool
  alt_state :: bool
  ctrl_state :: bool

record 'n calc_env =
  number :: "'n number_ops"
  number_words :: "'n \<Rightarrow> u32 list"
  fmt_float :: float_printer
  local_file :: fmt_state
  lit :: "string \<Rightarrow> ptr"
  accept_address :: ptr
  status_text :: ptr
  prev_calc_labels :: ptr
  input_temp_label :: ptr
  input_box :: ptr
  main_buffer :: ptr
  accept_temp :: ptr
  accept_op_str :: ptr

abbreviation (input) "PREV_LABEL_TOTAL_COUNT \<equiv> 22 :: nat"

definition prev_label :: "'n calc_env \<Rightarrow> nat \<Rightarrow> ptr" where
  "prev_label env i = prev_calc_labels env + of_nat i * sizeof_GobElement"

text \<open>The colours of \<open>estros.h\<close>.\<close>

abbreviation (input) "EC_Black \<equiv> 0 :: u32"
abbreviation (input) "EC_Blue \<equiv> 1 :: u32"
abbreviation (input) "EC_Green \<equiv> 2 :: u32"
abbreviation (input) "EC_Magenta \<equiv> 5 :: u32"
abbreviation (input) "EC_LightGray \<equiv> 7 :: u32"
abbreviation (input) "EC_DarkGray \<equiv> 8 :: u32"
abbreviation (input) "EC_Yellow \<equiv> 14 :: u32"
abbreviation (input) "EC_White \<equiv> 15 :: u32"

text \<open>The fields of the data of labels and input boxes behind the 255 bytes of text.\<close>

abbreviation (input) "sizeof_GobLabelData \<equiv> 264 :: u32"
abbreviation (input) "sizeof_GobInputBoxData \<equiv> 296 :: u32"
abbreviation (input) "off_text_color \<equiv> 256 :: u32"
abbreviation (input) "off_background_color \<equiv> 260 :: u32"
abbreviation (input) "off_width \<equiv> 272 :: u32"
abbreviation (input) "off_offset \<equiv> 276 :: u32"
abbreviation (input) "off_buffer_pos \<equiv> 280 :: u32"
abbreviation (input) "off_unfocused_text_color \<equiv> 284 :: u32"
abbreviation (input) "off_unfocused_background_color \<equiv> 288 :: u32"
abbreviation (input) "off_input_accepted \<equiv> 292 :: u32"

definition set_field :: "ptr \<Rightarrow> u32 \<Rightarrow> u32 \<Rightarrow> 'a heap_state_scheme \<Rightarrow> 'a heap_state_scheme" where
  "set_field data off v s = s\<lparr>mem := store32 (mem s) (data + off) v\<rparr>"

section \<open>The text screen\<close>

text \<open>A \<open>char\<close> from 0x80 on is negative and sets the attribute to 0xFF.\<close>

definition gob_cell :: "u32 \<Rightarrow> u32 \<Rightarrow> u8 \<Rightarrow> u16" where
  "gob_cell bg fg ch = ucast (push_bit 8 (push_bit 4 bg OR fg) OR scast ch :: u32)"

text \<open>\<open>start[i] = f i\<close> for \<open>i\<close> from \<open>k\<close> below \<open>n\<close>.\<close>

definition put_cells :: "int \<Rightarrow> nat \<Rightarrow> nat \<Rightarrow> (nat \<Rightarrow> u16) \<Rightarrow> calc_state \<Rightarrow> calc_state" where
  "put_cells start k n f s =
     s\<lparr>text_buffer := fold (\<lambda>i t. t(start + int i := f i)) [k..<n] (text_buffer s)\<rparr>"

definition gob_term_clear :: "u32 \<Rightarrow> calc_state \<Rightarrow> calc_state" where
  "gob_term_clear clear_color s =
     put_cells 0 0 (nat (screen_width s * screen_height s)) (\<lambda>_. ucast (push_bit 8 (push_bit 4 clear_color OR clear_color))) s"

definition cell_index :: "int \<Rightarrow> int \<Rightarrow> calc_state \<Rightarrow> int" where
  "cell_index x y s = x + y * screen_width s"

definition gob_term_line :: "int \<Rightarrow> int \<Rightarrow> int \<Rightarrow> u8 \<Rightarrow> u32 \<Rightarrow> u32 \<Rightarrow> calc_state \<Rightarrow> calc_state" where
  "gob_term_line x y width ch bg_color fg_color s =
     put_cells (cell_index x y s) 0 (nat (min width (screen_width s - x))) (\<lambda>_. gob_cell bg_color fg_color ch) s"

definition gob_term_text :: "int \<Rightarrow> int \<Rightarrow> ptr \<Rightarrow> nat \<Rightarrow> u32 \<Rightarrow> u32 \<Rightarrow> calc_state \<Rightarrow> calc_state" where
  "gob_term_text x y txt len bg_color fg_color s =
     put_cells (cell_index x y s) 0 (min len (nat (screen_width s - x)))
       (\<lambda>i. gob_cell bg_color fg_color (mem s (txt + of_nat i))) s"

text \<open>The lengths are unsigned.\<close>

definition gob_term_text_fixed ::
  "int \<Rightarrow> int \<Rightarrow> ptr \<Rightarrow> nat \<Rightarrow> nat \<Rightarrow> u8 \<Rightarrow> u32 \<Rightarrow> u32 \<Rightarrow> calc_state \<Rightarrow> calc_state" where
  "gob_term_text_fixed x y txt text_len len padding_character bg_color fg_color s =
     (let room = nat (screen_width s - x);
          n = min text_len (min room len)
      in put_cells (cell_index x y s) n (min room len) (\<lambda>_. gob_cell bg_color fg_color padding_character)
           (put_cells (cell_index x y s) 0 n (\<lambda>i. gob_cell bg_color fg_color (mem s (txt + of_nat i))) s))"

section \<open>Labels and input boxes\<close>

definition gob_init_element :: "ptr \<Rightarrow> int \<Rightarrow> int \<Rightarrow> bool \<Rightarrow> calc_state \<Rightarrow> calc_state" where
  "gob_init_element elem x y can_be_focused s =
     s\<lparr>elems := (elems s)(elem := (elems s elem)\<lparr>ge_x := x, ge_y := y, ge_can_be_focused := can_be_focused,
        ge_render := None, ge_focus_changed := None, ge_handle_input := None, ge_free := None,
        ge_next := NULL, ge_prev := NULL\<rparr>)\<rparr>"

definition update_elem :: "ptr \<Rightarrow> (gob_element \<Rightarrow> gob_element) \<Rightarrow> calc_state \<Rightarrow> calc_state" where
  "update_elem elem f s = s\<lparr>elems := (elems s)(elem := f (elems s elem))\<rparr>"

definition draw_label :: "ptr \<Rightarrow> calc_state \<Rightarrow> calc_state option" where
  "draw_label elem s =
     (let data = ge_internal (elems s elem) in
      map_option (\<lambda>n. gob_term_text (ge_x (elems s elem)) (ge_y (elems s elem)) data n
          (load32 (mem s) (data + off_background_color)) (load32 (mem s) (data + off_text_color)) s)
        (strlen_lib (view_at (mem s) data)))"

definition gob_label_render :: "ptr \<Rightarrow> calc_state \<Rightarrow> calc_state option" where
  "gob_label_render elem s = (if ge_internal (elems s elem) = NULL then Some s else draw_label elem s)"

definition gob_label_set_text :: "ptr \<Rightarrow> ptr \<Rightarrow> calc_state \<Rightarrow> calc_state option" where
  "gob_label_set_text elem txt s =
     draw_label elem (s\<lparr>mem := fst (strncpy_lib (mem s) (ge_internal (elems s elem)) txt 255)\<rparr>)"

definition gob_init_label :: "ptr \<Rightarrow> ptr \<Rightarrow> int \<Rightarrow> int \<Rightarrow> u32 \<Rightarrow> u32 \<Rightarrow> calc_state \<Rightarrow> calc_state option" where
  "gob_init_label elem txt x y text_color background_color s = do {
     (s1, data) \<leftarrow> lib_malloc s sizeof_GobLabelData;
     let s2 = gob_init_element elem x y False (update_elem elem (ge_internal_update (\<lambda>_. data)) s1);
     let s3 = update_elem elem (\<lambda>e. e\<lparr>ge_free := Some Gob_Label, ge_render := Some Gob_Label\<rparr>) s2;
     let s4 = set_field data off_background_color background_color (set_field data off_text_color text_color s3);
     Some (s4\<lparr>mem := fst (strncpy_lib (mem s4) data txt 255)\<rparr>)
   }"

text \<open>The colours of the input box depend on the focus; its text starts at the offset, but its length is
  that of the whole text.\<close>

definition draw_input :: "bool \<Rightarrow> ptr \<Rightarrow> calc_state \<Rightarrow> calc_state option" where
  "draw_input focus elem s =
     (let data = ge_internal (elems s elem); field = (\<lambda>off. load32 (mem s) (data + off)) in
      map_option (\<lambda>n. gob_term_text_fixed (ge_x (elems s elem)) (ge_y (elems s elem))
          (data + field off_offset) n (unat (field off_width)) (chr CHR '' '')
          (if focus then field off_background_color else field off_unfocused_background_color)
          (if focus then field off_text_color else field off_unfocused_text_color) s)
        (strlen_lib (view_at (mem s) data)))"

definition gob_input_focus_changed :: "ptr \<Rightarrow> bool \<Rightarrow> calc_state \<Rightarrow> calc_state option" where
  "gob_input_focus_changed elem focus s =
     (if ge_is_focused (elems s elem) = focus then Some s
      else draw_input focus elem (update_elem elem (ge_is_focused_update (\<lambda>_. focus)) s))"

definition gob_input_render :: "ptr \<Rightarrow> calc_state \<Rightarrow> calc_state option" where
  "gob_input_render elem s = draw_input (ge_is_focused (elems s elem)) elem s"

definition gob_init_input ::
  "ptr \<Rightarrow> int \<Rightarrow> int \<Rightarrow> u32 \<Rightarrow> u32 \<Rightarrow> u32 \<Rightarrow> u32 \<Rightarrow> u32 \<Rightarrow> ptr \<Rightarrow> calc_state \<Rightarrow> calc_state option" where
  "gob_init_input elem x y width text_color background_color unfocused_text_color unfocused_background_color accept_input s = do {
     (s1, data) \<leftarrow> lib_malloc s sizeof_GobInputBoxData;
     let s2 = gob_init_element elem x y False (update_elem elem (ge_internal_update (\<lambda>_. data)) s1);
     let s3 = update_elem elem (\<lambda>e. e\<lparr>ge_render := Some Gob_Input, ge_focus_changed := Some Gob_Input,
           ge_handle_input := Some Gob_Input, ge_can_be_focused := True, ge_free := Some Gob_Input\<rparr>) s2;
     let s4 = set_field data off_text_color text_color (set_field data off_background_color background_color s3);
     let s5 = set_field data off_unfocused_text_color unfocused_text_color
           (set_field data off_unfocused_background_color unfocused_background_color s4);
     Some (set_field data off_input_accepted accept_input (set_field data off_width width s5))
   }"

text \<open>The freeing functions: \<open>input_buffer\<close> is the start of the data itself.\<close>

definition gob_label_free :: "ptr \<Rightarrow> calc_state \<Rightarrow> calc_state option" where
  "gob_label_free elem s = free s (ge_internal (elems s elem))"

definition gob_input_free :: "ptr \<Rightarrow> calc_state \<Rightarrow> calc_state option" where
  "gob_input_free elem s = do {
     s1 \<leftarrow> free s (ge_internal (elems s elem));
     s2 \<leftarrow> free s1 (ge_internal (elems s1 elem));
     free s2 elem
   }"

definition gob_elem_free :: "ptr \<Rightarrow> calc_state \<Rightarrow> calc_state option" where
  "gob_elem_free elem s = do {
     s1 \<leftarrow> (case ge_free (elems s elem) of None \<Rightarrow> None
       | Some Gob_Label \<Rightarrow> gob_label_free elem s | Some Gob_Input \<Rightarrow> gob_input_free elem s);
     free s1 elem
   }"

section \<open>The application\<close>

definition gob_init_app :: "int \<Rightarrow> int \<Rightarrow> u32 \<Rightarrow> calc_state \<Rightarrow> calc_state" where
  "gob_init_app width height background_color s =
     s\<lparr>screen_width := width, screen_height := height, default_background_color := background_color,
       app_root := NULL, current_focus := NULL, alt_state := False, ctrl_state := False, shift_state := False\<rparr>"

definition gob_render_element :: "ptr \<Rightarrow> calc_state \<Rightarrow> calc_state option" where
  "gob_render_element elem s =
     (case ge_render (elems s elem) of None \<Rightarrow> Some s
      | Some Gob_Label \<Rightarrow> gob_label_render elem s | Some Gob_Input \<Rightarrow> gob_input_render elem s)"

partial_function (option) render_loop :: "ptr \<Rightarrow> calc_state \<Rightarrow> calc_state option" where
  "render_loop root s =
     (if root = NULL then Some s
      else case gob_render_element root s of None \<Rightarrow> None
        | Some s1 \<Rightarrow> render_loop (ge_next (elems s1 root)) s1)"

definition draw_status :: "'n calc_env \<Rightarrow> u8 \<Rightarrow> calc_state \<Rightarrow> calc_state" where
  "draw_status env ch s =
     (let s1 = gob_term_line 0 (screen_height s - 1) (screen_width s) ch EC_Magenta EC_Black s
      in gob_term_text 0 (screen_height s - 1) (status_text env) (strnlen (view_at (mem s1) (status_text env)) 80)
           EC_Magenta EC_Yellow s1)"

text \<open>The character of the status line is \<open>'c'\<close>.\<close>

definition gob_app_render :: "'n calc_env \<Rightarrow> calc_state \<Rightarrow> calc_state option" where
  "gob_app_render env s = do {
     s1 \<leftarrow> render_loop (app_root s) (gob_term_clear (default_background_color s) s);
     Some (draw_status env (chr CHR ''c'') s1)
   }"

definition gob_app_set_status :: "'n calc_env \<Rightarrow> ptr \<Rightarrow> calc_state \<Rightarrow> calc_state" where
  "gob_app_set_status env txt s =
     draw_status env (chr CHR '' '') (s\<lparr>mem := fst (strncpy_lib (mem s) (status_text env) txt 80)\<rparr>)"

partial_function (option) last_elem :: "(ptr \<Rightarrow> gob_element) \<Rightarrow> ptr \<Rightarrow> ptr \<Rightarrow> ptr option" where
  "last_elem es res elem = (if elem = NULL then Some res else last_elem es elem (ge_next (es elem)))"

definition gob_app_get_last_elem :: "calc_state \<Rightarrow> ptr option" where
  "gob_app_get_last_elem s = last_elem (elems s) NULL (app_root s)"

text \<open>The first element does not get the focus.\<close>

definition gob_app_add_element :: "ptr \<Rightarrow> calc_state \<Rightarrow> calc_state option" where
  "gob_app_add_element elem s =
     (if elem = NULL then Some s
      else if app_root s = NULL then Some (s\<lparr>app_root := elem\<rparr>)
      else do {
        prev \<leftarrow> last_elem (elems s) (app_root s) (ge_next (elems s (app_root s)));
        let s1 = update_elem prev (ge_next_update (\<lambda>_. elem)) s;
        let s2 = update_elem elem (\<lambda>e. e\<lparr>ge_prev := prev, ge_next := NULL\<rparr>) s1;
        Some (if current_focus s2 = NULL \<and> ge_can_be_focused (elems s2 elem) then s2\<lparr>current_focus := elem\<rparr> else s2)
      })"

definition focus_changed :: "ptr \<Rightarrow> bool \<Rightarrow> calc_state \<Rightarrow> calc_state option" where
  "focus_changed elem focus s =
     (case ge_focus_changed (elems s elem) of Some Gob_Input \<Rightarrow> gob_input_focus_changed elem focus s | _ \<Rightarrow> None)"

text \<open>An element that can be focused was found.\<close>

definition move_focus :: "ptr \<Rightarrow> calc_state \<Rightarrow> calc_state option" where
  "move_focus cur s = do {
     s1 \<leftarrow> (if current_focus s \<noteq> NULL then focus_changed (current_focus s) False s else Some s);
     focus_changed cur True (s1\<lparr>current_focus := cur\<rparr>)
   }"

text \<open>The two loops: the element found, or \<open>NULL\<close> at the end of the list.\<close>

partial_function (option) find_focusable :: "(gob_element \<Rightarrow> ptr) \<Rightarrow> (ptr \<Rightarrow> gob_element) \<Rightarrow> ptr \<Rightarrow> ptr option" where
  "find_focusable nxt es cur =
     (if cur = NULL then Some NULL
      else if ge_can_be_focused (es cur) then Some cur
      else find_focusable nxt es (nxt (es cur)))"

definition focus_forwards_from :: "ptr \<Rightarrow> calc_state \<Rightarrow> (bool \<times> calc_state) option" where
  "focus_forwards_from cur s =
     (if cur = NULL then Some (True, s)
      else do {
        e \<leftarrow> find_focusable ge_next (elems s) cur;
        if e \<noteq> NULL then map_option (Pair True) (move_focus e s) else Some (False, s\<lparr>current_focus := NULL\<rparr>)
      })"

definition gob_app_advance_focus_forwards :: "ptr \<Rightarrow> calc_state \<Rightarrow> calc_state option" where
  "gob_app_advance_focus_forwards start s =
     (if start = NULL then map_option snd (focus_forwards_from (app_root s) s)
      else do {
        (found, s1) \<leftarrow> focus_forwards_from start s;
        if found then Some s1 else map_option snd (focus_forwards_from (app_root s1) s1)
      })"

definition focus_backwards_from :: "ptr \<Rightarrow> calc_state \<Rightarrow> (bool \<times> calc_state) option" where
  "focus_backwards_from cur s =
     (if cur = NULL then Some (True, s)
      else do {
        e \<leftarrow> find_focusable ge_prev (elems s) cur;
        if e \<noteq> NULL then map_option (Pair True) (move_focus e s) else Some (False, s)
      })"

definition gob_app_advance_focus_backwards :: "ptr \<Rightarrow> calc_state \<Rightarrow> calc_state option" where
  "gob_app_advance_focus_backwards start s =
     (if start = NULL then do {
        cur \<leftarrow> gob_app_get_last_elem s;
        map_option snd (focus_backwards_from cur s)
      }
      else do {
        (found, s1) \<leftarrow> focus_backwards_from start s;
        if found then Some s1 else do {
          cur \<leftarrow> gob_app_get_last_elem s1;
          map_option snd (focus_backwards_from cur s1)
        }
      })"

section \<open>A line of input\<close>

text \<open>\<open>strnlen\<close> never exceeds its limit, so the dots are never written; no NUL is written either.\<close>

definition prepare_calc_string :: "ptr \<Rightarrow> ptr \<Rightarrow> nat \<Rightarrow> bmem \<Rightarrow> bmem" where
  "prepare_calc_string src dest max_len m =
     (let src_len = strnlen (view_at m src) max_len;
          copy = (\<lambda>n m. fold (\<lambda>i m. m(dest + of_nat i := m (src + of_nat i))) [0..<n] m);
          fill = (\<lambda>c k m. fold (\<lambda>i m. m(dest + of_nat i := c)) [k..<max_len] m)
      in if max_len < src_len then fill (chr CHR ''.'') (max_len - 3) (copy (max_len - 3) m)
         else if src_len < max_len then fill (chr CHR '' '') src_len (copy src_len m)
         else fst (strncpy_lib m dest src max_len))"

definition call_sprintf :: "'n calc_env \<Rightarrow> ptr \<Rightarrow> string \<Rightarrow> u32 list \<Rightarrow> calc_state \<Rightarrow> calc_state option" where
  "call_sprintf env str fmt args s =
     map_option (\<lambda>(f, _). s\<lparr>mem := g_mem f\<rparr>)
       (gob_sprintf (fmt_float env) str (map of_char fmt) args ((local_file env)\<lparr>g_mem := mem s\<rparr>))"

definition bytes_of :: "bmem \<Rightarrow> ptr \<Rightarrow> nat \<Rightarrow> u8 list" where
  "bytes_of m p n = map (\<lambda>i. m (p + of_nat i)) [0..<n]"

text \<open>Of the last label only the others are initialised by \<open>main\<close>, but its text is written as well.\<close>

definition shift_labels :: "'n calc_env \<Rightarrow> calc_state \<Rightarrow> calc_state option" where
  "shift_labels env s =
     fold (\<lambda>i r. case r of None \<Rightarrow> None
        | Some s \<Rightarrow> map_option (\<lambda>(m, _). s\<lparr>mem := m\<rparr>)
            (strcpy_lib (mem s) (ge_internal (elems s (prev_label env i))) (ge_internal (elems s (prev_label env (i - 1))))))
       (rev [1..<PREV_LABEL_TOTAL_COUNT]) (Some s)"

text \<open>A failure without a message sets the status from the address \<open>NULL\<close>.\<close>

definition report_error :: "'n calc_env \<Rightarrow> calc_error \<Rightarrow> calc_state \<Rightarrow> calc_state option" where
  "report_error env e s =
     (case e of Message msg \<Rightarrow> Some (gob_app_set_status env (lit env msg) s)
      | No_message \<Rightarrow> Some (gob_app_set_status env NULL s)
      | Out_of_bounds \<Rightarrow> None)"

definition accept_math_input :: "'n calc_env \<Rightarrow> ptr \<Rightarrow> ptr \<Rightarrow> calc_state \<Rightarrow> calc_state option" where
  "accept_math_input env elem txt s =
     (case parse_input (number env) (bytes_of (mem s) txt (strnlen (view_at (mem s) txt) 255)) 100 of
        Inl e \<Rightarrow> report_error env e s
      | Inr ops \<Rightarrow>
          case execute (number env) ops of
            Inl e \<Rightarrow> report_error env e s
          | Inr v \<Rightarrow> do {
              s1 \<leftarrow> shift_labels env s;
              s2 \<leftarrow> call_sprintf env (accept_temp env) ''%s = %10.5f'' (accept_op_str env # number_words env v)
                (s1\<lparr>mem := prepare_calc_string txt (accept_op_str env) 5 (mem s1)\<rparr>);
              let s3 = gob_app_set_status env (lit env []) s2;
              (m, _) \<leftarrow> strcpy_lib (mem s3) (ge_internal (elems s3 (prev_label env 0))) (accept_temp env);
              s4 \<leftarrow> gob_app_render env (s3\<lparr>mem := m\<rparr>);
              let data = ge_internal (elems s4 elem);
              Some (set_field data off_buffer_pos 0 (s4\<lparr>mem := fst (memset_lib (mem s4) data 0 255)\<rparr>))
            })"

section \<open>Keys\<close>

abbreviation (input) "KC_TAB \<equiv> 0x0F :: u8"
abbreviation (input) "KC_ENTER \<equiv> 0x1C :: u8"
abbreviation (input) "KC_LEFT_CTRL \<equiv> 0x1D :: u8"
abbreviation (input) "KC_LEFT_ALT \<equiv> 0x38 :: u8"
abbreviation (input) "KC_RIGHT_CTRL \<equiv> 0x56 :: u8"
abbreviation (input) "KC_RIGHT_ALT \<equiv> 0x57 :: u8"

record input_event =
  ie_shift_pressed :: bool
  ie_alt_pressed :: bool
  ie_ctrl_pressed :: bool
  ie_pressed :: bool
  ie_keycode :: u8

definition gob_input_handle_input :: "'n calc_env \<Rightarrow> ptr \<Rightarrow> input_event \<Rightarrow> calc_state \<Rightarrow> calc_state option" where
  "gob_input_handle_input env elem input s =
     (if \<not> ie_pressed input then Some s
      else
        let data = ge_internal (elems s elem); kc = ie_keycode input; pos = load32 (mem s) (data + off_buffer_pos) in
        do {
          s1 \<leftarrow> (if 0x39 < kc \<or> kc \<in> {KC_BACKSPACE, KC_ENTER, KC_LEFT_SHIFT, KC_RIGHT_SHIFT} then
                   if kc = KC_BACKSPACE then
                     if 0 < sint pos then
                       Some (let s' = set_field data off_buffer_pos (pos - 1) s in s'\<lparr>mem := (mem s')(data + (pos - 1) := 0)\<rparr>)
                     else Some s
                   else if kc = KC_ENTER then
                     let accept = load32 (mem s) (data + off_input_accepted) in
                     if accept = NULL then Some s
                     else if accept = accept_address env then accept_math_input env elem data s
                     else None
                   else Some s
                 else
                   Some (let s' = set_field data off_buffer_pos (pos + 1) s
                         in s'\<lparr>mem := (mem s')(data + pos := keycode_to_ascii kc (if ie_shift_pressed input then 1 else 0))\<rparr>));
          draw_input True elem s1
        })"

text \<open>All modifier keys set \<open>shift_state\<close>. Without a focus TAB reads through \<open>NULL\<close>.\<close>

definition gob_app_handle_input :: "'n calc_env \<Rightarrow> u8 \<Rightarrow> bool \<Rightarrow> calc_state \<Rightarrow> calc_state option" where
  "gob_app_handle_input env kc pressed s =
     (if kc = KC_TAB then
        if current_focus s = NULL then None
        else if shift_state s then gob_app_advance_focus_backwards (ge_prev (elems s (current_focus s))) s
        else gob_app_advance_focus_forwards (ge_next (elems s (current_focus s))) s
      else
        let s1 = (if kc \<in> {KC_LEFT_SHIFT, KC_RIGHT_SHIFT} then s\<lparr>shift_state := pressed\<rparr> else s);
            s2 = (if kc \<in> {KC_LEFT_CTRL, KC_RIGHT_CTRL} then s1\<lparr>shift_state := pressed\<rparr> else s1);
            s3 = (if kc \<in> {KC_LEFT_ALT, KC_RIGHT_ALT} then s2\<lparr>shift_state := pressed\<rparr> else s2)
        in if current_focus s3 = NULL then Some s3
           else case ge_handle_input (elems s3 (current_focus s3)) of
             None \<Rightarrow> Some s3
           | Some Gob_Label \<Rightarrow> None
           | Some Gob_Input \<Rightarrow> gob_input_handle_input env (current_focus s3)
               \<lparr>ie_shift_pressed = shift_state s3, ie_alt_pressed = alt_state s3, ie_ctrl_pressed = ctrl_state s3,
                ie_pressed = pressed, ie_keycode = kc\<rparr> s3)"

section \<open>The program\<close>

text \<open>The formatted demonstration text, with its three numbers as the words of a \<open>double\<close>.\<close>

definition demo_format :: string where
  "demo_format = ''(%f / %d) * (%u / %u) - %f * (%.3f + 2)''"

definition demo_args :: "u32 list" where
  "demo_args = [0x0D1B7176, 0x4014EDE0, 2, 69, 420, 0x8B439581, 0x406D076C, 0x278C3604, 0x40223F27]"

definition add_labels :: "'n calc_env \<Rightarrow> calc_state \<Rightarrow> calc_state option" where
  "add_labels env s =
     fold (\<lambda>i r. case r of None \<Rightarrow> None
        | Some s \<Rightarrow> do {
            s1 \<leftarrow> gob_init_label (prev_label env i) (lit env []) 0 (int PREV_LABEL_TOTAL_COUNT - int i) EC_Black EC_LightGray s;
            gob_app_add_element (prev_label env i) s1
          }) [0..<PREV_LABEL_TOTAL_COUNT - 1] (Some s)"

definition calc_main_init :: "'n calc_env \<Rightarrow> calc_state \<Rightarrow> calc_state option" where
  "calc_main_init env s = do {
     s1 \<leftarrow> call_sprintf env (main_buffer env) demo_format demo_args (s\<lparr>app_running := True\<rparr>);
     s2 \<leftarrow> gob_init_label (input_temp_label env) (main_buffer env) 20 5 EC_Blue EC_White s1;
     s3 \<leftarrow> gob_init_input (input_box env) 0 23 80 EC_Black EC_LightGray EC_White EC_DarkGray (accept_address env) s2;
     s4 \<leftarrow> gob_app_add_element (input_temp_label env) (gob_init_app 80 25 EC_Green s3);
     s5 \<leftarrow> gob_app_add_element (input_box env) s4;
     s6 \<leftarrow> add_labels env s5;
     gob_app_render env (gob_app_set_status env (lit env ''hello looser!'') s6)
   }"

text \<open>\<open>wait_for_key\<close> masks the scan code, and \<open>main\<close> does so again.\<close>

definition wait_for_key :: "KeyboardEvent \<Rightarrow> u8 \<times> bool" where
  "wait_for_key event = (scancode_to_keycode (ucast (ev_scancode event)), ev_type event = KEY_PRESSED)"

definition calc_iteration :: "'n calc_env \<Rightarrow> KeyboardEvent \<Rightarrow> calc_state \<Rightarrow> calc_state option" where
  "calc_iteration env event s =
     (case wait_for_key event of (code, pressed) \<Rightarrow> gob_app_handle_input env (scancode_to_keycode code) pressed s)"

text \<open>Nothing clears \<open>running\<close>: the loop ends with the events.\<close>

fun calc_main_loop :: "'n calc_env \<Rightarrow> KeyboardEvent list \<Rightarrow> calc_state \<Rightarrow> calc_state option" where
  "calc_main_loop env [] s = Some s"
| "calc_main_loop env (event # events) s =
     (if app_running s then
        (case calc_iteration env event s of None \<Rightarrow> None | Some s1 \<Rightarrow> calc_main_loop env events s1)
      else Some s)"

end
