(* ===== verification/CalcScreen.thy ===== *)
theory CalcScreen
  imports CalcUI Render
begin

text \<open>
  What the screen of the calculator does: which element TAB goes to, what typing leaves in the input
  box and on the screen, and what Enter reports for a line that is no expression.
\<close>

section \<open>Moving the focus\<close>

text \<open>The elements of a list from \<open>p\<close> on, behind \<open>prev\<close>.\<close>

fun linked :: "(ptr \<Rightarrow> gob_element) \<Rightarrow> ptr \<Rightarrow> ptr \<Rightarrow> ptr list \<Rightarrow> bool" where
  "linked es prev p [] \<longleftrightarrow> p = NULL"
| "linked es prev p (x # xs) \<longleftrightarrow> p = x \<and> x \<noteq> NULL \<and> ge_prev (es x) = prev \<and> linked es x (ge_next (es x)) xs"

definition first_focusable :: "(ptr \<Rightarrow> gob_element) \<Rightarrow> ptr list \<Rightarrow> ptr" where
  "first_focusable es xs = (case find (\<lambda>e. ge_can_be_focused (es e)) xs of None \<Rightarrow> NULL | Some e \<Rightarrow> e)"

lemma first_focusable_simps [simp]:
  "first_focusable es [] = NULL"
  "first_focusable es (x # xs) = (if ge_can_be_focused (es x) then x else first_focusable es xs)"
  by (simp_all add: first_focusable_def)

lemma first_focusable_append:
  "NULL \<notin> set xs \<Longrightarrow> first_focusable es (xs @ ys) = (if first_focusable es xs = NULL then first_focusable es ys else first_focusable es xs)"
  by (induction xs) auto

lemma first_focusable_None: "NULL \<notin> set xs \<Longrightarrow> first_focusable es xs = NULL \<longleftrightarrow> (\<forall>x\<in>set xs. \<not> ge_can_be_focused (es x))"
  by (induction xs) auto

lemma first_focusable_in: "first_focusable es xs \<noteq> NULL \<Longrightarrow> first_focusable es xs \<in> set xs \<and> ge_can_be_focused (es (first_focusable es xs))"
  by (induction xs) (auto split: if_splits)

lemma linked_no_NULL: "linked es prev p xs \<Longrightarrow> NULL \<notin> set xs"
  by (induction xs arbitrary: prev p) auto

lemma elements_append:
  "linked es prev p (xs @ y # ys) \<Longrightarrow> linked es y (ge_next (es y)) ys \<and> ge_prev (es y) = (if xs = [] then prev else last xs)"
proof (induction xs arbitrary: prev p)
  case (Cons x xs)
  then show ?case by (cases xs) simp_all
qed simp

lemma find_forwards: "linked es prev p xs \<Longrightarrow> find_focusable ge_next es p = Some (first_focusable es xs)"
proof (induction xs arbitrary: prev p)
  case Nil
  then show ?case by (subst find_focusable.simps) simp
next
  case (Cons x xs)
  then have "find_focusable ge_next es (ge_next (es x)) = Some (first_focusable es xs)" using Cons.IH [of x "ge_next (es x)"] by simp
  then show ?case using Cons.prems by (subst find_focusable.simps) simp
qed

definition end_of :: "ptr list \<Rightarrow> ptr" where
  "end_of xs = (if xs = [] then NULL else last xs)"

lemma find_backwards: "linked es NULL p (xs @ ys) \<Longrightarrow> find_focusable ge_prev es (end_of xs) = Some (first_focusable es (rev xs))"
proof (induction xs arbitrary: ys rule: rev_induct)
  case Nil
  then show ?case by (subst find_focusable.simps) (simp add: end_of_def)
next
  case (snoc x xs)
  then have "linked es NULL p (xs @ x # ys)" by simp
  then have "ge_prev (es x) = end_of xs" using elements_append [of es NULL p xs x ys] by (simp add: end_of_def)
  moreover have "x \<noteq> NULL" using linked_no_NULL [OF snoc.prems] by auto
  ultimately show ?case using snoc.IH [of "x # ys"] snoc.prems
    by (subst find_focusable.simps) (simp add: end_of_def)
qed

lemma last_elem_linked: "linked es prev p xs \<Longrightarrow> last_elem es r p = Some (if xs = [] then r else last xs)"
proof (induction xs arbitrary: prev p r)
  case Nil
  then show ?case by (subst last_elem.simps) simp
next
  case (Cons x xs)
  then have "last_elem es x (ge_next (es x)) = Some (if xs = [] then x else last xs)"
    using Cons.IH [of x "ge_next (es x)" x] by simp
  then show ?case using Cons.prems by (subst last_elem.simps) simp
qed

text \<open>An element that draws itself when its focus changes.\<close>

definition drawable :: "calc_state \<Rightarrow> ptr \<Rightarrow> bool" where
  "drawable s e \<longleftrightarrow> ge_focus_changed (elems s e) = Some Gob_Input \<and> (\<exists>n. strlen_lib (view_at (mem s) (ge_internal (elems s e))) = Some n)"

definition mark :: "ptr \<Rightarrow> bool \<Rightarrow> (ptr \<Rightarrow> gob_element) \<Rightarrow> ptr \<Rightarrow> gob_element" where
  "mark e b es = es(e := (es e)\<lparr>ge_is_focused := b\<rparr>)"

lemma mark_simps [simp]: "ge_can_be_focused (mark e b es x) = ge_can_be_focused (es x)" "ge_next (mark e b es x) = ge_next (es x)"
  "ge_prev (mark e b es x) = ge_prev (es x)" "ge_focus_changed (mark e b es x) = ge_focus_changed (es x)"
  "ge_internal (mark e b es x) = ge_internal (es x)" "ge_is_focused (mark e b es x) = (if x = e then b else ge_is_focused (es x))"
  by (simp_all add: mark_def)

text \<open>A step that changes focus marks and the screen only.\<close>

definition only_focus :: "calc_state \<Rightarrow> calc_state \<Rightarrow> bool" where
  "only_focus s s' \<longleftrightarrow> s'\<lparr>elems := elems s, text_buffer := text_buffer s, current_focus := current_focus s\<rparr> = s"

lemma only_focus_refl [simp]: "only_focus s s"
  by (simp add: only_focus_def)

lemma only_focus_trans: "only_focus s s' \<Longrightarrow> only_focus s' s'' \<Longrightarrow> only_focus s s''"
  by (cases s; cases s'; cases s'') (simp add: only_focus_def)

lemma only_focus_fields:
  "only_focus s s' \<Longrightarrow> mem s' = mem s \<and> app_root s' = app_root s \<and> shift_state s' = shift_state s"
  by (cases s; cases s') (simp add: only_focus_def)

lemma draw_input_screen:
  "strlen_lib (view_at (mem s) (ge_internal (elems s e))) = Some n \<Longrightarrow> \<exists>scr. draw_input b e s = Some (s\<lparr>text_buffer := scr\<rparr>)"
  by (simp add: draw_input_def Let_def gob_term_text_fixed_def put_cells_def) (intro conjI impI exI, rule refl, rule refl)

lemma focus_changed_marks:
  assumes "drawable s e"
  shows "\<exists>s'. focus_changed e b s = Some s' \<and> only_focus s s' \<and> elems s' = mark e b (elems s) \<and> current_focus s' = current_focus s"
proof (cases "ge_is_focused (elems s e) = b")
  case True
  then have "mark e b (elems s) = elems s" by (auto simp: mark_def)
  then show ?thesis using True assms by (simp add: focus_changed_def gob_input_focus_changed_def drawable_def)
next
  case False
  let ?s = "update_elem e (ge_is_focused_update (\<lambda>_. b)) s"
  obtain n where "strlen_lib (view_at (mem s) (ge_internal (elems s e))) = Some n" using assms by (auto simp: drawable_def)
  then obtain scr where "draw_input b e ?s = Some (?s\<lparr>text_buffer := scr\<rparr>)"
    using draw_input_screen [of ?s e n b] by (auto simp: update_elem_def)
  moreover have "ge_focus_changed (elems s e) = Some Gob_Input" using assms by (simp add: drawable_def)
  ultimately show ?thesis using False
    by (simp add: focus_changed_def gob_input_focus_changed_def only_focus_def update_elem_def mark_def)
qed

lemma move_focus_marks:
  assumes "drawable s e" "current_focus s \<noteq> NULL \<longrightarrow> drawable s (current_focus s)"
  shows "\<exists>s'. move_focus e s = Some s' \<and> only_focus s s' \<and> current_focus s' = e \<and>
    elems s' = mark e True (if current_focus s = NULL then elems s else mark (current_focus s) False (elems s))"
proof -
  let ?es = "if current_focus s = NULL then elems s else mark (current_focus s) False (elems s)"
  have "\<exists>s1. (if current_focus s \<noteq> NULL then focus_changed (current_focus s) False s else Some s) = Some s1 \<and> only_focus s s1 \<and> elems s1 = ?es"
    using focus_changed_marks [of s "current_focus s" False] assms(2) by (cases "current_focus s = NULL") auto
  then obtain s1 where s1: "(if current_focus s \<noteq> NULL then focus_changed (current_focus s) False s else Some s) = Some s1"
    "only_focus s s1" "elems s1 = ?es" by blast
  have "drawable (s1\<lparr>current_focus := e\<rparr>) e"
    using assms(1) only_focus_fields [OF s1(2)] s1(3) by (simp add: drawable_def)
  from focus_changed_marks [OF this, of True] obtain s2 where
    s2: "focus_changed e True (s1\<lparr>current_focus := e\<rparr>) = Some s2" "only_focus (s1\<lparr>current_focus := e\<rparr>) s2"
      "elems s2 = mark e True (elems s1)" "current_focus s2 = e" by auto
  have "only_focus s1 (s1\<lparr>current_focus := e\<rparr>)" by (simp add: only_focus_def)
  then have "only_focus s s2" using s1(2) s2(2) only_focus_trans by blast
  then show ?thesis using s1 s2 by (simp add: move_focus_def)
qed

text \<open>The elements that TAB tries, in order: after or before the one with the focus, and around.\<close>

definition tab_order :: "bool \<Rightarrow> ptr list \<Rightarrow> ptr \<Rightarrow> ptr list \<Rightarrow> ptr list" where
  "tab_order backwards xs f ys = (if backwards then rev xs @ rev ys @ [f] else ys @ xs @ [f])"

definition wraps :: "bool \<Rightarrow> calc_state \<Rightarrow> ptr list \<Rightarrow> bool" where
  "wraps backwards s ys \<longleftrightarrow> \<not> backwards \<and> ys \<noteq> [] \<and> (\<forall>y\<in>set ys. \<not> ge_can_be_focused (elems s y))"

lemma forwards_moves:
  assumes "linked (elems s) NULL (app_root s) (xs @ f # ys)" "current_focus s = f" "ge_can_be_focused (elems s f)"
    "\<forall>e\<in>set (xs @ f # ys). ge_can_be_focused (elems s e) \<longrightarrow> drawable s e"
  defines "g \<equiv> first_focusable (elems s) (ys @ xs @ [f])"
  shows "\<exists>s'. gob_app_advance_focus_forwards (ge_next (elems s f)) s = Some s' \<and> only_focus s s' \<and> current_focus s' = g \<and>
    elems s' = mark g True (if wraps False s ys then elems s else mark f False (elems s))"
proof -
  note N = linked_no_NULL [OF assms(1)]
  have f: "f \<noteq> NULL" "drawable s f" using N assms(3,4) by auto
  have ys: "find_focusable ge_next (elems s) (ge_next (elems s f)) = Some (first_focusable (elems s) ys)"
    using elements_append [OF assms(1)] find_forwards by blast
  show ?thesis
  proof (cases "first_focusable (elems s) ys = NULL")
    case False
    then have g: "g = first_focusable (elems s) ys" using N first_focusable_append [of ys "elems s" "xs @ [f]"] by (simp add: g_def)
    have w: "\<not> wraps False s ys" using False first_focusable_None [of ys "elems s"] N by (auto simp: wraps_def)
    have "drawable s g" using first_focusable_in [OF False] assms(4) g by simp
    moreover have "ge_next (elems s f) \<noteq> NULL"
      using False elements_append [OF assms(1)] by (cases ys) auto
    ultimately show ?thesis using move_focus_marks [of s g] ys False g w f assms(2)
      by (auto simp: gob_app_advance_focus_forwards_def focus_forwards_from_def)
  next
    case True
    have all: "find_focusable ge_next (elems s) (app_root s) = Some (first_focusable (elems s) (xs @ f # ys))"
      using assms(1) find_forwards by blast
    have g: "first_focusable (elems s) (xs @ f # ys) = g" "g \<in> set (xs @ [f])" "ge_can_be_focused (elems s g)"
      using N True assms(3) f first_focusable_append [of ys "elems s" "xs @ [f]"] first_focusable_append [of xs "elems s" "f # ys"]
        first_focusable_append [of xs "elems s" "[f]"] first_focusable_in [of "elems s" "xs @ [f]"]
      by (auto simp: g_def split: if_splits)
    then have d: "drawable s g" "g \<noteq> NULL" using assms(4) N by auto
    have root: "app_root s \<noteq> NULL" using assms(1) by (cases xs) auto
    show ?thesis
    proof (cases "ys = []")
      case True
      then have "ge_next (elems s f) = NULL" "\<not> wraps False s ys"
        using elements_append [OF assms(1)] by (auto simp: wraps_def)
      then show ?thesis using move_focus_marks [OF d(1)] all root g(1) d(2) f assms(2)
        by (auto simp: gob_app_advance_focus_forwards_def focus_forwards_from_def)
    next
      case False
      let ?s = "s\<lparr>current_focus := NULL\<rparr>"
      have w: "wraps False s ys" using True False first_focusable_None [of ys "elems s"] N by (auto simp: wraps_def)
      have "ge_next (elems s f) \<noteq> NULL" using False elements_append [OF assms(1)] by (cases ys) auto
      moreover have "drawable ?s g" using d(1) by (simp add: drawable_def)
      from move_focus_marks [OF this] obtain s' where
        s': "move_focus g ?s = Some s'" "only_focus ?s s'" "current_focus s' = g" "elems s' = mark g True (elems s)" by auto
      moreover have "only_focus s s'" using s'(2) by (rule only_focus_trans [rotated]) (simp add: only_focus_def)
      ultimately show ?thesis using ys True all root g(1) w d(2)
        by (simp add: gob_app_advance_focus_forwards_def focus_forwards_from_def)
    qed
  qed
qed

lemma backwards_moves:
  assumes "linked (elems s) NULL (app_root s) (xs @ f # ys)" "current_focus s = f" "ge_can_be_focused (elems s f)"
    "\<forall>e\<in>set (xs @ f # ys). ge_can_be_focused (elems s e) \<longrightarrow> drawable s e"
  defines "g \<equiv> first_focusable (elems s) (rev xs @ rev ys @ [f])"
  shows "\<exists>s'. gob_app_advance_focus_backwards (ge_prev (elems s f)) s = Some s' \<and> only_focus s s' \<and> current_focus s' = g \<and>
    elems s' = mark g True (mark f False (elems s))"
proof -
  note N = linked_no_NULL [OF assms(1)]
  have f: "f \<noteq> NULL" "drawable s f" using N assms(3,4) by auto
  have p: "ge_prev (elems s f) = end_of xs" using elements_append [OF assms(1)] by (simp add: end_of_def)
  have xs: "find_focusable ge_prev (elems s) (end_of xs) = Some (first_focusable (elems s) (rev xs))"
    using find_backwards [OF assms(1)] .
  have all: "find_focusable ge_prev (elems s) (last (xs @ f # ys)) = Some (first_focusable (elems s) (rev (xs @ f # ys)))"
    using find_backwards [of "elems s" "app_root s" "xs @ f # ys" "[]"] assms(1) by (simp add: end_of_def)
  have l: "gob_app_get_last_elem s = Some (last (xs @ f # ys))" "last (xs @ f # ys) \<noteq> NULL"
    using last_elem_linked [OF assms(1), of NULL] N last_in_set [of "xs @ f # ys"] by (simp_all add: gob_app_get_last_elem_def) metis
  have gin: "g \<in> set (rev xs @ rev ys @ [f])" "ge_can_be_focused (elems s g)" "g \<noteq> NULL"
    using first_focusable_in [of "elems s" "rev xs @ rev ys @ [f]"] first_focusable_None [of "rev xs @ rev ys @ [f]" "elems s"] N assms(3)
    by (auto simp: g_def)
  then have d: "drawable s g" using assms(4) by auto
  from move_focus_marks [OF this] obtain s' where
    s': "move_focus g s = Some s'" "only_focus s s'" "current_focus s' = g" "elems s' = mark g True (mark f False (elems s))"
    using f assms(2) by auto
  show ?thesis
  proof (cases "first_focusable (elems s) (rev xs) = NULL")
    case False
    then have "g = first_focusable (elems s) (rev xs)" "xs \<noteq> []"
      using N first_focusable_append [of "rev xs" "elems s" "rev ys @ [f]"] by (auto simp: g_def)
    moreover have "last xs \<in> set xs" using \<open>xs \<noteq> []\<close> by (rule last_in_set)
    then have "end_of xs \<noteq> NULL" using N \<open>xs \<noteq> []\<close> by (auto simp: end_of_def simp del: last_in_set)
    ultimately show ?thesis using s' p xs False
      by (simp add: gob_app_advance_focus_backwards_def focus_backwards_from_def)
  next
    case True
    have "first_focusable (elems s) (rev (xs @ f # ys)) = g"
      using N True assms(3) f first_focusable_append [of "rev xs" "elems s" "rev ys @ [f]"]
        first_focusable_append [of "rev ys" "elems s" "f # rev xs"] first_focusable_append [of "rev ys" "elems s" "[f]"]
      by (simp add: g_def)
    then show ?thesis using s' p xs all l True \<open>g \<noteq> NULL\<close>
      by (auto simp: gob_app_advance_focus_backwards_def focus_backwards_from_def)
  qed
qed

text \<open>C39: when every element that can take the focus can draw itself, TAB (Shift TAB) moves the focus to the next
  (previous) element of the list that can take it, around the end; that element is marked, the one that had the focus no
  longer, and nothing else but the screen changes. Only when TAB passes the end of the list behind elements that
  cannot take the focus, the old element stays marked.\<close>

theorem tab_moves_focus:
  assumes "linked (elems s) NULL (app_root s) (xs @ f # ys)" "current_focus s = f" "ge_can_be_focused (elems s f)"
    "\<forall>e\<in>set (xs @ f # ys). ge_can_be_focused (elems s e) \<longrightarrow> drawable s e"
  shows "\<exists>s'. gob_app_handle_input env KC_TAB pressed s = Some s' \<and> only_focus s s' \<and>
    current_focus s' = first_focusable (elems s) (tab_order (shift_state s) xs f ys) \<and>
    elems s' = mark (current_focus s') True (if wraps (shift_state s) s ys then elems s else mark f False (elems s))"
proof -
  have "f \<noteq> NULL" using linked_no_NULL [OF assms(1)] by auto
  then show ?thesis
    using forwards_moves [OF assms] backwards_moves [OF assms] assms(2)
    by (cases "shift_state s") (auto simp: gob_app_handle_input_def tab_order_def wraps_def)
qed

lemma strlen_empty: "strlen_lib (view_at (\<lambda>_. 0) p) = Some 0"
  by (simp add: strlen_lib_def view_at_def strlen_from.simps)

theorem tab_moves_focus_witness:
  "\<forall>env :: int calc_env. \<exists>s'. gob_app_handle_input env KC_TAB True
     \<lparr>heap = 0, heap_size = 0, first_entry = 0, mem = \<lambda>_. 0,
      elems = (\<lambda>e. \<lparr>ge_prev = e - 100, ge_next = (if e < 300 then e + 100 else 0), ge_internal = 1000, ge_is_focused = (e = 200),
        ge_can_be_focused = (e \<noteq> 100), ge_x = 0, ge_y = 0, ge_render = None, ge_handle_input = Some Gob_Input,
        ge_focus_changed = Some Gob_Input, ge_free = None\<rparr>),
      text_buffer = \<lambda>_. 0, screen_width = 80, screen_height = 25, app_root = 100, current_focus = 200,
      default_background_color = 0, app_running = True, shift_state = False, alt_state = False, ctrl_state = False\<rparr> = Some s' \<and>
     current_focus s' = 300 \<and> map (\<lambda>e. ge_is_focused (elems s' e)) [100, 200, 300] = [False, False, True]"
proof
  fix env :: "int calc_env"
  let ?s = "\<lparr>heap = 0, heap_size = 0, first_entry = 0, mem = \<lambda>_. 0,
      elems = (\<lambda>e. \<lparr>ge_prev = e - 100, ge_next = (if e < 300 then e + 100 else 0), ge_internal = 1000, ge_is_focused = (e = 200),
        ge_can_be_focused = (e \<noteq> 100), ge_x = 0, ge_y = 0, ge_render = None, ge_handle_input = Some Gob_Input,
        ge_focus_changed = Some Gob_Input, ge_free = None\<rparr>),
      text_buffer = \<lambda>_. 0, screen_width = 80, screen_height = 25, app_root = 100, current_focus = 200,
      default_background_color = 0, app_running = True, shift_state = False, alt_state = False, ctrl_state = False\<rparr>"
  show "\<exists>s'. gob_app_handle_input env KC_TAB True ?s = Some s' \<and> current_focus s' = 300 \<and>
      map (\<lambda>e. ge_is_focused (elems s' e)) [100, 200, 300] = [False, False, True]"
    using tab_moves_focus [of ?s "[100]" 200 "[300]" env True]
    by (auto simp: drawable_def strlen_empty tab_order_def wraps_def)
qed

section \<open>Typing\<close>

lemma put_cells_at:
  "text_buffer (put_cells a k n f s) i = (if a + int k \<le> i \<and> i < a + int n then f (nat (i - a)) else text_buffer s i)"
proof (induction n)
  case (Suc n)
  show ?case
  proof (cases "k \<le> n")
    case True
    then show ?thesis using Suc by (auto simp: put_cells_def)
  qed (auto simp: put_cells_def)
qed (auto simp: put_cells_def)

lemma put_cells_keeps [simp]:
  "mem (put_cells a k n f s) = mem s" "elems (put_cells a k n f s) = elems s" "screen_width (put_cells a k n f s) = screen_width s"
  "screen_height (put_cells a k n f s) = screen_height s"
  "current_focus (put_cells a k n f s) = current_focus s" "shift_state (put_cells a k n f s) = shift_state s"
  "app_running (put_cells a k n f s) = app_running s" "app_root (put_cells a k n f s) = app_root s"
  by (simp_all add: put_cells_def)

lemma text_not_field: "n < 256 \<Longrightarrow> 256 \<le> x \<Longrightarrow> of_nat n \<noteq> (x :: u32) \<and> x \<noteq> of_nat n"
proof -
  assume n: "n < 256" and x: "256 \<le> x"
  then have "of_nat n < x" by (simp add: word_less_nat_alt word_le_nat_alt unat_of_nat_u32)
  then show "of_nat n \<noteq> x \<and> x \<noteq> of_nat n" by auto
qed

text \<open>The fields of an input box that typing leaves alone.\<close>

definition box_fields :: "bmem \<Rightarrow> ptr \<Rightarrow> u32 list" where
  "box_fields m data = map (\<lambda>off. load32 m (data + off))
     [off_text_color, off_background_color, off_width, off_offset, off_unfocused_text_color, off_unfocused_background_color, off_input_accepted]"

lemma box_fields_text: "n < 256 \<Longrightarrow> box_fields (m(data + of_nat n := c)) data = box_fields m data"
  by (simp add: box_fields_def load32_def add.assoc text_not_field)

lemma box_fields_pos: "box_fields (store32 m (data + off_buffer_pos) v) data = box_fields m data"
  by (simp add: box_fields_def load32_def store32_def add.assoc)

lemma pos_text: "n < 256 \<Longrightarrow> load32 (m(data + of_nat n := c)) (data + off_buffer_pos) = load32 m (data + off_buffer_pos)"
  by (simp add: load32_def add.assoc text_not_field)

lemma text_pos: "n < 256 \<Longrightarrow> store32 m (data + off_buffer_pos) v (data + of_nat n) = m (data + of_nat n)"
  by (simp add: store32_def add.assoc text_not_field)

text \<open>The text in the buffer, with zeros behind it, and its length.\<close>

definition box_holds :: "bmem \<Rightarrow> ptr \<Rightarrow> u8 list \<Rightarrow> bool" where
  "box_holds m data t \<longleftrightarrow> length t < 255 \<and> 0 \<notin> set t \<and>
     (\<forall>i<255. m (data + of_nat i) = (if i < length t then t ! i else 0)) \<and> load32 m (data + off_buffer_pos) = of_nat (length t)"

lemma box_holds_cstr: "box_holds m data t \<Longrightarrow> cstr_at m data t"
  by (auto simp: box_holds_def cstr_at_nth in_set_conv_nth)

lemma offset_eq_small: "i < 256 \<Longrightarrow> j < 256 \<Longrightarrow> (of_nat i :: u32) = of_nat j \<longleftrightarrow> i = j"
  by (simp add: word_unat_eq_iff unat_of_nat_u32)

lemma box_type:
  assumes "box_holds m data t" "c \<noteq> 0" "length t + 1 < 255"
  shows "box_holds ((store32 m (data + off_buffer_pos) (of_nat (length t) + 1))(data + of_nat (length t) := c)) data (t @ [c])"
  using assms unfolding box_holds_def
  by (auto simp: pos_text text_pos offset_eq_small nth_append)

lemma box_delete:
  assumes "box_holds m data t" "t \<noteq> []"
  shows "box_holds ((store32 m (data + off_buffer_pos) (of_nat (length t) - 1))(data + (of_nat (length t) - 1) := 0)) data (butlast t)"
proof -
  have l: "length t < 255" using assms(1) by (simp add: box_holds_def)
  obtain n where n: "length t = Suc n" using assms(2) by (cases t) auto
  then have "(of_nat (length t) - 1 :: u32) = of_nat n" by simp
  then show ?thesis using assms(1) l n unfolding box_holds_def
    by (auto simp: pos_text text_pos offset_eq_small nth_butlast dest: in_set_butlastD)
qed

definition key_of :: "KeyboardEvent \<Rightarrow> u8" where
  "key_of event = scancode_to_keycode (ucast (ev_scancode event))"

definition key_pressed :: "KeyboardEvent \<Rightarrow> bool" where
  "key_pressed event \<longleftrightarrow> ev_type event = KEY_PRESSED"

definition shift_key :: "u8 \<Rightarrow> bool" where
  "shift_key kc \<longleftrightarrow> kc = KC_LEFT_SHIFT \<or> kc = KC_RIGHT_SHIFT"

text \<open>The text and the shift state after a key: what the box is meant to do.\<close>

definition typed :: "u8 list \<times> bool \<Rightarrow> KeyboardEvent \<Rightarrow> u8 list \<times> bool" where
  "typed ts event = (case ts of (t, shift) \<Rightarrow>
     let kc = key_of event; shift' = (if shift_key kc then key_pressed event else shift)
     in (if \<not> key_pressed event then t
         else if kc = KC_BACKSPACE then butlast t
         else if 0x39 < kc \<or> shift_key kc then t
         else t @ [keycode_to_ascii kc (if shift' then 1 else 0)], shift'))"

text \<open>Keys with a character, backspace, shift and those behind the space key; not TAB, Enter, Ctrl and Alt, nor
  the keys among the others that have no character.\<close>

definition plain_key :: "KeyboardEvent \<Rightarrow> bool" where
  "plain_key event \<longleftrightarrow> (let kc = key_of event in
     kc \<notin> {KC_TAB, KC_ENTER, KC_LEFT_CTRL, KC_LEFT_ALT, KC_RIGHT_CTRL, KC_RIGHT_ALT} \<and>
     (0x39 < kc \<or> kc = KC_BACKSPACE \<or> shift_key kc \<or> (keycode_to_ascii kc 0 \<noteq> 0 \<and> keycode_to_ascii kc 1 \<noteq> 0)))"

definition input_ready :: "calc_state \<Rightarrow> ptr \<Rightarrow> u8 list \<Rightarrow> bool" where
  "input_ready s e t \<longleftrightarrow> (let data = ge_internal (elems s e) in
     box_holds (mem s) data t \<and> load32 (mem s) (data + off_offset) = 0 \<and> ge_handle_input (elems s e) = Some Gob_Input \<and>
     current_focus s = e \<and> e \<noteq> NULL)"

text \<open>The text is on the screen in the colours of the focus, with blanks up to the width.\<close>

definition input_shows :: "calc_state \<Rightarrow> ptr \<Rightarrow> u8 list \<Rightarrow> bool" where
  "input_shows s e t \<longleftrightarrow> (let el = elems s e; data = ge_internal el; field = (\<lambda>off. load32 (mem s) (data + off)) in
     \<forall>j < min (nat (screen_width s - ge_x el)) (unat (field off_width)).
       text_buffer s (cell_index (ge_x el) (ge_y el) s + int j) =
         gob_cell (field off_background_color) (field off_text_color) (if j < length t then t ! j else 32))"

lemma strlen_box: "box_holds m data t \<Longrightarrow> strlen_lib (view_at m data) = Some (length t)"
proof -
  assume h: "box_holds m data t"
  then have v: "view_at m data (length t) = 0" "\<And>k. k < length t \<Longrightarrow> view_at m data k \<noteq> 0"
    by (auto simp: box_holds_def view_at_def in_set_conv_nth)
  have "strlen_from (view_at m data) k = Some (length t)" if "k \<le> length t" for k
    using that
  proof (induction rule: inc_induct)
    case base
    then show ?case using v(1) by (subst strlen_from.simps) simp
  next
    case (step k)
    then show ?case using v(2) [of k] by (subst strlen_from.simps) simp
  qed
  then show ?thesis by (simp add: strlen_lib_def)
qed

lemma text_fixed_at:
  "j < min (nat (screen_width s - x)) len \<Longrightarrow>
     text_buffer (gob_term_text_fixed x y txt n len c bg fg s) (cell_index x y s + int j) =
       gob_cell bg fg (if j < n then mem s (txt + of_nat j) else c)"
  by (auto simp: gob_term_text_fixed_def Let_def put_cells_at cell_index_def)

lemma text_fixed_screen: "\<exists>scr. gob_term_text_fixed x y txt n len c bg fg s = s\<lparr>text_buffer := scr\<rparr>"
  by (simp add: gob_term_text_fixed_def Let_def put_cells_def) (intro exI, rule refl)

lemma draw_input_shows:
  assumes "box_holds (mem s) (ge_internal (elems s e)) t" "load32 (mem s) (ge_internal (elems s e) + off_offset) = 0"
  shows "\<exists>scr. draw_input True e s = Some (s\<lparr>text_buffer := scr\<rparr>) \<and> input_shows (s\<lparr>text_buffer := scr\<rparr>) e t"
proof -
  let ?el = "elems s e" and ?f = "\<lambda>off. load32 (mem s) (ge_internal (elems s e) + off)"
  let ?s = "gob_term_text_fixed (ge_x ?el) (ge_y ?el) (ge_internal ?el) (length t) (unat (?f off_width)) 32 (?f off_background_color) (?f off_text_color) s"
  have d: "draw_input True e s = Some ?s"
    by (simp add: draw_input_def Let_def strlen_box [OF assms(1)] assms(2))
  have m: "mem s (ge_internal ?el + of_nat j) = t ! j" if "j < length t" for j
    using assms(1) that by (auto simp: box_holds_def)
  obtain scr where scr: "?s = s\<lparr>text_buffer := scr\<rparr>" using text_fixed_screen by blast
  have "input_shows (s\<lparr>text_buffer := scr\<rparr>) e t"
    unfolding scr [symmetric] using text_fixed_at [of _ s "ge_x ?el" "unat (?f off_width)"] m
    by (simp add: input_shows_def Let_def gob_term_text_fixed_def cell_index_def)
  then show ?thesis using d scr by (intro exI [of _ scr]) simp
qed

text \<open>What the steps below leave alone.\<close>

definition same_ui :: "calc_state \<Rightarrow> calc_state \<Rightarrow> bool" where
  "same_ui s s' \<longleftrightarrow> elems s' = elems s \<and> current_focus s' = current_focus s \<and> app_running s' = app_running s \<and>
     screen_width s' = screen_width s \<and>
     box_fields (mem s') (ge_internal (elems s (current_focus s))) = box_fields (mem s) (ge_internal (elems s (current_focus s)))"

lemma same_ui_trans: "same_ui s s' \<Longrightarrow> same_ui s' s'' \<Longrightarrow> same_ui s s''"
  by (simp add: same_ui_def)

lemma box_fields_offset: "box_fields m data = box_fields m' data \<Longrightarrow> load32 m (data + off_offset) = load32 m' (data + off_offset)"
  by (simp add: box_fields_def)

lemma redraw:
  assumes "input_ready s1 e t"
  shows "\<exists>s'. draw_input True e s1 = Some s' \<and> input_ready s' e t \<and> input_shows s' e t \<and> same_ui s1 s' \<and> shift_state s' = shift_state s1"
proof -
  obtain scr where "draw_input True e s1 = Some (s1\<lparr>text_buffer := scr\<rparr>)" "input_shows (s1\<lparr>text_buffer := scr\<rparr>) e t"
    using draw_input_shows [of s1 e t] assms by (auto simp: input_ready_def Let_def)
  then show ?thesis using assms by (simp add: input_ready_def same_ui_def)
qed

text \<open>A key that reaches the box.\<close>

lemma box_key:
  assumes r: "input_ready s e t" and "kc \<noteq> KC_ENTER"
    and k: "0x39 < kc \<or> kc = KC_BACKSPACE \<or> shift_key kc \<or> keycode_to_ascii kc (if ie_shift_pressed input then 1 else 0) \<noteq> 0"
    and input: "ie_pressed input" "ie_keycode input = kc"
    and t': "t' = (if kc = KC_BACKSPACE then butlast t else if 0x39 < kc \<or> shift_key kc then t
      else t @ [keycode_to_ascii kc (if ie_shift_pressed input then 1 else 0)])" "length t' < 255"
  shows "\<exists>s'. gob_input_handle_input env e input s = Some s' \<and> input_ready s' e t' \<and> input_shows s' e t' \<and> same_ui s s' \<and>
    shift_state s' = shift_state s"
proof -
  let ?data = "ge_internal (elems s e)"
  have h: "box_holds (mem s) ?data t" and o: "load32 (mem s) (?data + off_offset) = 0" and f: "current_focus s = e"
    using r by (simp_all add: input_ready_def Let_def)
  then have pos: "load32 (mem s) (?data + off_buffer_pos) = of_nat (length t)" "length t < 255" by (simp_all add: box_holds_def)
  have go: ?thesis if s1: "gob_input_handle_input env e input s = draw_input True e s1" "elems s1 = elems s" "current_focus s1 = e"
    "app_running s1 = app_running s" "screen_width s1 = screen_width s" "shift_state s1 = shift_state s"
    "box_fields (mem s1) ?data = box_fields (mem s) ?data" "box_holds (mem s1) ?data t'" for s1
  proof -
    have "input_ready s1 e t'" using r s1 box_fields_offset [OF s1(7)] by (simp add: input_ready_def Let_def)
    moreover have "same_ui s s1" using s1 f by (simp add: same_ui_def)
    ultimately show ?thesis using redraw [of s1 e t'] s1(1,6) same_ui_trans by metis
  qed
  consider (bsp) "kc = KC_BACKSPACE" | (none) "kc \<noteq> KC_BACKSPACE" "0x39 < kc \<or> shift_key kc"
    | (chr) "kc \<noteq> KC_BACKSPACE" "\<not> (0x39 < kc \<or> shift_key kc)" by blast
  then show ?thesis
  proof cases
    case bsp
    show ?thesis
    proof (cases "t = []")
      case True
      then show ?thesis using bsp input t' pos h f
        by (intro go [of s]) (simp_all add: gob_input_handle_input_def Let_def)
    next
      case False
      then obtain n where n: "length t = Suc n" by (cases t) auto
      then have m: "of_nat (length t) - 1 = (of_nat n :: u32)" "n < 256" using pos(2) by simp_all
      have "sint (of_nat (length t) :: u32) = int (length t)"
        using pos(2) by (subst sint_u32) (simp_all add: unat_of_nat_u32)
      then have "0 < sint (of_nat (length t) :: u32)" using n by linarith
      define erased where "erased p = set_field ?data off_buffer_pos p s\<lparr>mem := (mem (set_field ?data off_buffer_pos p s))(?data + p := 0)\<rparr>" for p
      have "box_holds ((store32 (mem s) (?data + off_buffer_pos) (of_nat n))(?data + of_nat n := 0)) ?data (butlast t)"
        using box_delete [OF h False] by (simp only: m)
      moreover have "gob_input_handle_input env e input s = draw_input True e (erased (of_nat (length t) - 1))"
        using bsp input pos(1) \<open>0 < sint (of_nat (length t) :: u32)\<close> by (simp add: gob_input_handle_input_def Let_def erased_def)
      ultimately show ?thesis using bsp t'(1) f m
        by (intro go [of "erased (of_nat n)"]) (simp_all add: erased_def set_field_def box_fields_text box_fields_pos)
    qed
  next
    case none
    then show ?thesis using input t' pos h f assms(2)
      by (intro go [of s]) (auto simp: gob_input_handle_input_def Let_def shift_key_def)
  next
    case chr
    let ?c = "keycode_to_ascii kc (if ie_shift_pressed input then 1 else 0)"
    let ?s = "set_field ?data off_buffer_pos (of_nat (length t) + 1) s"
    have "box_holds ((store32 (mem s) (?data + off_buffer_pos) (of_nat (length t) + 1))(?data + of_nat (length t) := ?c)) ?data (t @ [?c])"
      using box_type [OF h] k chr t' by (simp del: of_nat_add)
    moreover have "t' = t @ [?c]" using t'(1) chr by simp
    moreover have "gob_input_handle_input env e input s = draw_input True e (?s\<lparr>mem := (mem ?s)(?data + of_nat (length t) := ?c)\<rparr>)"
      using input chr assms(2) pos(1) by (simp add: gob_input_handle_input_def Let_def shift_key_def)
    ultimately show ?thesis using f pos(2)
      by (intro go [of "?s\<lparr>mem := (mem ?s)(?data + of_nat (length t) := ?c)\<rparr>"])
        (simp_all add: set_field_def box_fields_text box_fields_pos)
  qed
qed

lemma keycode_idem [simp]: "scancode_to_keycode (scancode_to_keycode sc) = scancode_to_keycode sc"
  by (simp add: scancode_to_keycode_def and.assoc)

lemma shift_irrelevant:
  "input_ready (s\<lparr>shift_state := b\<rparr>) e t = input_ready s e t" "input_shows (s\<lparr>shift_state := b\<rparr>) e t = input_shows s e t"
  "same_ui s (s\<lparr>shift_state := b\<rparr>)"
  by (simp_all add: input_ready_def input_shows_def same_ui_def cell_index_def)

lemma iteration_types:
  assumes r: "input_ready s e t" and p: "plain_key event" and t': "typed (t, shift_state s) event = (t', sh')" "length t' < 255"
  shows "\<exists>s'. calc_iteration env event s = Some s' \<and> input_ready s' e t' \<and> same_ui s s' \<and> shift_state s' = sh' \<and>
    (input_shows s e t \<longrightarrow> input_shows s' e t')"
proof -
  let ?kc = "key_of event"
  let ?s = "s\<lparr>shift_state := sh'\<rparr>"
  let ?input = "\<lparr>ie_shift_pressed = sh', ie_alt_pressed = alt_state s, ie_ctrl_pressed = ctrl_state s,
     ie_pressed = key_pressed event, ie_keycode = ?kc\<rparr>"
  have f: "current_focus s = e" "e \<noteq> NULL" "ge_handle_input (elems s e) = Some Gob_Input" using r by (simp_all add: input_ready_def Let_def)
  have k: "?kc \<notin> {KC_TAB, KC_ENTER, KC_LEFT_CTRL, KC_LEFT_ALT, KC_RIGHT_CTRL, KC_RIGHT_ALT}"
    "0x39 < ?kc \<or> ?kc = KC_BACKSPACE \<or> shift_key ?kc \<or> (keycode_to_ascii ?kc 0 \<noteq> 0 \<and> keycode_to_ascii ?kc 1 \<noteq> 0)"
    using p by (simp_all add: plain_key_def Let_def)
  have sh': "sh' = (if shift_key ?kc then key_pressed event else shift_state s)" using t'(1) by (simp add: typed_def Let_def)
  have "calc_iteration env event s = gob_app_handle_input env ?kc (key_pressed event) s"
    by (simp add: calc_iteration_def wait_for_key_def key_of_def key_pressed_def)
  also have "\<dots> = gob_input_handle_input env e ?input ?s"
    using k(1) f sh' by (simp add: gob_app_handle_input_def shift_key_def Let_def)
  finally have step: "calc_iteration env event s = gob_input_handle_input env e ?input ?s" .
  show ?thesis
  proof (cases "key_pressed event")
    case False
    then have "t' = t" using t'(1) by (simp add: typed_def Let_def)
    then show ?thesis using False step r shift_irrelevant by (simp add: gob_input_handle_input_def)
  next
    case True
    then have "t' = (if ?kc = KC_BACKSPACE then butlast t else if 0x39 < ?kc \<or> shift_key ?kc then t
        else t @ [keycode_to_ascii ?kc (if sh' then 1 else 0)])"
      using t'(1) by (auto simp: typed_def Let_def)
    then have "\<exists>s'. gob_input_handle_input env e ?input ?s = Some s' \<and> input_ready s' e t' \<and> input_shows s' e t' \<and> same_ui ?s s' \<and>
        shift_state s' = shift_state ?s"
      using r k True t'(2) by (intro box_key [of _ _ t]) (auto simp: shift_irrelevant)
    then show ?thesis using step same_ui_trans [OF shift_irrelevant(3)] by fastforce
  qed
qed

text \<open>C21: for any sequence of plain keys during which the text fits into the buffer, the input box holds the
  text that was typed, corrected by backspace and in the case given by the shift keys, with its length as the position;
  the screen shows it padded to the width of the box, and elements, focus and the other data of the box are unchanged.\<close>

theorem calc_types:
  assumes "input_ready s e t" "input_shows s e t" "app_running s" "\<forall>event\<in>set events. plain_key event"
    "\<forall>k\<le>length events. length (fst (foldl typed (t, shift_state s) (take k events))) < 255"
    "foldl typed (t, shift_state s) events = (t', shift')"
  shows "\<exists>s'. calc_main_loop env events s = Some s' \<and> input_ready s' e t' \<and> input_shows s' e t' \<and> shift_state s' = shift' \<and> same_ui s s'"
  using assms
proof (induction events arbitrary: s t)
  case Nil
  then show ?case by (simp add: same_ui_def)
next
  case (Cons event events)
  obtain t1 sh1 where t1: "typed (t, shift_state s) event = (t1, sh1)" by fastforce
  have "length (fst (foldl typed (t, shift_state s) (take 1 (event # events)))) < 255" using Cons.prems(5) by (simp del: take_Suc_Cons)
  then have "length t1 < 255" using t1 by simp
  then obtain s1 where s1: "calc_iteration env event s = Some s1" "input_ready s1 e t1" "same_ui s s1" "shift_state s1 = sh1" "input_shows s1 e t1"
    using iteration_types [OF Cons.prems(1) _ t1] Cons.prems(2,4) by fastforce
  have l: "\<forall>k\<le>length events. length (fst (foldl typed (t1, shift_state s1) (take k events))) < 255"
  proof (intro allI impI)
    fix k assume "k \<le> length events"
    then have "length (fst (foldl typed (t, shift_state s) (take (Suc k) (event # events)))) < 255" using Cons.prems(5) by (simp del: take_Suc_Cons)
    then show "length (fst (foldl typed (t1, shift_state s1) (take k events))) < 255" using t1 s1(4) by simp
  qed
  have "app_running s1" using s1(3) Cons.prems(3) by (simp add: same_ui_def)
  moreover have "foldl typed (t1, shift_state s1) events = (t', shift')" using Cons.prems(6) t1 s1(4) by simp
  ultimately obtain s' where "calc_main_loop env events s1 = Some s' \<and> input_ready s' e t' \<and> input_shows s' e t' \<and> shift_state s' = shift' \<and> same_ui s1 s'"
    using Cons.IH [OF s1(2,5) _ _ l] Cons.prems(4) by auto
  then show ?case using Cons.prems(3) s1(1,3) same_ui_trans by auto
qed

theorem calc_types_witness:
  "\<forall>env :: int calc_env. \<exists>s'. calc_main_loop env
     [\<lparr>ev_scancode = 2, ev_type = 1\<rparr>, \<lparr>ev_scancode = 42, ev_type = 1\<rparr>, \<lparr>ev_scancode = 13, ev_type = 1\<rparr>,
      \<lparr>ev_scancode = 42, ev_type = 2\<rparr>, \<lparr>ev_scancode = 5, ev_type = 1\<rparr>, \<lparr>ev_scancode = 14, ev_type = 1\<rparr>, \<lparr>ev_scancode = 3, ev_type = 1\<rparr>]
     \<lparr>heap = 0, heap_size = 0, first_entry = 0, mem = store32 (\<lambda>_. 0) 1272 4,
      elems = (\<lambda>e. \<lparr>ge_prev = 0, ge_next = 0, ge_internal = 1000, ge_is_focused = True,
        ge_can_be_focused = True, ge_x = 0, ge_y = 0, ge_render = None, ge_handle_input = Some Gob_Input,
        ge_focus_changed = Some Gob_Input, ge_free = None\<rparr>),
      text_buffer = \<lambda>_. 32, screen_width = 80, screen_height = 25, app_root = 100, current_focus = 100,
      default_background_color = 0, app_running = True, shift_state = False, alt_state = False, ctrl_state = False\<rparr> = Some s' \<and>
     box_holds (mem s') 1000 [49, 43, 50] \<and> map (text_buffer s') [0, 1, 2, 3] = [49, 43, 50, 32]"
proof
  fix env :: "int calc_env"
  let ?events = "[\<lparr>ev_scancode = 2, ev_type = 1\<rparr>, \<lparr>ev_scancode = 42, ev_type = 1\<rparr>, \<lparr>ev_scancode = 13, ev_type = 1\<rparr>,
      \<lparr>ev_scancode = 42, ev_type = 2\<rparr>, \<lparr>ev_scancode = 5, ev_type = 1\<rparr>, \<lparr>ev_scancode = 14, ev_type = 1\<rparr>, \<lparr>ev_scancode = 3, ev_type = 1\<rparr>]"
  let ?s = "\<lparr>heap = 0, heap_size = 0, first_entry = 0, mem = store32 (\<lambda>_. 0) 1272 4,
      elems = (\<lambda>e. \<lparr>ge_prev = 0, ge_next = 0, ge_internal = 1000, ge_is_focused = True,
        ge_can_be_focused = True, ge_x = 0, ge_y = 0, ge_render = None, ge_handle_input = Some Gob_Input,
        ge_focus_changed = Some Gob_Input, ge_free = None\<rparr>),
      text_buffer = \<lambda>_. 32, screen_width = 80, screen_height = 25, app_root = 100, current_focus = 100,
      default_background_color = 0, app_running = True, shift_state = False, alt_state = False, ctrl_state = False\<rparr>"
  have z: "store32 (\<lambda>_. 0) 1272 4 (1000 + of_nat i) = 0" if "i < 256" for i
    using text_not_field [OF that, of 272] text_not_field [OF that, of 273] text_not_field [OF that, of 274] text_not_field [OF that, of 275]
    by (simp add: store32_def)
  have w: "load32 (store32 (\<lambda>_. 0) 1272 4) 1272 = 4" "load32 (store32 (\<lambda>_. 0) 1272 4) 1276 = 0" "load32 (store32 (\<lambda>_. 0) 1272 4) 1280 = 0"
    "load32 (store32 (\<lambda>_. 0) 1272 4) 1256 = 0" "load32 (store32 (\<lambda>_. 0) 1272 4) 1260 = 0"
    by (simp_all add: load32_def store32_def)
  have r: "input_ready ?s 100 []" using z w by (simp add: input_ready_def box_holds_def)
  have k: "\<forall>event\<in>set ?events. plain_key event"
    by (simp add: plain_key_def key_of_def scancode_to_keycode_def shift_key_def keycode_to_ascii_def ascii_table_def shifted_ascii_table_def)
  have c: "gob_cell 0 0 32 = 32" by (simp add: gob_cell_def)
  have sh: "input_shows ?s 100 []" using w c by (simp add: input_shows_def)
  note ty = typed_def key_of_def key_pressed_def scancode_to_keycode_def shift_key_def keycode_to_ascii_def ascii_table_def shifted_ascii_table_def
  have f: "foldl typed ([], shift_state ?s) ?events = ([49, 43, 50], False)"
    by (simp add: ty)
  have len: "\<forall>k\<le>length ?events. length (fst (foldl typed ([], shift_state ?s) (take k ?events))) < 255"
  proof -
    have "list_all (\<lambda>k. length (fst (foldl typed ([], shift_state ?s) (take k ?events))) < 255) [0..<8]" by (simp add: ty upt_conv_Cons)
    then show ?thesis by (simp add: list_all_iff)
  qed
  obtain s' where s': "calc_main_loop env ?events ?s = Some s'" "input_ready s' 100 [49, 43, 50]" "input_shows s' 100 [49, 43, 50]" "same_ui ?s s'"
    using calc_types [OF r sh _ k len f] by auto
  have fields: "box_fields (mem s') 1000 = box_fields (store32 (\<lambda>_. 0) 1272 4) 1000" "elems s' = elems ?s" "screen_width s' = 80"
    using s'(4) by (simp_all add: same_ui_def)
  then have "text_buffer s' (int j) = gob_cell 0 0 (if j < 3 then [49, 43, 50] ! j else 32)" if "j < 4" for j
    using s'(3) that w by (auto simp: input_shows_def box_fields_def cell_index_def)
  from this [of 0] this [of 1] this [of 2] this [of 3]
  have "map (text_buffer s') [0, 1, 2, 3] = [49, 43, 50, 32]" by (simp add: gob_cell_def)
  then show "\<exists>s'. calc_main_loop env ?events ?s = Some s' \<and> box_holds (mem s') 1000 [49, 43, 50] \<and> map (text_buffer s') [0, 1, 2, 3] = [49, 43, 50, 32]"
    using s'(1,2) fields(2) by (simp add: input_ready_def)
qed

section \<open>The status line\<close>

lemma strncpy_copy_spec:
  assumes "cstr_at m src t" "length t \<le> len" "\<forall>i\<le>length t. \<forall>j\<le>length t. dest + of_nat i \<noteq> src + of_nat j"
  shows "strncpy_copy m dest src len = (store_bytes m dest (t @ [0]), dest + of_nat (length t), len - length t)"
  using assms
proof (induction t arbitrary: m dest src len)
  case Nil
  then show ?case by (subst strncpy_copy.simps) (simp add: store_bytes_Cons)
next
  case (Cons c t)
  have "dest \<noteq> src + of_nat (Suc j)" if "j \<le> length t" for j
    using Cons.prems(3) [rule_format, of 0 "Suc j"] that by simp
  then have "\<forall>j\<le>length t. (m(dest := c)) (src + 1 + of_nat j) = m (src + 1 + of_nat j)" by (auto simp: add.assoc)
  moreover have "cstr_at m (src + 1) t" using Cons.prems(1) by simp
  ultimately have "cstr_at (m(dest := c)) (src + 1) t" unfolding cstr_at_nth by auto
  moreover have "\<forall>i\<le>length t. \<forall>j\<le>length t. dest + 1 + of_nat i \<noteq> src + 1 + of_nat j"
  proof (intro allI impI)
    fix i j assume "i \<le> length t" "j \<le> length t"
    then have "dest + of_nat (Suc i) \<noteq> src + of_nat (Suc j)" using Cons.prems(3) [rule_format, of "Suc i" "Suc j"] by simp
    then show "dest + 1 + of_nat i \<noteq> src + 1 + of_nat j" by (simp add: add.assoc)
  qed
  moreover have "length t \<le> len - 1" using Cons.prems(2) by simp
  ultimately have "strncpy_copy (m(dest := c)) (dest + 1) (src + 1) (len - 1)
      = (store_bytes (m(dest := c)) (dest + 1) (t @ [0]), dest + 1 + of_nat (length t), len - 1 - length t)"
    by (intro Cons.IH)
  moreover have "m src = c" "c \<noteq> 0" using Cons.prems(1) by simp_all
  ultimately show ?case using Cons.prems(2)
    by (subst strncpy_copy.simps) (simp add: store_bytes_Cons add.assoc)
qed

lemma strncpy_lib_spec:
  assumes "cstr_at m src t" "length t < len" "\<forall>i\<le>length t. \<forall>j\<le>length t. dest + of_nat i \<noteq> src + of_nat j"
    "len < 2 ^ 31"
  shows "cstr_at (fst (strncpy_lib m dest src len)) dest t"
    "\<forall>i<len. a \<noteq> dest + of_nat i \<Longrightarrow> fst (strncpy_lib m dest src len) a = m a"
proof -
  let ?m = "store_bytes m dest (t @ [0])" and ?d = "dest + of_nat (length t)"
  have e: "fst (strncpy_lib m dest src len) = fold (\<lambda>i m. m(?d + of_nat i := 0)) [0..<len - 1 - length t - 1] ?m"
    using strncpy_copy_spec [OF assms(1) _ assms(3), of "len - 1"] assms(2) by (simp add: strncpy_lib_def)
  have f: "fold (\<lambda>i m. m(?d + of_nat i := 0)) [0..<n] m' b = (if \<exists>i<n. b = ?d + of_nat i then 0 else m' b)" for n m' b
    by (induction n) (auto simp: less_Suc_eq)
  have "store_bytes m dest (t @ [0]) (dest + of_nat i) = (t @ [0]) ! i" if "i \<le> length t" for i
    using that assms(2,4) by (intro store_bytes_at) auto
  then have s: "?m (dest + of_nat i) = (if i = length t then 0 else t ! i)" if "i \<le> length t" for i
    using that by (auto simp: nth_append)
  have z: "\<not> (\<exists>j<n. dest + of_nat i = ?d + of_nat j)" if "i < length t" "n < len - length t" for i n
  proof
    assume "\<exists>j<n. dest + of_nat i = ?d + of_nat j"
    then obtain j where j: "j < n" "dest + of_nat i = dest + of_nat (length t + j)" by (auto simp: add.assoc)
    have "i < 2 ^ 32" "length t + j < 2 ^ 32" using j(1) that assms(2,4) by simp_all
    then have "i = length t + j" using j(2) by (simp only: offset_eq_iff)
    then show False using that by simp
  qed
  show "cstr_at (fst (strncpy_lib m dest src len)) dest t"
    unfolding cstr_at_nth e f
  proof (intro conjI allI impI)
    fix i assume i: "i < length t"
    have "\<not> (\<exists>j<len - 1 - length t - 1. dest + of_nat i = ?d + of_nat j)"
      by (rule z [OF i]) (use assms(2) in linarith)
    then show "(if \<exists>j<len - 1 - length t - 1. dest + of_nat i = ?d + of_nat j then 0 else ?m (dest + of_nat i)) = t ! i"
      using s [of i] i by (simp only: if_False) simp
  next
    show "(if \<exists>i<len - 1 - length t - 1. dest + of_nat (length t) = ?d + of_nat i then 0 else ?m (dest + of_nat (length t))) = 0"
      using s [of "length t"] by simp
  qed (use assms(1) in \<open>auto simp: cstr_at_nth\<close>)
  assume a: "\<forall>i<len. a \<noteq> dest + of_nat i"
  have "\<not> (\<exists>j<len - 1 - length t - 1. a = ?d + of_nat j)"
  proof
    assume "\<exists>j<len - 1 - length t - 1. a = ?d + of_nat j"
    then obtain j where "j < len - 1 - length t - 1" "a = dest + of_nat (length t + j)" by (auto simp: add.assoc)
    then show False using a [rule_format, of "length t + j"] by (simp; arith)
  qed
  moreover have "?m a = m a" using a assms(2) by (intro store_bytes_other) simp
  ultimately show "fst (strncpy_lib m dest src len) a = m a" by (simp only: e f if_False)
qed

text \<open>The message on the line at the bottom, in yellow on magenta, and blanks behind it.\<close>

definition status_shows :: "calc_state \<Rightarrow> u8 list \<Rightarrow> bool" where
  "status_shows s msg \<longleftrightarrow> (\<forall>j < nat (screen_width s). text_buffer s (cell_index 0 (screen_height s - 1) s + int j) =
     (if j < length msg then gob_cell EC_Magenta EC_Yellow (msg ! j) else gob_cell EC_Magenta EC_Black 32))"

lemma draw_status_shows:
  assumes "cstr_at (mem s) (status_text env) msg" "length msg \<le> 80"
  shows "\<exists>scr. draw_status env 32 s = s\<lparr>text_buffer := scr\<rparr> \<and> status_shows (s\<lparr>text_buffer := scr\<rparr>) msg \<and>
    (\<forall>i. i < cell_index 0 (screen_height s - 1) s \<longrightarrow> scr i = text_buffer s i)"
proof -
  let ?s = "draw_status env 32 s"
  have n: "strnlen (view_at (mem s) (status_text env)) 80 = length msg" using strnlen_cstr [OF assms] .
  have m: "mem s (status_text env + of_nat j) = msg ! j" if "j < length msg" for j
    using assms(1) that by (simp add: cstr_at_nth)
  have e: "?s = s\<lparr>text_buffer := text_buffer ?s\<rparr>"
    by (simp add: draw_status_def Let_def gob_term_line_def gob_term_text_def put_cells_def)
  have s: "status_shows ?s msg"
    unfolding status_shows_def using m
    by (simp add: draw_status_def Let_def gob_term_line_def gob_term_text_def put_cells_at n cell_index_def) auto
  have o: "\<forall>i. i < cell_index 0 (screen_height s - 1) s \<longrightarrow> text_buffer ?s i = text_buffer s i"
    by (simp add: draw_status_def Let_def gob_term_line_def gob_term_text_def put_cells_at cell_index_def)
  show ?thesis using e s o by (intro exI [of _ "text_buffer ?s"]) auto
qed

lemma draw_input_keeps:
  "draw_input b e s = Some s' \<Longrightarrow> cell_index (ge_x (elems s e)) (ge_y (elems s e)) s + max 0 (screen_width s - ge_x (elems s e)) \<le> i \<Longrightarrow>
     text_buffer s' i = text_buffer s i"
  by (auto simp: draw_input_def Let_def gob_term_text_fixed_def put_cells_at cell_index_def)

lemma box_elsewhere:
  assumes "\<forall>k<296. m' (data + of_nat k) = m (data + of_nat k)"
  shows "box_holds m' data t = box_holds m data t" "box_fields m' data = box_fields m data"
proof -
  have f: "load32 m' (data + of_nat off) = load32 m (data + of_nat off)" if "off < 293" for off
    using that assms [rule_format, of off] assms [rule_format, of "off + 1"] assms [rule_format, of "off + 2"] assms [rule_format, of "off + 3"]
    by (simp add: load32_def ac_simps)
  show "box_holds m' data t = box_holds m data t" using assms f [of 280] by (auto simp: box_holds_def)
  show "box_fields m' data = box_fields m data"
    using f [of 256] f [of 260] f [of 272] f [of 276] f [of 284] f [of 288] f [of 292] by (simp add: box_fields_def)
qed

text \<open>What the calculator makes of a line.\<close>

definition calc_result :: "'n number_ops \<Rightarrow> u8 list \<Rightarrow> calc_error + 'n" where
  "calc_result num t = (case parse_input num t 100 of Inl err \<Rightarrow> Inl err | Inr ops \<Rightarrow> execute num ops)"

lemma accept_error:
  assumes "box_holds (mem s) data t" "calc_result (number env) t = Inl err"
  shows "accept_math_input env e data s = report_error env err s"
proof -
  have n: "strnlen (view_at (mem s) data) 255 = length t"
    using assms(1) by (intro strnlen_cstr box_holds_cstr) (simp_all add: box_holds_def)
  have "bytes_of (mem s) data (length t) = t"
    using assms(1) by (auto simp: bytes_of_def box_holds_def intro!: nth_equalityI)
  then show ?thesis using assms(2) by (auto simp: accept_math_input_def calc_result_def n split: sum.splits)
qed

text \<open>C40: Enter on a line that the parser or the evaluation rejects puts the message, and nothing else, into the
  status line, in memory and on the screen, and leaves the text in the box, the elements and all memory outside
  the buffer of the status line alone.\<close>

theorem calc_enter_reports:
  assumes r: "input_ready s e t" and "calc_result (number env) t = Inl (Message msg)"
    and acc: "load32 (mem s) (ge_internal (elems s e) + off_input_accepted) = accept_address env" "accept_address env \<noteq> NULL"
    and l: "cstr_at (mem s) (lit env msg) (map of_char msg)" "length msg < 80"
      "\<forall>i\<le>length msg. \<forall>j\<le>length msg. status_text env + of_nat i \<noteq> lit env msg + of_nat j"
    and d: "\<forall>i<80. \<forall>k<296. status_text env + of_nat i \<noteq> ge_internal (elems s e) + of_nat k"
    and c: "0 \<le> ge_x (elems s e)" "ge_x (elems s e) \<le> screen_width s" "ge_y (elems s e) < screen_height s - 1"
  shows "\<exists>s'. gob_app_handle_input env KC_ENTER True s = Some s' \<and> status_shows s' (map of_char msg) \<and>
    cstr_at (mem s') (status_text env) (map of_char msg) \<and> input_ready s' e t \<and> input_shows s' e t \<and> elems s' = elems s \<and>
    (\<forall>a. (\<forall>i<80. a \<noteq> status_text env + of_nat i) \<longrightarrow> mem s' a = mem s a)"
proof -
  let ?data = "ge_internal (elems s e)" and ?msg = "map of_char msg :: u8 list"
  let ?m = "fst (strncpy_lib (mem s) (status_text env) (lit env msg) 80)"
  have h: "box_holds (mem s) ?data t" and f: "current_focus s = e" "e \<noteq> NULL" "ge_handle_input (elems s e) = Some Gob_Input"
    "load32 (mem s) (?data + off_offset) = 0"
    using r by (simp_all add: input_ready_def Let_def)
  have m: "cstr_at ?m (status_text env) ?msg" "\<And>a. \<forall>i<80. a \<noteq> status_text env + of_nat i \<Longrightarrow> ?m a = mem s a"
    using strncpy_lib_spec [OF l(1), of 80 "status_text env"] l(2,3) by simp_all
  have data: "\<forall>k<296. ?m (?data + of_nat k) = mem s (?data + of_nat k)" using d m(2) by metis
  let ?s1 = "s\<lparr>mem := ?m\<rparr>"
  obtain scr where scr: "draw_status env 32 ?s1 = ?s1\<lparr>text_buffer := scr\<rparr>" "status_shows (?s1\<lparr>text_buffer := scr\<rparr>) ?msg"
    using draw_status_shows [of ?s1 env ?msg] m(1) l(2) by auto
  let ?s2 = "?s1\<lparr>text_buffer := scr\<rparr>"
  have "gob_app_set_status env (lit env msg) s = ?s2" using scr(1) by (simp add: gob_app_set_status_def)
  then have a: "accept_math_input env e ?data s = Some ?s2" using accept_error [OF h assms(2)] by (simp add: report_error_def)
  have "input_ready ?s2 e t" using h f box_elsewhere [OF data] box_fields_offset [of ?m ?data "mem s"] by (simp add: input_ready_def)
  from redraw [OF this] obtain s' where
    s': "draw_input True e ?s2 = Some s'" "input_ready s' e t" "input_shows s' e t" "same_ui ?s2 s'" by blast
  obtain scr' where scr': "s' = ?s2\<lparr>text_buffer := scr'\<rparr>"
    using draw_input_screen [of ?s2 e "length t" True] strlen_box box_elsewhere(1) [OF data] h s'(1) by auto
  have "ge_y (elems s e) * screen_width s + screen_width s \<le> (screen_height s - 1) * screen_width s"
    using mult_right_mono [of "ge_y (elems s e) + 1" "screen_height s - 1" "screen_width s"] c by (simp add: algebra_simps)
  then have "scr' (cell_index 0 (screen_height s - 1) s + int j) = scr (cell_index 0 (screen_height s - 1) s + int j)" for j
    using draw_input_keeps [OF s'(1)] c scr' by (simp add: cell_index_def)
  then have "status_shows s' ?msg" using scr(2) scr' by (simp add: status_shows_def cell_index_def)
  moreover have "gob_app_handle_input env KC_ENTER True s = Some s'"
    using f a acc s'(1) by (simp add: gob_app_handle_input_def gob_input_handle_input_def Let_def)
  ultimately show ?thesis using s' scr' m by auto
qed

abbreviation (input) "stack_msg \<equiv> ''Not enough values on stack''"

lemma plus_fails: "calc_result num [43] = Inl (Message stack_msg)"
  by (simp add: calc_result_def parse_input_def parse_loop.simps execute_def isdigit_def push_expr_def expression_stack_offset_def
    make_expr_op_from_char_def)

definition demo_mem :: bmem where
  "demo_mem = store32 (store32 ((store_bytes (\<lambda>_. 0) 2000 (map of_char stack_msg))(1000 := 43)) 1280 1) 1292 7"

lemma demo_lit: "cstr_at demo_mem 2000 (map of_char stack_msg)"
  by (simp add: demo_mem_def store_bytes_def store32_def)

lemma demo_box: "box_holds demo_mem 1000 [43]"
proof -
  have "demo_mem (1000 + of_nat i) = (if i < 1 then 43 else 0)" if "i < 255" for i
  proof -
    have "\<forall>j<length (map of_char stack_msg :: u8 list). 1000 + of_nat i \<noteq> 2000 + (of_nat j :: u32)"
      using apart_offsets [of 1000 296 2000 26 i] that by simp
    then have "store_bytes (\<lambda>_. 0) 2000 (map of_char stack_msg) (1000 + of_nat i) = 0" by (simp only: store_bytes_other)
    moreover have "(1000 + of_nat i = (1000 :: u32)) = (i = 0)" using that offset_eq_iff [of i 0 1000] by simp
    ultimately show ?thesis using that text_not_field [of i]
      by (simp add: demo_mem_def store32_def)
  qed
  then show ?thesis by (simp add: box_holds_def) (simp add: demo_mem_def load32_def store32_def)
qed

theorem calc_enter_reports_witness:
  "\<exists>s'. gob_app_handle_input
     \<lparr>number = \<lparr>parse_number = \<lambda>_. 0 :: int, num_zero = 0, num_add = (+), num_sub = (-), num_mul = (*), num_div = (div), num_mod_result = 0\<rparr>,
      number_words = \<lambda>_. [], fmt_float = \<lambda>_ _ _ _ _ _ s. Some (s, 0),
      local_file = \<lparr>g_mem = \<lambda>_. 0, g_errno = 0, g_buf = 0, g_rpos = 0, g_rend = 0, g_wend = 0, g_wpos = 0,
         g_shend = 0, g_shlim = 0, g_shcnt = 0, fm_fmt = [], fm_args = [], fm_nl_arg = \<lambda>_. \<lparr>arg_i = 0, arg_f = []\<rparr>,
         fm_nl_type = \<lambda>_. FS_BARE, fm_using_position = False, fm_output_count = 0, fm_len = 0\<rparr>,
      lit = \<lambda>_. 2000, accept_address = 7, status_text = 3000, prev_calc_labels = 0, input_temp_label = 0, input_box = 0,
      main_buffer = 0, accept_temp = 0, accept_op_str = 0\<rparr>
     KC_ENTER True
     \<lparr>heap = 0, heap_size = 0, first_entry = 0, mem = demo_mem,
      elems = (\<lambda>e. \<lparr>ge_prev = 0, ge_next = 0, ge_internal = 1000, ge_is_focused = True,
        ge_can_be_focused = True, ge_x = 0, ge_y = 23, ge_render = None, ge_handle_input = Some Gob_Input,
        ge_focus_changed = Some Gob_Input, ge_free = None\<rparr>),
      text_buffer = \<lambda>_. 32, screen_width = 80, screen_height = 25, app_root = 100, current_focus = 100,
      default_background_color = 0, app_running = True, shift_state = False, alt_state = False, ctrl_state = False\<rparr> = Some s' \<and>
     cstr_at (mem s') 3000 (map of_char stack_msg) \<and> status_shows s' (map of_char stack_msg)"
proof -
  let ?env = "\<lparr>number = \<lparr>parse_number = \<lambda>_. 0 :: int, num_zero = 0, num_add = (+), num_sub = (-), num_mul = (*), num_div = (div), num_mod_result = 0\<rparr>,
      number_words = \<lambda>_. [], fmt_float = \<lambda>_ _ _ _ _ _ s. Some (s, 0),
      local_file = \<lparr>g_mem = \<lambda>_. 0, g_errno = 0, g_buf = 0, g_rpos = 0, g_rend = 0, g_wend = 0, g_wpos = 0,
         g_shend = 0, g_shlim = 0, g_shcnt = 0, fm_fmt = [], fm_args = [], fm_nl_arg = \<lambda>_. \<lparr>arg_i = 0, arg_f = []\<rparr>,
         fm_nl_type = \<lambda>_. FS_BARE, fm_using_position = False, fm_output_count = 0, fm_len = 0\<rparr>,
      lit = \<lambda>_. 2000, accept_address = 7, status_text = 3000, prev_calc_labels = 0, input_temp_label = 0, input_box = 0,
      main_buffer = 0, accept_temp = 0, accept_op_str = 0\<rparr>"
  let ?s = "\<lparr>heap = 0, heap_size = 0, first_entry = 0, mem = demo_mem,
      elems = (\<lambda>e. \<lparr>ge_prev = 0, ge_next = 0, ge_internal = 1000, ge_is_focused = True,
        ge_can_be_focused = True, ge_x = 0, ge_y = 23, ge_render = None, ge_handle_input = Some Gob_Input,
        ge_focus_changed = Some Gob_Input, ge_free = None\<rparr>),
      text_buffer = \<lambda>_. 32, screen_width = 80, screen_height = 25, app_root = 100, current_focus = 100,
      default_background_color = 0, app_running = True, shift_state = False, alt_state = False, ctrl_state = False\<rparr>"
  have w: "load32 demo_mem 1276 = 0" "load32 demo_mem 1292 = 7"
    by (simp_all add: demo_mem_def load32_def store32_def store_bytes_def)
  have r: "input_ready ?s 100 [43]" using demo_box w by (simp add: input_ready_def)
  have l: "\<forall>i\<le>length stack_msg. \<forall>j\<le>length stack_msg. status_text ?env + of_nat i \<noteq> lit ?env stack_msg + of_nat j"
    using apart_offsets [of 3000 80 2000 80] by simp
  have d: "\<forall>i<80. \<forall>k<296. status_text ?env + of_nat i \<noteq> ge_internal (elems ?s 100) + of_nat k"
    using apart_offsets [of 3000 80 1000 296] by simp
  show ?thesis
    using calc_enter_reports [OF r plus_fails _ _ _ _ l d] demo_lit w by auto
qed

end
