(* ===== verification/EstrosFS.thy ===== *)
theory EstrosFS
  imports Pager
begin

text \<open>
  \<open>kernel/filesystem/estros-fs.c\<close>: the file system on the disk file \<open>harddrive\<close>. The disk is reached
  through \<open>vfs_seek\<close>, \<open>vfs_read\<close> and \<open>vfs_write\<close> on that file, which dispatch on the driver of its
  index node (\<open>None\<close>: a call through a NULL pointer, or a file of this file system as its own disk,
  which never returns). Inodes, file data and directories are records in typed stores; directory
  blocks and all buffers are byte memory. \<open>stk\<close> is the address of a function's local sector or
  pointer-block buffers; the buffers of its callers lie above.
\<close>

section \<open>Data\<close>

record SuperBlock =
  size_bytes :: u64
  n_blocks :: u32
  max_inodes :: u32
  n_inodes :: u32
  root_inode :: u32

record Inode =
  i_type :: u32
  i_size :: u32
  i_blocks :: "u32 list"
  i_reserved :: u32

record InodeData =
  id_inode_number :: u32
  id_blocks :: "u32 list"

record FileData =
  fd_data :: ptr
  range_low :: u32
  range_high :: u32

record VFSDirectory =
  d_inode :: ptr
  d_entries :: ptr
  entries_length :: u32

record fs_state = pager_state +
  super_block :: SuperBlock
  harddrive :: ptr
  inode_data :: "ptr \<Rightarrow> InodeData"
  file_data :: "ptr \<Rightarrow> FileData"
  directories :: "ptr \<Rightarrow> VFSDirectory"

abbreviation (input) "INODE_DIRECTORY \<equiv> 2 :: u32"
abbreviation (input) "BLOCK_SIZE \<equiv> 1024 :: u32"
abbreviation (input) "INODE_SIZE \<equiv> 64 :: u32"
abbreviation (input) "MAX_INODES \<equiv> 8192 :: u32"
abbreviation (input) "NUM_DIRECT_BLOCKS \<equiv> 10 :: u32"
abbreviation (input) "PTRS_PER_BLOCK \<equiv> 256 :: u32"
abbreviation (input) "SUPER_BLOCK_OFFSET \<equiv> 0x10000 :: u32"
abbreviation (input) "BUFFER_SIZE_BLOCKS \<equiv> 5 :: u32"
abbreviation (input) "sizeof_InodeData \<equiv> 56 :: u32"
abbreviation (input) "sizeof_FileData \<equiv> 12 :: u32"
abbreviation (input) "sizeof_DirectoryEntry \<equiv> 12 :: u32"
abbreviation (input) "sizeof_VFSDirectory \<equiv> 12 :: u32"

definition BLOCK_BP_SIZE :: u32 where
  "BLOCK_BP_SIZE = 0xFFFFFFFF div BLOCK_SIZE div 8"

definition INODE_BP_SIZE :: u32 where
  "INODE_BP_SIZE = MAX_INODES * INODE_SIZE div BLOCK_SIZE div 8"

section \<open>Layout\<close>

definition le32 :: "u32 \<Rightarrow> u8 list" where
  "le32 v = [ucast v, ucast (drop_bit 8 v), ucast (drop_bit 16 v), ucast (drop_bit 24 v)]"

definition of_le32 :: "u8 list \<Rightarrow> u32" where
  "of_le32 bs = ucast (bs ! 0) OR push_bit 8 (ucast (bs ! 1)) OR push_bit 16 (ucast (bs ! 2)) OR push_bit 24 (ucast (bs ! 3))"

text \<open>The word at index \<open>k\<close> of a byte buffer.\<close>

definition word_at :: "u8 list \<Rightarrow> nat \<Rightarrow> u32" where
  "word_at bs k = of_le32 (take 4 (drop (4 * k) bs))"

definition put_at_offset :: "nat \<Rightarrow> u8 list \<Rightarrow> u8 list \<Rightarrow> u8 list" where
  "put_at_offset k cs bs = take k bs @ cs @ drop (k + length cs) bs"

definition encode_super :: "SuperBlock \<Rightarrow> u8 list" where
  "encode_super sb = le32 (ucast (size_bytes sb)) @ le32 (ucast (drop_bit 32 (size_bytes sb))) @
     le32 (n_blocks sb) @ le32 (max_inodes sb) @ le32 (n_inodes sb) @ le32 (root_inode sb)"

definition decode_super :: "u8 list \<Rightarrow> SuperBlock" where
  "decode_super bs = \<lparr>size_bytes = ucast (word_at bs 0) OR push_bit 32 (ucast (word_at bs 1)), n_blocks = word_at bs 2,
     max_inodes = word_at bs 3, n_inodes = word_at bs 4, root_inode = word_at bs 5\<rparr>"

definition encode_inode :: "Inode \<Rightarrow> u8 list" where
  "encode_inode i = le32 (i_type i) @ le32 (i_size i) @ concat (map le32 (i_blocks i)) @ le32 (i_reserved i)"

definition decode_inode :: "u8 list \<Rightarrow> Inode" where
  "decode_inode bs = \<lparr>i_type = word_at bs 0, i_size = word_at bs 1, i_blocks = map (\<lambda>k. word_at bs (k + 2)) [0..<13],
     i_reserved = word_at bs 15\<rparr>"

section \<open>The disk file\<close>

definition fops_of :: "'a file_state_scheme \<Rightarrow> ptr \<Rightarrow> fops_tag" where
  "fops_of s f = file_operations (inode_tab s (f_inode (files s f)))"

definition dev_read :: "device \<Rightarrow> 'a io_state_scheme \<Rightarrow> ptr \<Rightarrow> ptr \<Rightarrow> u32 \<Rightarrow> ('a io_state_scheme \<times> u32) option" where
  "dev_read dev s f buffer buffer_size = (case fops_of s f of
     Hdd_Ops \<Rightarrow> Some (hdd_read dev s f buffer buffer_size)
   | Tty_Ops \<Rightarrow> tty_read s f buffer buffer_size
   | Kbd_Ops \<Rightarrow> Some (keyboard_read s f buffer buffer_size)
   | _ \<Rightarrow> None)"

definition dev_write :: "device \<Rightarrow> 'a io_state_scheme \<Rightarrow> ptr \<Rightarrow> ptr \<Rightarrow> u32 \<Rightarrow> ('a io_state_scheme \<times> u32) option" where
  "dev_write dev s f buffer buffer_size = (case fops_of s f of
     Hdd_Ops \<Rightarrow> Some (hdd_write dev s f buffer buffer_size)
   | Tty_Ops \<Rightarrow> Some (tty_write s f buffer buffer_size)
   | Kbd_Ops \<Rightarrow> Some (keyboard_write s f buffer buffer_size)
   | _ \<Rightarrow> None)"

definition dev_seek :: "'a io_state_scheme \<Rightarrow> ptr \<Rightarrow> u32 \<Rightarrow> u32 \<Rightarrow> 'a io_state_scheme option" where
  "dev_seek s f offset whence = (case fops_of s f of
     Hdd_Ops \<Rightarrow> Some (hdd_seek s f offset whence)
   | Tty_Ops \<Rightarrow> Some (tty_seek s f offset whence)
   | Kbd_Ops \<Rightarrow> Some (keyboard_seek s f offset whence)
   | _ \<Rightarrow> None)"

text \<open>\<open>vfs_seek(harddrive, offset, VFS_BEG); vfs_read(harddrive, buffer, n);\<close> and the same with a write.\<close>

definition drive_read :: "device \<Rightarrow> u32 \<Rightarrow> ptr \<Rightarrow> u32 \<Rightarrow> 'a fs_state_scheme \<Rightarrow> 'a fs_state_scheme option" where
  "drive_read dev offset buffer n s = do {
     s1 \<leftarrow> dev_seek s (harddrive s) offset VFS_BEG;
     (s2, _) \<leftarrow> dev_read dev s1 (harddrive s1) buffer n;
     Some s2 }"

definition drive_write :: "device \<Rightarrow> u32 \<Rightarrow> ptr \<Rightarrow> u32 \<Rightarrow> 'a fs_state_scheme \<Rightarrow> 'a fs_state_scheme option" where
  "drive_write dev offset buffer n s = do {
     s1 \<leftarrow> dev_seek s (harddrive s) offset VFS_BEG;
     (s2, _) \<leftarrow> dev_write dev s1 (harddrive s1) buffer n;
     Some s2 }"

text \<open>The same with a local buffer at \<open>stk\<close>: its bytes after the read, and before the write.\<close>

definition drive_load :: "device \<Rightarrow> ptr \<Rightarrow> u32 \<Rightarrow> u32 \<Rightarrow> 'a fs_state_scheme \<Rightarrow> ('a fs_state_scheme \<times> u8 list) option" where
  "drive_load dev stk offset n s = do {
     s1 \<leftarrow> drive_read dev offset stk n s;
     Some (s1, bytes_at (mem s1) stk (unat n)) }"

definition drive_store :: "device \<Rightarrow> ptr \<Rightarrow> u32 \<Rightarrow> u8 list \<Rightarrow> 'a fs_state_scheme \<Rightarrow> 'a fs_state_scheme option" where
  "drive_store dev stk offset bs s =
     drive_write dev offset stk (of_nat (length bs)) (s\<lparr>mem := put_bytes (mem s) stk bs\<rparr>)"

section \<open>Allocation and inodes\<close>

text \<open>The sector of the super block: what follows the struct in the local buffer is not initialised.\<close>

definition store_super :: "device \<Rightarrow> ptr \<Rightarrow> 'a fs_state_scheme \<Rightarrow> 'a fs_state_scheme option" where
  "store_super dev stk s =
     drive_store dev stk SUPER_BLOCK_OFFSET (put_at_offset 0 (encode_super (super_block s)) (bytes_at (mem s) stk 512)) s"

definition alloc_block :: "device \<Rightarrow> ptr \<Rightarrow> 'a fs_state_scheme \<Rightarrow> ('a fs_state_scheme \<times> u32) option" where
  "alloc_block dev stk s = do {
     let block = n_blocks (super_block s);
     s1 \<leftarrow> store_super dev stk (s\<lparr>super_block := (super_block s)\<lparr>n_blocks := block + 1\<rparr>\<rparr>);
     Some (s1, block) }"

definition alloc_inode :: "device \<Rightarrow> ptr \<Rightarrow> 'a fs_state_scheme \<Rightarrow> ('a fs_state_scheme \<times> u32) option" where
  "alloc_inode dev stk s = do {
     let block = n_inodes (super_block s);
     s1 \<leftarrow> store_super dev stk (s\<lparr>super_block := (super_block s)\<lparr>n_inodes := block + 1\<rparr>\<rparr>);
     Some (s1, block) }"

definition fstovfs :: "Inode \<Rightarrow> u32 \<Rightarrow> 'a fs_state_scheme \<Rightarrow> ('a fs_state_scheme \<times> VFSIndexNode) option" where
  "fstovfs inode inode_number s = do {
     (s1, p) \<leftarrow> malloc s sizeof_InodeData;
     let vfs_inode = \<lparr>in_type = i_type inode, in_size = i_size inode, file_operations = Fs_Ops,
                      in_private_data = p, number_of_references = 0\<rparr>;
     if p = NULL then Some (s1, vfs_inode\<lparr>in_type := VFS_ERROR\<rparr>)
     else Some (s1\<lparr>inode_data := (inode_data s1)(p :=
                  \<lparr>id_inode_number = inode_number, id_blocks = i_blocks inode\<rparr>)\<rparr>, vfs_inode) }"

definition vfstofs :: "'a fs_state_scheme \<Rightarrow> ptr \<Rightarrow> Inode" where
  "vfstofs s vfs_inode =
     (let v = inode_tab s vfs_inode in
      \<lparr>i_type = in_type v, i_size = in_size v, i_blocks = id_blocks (inode_data s (in_private_data v)), i_reserved = 0\<rparr>)"

definition inode_offset :: "u32 \<Rightarrow> u32" where
  "inode_offset inode_number =
     ((SUPER_BLOCK_OFFSET + BLOCK_SIZE + BLOCK_BP_SIZE + INODE_BP_SIZE) div BLOCK_SIZE + 1) * BLOCK_SIZE
       + inode_number * INODE_SIZE"

definition inode_sub_offset :: "u32 \<Rightarrow> nat" where
  "inode_sub_offset inode_number = unat (inode_number mod 8 * INODE_SIZE)"

definition write_inode :: "device \<Rightarrow> ptr \<Rightarrow> Inode \<Rightarrow> u32 \<Rightarrow> 'a fs_state_scheme \<Rightarrow> 'a fs_state_scheme option" where
  "write_inode dev stk inode inode_number s = do {
     (s1, buffer) \<leftarrow> drive_load dev stk (inode_offset inode_number) 512 s;
     drive_store dev stk (inode_offset inode_number)
       (put_at_offset (inode_sub_offset inode_number) (encode_inode inode) buffer) s1 }"

definition fetch_inode :: "device \<Rightarrow> ptr \<Rightarrow> u32 \<Rightarrow> 'a fs_state_scheme \<Rightarrow> ('a fs_state_scheme \<times> Inode) option" where
  "fetch_inode dev stk inode_number s = do {
     (s1, buffer) \<leftarrow> drive_load dev stk (inode_offset inode_number) 512 s;
     Some (s1, decode_inode (take 64 (drop (inode_sub_offset inode_number) buffer))) }"

section \<open>Blocks of a file\<close>

text \<open>The disk block of block \<open>block_n\<close> of a file: direct, or through one, two or three blocks of
  pointers.\<close>

definition pointer_block :: "device \<Rightarrow> ptr \<Rightarrow> u32 \<Rightarrow> 'a fs_state_scheme \<Rightarrow> ('a fs_state_scheme \<times> u8 list) option" where
  "pointer_block dev stk block s = drive_load dev stk (block * BLOCK_SIZE) BLOCK_SIZE s"

definition find_block :: "device \<Rightarrow> ptr \<Rightarrow> u32 list \<Rightarrow> u32 \<Rightarrow> 'a fs_state_scheme \<Rightarrow> ('a fs_state_scheme \<times> u32) option" where
  "find_block dev stk blocks block_n s =
     (if block_n < NUM_DIRECT_BLOCKS then Some (s, blocks ! unat block_n)
      else if block_n < NUM_DIRECT_BLOCKS + PTRS_PER_BLOCK then do {
        let index = block_n - NUM_DIRECT_BLOCKS;
        (s1, single_ptrs) \<leftarrow> pointer_block dev stk (blocks ! 10) s;
        Some (s1, word_at single_ptrs (unat index)) }
      else if block_n < NUM_DIRECT_BLOCKS + PTRS_PER_BLOCK + PTRS_PER_BLOCK * PTRS_PER_BLOCK then do {
        let index = block_n - NUM_DIRECT_BLOCKS - PTRS_PER_BLOCK;
        let l1 = index div PTRS_PER_BLOCK;
        let l2 = index mod PTRS_PER_BLOCK;
        (s1, double_ptrs) \<leftarrow> pointer_block dev stk (blocks ! 11) s;
        (s2, single_ptrs) \<leftarrow> pointer_block dev stk (word_at double_ptrs (unat l1)) s1;
        Some (s2, word_at single_ptrs (unat l2)) }
      else do {
        let index = block_n - NUM_DIRECT_BLOCKS - PTRS_PER_BLOCK - PTRS_PER_BLOCK * PTRS_PER_BLOCK;
        let l1 = index div (PTRS_PER_BLOCK * PTRS_PER_BLOCK);
        let l2 = (index div PTRS_PER_BLOCK) mod PTRS_PER_BLOCK;
        let l3 = index mod PTRS_PER_BLOCK;
        (s1, triple_ptrs) \<leftarrow> pointer_block dev stk (blocks ! 12) s;
        (s2, double_ptrs) \<leftarrow> pointer_block dev stk (word_at triple_ptrs (unat l1)) s1;
        (s3, single_ptrs) \<leftarrow> pointer_block dev stk (word_at double_ptrs (unat l2)) s2;
        Some (s3, word_at single_ptrs (unat l3)) })"

fun load_blocks_loop ::
  "device \<Rightarrow> ptr \<Rightarrow> ptr \<Rightarrow> u32 list \<Rightarrow> u32 \<Rightarrow> nat \<Rightarrow> u32 \<Rightarrow> 'a fs_state_scheme \<Rightarrow> ('a fs_state_scheme \<times> ptr) option" where
  "load_blocks_loop dev stk buffer blocks pos 0 i s = Some (s, buffer)"
| "load_blocks_loop dev stk buffer blocks pos (Suc n) i s = do {
     let block_n = (pos + i * BLOCK_SIZE) div BLOCK_SIZE;
     (s1, real_block) \<leftarrow> find_block dev stk blocks block_n s;
     if real_block = 0 \<or> real_block = 0xFFFFFFFF then Some (s1, if i \<noteq> 0 then buffer else NULL)
     else do {
       s2 \<leftarrow> drive_read dev (real_block * BLOCK_SIZE) (buffer + i * BLOCK_SIZE) BLOCK_SIZE s1;
       load_blocks_loop dev stk buffer blocks pos n (i + 1) s2 } }"

definition harddrive_load_blocks ::
  "device \<Rightarrow> ptr \<Rightarrow> ptr \<Rightarrow> u32 list \<Rightarrow> u32 \<Rightarrow> u32 \<Rightarrow> 'a fs_state_scheme \<Rightarrow> ('a fs_state_scheme \<times> ptr) option" where
  "harddrive_load_blocks dev stk buffer blocks pos num_blocks s =
     load_blocks_loop dev stk buffer blocks pos (unat num_blocks) 0 s"

text \<open>The write side allocates what is missing; the result has the updated block array. A single,
  double or triple pointer block that was just allocated is read back as it is on the disk.\<close>

definition slot_or_alloc ::
  "device \<Rightarrow> ptr \<Rightarrow> u32 list \<Rightarrow> nat \<Rightarrow> 'a fs_state_scheme \<Rightarrow> ('a fs_state_scheme \<times> u32 list) option" where
  "slot_or_alloc dev stk blocks k s =
     (if blocks ! k = 0 then do { (s1, b) \<leftarrow> alloc_block dev (stk - 0x1000) s; Some (s1, blocks[k := b]) }
      else Some (s, blocks))"

text \<open>\<open>if (ptrs[k] == 0) { ptrs[k] = alloc_block(); write the pointer block back }\<close>: the pointer.\<close>

definition pointer_or_alloc ::
  "device \<Rightarrow> ptr \<Rightarrow> u32 \<Rightarrow> u8 list \<Rightarrow> nat \<Rightarrow> 'a fs_state_scheme \<Rightarrow> ('a fs_state_scheme \<times> u32) option" where
  "pointer_or_alloc dev stk block ptrs k s =
     (if word_at ptrs k = 0 then do {
        (s1, b) \<leftarrow> alloc_block dev (stk - 0x1000) s;
        s2 \<leftarrow> drive_store dev stk (block * BLOCK_SIZE) (put_at_offset (4 * k) (le32 b) ptrs) s1;
        Some (s2, b) }
      else Some (s, word_at ptrs k))"

definition map_block ::
  "device \<Rightarrow> ptr \<Rightarrow> u32 list \<Rightarrow> u32 \<Rightarrow> 'a fs_state_scheme \<Rightarrow> ('a fs_state_scheme \<times> u32 list \<times> u32) option" where
  "map_block dev stk blocks block_n s =
     (if block_n < NUM_DIRECT_BLOCKS then do {
        (s1, blocks1) \<leftarrow> slot_or_alloc dev stk blocks (unat block_n) s;
        Some (s1, blocks1, blocks1 ! unat block_n) }
      else if block_n < NUM_DIRECT_BLOCKS + PTRS_PER_BLOCK then do {
        let index = block_n - NUM_DIRECT_BLOCKS;
        (s1, blocks1) \<leftarrow> slot_or_alloc dev stk blocks 10 s;
        (s2, single_ptrs) \<leftarrow> pointer_block dev stk (blocks1 ! 10) s1;
        (s3, real_block) \<leftarrow> pointer_or_alloc dev stk (blocks1 ! 10) single_ptrs (unat index) s2;
        Some (s3, blocks1, real_block) }
      else if block_n < NUM_DIRECT_BLOCKS + PTRS_PER_BLOCK + PTRS_PER_BLOCK * PTRS_PER_BLOCK then do {
        let index = block_n - NUM_DIRECT_BLOCKS - PTRS_PER_BLOCK;
        let l1 = index div PTRS_PER_BLOCK;
        let l2 = index mod PTRS_PER_BLOCK;
        (s1, blocks1) \<leftarrow> slot_or_alloc dev stk blocks 11 s;
        (s2, double_ptrs) \<leftarrow> pointer_block dev stk (blocks1 ! 11) s1;
        (s3, single) \<leftarrow> pointer_or_alloc dev stk (blocks1 ! 11) double_ptrs (unat l1) s2;
        (s4, single_ptrs) \<leftarrow> pointer_block dev stk single s3;
        (s5, real_block) \<leftarrow> pointer_or_alloc dev stk single single_ptrs (unat l2) s4;
        Some (s5, blocks1, real_block) }
      else Some (s, blocks, 0xFFFFFFFF))"

fun write_blocks_loop ::
  "device \<Rightarrow> ptr \<Rightarrow> ptr \<Rightarrow> u32 list \<Rightarrow> u32 \<Rightarrow> nat \<Rightarrow> u32 \<Rightarrow> 'a fs_state_scheme \<Rightarrow>
   ('a fs_state_scheme \<times> u32 list) option" where
  "write_blocks_loop dev stk buffer blocks pos 0 i s = Some (s, blocks)"
| "write_blocks_loop dev stk buffer blocks pos (Suc n) i s = do {
     let block_n = (pos + i * BLOCK_SIZE) div BLOCK_SIZE;
     (s1, blocks1, real_block) \<leftarrow> map_block dev stk blocks block_n s;
     if real_block = 0 \<or> real_block = 0xFFFFFFFF then Some (s1, blocks1)
     else do {
       s2 \<leftarrow> drive_write dev (real_block * BLOCK_SIZE) (buffer + i * BLOCK_SIZE) BLOCK_SIZE s1;
       write_blocks_loop dev stk buffer blocks1 pos n (i + 1) s2 } }"

definition harddrive_write_blocks ::
  "device \<Rightarrow> ptr \<Rightarrow> ptr \<Rightarrow> u32 list \<Rightarrow> u32 \<Rightarrow> u32 \<Rightarrow> 'a fs_state_scheme \<Rightarrow> ('a fs_state_scheme \<times> u32 list) option" where
  "harddrive_write_blocks dev stk buffer blocks pos num_blocks s =
     write_blocks_loop dev stk buffer blocks pos (unat num_blocks) 0 s"

section \<open>Files\<close>

definition fs_open :: "'a fs_state_scheme \<Rightarrow> ptr \<Rightarrow> ('a fs_state_scheme \<times> ptr) option" where
  "fs_open s inode = do {
     (s1, f) \<leftarrow> malloc s sizeof_VFSFile;
     if f = NULL then Some (s1, NULL) else do {
     (s2, p) \<leftarrow> malloc s1 sizeof_FileData;
     let s3 = s2\<lparr>files := (files s2)(f := \<lparr>f_inode = inode, f_private_data = p,
                                          f_private_data_size = 0, f_position = 0\<rparr>)\<rparr>;
     if p = NULL then do { s4 \<leftarrow> free s3 f; Some (s4, NULL) } else do {
     (s4, d) \<leftarrow> malloc s3 (BLOCK_SIZE * BUFFER_SIZE_BLOCKS);
     let s5 = s4\<lparr>file_data := (file_data s4)(p := \<lparr>fd_data = d, range_low = 0, range_high = 0\<rparr>)\<rparr>;
     if d = NULL then do { s6 \<leftarrow> free s5 p; s7 \<leftarrow> free s6 f; Some (s7, NULL) }
     else Some (s5, f) }}}"

definition fs_close :: "'a fs_state_scheme \<Rightarrow> ptr \<Rightarrow> 'a fs_state_scheme option" where
  "fs_close s f = do {
     s1 \<leftarrow> (if f_private_data (files s f) \<noteq> NULL then free s (f_private_data (files s f)) else Some s);
     free s1 f }"

text \<open>The test of \<open>fs_read\<close> and \<open>fs_write\<close> that the buffered range does not hold the bytes.\<close>

definition outside_buffer :: "'a fs_state_scheme \<Rightarrow> ptr \<Rightarrow> u32 \<Rightarrow> bool" where
  "outside_buffer s f n \<longleftrightarrow>
     (let p = f_position (files s f); fd = file_data s (f_private_data (files s f))
      in p + n > range_high fd \<or> p < range_low fd \<or> range_high fd = range_low fd)"

definition set_range :: "ptr \<Rightarrow> ptr \<Rightarrow> u32 \<Rightarrow> 'a fs_state_scheme \<Rightarrow> 'a fs_state_scheme" where
  "set_range fdp data position s =
     (let low = position div BLOCK_SIZE * BLOCK_SIZE in
      s\<lparr>file_data := (file_data s)(fdp := \<lparr>fd_data = data, range_low = low,
                                         range_high = low + BUFFER_SIZE_BLOCKS * BLOCK_SIZE\<rparr>)\<rparr>)"

definition inode_of :: "'a fs_state_scheme \<Rightarrow> ptr \<Rightarrow> VFSIndexNode" where
  "inode_of s f = inode_tab s (f_inode (files s f))"

text \<open>One chunk of \<open>fs_read\<close>: \<open>None\<close> inside is its \<open>return 0\<close>.\<close>

definition fs_read_chunk ::
  "device \<Rightarrow> ptr \<Rightarrow> ptr \<Rightarrow> ptr \<Rightarrow> u32 \<Rightarrow> 'a fs_state_scheme \<Rightarrow> ('a fs_state_scheme \<times> u32 option) option" where
  "fs_read_chunk dev stk f buffer buffer_size s = do {
     let fdp = f_private_data (files s f);
     (s1, ok) \<leftarrow>
       (if outside_buffer s f buffer_size then do {
          (s1, temp) \<leftarrow> harddrive_load_blocks dev stk (fd_data (file_data s fdp))
             (id_blocks (inode_data s (in_private_data (inode_of s f)))) (f_position (files s f)) BUFFER_SIZE_BLOCKS s;
          if temp = NULL then Some (s1, False)
          else Some (set_range fdp temp (f_position (files s1 f)) s1, True) }
        else Some (s, True));
     if \<not> ok then Some (s1, None)
     else
       let fd = file_data s1 fdp; pos = f_position (files s1 f);
           m = fold (\<lambda>i m. m(buffer + of_nat i := m (fd_data fd + (of_nat i + pos - range_low fd))))
                 [0..<unat buffer_size] (mem s1)
       in Some (s1\<lparr>mem := m, files := (files s1)(f := (files s1 f)\<lparr>f_position := pos + buffer_size\<rparr>)\<rparr>,
                Some buffer_size) }"

text \<open>The loop of \<open>fs_read\<close>: \<open>buffer_size\<close> is only ever set to the buffer's five blocks, and \<open>buffer\<close>
  does not advance.\<close>

definition chunk_size :: "u32 \<Rightarrow> u32 \<Rightarrow> u32" where
  "chunk_size buffer_size remaining_size =
     (if remaining_size > BUFFER_SIZE_BLOCKS * BLOCK_SIZE then BUFFER_SIZE_BLOCKS * BLOCK_SIZE else buffer_size)"

partial_function (option) fs_read_loop ::
  "device \<Rightarrow> ptr \<Rightarrow> ptr \<Rightarrow> ptr \<Rightarrow> u32 \<Rightarrow> u32 \<Rightarrow> u32 \<Rightarrow> 'a fs_state_scheme \<Rightarrow> ('a fs_state_scheme \<times> u32) option" where
  "fs_read_loop dev stk f buffer buffer_size remaining_size bytes_read s =
     (if remaining_size = 0 then Some (s, bytes_read)
      else
        let buffer_size' = chunk_size buffer_size remaining_size;
            remaining_size' = remaining_size - buffer_size'
        in (case fs_read_chunk dev stk f buffer buffer_size' s of
              None \<Rightarrow> None
            | Some (s1, None) \<Rightarrow> Some (s1, 0)
            | Some (s1, Some i) \<Rightarrow> fs_read_loop dev stk f buffer buffer_size' remaining_size' (bytes_read + i) s1))"

definition fs_read :: "device \<Rightarrow> ptr \<Rightarrow> 'a fs_state_scheme \<Rightarrow> ptr \<Rightarrow> ptr \<Rightarrow> u32 \<Rightarrow> ('a fs_state_scheme \<times> u32) option" where
  "fs_read dev stk s f buffer buffer_size =
     (let pos = f_position (files s f); sz = in_size (inode_of s f) in
      if buffer_size = 0 then Some (s, 0)
      else if pos \<ge> sz then Some (s, 0)
      else
        let n = (if buffer_size + pos > sz then sz - pos else buffer_size)
        in fs_read_loop dev stk f buffer n n 0 s)"

definition fs_write :: "device \<Rightarrow> ptr \<Rightarrow> 'a fs_state_scheme \<Rightarrow> ptr \<Rightarrow> ptr \<Rightarrow> u32 \<Rightarrow> ('a fs_state_scheme \<times> u32) option" where
  "fs_write dev stk s f buffer buffer_size = do {
     let fdp = f_private_data (files s f);
     let idp = in_private_data (inode_of s f);
     (s1, ok) \<leftarrow>
       (if outside_buffer s f buffer_size then
          (if in_size (inode_of s f) = 0 then do {
             (s1, d) \<leftarrow> malloc s (BLOCK_SIZE * 5);
             Some (set_range fdp d (f_position (files s1 f)) s1, True) }
           else do {
             (s1, d) \<leftarrow> harddrive_load_blocks dev stk (fd_data (file_data s fdp)) (id_blocks (inode_data s idp))
                (f_position (files s f)) 5 s;
             if d = NULL then Some (s1\<lparr>file_data := (file_data s1)(fdp := (file_data s1 fdp)\<lparr>fd_data := NULL\<rparr>)\<rparr>, False)
             else Some (set_range fdp d (f_position (files s1 f)) s1, True) })
        else Some (s, True));
     if \<not> ok then Some (s1, 0) else do {
     let fd = file_data s1 fdp;
     let pos = f_position (files s1 f);
     let m = fold (\<lambda>i m. m(fd_data fd + (of_nat i + pos - range_low fd) := m (buffer + of_nat i)))
               [0..<unat buffer_size] (mem s1);
     let pos' = pos + buffer_size;
     let s2 = s1\<lparr>mem := m, files := (files s1)(f := (files s1 f)\<lparr>f_position := pos'\<rparr>)\<rparr>;
     let node = f_inode (files s2 f);
     let s3 = (if pos' > in_size (inode_tab s2 node)
               then s2\<lparr>inode_tab := (inode_tab s2)(node := (inode_tab s2 node)\<lparr>in_size := pos'\<rparr>)\<rparr> else s2);
     let sz = in_size (inode_tab s3 node);
     let number_to_write = (if 5 > sz div BLOCK_SIZE + 1 then (sz + BLOCK_SIZE - 1) div BLOCK_SIZE else 5);
     (s4, blocks) \<leftarrow> harddrive_write_blocks dev stk (fd_data fd) (id_blocks (inode_data s3 idp)) (range_low fd)
        number_to_write s3;
     let s5 = s4\<lparr>inode_data := (inode_data s4)(idp := (inode_data s4 idp)\<lparr>id_blocks := blocks\<rparr>)\<rparr>;
     s6 \<leftarrow> write_inode dev stk (vfstofs s5 node) (id_inode_number (inode_data s5 idp)) s5;
     Some (s6, buffer_size) } }"

definition fs_ioctl :: "'a fs_state_scheme \<Rightarrow> ptr \<Rightarrow> ptr \<Rightarrow> ptr \<Rightarrow> 'a fs_state_scheme" where
  "fs_ioctl s f command arg = s"

text \<open>The comparisons are unsigned: \<open>size - 1\<close> wraps on an empty file.\<close>

definition fs_seek_position :: "u32 \<Rightarrow> u32 \<Rightarrow> u32 \<Rightarrow> u32 \<Rightarrow> u32" where
  "fs_seek_position sz pos offset whence =
     (if whence = VFS_BEG then (if offset < sz - 1 then offset else sz - 1)
      else if whence = VFS_CUR then (if offset + pos < sz - 1 then pos + offset else pos + (sz - 1))
      else if whence = VFS_END then (if sz - 1 - offset > 0 then sz - offset else 0)
      else pos)"

definition fs_seek :: "'a fs_state_scheme \<Rightarrow> ptr \<Rightarrow> u32 \<Rightarrow> u32 \<Rightarrow> 'a fs_state_scheme" where
  "fs_seek s f offset whence =
     s\<lparr>files := (files s)(f := (files s f)\<lparr>f_position :=
        fs_seek_position (in_size (inode_of s f)) (f_position (files s f)) offset whence\<rparr>)\<rparr>"

definition fs_tell :: "'a fs_state_scheme \<Rightarrow> ptr \<Rightarrow> u32" where
  "fs_tell s f = f_position (files s f)"

definition fs_flush :: "'a fs_state_scheme \<Rightarrow> ptr \<Rightarrow> 'a fs_state_scheme" where
  "fs_flush s f = s"

section \<open>Directories\<close>

text \<open>A directory entry in memory: \<open>inode_number\<close>, \<open>entry_length\<close>, \<open>name_length\<close> and the name.\<close>

definition de_inode_number :: "bmem \<Rightarrow> ptr \<Rightarrow> u32" where
  "de_inode_number m e = load32 m e"

definition de_entry_length :: "bmem \<Rightarrow> ptr \<Rightarrow> u32" where
  "de_entry_length m e = load32 m (e + 4)"

definition de_name_length :: "bmem \<Rightarrow> ptr \<Rightarrow> u32" where
  "de_name_length m e = load32 m (e + 8)"

abbreviation (input) "de_name e \<equiv> e + 12"

definition fetch_inode_directory :: "device \<Rightarrow> Inode \<Rightarrow> 'a fs_state_scheme \<Rightarrow> ('a fs_state_scheme \<times> ptr) option" where
  "fetch_inode_directory dev inode s =
     (if i_size inode = 0 then Some (s, NULL)
      else do {
        let n = (i_size inode div 512 + 1) * 512;
        (s1, entries) \<leftarrow> malloc s n;
        if entries = NULL then Some (s1, NULL)
        else do {
          s2 \<leftarrow> drive_read dev (i_blocks inode ! 0 * BLOCK_SIZE) entries n (s1\<lparr>mem := fst (memset (mem s1) entries 0 n)\<rparr>);
          Some (s2, entries) } })"

partial_function (option) skip_slashes :: "bmem \<Rightarrow> ptr \<Rightarrow> ptr option" where
  "skip_slashes m path = (if m path = of_char CHR ''/'' then skip_slashes m (path + 1) else Some path)"

text \<open>The loop that looks for the end of the first component: \<open>offset\<close> is 0 when there is no slash,
  or when it is the first character; otherwise the slash is replaced by NUL.\<close>

fun slash_offset :: "bmem \<Rightarrow> ptr \<Rightarrow> nat \<Rightarrow> u32 \<Rightarrow> u32" where
  "slash_offset m path 0 i = 0"
| "slash_offset m path (Suc n) i = (if m (path + i) = of_char CHR ''/'' then i else slash_offset m path n (i + 1))"

text \<open>The search of the entry named by the NUL-terminated path; \<open>Some None\<close> when the entry of length 0
  is reached.\<close>

partial_function (option) find_entry :: "bmem \<Rightarrow> ptr \<Rightarrow> ptr \<Rightarrow> ptr option option" where
  "find_entry m path entry =
     (case strncmp m path (de_name entry) (de_name_length m entry) of None \<Rightarrow> None | Some r \<Rightarrow>
     (case strlen m path of None \<Rightarrow> None | Some len \<Rightarrow>
        if r \<noteq> 0 \<or> len > de_name_length m entry then
          (if de_entry_length m entry = 0 then Some None
           else find_entry m path (entry + de_entry_length m entry))
        else Some (Some entry)))"

text \<open>The loop common to \<open>resolve_inode\<close> and \<open>resolve_inode_number\<close>: the inode reached, with its
  number. When an entry is missing the slash that was replaced is not put back.\<close>

partial_function (option) resolve_loop ::
  "device \<Rightarrow> ptr \<Rightarrow> ptr \<Rightarrow> Inode \<Rightarrow> 'a fs_state_scheme \<Rightarrow> ('a fs_state_scheme \<times> (Inode \<times> u32) option) option" where
  "resolve_loop dev stk path inode s =
     (case fetch_inode_directory dev inode s of None \<Rightarrow> None | Some (s1, base_entry) \<Rightarrow>
      if base_entry = NULL then Some (s1, None) else
      (case strlen (mem s1) path of None \<Rightarrow> None | Some len \<Rightarrow>
        let offset = slash_offset (mem s1) path (unat len) 0;
            s2 = (if offset \<noteq> 0 then s1\<lparr>mem := (mem s1)(path + offset := 0)\<rparr> else s1)
        in if offset \<noteq> 0 \<and> i_type inode \<noteq> INODE_DIRECTORY
           then (case free s2 base_entry of None \<Rightarrow> None | Some s3 \<Rightarrow> Some (s3, None))
           else (case find_entry (mem s2) path base_entry of
               None \<Rightarrow> None
             | Some None \<Rightarrow> (case free s2 base_entry of None \<Rightarrow> None | Some s3 \<Rightarrow> Some (s3, None))
             | Some (Some entry) \<Rightarrow>
                 let inode_number = de_inode_number (mem s2) entry in
                 (case fetch_inode dev stk inode_number s2 of None \<Rightarrow> None | Some (s3, inode') \<Rightarrow>
                    let s4 = (if offset \<noteq> 0 then s3\<lparr>mem := (mem s3)(path + offset := of_char CHR ''/'')\<rparr> else s3)
                    in (case free s4 base_entry of None \<Rightarrow> None | Some s5 \<Rightarrow>
                          if offset = 0 then Some (s5, Some (inode', inode_number))
                          else resolve_loop dev stk (path + (offset + 1)) inode' s5)))))"

definition resolve ::
  "device \<Rightarrow> ptr \<Rightarrow> ptr \<Rightarrow> 'a fs_state_scheme \<Rightarrow> ('a fs_state_scheme \<times> (Inode \<times> u32) option) option" where
  "resolve dev stk path s = do {
     path' \<leftarrow> skip_slashes (mem s) path;
     (s1, inode) \<leftarrow> fetch_inode dev stk (root_inode (super_block s)) s;
     len \<leftarrow> strlen (mem s1) path';
     if len = 0 then Some (s1, Some (inode, root_inode (super_block s)))
     else resolve_loop dev stk path' inode s1 }"

definition no_inode :: Inode where
  "no_inode = \<lparr>i_type = 0, i_size = 0, i_blocks = replicate 13 0, i_reserved = 0\<rparr>"

definition resolve_inode :: "device \<Rightarrow> ptr \<Rightarrow> ptr \<Rightarrow> 'a fs_state_scheme \<Rightarrow> ('a fs_state_scheme \<times> Inode) option" where
  "resolve_inode dev stk path s = do {
     (s1, r) \<leftarrow> resolve dev stk path s;
     Some (s1, case r of None \<Rightarrow> no_inode | Some (inode, _) \<Rightarrow> inode) }"

definition resolve_inode_number :: "device \<Rightarrow> ptr \<Rightarrow> ptr \<Rightarrow> 'a fs_state_scheme \<Rightarrow> ('a fs_state_scheme \<times> u32) option" where
  "resolve_inode_number dev stk path s = do {
     (s1, r) \<leftarrow> resolve dev stk path s;
     Some (s1, case r of None \<Rightarrow> 0xFFFFFFFF | Some (_, inode_number) \<Rightarrow> inode_number) }"

text \<open>The path of an entry: the directory's path, a slash unless it is too short, and the name.\<close>

definition join_path :: "bmem \<Rightarrow> ptr \<Rightarrow> ptr \<Rightarrow> u32 \<Rightarrow> ptr \<Rightarrow> u32 \<Rightarrow> bool \<Rightarrow> bmem" where
  "join_path m full_path path path_len name name_len slash =
     (if slash then
        (let m1 = fst (strncpy m full_path path path_len);
             m2 = m1(full_path + path_len := of_char CHR ''/'')
         in fst (strncpy m2 (full_path + path_len + 1) name name_len))
      else
        (let m1 = fst (strncpy m full_path path path_len)
         in fst (strncpy m1 (full_path + path_len) name name_len)))"

text \<open>\<open>create_inode\<close>: \<open>dir_buffer\<close> is a local array above the buffers of the functions it calls.
  Neither \<open>malloc\<close> is checked.\<close>

definition make_entry :: "device \<Rightarrow> ptr \<Rightarrow> ptr \<Rightarrow> u32 \<Rightarrow> 'a fs_state_scheme \<Rightarrow> ('a fs_state_scheme \<times> ptr) option" where
  "make_entry dev stk name name_len s = do {
     (s1, new_entry) \<leftarrow> malloc s (sizeof_DirectoryEntry + name_len);
     (s2, number) \<leftarrow> alloc_inode dev stk s1;
     let m1 = store32 (mem s2) new_entry number;
     let m2 = store32 m1 (new_entry + 4) (sizeof_DirectoryEntry + name_len);
     let m3 = store32 m2 (new_entry + 8) name_len;
     Some (s2\<lparr>mem := fst (strncpy m3 (de_name new_entry) name name_len)\<rparr>, new_entry) }"

definition append_entry ::
  "device \<Rightarrow> ptr \<Rightarrow> ptr \<Rightarrow> Inode \<Rightarrow> ptr \<Rightarrow> u32 \<Rightarrow> 'a fs_state_scheme \<Rightarrow> ('a fs_state_scheme \<times> u32) option" where
  "append_entry dev stk path inode new_entry type s = do {
     let dir_buffer = stk + 0x1000;
     let s1 = s\<lparr>mem := fst (memset (mem s) dir_buffer 0 (BLOCK_SIZE * 2))\<rparr>;
     (s2, temp) \<leftarrow> (if i_size inode > 0 then harddrive_load_blocks dev stk dir_buffer (i_blocks inode) (i_size inode) 2 s1
                   else Some (s1, dir_buffer));
     if temp = NULL then do { s3 \<leftarrow> free s2 new_entry; Some (s3, 1) } else do {
     let entry_length = de_entry_length (mem s2) new_entry;
     let s3 = s2\<lparr>mem := fst (memcpy (mem s2) (dir_buffer + i_size inode) new_entry entry_length)\<rparr>;
     (s4, blocks) \<leftarrow> harddrive_write_blocks dev stk dir_buffer (i_blocks inode) (i_size inode) 2 s3;
     (s5, number) \<leftarrow> resolve_inode_number dev stk path s4;
     s6 \<leftarrow> write_inode dev stk (inode\<lparr>i_blocks := blocks, i_size := i_size inode + entry_length\<rparr>) number s5;
     s7 \<leftarrow> write_inode dev stk (no_inode\<lparr>i_type := type\<rparr>) (de_inode_number (mem s6) new_entry) s6;
     s8 \<leftarrow> free s7 new_entry;
     Some (s8, 0) } }"

definition create_inode :: "device \<Rightarrow> ptr \<Rightarrow> ptr \<Rightarrow> ptr \<Rightarrow> u32 \<Rightarrow> 'a fs_state_scheme \<Rightarrow> ('a fs_state_scheme \<times> u32) option" where
  "create_inode dev stk path name type s = do {
     (s1, inode) \<leftarrow> resolve_inode dev stk path s;
     if i_type inode \<noteq> INODE_DIRECTORY then Some (s1, 1) else do {
     path_len \<leftarrow> strlen (mem s1) path;
     name_len \<leftarrow> strlen (mem s1) name;
     (s2, full_path) \<leftarrow> malloc s1 (path_len + 1 + name_len + 1);
     let slash = \<not> path_len \<le> 1;
     let stop = (if slash then path_len + 1 + name_len else path_len + name_len);
     let s3 = s2\<lparr>mem := join_path ((mem s2)(full_path + stop := 0)) full_path path path_len name name_len slash\<rparr>;
     (s4, existing) \<leftarrow> resolve_inode dev stk full_path s3;
     if i_type existing \<noteq> 0 then Some (s4, 1) else do {
     s5 \<leftarrow> free s4 full_path;
     (s6, new_entry) \<leftarrow> make_entry dev stk name name_len s5;
     append_entry dev stk path inode new_entry type s6 } } }"

text \<open>An error is an index node of type \<open>VFS_ERROR\<close> without operations or data.\<close>

definition error_node :: VFSIndexNode where
  "error_node = \<lparr>in_type = VFS_ERROR, in_size = 0, file_operations = No_Ops, in_private_data = NULL, number_of_references = 0\<rparr>"

definition get_inode :: "device \<Rightarrow> ptr \<Rightarrow> ptr \<Rightarrow> 'a fs_state_scheme \<Rightarrow> ('a fs_state_scheme \<times> VFSIndexNode) option" where
  "get_inode dev stk path s = do {
     (s1, inode) \<leftarrow> resolve_inode dev stk path s;
     if i_type inode = 0 then Some (s1, error_node)
     else do {
       (s2, inode_number) \<leftarrow> resolve_inode_number dev stk path s1;
       fstovfs inode inode_number s2 } }"

definition free_inode_data :: "VFSIndexNode \<Rightarrow> 'a heap_state_scheme \<Rightarrow> 'a heap_state_scheme option" where
  "free_inode_data inode s = free s (in_private_data inode)"

text \<open>The loop of \<open>get_directory\<close> over the entries; on a failed \<open>realloc\<close> the entries read so far are
  lost with \<open>base_entry\<close>.\<close>

partial_function (option) directory_loop ::
  "ptr \<Rightarrow> ptr \<Rightarrow> ptr \<Rightarrow> ptr \<Rightarrow> 'a fs_state_scheme \<Rightarrow> ('a fs_state_scheme \<times> ptr) option" where
  "directory_loop path vfs_dir base_entry entry s =
     (if de_entry_length (mem s) entry = 0
      then (case free s base_entry of None \<Rightarrow> None | Some s1 \<Rightarrow> Some (s1, vfs_dir))
      else (case strlen (mem s) path of None \<Rightarrow> None | Some path_len \<Rightarrow>
        let name_len = de_name_length (mem s) entry;
            slash = (path_len \<noteq> 1);
            stop = (if slash then path_len + name_len + 1 else path_len + name_len)
        in (case malloc s (stop + 1) of None \<Rightarrow> None | Some (s1, p) \<Rightarrow>
          let s2 = s1\<lparr>mem := (join_path (mem s1) p path path_len (de_name entry) name_len slash)(p + stop := 0)\<rparr>;
              dir = directories s2 vfs_dir;
              n = entries_length dir
          in (case realloc s2 (d_entries dir) (4 * (n + 1)) of None \<Rightarrow> None | Some (s3, temp) \<Rightarrow>
            if temp = NULL then
              (case free s3 NULL of None \<Rightarrow> None | Some s4 \<Rightarrow>
              (case free s4 p of None \<Rightarrow> None | Some s5 \<Rightarrow>
              (case free s5 (d_entries dir) of None \<Rightarrow> None | Some s6 \<Rightarrow>
              (case free s6 vfs_dir of None \<Rightarrow> None | Some s7 \<Rightarrow> Some (s7, NULL)))))
            else
              directory_loop path vfs_dir base_entry (entry + de_entry_length (mem s3) entry)
                (s3\<lparr>mem := store32 (mem s3) (temp + 4 * n) p,
                    directories := (directories s3)(vfs_dir := dir\<lparr>d_entries := temp, entries_length := n + 1\<rparr>)\<rparr>)))))"

definition get_directory :: "device \<Rightarrow> ptr \<Rightarrow> ptr \<Rightarrow> ptr \<Rightarrow> 'a fs_state_scheme \<Rightarrow> ('a fs_state_scheme \<times> ptr) option" where
  "get_directory dev stk path inode s =
     (if in_type (inode_tab s inode) \<noteq> VFS_DIRECTORY then Some (s, NULL) else do {
      (s1, vfs_dir) \<leftarrow> malloc s sizeof_VFSDirectory;
      if vfs_dir = NULL then Some (s1, NULL) else do {
      let s2 = s1\<lparr>directories := (directories s1)(vfs_dir := \<lparr>d_inode = inode, d_entries = NULL, entries_length = 0\<rparr>)\<rparr>;
      (s3, base_entry) \<leftarrow> fetch_inode_directory dev (vfstofs s2 inode) s2;
      if base_entry = NULL then Some (s3, vfs_dir) else do {
      (s4, entries) \<leftarrow> malloc s3 4;
      if entries = NULL then do { s5 \<leftarrow> free s4 vfs_dir; s6 \<leftarrow> free s5 base_entry; Some (s6, NULL) }
      else directory_loop path vfs_dir base_entry base_entry
             (s4\<lparr>directories := (directories s4)(vfs_dir := (directories s4 vfs_dir)\<lparr>d_entries := entries\<rparr>)\<rparr>) } } })"

section \<open>Inodes in their sectors\<close>

lemma length_le32 [simp]: "length (le32 v) = 4"
  by (simp add: le32_def)

lemma of_le32_le32 [simp]: "of_le32 (le32 v) = v"
  using bytes_of_u32 [of v] by (simp add: le32_def of_le32_def)

lemma word_at_Cons [simp]: "word_at (le32 v @ bs) 0 = v" "word_at (le32 v @ bs) (Suc k) = word_at bs k"
  by (simp_all add: word_at_def)

lemma word_at_single [simp]: "word_at (le32 v) 0 = v"
  using word_at_Cons(1) [of v "[]"] by simp

lemma word_at_concat: "k < length vs \<Longrightarrow> word_at (concat (map le32 vs) @ bs) k = vs ! k"
proof (induction vs arbitrary: k)
  case (Cons v vs)
  then show ?case by (cases k) simp_all
qed simp

lemma word_at_skip: "word_at (concat (map le32 vs) @ bs) (length vs + k) = word_at bs k"
  by (induction vs) simp_all

lemma length_encode_inode: "length (i_blocks i) = 13 \<Longrightarrow> length (encode_inode i) = 64"
  by (simp add: encode_inode_def length_concat comp_def sum_list_triv)

lemma decode_encode_inode: "length (i_blocks i) = 13 \<Longrightarrow> decode_inode (encode_inode i) = i"
proof -
  assume 13: "length (i_blocks i) = 13"
  let ?bs = "concat (map le32 (i_blocks i)) @ le32 (i_reserved i)"
  have e: "encode_inode i = le32 (i_type i) @ le32 (i_size i) @ ?bs" by (simp add: encode_inode_def)
  have "word_at (encode_inode i) (Suc (Suc k)) = word_at ?bs k" for k by (simp add: e)
  moreover have "map (\<lambda>k. word_at ?bs k) [0..<13] = i_blocks i"
    using 13 by (intro nth_equalityI) (simp_all add: word_at_concat)
  moreover have "word_at ?bs 13 = i_reserved i"
    using word_at_skip [of "i_blocks i" "le32 (i_reserved i)" 0] 13 by simp
  moreover have "word_at (encode_inode i) 0 = i_type i" "word_at (encode_inode i) 1 = i_size i" by (simp_all add: e)
  moreover have "(15 :: nat) = Suc (Suc 13)" by simp
  ultimately have "word_at (encode_inode i) 15 = i_reserved i" by metis
  with \<open>map (\<lambda>k. word_at ?bs k) [0..<13] = i_blocks i\<close> show ?thesis
    by (simp add: decode_inode_def e del: upt_Suc)
qed

lemma decode_encode_super: "decode_super (encode_super sb) = sb"
proof -
  have "(ucast (ucast v :: u32) OR push_bit 32 (ucast (ucast (drop_bit 32 v) :: u32)) :: u64) = v" for v :: u64
  proof (rule bit_word_eqI)
    fix n assume "n < LENGTH(64)"
    then show "bit (ucast (ucast v :: u32) OR push_bit 32 (ucast (ucast (drop_bit 32 v) :: u32)) :: u64) n = bit v n"
      by (cases "n < 32") (auto simp: bit_or_iff bit_push_bit_iff bit_ucast_iff bit_drop_bit_eq)
  qed
  moreover have "word_at (encode_super sb) 0 = ucast (size_bytes sb)" "word_at (encode_super sb) (Suc 0) = ucast (drop_bit 32 (size_bytes sb))"
    "word_at (encode_super sb) (Suc (Suc 0)) = n_blocks sb" "word_at (encode_super sb) (Suc (Suc (Suc 0))) = max_inodes sb"
    "word_at (encode_super sb) (Suc (Suc (Suc (Suc 0)))) = n_inodes sb"
    "word_at (encode_super sb) (Suc (Suc (Suc (Suc (Suc 0))))) = root_inode sb"
    by (simp_all add: encode_super_def)
  ultimately show ?thesis by (simp add: decode_super_def eval_nat_numeral)
qed

lemma take_drop_put_same: "k + length cs \<le> length bs \<Longrightarrow> take (length cs) (drop k (put_at_offset k cs bs)) = cs"
  by (simp add: put_at_offset_def)

lemma length_put_at_offset: "k + length cs \<le> length bs \<Longrightarrow> length (put_at_offset k cs bs) = length bs"
  by (simp add: put_at_offset_def)

lemma take_drop_put_other:
  assumes "k + length cs \<le> length bs" "j + n \<le> k \<or> k + length cs \<le> j"
  shows "take n (drop j (put_at_offset k cs bs)) = take n (drop j bs)"
proof (rule nth_equalityI)
  show "length (take n (drop j (put_at_offset k cs bs))) = length (take n (drop j bs))"
    using assms by (simp add: length_put_at_offset)
next
  fix i assume "i < length (take n (drop j (put_at_offset k cs bs)))"
  then have "i < n" "i < length bs - j" using assms(1) by (simp_all add: length_put_at_offset)
  then have "j + i < length bs" by simp
  then show "take n (drop j (put_at_offset k cs bs)) ! i = take n (drop j bs) ! i"
    using assms \<open>i < n\<close> by (auto simp: put_at_offset_def nth_append)
qed

lemma inode_sub_offset: "inode_sub_offset n = unat n mod 8 * 64"
proof -
  have "unat (n mod 8) = unat n mod 8" by (simp add: unat_mod)
  moreover have "unat n mod 8 < 8" by simp
  ultimately show ?thesis
    unfolding inode_sub_offset_def by (subst unat_times_nowrap) simp_all
qed



section \<open>Loading blocks\<close>

text \<open>The bytes of a block of the disk, and what \<open>drive_read\<close> does with whole blocks when the disk file
  is the drive.\<close>

definition block_bytes :: "(u32 \<Rightarrow> u16 list) \<Rightarrow> u32 \<Rightarrow> u8 list" where
  "block_bytes sectors b = sector_bytes (sectors (b * 2)) @ sector_bytes (sectors (b * 2 + 1))"

definition drive_ready :: "'a fs_state_scheme \<Rightarrow> bool" where
  "drive_ready s \<longleftrightarrow> fops_of s (harddrive s) = Hdd_Ops"

lemma block_lba:
  assumes "unat b < 2 ^ 21"
  shows "b * BLOCK_SIZE div 512 = b * 2" "unat (b * 2) = 2 * unat b"
proof -
  show u: "unat (b * 2) = 2 * unat b" using assms by (simp add: unat_times_nowrap)
  have "unat (b * BLOCK_SIZE) = unat b * 1024" using assms by (subst unat_times_nowrap) simp_all
  then show "b * BLOCK_SIZE div 512 = b * 2" by (simp add: word_unat_eq_iff unat_div u)
qed

text \<open>Reading the disk changes the memory, the device's history and the position of the disk file.\<close>

definition disk_only :: "'a fs_state_scheme \<Rightarrow> 'a fs_state_scheme \<Rightarrow> bool" where
  "disk_only s s' \<longleftrightarrow> (\<exists>h m p. s' = s\<lparr>io := h, mem := m,
     files := (files s)(harddrive s := (files s (harddrive s))\<lparr>f_position := p\<rparr>)\<rparr>)"

lemma disk_only_refl [simp]: "disk_only s s"
  unfolding disk_only_def
  by (intro exI [of _ "io s"] exI [of _ "mem s"] exI [of _ "f_position (files s (harddrive s))"]) simp

lemma disk_only_trans: "disk_only s s' \<Longrightarrow> disk_only s' s'' \<Longrightarrow> disk_only s s''"
proof -
  assume "disk_only s s'" "disk_only s' s''"
  then obtain h m p h' m' p' where
    1: "s' = s\<lparr>io := h, mem := m, files := (files s)(harddrive s := (files s (harddrive s))\<lparr>f_position := p\<rparr>)\<rparr>"
    and 2: "s'' = s'\<lparr>io := h', mem := m', files := (files s')(harddrive s' := (files s' (harddrive s'))\<lparr>f_position := p'\<rparr>)\<rparr>"
    unfolding disk_only_def by blast
  show ?thesis unfolding disk_only_def
    by (intro exI [of _ h'] exI [of _ m'] exI [of _ p']) (simp add: 1 2)
qed

lemma disk_only_fields:
  assumes "disk_only s s'"
  shows "harddrive s' = harddrive s" "inode_tab s' = inode_tab s" "inode_data s' = inode_data s" "file_data s' = file_data s"
    "f \<noteq> harddrive s \<Longrightarrow> files s' f = files s f" "drive_ready s' = drive_ready s"
  using assms by (auto simp: disk_only_def drive_ready_def fops_of_def)

lemma drive_read_block:
  assumes dev: "reads_sectors dev disk" and b: "unat b < 2 ^ 21" and s: "drive_ready s"
  shows "\<exists>s'. drive_read dev (b * BLOCK_SIZE) buffer BLOCK_SIZE s = Some s' \<and>
    mem s' = put_bytes (mem s) buffer (block_bytes (disk (io s)) b) \<and> disk (io s') = disk (io s) \<and>
    length (block_bytes (disk (io s)) b) = 1024 \<and> disk_only s s'"
proof -
  let ?f = "harddrive s"
  let ?s1 = "s\<lparr>files := (files s)(?f := (files s ?f)\<lparr>f_position := b * 2\<rparr>)\<rparr>"
  have seek: "dev_seek s ?f (b * BLOCK_SIZE) VFS_BEG = Some ?s1"
    using s block_lba [OF b] by (simp add: drive_ready_def dev_seek_def hdd_seek_def)
  have pos: "f_position (files ?s1 ?f) = b * 2" by simp
  have "unat (b * 2) + 2 \<le> 2 ^ 28" using b block_lba(2) [OF b] by simp
  from read_sectors_spec [OF dev pos this, of buffer] obtain h' where
    r: "fold (\<lambda>i s. ata_read_sector dev (f_position (files s ?f) + of_nat i) (buffer + of_nat i * 512) s) [0..<2] ?s1 =
        ?s1\<lparr>io := h', mem := put_bytes (mem ?s1) buffer (concat (map (\<lambda>i. sector_bytes (disk (io ?s1) (b * 2 + of_nat i))) [0..<2]))\<rparr>"
    and d: "disk h' = disk (io ?s1)" and l: "\<forall>i<2. length (disk (io ?s1) (b * 2 + of_nat i)) = 256" by blast
  have "(1024 :: u32) div 512 = 2" by simp
  then have rd: "dev_read dev ?s1 ?f buffer BLOCK_SIZE =
      Some (?s1\<lparr>io := h', mem := put_bytes (mem ?s1) buffer (block_bytes (disk (io s)) b)\<rparr>, 1024)"
    using s r by (simp add: drive_ready_def dev_read_def fops_of_def hdd_read_def block_bytes_def upt_rec)
  have "length (block_bytes (disk (io s)) b) = 1024"
    using l [THEN spec, of 0] l [THEN spec, of 1] by (simp add: block_bytes_def)
  moreover have "disk_only s (?s1\<lparr>io := h', mem := put_bytes (mem ?s1) buffer (block_bytes (disk (io s)) b)\<rparr>)"
    unfolding disk_only_def
    by (intro exI [of _ h'] exI [of _ "put_bytes (mem s) buffer (block_bytes (disk (io s)) b)"] exI [of _ "b * 2"]) simp
  ultimately show ?thesis using seek rd d by (simp add: drive_read_def)
qed

text \<open>Blocks found without a pointer block are loaded one after the other.\<close>

definition direct_ok :: "u32 list \<Rightarrow> bool" where
  "direct_ok bs \<longleftrightarrow> (\<forall>b \<in> set bs. b \<noteq> 0 \<and> unat b < 2 ^ 21)"

lemma block_index:
  assumes "unat pos + 1024 * unat i < 2 ^ 32"
  shows "unat ((pos + i * BLOCK_SIZE) div BLOCK_SIZE) = unat pos div 1024 + unat i"
proof -
  have "unat (i * BLOCK_SIZE) = unat i * 1024" using assms by (subst unat_times_nowrap) simp_all
  then have "unat (pos + i * BLOCK_SIZE) = unat pos + unat i * 1024"
    using assms by (subst unat_plus_nowrap) simp_all
  then show ?thesis by (simp add: unat_div)
qed

lemma load_blocks_direct:
  assumes dev: "reads_sectors dev disk" and k: "unat pos div 1024 = k"
  shows "drive_ready s \<Longrightarrow> direct_ok (take n (drop (k + unat i) blocks)) \<Longrightarrow> k + unat i + n \<le> 10 \<Longrightarrow> 10 \<le> length blocks \<Longrightarrow>
    \<exists>s'. load_blocks_loop dev stk buffer blocks pos n i s = Some (s', buffer) \<and>
      mem s' = put_bytes (mem s) (buffer + i * BLOCK_SIZE)
        (concat (map (block_bytes (disk (io s))) (take n (drop (k + unat i) blocks)))) \<and>
      disk (io s') = disk (io s) \<and> disk_only s s' \<and>
      (\<forall>b \<in> set (take n (drop (k + unat i) blocks)). length (block_bytes (disk (io s)) b) = 1024)"
proof (induction n arbitrary: i s)
  case (Suc n)
  let ?b = "blocks ! (k + unat i)"
  have split: "take (Suc n) (drop (k + unat i) blocks) = ?b # take n (drop (k + unat (i + 1)) blocks)"
    and i1: "unat (i + 1) = unat i + 1"
    using Suc.prems by (simp_all add: Cons_nth_drop_Suc [symmetric] unat_plus_nowrap)
  have "unat pos < 1024 * (k + 1)" using k by (metis div_less_iff_less_mult less_add_one mult.commute zero_less_numeral)
  then have "unat pos + 1024 * unat i < 2 ^ 32" using Suc.prems(3) by simp
  from block_index [OF this] k have bn: "unat ((pos + i * BLOCK_SIZE) div BLOCK_SIZE) = k + unat i" by simp
  then have lt: "(pos + i * BLOCK_SIZE) div BLOCK_SIZE < NUM_DIRECT_BLOCKS"
    using Suc.prems(3) by (simp add: word_less_nat_alt)
  have find: "find_block dev stk blocks ((pos + i * BLOCK_SIZE) div BLOCK_SIZE) s = Some (s, ?b)"
    using lt bn by (simp add: find_block_def)
  have b: "?b \<noteq> 0" "unat ?b < 2 ^ 21" "direct_ok (take n (drop (k + unat (i + 1)) blocks))"
    using Suc.prems(2) unfolding split by (auto simp: direct_ok_def)
  have b': "?b \<noteq> 0xFFFFFFFF" using b(2) by auto
  from drive_read_block [OF dev b(2) Suc.prems(1), of "buffer + i * BLOCK_SIZE"] obtain s2 where
    s2: "drive_read dev (?b * BLOCK_SIZE) (buffer + i * BLOCK_SIZE) BLOCK_SIZE s = Some s2"
    "mem s2 = put_bytes (mem s) (buffer + i * BLOCK_SIZE) (block_bytes (disk (io s)) ?b)" "disk (io s2) = disk (io s)"
    "length (block_bytes (disk (io s)) ?b) = 1024" "disk_only s s2" by blast
  have "drive_ready s2" using disk_only_fields(6) [OF s2(5)] Suc.prems(1) by simp
  from Suc.IH [OF this b(3)] Suc.prems(3,4) i1 s2(3) obtain s' where
    s': "load_blocks_loop dev stk buffer blocks pos n (i + 1) s2 = Some (s', buffer)"
    "mem s' = put_bytes (mem s2) (buffer + (i + 1) * BLOCK_SIZE)
       (concat (map (block_bytes (disk (io s))) (take n (drop (k + unat (i + 1)) blocks))))"
    "disk (io s') = disk (io s)" "disk_only s2 s'"
    "\<forall>b \<in> set (take n (drop (k + unat (i + 1)) blocks)). length (block_bytes (disk (io s)) b) = 1024" by auto
  show ?case unfolding split
    using find b b' s2 s' disk_only_trans [OF s2(5) s'(4)] by (simp add: put_bytes_append algebra_simps)
qed simp

text \<open>C19: On a drive that follows the PIO protocol, \<open>harddrive_load_blocks\<close> of allocated direct blocks
  fills the buffer with the contents of these blocks in file order, stores nothing outside it and
  changes nothing else but the position of the disk file.\<close>

theorem load_blocks_in_order:
  assumes "reads_sectors dev disk" "fops_of s (harddrive s) = Hdd_Ops"
    and "k = unat pos div 1024" "n = unat num_blocks" "k + n \<le> 10" "length blocks = 13"
    and "\<forall>b \<in> set (take n (drop k blocks)). b \<noteq> 0 \<and> unat b < 2 ^ 21"
  shows "\<exists>s'. harddrive_load_blocks dev stk buffer blocks pos num_blocks s = Some (s', buffer) \<and>
    bytes_at (mem s') buffer (1024 * n) = concat (map (block_bytes (disk (io s))) (take n (drop k blocks))) \<and>
    (\<forall>a. (\<forall>j<1024 * n. a \<noteq> buffer + of_nat j) \<longrightarrow> mem s' a = mem s a) \<and> disk (io s') = disk (io s) \<and> disk_only s s'"
proof -
  let ?data = "concat (map (block_bytes (disk (io s))) (take n (drop k blocks)))"
  obtain s' where s': "harddrive_load_blocks dev stk buffer blocks pos num_blocks s = Some (s', buffer)"
    "mem s' = put_bytes (mem s) buffer ?data" "disk (io s') = disk (io s)" 
    "\<forall>b \<in> set (take n (drop k blocks)). length (block_bytes (disk (io s)) b) = 1024"
    "disk_only s s'"
    using load_blocks_direct [OF assms(1), of pos k s n 0 blocks stk buffer] assms
    by (auto simp: harddrive_load_blocks_def drive_ready_def direct_ok_def)
  have "map (length \<circ> block_bytes (disk (io s))) (take n (drop k blocks)) = map (\<lambda>_. 1024) (take n (drop k blocks))"
    using s'(4) by (intro map_cong) auto
  moreover have "length (take n (drop k blocks)) = n" using assms(5,6) by simp
  ultimately have l: "length ?data = 1024 * n" by (simp add: length_concat map_replicate_const sum_list_replicate)
  have "length ?data \<le> 2 ^ 32" using l assms(5) by simp
  with bytes_at_put_bytes [of ?data "mem s" buffer] put_bytes_other [of ?data _ buffer "mem s"] s' l
  show ?thesis by auto
qed

definition fs_demo :: fs_state where
  "fs_demo = pager_state.extend (pager_demo\<lparr>inode_tab := (\<lambda>_. \<lparr>in_type = 1, in_size = 6000, file_operations = Hdd_Ops,
       in_private_data = 0, number_of_references = 1\<rparr>)\<rparr>)
     (fs_state.fields \<lparr>size_bytes = 0, n_blocks = 100, max_inodes = 10, n_inodes = 2, root_inode = 0\<rparr> 0x1000
       (\<lambda>_. \<lparr>id_inode_number = 0, id_blocks = replicate 13 0\<rparr>) (\<lambda>_. \<lparr>fd_data = 0x8000, range_low = 0, range_high = 0\<rparr>)
       (\<lambda>_. \<lparr>d_inode = 0, d_entries = 0, entries_length = 0\<rparr>))"

lemma fs_demo_facts: "files fs_demo f = \<lparr>f_inode = 0, f_private_data = 0x2000, f_private_data_size = 0, f_position = 0\<rparr>"
  "inode_tab fs_demo p = \<lparr>in_type = 1, in_size = 6000, file_operations = Hdd_Ops, in_private_data = 0, number_of_references = 1\<rparr>"
  by (simp_all add: fs_demo_def pager_demo_def io_demo_def tty_demo_def kbd_demo_def kbd_state.defs tty_state.defs io_state.defs
      pager_state.defs fs_state.defs)

theorem load_blocks_in_order_witness:
  "\<exists>s'. harddrive_load_blocks (sim_drive (\<lambda>lba. replicate 256 (ucast lba))) 0x7000 0x8000 ([3, 7] @ replicate 11 0) 0 2 fs_demo =
     Some (s', 0x8000) \<and>
   bytes_at (mem s') 0x8000 2048 = concat (map (block_bytes (\<lambda>lba. replicate 256 (ucast lba))) [3, 7])"
proof -
  let ?disk = "\<lambda>lba. replicate 256 (ucast (lba :: u32)) :: u16 list"
  have "reads_sectors (sim_drive ?disk) (\<lambda>_. ?disk)" by (rule sim_drive_reads) simp
  from load_blocks_in_order [OF this, where s = fs_demo and k = 0 and pos = 0 and n = 2 and num_blocks = 2
      and blocks = "[3, 7] @ replicate 11 0" and stk = "0x7000" and buffer = "0x8000"]
  show ?thesis by (simp add: fops_of_def fs_demo_facts) blast
qed

section \<open>Positions\<close>

text \<open>Seeking in a file does not keep the position inside it. From the start the position stays below
  the size of a file that is not empty; but from the current position, when the target is past the
  end, the size less one is added to it; from the end with an offset beyond the size it wraps around;
  and in an empty file the limit wraps, so that every offset but the largest is taken as it is.\<close>

theorem fs_seek_outside:
  assumes "in_size (inode_of s f) = sz" "fs_tell s f = pos"
  shows "(sz \<noteq> 0 \<longrightarrow> unat (fs_tell (fs_seek s f offset VFS_BEG) f) = min (unat offset) (unat sz - 1)) \<and>
    (sz \<noteq> 0 \<and> unat sz \<le> unat offset + unat pos \<and> unat offset + unat pos < 2 ^ 32 \<longrightarrow>
      fs_tell (fs_seek s f offset VFS_CUR) f = pos + (sz - 1)) \<and>
    (sz \<noteq> 0 \<and> unat sz < unat offset \<longrightarrow> unat (fs_tell (fs_seek s f offset VFS_END) f) = 2 ^ 32 + unat sz - unat offset) \<and>
    (sz = 0 \<longrightarrow> fs_tell (fs_seek s f offset VFS_BEG) f = offset)"
proof -
  have tell: "fs_tell (fs_seek s f offset whence) f = fs_seek_position sz pos offset whence" for whence
    using assms by (simp add: fs_tell_def fs_seek_def)
  have sz1: "unat (sz - 1) = unat sz - 1" if "sz \<noteq> 0"
    using that by (simp add: unat_minus_one)
  have "unat (fs_seek_position sz pos offset VFS_BEG) = min (unat offset) (unat sz - 1)" if "sz \<noteq> 0"
    using sz1 [OF that] by (auto simp: fs_seek_position_def word_less_nat_alt)
  moreover have "fs_seek_position sz pos offset VFS_CUR = pos + (sz - 1)"
    if "sz \<noteq> 0" "unat sz \<le> unat offset + unat pos" "unat offset + unat pos < 2 ^ 32"
    using sz1 [OF that(1)] that by (auto simp: fs_seek_position_def word_less_nat_alt unat_plus_nowrap)
  moreover have "unat (fs_seek_position sz pos offset VFS_END) = 2 ^ 32 + unat sz - unat offset"
    if "sz \<noteq> 0" "unat sz < unat offset"
  proof -
    have "sz - 1 - offset \<noteq> 0"
    proof
      assume "sz - 1 - offset = 0"
      then have "offset = sz - 1" by simp
      with that show False by (simp add: sz1)
    qed
    then show ?thesis using that(2) by (simp add: fs_seek_position_def word_gt_0 unat_sub_if')
  qed
  moreover have "fs_seek_position 0 pos offset VFS_BEG = offset"
    by (simp add: fs_seek_position_def) (metis word_le_less_eq max_word_max word_order.extremum)
  ultimately show ?thesis by (simp add: tell)
qed

theorem fs_seek_outside_witness:
  "fs_tell (fs_seek fs_demo 0x1000 7000 VFS_END) 0x1000 = - 1000"
proof -
  have "unat (fs_tell (fs_seek fs_demo 0x1000 7000 VFS_END) 0x1000) = 2 ^ 32 + 6000 - 7000"
    using fs_seek_outside [where s = fs_demo and f = "0x1000" and sz = 6000 and pos = 0 and offset = 7000] by (simp add: inode_of_def fs_demo_facts fs_tell_def)
  then show ?thesis by (simp add: word_unat_eq_iff)
qed

lemma fs_read_chunk_direct:
  assumes "reads_sectors dev disk" "drive_ready s" "f \<noteq> harddrive s" "blocks = id_blocks (inode_data s (in_private_data (inode_of s f)))"
    and "direct_ok (take 5 (drop (unat (f_position (files s f)) div 1024) blocks))"
    and "unat (f_position (files s f)) div 1024 + 5 \<le> 10" "10 \<le> length blocks"
    and "fd_data (file_data s (f_private_data (files s f))) \<noteq> NULL"
  shows "\<exists>s'. fs_read_chunk dev stk f buffer n s = Some (s', Some n) \<and> drive_ready s' \<and> harddrive s' = harddrive s \<and>
    inode_tab s' = inode_tab s \<and> inode_data s' = inode_data s \<and>
    files s' f = (files s f)\<lparr>f_position := f_position (files s f) + n\<rparr> \<and>
    fd_data (file_data s' (f_private_data (files s f))) = fd_data (file_data s (f_private_data (files s f)))"
proof (cases "outside_buffer s f n")
  case False
  then show ?thesis using assms(2,3) by (simp add: fs_read_chunk_def Let_def drive_ready_def fops_of_def)
next
  case True
  let ?data = "fd_data (file_data s (f_private_data (files s f)))"
  from load_blocks_direct [OF assms(1) refl assms(2), where pos = "f_position (files s f)" and n = 5 and i = 0
      and blocks = blocks and stk = stk and buffer = ?data] assms
  obtain s1 where s1: "harddrive_load_blocks dev stk ?data blocks (f_position (files s f)) 5 s = Some (s1, ?data)" "disk_only s s1"
    by (auto simp: harddrive_load_blocks_def)
  note fr = disk_only_fields [OF s1(2)]
  show ?thesis
    using True s1(1) assms(2,3,4,8) fr
    by (simp add: fs_read_chunk_def Let_def set_range_def) (simp add: drive_ready_def fops_of_def)
qed



end
