(* ===== verification/PackTool.thy ===== *)
theory PackTool
  imports EstrosFS
begin

text \<open>
  \<open>tools/EstrOSFS.cpp\<close>: the program of the build that packs a directory of the host into an image of the
  file system. The output stream is its bytes and its position; the host's files are a tree, in the
  order in which \<open>directory_iterator\<close> lists them. The structs have the layout of those of the kernel,
  except that a directory entry holds a \<open>string\<close>: the compiler cannot pack it, so it lies at offset 16
  and the entry takes 48 bytes. \<open>None\<close> is undefined behaviour, an exception or a loop that does not end. The messages are not modelled.
\<close>

section \<open>The output stream\<close>

record ostream =
  out_bytes :: "u8 list"
  out_pos :: nat

definition out_write :: "u8 list \<Rightarrow> ostream \<Rightarrow> ostream" where
  "out_write bs out =
     (let p = out_pos out; old = out_bytes out
      in \<lparr>out_bytes = take p old @ replicate (p - length old) 0 @ bs @ drop (p + length bs) old, out_pos = p + length bs\<rparr>)"

definition seekp :: "nat \<Rightarrow> ostream \<Rightarrow> ostream" where
  "seekp p out = out\<lparr>out_pos := p\<rparr>"

text \<open>\<open>tellp() / BLOCK_SIZE\<close>, kept in 32 bits.\<close>

definition out_block :: "ostream \<Rightarrow> u32" where
  "out_block out = of_nat (out_pos out div 1024)"

definition fill_to_block :: "ostream \<Rightarrow> ostream" where
  "fill_to_block out =
     (let sz = out_pos out
      in if sz mod 1024 = 0 then out else out_write (replicate ((sz div 1024 + 1) * 1024 - sz) 0) out)"

definition write_pointer_block :: "u32 list \<Rightarrow> ostream \<Rightarrow> ostream \<times> u32" where
  "write_pointer_block pointers out =
     (let out1 = out_write (concat (map le32 pointers)) out
      in (out_write (replicate (1024 - length pointers * 4) 0) out1, out_block out))"

section \<open>Files\<close>

text \<open>The loop over the pointers of one block, from \<open>base\<close> on, and what remains. The fuel is the bound 256 of \<open>j\<close>.\<close>

fun sub_loop :: "nat \<Rightarrow> u32 \<Rightarrow> u32 \<Rightarrow> u32 \<Rightarrow> u32 list \<times> u32" where
  "sub_loop 0 base j remaining = ([], remaining)"
| "sub_loop (Suc n) base j remaining =
     (if j < min remaining 256 then
        if remaining - 1 = 0 then ([base + j], 0)
        else (case sub_loop n base (j + 1) (remaining - 1) of (sub, r) \<Rightarrow> ((base + j) # sub, r))
      else ([], remaining))"

fun double_loop :: "nat \<Rightarrow> u32 \<Rightarrow> u32 \<Rightarrow> u32 \<Rightarrow> ostream \<Rightarrow> ostream \<times> u32 list" where
  "double_loop 0 first i remaining out = (out, [])"
| "double_loop (Suc n) first i remaining out =
     (if i < (remaining + 255) div 256 then
        let (sub, remaining1) = sub_loop 256 (first + 10 + 256 + i * 256) 0 remaining;
            (out1, block) = write_pointer_block sub out;
            (out2, blocks) = double_loop n first (i + 1) remaining1 out1
        in (out2, block # blocks)
      else (out, []))"

fun triple_inner :: "nat \<Rightarrow> u32 \<Rightarrow> u32 \<Rightarrow> u32 \<Rightarrow> u32 \<Rightarrow> ostream \<Rightarrow> ostream \<times> u32 list \<times> u32" where
  "triple_inner 0 first i j remaining out = (out, [], remaining)"
| "triple_inner (Suc n) first i j remaining out =
     (if remaining > 0 then
        let (sub, remaining1) = sub_loop 256 (first + 10 + 256 + 256 * 256 + i * 256 * 256 + j * 256) 0 remaining;
            (out1, block) = write_pointer_block sub out
        in if remaining1 = 0 then (out1, [block], 0)
           else let (out2, blocks, r) = triple_inner n first i (j + 1) remaining1 out1 in (out2, block # blocks, r)
      else (out, [], remaining))"

fun triple_loop :: "nat \<Rightarrow> u32 \<Rightarrow> u32 \<Rightarrow> u32 \<Rightarrow> ostream \<Rightarrow> ostream \<times> u32 list" where
  "triple_loop 0 first i remaining out = (out, [])"
| "triple_loop (Suc n) first i remaining out =
     (if i < (remaining + 65535) div 65536 then
        let (out1, double_blocks, remaining1) = triple_inner 256 first i 0 remaining out;
            (out2, block) = write_pointer_block double_blocks out1
        in if remaining1 = 0 then (out2, [block])
           else let (out3, blocks) = triple_loop n first (i + 1) remaining1 out2 in (out3, block # blocks)
      else (out, []))"

definition direct_blocks :: "u32 \<Rightarrow> u32 \<Rightarrow> u32 list \<Rightarrow> u32 list" where
  "direct_blocks first sz blocks = fold (\<lambda>i bs. bs[i := first + of_nat i]) [1..<min (unat (sz div 1024 + 1)) 11] blocks"

definition single_blocks :: "u32 \<Rightarrow> u32 \<Rightarrow> u32 list" where
  "single_blocks first total_blocks = map (\<lambda>i. first + of_nat i) [10..<unat (min total_blocks (10 + 256))]"

text \<open>The pointer blocks of a file, behind its data.\<close>

definition indirect_blocks :: "u32 \<Rightarrow> u32 \<Rightarrow> u32 list \<Rightarrow> ostream \<Rightarrow> ostream \<times> u32 list" where
  "indirect_blocks first sz blocks out =
     (if \<not> sz div 1024 > 10 then (out, blocks)
      else
        let total_blocks = (sz + 1024 - 1) div 1024;
            single = single_blocks first total_blocks;
            (out1, blocks1) = (if total_blocks > 10 \<and> single \<noteq> [] then
                                 let (o1, b) = write_pointer_block single out in (o1, blocks[10 := b]) else (out, blocks));
            (out2, blocks2) = (if total_blocks > 10 + 256 then
                                 let (o1, double_blocks) = double_loop 256 first 0 (total_blocks - 10 - 256) out1;
                                     (o2, b) = write_pointer_block double_blocks o1
                                 in (o2, blocks1[11 := b])
                               else (out1, blocks1))
        in if total_blocks > 10 + 256 + 256 * 256 then
             let (o1, triple_blocks) = triple_loop 256 first 0 (total_blocks - 10 - 256 - 256 * 256) out2;
                 (o2, b) = write_pointer_block triple_blocks o1
             in (o2, blocks2[12 := b])
           else (out2, blocks2))"

text \<open>The content is \<open>None\<close> when the file cannot be opened. The result 0 is an error.\<close>

definition pack_file :: "u8 list option \<Rightarrow> Inode list \<Rightarrow> ostream \<Rightarrow> Inode list \<times> ostream \<times> u32" where
  "pack_file content inodes out =
     (case content of None \<Rightarrow> (inodes, out, 0)
      | Some bs \<Rightarrow>
          if 0xFFFFFFFF < length bs then (inodes, out, 0)
          else
            let sz = of_nat (length bs);
                first = (if sz = 0 then 0 else out_block out);
                out1 = fill_to_block (if sz \<noteq> 0 then out_write bs out else out);
                (out2, blocks) = indirect_blocks first sz (direct_blocks first sz ((replicate 13 0)[0 := first])) out1
            in (inodes @ [\<lparr>i_type = 1, i_size = sz, i_blocks = blocks, i_reserved = 0\<rparr>], out2, of_nat (length inodes)))"

section \<open>Directories\<close>

datatype host =
  Host_File "u8 list option"
| Host_Directory "(u8 list \<times> host) list"
| Host_Other

record tool_entry =
  te_inode_number :: u32
  te_entry_length :: u32
  te_name_length :: u32
  te_name :: "u8 list"

abbreviation (input) "sizeof_tool_entry \<equiv> 48 :: nat"
abbreviation (input) "sizeof_string \<equiv> 32 :: nat"

definition make_tool_entry :: "u32 \<Rightarrow> u8 list \<Rightarrow> tool_entry" where
  "make_tool_entry number name =
     \<lparr>te_inode_number = number, te_entry_length = of_nat (sizeof_tool_entry + length name - sizeof_string - 4),
      te_name_length = of_nat (length name), te_name = name\<rparr>"

text \<open>The first 12 bytes of the struct, and the name.\<close>

definition entry_bytes :: "tool_entry \<Rightarrow> u8 list" where
  "entry_bytes e = le32 (te_inode_number e) @ le32 (te_entry_length e) @ le32 (te_name_length e) @ take (unat (te_name_length e)) (te_name e)"

definition directory_blocks :: "u32 \<Rightarrow> nat \<Rightarrow> u32 list" where
  "directory_blocks first n =
     fold (\<lambda>i bs. bs[i := first + of_nat i]) [1..<min (n * sizeof_tool_entry div 1024) 11] ((replicate 13 0)[0 := first])"

definition write_entries :: "tool_entry list \<Rightarrow> ostream \<Rightarrow> ostream" where
  "write_entries entries out = fill_to_block (fold (\<lambda>e. out_write (entry_bytes e)) entries out)"

definition directory_inode :: "tool_entry list \<Rightarrow> ostream \<Rightarrow> Inode" where
  "directory_inode entries out =
     \<lparr>i_type = 2, i_size = sum_list (map te_entry_length entries),
      i_blocks = directory_blocks (if entries \<noteq> [] then out_block out else 0) (length entries), i_reserved = 0\<rparr>"

fun pack_directory :: "(u8 list \<times> host) list \<Rightarrow> Inode list \<Rightarrow> ostream \<Rightarrow> (Inode list \<times> ostream \<times> u32) option"
  and pack_entries :: "(u8 list \<times> host) list \<Rightarrow> Inode list \<Rightarrow> ostream \<Rightarrow> (Inode list \<times> ostream \<times> tool_entry list) option" where
  "pack_directory listing inodes out = do {
     (inodes1, out1, entries) \<leftarrow> pack_entries listing (inodes @ [no_inode]) out;
     Some (inodes1[length inodes := directory_inode entries out1], write_entries entries out1, of_nat (length inodes))
   }"
| "pack_entries [] inodes out = Some (inodes, out, [])"
| "pack_entries ((name, entry) # rest) inodes out = do {
     (inodes1, out1, number) \<leftarrow> (case entry of
         Host_Directory listing \<Rightarrow> pack_directory listing inodes out
       | Host_File content \<Rightarrow> Some (pack_file content inodes out)
       | Host_Other \<Rightarrow> None);
     (inodes2, out2, entries) \<leftarrow> pack_entries rest inodes1 out1;
     Some (inodes2, out2, if number = 0 then entries else make_tool_entry number name # entries)
   }"

section \<open>The image\<close>

text \<open>What a run of the program sees of the host: the directories, the files that can be opened to read, and what can be written.\<close>

record tool_env =
  env_directory :: "string \<Rightarrow> (u8 list \<times> host) list option"
  env_file :: "string \<Rightarrow> u8 list option"
  env_writable :: "string \<Rightarrow> bool"

definition put_file :: "string \<Rightarrow> u8 list \<Rightarrow> tool_env \<Rightarrow> tool_env" where
  "put_file p bs env = env\<lparr>env_file := (env_file env)(p \<mapsto> bs)\<rparr>"

definition INODE_SPACE :: u32 where
  "INODE_SPACE = MAX_INODES * INODE_SIZE"

definition empty_image :: ostream where
  "empty_image = out_write (replicate (unat ((SUPER_BLOCK_OFFSET + BLOCK_SIZE + BLOCK_BP_SIZE + INODE_BP_SIZE + INODE_SPACE) div BLOCK_SIZE * BLOCK_SIZE)) 0)
     \<lparr>out_bytes = [], out_pos = 0\<rparr>"

definition low_bits :: "nat \<Rightarrow> u8 \<Rightarrow> u8" where
  "low_bits n last_bp = fold (\<lambda>i b. b OR push_bit i 1) [0..<n] last_bp"

text \<open>The bitmaps: \<open>last_bp\<close> is not cleared before the second one.\<close>

definition write_bitmaps :: "nat \<Rightarrow> nat \<Rightarrow> ostream \<Rightarrow> ostream" where
  "write_bitmaps fs_size_blocks n out =
     (let out1 = seekp (unat (SUPER_BLOCK_OFFSET + BLOCK_SIZE)) out;
          out2 = out_write (replicate (fs_size_blocks div 8) 0xFF) out1;
          last_bp = low_bits (fs_size_blocks - fs_size_blocks div 8 * 8) 0;
          out3 = out_write [last_bp] out2;
          out4 = seekp (unat (SUPER_BLOCK_OFFSET + BLOCK_SIZE + BLOCK_BP_SIZE)) out3;
          out5 = out_write (replicate (n div 8) 0xFF) out4
      in out_write [low_bits (n - n div 8 * 8) last_bp] out5)"

definition write_inodes :: "Inode list \<Rightarrow> ostream \<Rightarrow> ostream" where
  "write_inodes inodes out =
     out_write (concat (map encode_inode inodes))
       (seekp (unat (((SUPER_BLOCK_OFFSET + BLOCK_SIZE + BLOCK_BP_SIZE + INODE_BP_SIZE) div BLOCK_SIZE + 1) * BLOCK_SIZE)) out)"

definition finish_image :: "Inode list \<Rightarrow> u32 \<Rightarrow> ostream \<Rightarrow> ostream" where
  "finish_image inodes root out =
     (let fs_size_bytes = out_pos out; fs_size_blocks = fs_size_bytes div 1024;
          sb = \<lparr>size_bytes = of_nat fs_size_bytes, n_blocks = out_block out, max_inodes = MAX_INODES,
                n_inodes = of_nat (length inodes), root_inode = root\<rparr>;
          out1 = out_write (encode_super sb) (seekp (unat SUPER_BLOCK_OFFSET) out)
      in write_inodes inodes (write_bitmaps fs_size_blocks (length inodes) out1))"

definition pack_image :: "(u8 list \<times> host) list \<Rightarrow> u8 list option" where
  "pack_image listing = do {
     (inodes, out, root) \<leftarrow> pack_directory listing [] empty_image;
     Some (out_bytes (finish_image inodes root out))
   }"

definition pack :: "string list \<Rightarrow> tool_env \<Rightarrow> (tool_env \<times> int) option" where
  "pack args env =
     (case env_directory env (args ! 2) of None \<Rightarrow> Some (env, 1)
      | Some listing \<Rightarrow>
          if \<not> env_writable env (args ! 3) then Some (env, 1)
          else map_option (\<lambda>img. (put_file (args ! 3) img env, 0)) (pack_image listing))"

definition add_boot :: "string list \<Rightarrow> tool_env \<Rightarrow> tool_env \<times> int" where
  "add_boot args env =
     (case env_file env (args ! 3) of None \<Rightarrow> (env, 1)
      | Some img \<Rightarrow>
          if \<not> env_writable env (args ! 3) then (env, 1)
          else case env_file env (args ! 2) of None \<Rightarrow> (env, 1)
          | Some boot \<Rightarrow>
              if 0xFFFFFFFF < length boot then (env, 1)
              else (put_file (args ! 3) (out_bytes (out_write boot \<lparr>out_bytes = img, out_pos = 0\<rparr>)) env, 0))"

text \<open>\<open>stoul\<close> in base 10: \<open>None\<close> is an exception.\<close>

definition stoul :: "string \<Rightarrow> u64 option" where
  "stoul str =
     (let t = dropWhile (\<lambda>c. c = CHR '' '' \<or> 9 \<le> (of_char c :: nat) \<and> (of_char c :: nat) \<le> 13) str;
          neg = (t \<noteq> [] \<and> hd t = CHR ''-'');
          u = (if t \<noteq> [] \<and> (hd t = CHR ''-'' \<or> hd t = CHR ''+'') then tl t else t);
          digits = takeWhile (\<lambda>c. 48 \<le> (of_char c :: nat) \<and> (of_char c :: nat) \<le> 57) u;
          v = fold (\<lambda>c n. 10 * n + ((of_char c :: nat) - 48)) digits 0
      in if digits = [] \<or> 2 ^ 64 \<le> v then None else Some (if neg then - of_nat v else of_nat v))"

partial_function (option) gen_test_loop :: "u32 \<Rightarrow> u32 \<Rightarrow> u8 list \<Rightarrow> u8 list option" where
  "gen_test_loop sz i bs = (if i < sz then gen_test_loop sz (i + 4) (bs @ le32 i) else Some bs)"

definition gen_test :: "string list \<Rightarrow> tool_env \<Rightarrow> (tool_env \<times> int) option" where
  "gen_test args env = do {
     n \<leftarrow> stoul (args ! 3);
     if \<not> env_writable env (args ! 2) then Some (env, 1)
     else map_option (\<lambda>bs. (put_file (args ! 2) bs env, 0)) (gen_test_loop (ucast n) 0 [])
   }"

definition tool_main :: "string list \<Rightarrow> tool_env \<Rightarrow> (tool_env \<times> int) option" where
  "tool_main args env =
     (if length args < 4 then Some (env, 1)
      else if args ! 1 = ''pack'' then pack args env
      else if args ! 1 = ''boot'' then Some (add_boot args env)
      else if args ! 1 = ''get-test'' then gen_test args env
      else Some (env, 0))"

end
