(* ===== verification/PackedFiles.thy ===== *)
theory PackedFiles
  imports PackTool
begin

text \<open>
  The image tool (tools/EstrOSFS.cpp) and the file system of the kernel (kernel/filesystem/estros-fs.c) together: what the
  tool's stream holds after a file and a directory were packed, what \<open>harddrive_load_blocks\<close> reads through
  the pointers it wrote, how the kernel finds a name in a directory it wrote, and which pointers are missing for
  large files.
\<close>

section \<open>What the stream holds\<close>

definition at_end :: "ostream \<Rightarrow> bool" where
  "at_end out \<longleftrightarrow> out_pos out = length (out_bytes out)"

definition blocks_of :: "nat \<Rightarrow> nat" where
  "blocks_of n = (n + 1023) div 1024"

definition block_pad :: "u8 list \<Rightarrow> u8 list" where
  "block_pad bs = bs @ replicate (1024 * blocks_of (length bs) - length bs) 0"

definition pointer_bytes :: "u32 list \<Rightarrow> u8 list" where
  "pointer_bytes ps = concat (map le32 ps) @ replicate (1024 - length ps * 4) 0"

lemma length_concat_le32 [simp]: "length (concat (map le32 ps)) = length ps * 4"
  by (induction ps) simp_all

lemma blocks_of_parts: "r < 1024 \<Longrightarrow> blocks_of (1024 * q + r) = (if r = 0 then q else q + 1)"
proof (cases r)
  case (Suc k)
  then have "1024 * q + r + 1023 = k + (q + 1) * 1024" by simp
  then show "r < 1024 \<Longrightarrow> ?thesis" using Suc by (simp add: blocks_of_def)
qed (simp add: blocks_of_def)

lemma blocks_of_mod: "blocks_of n = (if n mod 1024 = 0 then n div 1024 else n div 1024 + 1)"
  using blocks_of_parts [of "n mod 1024" "n div 1024"] by simp

lemma length_block_pad: "length (block_pad bs) = 1024 * blocks_of (length bs)"
  by (simp add: block_pad_def blocks_of_def)

lemma length_pointer_bytes: "length ps \<le> 256 \<Longrightarrow> length (pointer_bytes ps) = 1024"
  by (simp add: pointer_bytes_def)

lemma word_at_pointer_bytes: "k < length ps \<Longrightarrow> word_at (pointer_bytes ps) k = ps ! k"
  by (simp add: pointer_bytes_def word_at_concat)

lemma out_write_end:
  "at_end out \<Longrightarrow> out_write bs out = \<lparr>out_bytes = out_bytes out @ bs, out_pos = length (out_bytes out) + length bs\<rparr>"
  by (simp add: out_write_def at_end_def Let_def)

lemma at_end_write: "at_end out \<Longrightarrow> at_end (out_write bs out)"
  by (simp add: out_write_end) (simp add: at_end_def)

text \<open>A stream that holds whole blocks.\<close>

definition whole_blocks :: "ostream \<Rightarrow> bool" where
  "whole_blocks out \<longleftrightarrow> at_end out \<and> out_pos out mod 1024 = 0"

lemma fill_written:
  assumes "whole_blocks out"
  shows "fill_to_block (out_write bs out) = out_write (block_pad bs) out"
proof -
  have "1024 dvd length (out_bytes out)" using assms by (auto simp: whole_blocks_def at_end_def)
  then obtain f where f: "length (out_bytes out) = 1024 * f" by (rule dvdE)
  have e: "at_end out" using assms by (simp add: whole_blocks_def)
  show ?thesis
  proof (cases "length bs mod 1024 = 0")
    case True
    then have "1024 * blocks_of (length bs) = length bs" using mult_div_mod_eq [of 1024 "length bs"] by (simp only: blocks_of_mod simp_thms if_True add_0_right)
    then show ?thesis using True e f by (simp add: fill_to_block_def out_write_end block_pad_def Let_def)
  next
    case False
    then have k: "blocks_of (length bs) = length bs div 1024 + 1" by (simp only: blocks_of_mod if_False)
    have m: "(1024 * f + length bs) mod 1024 \<noteq> 0" using False by simp
    have d: "(1024 * f + length bs) div 1024 = f + length bs div 1024" by simp
    have "at_end (out_write bs out)" using at_end_write [OF e] .
    then show ?thesis using e f m k
      by (simp add: fill_to_block_def out_write_end block_pad_def Let_def d)
  qed
qed

lemma whole_blocks_pad: "whole_blocks out \<Longrightarrow> whole_blocks (out_write (block_pad bs) out)"
  by (auto simp: whole_blocks_def out_write_end length_block_pad at_end_def mod_add_eq)

lemma pointer_block_written:
  assumes "whole_blocks out" "length ps \<le> 256"
  shows "write_pointer_block ps out = (out_write (pointer_bytes ps) out, out_block out)" "whole_blocks (out_write (pointer_bytes ps) out)"
proof -
  have e: "at_end out" using assms(1) by (simp add: whole_blocks_def)
  show "write_pointer_block ps out = (out_write (pointer_bytes ps) out, out_block out)"
    using e at_end_write [OF e, of "concat (map le32 ps)"]
    by (simp add: write_pointer_block_def Let_def out_write_end pointer_bytes_def)
  show "whole_blocks (out_write (pointer_bytes ps) out)"
    using assms e length_pointer_bytes [OF assms(2)] by (auto simp: whole_blocks_def out_write_end at_end_def)
qed

section \<open>Small files\<close>

lemma fold_update_nth:
  "j < length bs \<Longrightarrow> fold (\<lambda>i bs. bs[i := f i]) is bs ! j = (if j \<in> set is then f j else bs ! j)"
proof (induction "is" arbitrary: bs)
  case (Cons i "is")
  then show ?case by (cases "i = j") auto
qed simp

lemma fold_update_length [simp]: "length (fold (\<lambda>i bs. bs[i := f i]) is bs) = length bs"
  by (induction "is" arbitrary: bs) simp_all

text \<open>The blocks of a packed file: its data from block \<open>f\<close> on, \<open>n\<close> of them.\<close>

definition direct_at :: "u32 list \<Rightarrow> nat \<Rightarrow> nat \<Rightarrow> bool" where
  "direct_at blocks f n \<longleftrightarrow> length blocks = 13 \<and> (\<forall>i<min n 10. blocks ! i = of_nat (f + i))"

lemma direct_blocks_at:
  assumes "n \<le> unat (sz div 1024) + 1"
  shows "direct_at (direct_blocks (of_nat f) sz ((replicate 13 0)[0 := of_nat f])) f n"
proof -
  have "unat (sz div 1024) \<le> unat sz" by (simp add: unat_div)
  moreover have "unat (sz div 1024) < 2 ^ 22" using unat_u32_less [of sz] by (simp add: unat_div div_less_iff_less_mult)
  ultimately have "unat (sz div 1024 + 1) = unat (sz div 1024) + 1" by (subst unat_plus_nowrap) simp_all
  then show ?thesis using assms
    by (auto simp: direct_at_def direct_blocks_def fold_update_nth nth_list_update)
qed

lemma unat_size: "n < 2 ^ 32 \<Longrightarrow> unat ((of_nat n :: u32) div 1024) = n div 1024"
  by (simp add: unat_div unat_of_nat_u32)

lemma blocks_of_bound: "blocks_of n \<le> n div 1024 + 1"
  using div_le_mono [of "n + 1023" "n + 1024" 1024] by (simp add: blocks_of_def)

lemma pack_file_direct:
  assumes "bs \<noteq> []" "length bs \<le> 10240" "whole_blocks out" "out_pos out = 1024 * f"
  shows "\<exists>blocks. pack_file (Some bs) inodes out = (inodes @ [\<lparr>i_type = 1, i_size = of_nat (length bs), i_blocks = blocks, i_reserved = 0\<rparr>],
      out_write (block_pad bs) out, of_nat (length inodes)) \<and> direct_at blocks f (blocks_of (length bs))"
proof -
  let ?sz = "of_nat (length bs) :: u32"
  have u: "unat (?sz div 1024) = length bs div 1024" using assms(2) unat_size [of "length bs"] by simp
  have "?sz \<noteq> 0" using assms(1,2) by (simp add: word_unat_eq_iff unat_of_nat_u32)
  moreover have "\<not> ?sz div 1024 > 10" using u assms(2) by (simp add: word_less_nat_alt div_le_mono)
  moreover have "out_block out = of_nat f" using assms(4) by (simp add: out_block_def)
  moreover have "direct_at (direct_blocks (of_nat f) ?sz ((replicate 13 0)[0 := of_nat f])) f (blocks_of (length bs))"
    using direct_blocks_at [of "blocks_of (length bs)" ?sz] blocks_of_bound [of "length bs"] u by simp
  ultimately show ?thesis using assms(2) fill_written [OF assms(3), of bs]
    by (simp add: pack_file_def indirect_blocks_def Let_def)
qed

lemma indirect_single:
  assumes "sz div 1024 > 10" "unat ((sz + 1024 - 1) div 1024) = n" "10 < n" "n \<le> 266"
  shows "indirect_blocks first sz blocks out =
    (case write_pointer_block (map (\<lambda>i. first + of_nat i) [10..<n]) out of (o1, b) \<Rightarrow> (o1, blocks[10 := b]))"
proof -
  define t where "t = (sz + 1024 - 1) div 1024"
  have t: "unat t = n" using assms(2) by (simp only: t_def)
  then have c: "t > 10" "\<not> t > 10 + 256" "\<not> t > 10 + 256 + 256 * 256" "min t (10 + 256) = t"
    using assms(3,4) by (simp_all add: word_less_nat_alt min_def word_le_nat_alt)
  have "single_blocks first t = map (\<lambda>i. first + of_nat i) [10..<n]" by (simp only: single_blocks_def c t)
  moreover have "map (\<lambda>i. first + of_nat i) [10..<n] \<noteq> []" using assms(3) by simp
  ultimately show ?thesis using assms(1)
    by (simp only: indirect_blocks_def Let_def t_def [symmetric] c if_True if_False not_not simp_thms) (simp add: split_beta)
qed

lemma pack_file_single:
  assumes "11264 \<le> length bs" "length bs \<le> 266 * 1024" "whole_blocks out" "out_pos out = 1024 * f"
  shows "\<exists>blocks. pack_file (Some bs) inodes out = (inodes @ [\<lparr>i_type = 1, i_size = of_nat (length bs), i_blocks = blocks, i_reserved = 0\<rparr>],
      out_write (pointer_bytes (map (\<lambda>i. of_nat (f + i)) [10..<blocks_of (length bs)])) (out_write (block_pad bs) out), of_nat (length inodes)) \<and>
    direct_at blocks f (blocks_of (length bs)) \<and> blocks ! 10 = of_nat (f + blocks_of (length bs))"
proof -
  let ?sz = "of_nat (length bs) :: u32"
  let ?n = "blocks_of (length bs)"
  let ?ps = "map (\<lambda>i. of_nat f + of_nat i) [10..<?n] :: u32 list"
  let ?out = "out_write (block_pad bs) out"
  let ?direct = "direct_blocks (of_nat f) ?sz ((replicate 13 0)[0 := of_nat f])"
  have u: "unat (?sz div 1024) = length bs div 1024" using assms(2) unat_size [of "length bs"] by simp
  have n: "10 < ?n" "?n \<le> 266" using assms(1,2) by (simp_all add: blocks_of_def) 
  have "unat (?sz + 1023) = length bs + 1023" using assms(2) by (subst unat_plus_nowrap) (simp_all add: unat_of_nat_u32)
  moreover have "?sz + 1024 - 1 = ?sz + 1023" by simp
  ultimately have total: "unat ((?sz + 1024 - 1) div 1024) = ?n" by (simp only: unat_div blocks_of_def) simp
  have z: "?sz \<noteq> 0" using assms(1,2) by (auto simp: word_unat_eq_iff unat_of_nat_u32)
  have g: "?sz div 1024 > 10" using u assms(1) by (simp add: word_less_nat_alt)
  have first: "out_block out = of_nat f" using assms(4) by (simp add: out_block_def)
  have "out_pos ?out = 1024 * (f + ?n)"
    using assms(3,4) by (simp add: whole_blocks_def out_write_end length_block_pad at_end_def)
  then have "out_block ?out = of_nat (f + ?n)" by (simp only: out_block_def) simp
  moreover have "length ?ps \<le> 256" using n by simp
  ultimately have "write_pointer_block ?ps ?out = (out_write (pointer_bytes ?ps) ?out, of_nat (f + ?n))"
    by (simp only: pointer_block_written(1) [OF whole_blocks_pad [OF assms(3)]])
  then have i: "indirect_blocks (of_nat f) ?sz ?direct ?out = (out_write (pointer_bytes ?ps) ?out, ?direct[10 := of_nat (f + ?n)])"
    by (simp add: indirect_single [OF g total n])
  have d: "direct_at ?direct f ?n"
    using direct_blocks_at [of ?n ?sz] blocks_of_bound [of "length bs"] u by simp
  then have "direct_at (?direct[10 := of_nat (f + ?n)]) f ?n" "?direct[10 := of_nat (f + ?n)] ! 10 = of_nat (f + ?n)"
    by (simp_all add: direct_at_def)
  moreover have "pack_file (Some bs) inodes out = (inodes @ [\<lparr>i_type = 1, i_size = ?sz, i_blocks = ?direct[10 := of_nat (f + ?n)], i_reserved = 0\<rparr>],
      out_write (pointer_bytes ?ps) ?out, of_nat (length inodes))"
    using assms(2) z i fill_written [OF assms(3), of bs] by (simp add: pack_file_def Let_def first)
  ultimately show ?thesis by auto
qed

section \<open>The kernel loads blocks\<close>

text \<open>Reads of the disk that store nothing outside a region.\<close>

definition reads_into :: "(io_event list \<Rightarrow> u32 \<Rightarrow> u16 list) \<Rightarrow> (ptr \<Rightarrow> bool) \<Rightarrow> 'a fs_state_scheme \<Rightarrow> 'a fs_state_scheme \<Rightarrow> bool" where
  "reads_into disk R s s' \<longleftrightarrow> disk_only s s' \<and> disk (io s') = disk (io s) \<and> (\<forall>a. \<not> R a \<longrightarrow> mem s' a = mem s a)"

lemma reads_into_refl [simp]: "reads_into disk R s s"
  by (simp add: reads_into_def)

lemma reads_into_trans: "reads_into disk R s s' \<Longrightarrow> reads_into disk R s' s'' \<Longrightarrow> reads_into disk R s s''"
  by (auto simp: reads_into_def intro: disk_only_trans)

lemma reads_into_mono: "reads_into disk R s s' \<Longrightarrow> (\<And>a. R a \<Longrightarrow> R' a) \<Longrightarrow> reads_into disk R' s s'"
  by (auto simp: reads_into_def)

definition area :: "ptr \<Rightarrow> nat \<Rightarrow> ptr \<Rightarrow> bool" where
  "area p n a \<longleftrightarrow> (\<exists>j<n. a = p + of_nat j)"

lemma area_part: "area (p + of_nat k) n a \<Longrightarrow> area p (k + n) a"
  unfolding area_def by (metis (no_types, lifting) add.assoc nat_add_left_cancel_less of_nat_add)

lemma area_less: "area p k a \<Longrightarrow> k \<le> n \<Longrightarrow> area p n a"
  unfolding area_def by (metis order_less_le_trans)

lemma put_bytes_area: "length bs \<le> 2 ^ 32 \<Longrightarrow> \<not> area p (length bs) a \<Longrightarrow> put_bytes m p bs a = m a"
  by (rule put_bytes_other) (auto simp: area_def)

lemma drive_read_into:
  assumes "reads_sectors dev disk" "unat b < 2 ^ 21" "drive_ready s"
  shows "\<exists>s'. drive_read dev (b * BLOCK_SIZE) buffer BLOCK_SIZE s = Some s' \<and>
    bytes_at (mem s') buffer 1024 = block_bytes (disk (io s)) b \<and> length (block_bytes (disk (io s)) b) = 1024 \<and>
    reads_into disk (area buffer 1024) s s'"
proof -
  obtain s' where s': "drive_read dev (b * BLOCK_SIZE) buffer BLOCK_SIZE s = Some s'"
    "mem s' = put_bytes (mem s) buffer (block_bytes (disk (io s)) b)" "disk (io s') = disk (io s)"
    "length (block_bytes (disk (io s)) b) = 1024" "disk_only s s'"
    using drive_read_block [OF assms] by blast
  have "bytes_at (mem s') buffer 1024 = block_bytes (disk (io s)) b"
    using bytes_at_put_bytes [of "block_bytes (disk (io s)) b" "mem s" buffer] s'(2,4) by simp
  moreover have "mem s' a = mem s a" if "\<not> area buffer 1024 a" for a
    using put_bytes_area [of "block_bytes (disk (io s)) b" buffer a "mem s"] that s'(2,4) by simp
  ultimately show ?thesis using s' by (auto simp: reads_into_def)
qed

text \<open>\<open>find_block\<close> finds block \<open>b\<close> for block \<open>k\<close> of a file, whatever is in memory.\<close>

definition finds :: "device \<Rightarrow> (io_event list \<Rightarrow> u32 \<Rightarrow> u16 list) \<Rightarrow> ptr \<Rightarrow> u32 list \<Rightarrow> (u32 \<Rightarrow> u16 list) \<Rightarrow> ('a fs_state_scheme \<Rightarrow> bool) \<Rightarrow> nat \<Rightarrow> u32 \<Rightarrow> bool" where
  "finds dev disk stk blocks sectors ok k b \<longleftrightarrow> (\<forall>t. ok t \<and> drive_ready t \<and> disk (io t) = sectors \<longrightarrow>
     (\<exists>t'. find_block dev stk blocks (of_nat k) t = Some (t', b) \<and> reads_into disk (area stk 1024) t t'))"

lemma finds_direct: "k < 10 \<Longrightarrow> finds dev disk stk blocks sectors ok k (blocks ! k)"
  by (simp add: finds_def find_block_def word_less_nat_alt unat_of_nat_u32)

lemma finds_single:
  assumes "reads_sectors dev disk" "10 \<le> k" "k < 266" "unat (blocks ! 10) < 2 ^ 21"
    and "block_bytes sectors (blocks ! 10) = pointer_bytes ps" "k - 10 < length ps"
  shows "finds dev disk stk blocks sectors ok k (ps ! (k - 10))"
  unfolding finds_def
proof (intro allI impI)
  fix t :: "'a fs_state_scheme"
  assume t: "ok t \<and> drive_ready t \<and> disk (io t) = sectors"
  obtain t' where t': "drive_read dev (blocks ! 10 * BLOCK_SIZE) stk BLOCK_SIZE t = Some t'"
    "bytes_at (mem t') stk 1024 = block_bytes sectors (blocks ! 10)" "reads_into disk (area stk 1024) t t'"
    using drive_read_into [OF assms(1,4), of t stk] t by auto
  have u: "unat (of_nat k :: u32) = k" using assms(3) by (simp add: unat_of_nat_u32)
  then have "unat (of_nat k - 10 :: u32) = k - 10" using assms(2) by (subst unat_minus_nowrap) simp_all
  then show "\<exists>t'. find_block dev stk blocks (of_nat k) t = Some (t', ps ! (k - 10)) \<and> reads_into disk (area stk 1024) t t'"
    using t' u assms by (simp add: find_block_def word_less_nat_alt pointer_block_def drive_load_def word_at_pointer_bytes)
qed

text \<open>Blocks that are found are loaded one after the other, into a buffer apart from the stack.\<close>

lemma load_blocks_found:
  assumes dev: "reads_sectors dev disk" and n: "\<And>k. k < n \<Longrightarrow> finds dev disk stk blocks sectors (\<lambda>t :: 'a fs_state_scheme. True) k (b k)"
    and b: "\<And>k. k < n \<Longrightarrow> b k \<noteq> 0 \<and> unat (b k) < 2 ^ 21" and small: "1024 * n < 2 ^ 32"
    and apart: "\<And>a. area buffer (1024 * n) a \<Longrightarrow> \<not> area stk 1024 a"
  shows "k + i = n \<Longrightarrow> drive_ready s \<Longrightarrow> disk (io s) = sectors \<Longrightarrow>
    \<exists>s'. load_blocks_loop dev stk buffer blocks 0 k (of_nat i) s = Some (s', buffer) \<and>
      bytes_at (mem s') (buffer + of_nat (1024 * i)) (1024 * k) = concat (map (\<lambda>j. block_bytes sectors (b j)) [i..<n]) \<and>
      reads_into disk (\<lambda>a. area stk 1024 a \<or> area (buffer + of_nat (1024 * i)) (1024 * k) a) s (s' :: 'a fs_state_scheme)"
proof (induction k arbitrary: i s)
  case (Suc k)
  have i: "i < n" using Suc.prems by simp
  then have ui: "unat (of_nat i :: u32) = i" using small by (simp add: unat_of_nat_u32)
  have "unat (of_nat i * BLOCK_SIZE :: u32) = i * 1024" using ui i small by (subst unat_times_nowrap) simp_all
  then have idx: "(0 + of_nat i * BLOCK_SIZE) div BLOCK_SIZE = (of_nat i :: u32)" by (simp add: word_unat_eq_iff unat_div ui)
  let ?p = "buffer + of_nat (1024 * i)"
  obtain s1 where s1: "find_block dev stk blocks (of_nat i) s = Some (s1, b i)" "reads_into disk (area stk 1024) s s1"
    using n [OF i] Suc.prems(2,3) unfolding finds_def by blast
  have r1: "drive_ready s1" "disk (io s1) = sectors" using s1(2) Suc.prems(2,3) disk_only_fields(6) by (auto simp: reads_into_def)
  obtain s2 where s2: "drive_read dev (b i * BLOCK_SIZE) ?p BLOCK_SIZE s1 = Some s2"
    "bytes_at (mem s2) ?p 1024 = block_bytes sectors (b i)" "length (block_bytes sectors (b i)) = 1024" "reads_into disk (area ?p 1024) s1 s2"
    using drive_read_into [OF dev _ r1(1), of "b i" ?p] b [OF i] r1(2) by auto
  have r2: "drive_ready s2" "disk (io s2) = sectors" using s2(4) r1 disk_only_fields(6) by (auto simp: reads_into_def)
  have q: "?p + of_nat 1024 = buffer + of_nat (1024 * (i + 1))" by simp
  obtain s' where s': "load_blocks_loop dev stk buffer blocks 0 k (of_nat (i + 1)) s2 = Some (s', buffer)"
    "bytes_at (mem s') (?p + of_nat 1024) (1024 * k) = concat (map (\<lambda>j. block_bytes sectors (b j)) [i + 1..<n])"
    "reads_into disk (\<lambda>a. area stk 1024 a \<or> area (?p + of_nat 1024) (1024 * k) a) s2 s'"
    using Suc.IH [of "i + 1", OF _ r2] Suc.prems(1) unfolding q by auto
  have in_buffer: "area buffer (1024 * n) (?p + of_nat j)" if "j < 1024 * Suc k" for j
  proof -
    have "1024 * i + j < 1024 * n" using that Suc.prems(1) by auto
    then show ?thesis unfolding area_def by (intro exI [of _ "1024 * i + j"]) (simp add: add.assoc)
  qed
  have keep: "mem s' (?p + of_nat j) = mem s2 (?p + of_nat j)" if j: "j < 1024" for j
  proof -
    have "\<not> area (?p + of_nat 1024) (1024 * k) (?p + of_nat j)"
    proof
      assume "area (?p + of_nat 1024) (1024 * k) (?p + of_nat j)"
      then obtain l where "l < 1024 * k" "?p + of_nat j = ?p + of_nat (1024 + l)" by (auto simp: area_def add.assoc)
      then show False using offset_eq_iff [of j "1024 + l" ?p] j Suc.prems(1) small by simp
    qed
    moreover have "\<not> area stk 1024 (?p + of_nat j)" using apart in_buffer [of j] j by simp
    ultimately show ?thesis using s'(3) by (simp add: reads_into_def)
  qed
  have "bytes_at (mem s') ?p (1024 * Suc k) = bytes_at (mem s') ?p 1024 @ bytes_at (mem s') (?p + of_nat 1024) (1024 * k)"
    by (intro nth_equalityI) (auto simp: nth_append add.assoc simp flip: of_nat_add)
  moreover have "bytes_at (mem s') ?p 1024 = block_bytes sectors (b i)"
    using keep s2(2) by (metis (no_types, lifting) bytes_at_nth length_bytes_at nth_equalityI)
  ultimately have "bytes_at (mem s') ?p (1024 * Suc k) = concat (map (\<lambda>j. block_bytes sectors (b j)) [i..<n])"
    using s'(2) i by (simp add: upt_conv_Cons)
  moreover have "reads_into disk (\<lambda>a. area stk 1024 a \<or> area ?p (1024 * Suc k) a) s s'"
  proof -
    have m: "area (?p + of_nat 1024) (1024 * k) a \<Longrightarrow> area ?p (1024 * Suc k) a" for a using area_part [of ?p 1024 "1024 * k" a] by simp
    have m': "area ?p 1024 a \<Longrightarrow> area ?p (1024 * Suc k) a" for a using area_less [of ?p 1024 a "1024 * Suc k"] by simp
    have "reads_into disk (\<lambda>a. area stk 1024 a \<or> area ?p (1024 * Suc k) a) s s1" using s1(2) by (rule reads_into_mono) simp
    moreover have "reads_into disk (\<lambda>a. area stk 1024 a \<or> area ?p (1024 * Suc k) a) s1 s2" using s2(4) by (rule reads_into_mono) (use m' in blast)
    moreover have "reads_into disk (\<lambda>a. area stk 1024 a \<or> area ?p (1024 * Suc k) a) s2 s'" using s'(3) by (rule reads_into_mono) (use m in blast)
    ultimately show ?thesis by (blast intro: reads_into_trans)
  qed
  moreover have "load_blocks_loop dev stk buffer blocks 0 (Suc k) (of_nat i) s = Some (s', buffer)"
  proof -
    have "b i \<noteq> 0xFFFFFFFF" "b i \<noteq> 0" using b [OF i] by auto
    moreover have "of_nat i + 1 = (of_nat (i + 1) :: u32)" "buffer + of_nat i * BLOCK_SIZE = ?p" by (simp_all add: mult.commute)
    ultimately show ?thesis using s2(1) s'(1) by (simp only: load_blocks_loop.simps Let_def idx s1(1)) simp
  qed
  ultimately show ?case by blast
qed simp

section \<open>What was packed is read back\<close>

lemma concat_chunks: "length xs = 1024 * n \<Longrightarrow> concat (map (\<lambda>i. take 1024 (drop (1024 * i) xs)) [0..<n]) = xs"
proof (induction n arbitrary: xs)
  case (Suc n)
  have "concat (map (\<lambda>i. take 1024 (drop (1024 * i) (drop 1024 xs))) [0..<n]) = drop 1024 xs"
    using Suc.IH [of "drop 1024 xs"] Suc.prems by simp
  moreover have "[0..<Suc n] = 0 # map Suc [0..<n]" by (simp add: map_Suc_upt upt_conv_Cons)
  ultimately show ?case by (simp add: comp_def add.commute)
qed simp

lemma blocks_in_image:
  assumes "length old = 1024 * f" "length data = 1024 * n" "i < n"
  shows "take 1024 (drop (1024 * (f + i)) (old @ data @ rest)) = take 1024 (drop (1024 * i) data)"
proof -
  have "1024 * i + 1024 \<le> length data" using assms(2,3) by simp
  then show ?thesis using assms(1) by (simp add: algebra_simps)
qed

lemma block_after_data:
  assumes "length old = 1024 * f" "length data = 1024 * n" "length ps = 1024"
  shows "take 1024 (drop (1024 * (f + n)) (old @ data @ ps)) = ps"
  using assms by (simp add: algebra_simps)

text \<open>What \<open>pack_file\<close> leaves for a file that needs no second pointer block.\<close>

lemma packed_file:
  assumes "pack_file (Some bs) inodes out = (inodes', out', number)"
    and "bs \<noteq> []" "length bs \<le> 10240 \<or> 11264 \<le> length bs" "length bs \<le> 272384" "whole_blocks out" "out_pos out = 1024 * f"
  shows "\<exists>blocks rest. last inodes' = \<lparr>i_type = 1, i_size = of_nat (length bs), i_blocks = blocks, i_reserved = 0\<rparr> \<and>
    out_bytes out' = out_bytes out @ block_pad bs @ rest \<and> direct_at blocks f (blocks_of (length bs)) \<and>
    (10 < blocks_of (length bs) \<longrightarrow> rest = pointer_bytes (map (\<lambda>i. of_nat (f + i)) [10..<blocks_of (length bs)]) \<and>
       blocks ! 10 = of_nat (f + blocks_of (length bs)))"
proof -
  have e: "at_end out" using assms(5) by (simp add: whole_blocks_def)
  show ?thesis
  proof (cases "length bs \<le> 10240")
    case True
    then have "\<not> 10 < blocks_of (length bs)" by (simp add: blocks_of_def)
    then show ?thesis using pack_file_direct [OF assms(2) True assms(5,6), of inodes] assms(1) e by (auto simp: out_write_end)
  next
    case False
    then show ?thesis using pack_file_single [OF _ _ assms(5,6), of bs inodes] assms(1,3,4) e at_end_write [OF e, of "block_pad bs"]
      by (auto simp: out_write_end)
  qed
qed

text \<open>Through its blocks the kernel finds the blocks of the data.\<close>

lemma packed_finds:
  assumes "reads_sectors dev disk" "direct_at blocks f n" "f + n + 1 < 2 ^ 21" "n \<le> 266"
    and "10 < n \<longrightarrow> unat (blocks ! 10) < 2 ^ 21 \<and> block_bytes sectors (blocks ! 10) = pointer_bytes (map (\<lambda>i. of_nat (f + i)) [10..<n])"
    and "k < n"
  shows "finds dev disk stk blocks sectors (\<lambda>t :: 'a fs_state_scheme. True) k (of_nat (f + k))"
proof (cases "k < 10")
  case True
  then show ?thesis using finds_direct [OF True, of dev disk stk blocks sectors] assms(2,6) by (simp add: direct_at_def)
next
  case False
  then show ?thesis
    using finds_single [OF assms(1), of k blocks sectors "map (\<lambda>i. of_nat (f + i)) [10..<n]" stk "\<lambda>t :: 'a fs_state_scheme. True"] assms(4-6) by simp
qed

text \<open>The pointer block lies behind the data.\<close>

lemma pointer_block_in_image:
  assumes "length old = 1024 * f" "length data = 1024 * n" "n \<le> 266" "f + n + 1 < 2 ^ 21" "out_bytes out' = old @ data @ rest" "out_pos out = 1024 * f"
    and "\<forall>b. out_pos out \<le> 1024 * b \<and> 1024 * b < length (out_bytes out') \<longrightarrow>
      block_bytes sectors (of_nat b) = take 1024 (drop (1024 * b) (out_bytes out'))"
    and "10 < n \<longrightarrow> rest = pointer_bytes ps \<and> blocks ! 10 = of_nat (f + n)" "length ps \<le> 256"
  shows "10 < n \<longrightarrow> unat (blocks ! 10) < 2 ^ 21 \<and> block_bytes sectors (blocks ! 10) = pointer_bytes ps"
proof
  assume "10 < n"
  then have r: "rest = pointer_bytes ps" "blocks ! 10 = of_nat (f + n)" using assms(8) by simp_all
  have lp: "length (pointer_bytes ps) = 1024" using length_pointer_bytes [OF assms(9)] .
  then have "pointer_bytes ps \<noteq> []" by force
  then have "block_bytes sectors (blocks ! 10) = pointer_bytes ps"
    using assms(7) [rule_format, of "f + n"] block_after_data [OF assms(1,2) lp] r assms(1,2,5,6) lp by simp
  moreover have "unat (of_nat (f + n) :: u32) = f + n" using assms(4) by (intro unat_of_nat_u32) simp
  ultimately show "unat (blocks ! 10) < 2 ^ 21 \<and> block_bytes sectors (blocks ! 10) = pointer_bytes ps" using assms(4) by (simp only: r(2)) simp
qed

text \<open>C17: The kernel reads what the image tool packed. When the disk holds the image and the file needs at most the
  single pointer block, the inode that \<open>pack_file\<close> adds has the file's size, and \<open>harddrive_load_blocks\<close> through its
  blocks fills the buffer with the bytes of the file. Not covered are the sizes from 10241 to 11263, for which
  the tool writes no pointer block.\<close>

theorem packed_file_reads_back:
  assumes "pack_file (Some bs) inodes out = (inodes', out', number)"
    and "bs \<noteq> []" "length bs \<le> 10240 \<or> 11264 \<le> length bs" "length bs \<le> 272384"
    and "out_pos out = length (out_bytes out)" "out_pos out mod 1024 = 0" "0 < out_pos out" "out_pos out + length bs + 2048 < 2 ^ 31"
    and "reads_sectors dev disk" "fops_of s (harddrive s) = Hdd_Ops"
    and "\<forall>b. out_pos out \<le> 1024 * b \<and> 1024 * b < length (out_bytes out') \<longrightarrow>
      block_bytes (disk (io s)) (of_nat b) = take 1024 (drop (1024 * b) (out_bytes out'))"
    and "n = (length bs + 1023) div 1024" "\<forall>i<1024 * n. \<forall>j<1024. buffer + of_nat i \<noteq> stk + of_nat j"
  shows "\<exists>s'. harddrive_load_blocks dev stk buffer (i_blocks (last inodes')) 0 (of_nat n) s = Some (s', buffer) \<and>
    i_size (last inodes') = of_nat (length bs) \<and> bytes_at (mem s') buffer (length bs) = bs \<and> disk_only s s'"
proof -
  obtain f where f: "out_pos out = 1024 * f" using assms(6) by auto
  have w: "whole_blocks out" using assms(5,6) by (simp add: whole_blocks_def at_end_def)
  have n: "n = blocks_of (length bs)" using assms(12) by (simp add: blocks_of_def)
  have nb: "n \<le> 266" using assms(4) by (simp add: n blocks_of_def)
  have len: "length (block_pad bs) = 1024 * n" by (simp add: length_block_pad n)
  have fn: "f + n + 1 < 2 ^ 21" "0 < f" using assms(7,8) f by (simp_all add: n blocks_of_def)
  let ?ps = "map (\<lambda>i. of_nat (f + i)) [10..<n] :: u32 list"
  obtain blocks rest where p: "last inodes' = \<lparr>i_type = 1, i_size = of_nat (length bs), i_blocks = blocks, i_reserved = 0\<rparr>"
    "out_bytes out' = out_bytes out @ block_pad bs @ rest" "direct_at blocks f n" "10 < n \<longrightarrow> rest = pointer_bytes ?ps \<and> blocks ! 10 = of_nat (f + n)"
    using packed_file [OF assms(1-4) w f] unfolding n by blast
  have old: "length (out_bytes out) = 1024 * f" using assms(5) f by simp
  let ?sectors = "disk (io s)"
  have data: "block_bytes ?sectors (of_nat (f + k)) = take 1024 (drop (1024 * k) (block_pad bs))" if "k < n" for k
    using assms(11) [rule_format, of "f + k"] blocks_in_image [OF old len that, of rest] that f p(2) old len by simp
  have "length ?ps \<le> 256" using nb by simp
  note ptrs = pointer_block_in_image [OF old len nb fn(1) p(2) f assms(11) p(4) this]
  note finds = packed_finds [OF assms(9) p(3) fn(1) nb ptrs, where stk = stk]
  have ok: "(of_nat (f + k) :: u32) \<noteq> 0 \<and> unat (of_nat (f + k) :: u32) < 2 ^ 21" if "k < n" for k
  proof -
    have "unat (of_nat (f + k) :: u32) = f + k" using that fn by (intro unat_of_nat_u32) simp
    then show ?thesis using that fn by (simp add: word_unat_eq_iff del: of_nat_add)
  qed
  have apart: "\<not> area stk 1024 a" if "area buffer (1024 * n) a" for a
    using assms(13) that by (auto simp: area_def)
  have "unat (of_nat n :: u32) = n" using nb by (simp add: unat_of_nat_u32)
  moreover obtain s' where "load_blocks_loop dev stk buffer blocks 0 n 0 s = Some (s', buffer)"
      "bytes_at (mem s') buffer (1024 * n) = concat (map (\<lambda>j. block_bytes ?sectors (of_nat (f + j))) [0..<n])" "disk_only s s'"
    using load_blocks_found [where n = n and buffer = buffer and stk = stk and k = n and i = 0 and s = s, OF assms(9) finds ok _ apart _ _ refl] nb assms(10) by (auto simp: drive_ready_def reads_into_def)
  moreover have "concat (map (\<lambda>j. block_bytes ?sectors (of_nat (f + j))) [0..<n]) = block_pad bs"
  proof -
    have "map (\<lambda>j. block_bytes ?sectors (of_nat (f + j))) [0..<n] = map (\<lambda>i. take 1024 (drop (1024 * i) (block_pad bs))) [0..<n]"
      using data by (intro map_cong) simp_all
    then show ?thesis using concat_chunks [OF len] by (simp only:)
  qed
  ultimately have "harddrive_load_blocks dev stk buffer blocks 0 (of_nat n) s = Some (s', buffer)" "bytes_at (mem s') buffer (1024 * n) = block_pad bs" "disk_only s s'"
    by (simp_all add: harddrive_load_blocks_def)
  moreover have "bytes_at (mem s') buffer (length bs) = bs"
  proof -
    have l: "length bs \<le> 1024 * n" using len by (simp add: block_pad_def)
    have "bytes_at (mem s') buffer (length bs) = take (length bs) (bytes_at (mem s') buffer (1024 * n))"
      using l by (intro nth_equalityI) simp_all
    then show ?thesis using calculation(2) by (simp add: block_pad_def)
  qed
  ultimately show ?thesis using p(1) by auto
qed

lemma sector_bytes_zeros: "sector_bytes (replicate n 0) = replicate (2 * n) 0"
  by (induction n) (simp_all add: sector_bytes_def word_bytes_def)

theorem packed_file_reads_back_witness:
  "\<exists>s'. harddrive_load_blocks (sim_drive (\<lambda>lba. if lba = 2 then [0x0201, 3] @ replicate 254 0 else replicate 256 0)) 0x7000 0x8000
      (i_blocks (last (fst (pack_file (Some [1, 2, 3]) [] \<lparr>out_bytes = replicate 1024 0, out_pos = 1024\<rparr>)))) 0 1 fs_demo =
     Some (s', 0x8000) \<and> bytes_at (mem s') 0x8000 3 = [1, 2, 3]"
proof -
  let ?disk = "\<lambda>lba :: u32. if lba = 2 then [0x0201, 3] @ replicate 254 0 else replicate 256 (0 :: u16)"
  let ?out = "\<lparr>out_bytes = replicate 1024 0, out_pos = 1024\<rparr>"
  have "whole_blocks ?out" by (simp add: whole_blocks_def at_end_def)
  then obtain blocks where p: "pack_file (Some [1, 2, 3]) [] ?out = ([\<lparr>i_type = 1, i_size = 3, i_blocks = blocks, i_reserved = 0\<rparr>], out_write (block_pad [1, 2, 3]) ?out, 0)"
    using pack_file_direct [of "[1, 2, 3]" ?out 1 "[]"] by auto
  have bp: "block_pad [1, 2, 3] = [1, 2, 3] @ replicate 1021 0" by (simp add: block_pad_def blocks_of_def)
  have o: "out_bytes (out_write (block_pad [1, 2, 3]) ?out) = replicate 1024 0 @ [1, 2, 3] @ replicate 1021 0"
    by (simp add: bp out_write_def Let_def)
  have d: "block_bytes ?disk 1 = [1, 2, 3] @ replicate 1021 0"
  proof -
    have "sector_bytes ([0x0201, 3] @ replicate 254 0) = [1, 2, 3, 0] @ sector_bytes (replicate 254 0)" by (simp add: sector_bytes_def word_bytes_def)
    then show ?thesis by (simp add: block_bytes_def sector_bytes_zeros) (simp add: replicate_add [symmetric] flip: replicate_Suc)
  qed
  have i: "\<forall>b. out_pos ?out \<le> 1024 * b \<and> 1024 * b < length (out_bytes (out_write (block_pad [1, 2, 3]) ?out)) \<longrightarrow>
      block_bytes ?disk (of_nat b) = take 1024 (drop (1024 * b) (out_bytes (out_write (block_pad [1, 2, 3]) ?out)))"
  proof (intro allI impI)
    fix b assume "out_pos ?out \<le> 1024 * b \<and> 1024 * b < length (out_bytes (out_write (block_pad [1, 2, 3]) ?out))"
    then have "b = 1" unfolding o by simp
    then show "block_bytes ?disk (of_nat b) = take 1024 (drop (1024 * b) (out_bytes (out_write (block_pad [1, 2, 3]) ?out)))"
      unfolding o using d by simp
  qed
  have a: "\<forall>i<1024 * 1. \<forall>j<1024. (0x8000 :: u32) + of_nat i \<noteq> 0x7000 + of_nat j"
    using apart_offsets [of "0x8000" 1024 "0x7000" 1024] by simp
  have "reads_sectors (sim_drive ?disk) (\<lambda>_. ?disk)" by (rule sim_drive_reads) simp
  from packed_file_reads_back [OF p _ _ _ _ _ _ _ this _ i _ a, of fs_demo] obtain s' where
    "harddrive_load_blocks (sim_drive ?disk) 0x7000 0x8000 blocks 0 1 fs_demo = Some (s', 0x8000)" "bytes_at (mem s') 0x8000 3 = [1, 2, 3]"
    by (auto simp: fops_of_def fs_demo_facts numeral_3_eq_3)
  then show ?thesis by (simp add: p)
qed

section \<open>Directories\<close>

text \<open>The bytes of entries, and entries in memory, up to one of length 0.\<close>

definition entries_bytes :: "tool_entry list \<Rightarrow> u8 list" where
  "entries_bytes entries = concat (map entry_bytes entries)"

fun entries_at :: "bmem \<Rightarrow> ptr \<Rightarrow> tool_entry list \<Rightarrow> bool" where
  "entries_at m e [] \<longleftrightarrow> de_entry_length m e = 0 \<and> de_name_length m e = 0"
| "entries_at m e (t # ts) \<longleftrightarrow> de_inode_number m e = te_inode_number t \<and> de_entry_length m e = te_entry_length t \<and>
     de_name_length m e = te_name_length t \<and> bytes_at m (e + 12) (length (te_name t)) = te_name t \<and>
     entries_at m (e + te_entry_length t) ts"

text \<open>A name that fits: the lengths of the entry do not wrap, and the name is not empty and has no NUL.\<close>

definition entry_ok :: "tool_entry \<Rightarrow> bool" where
  "entry_ok t \<longleftrightarrow> te_name_length t = of_nat (length (te_name t)) \<and> te_entry_length t = of_nat (length (te_name t) + 12) \<and>
     length (te_name t) < 2 ^ 31 \<and> te_name t \<noteq> [] \<and> 0 \<notin> set (te_name t)"

lemma bytes_at_append: "bytes_at m p (i + j) = bytes_at m p i @ bytes_at m (p + of_nat i) j"
  by (intro nth_equalityI) (auto simp: nth_append add.assoc simp flip: of_nat_add)

lemma bytes_at_split: "bytes_at m p (length xs + n) = xs @ ys \<longleftrightarrow> bytes_at m p (length xs) = xs \<and> bytes_at m (p + of_nat (length xs)) n = ys"
  by (simp add: bytes_at_append)

lemma load32_bytes: "bytes_at m p 4 = le32 v \<Longrightarrow> load32 m p = v"
proof -
  have "bytes_at m p 4 = [m p, m (p + 1), m (p + 2), m (p + 3)]" by (simp add: bytes_at_def upt_rec)
  then show "bytes_at m p 4 = le32 v \<Longrightarrow> load32 m p = v" using bytes_of_u32 [of v] by (simp add: le32_def load32_def)
qed

lemma entries_in_memory:
  "\<forall>t\<in>set ts. entry_ok t \<Longrightarrow> bytes_at m e (length (entries_bytes ts) + 12) = entries_bytes ts @ replicate 12 0 \<Longrightarrow> entries_at m e ts"
proof (induction ts arbitrary: e)
  case Nil
  then have b: "bytes_at m e 12 = le32 0 @ le32 0 @ le32 0" by (simp add: entries_bytes_def le32_def eval_nat_numeral)
  have "bytes_at m e (length (le32 0) + (length (le32 0) + 4)) = le32 0 @ le32 0 @ le32 0" using b by simp
  then have "bytes_at m (e + 4) 4 = le32 0" "bytes_at m (e + 4 + 4) 4 = le32 0" unfolding bytes_at_split by simp_all
  moreover have "e + 4 + 4 = e + 8" by simp
  ultimately have "load32 m (e + 4) = 0" "load32 m (e + 8) = 0" by (simp_all only: load32_bytes)
  then show ?case by (simp add: de_entry_length_def de_name_length_def)
next
  case (Cons t ts)
  have ok: "entry_ok t" using Cons.prems by simp
  then have eb: "entry_bytes t = le32 (te_inode_number t) @ le32 (te_entry_length t) @ le32 (te_name_length t) @ te_name t"
    by (simp add: entry_bytes_def entry_ok_def unat_of_nat_u32)
  let ?a = "le32 (te_inode_number t)" and ?b = "le32 (te_entry_length t)" and ?c = "le32 (te_name_length t)"
  let ?rest = "entries_bytes ts @ replicate 12 0"
  have "bytes_at m e (length ?a + (length ?b + (length ?c + (length (te_name t) + (length (entries_bytes ts) + 12))))) = ?a @ ?b @ ?c @ te_name t @ ?rest"
    using Cons.prems(2) by (simp add: entries_bytes_def eb algebra_simps)
  then have l: "load32 m e = te_inode_number t" "load32 m (e + 4) = te_entry_length t" "load32 m (e + 4 + 4) = te_name_length t"
     "bytes_at m (e + 4 + 4 + 4) (length (te_name t)) = te_name t"
     "bytes_at m (e + 4 + 4 + 4 + of_nat (length (te_name t))) (length (entries_bytes ts) + 12) = ?rest"
    unfolding bytes_at_split by (auto dest!: load32_bytes)
  have q: "e + 4 + 4 + 4 + of_nat (length (te_name t)) = e + te_entry_length t" using ok by (simp add: entry_ok_def)
  have "entries_at m (e + te_entry_length t) ts" using Cons.IH [OF _ l(5) [unfolded q]] Cons.prems(1) by simp
  moreover have "e + 4 + 4 = e + 8" "e + 8 + 4 = e + 12" by simp_all
  note l' = l(1-4) [unfolded this]
  ultimately show ?case using l' unfolding entries_at.simps de_inode_number_def de_entry_length_def de_name_length_def by blast
qed

text \<open>How the kernel compares a path with a name.\<close>

lemma strncmp_loop_name:
  "cstr_at m p s \<Longrightarrow> bytes_at m q (length t) = t \<Longrightarrow> t \<noteq> [] \<Longrightarrow> 0 \<notin> set t \<Longrightarrow> unat counter + length t = unat len \<Longrightarrow>
     \<exists>r. strncmp_loop m p q len counter = Some r \<and> (r = 0 \<and> length s \<le> length t \<longleftrightarrow> s = t)"
proof (induction s arbitrary: t p q counter)
  case Nil
  then have "m q \<noteq> 0" by (cases t) (auto simp: bytes_at_Suc)
  then show ?case using Nil by (subst strncmp_loop.simps) (auto simp: Let_def)
next
  case (Cons c cs)
  then obtain d ds where t: "t = d # ds" by (cases t) auto
  have c: "m p = c" "c \<noteq> 0" "cstr_at m (p + 1) cs" using Cons.prems(1) by simp_all
  have d: "m q = d" "bytes_at m (q + 1) (length ds) = ds" using Cons.prems(2) t by (simp_all add: bytes_at_Suc)
  have "unat counter + 1 < 2 ^ 32" using Cons.prems(5) t unat_u32_less [of len] by simp
  then have u: "unat (counter + 1) = unat counter + 1" by (subst unat_plus_nowrap) simp_all
  then have lt: "counter + 1 < len \<longleftrightarrow> ds \<noteq> []" using Cons.prems(5) t by (cases ds) (simp_all add: word_less_nat_alt)
  show ?case
  proof (cases "c = d \<and> ds \<noteq> []")
    case True
    then have "\<exists>r. strncmp_loop m (p + 1) (q + 1) len (counter + 1) = Some r \<and> (r = 0 \<and> length cs \<le> length ds \<longleftrightarrow> cs = ds)"
      using Cons.IH [OF c(3) d(2)] Cons.prems(4,5) t u by simp
    then show ?thesis using True t c d lt by (subst strncmp_loop.simps) (simp add: Let_def)
  next
    case False
    then show ?thesis using t c d lt by (subst strncmp_loop.simps) (auto simp: Let_def)
  qed
qed

lemma strncmp_some: "cstr_at m p s \<Longrightarrow> \<exists>r. strncmp_loop m p q 0 0 = Some r"
  by (subst strncmp_loop.simps) (simp add: Let_def)

lemma find_entry_packed:
  assumes "cstr_at m path name" "name \<noteq> []" "length name < 2 ^ 31"
  shows "\<forall>t\<in>set ts. entry_ok t \<Longrightarrow> entries_at m e ts \<Longrightarrow> \<exists>r. find_entry m path e = Some r \<and>
     map_option (de_inode_number m) r = map_of (map (\<lambda>t. (te_name t, te_inode_number t)) ts) name"
proof (induction ts arbitrary: e)
  case Nil
  obtain r where "strncmp m path (e + 12) 0 = Some r" using strncmp_some [OF assms(1)] by (auto simp: strncmp_def)
  moreover have "(of_nat (length name) :: u32) > 0" using assms(2,3) by (simp add: word_less_nat_alt unat_of_nat_u32)
  ultimately show ?case using Nil(2) strlen_cstr [OF assms(1)] by (subst find_entry.simps) (simp add: word_gt_0)
next
  case (Cons t ts)
  have ok: "entry_ok t" using Cons.prems by simp
  then have u: "unat (te_name_length t) = length (te_name t)" by (simp add: entry_ok_def unat_of_nat_u32)
  obtain r where r: "strncmp m path (e + 12) (te_name_length t) = Some r" "r = 0 \<and> length name \<le> length (te_name t) \<longleftrightarrow> name = te_name t"
    using strncmp_loop_name [OF assms(1), of "e + 12" "te_name t" 0 "te_name_length t"] Cons.prems(2) ok u
    by (auto simp: strncmp_def entry_ok_def)
  have le: "of_nat (length name) > te_name_length t \<longleftrightarrow> \<not> length name \<le> length (te_name t)"
    using assms(3) u by (simp add: word_less_nat_alt unat_of_nat_u32 not_le)
  show ?case
  proof (cases "name = te_name t")
    case True
    then show ?thesis using r le Cons.prems(2) strlen_cstr [OF assms(1)] by (subst find_entry.simps) simp
  next
    case False
    have "unat (te_entry_length t) = length (te_name t) + 12" using ok by (simp add: entry_ok_def unat_of_nat_u32 del: of_nat_add)
    then have "te_entry_length t \<noteq> 0" by auto
    moreover have "\<exists>r. find_entry m path (e + te_entry_length t) = Some r \<and>
        map_option (de_inode_number m) r = map_of (map (\<lambda>t. (te_name t, te_inode_number t)) ts) name"
      using Cons by simp
    moreover have "r \<noteq> 0 \<or> of_nat (length name) > te_name_length t" using r(2) le False by blast
    ultimately show ?thesis using r(1) False Cons.prems(2) strlen_cstr [OF assms(1)] by (subst find_entry.simps) auto
  qed
qed

lemma make_tool_entry_ok: "length name < 2 ^ 31 \<Longrightarrow> name \<noteq> [] \<Longrightarrow> 0 \<notin> set name \<Longrightarrow> entry_ok (make_tool_entry number name)"
  by (simp add: entry_ok_def make_tool_entry_def add.commute)

lemma written_entries:
  assumes "whole_blocks out"
  shows "out_bytes (write_entries entries out) = out_bytes out @ block_pad (entries_bytes entries)"
proof -
  have "at_end out" using assms by (simp add: whole_blocks_def)
  then have "fold (\<lambda>e. out_write (entry_bytes e)) entries out = out_write (entries_bytes entries) out"
  proof (induction entries arbitrary: out)
    case Nil
    then show ?case by (simp add: entries_bytes_def out_write_end) (simp add: at_end_def)
  next
    case (Cons e es)
    then show ?case using Cons.IH [OF at_end_write [OF Cons.prems]]
      by (simp add: out_write_end [OF Cons.prems]) (simp add: out_write_end at_end_def entries_bytes_def)
  qed
  then show ?thesis using assms fill_written [OF assms] by (simp add: write_entries_def out_write_end whole_blocks_def)
qed



section \<open>Large files\<close>

lemma unat_half: "j \<le> r \<Longrightarrow> r \<le> 511 \<Longrightarrow> unat (of_nat (r - j) :: u32) = r - j" "r \<le> 511 \<Longrightarrow> unat (of_nat r :: u32) = r"
  using unat_of_nat_u32 [of "r - j"] unat_of_nat_u32 [of r] by (simp_all del: of_nat_diff)

lemma sub_loop_half:
  assumes "1 \<le> r" "r \<le> 511"
  shows "j + n = 256 \<Longrightarrow> j \<le> (r + 1) div 2 \<Longrightarrow>
    sub_loop n base (of_nat j) (of_nat (r - j)) = (map (\<lambda>k. base + of_nat k) [j..<(r + 1) div 2], of_nat (r - (r + 1) div 2))"
proof (induction n arbitrary: j)
  case 0
  moreover have "(r + 1) div 2 \<le> 256" using assms(2) by linarith
  ultimately show ?case by simp
next
  case (Suc n)
  have jr: "j \<le> r" using Suc.prems(2) assms(1) by linarith
  have lt: "of_nat j < min (of_nat (r - j) :: u32) 256 \<longleftrightarrow> j < (r + 1) div 2"
  proof -
    have u: "unat (of_nat (r - j) :: u32) = r - j" "unat (of_nat j :: u32) = j"
      using unat_half(1) [OF jr assms(2)] unat_half(2) [of j] jr assms(2) by simp_all
    have "j < min (r - j) 256 \<longleftrightarrow> j < (r + 1) div 2" using assms(2) Suc.prems(1) jr by linarith
    then show ?thesis by (simp add: min_def word_less_nat_alt word_le_nat_alt u del: of_nat_diff split: if_splits)
  qed
  show ?case
  proof (cases "j < (r + 1) div 2")
    case True
    then have "Suc j \<le> r" by linarith
    then have m: "(of_nat (r - j) :: u32) - 1 = of_nat (r - Suc j)" by (simp add: of_nat_diff)
    have z: "(of_nat (r - Suc j) :: u32) = 0 \<longleftrightarrow> r = Suc j"
      using unat_half(2) [of "r - Suc j"] \<open>Suc j \<le> r\<close> assms(2) by (auto simp: word_unat_eq_iff)
    have up: "[j..<(r + 1) div 2] = j # [Suc j..<(r + 1) div 2]" using True by (rule upt_conv_Cons)
    show ?thesis
    proof (cases "r = Suc j")
      case r: True
      then have "j = 0" using True by linarith
      then show ?thesis using r lt True m z by simp
    next
      case False
      have "sub_loop n base (of_nat (Suc j)) (of_nat (r - Suc j)) =
          (map (\<lambda>k. base + of_nat k) [Suc j..<(r + 1) div 2], of_nat (r - (r + 1) div 2))"
        using Suc.IH [of "Suc j"] Suc.prems(1) True by simp
      moreover have "of_nat j + 1 = (of_nat (Suc j) :: u32)" by simp
      ultimately show ?thesis using lt True z False by (simp only: sub_loop.simps m up if_True if_False) simp
    qed
  next
    case False
    then have "j = (r + 1) div 2" using Suc.prems(2) by simp
    then show ?thesis using lt False by (simp only: sub_loop.simps if_False) simp
  qed
qed

lemma double_loop_step:
  "0 < n \<Longrightarrow> double_loop n first i remaining out =
     (if i < (remaining + 255) div 256 then
        let (sub, remaining1) = sub_loop 256 (first + 10 + 256 + i * 256) 0 remaining;
            (out1, block) = write_pointer_block sub out;
            (out2, blocks) = double_loop (n - 1) first (i + 1) remaining1 out1
        in (out2, block # blocks)
      else (out, []))"
  by (cases n) simp_all

text \<open>C37: For a file that needs up to 511 blocks beyond the first 266, the tool writes only every second of the pointers that are
  needed, rounded up: the loop counts the blocks that remain down and at the same time compares its index to
  them. It writes one pointer block, behind which the rest of the file is not reachable.\<close>

theorem pack_double_indirect_half:
  assumes "1 \<le> r" "r \<le> 511" "at_end out"
  shows "double_loop 256 first 0 (of_nat r) out =
    (out_write (pointer_bytes (map (\<lambda>k. first + 266 + of_nat k) [0..<(r + 1) div 2])) out, [out_block out])"
proof -
  let ?ps = "map (\<lambda>k. first + 266 + of_nat k) [0..<(r + 1) div 2] :: u32 list"
  have s: "sub_loop 256 (first + 266) 0 (of_nat r) = (?ps, of_nat (r - (r + 1) div 2))"
    using sub_loop_half [OF assms(1,2), of 0 256 "first + 266"] by simp
  have u: "unat (of_nat k + 255 :: u32) = k + 255" if "k \<le> 511" for k
    using that unat_half(2) [OF that] by (subst unat_plus_nowrap) simp_all
  have "0 < (of_nat r + 255 :: u32) div 256" using u [OF assms(2)] assms(1,2) by (simp add: word_less_nat_alt unat_div)
  moreover have "\<not> 1 < (of_nat (r - (r + 1) div 2) + 255 :: u32) div 256"
    using u [of "r - (r + 1) div 2"] assms(2) by (simp add: word_less_nat_alt unat_div)
  moreover have "write_pointer_block ?ps out = (out_write (pointer_bytes ?ps) out, out_block out)"
    using assms(3) at_end_write [OF assms(3), of "concat (map le32 ?ps)"] by (simp add: write_pointer_block_def Let_def out_write_end pointer_bytes_def)
  ultimately show ?thesis using s by (simp add: double_loop_step [of 256] double_loop_step [of 255] add.assoc del: of_nat_diff)
qed

theorem pack_double_indirect_half_witness:
  "snd (double_loop 256 100 0 4 \<lparr>out_bytes = [], out_pos = 0\<rparr>) = [0] \<and>
   out_bytes (fst (double_loop 256 100 0 4 \<lparr>out_bytes = [], out_pos = 0\<rparr>)) = pointer_bytes [366, 367]"
proof -
  have "at_end \<lparr>out_bytes = [], out_pos = 0\<rparr>" by (simp add: at_end_def)
  moreover have "[0..<2] = [0, 1 :: nat]" by (simp add: upt_rec)
  ultimately show ?thesis
    using pack_double_indirect_half [of 4 "\<lparr>out_bytes = [], out_pos = 0\<rparr>" 100] by (simp add: out_write_end out_block_def)
qed

end
