(* ===== verification/VFS.thy ===== *)
theory VFS
  imports EstrosFS Hashmap
begin

text \<open>
  \<open>kernel/filesystem/virtual-filesystem.c\<close>: the table of index nodes by path (the hash map), the
  file system driver behind it, and the operations on files, which dispatch on the function table
  of the node. \<open>dops\<close> is the installed driver; the boot value fills the table with a function that
  returns NULL. \<open>None\<close> is a call that does not return, or through a NULL pointer.
\<close>

datatype driver = Null_Driver | Fs_Driver

record vfs_state = fs_state +
  dops :: driver
  inodes :: ptr
  inodes_size :: u32
  hashmap :: hashmap_s

definition vfs_init :: "'a vfs_state_scheme \<Rightarrow> ('a vfs_state_scheme \<times> u32) option" where
  "vfs_init s = do {
     (s1, h) \<leftarrow> hashmap_create s 16;
     let s2 = s1\<lparr>hashmap := h\<rparr>;
     if hm_data h = NULL then Some (s2, 1)
     else do {
       (s3, p) \<leftarrow> malloc s2 sizeof_VFSIndexNode;
       if p = NULL then do {
         (s4, h') \<leftarrow> hashmap_destroy s3 h;
         Some (s4\<lparr>hashmap := h', inodes := p\<rparr>, 1) }
       else Some (s3\<lparr>inodes := p\<rparr>, 0) } }"

definition vfs_set_driver :: "driver \<Rightarrow> 'a vfs_state_scheme \<Rightarrow> 'a vfs_state_scheme" where
  "vfs_set_driver d s = s\<lparr>dops := d\<rparr>"

text \<open>The driver's functions. \<open>null_function\<close> does not fill the structure \<open>get_inode\<close> returns.\<close>

definition dops_create_inode :: "device \<Rightarrow> ptr \<Rightarrow> ptr \<Rightarrow> ptr \<Rightarrow> u32 \<Rightarrow> 'a vfs_state_scheme \<Rightarrow> ('a vfs_state_scheme \<times> u32) option" where
  "dops_create_inode dev stk path name type s = (case dops s of
     Null_Driver \<Rightarrow> Some (s, 0) | Fs_Driver \<Rightarrow> create_inode dev stk path name type s)"

definition dops_get_inode :: "device \<Rightarrow> ptr \<Rightarrow> ptr \<Rightarrow> 'a vfs_state_scheme \<Rightarrow> ('a vfs_state_scheme \<times> VFSIndexNode) option" where
  "dops_get_inode dev stk path s = (case dops s of
     Null_Driver \<Rightarrow> None | Fs_Driver \<Rightarrow> get_inode dev stk path s)"

definition dops_free_inode_data :: "VFSIndexNode \<Rightarrow> 'a vfs_state_scheme \<Rightarrow> 'a vfs_state_scheme option" where
  "dops_free_inode_data inode s = (case dops s of
     Null_Driver \<Rightarrow> Some s | Fs_Driver \<Rightarrow> free_inode_data inode s)"

definition dops_get_directory :: "device \<Rightarrow> ptr \<Rightarrow> ptr \<Rightarrow> ptr \<Rightarrow> 'a vfs_state_scheme \<Rightarrow> ('a vfs_state_scheme \<times> ptr) option" where
  "dops_get_directory dev stk path inode s = (case dops s of
     Null_Driver \<Rightarrow> Some (s, NULL) | Fs_Driver \<Rightarrow> get_directory dev stk path inode s)"

definition lookup_path :: "'a vfs_state_scheme \<Rightarrow> ptr \<Rightarrow> ptr option" where
  "lookup_path s path = do { len \<leftarrow> strlen (mem s) path; Some (hashmap_get (mem s) (hashmap s) path len) }"

text \<open>The node is copied before the insertion is known to succeed, and its \<open>malloc\<close> is not checked.\<close>

definition insert_new_inode :: "VFSIndexNode \<Rightarrow> ptr \<Rightarrow> 'a vfs_state_scheme \<Rightarrow> ('a vfs_state_scheme \<times> ptr) option" where
  "insert_new_inode inode path s = do {
     (s1, temp) \<leftarrow> realloc s (inodes s) (4 * (inodes_size s + 1));
     if temp = NULL then Some (s1, NULL) else do {
     (s2, node) \<leftarrow> malloc (s1\<lparr>inodes := temp\<rparr>) sizeof_VFSIndexNode;
     let s3 = s2\<lparr>mem := store32 (mem s2) (temp + 4 * inodes_size s2) node,
                 inode_tab := (inode_tab s2)(node := inode)\<rparr>;
     len \<leftarrow> strlen (mem s3) path;
     (s4, h, r) \<leftarrow> hashmap_put s3 (hashmap s3) path len node;
     let s5 = s4\<lparr>hashmap := h\<rparr>;
     if r \<noteq> 0 then do {
       (s6, temp2) \<leftarrow> realloc s5 (inodes s5) (sizeof_VFSIndexNode * inodes_size s5);
       if temp2 = NULL then Some (s6, NULL) else do {
       let s7 = s6\<lparr>inodes := temp2\<rparr>;
       s8 \<leftarrow> (if in_type inode = VFS_REGULAR_FILE then dops_free_inode_data inode s7 else Some s7);
       Some (s8, NULL) } }
     else
       let n = inodes_size s5 in Some (s5\<lparr>inodes_size := n + 1\<rparr>, load32 (mem s5) (inodes s5 + 4 * n)) } }"

section \<open>Creation\<close>

text \<open>The loop that cuts the path at its last slash, from its end down to 0.\<close>

fun last_slash :: "bmem \<Rightarrow> ptr \<Rightarrow> nat \<Rightarrow> u32 option" where
  "last_slash m path 0 = (if m path = of_char CHR ''/'' then Some 0 else None)"
| "last_slash m path (Suc i) =
     (if m (path + of_nat (Suc i)) = of_char CHR ''/'' then Some (of_nat (Suc i)) else last_slash m path i)"

text \<open>The tests of \<open>vfs_create_regular_file\<close> and \<open>vfs_create_device_file\<close> on the path: \<open>Some True\<close> when it
  can be created.\<close>

definition path_is_new :: "'a vfs_state_scheme \<Rightarrow> ptr \<Rightarrow> bool option" where
  "path_is_new s path = do {
     len \<leftarrow> strlen (mem s) path;
     node \<leftarrow> lookup_path s path;
     Some (mem s path = of_char CHR ''/'' \<and> mem s (path + len - 1) \<noteq> of_char CHR ''/'' \<and> node = NULL) }"

definition cut_path :: "bmem \<Rightarrow> ptr \<Rightarrow> (bmem \<times> u32) option" where
  "cut_path m path = do {
     len \<leftarrow> strlen m path;
     case last_slash m path (unat len) of
       None \<Rightarrow> Some (m, 0)
     | Some i \<Rightarrow> Some (m(path + i := 0), i) }"

definition vfs_create_regular_file :: "device \<Rightarrow> ptr \<Rightarrow> ptr \<Rightarrow> 'a vfs_state_scheme \<Rightarrow> ('a vfs_state_scheme \<times> u32) option" where
  "vfs_create_regular_file dev stk path s = do {
     ok \<leftarrow> path_is_new s path;
     if \<not> ok then Some (s, 1) else do {
     (m, offset) \<leftarrow> cut_path (mem s) path;
     (s1, ret) \<leftarrow> dops_create_inode dev stk path (path + offset + 1) VFS_REGULAR_FILE (s\<lparr>mem := m\<rparr>);
     Some (s1\<lparr>mem := (mem s1)(path + offset := of_char CHR ''/'')\<rparr>, ret) } }"

definition vfs_create_device_file_no_checks :: "ptr \<Rightarrow> fops_tag \<Rightarrow> u32 \<Rightarrow> 'a vfs_state_scheme \<Rightarrow> ('a vfs_state_scheme \<times> u32) option" where
  "vfs_create_device_file_no_checks path fops type s = do {
     (s1, node) \<leftarrow> insert_new_inode \<lparr>in_type = type, in_size = 0, file_operations = fops, in_private_data = NULL,
                                    number_of_references = 0\<rparr> path s;
     Some (s1, if node = NULL then 1 else 0) }"

definition vfs_create_device_file ::
  "device \<Rightarrow> ptr \<Rightarrow> ptr \<Rightarrow> fops_tag \<Rightarrow> u32 \<Rightarrow> 'a vfs_state_scheme \<Rightarrow> ('a vfs_state_scheme \<times> u32) option" where
  "vfs_create_device_file dev stk path fops type s = do {
     ok \<leftarrow> path_is_new s path;
     if \<not> ok then Some (s, 1) else do {
     (s1, physical_inode) \<leftarrow> dops_get_inode dev stk path s;
     s2 \<leftarrow> dops_free_inode_data physical_inode s1;
     if in_type physical_inode \<noteq> VFS_ERROR then Some (s2, 1) else do {
     (m, offset) \<leftarrow> cut_path (mem s2) path;
     (s3, dir_physical_inode) \<leftarrow> dops_get_inode dev stk path (s2\<lparr>mem := m\<rparr>);
     s4 \<leftarrow> dops_free_inode_data dir_physical_inode s3;
     let s5 = s4\<lparr>mem := (mem s4)(path + offset := of_char CHR ''/'')\<rparr>;
     if in_type dir_physical_inode \<noteq> VFS_DIRECTORY then Some (s5, 1)
     else vfs_create_device_file_no_checks path fops type s5 } } }"

section \<open>Files\<close>

text \<open>\<open>virtual_inode\<close> of a path: from the table, or from the driver, which is then put in the table.
  \<open>None\<close> inside is the driver's error.\<close>

definition find_inode :: "device \<Rightarrow> ptr \<Rightarrow> ptr \<Rightarrow> 'a vfs_state_scheme \<Rightarrow> ('a vfs_state_scheme \<times> ptr option) option" where
  "find_inode dev stk path s = do {
     node \<leftarrow> lookup_path s path;
     if node \<noteq> NULL then Some (s, Some node) else do {
     (s1, physical_inode) \<leftarrow> dops_get_inode dev stk path s;
     if in_type physical_inode = VFS_ERROR then do {
       s2 \<leftarrow> dops_free_inode_data physical_inode s1;
       Some (s2, None) }
     else do {
       (s2, node) \<leftarrow> insert_new_inode physical_inode path s1;
       Some (s2, Some node) } } }"

definition fops_open :: "fops_tag \<Rightarrow> 'a vfs_state_scheme \<Rightarrow> ptr \<Rightarrow> ('a vfs_state_scheme \<times> ptr) option" where
  "fops_open ops s inode = (case ops of
     Hdd_Ops \<Rightarrow> hdd_open s inode | Tty_Ops \<Rightarrow> tty_open s inode | Kbd_Ops \<Rightarrow> keyboard_open s inode
   | Fs_Ops \<Rightarrow> fs_open s inode | No_Ops \<Rightarrow> None)"

definition add_reference :: "u32 \<Rightarrow> ptr \<Rightarrow> 'a file_state_scheme \<Rightarrow> 'a file_state_scheme" where
  "add_reference n node s = s\<lparr>inode_tab := (inode_tab s)(node := (inode_tab s node)
     \<lparr>number_of_references := number_of_references (inode_tab s node) + n\<rparr>)\<rparr>"

definition vfs_open_file :: "device \<Rightarrow> ptr \<Rightarrow> ptr \<Rightarrow> 'a vfs_state_scheme \<Rightarrow> ('a vfs_state_scheme \<times> ptr) option" where
  "vfs_open_file dev stk path s = do {
     (s1, node) \<leftarrow> find_inode dev stk path s;
     case node of
       None \<Rightarrow> Some (s1, NULL)
     | Some virtual_inode \<Rightarrow> do {
         (s2, f) \<leftarrow> fops_open (file_operations (inode_tab s1 virtual_inode)) s1 virtual_inode;
         Some (add_reference 1 virtual_inode s2, f) } }"

definition vfs_close_file :: "'a vfs_state_scheme \<Rightarrow> ptr \<Rightarrow> 'a vfs_state_scheme option" where
  "vfs_close_file s f =
     (let s1 = add_reference (- 1) (f_inode (files s f)) s in
      case fops_of s1 f of
        Hdd_Ops \<Rightarrow> hdd_close s1 f | Tty_Ops \<Rightarrow> tty_close s1 f | Kbd_Ops \<Rightarrow> keyboard_close s1 f
      | Fs_Ops \<Rightarrow> fs_close s1 f | No_Ops \<Rightarrow> None)"

definition vfs_read :: "device \<Rightarrow> ptr \<Rightarrow> 'a vfs_state_scheme \<Rightarrow> ptr \<Rightarrow> ptr \<Rightarrow> u32 \<Rightarrow> ('a vfs_state_scheme \<times> u32) option" where
  "vfs_read dev stk s f buffer buffer_size =
     (if fops_of s f = Fs_Ops then fs_read dev stk s f buffer buffer_size else dev_read dev s f buffer buffer_size)"

definition vfs_write :: "device \<Rightarrow> ptr \<Rightarrow> 'a vfs_state_scheme \<Rightarrow> ptr \<Rightarrow> ptr \<Rightarrow> u32 \<Rightarrow> ('a vfs_state_scheme \<times> u32) option" where
  "vfs_write dev stk s f buffer buffer_size =
     (if fops_of s f = Fs_Ops then fs_write dev stk s f buffer buffer_size else dev_write dev s f buffer buffer_size)"

definition vfs_ioctl :: "'a vfs_state_scheme \<Rightarrow> ptr \<Rightarrow> ptr \<Rightarrow> ptr \<Rightarrow> 'a vfs_state_scheme option" where
  "vfs_ioctl s f command arg = (case fops_of s f of
     Hdd_Ops \<Rightarrow> Some (hdd_ioctl s f command arg) | Tty_Ops \<Rightarrow> Some (tty_ioctl s f command arg)
   | Kbd_Ops \<Rightarrow> Some (keyboard_ioctl s f command arg) | Fs_Ops \<Rightarrow> Some (fs_ioctl s f command arg) | No_Ops \<Rightarrow> None)"

definition vfs_seek :: "'a vfs_state_scheme \<Rightarrow> ptr \<Rightarrow> u32 \<Rightarrow> u32 \<Rightarrow> 'a vfs_state_scheme option" where
  "vfs_seek s f offset whence =
     (if fops_of s f = Fs_Ops then Some (fs_seek s f offset whence) else dev_seek s f offset whence)"

definition vfs_tell :: "'a vfs_state_scheme \<Rightarrow> ptr \<Rightarrow> u32 option" where
  "vfs_tell s f = (case fops_of s f of
     Hdd_Ops \<Rightarrow> Some (hdd_tell s f) | Tty_Ops \<Rightarrow> Some (tty_tell s f)
   | Kbd_Ops \<Rightarrow> Some (keyboard_tell s f) | Fs_Ops \<Rightarrow> Some (fs_tell s f) | No_Ops \<Rightarrow> None)"

definition vfs_flush :: "'a vfs_state_scheme \<Rightarrow> ptr \<Rightarrow> 'a vfs_state_scheme option" where
  "vfs_flush s f = (case fops_of s f of
     Hdd_Ops \<Rightarrow> Some (hdd_flush s f) | Tty_Ops \<Rightarrow> Some (tty_flush s f)
   | Kbd_Ops \<Rightarrow> Some (keyboard_flush s f) | Fs_Ops \<Rightarrow> Some (fs_flush s f) | No_Ops \<Rightarrow> None)"

text \<open>\<open>fs_set_harddrive\<close> of \<open>estros-fs.c\<close> opens the disk through this layer.\<close>

definition fs_set_harddrive :: "device \<Rightarrow> ptr \<Rightarrow> ptr \<Rightarrow> 'a vfs_state_scheme \<Rightarrow> 'a vfs_state_scheme option" where
  "fs_set_harddrive dev stk path s = do {
     (s1, f) \<leftarrow> vfs_open_file dev stk path s;
     (s2, sector) \<leftarrow> drive_load dev stk 0x10000 512 (s1\<lparr>harddrive := f\<rparr>);
     Some (s2\<lparr>super_block := decode_super sector\<rparr>) }"

section \<open>Directories\<close>

text \<open>The loop of \<open>free_directory\<close> over the entries.\<close>

fun free_entries :: "ptr \<Rightarrow> nat \<Rightarrow> u32 \<Rightarrow> 'a fs_state_scheme \<Rightarrow> 'a fs_state_scheme option" where
  "free_entries entries 0 i s = Some s"
| "free_entries entries (Suc n) i s = do {
     let p = load32 (mem s) (entries + 4 * i);
     s1 \<leftarrow> (if p \<noteq> NULL then free s p else Some s);
     free_entries entries n (i + 1) s1 }"

definition free_directory :: "ptr \<Rightarrow> 'a fs_state_scheme \<Rightarrow> 'a fs_state_scheme option" where
  "free_directory dir s = do {
     let d = directories s dir;
     s1 \<leftarrow> free_entries (d_entries d) (unat (entries_length d)) 0 s;
     s2 \<leftarrow> (if d_entries d \<noteq> NULL then free s1 (d_entries d) else Some s1);
     free s2 dir }"

text \<open>The comparison of a key with the entries found so far.\<close>

fun already_listed :: "bmem \<Rightarrow> ptr \<Rightarrow> ptr \<Rightarrow> nat \<Rightarrow> u32 \<Rightarrow> bool option" where
  "already_listed m key entries 0 i = Some False"
| "already_listed m key entries (Suc n) i = do {
     r \<leftarrow> strcmp m key (load32 m (entries + 4 * i));
     if r = 0 then Some True else already_listed m key entries n (i + 1) }"

text \<open>\<open>hash_dir_iter\<close>: the context \<open>(path, dir)\<close> does not change; the result 1 ends the iteration.\<close>

definition hash_dir_iter ::
  "'a fs_state_scheme \<Rightarrow> ptr \<times> ptr \<Rightarrow> hashmap_element \<Rightarrow> ('a fs_state_scheme \<times> (ptr \<times> ptr) \<times> int) option" where
  "hash_dir_iter s iter e = do {
     let (path, dir) = iter;
     let d = directories s dir;
     len \<leftarrow> strlen (mem s) path;
     cmp \<leftarrow> strncmp (mem s) (he_key e) path len;
     if cmp \<noteq> 0 then Some (s, iter, 0) else do {
     let rest = he_key e + len;
     if mem s rest = 0 then Some (s, iter, 0) else do {
     slash \<leftarrow> strchr (mem s) rest (of_char CHR ''/'');
     if slash \<noteq> NULL \<or> mem s (rest - 1) \<noteq> of_char CHR ''/'' then Some (s, iter, 0) else do {
     listed \<leftarrow> already_listed (mem s) (he_key e) (d_entries d) (unat (entries_length d)) 0;
     if listed then Some (s, iter, 0) else do {
     (s1, temp) \<leftarrow> realloc s (d_entries d) (4 * (entries_length d + 1));
     if temp = NULL then Some (s1, iter, 1) else do {
     let s2 = s1\<lparr>directories := (directories s1)(dir := d\<lparr>d_entries := temp\<rparr>)\<rparr>;
     (s3, copied_path) \<leftarrow> malloc s2 (he_key_len e + 1);
     if copied_path = NULL then do { s4 \<leftarrow> free_directory dir s3; Some (s4, iter, 1) } else
     let m = fst (strncpy (mem s3) copied_path (he_key e) (he_key_len e));
         m' = store32 (m(copied_path + he_key_len e := 0)) (temp + 4 * entries_length d) copied_path
     in Some (s3\<lparr>mem := m', directories := (directories s3)(dir := (directories s3 dir)
                 \<lparr>entries_length := entries_length d + 1\<rparr>)\<rparr>, iter, 0) } } } } } }"

definition vfs_open_directory :: "device \<Rightarrow> ptr \<Rightarrow> ptr \<Rightarrow> 'a vfs_state_scheme \<Rightarrow> ('a vfs_state_scheme \<times> ptr) option" where
  "vfs_open_directory dev stk path s = do {
     (s1, node) \<leftarrow> find_inode dev stk path s;
     case node of
       None \<Rightarrow> Some (s1, NULL)
     | Some virtual_inode \<Rightarrow> do {
         (s2, dir) \<leftarrow> dops_get_directory dev stk path virtual_inode s1;
         if dir = NULL then Some (s2, NULL) else do {
         let s3 = add_reference 1 (d_inode (directories s2 dir)) s2;
         (s4, h, _, _) \<leftarrow> hashmap_iterate_pairs hash_dir_iter s3 (hashmap s3) (path, dir);
         Some (s4\<lparr>hashmap := h\<rparr>, dir) } } }"

definition vfs_close_directory :: "ptr \<Rightarrow> 'a fs_state_scheme \<Rightarrow> 'a fs_state_scheme option" where
  "vfs_close_directory vfs_directory s =
     free_directory vfs_directory (add_reference (- 1) (d_inode (directories s vfs_directory)) s)"

section \<open>Open files and their nodes\<close>

lemma heap_keeps_files: "same_but_mem a b \<Longrightarrow> files b = files a \<and> inode_tab b = inode_tab a" for a b :: "'a file_state_scheme"
  by (cases a; cases b) (simp add: same_but_mem_def)

lemmas heap_files = malloc_frame [THEN heap_keeps_files] free_frame [THEN heap_keeps_files] realloc_frame [THEN heap_keeps_files]

text \<open>Every driver's open puts the node in the file it returns; no driver changes a node.\<close>

lemma hdd_open_node: "hdd_open s node = Some (s', f) \<Longrightarrow> inode_tab s' = inode_tab s \<and> (f \<noteq> NULL \<longrightarrow> f_inode (files s' f) = node)"
  by (auto simp: hdd_open_def dest: heap_files split: bind_splits)

lemma tty_open_node: "tty_open s node = Some (s', f) \<Longrightarrow> inode_tab s' = inode_tab s \<and> (f \<noteq> NULL \<longrightarrow> f_inode (files s' f) = node)"
  by (auto simp: tty_open_def dest!: heap_files split: bind_splits if_splits)

lemma keyboard_open_node:
  "keyboard_open s node = Some (s', f) \<Longrightarrow> inode_tab s' = inode_tab s \<and> (f \<noteq> NULL \<longrightarrow> f_inode (files s' f) = node)"
  by (auto simp: keyboard_open_def Let_def dest!: heap_files split: bind_splits if_splits)

lemma fs_open_node: "fs_open s node = Some (s', f) \<Longrightarrow> inode_tab s' = inode_tab s \<and> (f \<noteq> NULL \<longrightarrow> f_inode (files s' f) = node)"
  by (auto simp: fs_open_def Let_def dest!: heap_files split: bind_splits if_splits)

lemma fops_open_node:
  "fops_open ops s node = Some (s', f) \<Longrightarrow> inode_tab s' = inode_tab s \<and> (f \<noteq> NULL \<longrightarrow> f_inode (files s' f) = node)"
  by (cases ops) (simp_all add: fops_open_def hdd_open_node tty_open_node keyboard_open_node fs_open_node)

lemma keyboard_close_node: "keyboard_close s f = Some s' \<Longrightarrow> inode_tab s' = inode_tab s"
  by (auto simp: keyboard_close_def Let_def dest!: heap_files split: bind_splits if_splits)

lemma other_close_node: "hdd_close s f = Some s' \<Longrightarrow> inode_tab s' = inode_tab s" "tty_close s f = Some s' \<Longrightarrow> inode_tab s' = inode_tab s"
  "fs_close s f = Some s' \<Longrightarrow> inode_tab s' = inode_tab s"
  by (auto simp: hdd_close_def tty_close_def fs_close_def dest!: heap_files split: bind_splits if_splits)

lemma close_node: "vfs_close_file s f = Some s' \<Longrightarrow> inode_tab s' = inode_tab (add_reference (- 1) (f_inode (files s f)) s)"
  unfolding vfs_close_file_def Let_def
  by (cases "fops_of (add_reference (- 1) (f_inode (files s f)) s) f") (simp_all add: other_close_node keyboard_close_node)

text \<open>C10: A file opened through the VFS belongs to the node of its path: later operations on it go to
  the driver of that node. The node counts one more reference, also when the driver could not open
  the file, and closing an opened file restores all nodes.\<close>

theorem vfs_open_dispatch:
  assumes "find_inode dev stk path s = Some (s1, Some node)" "vfs_open_file dev stk path s = Some (s', f)"
  shows "inode_tab s' = (inode_tab s1)(node := (inode_tab s1 node)
      \<lparr>number_of_references := number_of_references (inode_tab s1 node) + 1\<rparr>) \<and>
    (f \<noteq> NULL \<longrightarrow> f_inode (files s' f) = node \<and> fops_of s' f = file_operations (inode_tab s1 node) \<and>
      (\<forall>s''. vfs_close_file s' f = Some s'' \<longrightarrow> inode_tab s'' = inode_tab s1))"
proof -
  from assms obtain s2 where o: "fops_open (file_operations (inode_tab s1 node)) s1 node = Some (s2, f)"
    and s': "s' = add_reference 1 node s2" by (auto simp: vfs_open_file_def split: bind_splits)
  from fops_open_node [OF o] have tab: "inode_tab s2 = inode_tab s1" and n: "f \<noteq> NULL \<longrightarrow> f_inode (files s2 f) = node" by auto
  have closed: "inode_tab s'' = inode_tab s1" if "vfs_close_file s' f = Some s''" "f \<noteq> NULL" for s''
    using close_node [OF that(1)] that(2) n by (simp add: s' add_reference_def tab)
  have "files s' = files s2" "inode_tab s' = (inode_tab s1)(node := (inode_tab s1 node)
      \<lparr>number_of_references := number_of_references (inode_tab s1 node) + 1\<rparr>)"
    by (simp_all add: s' add_reference_def tab)
  with n show ?thesis using closed by (intro conjI impI allI) (simp_all add: fops_of_def)
qed

text \<open>A memory that repeats 16 bytes: read as a table, every slot holds the key at 0x204, of length 1, and
  the node 0x55; read as a heap, every aligned address is a free block of 516 bytes.\<close>

definition striped :: bmem where
  "striped a = [4, 2, 0, 0, 1, 0, 0, 0, 1, 0, 0, 0, 0x55, 0, 0, 0] ! (unat a mod 16)"

lemma striped_plus: "unat q mod 16 = 0 \<Longrightarrow> unat k < 16 \<Longrightarrow> striped (q + k) = striped k"
proof -
  assume a: "unat q mod 16 = 0" "unat k < 16"
  have "unat (q + k) mod 16 = ((unat q + unat k) mod 2 ^ 32) mod 16" by (simp add: unat_word_ariths)
  also have "\<dots> = (unat q + unat k) mod 16" by (rule mod_mod_cancel) simp
  also have "\<dots> = unat k mod 16" using a(1) by (metis add.left_neutral mod_add_left_eq)
  finally show ?thesis by (simp add: striped_def)
qed

lemma striped_element:
  "element striped \<lparr>log2_capacity = 4, hm_size = 0, hm_data = 0x8000\<rparr> i =
     \<lparr>he_key = 0x204, he_key_len = 1, he_in_use = 1, he_data = 0x55\<rparr>"
proof -
  have "unat (0x8000 + 16 * i) mod 16 = ((0x8000 + 16 * unat i) mod 2 ^ 32) mod 16"
    by (simp add: unat_word_ariths mod_simps)
  also have "\<dots> = (0x8000 + 16 * unat i) mod 16" by (rule mod_mod_cancel) simp
  finally have al: "unat (0x8000 + 16 * i) mod 16 = 0" by simp
  note st = striped_plus [OF al]
  show ?thesis
    using st [of 0] st [of 1] st [of 2] st [of 3] st [of 4] st [of 5] st [of 6] st [of 7] st [of 8] st [of 9] st [of 10]
      st [of 11] st [of 12] st [of 13] st [of 14] st [of 15]
    by (simp add: element_def Let_def load32_def add.assoc) (simp add: striped_def)
qed

definition vfs_demo :: vfs_state where
  "vfs_demo = fs_state.extend (fs_demo\<lparr>mem := striped, first_entry := 0x4000\<rparr>)
     (vfs_state.fields Fs_Driver NULL 0 \<lparr>log2_capacity = 4, hm_size = 0, hm_data = 0x8000\<rparr>)"

lemma vfs_demo_facts: "mem vfs_demo = striped" "first_entry vfs_demo = 0x4000"
  "hashmap vfs_demo = \<lparr>log2_capacity = 4, hm_size = 0, hm_data = 0x8000\<rparr>" "inode_tab vfs_demo = inode_tab fs_demo"
  by (simp_all add: vfs_demo_def fs_state.defs vfs_state.defs)

lemma vfs_demo_find: "find_inode dev stk 0x304 vfs_demo = Some (vfs_demo, Some 0x55)"
proof -
  let ?h = "\<lparr>log2_capacity = 4, hm_size = 0, hm_data = 0x8000\<rparr>"
  have "strlen striped 0x304 = Some 1"
    unfolding strlen_def by (subst strlen_loop.simps) (simp add: striped_def, subst strlen_loop.simps, simp add: striped_def)
  moreover have "matches striped ?h (content striped 0x304 1) i" for i
    by (simp add: matches_def striped_element content_def bytes_at_def striped_def)
  then have "hashmap_get striped ?h 0x304 1 = 0x55"
    by (simp add: get_find window_def upt_rec striped_element)
  ultimately show ?thesis by (simp add: find_inode_def lookup_path_def vfs_demo_facts)
qed

theorem vfs_open_dispatch_witness:
  "case vfs_open_file (sim_drive (\<lambda>_. [])) 0x7000 0x304 vfs_demo of None \<Rightarrow> False
   | Some (s', f) \<Rightarrow> f = 0x4010 \<and> f_inode (files s' f) = 0x55 \<and> number_of_references (inode_tab s' 0x55) = 2"
proof -
  have "\<exists>m. malloc_loop striped 16 0x4000 = Some (m, 0x4010)"
    by (subst malloc_loop.simps) (simp add: hdr_def load32_def striped_def Let_def)
  then obtain m where "malloc_loop striped 16 0x4000 = Some (m, 0x4010)" by blast
  then obtain s' where o: "vfs_open_file (sim_drive (\<lambda>_. [])) 0x7000 0x304 vfs_demo = Some (s', 0x4010)"
    by (simp add: vfs_open_file_def vfs_demo_find vfs_demo_facts fs_demo_facts fops_open_def hdd_open_def malloc_def)
  show ?thesis using vfs_open_dispatch [OF vfs_demo_find o] o by (simp add: vfs_demo_facts fs_demo_facts)
qed

end
