(* ===== verification/Process.thy ===== *)
theory Process
  imports VFS
begin

text \<open>
  \<open>kernel/process.c\<close>: the processes in a circular doubly linked list. The entries are records in a
  typed store keyed by their heap address; since the process is the first member of its entry, the
  two have the same address. What \<open>create_process\<close> reads of the CPU (segment registers, flags) is
  the parameter \<open>cpu\<close>. Messages are not modelled. \<open>None\<close>: the call does not return.
\<close>

section \<open>Data\<close>

record time =
  seconds :: u32
  millisecond :: u32

record process =
  p_esp :: u32
  p_page_table :: ptr
  p_stdout :: ptr
  p_stdin :: ptr
  p_stderr :: ptr
  p_wake_time :: time
  p_state :: u8
  p_name :: "u8 list"
  p_id :: u32

record process_entry =
  pe_process :: process
  pe_next :: ptr
  pe_prev :: ptr

record proc_state = vfs_state +
  processes :: "ptr \<Rightarrow> process_entry"
  first_process :: ptr
  free_pid :: u32
  number_of_processes :: u32
  current_process :: ptr

record cpu_registers =
  cpu_cs :: u16
  cpu_ss :: u16
  cpu_ds :: u16
  cpu_es :: u16
  cpu_fs :: u16
  cpu_gs :: u16
  cpu_eflags :: u32

record interrupt_frame =
  if_eip :: u32
  if_cs :: u32
  if_eflags :: u32
  if_esp :: u32
  if_ss :: u32
  if_es :: u32
  if_ds :: u32
  if_fs :: u32
  if_gs :: u32

record registers =
  r_edi :: u32
  r_esi :: u32
  r_ebp :: u32
  r_esp :: u32
  r_ebx :: u32
  r_edx :: u32
  r_ecx :: u32
  r_eax :: u32

abbreviation (input) "PROCESS_TERMINATED \<equiv> 0 :: u8"
abbreviation (input) "PROCESS_RUNNING \<equiv> 1 :: u8"
abbreviation (input) "PROCESS_SUSPENDED \<equiv> 2 :: u8"
abbreviation (input) "PROCESS_SLEEPING \<equiv> 3 :: u8"

abbreviation (input) "sizeof_process_entry \<equiv> 108 :: u32"
abbreviation (input) "sizeof_registers \<equiv> 32 :: u32"
abbreviation (input) "sizeof_interrupt_frame \<equiv> 36 :: u32"

definition encode_frame :: "interrupt_frame \<Rightarrow> u8 list" where
  "encode_frame f = concat (map le32 [if_eip f, if_cs f, if_eflags f, if_esp f, if_ss f, if_es f, if_ds f, if_fs f, if_gs f])"

definition encode_registers :: "registers \<Rightarrow> u8 list" where
  "encode_registers r =
     concat (map le32 [r_edi r, r_esi r, r_ebp r, r_esp r, r_ebx r, r_edx r, r_ecx r, r_eax r])"

section \<open>Operations\<close>

definition get_free_pid :: "'a proc_state_scheme \<Rightarrow> 'a proc_state_scheme \<times> u32" where
  "get_free_pid s = (s\<lparr>free_pid := free_pid s + 1\<rparr>, free_pid s)"

text \<open>The stack image of a new process: the registers at \<open>cur_esp\<close>, the frame above them.\<close>

definition stack_pointer :: "u32 \<Rightarrow> u32" where
  "stack_pointer stack_base = (stack_base - sizeof_registers - sizeof_interrupt_frame) AND NOT 0xF"

definition initial_registers :: "u32 \<Rightarrow> u32 \<Rightarrow> registers" where
  "initial_registers real_esp stack_base_apps_table =
     \<lparr>r_edi = 0, r_esi = 0, r_ebp = stack_base_apps_table, r_esp = real_esp + sizeof_interrupt_frame,
      r_ebx = 0, r_edx = 0, r_ecx = 0, r_eax = 0\<rparr>"

definition initial_frame :: "cpu_registers \<Rightarrow> u32 \<Rightarrow> u32 \<Rightarrow> interrupt_frame" where
  "initial_frame cpu entry_point esp =
     \<lparr>if_eip = entry_point, if_cs = ucast (cpu_cs cpu), if_eflags = cpu_eflags cpu OR push_bit 9 1, if_esp = esp,
      if_ss = ucast (cpu_ss cpu), if_es = ucast (cpu_es cpu), if_ds = ucast (cpu_ds cpu),
      if_fs = ucast (cpu_fs cpu), if_gs = ucast (cpu_gs cpu)\<rparr>"

definition store_stack :: "cpu_registers \<Rightarrow> u32 \<Rightarrow> u32 \<Rightarrow> u32 \<Rightarrow> bmem \<Rightarrow> bmem" where
  "store_stack cpu entry_point stack_base_current_table stack_base_apps_table m =
     (let real_esp = stack_pointer stack_base_apps_table;
          cur_esp = stack_pointer stack_base_current_table;
          regs = initial_registers real_esp stack_base_apps_table;
          frame = initial_frame cpu entry_point (r_esp regs)
      in put_bytes (put_bytes m (cur_esp + sizeof_registers) (encode_frame frame)) cur_esp (encode_registers regs))"

text \<open>\<open>next->prev = entry; prev->next = entry\<close>.\<close>

definition link_entry :: "ptr \<Rightarrow> ptr \<Rightarrow> ptr \<Rightarrow> (ptr \<Rightarrow> process_entry) \<Rightarrow> (ptr \<Rightarrow> process_entry)" where
  "link_entry prev entry nxt b =
     (let b1 = b(nxt := (b nxt)\<lparr>pe_prev := entry\<rparr>) in b1(prev := (b1 prev)\<lparr>pe_next := entry\<rparr>))"

definition create_process ::
  "cpu_registers \<Rightarrow> ptr \<Rightarrow> u8 \<Rightarrow> u32 \<Rightarrow> u32 \<Rightarrow> u32 \<Rightarrow> ptr \<Rightarrow> ptr \<Rightarrow> ptr \<Rightarrow> ptr \<Rightarrow> 'a proc_state_scheme \<Rightarrow>
   ('a proc_state_scheme \<times> ptr) option" where
  "create_process cpu name start_state entry_point stack_base_current_table stack_base_apps_table table out inp err s = do {
     len \<leftarrow> strlen (mem s) name;
     if len > 63 \<or> len = 0 then Some (s, NULL) else do {
     (s1, entry) \<leftarrow> malloc s sizeof_process_entry;
     if entry = NULL then Some (s1, NULL) else do {
     let first = (if first_process s = NULL then entry else first_process s);
     let prev = (if first_process s = NULL then entry else pe_prev (processes s first));
     let nxt = first;
     let s2 = s1\<lparr>first_process := first, mem := fst (memset (mem s1) entry 0 sizeof_process_entry)\<rparr>;
     let (s3, pid) = get_free_pid s2;
     let p = \<lparr>p_esp = stack_pointer stack_base_apps_table, p_page_table = table, p_stdout = out, p_stdin = inp,
              p_stderr = err, p_wake_time = \<lparr>seconds = 0, millisecond = 0\<rparr>, p_state = start_state,
              p_name = bytes_at (mem s3) name (unat len) @ replicate (64 - unat len) 0, p_id = pid\<rparr>;
     let b = (processes s3)(entry := \<lparr>pe_process = p, pe_next = nxt, pe_prev = prev\<rparr>);
     Some (s3\<lparr>mem := store_stack cpu entry_point stack_base_current_table stack_base_apps_table (mem s3),
              number_of_processes := number_of_processes s3 + 1,
              processes := link_entry prev entry nxt b\<rparr>, entry) } } }"

definition id_of :: "(ptr \<Rightarrow> process_entry) \<Rightarrow> ptr \<Rightarrow> u32" where
  "id_of b entry = p_id (pe_process (b entry))"

text \<open>The search of \<open>get_process_by_id\<close>, which ends at a NULL link, and the one of the others, which
  ends when it is back at the first entry.\<close>

partial_function (option) find_to_null :: "(ptr \<Rightarrow> process_entry) \<Rightarrow> u32 \<Rightarrow> ptr \<Rightarrow> ptr option" where
  "find_to_null b pid entry =
     (if id_of b entry = pid then Some entry
      else if pe_next (b entry) = NULL then Some NULL
      else find_to_null b pid (pe_next (b entry)))"

partial_function (option) find_in_ring :: "(ptr \<Rightarrow> process_entry) \<Rightarrow> ptr \<Rightarrow> u32 \<Rightarrow> ptr \<Rightarrow> ptr option option" where
  "find_in_ring b first pid entry =
     (if id_of b entry = pid then Some (Some entry)
      else if pe_next (b entry) = first then Some None
      else find_in_ring b first pid (pe_next (b entry)))"

definition get_process_by_id :: "u32 \<Rightarrow> 'a proc_state_scheme \<Rightarrow> ptr option" where
  "get_process_by_id pid s = find_to_null (processes s) pid (first_process s)"

definition close_if :: "ptr \<Rightarrow> 'a vfs_state_scheme \<Rightarrow> 'a vfs_state_scheme option" where
  "close_if f s = (if f \<noteq> NULL then vfs_close_file s f else Some s)"

definition unlink_entry :: "ptr \<Rightarrow> (ptr \<Rightarrow> process_entry) \<Rightarrow> (ptr \<Rightarrow> process_entry)" where
  "unlink_entry entry b =
     (let prev = pe_prev (b entry); nxt = pe_next (b entry); b1 = b(prev := (b prev)\<lparr>pe_next := nxt\<rparr>)
      in b1(nxt := (b1 nxt)\<lparr>pe_prev := prev\<rparr>))"

definition remove_process :: "u32 \<Rightarrow> 'a proc_state_scheme \<Rightarrow> 'a proc_state_scheme option" where
  "remove_process pid s = do {
     found \<leftarrow> find_in_ring (processes s) (first_process s) pid (first_process s);
     case found of
       None \<Rightarrow> Some s
     | Some entry \<Rightarrow> do {
         let p = pe_process (processes s entry);
         s1 \<leftarrow> close_if (p_stdout p) s;
         s2 \<leftarrow> close_if (p_stdin p) s1;
         s3 \<leftarrow> close_if (p_stderr p) s2;
         let nxt = pe_next (processes s3 entry);
         s4 \<leftarrow> free (s3\<lparr>processes := unlink_entry entry (processes s3),
                     first_process := (if entry = first_process s3 then nxt else first_process s3)\<rparr>) entry;
         Some (s4\<lparr>number_of_processes := number_of_processes s4 - 1\<rparr>) } }"

definition set_current_process :: "u32 \<Rightarrow> 'a proc_state_scheme \<Rightarrow> ('a proc_state_scheme \<times> ptr) option" where
  "set_current_process pid s = do {
     found \<leftarrow> find_in_ring (processes s) (first_process s) pid (first_process s);
     case found of None \<Rightarrow> Some (s, NULL) | Some entry \<Rightarrow> Some (s\<lparr>current_process := entry\<rparr>, entry) }"

definition get_current_process :: "'a proc_state_scheme \<Rightarrow> ptr" where
  "get_current_process s = current_process s"

definition get_next_process :: "'a proc_state_scheme \<Rightarrow> 'a proc_state_scheme \<times> ptr" where
  "get_next_process s =
     (let nxt = pe_next (processes s (current_process s)) in (s\<lparr>current_process := nxt\<rparr>, nxt))"

section \<open>Rings\<close>

text \<open>Consecutive entries of a list that are linked in both directions; a ring is a list whose last
  entry is linked to its first.\<close>

fun linked :: "(ptr \<Rightarrow> process_entry) \<Rightarrow> ptr list \<Rightarrow> bool" where
  "linked b (x # y # xs) \<longleftrightarrow> pe_next (b x) = y \<and> pe_prev (b y) = x \<and> linked b (y # xs)"
| "linked b xs \<longleftrightarrow> True"

definition ring :: "(ptr \<Rightarrow> process_entry) \<Rightarrow> ptr list \<Rightarrow> bool" where
  "ring b es \<longleftrightarrow> (es \<noteq> [] \<longrightarrow> linked b (es @ [hd es]))"

lemma linked_append: "linked b (xs @ y # ys) \<longleftrightarrow> linked b (xs @ [y]) \<and> linked b (y # ys)"
  by (induction b xs rule: linked.induct) simp_all

lemma linked_cong:
  "(\<And>x. x \<in> set (butlast xs) \<Longrightarrow> pe_next (b' x) = pe_next (b x)) \<Longrightarrow>
   (\<And>x. x \<in> set (tl xs) \<Longrightarrow> pe_prev (b' x) = pe_prev (b x)) \<Longrightarrow> linked b' xs = linked b xs"
proof (induction b xs rule: linked.induct)
  case (1 b x y xs)
  have "pe_next (b' x) = pe_next (b x)" "pe_prev (b' y) = pe_prev (b y)" using "1.prems" by simp_all
  moreover have "linked b' (y # xs) = linked b (y # xs)"
    using "1.prems" by (intro "1.IH") (auto simp: neq_Nil_conv dest: in_set_butlastD split: if_splits)
  ultimately show ?case by simp
qed simp_all

lemma ring_rotate1: "ring b (x # xs) \<longleftrightarrow> ring b (xs @ [x])"
proof (cases xs)
  case (Cons y ys)
  have "linked b ((y # ys) @ [x, y]) \<longleftrightarrow> linked b ((y # ys) @ [x]) \<and> pe_next (b x) = y \<and> pe_prev (b y) = x"
    by (subst linked_append) simp
  then show ?thesis using Cons by (auto simp: ring_def)
qed simp

lemma ring_rotate: "ring b (xs @ ys) \<longleftrightarrow> ring b (ys @ xs)"
proof (induction xs arbitrary: ys)
  case (Cons x xs)
  have "ring b ((x # xs) @ ys) \<longleftrightarrow> ring b (xs @ ys @ [x])" using ring_rotate1 [of b x "xs @ ys"] by simp
  also have "\<dots> \<longleftrightarrow> ring b (ys @ x # xs)" using Cons.IH [of "ys @ [x]"] by simp
  finally show ?case .
qed simp

lemma ring_next: "ring b (xs @ x # y # ys) \<Longrightarrow> pe_next (b x) = y"
  using ring_rotate [of b xs "x # y # ys"] by (simp add: ring_def)

lemma ring_single: "ring b [x] \<longleftrightarrow> pe_next (b x) = x \<and> pe_prev (b x) = x"
  by (simp add: ring_def)

lemma ring_snoc: "ring b (ys @ [l]) \<longleftrightarrow> linked b (ys @ [l, hd (ys @ [l])])"
  by (simp add: ring_def)

lemma ring_last: "ring b (x # xs) \<Longrightarrow> pe_prev (b x) = last (x # xs)"
proof -
  assume r: "ring b (x # xs)"
  obtain ys l where l: "x # xs = ys @ [l]" by (metis append_butlast_last_id list.distinct(1))
  have "hd (ys @ [l]) = x" unfolding l [symmetric] by simp
  then have "linked b (ys @ [l, x])" using r unfolding l ring_snoc by simp
  then have "linked b [l, x]" by (subst (asm) linked_append) simp
  then show ?thesis unfolding l by simp
qed

lemma ring_insert:
  assumes r: "ring b (x # xs)" and d: "distinct (x # xs)" "e \<notin> set (x # xs)"
    and b: "b' = link_entry (pe_prev (b x)) e x (b(e := \<lparr>pe_process = p, pe_next = x, pe_prev = pe_prev (b x)\<rparr>))"
  shows "ring b' (x # xs @ [e])"
proof -
  obtain ys l where l: "x # xs = ys @ [l]" by (metis append_butlast_last_id list.distinct(1))
  have pl: "pe_prev (b x) = l" using ring_last [OF r] l by simp
  have "hd (ys @ [l]) = x" unfolding l [symmetric] by simp
  then have "linked b (ys @ [l, x])" using r unfolding l ring_snoc by simp
  then have p: "linked b (ys @ [l])" by (subst (asm) linked_append) simp
  have "l \<in> set (x # xs)" unfolding l by simp
  then have ne: "e \<noteq> l" "e \<noteq> x" using d(2) by auto
  have new: "pe_next (b' l) = e" "pe_prev (b' e) = l" "pe_next (b' e) = x" "pe_prev (b' x) = e"
    "\<And>y. y \<noteq> l \<Longrightarrow> y \<noteq> e \<Longrightarrow> pe_next (b' y) = pe_next (b y)" "\<And>y. y \<noteq> x \<Longrightarrow> y \<noteq> e \<Longrightarrow> pe_prev (b' y) = pe_prev (b y)"
    using ne pl by (auto simp: b link_entry_def Let_def)
  have "linked b' (ys @ [l]) = linked b (ys @ [l])"
  proof (rule linked_cong)
    fix y assume "y \<in> set (butlast (ys @ [l]))"
    then have "y \<in> set ys" by simp
    moreover have "distinct (ys @ [l])" "e \<notin> set (ys @ [l])" using d unfolding l by simp_all
    ultimately show "pe_next (b' y) = pe_next (b y)" by (intro new(5)) auto
  next
    fix y assume "y \<in> set (tl (ys @ [l]))"
    then have "y \<in> set xs" unfolding l [symmetric] by simp
    then show "pe_prev (b' y) = pe_prev (b y)" using d by (intro new(6)) auto
  qed
  with p new have "linked b' (ys @ [l, e, x])" by (subst linked_append) simp
  moreover have "ys @ [l, e, x] = x # xs @ [e, x]" using arg_cong [OF l, of "\<lambda>zs. zs @ [e, x]"] by simp
  ultimately show ?thesis by (simp add: ring_def)
qed

lemma ring_remove:
  assumes r: "ring b (e # zs)" and d: "distinct (e # zs)"
  shows "ring (unlink_entry e b) zs"
proof (cases zs)
  case (Cons h rest)
  obtain ys l where l: "zs = ys @ [l]" using Cons by (metis append_butlast_last_id list.distinct(1))
  have linked: "linked b (e # zs @ [e])" using r by (simp add: ring_def)
  have "last (e # zs) = l" unfolding l by simp
  then have pe: "pe_prev (b e) = l" using ring_last [OF r] by simp
  have pn: "pe_next (b e) = h" using linked Cons by simp
  have "linked b (zs @ [e])" using linked Cons by simp
  then have "linked b (ys @ [l, e])" unfolding l by simp
  then have p: "linked b (ys @ [l])" by (subst (asm) linked_append) simp
  let ?b = "unlink_entry e b"
  have new: "pe_next (?b l) = h" "pe_prev (?b h) = l"
    "\<And>y. y \<noteq> l \<Longrightarrow> pe_next (?b y) = pe_next (b y)" "\<And>y. y \<noteq> h \<Longrightarrow> pe_prev (?b y) = pe_prev (b y)"
    using pe pn by (auto simp: unlink_entry_def Let_def)
  have "linked ?b (ys @ [l]) = linked b (ys @ [l])"
  proof (rule linked_cong)
    fix y assume "y \<in> set (butlast (ys @ [l]))"
    then have "y \<in> set ys" by simp
    moreover have "l \<notin> set ys" using d unfolding l by simp
    ultimately show "pe_next (?b y) = pe_next (b y)" by (intro new(3)) auto
  next
    fix y assume "y \<in> set (tl (ys @ [l]))"
    then have "y \<in> set rest" unfolding l [symmetric] Cons by simp
    moreover have "h \<notin> set rest" using d Cons by simp
    ultimately show "pe_prev (?b y) = pe_prev (b y)" by (intro new(4)) auto
  qed
  with p new(1,2) have "linked ?b (ys @ [l, h])" by (subst linked_append) simp
  moreover have "hd (ys @ [l]) = h" using Cons unfolding l [symmetric] by simp
  ultimately show ?thesis unfolding l ring_snoc by simp
qed (simp add: ring_def)

lemma find_in_ring_linked:
  "linked b (xs @ [first]) \<Longrightarrow> xs \<noteq> [] \<Longrightarrow> first \<notin> set (tl xs) \<Longrightarrow>
     find_in_ring b first pid (hd xs) = Some (find (\<lambda>e. id_of b e = pid) xs)"
proof (induction xs)
  case (Cons x xs)
  show ?case
  proof (cases xs)
    case Nil
    with Cons.prems show ?thesis by (subst find_in_ring.simps) simp
  next
    case (Cons y ys)
    with Cons.prems Cons.IH show ?thesis by (subst find_in_ring.simps) auto
  qed
qed simp

lemma find_in_ring_ring:
  "ring b es \<Longrightarrow> distinct es \<Longrightarrow> es \<noteq> [] \<Longrightarrow> find_in_ring b (hd es) pid (hd es) = Some (find (\<lambda>e. id_of b e = pid) es)"
  by (intro find_in_ring_linked) (cases es; simp add: ring_def)+

section \<open>The invariant of the list\<close>

text \<open>Closing files and managing the heap do not touch the list.\<close>

definition same_procs :: "'a proc_state_scheme \<Rightarrow> 'a proc_state_scheme \<Rightarrow> bool" where
  "same_procs s s' \<longleftrightarrow> processes s' = processes s \<and> first_process s' = first_process s \<and> free_pid s' = free_pid s \<and>
     number_of_processes s' = number_of_processes s \<and> current_process s' = current_process s"

lemma same_procs_trans: "same_procs s s' \<Longrightarrow> same_procs s' s'' \<Longrightarrow> same_procs s s''"
  by (simp add: same_procs_def)

lemma mem_same_procs: "same_but_mem s s' \<Longrightarrow> same_procs s s'"
  by (cases s; cases s') (simp add: same_but_mem_def same_procs_def)

lemmas heap_same_procs = malloc_frame [THEN mem_same_procs] free_frame [THEN mem_same_procs] realloc_frame [THEN mem_same_procs]

lemma keyboard_close_procs: "keyboard_close s f = Some s' \<Longrightarrow> same_procs s s'"
  by (auto simp: keyboard_close_def Let_def same_procs_def dest!: heap_same_procs split: bind_splits if_splits)

lemma other_close_procs: "hdd_close s f = Some s' \<Longrightarrow> same_procs s s'" "tty_close s f = Some s' \<Longrightarrow> same_procs s s'"
  "fs_close s f = Some s' \<Longrightarrow> same_procs s s'"
  by (auto simp: hdd_close_def tty_close_def fs_close_def same_procs_def dest!: heap_same_procs split: bind_splits if_splits)

lemma add_reference_procs: "same_procs s (add_reference n node s)"
  by (simp add: same_procs_def add_reference_def)

lemma vfs_close_procs: "vfs_close_file s f = Some s' \<Longrightarrow> same_procs s s'"
  unfolding vfs_close_file_def Let_def
  by (cases "fops_of (add_reference (- 1) (f_inode (files s f)) s) f")
    (auto dest!: keyboard_close_procs other_close_procs intro: same_procs_trans [OF add_reference_procs])

lemma close_if_procs: "close_if f s = Some s' \<Longrightarrow> same_procs s s'"
  by (auto simp: close_if_def same_procs_def dest!: vfs_close_procs split: if_splits)

definition proc_ring :: "'a proc_state_scheme \<Rightarrow> ptr list \<Rightarrow> bool" where
  "proc_ring s es \<longleftrightarrow> ring (processes s) es \<and> distinct es \<and> NULL \<notin> set es \<and>
     first_process s = (if es = [] then NULL else hd es) \<and> number_of_processes s = of_nat (length es)"

lemma link_entry_process:
  "pe_process (link_entry prev entry nxt b x) = pe_process (b x)"
  by (simp add: link_entry_def Let_def)

lemma unlink_entry_process: "pe_process (unlink_entry entry b x) = pe_process (b x)"
  by (simp add: unlink_entry_def Let_def)

text \<open>C6: A created process is appended to the ring: it gets the next identifier and a place that no
  other process has, the links stay consistent in both directions, and no other process changes.\<close>

theorem create_process_appends:
  assumes "proc_ring s es" "heap_ok s" "\<forall>x\<in>set es. \<exists>k. heap_owns s x k"
    and c: "create_process cpu name st entry_point base_cur base_apps table out inp err s = Some (s', e)" and e: "e \<noteq> NULL"
  shows "proc_ring s' (es @ [e]) \<and> e \<notin> set es \<and> id_of (processes s') e = free_pid s \<and> free_pid s' = free_pid s + 1 \<and>
    p_state (pe_process (processes s' e)) = st \<and>
    (\<forall>x\<in>set es. pe_process (processes s' x) = pe_process (processes s x))"
proof -
  from c e obtain s1 len where len: "strlen (mem s) name = Some len" "\<not> (len > 63 \<or> len = 0)"
    and m: "malloc s sizeof_process_entry = Some (s1, e)"
    by (auto simp: create_process_def Let_def get_free_pid_def split: bind_splits if_splits)
  have new: "e \<notin> set es" using assms(2,3) kheap.alloc_fresh [OF assms(2) m e] by blast
  have fr: "same_procs s s1" using m by (rule heap_same_procs)
  define first where "first = (if first_process s = NULL then e else first_process s)"
  define prev where "prev = (if first_process s = NULL then e else pe_prev (processes s first))"
  define p where "p = \<lparr>p_esp = stack_pointer base_apps, p_page_table = table, p_stdout = out, p_stdin = inp, p_stderr = err,
    p_wake_time = \<lparr>seconds = 0, millisecond = 0\<rparr>, p_state = st,
    p_name = bytes_at (fst (memset (mem s1) e 0 sizeof_process_entry)) name (unat len) @ replicate (64 - unat len) 0,
    p_id = free_pid s\<rparr>"
  have s': "processes s' = link_entry prev e first ((processes s)(e := \<lparr>pe_process = p, pe_next = first, pe_prev = prev\<rparr>))"
    "first_process s' = first" "number_of_processes s' = number_of_processes s + 1" "free_pid s' = free_pid s + 1"
    "p_id p = free_pid s" "p_state p = st"
    using c len m e fr
    by (simp_all add: create_process_def Let_def get_free_pid_def same_procs_def first_def prev_def p_def, auto)
  have "ring (processes s') (es @ [e])"
  proof (cases es)
    case Nil
    then have "prev = e" "first = e" using assms(1) by (simp_all add: proc_ring_def first_def prev_def)
    then show ?thesis using Nil by (simp add: s' ring_single link_entry_def Let_def)
  next
    case (Cons x xs)
    then have "first = x" "prev = pe_prev (processes s x)"
      using assms(1) by (auto simp: proc_ring_def first_def prev_def)
    then show ?thesis
      using ring_insert [of "processes s" x xs e, OF _ _ _ refl] assms(1) new Cons s'(1) by (simp add: proc_ring_def)
  qed
  then have "proc_ring s' (es @ [e])"
    using assms(1) new e by (cases es) (auto simp: proc_ring_def s'(2,3) first_def)
  then show ?thesis using new by (auto simp: s' id_of_def link_entry_process)
qed

lemma removed_entry:
  assumes "find_in_ring (processes s) (first_process s) pid (first_process s) = Some (Some e)" "remove_process pid s = Some s'"
  shows "processes s' = unlink_entry e (processes s) \<and>
    first_process s' = (if e = first_process s then pe_next (processes s e) else first_process s) \<and>
    number_of_processes s' = number_of_processes s - 1 \<and> current_process s' = current_process s"
proof -
  from assms obtain s1 s2 s3 s4 where
    cl: "close_if (p_stdout (pe_process (processes s e))) s = Some s1" "close_if (p_stdin (pe_process (processes s e))) s1 = Some s2"
      "close_if (p_stderr (pe_process (processes s e))) s2 = Some s3"
    and fr: "free (s3\<lparr>processes := unlink_entry e (processes s3), first_process :=
      (if e = first_process s3 then pe_next (processes s3 e) else first_process s3)\<rparr>) e = Some s4"
    and s': "s' = s4\<lparr>number_of_processes := number_of_processes s4 - 1\<rparr>"
    by (auto simp: remove_process_def Let_def split: bind_splits)
  have "same_procs s s3" using close_if_procs [OF cl(1)] close_if_procs [OF cl(2)] close_if_procs [OF cl(3)] same_procs_trans by blast
  then show ?thesis using heap_same_procs(2) [OF fr] by (simp add: s' same_procs_def)
qed

lemma remove_process_ring:
  assumes ring: "proc_ring s es" and f: "find (\<lambda>x. id_of (processes s) x = pid) es = Some e" and es: "1 < length es"
    and r: "remove_process pid s = Some s'"
  shows "proc_ring s' (remove1 e es) \<and> current_process s' = current_process s \<and>
    (\<forall>x. pe_process (processes s' x) = pe_process (processes s x))"
proof -
  have e: "e \<in> set es" using f by (auto simp: find_Some_iff)
  have ne: "es \<noteq> []" using es by auto
  note R = ring [unfolded proc_ring_def]
  have found: "find_in_ring (processes s) (first_process s) pid (first_process s) = Some (Some e)"
    using find_in_ring_ring [of "processes s" es pid] R ne f by simp
  from removed_entry [OF found r] have st: "processes s' = unlink_entry e (processes s)"
    "first_process s' = (if e = first_process s then pe_next (processes s e) else first_process s)"
    "number_of_processes s' = number_of_processes s - 1" "current_process s' = current_process s" by auto
  obtain pre post where split: "es = pre @ e # post" using e by (auto dest: split_list)
  have rot: "ring (processes s) (e # post @ pre)" using R split ring_rotate [of "processes s" pre "e # post"] by simp
  then have "ring (processes s') (post @ pre)"
    unfolding st(1) using R split by (intro ring_remove) auto
  moreover have rm: "remove1 e es = pre @ post" using R split by (simp add: remove1_append)
  ultimately have "ring (processes s') (remove1 e es)" using ring_rotate by metis
  moreover have "first_process s' = hd (pre @ post)"
  proof (cases pre)
    case Nil
    then obtain y ys where "post = y # ys" using es split by (cases post) auto
    then have "pe_next (processes s e) = y" using rot by (simp add: ring_def Nil)
    then show ?thesis using Nil R split \<open>post = y # ys\<close> st(2) by simp
  next
    case (Cons h rest)
    then have "e \<noteq> first_process s" using R split by auto
    then show ?thesis using Cons R split st(2) by simp
  qed
  moreover have "pre @ post \<noteq> []" using es split by auto
  moreover have "number_of_processes s' = of_nat (length (pre @ post))" using R split st(3) by simp
  moreover have "distinct (pre @ post)" "NULL \<notin> set (pre @ post)" using R split by auto
  ultimately show ?thesis by (simp add: proc_ring_def rm st unlink_entry_process del: append_is_Nil_conv)
qed

text \<open>Processes without files, for the examples.\<close>

definition demo_entry :: "u32 \<Rightarrow> u8 \<Rightarrow> ptr \<Rightarrow> ptr \<Rightarrow> process_entry" where
  "demo_entry pid st nxt prev = \<lparr>pe_process = \<lparr>p_esp = 0, p_page_table = 0x100000, p_stdout = 0, p_stdin = 0, p_stderr = 0,
     p_wake_time = \<lparr>seconds = 3, millisecond = 500\<rparr>, p_state = st, p_name = [], p_id = pid\<rparr>, pe_next = nxt, pe_prev = prev\<rparr>"

text \<open>A kernel with an empty heap of 4 KiB at 0x1000, the string "a" at 0x100 and the given processes.\<close>

definition proc_demo :: "(ptr \<Rightarrow> process_entry) \<Rightarrow> ptr list \<Rightarrow> proc_state" where
  "proc_demo b es = init_heap (vfs_state.extend (vfs_demo\<lparr>mem := (\<lambda>_. 0)(0x100 := 97)\<rparr>)
     (proc_state.fields b (if es = [] then NULL else hd es) 7 (of_nat (length es)) NULL)) 0x1000 0x1000"

lemma proc_demo_facts [simp]: "processes (proc_demo b es) = b" "first_process (proc_demo b es) = (if es = [] then NULL else hd es)"
  "number_of_processes (proc_demo b es) = of_nat (length es)" "free_pid (proc_demo b es) = 7"
  by (simp_all add: proc_demo_def init_heap_def Let_def vfs_state.defs proc_state.defs)

lemma proc_demo_heap: "heap_ok (proc_demo b es)"
  using init_linked [of "0x1000" "0x1000"] unfolding proc_demo_def heap_ok_def by (force intro: linked_rep)

lemma proc_demo_malloc: "\<exists>s1. malloc (proc_demo b es) sizeof_process_entry = Some (s1, 0x1010) \<and> same_procs (proc_demo b es) s1"
proof -
  have "\<exists>s1. malloc (proc_demo b es) sizeof_process_entry = Some (s1, 0x1010)" by (simp add: proc_demo_def heap_eval)
  then show ?thesis using heap_same_procs(1) by blast
qed

lemma proc_demo_strlen: "strlen (mem (proc_demo b es)) 0x100 = Some 1"
  unfolding strlen_def
  by (subst strlen_loop.simps, simp add: proc_demo_def heap_eval vfs_state.defs proc_state.defs set_free_def set_next_def set_prev_def set_size_def store32_def)
    (subst strlen_loop.simps, simp add: proc_demo_def heap_eval vfs_state.defs proc_state.defs set_free_def set_next_def set_prev_def set_size_def store32_def)

theorem create_process_appends_witness:
  "case create_process \<lparr>cpu_cs = 8, cpu_ss = 16, cpu_ds = 16, cpu_es = 16, cpu_fs = 16, cpu_gs = 16, cpu_eflags = 2\<rparr>
     0x100 1 0x400000 0x9000 0x9000 0x300000 0 0 0 (proc_demo (\<lambda>_. demo_entry 0 0 0 0) []) of None \<Rightarrow> False
   | Some (s', e) \<Rightarrow> e = 0x1010 \<and> proc_ring s' [0x1010] \<and> id_of (processes s') 0x1010 = 7"
proof -
  let ?b = "\<lambda>_. demo_entry 0 0 0 0" and ?cpu = "\<lparr>cpu_cs = 8, cpu_ss = 16, cpu_ds = 16, cpu_es = 16, cpu_fs = 16, cpu_gs = 16, cpu_eflags = 2\<rparr>"
  obtain s1 where s1: "malloc (proc_demo ?b []) sizeof_process_entry = Some (s1, 0x1010)" using proc_demo_malloc by blast
  then obtain s' where c: "create_process ?cpu 0x100 1 0x400000 0x9000 0x9000 0x300000 0 0 0 (proc_demo ?b []) = Some (s', 0x1010)"
    by (simp add: create_process_def proc_demo_strlen Let_def get_free_pid_def)
  have "proc_ring (proc_demo ?b []) []" by (simp add: proc_ring_def ring_def)
  from create_process_appends [OF this proc_demo_heap _ c] show ?thesis using c by simp
qed



end
