(* ===== verification/Scheduler.thy ===== *)
theory Scheduler
  imports Process
begin

text \<open>
  \<open>kernel/interrupts/irq_handlers.c\<close> and \<open>system_calls.c\<close>: the timer interrupt, which is the
  scheduler, the keyboard and spurious interrupts, and the system call dispatcher over the saved
  registers. Interrupts that arrive while a system call runs (\<open>sti\<close> around the read) are not
  modelled: a system call is one step.
\<close>

section \<open>Data\<close>

record kernel_state = proc_state +
  time_now :: time
  kernel_table :: ptr

abbreviation (input) "PIC1_CMD \<equiv> 0x20 :: u16"
abbreviation (input) "PIC2_CMD \<equiv> 0xA0 :: u16"
abbreviation (input) "PIC_EOI \<equiv> 0x20 :: u8"

section \<open>The timer\<close>

definition advance_time :: "time \<Rightarrow> time" where
  "advance_time t =
     (let ms = millisecond t + 10 in
      if ms > 1000 then \<lparr>seconds = seconds t + 1, millisecond = ms - 1000\<rparr>
      else t\<lparr>millisecond := ms\<rparr>)"

definition set_state :: "ptr \<Rightarrow> u8 \<Rightarrow> 'a proc_state_scheme \<Rightarrow> 'a proc_state_scheme" where
  "set_state p v s = s\<lparr>processes := (processes s)(p := (processes s p)
     \<lparr>pe_process := (pe_process (processes s p))\<lparr>p_state := v\<rparr>\<rparr>)\<rparr>"

definition set_esp :: "ptr \<Rightarrow> u32 \<Rightarrow> 'a proc_state_scheme \<Rightarrow> 'a proc_state_scheme" where
  "set_esp p v s = s\<lparr>processes := (processes s)(p := (processes s p)
     \<lparr>pe_process := (pe_process (processes s p))\<lparr>p_esp := v\<rparr>\<rparr>)\<rparr>"

abbreviation (input) "proc s p \<equiv> pe_process (processes s p)"

text \<open>\<open>case PROCESS_TERMINATED\<close>: the process is freed; the result is the process after it.\<close>

definition reap :: "ptr \<Rightarrow> 'a kernel_state_scheme \<Rightarrow> ('a kernel_state_scheme \<times> ptr) option" where
  "reap nxt s = do {
     s1 \<leftarrow> free_pde_table s (p_page_table (proc s nxt));
     let pid = p_id (proc s1 nxt);
     let (s2, nxt') = get_next_process s1;
     s3 \<leftarrow> remove_process pid s2;
     Some (s3, nxt') }"

definition wake_due :: "time \<Rightarrow> time \<Rightarrow> bool" where
  "wake_due now wake \<longleftrightarrow> seconds now \<ge> seconds wake \<and> millisecond now \<ge> millisecond wake"

text \<open>One iteration of the loop, for a process that is not running. A sleeping process that is not due
  is skipped, and the \<open>case\<close> falls through: the process after it is freed.\<close>

definition sched_step :: "ptr \<Rightarrow> 'a kernel_state_scheme \<Rightarrow> ('a kernel_state_scheme \<times> ptr) option" where
  "sched_step nxt s =
     (let st = p_state (proc s nxt) in
      if st = PROCESS_SLEEPING then
        (if wake_due (time_now s) (p_wake_time (proc s nxt)) then Some (set_state nxt PROCESS_RUNNING s, nxt)
         else let (s1, nxt1) = get_next_process s in reap nxt1 s1)
      else if st = PROCESS_TERMINATED then reap nxt s
      else Some (get_next_process s))"

partial_function (option) sched_loop :: "ptr \<Rightarrow> 'a kernel_state_scheme \<Rightarrow> ('a kernel_state_scheme \<times> ptr) option" where
  "sched_loop nxt s =
     (if p_state (proc s nxt) = PROCESS_RUNNING then Some (s, nxt)
      else (case sched_step nxt s of None \<Rightarrow> None | Some (s1, nxt1) \<Rightarrow> sched_loop nxt1 s1))"

text \<open>The result: the stack pointer to switch to, and the page directory left in \<open>ebx\<close>.\<close>

definition irq0_timer_c :: "u32 \<Rightarrow> 'a kernel_state_scheme \<Rightarrow> ('a kernel_state_scheme \<times> u32 \<times> ptr) option" where
  "irq0_timer_c esp s = do {
     let s1 = s\<lparr>time_now := advance_time (time_now s)\<rparr>;
     let s2 = set_esp (get_current_process s1) esp s1;
     let (s3, nxt) = get_next_process s2;
     (s4, nxt') \<leftarrow> sched_loop nxt s3;
     Some (outb PIC1_CMD PIC_EOI s4, p_esp (proc s4 nxt'), p_page_table (proc s4 nxt')) }"

section \<open>Other interrupts\<close>

definition irq1_keyboard :: "device \<Rightarrow> 'a kernel_state_scheme \<Rightarrow> 'a kernel_state_scheme" where
  "irq1_keyboard dev s =
     (let (s1, scancode) = inb dev 0x60 s in outb PIC1_CMD PIC_EOI (on_event s1 scancode))"

definition irq7_15_spurious :: "'a kernel_state_scheme \<Rightarrow> 'a kernel_state_scheme" where
  "irq7_15_spurious s = outb PIC2_CMD PIC_EOI (outb PIC1_CMD PIC_EOI s)"

section \<open>System calls\<close>

text \<open>\<open>struct process_init_data\<close> at an address: its byte \<open>initial_state\<close>, then eight words.\<close>

definition init_data :: "bmem \<Rightarrow> ptr \<Rightarrow> nat \<Rightarrow> u32" where
  "init_data m pd k = load32 m (pd + 4 * of_nat k)"

definition syscall_create ::
  "cpu_registers \<Rightarrow> ptr \<Rightarrow> 'a kernel_state_scheme \<Rightarrow> ('a kernel_state_scheme \<times> ptr) option" where
  "syscall_create cpu pd s =
     (let f = init_data (mem s) pd
      in create_process cpu (f 1) (mem s pd) (f 2) (f 3) (f 4) (f 5) (f 6) (f 7) (f 8) s)"

definition chosen_table :: "u32 \<Rightarrow> 'a kernel_state_scheme \<Rightarrow> ptr" where
  "chosen_table edx s = (if edx = PAGER_ERROR then p_page_table (proc s (get_current_process s)) else edx)"

definition syscall_c ::
  "cpu_registers \<Rightarrow> device \<Rightarrow> ptr \<Rightarrow> registers \<Rightarrow> 'a kernel_state_scheme \<Rightarrow> ('a kernel_state_scheme \<times> registers) option" where
  "syscall_c cpu dev stk regs s =
     (let eax = r_eax regs; ebx = r_ebx regs; ecx = r_ecx regs; edx = r_edx regs in
      if eax = 0x02 then do { (s1, f) \<leftarrow> vfs_open_file dev stk ebx s; Some (s1, regs\<lparr>r_ebx := f\<rparr>) }
      else if eax = 0x03 then do { s1 \<leftarrow> vfs_close_file s ebx; Some (s1, regs) }
      else if eax = 0x04 then do { (s1, n) \<leftarrow> vfs_read dev stk s ebx edx ecx; Some (s1, regs\<lparr>r_eax := n\<rparr>) }
      else if eax = 0x05 then do { (s1, n) \<leftarrow> vfs_write dev stk s ebx edx ecx; Some (s1, regs\<lparr>r_eax := n\<rparr>) }
      else if eax = 0x06 then do { s1 \<leftarrow> vfs_ioctl s ebx ecx edx; Some (s1, regs) }
      else if eax = 0x07 then do { s1 \<leftarrow> vfs_seek s ebx ecx edx; Some (s1, regs) }
      else if eax = 0x08 then do { n \<leftarrow> vfs_tell s ebx; Some (s, regs\<lparr>r_ecx := n\<rparr>) }
      else if eax = 0x09 then do { (s1, r) \<leftarrow> vfs_create_regular_file dev stk ebx s; Some (s1, regs\<lparr>r_eax := r\<rparr>) }
      else if eax = 0x10 then do { (s1, va) \<leftarrow> new_page s ebx (chosen_table edx s) 0; Some (s1, regs\<lparr>r_ebx := va\<rparr>) }
      else if eax = 0x11 then do { s1 \<leftarrow> free_page s ebx (chosen_table edx s); Some (s1, regs) }
      else if eax = 0x12 then
        let (s1, t) = soft_copy_table s (kernel_table s) 1 in Some (s1, regs\<lparr>r_ebx := t\<rparr>)
      else if eax = 0x20 then Some (s, regs\<lparr>r_ebx := get_current_process s\<rparr>)
      else if eax = 0x21 then do { (s1, p) \<leftarrow> syscall_create cpu ebx s; Some (s1, regs\<lparr>r_ebx := p\<rparr>) }
      else if eax = 0x22 then Some (set_state (get_current_process s) PROCESS_TERMINATED s, regs)
      else Some (s, regs))"

section \<open>Round robin\<close>

text \<open>The contract of a round-robin scheduler: the list of a state is the ring, read from the current
  process on, and a tick goes to the first ready process after it.\<close>

fun ticks :: "('s \<Rightarrow> 's option) \<Rightarrow> nat \<Rightarrow> 's \<Rightarrow> 's option" where
  "ticks tick 0 s = Some s"
| "ticks tick (Suc n) s = Option.bind (tick s) (ticks tick n)"

locale round_robin =
  fixes inv :: "'s \<Rightarrow> 'p list \<Rightarrow> bool"
    and ready :: "'s \<Rightarrow> 'p \<Rightarrow> bool"
    and tick :: "'s \<Rightarrow> 's option"
  assumes tick_next: "inv s (c # ps) \<Longrightarrow> ps @ [c] = us @ p # vs \<Longrightarrow> \<forall>u\<in>set us. \<not> ready s u \<Longrightarrow> ready s p \<Longrightarrow>
      \<exists>s'. tick s = Some s' \<and> inv s' (p # vs @ us) \<and> ready s' = ready s"
begin

lemma eventually_current:
  "inv s (c # ps) \<Longrightarrow> ps @ [c] = us @ p # vs \<Longrightarrow> ready s p \<Longrightarrow>
     \<exists>k s' qs. k \<le> length us \<and> ticks tick (Suc k) s = Some s' \<and> inv s' (p # qs)"
proof (induction "length us" arbitrary: s c ps us vs rule: less_induct)
  case less
  show ?case
  proof (cases "\<exists>u\<in>set us. ready s u")
    case False
    with tick_next [OF less.prems(1,2) _ less.prems(3)] obtain s' where "tick s = Some s'" "inv s' (p # vs @ us)" by blast
    then show ?thesis by (intro exI [of _ 0]) auto
  next
    case True
    from split_list_first_prop [OF this] obtain ys q zs where
      us: "us = ys @ q # zs" "ready s q" "\<forall>u\<in>set ys. \<not> ready s u" by blast
    have "ps @ [c] = ys @ q # (zs @ p # vs)" using less.prems(2) us(1) by simp
    from tick_next [OF less.prems(1) this us(3,2)] obtain s1 where
      s1: "tick s = Some s1" "inv s1 (q # (zs @ p # vs) @ ys)" "ready s1 = ready s" by blast
    have "length zs < length us" using us(1) by simp
    from less.hyps [OF this s1(2), of "vs @ ys @ [q]"] s1(3) less.prems(3) obtain k s' qs where
      k: "k \<le> length zs" "ticks tick (Suc k) s1 = Some s'" "inv s' (p # qs)" by auto
    then have "ticks tick (Suc (Suc k)) s = Some s'" using s1(1) by simp
    with k us(1) show ?thesis by (intro exI [of _ "Suc k"]) auto
  qed
qed

lemma every_ready_runs:
  assumes "inv s (c # ps)" "p \<in> set (c # ps)" "ready s p"
  shows "\<exists>k s' qs. 0 < k \<and> k \<le> length (c # ps) \<and> ticks tick k s = Some s' \<and> inv s' (p # qs)"
proof -
  have "p \<in> set (ps @ [c])" using assms(2) by auto
  then obtain us vs where us: "ps @ [c] = us @ p # vs" by (auto dest: split_list)
  have "length us < length (c # ps)" using arg_cong [OF us, of length] by simp
  with eventually_current [OF assms(1) us assms(3)] show ?thesis by (meson Suc_leI le_less_trans zero_less_Suc)
qed

end

text \<open>The kernel's processes, none of them sleeping or terminated, from the current one on.\<close>

definition proc_ready :: "'a kernel_state_scheme \<Rightarrow> ptr \<Rightarrow> bool" where
  "proc_ready s p \<longleftrightarrow> p_state (proc s p) = PROCESS_RUNNING"

definition sched_inv :: "'a kernel_state_scheme \<Rightarrow> ptr list \<Rightarrow> bool" where
  "sched_inv s ps \<longleftrightarrow> ring (processes s) ps \<and> ps \<noteq> [] \<and> current_process s = hd ps \<and>
     (\<forall>p\<in>set ps. p_state (proc s p) \<noteq> PROCESS_SLEEPING \<and> p_state (proc s p) \<noteq> PROCESS_TERMINATED)"

definition timer_tick :: "('a kernel_state_scheme \<Rightarrow> u32) \<Rightarrow> 'a kernel_state_scheme \<Rightarrow> 'a kernel_state_scheme option" where
  "timer_tick esp s = map_option fst (irq0_timer_c (esp s) s)"

lemma set_esp_simps [simp]:
  "processes (set_esp p v s) x = (if x = p then (processes s p)\<lparr>pe_process := (proc s p)\<lparr>p_esp := v\<rparr>\<rparr> else processes s x)"
  "current_process (set_esp p v s) = current_process s"
  by (simp_all add: set_esp_def)

lemma linked_congD: "(\<And>x. pe_next (b' x) = pe_next (b x) \<and> pe_prev (b' x) = pe_prev (b x)) \<Longrightarrow> linked b' xs = linked b xs"
  by (rule linked_cong) simp_all

text \<open>The loop skips suspended processes.\<close>

lemma sched_loop_skips:
  "linked (processes s) (us @ [p]) \<Longrightarrow> nxt = hd (us @ [p]) \<Longrightarrow> current_process s = nxt \<Longrightarrow>
     \<forall>u\<in>set us. p_state (proc s u) \<notin> {PROCESS_RUNNING, PROCESS_SLEEPING, PROCESS_TERMINATED} \<Longrightarrow>
     p_state (proc s p) = PROCESS_RUNNING \<Longrightarrow> sched_loop nxt s = Some (s\<lparr>current_process := p\<rparr>, p)"
proof (induction us arbitrary: nxt s)
  case Nil
  then show ?case by (subst sched_loop.simps) simp
next
  case (Cons u us)
  let ?y = "hd (us @ [p])"
  have y: "pe_next (processes s u) = ?y" using Cons.prems(1) by (cases us) simp_all
  let ?s1 = "s\<lparr>current_process := ?y\<rparr>"
  have "linked (processes ?s1) (us @ [p])" using Cons.prems(1) by (cases us) simp_all
  from Cons.IH [OF this refl] Cons.prems(4,5) have "sched_loop ?y ?s1 = Some (s\<lparr>current_process := p\<rparr>, p)" by simp
  then show ?case
    using Cons.prems y by (subst sched_loop.simps) (simp add: sched_step_def Let_def get_next_process_def)
qed

lemma timer_tick_next:
  assumes inv: "sched_inv s (c # ps)" and us: "ps @ [c] = us @ p # vs" "\<forall>u\<in>set us. \<not> proc_ready s u" "proc_ready s p"
  shows "\<exists>s'. timer_tick esp s = Some s' \<and> sched_inv s' (p # vs @ us) \<and> proc_ready s' = proc_ready s"
proof -
  let ?s2 = "set_esp c (esp s) (s\<lparr>time_now := advance_time (time_now s)\<rparr>)"
  let ?n = "pe_next (processes s c)"
  let ?s3 = "?s2\<lparr>current_process := ?n\<rparr>"
  have linked: "linked (processes ?s2) xs = linked (processes s) xs" for xs by (rule linked_congD) simp
  then have cong: "linked (processes ?s2) xs = linked (processes s) xs" "ring (processes ?s2) xs = ring (processes s) xs" for xs
    by (simp_all add: ring_def)
  have r: "ring (processes s) (c # ps)" "current_process s = c" using inv by (simp_all add: sched_inv_def)
  have "linked (processes s) (c # us @ p # vs)" using r(1) us(1) by (simp add: ring_def)
  then have "linked (processes s) ((c # us) @ [p])" using linked_append [of "processes s" "c # us" p vs] by simp
  then have pth: "linked (processes s) (us @ [p])" "?n = hd (us @ [p])" by (cases us; simp)+
  have mem: "p \<in> set (c # ps)" "set us \<subseteq> set (c # ps)" "set vs \<subseteq> set (c # ps)" using arg_cong [OF us(1), of set] by auto
  have st: "p_state (proc ?s3 x) = p_state (proc s x)" for x by simp
  have "sched_loop ?n ?s3 = Some (?s3\<lparr>current_process := p\<rparr>, p)"
  proof (rule sched_loop_skips)
    show "linked (processes ?s3) (us @ [p])" using pth(1) cong by simp
    show "\<forall>u\<in>set us. p_state (proc ?s3 u) \<notin> {PROCESS_RUNNING, PROCESS_SLEEPING, PROCESS_TERMINATED}"
      using inv us(2) mem(2) unfolding st by (auto simp: sched_inv_def proc_ready_def)
    show "p_state (proc ?s3 p) = PROCESS_RUNNING" using us(3) unfolding st by (simp add: proc_ready_def)
  qed (use pth(2) in simp_all)
  then have t: "timer_tick esp s = Some (outb PIC1_CMD PIC_EOI (?s2\<lparr>current_process := p\<rparr>))"
    using r(2) by (simp add: timer_tick_def irq0_timer_c_def get_current_process_def get_next_process_def Let_def)
  have "ring (processes s) (ps @ [c])" using r(1) ring_rotate1 by blast
  then have "ring (processes s) (p # vs @ us)" using ring_rotate [of _ us "p # vs"] us(1) by simp
  then have "sched_inv (outb PIC1_CMD PIC_EOI (?s2\<lparr>current_process := p\<rparr>)) (p # vs @ us)"
    using inv mem cong by (auto simp: sched_inv_def outb_def)
  then show ?thesis using t by (auto simp: outb_def proc_ready_def fun_eq_iff)
qed

interpretation kernel_rr: round_robin sched_inv proc_ready "timer_tick esp" for esp
  by unfold_locales (rule timer_tick_next)

text \<open>C5: No starvation: while no process sleeps or terminates, every running process of the ring becomes
  the current one within as many timer interrupts as there are processes, whatever the stack pointers
  of the interrupted processes are.\<close>

theorem every_running_process_scheduled:
  assumes "ring (processes s) ps" "ps \<noteq> []" "current_process s = hd ps" "p \<in> set ps" "p_state (proc s p) = PROCESS_RUNNING"
    and "\<forall>q\<in>set ps. p_state (proc s q) \<in> {PROCESS_RUNNING, PROCESS_SUSPENDED}"
  shows "\<exists>k s'. 0 < k \<and> k \<le> length ps \<and> ticks (timer_tick esp) k s = Some s' \<and> current_process s' = p"
proof -
  obtain c rest where ps: "ps = c # rest" using assms(2) by (cases ps) auto
  have "sched_inv s (c # rest)" using assms ps by (auto simp: sched_inv_def)
  from kernel_rr.every_ready_runs [OF this, of p esp] assms(4,5) ps show ?thesis
    by (auto simp: proc_ready_def sched_inv_def)
qed

definition kernel_demo :: "proc_state \<Rightarrow> ptr \<Rightarrow> kernel_state" where
  "kernel_demo s c = proc_state.extend (s\<lparr>current_process := c\<rparr>) (kernel_state.fields \<lparr>seconds = 2, millisecond = 100\<rparr> 0x300000)"

lemma kernel_demo_facts [simp]: "processes (kernel_demo s c) = processes s" "current_process (kernel_demo s c) = c"
  "first_process (kernel_demo s c) = first_process s" "number_of_processes (kernel_demo s c) = number_of_processes s"
  "time_now (kernel_demo s c) = \<lparr>seconds = 2, millisecond = 100\<rparr>" "mem (kernel_demo s c) = mem s"
  by (simp_all add: kernel_demo_def proc_state.defs kernel_state.defs)

theorem every_running_process_scheduled_witness:
  "\<exists>k s'. 0 < k \<and> k \<le> 2 \<and> ticks (timer_tick (\<lambda>_. 0x8000)) k
     (kernel_demo (proc_demo (\<lambda>a. if a = 0x1010 then demo_entry 5 2 0x5000 0x5000 else demo_entry 6 1 0x1010 0x1010)
       [0x1010, 0x5000]) 0x1010) = Some s' \<and> current_process s' = 0x5000"
proof -
  let ?s = "kernel_demo (proc_demo (\<lambda>a. if a = 0x1010 then demo_entry 5 2 0x5000 0x5000 else demo_entry 6 1 0x1010 0x1010)
       [0x1010, 0x5000]) 0x1010"
  have "ring (processes ?s) [0x1010, 0x5000]" by (simp add: ring_def demo_entry_def)
  then have "\<exists>k s'. 0 < k \<and> k \<le> length [0x1010 :: ptr, 0x5000] \<and>
      ticks (timer_tick (\<lambda>_. 0x8000)) k ?s = Some s' \<and> current_process s' = 0x5000"
    by (rule every_running_process_scheduled) (simp_all add: demo_entry_def)
  moreover have "length [0x1010 :: ptr, 0x5000] = 2" by simp
  ultimately show ?thesis by (simp only:)
qed

section \<open>Sleeping\<close>

lemma same_procs_refl [simp]: "same_procs s s"
  by (simp add: same_procs_def)

lemma fold_bind_None: "fold (\<lambda>i r. Option.bind r (f i)) xs None = None"
  by (induction xs) simp_all

lemma fold_bind_procs:
  "(\<And>i s s'. f i s = Some s' \<Longrightarrow> same_procs s s') \<Longrightarrow> fold (\<lambda>i r. Option.bind r (f i)) xs (Some s) = Some s' \<Longrightarrow> same_procs s s'"
proof (induction xs arbitrary: s)
  case (Cons x xs)
  then obtain s1 where "f x s = Some s1" "fold (\<lambda>i r. Option.bind r (f i)) xs (Some s1) = Some s'"
    by (cases "f x s") (simp_all add: fold_bind_None)
  note step = this
  have "same_procs s1 s'" by (rule Cons.IH [OF Cons.prems(1) step(2)])
  with Cons.prems(1) [OF step(1)] show ?case by (rule same_procs_trans)
qed (simp add: same_procs_def)

lemma fold_bind_same: "(\<And>i. i \<in> set xs \<Longrightarrow> f i s = Some s) \<Longrightarrow> fold (\<lambda>i r. Option.bind r (f i)) xs (Some s) = Some s"
  by (induction xs) simp_all

lemma pager_fill_procs: "pager_fill s a b = Some s' \<Longrightarrow> same_procs s s'"
  by (auto simp: pager_fill_def Let_def same_procs_def dest!: heap_same_procs split: bind_splits if_splits)

lemma free_pte_table_procs: "free_pte_table s t = Some s' \<Longrightarrow> same_procs s s'"
  unfolding free_pte_table_def
  by (erule fold_bind_procs [rotated]) (auto simp: Let_def dest: pager_fill_procs split: if_splits)

lemma free_pde_table_procs: "free_pde_table s t = Some s' \<Longrightarrow> same_procs s s'"
  unfolding free_pde_table_def
  by (erule fold_bind_procs [rotated]) (auto simp: Let_def dest: free_pte_table_procs split: if_splits)

lemma free_pde_table_empty: "(\<And>i. i < 1024 \<Longrightarrow> \<not> present (entry_at (mem s) t (of_nat i))) \<Longrightarrow> free_pde_table s t = Some s"
  unfolding free_pde_table_def by (rule fold_bind_same) (simp add: Let_def)

lemma time_set_esp: "time_now (set_esp p v s) = time_now s"
  by (simp add: set_esp_def)


definition sleep_entries :: "ptr \<Rightarrow> process_entry" where
  "sleep_entries a = (if a = 0x1010 then demo_entry 5 1 0x5000 0x6000
     else if a = 0x6000 then demo_entry 8 3 0x1010 0x5000 else demo_entry 6 1 0x6000 0x1010)"

definition sleep_demo :: kernel_state where
  "sleep_demo = kernel_demo (fst (the (malloc (proc_demo sleep_entries [0x5000, 0x6000, 0x1010]) sizeof_process_entry))) 0x5000"

lemma sleep_demo_facts:
  "processes sleep_demo = sleep_entries" "first_process sleep_demo = 0x5000" "number_of_processes sleep_demo = 3"
  "current_process sleep_demo = 0x5000" "time_now sleep_demo = \<lparr>seconds = 2, millisecond = 100\<rparr>"
  using proc_demo_malloc [of sleep_entries "[0x5000, 0x6000, 0x1010]"] by (auto simp: sleep_demo_def same_procs_def)

lemma sleep_demo_mem:
  assumes "0x100000 \<le> unat a"
  shows "mem sleep_demo a = 0"
proof -
  let ?s = "proc_demo sleep_entries [0x5000, 0x6000, 0x1010]"
  have "heap_rep ?s [(0x1000, 0xFF0, True)]"
    unfolding proc_demo_def using linked_rep [OF init_linked [of "0x1000" "0x1000"]] by simp
  from malloc_rep [OF this, of sizeof_process_entry] obtain m' where
    m': "malloc ?s sizeof_process_entry = Some (?s\<lparr>mem := m'\<rparr>, 0x1010)" "only_at (mem ?s) m' (in_free [(0x1000, 0xFF0, True)])"
    by auto
  have "\<not> in_free [(0x1000, 0xFF0, True)] a" using assms by (auto simp: in_free_def in_region_def)
  then have "m' a = mem ?s a" using m'(2) by (auto simp: only_at_def)
  moreover have "a \<noteq> w" if "unat w < 0x100000" for w using assms that by auto
  then have "mem ?s a = 0"
    by (simp add: proc_demo_def init_heap_def Let_def vfs_state.defs proc_state.defs set_free_def set_next_def set_prev_def
        set_size_def store32_def)
  ultimately show ?thesis using m'(1) by (simp add: sleep_demo_def)
qed

lemma free_same_mem: "mem t = mem s \<Longrightarrow> free s p \<noteq> None \<Longrightarrow> free t p \<noteq> None" for s :: "'a heap_state_scheme" and t :: "'b heap_state_scheme"
  by (auto simp: free_def Let_def split: if_splits option.splits)

lemma sleep_demo_table: "i < 1024 \<Longrightarrow> \<not> present (entry_at (mem sleep_demo) 0x100000 (of_nat i))"
proof -
  assume "i < 1024"
  then have "unat (0x100000 + 4 * of_nat i + k :: u32) = 0x100000 + 4 * i + unat k" if "unat k \<le> 3" for k
    using that by (simp add: unat_plus_nowrap unat_times_nowrap unat_of_nat_u32)
  from this [of 0] this [of 1] this [of 2] this [of 3]
  show "\<not> present (entry_at (mem sleep_demo) 0x100000 (of_nat i))"
    by (simp add: entry_at_def load32_def present_def sleep_demo_mem)
qed

lemma remove_process_returns:
  fixes s :: "'a proc_state_scheme"
  assumes "find_in_ring (processes s) (first_process s) pid (first_process s) = Some (Some e)"
    and "p_stdout (proc s e) = NULL" "p_stdin (proc s e) = NULL" "p_stderr (proc s e) = NULL"
    and "\<And>t :: 'a proc_state_scheme. mem t = mem s \<Longrightarrow> free t e \<noteq> None"
  shows "\<exists>s'. remove_process pid s = Some s'"
  using assms(1-4)
    assms(5) [of "s\<lparr>processes := unlink_entry e (processes s),
      first_process := (if e = first_process s then pe_next (processes s e) else first_process s)\<rparr>"]
  by (auto simp: remove_process_def close_if_def Let_def)

lemma sleep_demo_runs: "irq0_timer_c 0x8000 sleep_demo \<noteq> None"
proof -
  let ?s3 = "(set_esp 0x5000 0x8000 (sleep_demo\<lparr>time_now := advance_time (time_now sleep_demo)\<rparr>))\<lparr>current_process := 0x6000\<rparr>"
  let ?s4 = "?s3\<lparr>current_process := 0x1010\<rparr>"
  have table: "free_pde_table ?s4 0x100000 = Some ?s4"
    by (rule free_pde_table_empty) (simp add: set_esp_def sleep_demo_table)
  have "free (fst (the (malloc (proc_demo sleep_entries [0x5000, 0x6000, 0x1010]) sizeof_process_entry))) 0x1010 \<noteq> None"
    by (simp add: proc_demo_def heap_eval)
  note free_ok = free_same_mem [OF _ this]
  have fr: "free t 0x1010 \<noteq> None" if "mem t = mem sleep_demo" for t :: kernel_state
    using that by (intro free_ok) (simp only: sleep_demo_def kernel_demo_facts)
  let ?e = "\<lambda>x. set_esp 0x5000 0x8000 x"
  have proc: "processes ?s3 = sleep_entries(0x5000 := (sleep_entries 0x5000)\<lparr>pe_process := (pe_process (sleep_entries 0x5000))\<lparr>p_esp := 0x8000\<rparr>\<rparr>)"
    "first_process ?s3 = 0x5000"
    by (simp_all add: set_esp_def sleep_demo_facts)
  let ?b = "sleep_entries(0x5000 := (sleep_entries 0x5000)\<lparr>pe_process := (pe_process (sleep_entries 0x5000))\<lparr>p_esp := 0x8000\<rparr>\<rparr>)"
  have b: "p_state (pe_process (?b 0x6000)) = 3" "p_state (pe_process (?b 0x5000)) = 1" "id_of ?b 0x1010 = 5" "id_of ?b 0x6000 = 8" "id_of ?b 0x5000 = 6"
    "pe_next (?b 0x5000) = 0x6000" "pe_next (?b 0x6000) = 0x1010" "pe_next (?b 0x1010) = 0x5000" "p_page_table (pe_process (?b 0x1010)) = 0x100000"
    "p_stdout (pe_process (?b x)) = 0" "p_stdin (pe_process (?b x)) = 0" "p_stderr (pe_process (?b x)) = 0" 
    "p_wake_time (pe_process (?b x)) = \<lparr>seconds = 3, millisecond = 500\<rparr>" "p_id (pe_process (?b 0x1010)) = 5" for x
    by (simp_all add: sleep_entries_def demo_entry_def id_of_def)
  have found: "find_in_ring ?b 0x5000 5 0x5000 = Some (Some 0x1010)"
    using b by (simp add: find_in_ring.simps [of _ _ _ "0x5000"] find_in_ring.simps [of _ _ _ "0x6000"] find_in_ring.simps [of _ _ _ "0x1010"] del: fun_upd_apply)
  let ?s5 = "?s4\<lparr>current_process := 0x5000\<rparr>"
  have m5: "mem ?s5 = mem sleep_demo" by (simp add: set_esp_def)
  have p5: "processes ?s5 = ?b" "first_process ?s5 = 0x5000" using proc by simp_all
  have "\<exists>s6. remove_process 5 ?s5 = Some s6"
  proof (rule remove_process_returns)
    show "find_in_ring (processes ?s5) (first_process ?s5) 5 (first_process ?s5) = Some (Some 0x1010)" unfolding p5 by (rule found)
    show "free t 0x1010 \<noteq> None" if "mem t = mem ?s5" for t :: kernel_state using that m5 fr by simp
  qed (simp_all only: p5 b)
  then obtain s6 where s6: "remove_process 5 ?s5 = Some s6" by blast
  have "processes s6 = unlink_entry 0x1010 ?b" using removed_entry [OF _ s6] found p5 by simp
  then have run: "p_state (proc s6 0x5000) = PROCESS_RUNNING" using b(2) by (simp add: unlink_entry_process)
  have "reap 0x1010 ?s4 = Some (s6, 0x5000)"
    using table s6 b proc by (simp add: reap_def get_next_process_def Let_def del: fun_upd_apply)
  then have "sched_loop 0x6000 ?s3 = Some (s6, 0x5000)"
    using run b proc by (subst sched_loop.simps, subst sched_loop.simps)
      (simp add: sched_step_def get_next_process_def Let_def wake_due_def advance_time_def time_set_esp sleep_demo_facts del: fun_upd_apply)
  then show ?thesis
    by (simp add: irq0_timer_c_def get_current_process_def get_next_process_def Let_def sleep_demo_facts sleep_entries_def demo_entry_def)
qed


end
