(* ===== verification/Print.thy ===== *)
theory Print
  imports Scheduler Numerals
begin

text \<open>
  \<open>kernel/print.c\<close>: the kernel's formatted output, through the open file \<open>tty\<close>. A character is
  written from its place on the stack, \<open>stk\<close>; the calls below use the stack under it. A format is
  the list of its characters; the variadic arguments are a list, of which the code takes the next
  one without knowing how many there are (\<open>None\<close>: it takes one that is not there). Negating the
  smallest integer wraps around, as the compiler's code does.
\<close>

record console_state = kernel_state +
  print_tty :: ptr

definition set_print_output :: "device \<Rightarrow> ptr \<Rightarrow> ptr \<Rightarrow> 'a console_state_scheme \<Rightarrow> 'a console_state_scheme option" where
  "set_print_output dev stk path s = do {
     s1 \<leftarrow> (if print_tty s \<noteq> NULL then vfs_close_file s (print_tty s) else Some s);
     (s2, f) \<leftarrow> vfs_open_file dev stk path s1;
     Some (s2\<lparr>print_tty := f\<rparr>) }"

definition pprint_char :: "device \<Rightarrow> ptr \<Rightarrow> u8 \<Rightarrow> 'a console_state_scheme \<Rightarrow> 'a console_state_scheme option" where
  "pprint_char dev stk c s =
     map_option fst (vfs_write dev (stk - 0x4000) (s\<lparr>mem := (mem s)(stk := c)\<rparr>) (print_tty s) stk 1)"

definition pprint_string :: "device \<Rightarrow> ptr \<Rightarrow> ptr \<Rightarrow> 'a console_state_scheme \<Rightarrow> 'a console_state_scheme option" where
  "pprint_string dev stk str s = do {
     len \<leftarrow> strlen (mem s) str;
     map_option fst (vfs_write dev (stk - 0x4000) s (print_tty s) str len) }"

text \<open>The characters of a buffer that are printed in reverse.\<close>

fun pprint_chars :: "device \<Rightarrow> ptr \<Rightarrow> u8 list \<Rightarrow> 'a console_state_scheme \<Rightarrow> 'a console_state_scheme option" where
  "pprint_chars dev stk [] s = Some s"
| "pprint_chars dev stk (c # cs) s = Option.bind (pprint_char dev stk c s) (pprint_chars dev stk cs)"

text \<open>The buffer filled by \<open>while (num > 0)\<close>, lowest digit first.\<close>

function int_digits :: "u32 \<Rightarrow> u8 list" where
  "int_digits num = (if sint num \<le> 0 then [] else (48 + ucast (num mod 10)) # int_digits (num div 10))"
  by pat_completeness auto

termination int_digits
proof (relation "measure unat")
  fix num :: u32
  assume "\<not> sint num \<le> 0"
  then have "num \<noteq> 0" by auto
  then have "0 < unat num" by (simp add: unat_gt_0)
  then show "(num div 10, num) \<in> measure unat" by (simp add: unat_div)
qed simp

definition print_int :: "device \<Rightarrow> ptr \<Rightarrow> u32 \<Rightarrow> 'a console_state_scheme \<Rightarrow> 'a console_state_scheme option" where
  "print_int dev stk num s =
     (if num = 0 then pprint_char dev stk (of_char CHR ''0'') s
      else if sint num < 0 then do {
        s1 \<leftarrow> pprint_char dev stk (of_char CHR ''-'') s;
        pprint_chars dev stk (rev (int_digits (- num))) s1 }
      else pprint_chars dev stk (rev (int_digits num)) s)"

definition hex_char :: "u32 \<Rightarrow> u8" where
  "hex_char d = of_char (''0123456789ABCDEF'' ! unat d)"

function hex_digits :: "u32 \<Rightarrow> u8 list" where
  "hex_digits num = (if num = 0 then [] else hex_char (num AND 0xF) # hex_digits (drop_bit 4 num))"
  by pat_completeness auto

termination hex_digits
proof (relation "measure unat")
  fix num :: u32
  assume "num \<noteq> 0"
  then have "0 < unat num" by (simp add: unat_gt_0)
  then show "(drop_bit 4 num, num) \<in> measure unat" by (simp add: drop_bit_eq_div unat_div)
qed simp

definition print_hex :: "device \<Rightarrow> ptr \<Rightarrow> u32 \<Rightarrow> 'a console_state_scheme \<Rightarrow> 'a console_state_scheme option" where
  "print_hex dev stk num s =
     (if num = 0 then pprint_char dev stk (of_char CHR ''0'') s
      else pprint_chars dev stk (rev (hex_digits num)) s)"

text \<open>The loop over the format. After \<open>%\<close> at the end of the format the code prints the percent sign and
  the terminating NUL, and goes on behind it: \<open>None\<close>.\<close>

definition next_arg :: "u32 list \<Rightarrow> (u32 \<times> u32 list) option" where
  "next_arg args = (case args of [] \<Rightarrow> None | a # as \<Rightarrow> Some (a, as))"

definition print_spec ::
  "device \<Rightarrow> ptr \<Rightarrow> char \<Rightarrow> u32 list \<Rightarrow> 'a console_state_scheme \<Rightarrow> ('a console_state_scheme \<times> u32 list) option" where
  "print_spec dev stk c args s =
     (if c = CHR ''s'' then do { (a, as) \<leftarrow> next_arg args; s1 \<leftarrow> pprint_string dev stk a s; Some (s1, as) }
      else if c = CHR ''c'' then do { (a, as) \<leftarrow> next_arg args; s1 \<leftarrow> pprint_char dev stk (ucast a) s; Some (s1, as) }
      else if c = CHR ''d'' then do { (a, as) \<leftarrow> next_arg args; s1 \<leftarrow> print_int dev stk a s; Some (s1, as) }
      else if c = CHR ''x'' then do { (a, as) \<leftarrow> next_arg args; s1 \<leftarrow> print_hex dev stk a s; Some (s1, as) }
      else if c = CHR ''%'' then do { s1 \<leftarrow> pprint_char dev stk (of_char CHR ''%'') s; Some (s1, args) }
      else do {
        s1 \<leftarrow> pprint_char dev stk (of_char CHR ''%'') s;
        s2 \<leftarrow> pprint_char dev stk (of_char c) s1;
        Some (s2, args) })"

fun printf_loop :: "device \<Rightarrow> ptr \<Rightarrow> string \<Rightarrow> u32 list \<Rightarrow> 'a console_state_scheme \<Rightarrow> 'a console_state_scheme option" where
  "printf_loop dev stk [] args s = Some s"
| "printf_loop dev stk (p # ps) args s =
     (if p = CHR ''%'' then
        (case ps of
           [] \<Rightarrow> None
         | c # cs \<Rightarrow> (case print_spec dev stk c args s of None \<Rightarrow> None
                     | Some (s1, args1) \<Rightarrow> printf_loop dev stk cs args1 s1))
      else (case pprint_char dev stk (of_char p) s of None \<Rightarrow> None
            | Some s1 \<Rightarrow> printf_loop dev stk ps args s1))"

definition printf :: "device \<Rightarrow> ptr \<Rightarrow> string \<Rightarrow> u32 list \<Rightarrow> 'a console_state_scheme \<Rightarrow> 'a console_state_scheme option" where
  "printf dev stk fmt args s = (if print_tty s = NULL then Some s else printf_loop dev stk fmt args s)"

section \<open>Numbers\<close>

declare int_digits.simps [simp del] hex_digits.simps [simp del]

definition hexadecimal :: "nat \<Rightarrow> u8 list" where
  "hexadecimal n = numeral_of 16 (\<lambda>d. hex_char (of_nat d)) n"

lemma int_digits_decimal:
  "0 < unat num \<Longrightarrow> unat num < 2 ^ 31 \<Longrightarrow> rev (int_digits num) = decimal (unat num)"
proof (induction num rule: int_digits.induct)
  case (1 num)
  have s: "\<not> sint num \<le> 0" using sint_small [OF 1(3)] 1(2) by linarith
  have digit: "48 + ucast (num mod 10) = (48 + of_nat (unat num mod 10) :: u8)"
    using of_nat_unat [of "num mod 10", where 'a = u8] by (simp add: unat_mod)
  show ?case
  proof (cases "unat num < 10")
    case True
    then have "num div 10 = 0" by (simp add: word_unat_eq_iff unat_div)
    then show ?thesis using s digit True
      by (simp add: int_digits.simps [of num] int_digits.simps [of 0] decimal_def numeral_of.simps [of _ _ "unat num"])
  next
    case False
    then have u: "0 < unat (num div 10)" "unat (num div 10) < 2 ^ 31" using 1(3) by (simp_all add: unat_div)
    have "rev (int_digits (num div 10)) = decimal (unat num div 10)" using 1(1) [OF s u] by (simp add: unat_div)
    then show ?thesis using s digit False
      by (subst int_digits.simps) (simp add: decimal_def numeral_of.simps [of _ _ "unat num"])
  qed
qed

lemma hex_digits_hexadecimal: "0 < unat num \<Longrightarrow> rev (hex_digits num) = hexadecimal (unat num)"
proof (induction num rule: hex_digits.induct)
  case (1 num)
  have s: "num \<noteq> 0" using 1(2) by auto
  have "num AND 0xF = of_nat (unat num mod 16)"
  proof -
    have eq: "num AND 0xF = take_bit 4 num" by (simp add: take_bit_eq_mask mask_eq_exp_minus_1)
    have "unat (num AND 0xF) = unat num mod 16" unfolding eq unsigned_take_bit_eq by (simp add: take_bit_eq_mod)
    then show ?thesis by (rule unat_eqD)
  qed
  then have digit: "hex_char (num AND 0xF) = hex_char (of_nat (unat num mod 16))" by simp
  have d: "unat (drop_bit 4 num) = unat num div 16" by (simp add: drop_bit_eq_div unat_div)
  show ?case
  proof (cases "unat num < 16")
    case True
    then have "drop_bit 4 num = 0" using d by (simp add: word_unat_eq_iff)
    then show ?thesis using s digit True
      by (simp add: hex_digits.simps [of num] hex_digits.simps [of 0] hexadecimal_def numeral_of.simps [of _ _ "unat num"])
  next
    case False
    then have u: "0 < unat (drop_bit 4 num)" using d by simp
    have "rev (hex_digits (drop_bit 4 num)) = hexadecimal (unat num div 16)" using 1(1) [OF s u] d by simp
    then show ?thesis using s digit False
      by (subst hex_digits.simps) (simp add: hexadecimal_def numeral_of.simps [of _ _ "unat num"])
  qed
qed

text \<open>On the terminal, characters go to the screen.\<close>

lemma newline_mem: "newline (s\<lparr>mem := m\<rparr>) = (newline s)\<lparr>mem := m\<rparr>"
  by (simp add: newline_def Let_def)

lemma put_cell_mem: "put_cell c (s\<lparr>mem := m\<rparr>) = (put_cell c s)\<lparr>mem := m\<rparr>"
  by (simp add: put_cell_def newline_def Let_def)

lemma put_cells_mem: "fold put_cell cs (s\<lparr>mem := m\<rparr>) = (fold put_cell cs s)\<lparr>mem := m\<rparr>"
  by (induction cs arbitrary: s) (simp_all add: put_cell_mem)

lemma print_char_mem: "print_char c (s\<lparr>mem := m\<rparr>) = (print_char c s)\<lparr>mem := m\<rparr>"
  by (simp add: print_char_def newline_mem put_cell_mem put_cells_mem del: fold_replicate)

lemma print_chars_mem: "fold print_char cs (s\<lparr>mem := m\<rparr>) = (fold print_char cs s)\<lparr>mem := m\<rparr>"
  by (induction cs arbitrary: s) (simp_all add: print_char_mem)

text \<open>Printing does not change which file is the terminal.\<close>

definition on_terminal :: "'a console_state_scheme \<Rightarrow> bool" where
  "on_terminal s \<longleftrightarrow> fops_of s (print_tty s) = Tty_Ops"

lemma newline_terminal: "on_terminal (newline s) = on_terminal s"
  by (simp add: newline_def Let_def on_terminal_def fops_of_def)

lemma put_cell_terminal: "on_terminal (put_cell c s) = on_terminal s"
  by (simp add: put_cell_def Let_def newline_terminal) (simp add: on_terminal_def fops_of_def)

lemma put_cells_terminal: "on_terminal (fold put_cell cs s) = on_terminal s"
  by (induction cs arbitrary: s) (simp_all add: put_cell_terminal)

lemma print_char_terminal: "on_terminal (print_char c s) = on_terminal s"
  by (simp add: print_char_def newline_terminal put_cell_terminal put_cells_terminal del: fold_replicate)
    (simp add: on_terminal_def fops_of_def)

lemma mem_terminal [simp]: "on_terminal (s\<lparr>mem := m\<rparr>) = on_terminal s"
  by (simp add: on_terminal_def fops_of_def)

lemma pprint_char_terminal:
  "on_terminal s \<Longrightarrow> pprint_char dev stk c s = Some ((print_char c s)\<lparr>mem := (mem s)(stk := c)\<rparr>)"
  by (simp add: pprint_char_def vfs_write_def dev_write_def tty_write_def on_terminal_def fops_of_def print_char_mem)

lemma pprint_chars_terminal:
  "on_terminal s \<Longrightarrow> \<exists>m. pprint_chars dev stk cs s = Some ((fold print_char cs s)\<lparr>mem := m\<rparr>)"
proof (induction cs arbitrary: s)
  case Nil
  then show ?case by (intro exI [of _ "mem s"]) simp
next
  case (Cons c cs)
  let ?s1 = "(print_char c s)\<lparr>mem := (mem s)(stk := c)\<rparr>"
  have "on_terminal ?s1" using Cons.prems by (simp add: print_char_terminal)
  from Cons.IH [OF this] show ?case by (simp add: pprint_char_terminal [OF Cons.prems] print_chars_mem)
qed

text \<open>C33: \<open>print_int\<close> puts the decimal numeral of its argument on the terminal, with a minus sign before
  a negative one, and \<open>print_hex\<close> the hexadecimal numeral; but for the smallest integer, which has no
  negation, there is the sign and no digit.\<close>

theorem print_numbers:
  assumes "fops_of s (print_tty s) = Tty_Ops"
  shows "(\<exists>m. print_int dev stk num s = Some ((fold print_char
      (if num = 0x80000000 then [of_char CHR ''-'']
       else if sint num < 0 then of_char CHR ''-'' # decimal (nat (- sint num)) else decimal (nat (sint num))) s)\<lparr>mem := m\<rparr>)) \<and>
    (\<exists>m. print_hex dev stk num s = Some ((fold print_char (hexadecimal (unat num)) s)\<lparr>mem := m\<rparr>))"
proof
  have tm: "on_terminal s" using assms by (simp add: on_terminal_def)
  note chars = pprint_chars_terminal [OF this] and char = pprint_char_terminal [OF this]
  show "\<exists>m. print_hex dev stk num s = Some ((fold print_char (hexadecimal (unat num)) s)\<lparr>mem := m\<rparr>)"
  proof (cases "num = 0")
    case True
    then have "hexadecimal (unat num) = [of_char CHR ''0'']" by (simp add: hexadecimal_def numeral_of.simps hex_char_def)
    then show ?thesis using True char by (auto simp: print_hex_def)
  next
    case False
    then have "0 < unat num" by (simp add: unat_gt_0)
    then show ?thesis using False chars [of dev stk "rev (hex_digits num)"] by (simp add: print_hex_def hex_digits_hexadecimal)
  qed
  consider "num = 0" | "num \<noteq> 0" "unat num < 2 ^ 31" | "2 ^ 31 < unat num" | "unat num = 2 ^ 31" by fastforce
  then show "\<exists>m. print_int dev stk num s = Some ((fold print_char
      (if num = 0x80000000 then [of_char CHR ''-'']
       else if sint num < 0 then of_char CHR ''-'' # decimal (nat (- sint num)) else decimal (nat (sint num))) s)\<lparr>mem := m\<rparr>)"
  proof cases
    case 1
    then have "decimal (nat (sint num)) = [of_char CHR ''0'']" by (simp add: decimal_def numeral_of.simps)
    then show ?thesis using 1 char by (auto simp: print_int_def)
  next
    case 2
    have sg: "sint num = int (unat num)" using 2(2) by (rule sint_small)
    have ne: "num \<noteq> 0x80000000" using 2(2) by auto
    have "0 < unat num" using 2(1) by (simp add: unat_gt_0)
    then have "rev (int_digits num) = decimal (nat (sint num))" using int_digits_decimal [OF _ 2(2)] sg by simp
    then show ?thesis using 2(1) chars [of dev stk "rev (int_digits num)"] sg ne by (simp add: print_int_def)
  next
    case 3
    have sg: "sint num = int (unat num) - 4294967296" using 3 by (simp add: sint_u32)
    have neg: "sint num < 0" unfolding sg using unat_u32_less [of num] by linarith
    have ne: "num \<noteq> 0" "num \<noteq> 0x80000000" using 3 by auto
    have u: "unat (- num) = 4294967296 - unat num" using 3 unat_sub_if' [of 0 num] by simp
    moreover have "nat (- sint num) = 4294967296 - unat num" unfolding sg by linarith
    moreover have "0 < unat (- num)" "unat (- num) < 2 ^ 31" unfolding u using 3 unat_u32_less [of num] by simp_all
    ultimately have "rev (int_digits (- num)) = decimal (nat (- sint num))" using int_digits_decimal by simp
    moreover have "on_terminal ((print_char (of_char CHR ''-'') s)\<lparr>mem := (mem s)(stk := of_char CHR ''-'')\<rparr>)"
      using tm by (simp add: print_char_terminal)
    from pprint_chars_terminal [OF this, of dev stk "rev (int_digits (- num))"]
    have "\<exists>m. pprint_chars dev stk (rev (int_digits (- num))) ((print_char (of_char CHR ''-'') s)\<lparr>mem := (mem s)(stk := of_char CHR ''-'')\<rparr>) =
        Some ((fold print_char (rev (int_digits (- num))) (print_char (of_char CHR ''-'') s))\<lparr>mem := m\<rparr>)"
      by (simp add: print_chars_mem)
    ultimately show ?thesis using neg ne char by (simp add: print_int_def)
  next
    case 4
    then have num: "num = 0x80000000" by (simp add: word_unat_eq_iff)
    have sg: "sint num < 0" using 4 by (simp add: sint_u32)
    have "int_digits (- num) = []" unfolding num by (subst int_digits.simps) (simp add: sint_u32)
    then show ?thesis using num sg char by (auto simp: print_int_def)
  qed
qed

definition console_demo :: console_state where
  "console_demo = kernel_state.extend
     ((kernel_demo (proc_demo (\<lambda>_. demo_entry 0 0 0 0) []) NULL)\<lparr>inode_tab := (\<lambda>_. \<lparr>in_type = 3, in_size = 0,
        file_operations = Tty_Ops, in_private_data = 0, number_of_references = 1\<rparr>)\<rparr>)
     (console_state.fields 0x600)"

theorem print_numbers_witness:
  "\<exists>m. print_int (sim_drive (\<lambda>_. [])) 0x9000 (- 45) console_demo =
     Some ((fold print_char (map of_char ''-45'') console_demo)\<lparr>mem := m\<rparr>)"
proof -
  have t: "fops_of console_demo (print_tty console_demo) = Tty_Ops"
    by (simp add: console_demo_def kernel_state.defs console_state.defs fops_of_def)
  have "sint (- 45 :: u32) = - 45" by (simp add: sint_u32)
  moreover have "decimal 45 = map of_char ''45''" by (simp add: decimal_def numeral_of.simps)
  ultimately show ?thesis using print_numbers [OF t, of "sim_drive (\<lambda>_. [])" "0x9000" "- 45"] by simp
qed

end
