(* ===== verification/Boot.thy ===== *)
theory Boot
  imports Print
begin

text \<open>
  \<open>kernel/main.c\<close>, \<open>idt.c\<close>, \<open>exit.c\<close>, \<open>trace.c\<close>, \<open>interrupts/error_handlers.c\<close> and
  \<open>set_input_kdb_dev\<close> of \<open>keyboard/input.c\<close>: the start of the kernel, which composes all components,
  and its end. The addresses the linker chooses are parameters: \<open>addr\<close> of the handlers, \<open>tss\<close> of the
  task state segment and \<open>lit\<close> of the string literals. What the CPU does with the tables (\<open>lidt\<close>,
  \<open>lgdt\<close>, \<open>ltr\<close>, SSE, interrupts on and off) is not modelled; nor is the translation of addresses by
  the loaded page table: all accesses are to the flat byte memory. An infinite loop at the end of a
  function is its final state.
\<close>

section \<open>Descriptor tables\<close>

record IDTEntry =
  offset_low :: u16
  selector :: u16
  zero :: u8
  type_attr :: u8
  offset_high :: u16

record TSS_descriptor =
  limit_low16 :: u16
  base_low16 :: u16
  base_mid8 :: u8
  tss_type_attr :: u8
  limit_high4_attr :: u8
  base_high8 :: u8

record boot_state = console_state +
  idt_entries :: "nat \<Rightarrow> IDTEntry option"
  gdt_tss :: "TSS_descriptor option"
  tss_esp0 :: u32
  tss_ss0 :: u32
  tss_io_bitmap_base :: u32
  kdb :: ptr

definition make_idt_entry :: "u32 \<Rightarrow> u16 \<Rightarrow> u8 \<Rightarrow> IDTEntry" where
  "make_idt_entry offset sel attr =
     \<lparr>offset_low = ucast offset AND 0xFFFF, selector = sel, zero = 0, type_attr = 0x80 OR attr,
      offset_high = ucast (drop_bit 16 offset)\<rparr>"

text \<open>The entries that \<open>kernel_entry\<close> fills, in its order, with the name of the handler.\<close>

definition idt_handlers :: "(nat \<times> string) list" where
  "idt_handlers =
     [(0, ''divide_by_zero''), (1, ''debug''), (2, ''non_maskable_interrupt''), (3, ''breakpoint''), (4, ''overflow''),
      (5, ''bound_range''), (6, ''invalid_opcode''), (7, ''device_not_available''), (8, ''double_fault''),
      (10, ''invalid_tss''), (11, ''segment_not_present''), (12, ''stack''), (13, ''general_protection''),
      (14, ''page_fault''), (16, ''x87_floating_point''), (17, ''alignment_check''), (18, ''machine_check''),
      (19, ''SIMD_floating_point''), (21, ''control_protection''), (28, ''hypervisor_injection''),
      (29, ''VMM_communication''), (30, ''security_exception''),
      (32, ''irq0_timer''), (33, ''irq1_keyboard''), (39, ''irq7_15_spurious''), (47, ''irq7_15_spurious''),
      (0x40, ''syscall'')]"

definition fill_idt :: "(string \<Rightarrow> u32) \<Rightarrow> (nat \<Rightarrow> IDTEntry option) \<Rightarrow> nat \<Rightarrow> IDTEntry option" where
  "fill_idt addr t = fold (\<lambda>(i, h) t. t(i := Some (make_idt_entry (addr h) 0x8 0xE))) idt_handlers t"

abbreviation (input) "sizeof_TSS \<equiv> 108 :: u32"

definition tss_descriptor :: "u32 \<Rightarrow> TSS_descriptor" where
  "tss_descriptor tss =
     \<lparr>limit_low16 = ucast (sizeof_TSS - 1), base_low16 = ucast (tss AND 0xFFFF),
      base_mid8 = ucast (drop_bit 16 tss AND 0xFF), tss_type_attr = 0x89,
      limit_high4_attr = ucast (drop_bit 16 sizeof_TSS AND 0xF), base_high8 = ucast (drop_bit 24 tss AND 0xFF)\<rparr>"

text \<open>The interrupt controllers and the timer: the ports and values in order; \<open>io_wait\<close> writes port 0x80.\<close>

definition pic_init :: "(u16 \<times> u8) list" where
  "pic_init =
     [(0x20, 0x11), (0x80, 0), (0xA0, 0x11), (0x80, 0), (0x21, 32), (0x80, 0), (0xA1, 40), (0x80, 0),
      (0x21, 4), (0x80, 0), (0xA1, 2), (0x80, 0), (0x21, 1), (0x80, 0), (0xA1, 1), (0x80, 0),
      (0x21, 0x7C), (0xA1, 0x7F)]"

definition TIMER_DIVISOR :: u32 where
  "TIMER_DIVISOR = 1193182 div 100"

definition pit_init :: "(u16 \<times> u8) list" where
  "pit_init = (let divisor = ucast TIMER_DIVISOR :: u16 in
     [(0x43, 0x36), (0x40, ucast (divisor AND 0xFF)), (0x40, ucast (drop_bit 8 divisor AND 0xFF))])"

definition out_all :: "(u16 \<times> u8) list \<Rightarrow> 'a io_state_scheme \<Rightarrow> 'a io_state_scheme" where
  "out_all ps s = fold (\<lambda>(p, v). outb p v) ps s"

definition init_tables :: "(string \<Rightarrow> u32) \<Rightarrow> u32 \<Rightarrow> 'a boot_state_scheme \<Rightarrow> 'a boot_state_scheme" where
  "init_tables addr tss s =
     out_all pit_init (out_all pic_init (s\<lparr>idt_entries := fill_idt addr (idt_entries s), tss_esp0 := 0x80000, tss_ss0 := 0x10,
       tss_io_bitmap_base := sizeof_TSS, gdt_tss := Some (tss_descriptor tss)\<rparr>))"

section \<open>The end\<close>

text \<open>\<open>memcpy((void*)0xb8000, str, strlen(str))\<close>: bytes into the cells of the screen.\<close>

definition put_screen_byte :: "nat \<Rightarrow> u8 \<Rightarrow> (nat \<Rightarrow> u16) \<Rightarrow> nat \<Rightarrow> u16" where
  "put_screen_byte i c tb = tb(i div 2 :=
     (if even i then (tb (i div 2) AND 0xFF00) OR ucast c else (tb (i div 2) AND 0xFF) OR push_bit 8 (ucast c)))"

definition emergency_print :: "string \<Rightarrow> 'a tty_state_scheme \<Rightarrow> 'a tty_state_scheme" where
  "emergency_print str s =
     s\<lparr>text_buffer := fold (\<lambda>i. put_screen_byte i (of_char (str ! i))) [0..<length str] (text_buffer s)\<rparr>"

partial_function (option) trace_loop :: "device \<Rightarrow> ptr \<Rightarrow> ptr \<Rightarrow> 'a console_state_scheme \<Rightarrow> 'a console_state_scheme option" where
  "trace_loop dev stk ebp s =
     (if ebp < 0x90000 then
        (case printf dev stk ''[0x%x]\<newline>'' [load32 (mem s) (ebp + 4)] s of None \<Rightarrow> None
         | Some s1 \<Rightarrow> trace_loop dev stk (load32 (mem s1) ebp) s1)
      else Some s)"

definition run_stack_trace :: "device \<Rightarrow> ptr \<Rightarrow> ptr \<Rightarrow> 'a console_state_scheme \<Rightarrow> 'a console_state_scheme option" where
  "run_stack_trace dev stk ebp s = do {
     s1 \<leftarrow> printf dev stk ''Running stack trace\<newline>'' [] s;
     trace_loop dev stk ebp s1 }"

text \<open>The loop that copies the log to the terminal, 1024 bytes at a time through the buffer at \<open>buf\<close>.\<close>

partial_function (option) copy_log ::
  "device \<Rightarrow> ptr \<Rightarrow> ptr \<Rightarrow> ptr \<Rightarrow> ptr \<Rightarrow> 'a vfs_state_scheme \<Rightarrow> 'a vfs_state_scheme option" where
  "copy_log dev stk buf log tty s =
     (case vfs_read dev stk s log buf 1024 of None \<Rightarrow> None
      | Some (s1, n) \<Rightarrow>
          if n = 0 then Some s1
          else (case vfs_write dev stk s1 tty buf n of None \<Rightarrow> None
                | Some (s2, _) \<Rightarrow> copy_log dev stk buf log tty s2))"

definition exit_kernel ::
  "device \<Rightarrow> ptr \<Rightarrow> (string \<Rightarrow> ptr) \<Rightarrow> ptr \<Rightarrow> 'a console_state_scheme \<Rightarrow> 'a console_state_scheme option" where
  "exit_kernel dev stk lit ebp s = do {
     (s1, tty) \<leftarrow> vfs_open_file dev stk (lit ''/dev/tty'') s;
     if tty = NULL then Some (emergency_print ''Could not open tty at /dev/tty'' s1) else do {
     (s2, log) \<leftarrow> vfs_open_file dev stk (lit ''/sys/kernel.log'') s1;
     if log = NULL then Some (emergency_print ''Could not open log file at /sys/kernel.log'' s2) else do {
     s3 \<leftarrow> set_print_output dev stk (lit ''/dev/tty'') s2;
     s4 \<leftarrow> copy_log dev (stk - 0x4000) stk log tty s3;
     let tail = ''\<newline>tail of /sys/kernel.log\<newline>exited kernel\<newline>'';
     (s5, _) \<leftarrow> vfs_write dev stk s4 tty (lit tail) (of_nat (length tail));
     run_stack_trace dev stk ebp s5 } } }"

text \<open>The handlers of the CPU's exceptions: all but \<open>debug\<close> print their message and stop the kernel.\<close>

definition fatal_messages :: "(string \<times> string) list" where
  "fatal_messages =
     [(''divide_by_zero'', ''divide_by_zero error @ %x\<newline>''),
      (''non_maskable_interrupt'', ''non_maskable_interrupt error @ %x\<newline>''),
      (''breakpoint'', ''breakpoint error @ %x\<newline>''), (''overflow'', ''overflow error @ %x\<newline>''),
      (''bound_range'', ''bound_range error @ %x\<newline>''), (''invalid_opcode'', ''invalid_opcode error @ %x @ ''),
      (''device_not_available'', ''device_not_available error @ %x\<newline>''),
      (''double_fault'', ''double_fault error @ %x\<newline>''), (''invalid_tss'', ''invalid_tss error @ %x\<newline>''),
      (''segment_not_present'', ''segment_not_present error @ %x\<newline>''), (''stack'', ''stack error @ %x\<newline>''),
      (''general_protection'', ''general_protection error @ %x\<newline>''), (''page_fault'', ''page_fault error @ %x\<newline>''),
      (''x87_floating_point'', ''x87_floating_point error @ %x\<newline>''),
      (''alignment_check'', ''alignment_check error @ %x\<newline>''), (''machine_check'', ''machine_check error @ %x\<newline>''),
      (''SIMD_floating_point'', ''SIMD_floating_point error @ %x\<newline>''),
      (''control_protection'', ''control_protection error @ %x\<newline>''),
      (''hypervisor_injection'', ''hypervisor_injection error @ %x\<newline>''),
      (''VMM_communication'', ''VMM_communication error @ %x\<newline>''),
      (''security_exception'', ''security_exception error @ %x\<newline>'')]"

definition error_handler ::
  "device \<Rightarrow> ptr \<Rightarrow> (string \<Rightarrow> ptr) \<Rightarrow> ptr \<Rightarrow> string \<Rightarrow> interrupt_frame \<Rightarrow> 'a console_state_scheme \<Rightarrow> 'a console_state_scheme option" where
  "error_handler dev stk lit ebp h frame s = (case map_of fatal_messages h of
     None \<Rightarrow> Some s
   | Some msg \<Rightarrow> do { s1 \<leftarrow> printf dev stk msg [if_eip frame] s; exit_kernel dev stk lit ebp s1 })"

section \<open>The start\<close>

definition set_input_kdb_dev :: "device \<Rightarrow> ptr \<Rightarrow> ptr \<Rightarrow> 'a boot_state_scheme \<Rightarrow> 'a boot_state_scheme option" where
  "set_input_kdb_dev dev stk path s = do {
     s1 \<leftarrow> (if kdb s \<noteq> NULL then vfs_close_file s (kdb s) else Some s);
     (s2, f) \<leftarrow> vfs_open_file dev stk path s1;
     Some (s2\<lparr>kdb := f\<rparr>) }"

text \<open>The log file, opened, or created and opened; \<open>NULL\<close> when neither works.\<close>

definition open_log :: "device \<Rightarrow> ptr \<Rightarrow> (string \<Rightarrow> ptr) \<Rightarrow> 'a console_state_scheme \<Rightarrow> ('a console_state_scheme \<times> ptr) option" where
  "open_log dev stk lit s = do {
     (s1, log) \<leftarrow> vfs_open_file dev stk (lit ''/sys/kernel.log'') s;
     if log \<noteq> NULL then Some (s1, log) else do {
     (s2, r) \<leftarrow> vfs_create_regular_file dev stk (lit ''/sys/kernel.log'') s1;
     if r \<noteq> 0 then do { s3 \<leftarrow> printf dev stk ''Unable to create log file /sys/kernel.log\<newline>'' [] s2; Some (s3, NULL) } else do {
     (s3, log') \<leftarrow> vfs_open_file dev stk (lit ''/sys/kernel.log'') s2;
     if log' \<noteq> NULL then Some (s3, log')
     else do { s4 \<leftarrow> printf dev stk ''Unable to open log file /sys/kernel.log\<newline>'' [] s3; Some (s4, NULL) } } } }"

definition init_devices :: "device \<Rightarrow> ptr \<Rightarrow> (string \<Rightarrow> ptr) \<Rightarrow> 'a boot_state_scheme \<Rightarrow> ('a boot_state_scheme \<times> ptr) option" where
  "init_devices dev stk lit s = do {
     let s0 = init_heap s 0x210000 0x90000;
     (s1, _) \<leftarrow> vfs_init s0;
     (s2, _) \<leftarrow> vfs_create_device_file_no_checks (lit ''/dev/hdd'') Hdd_Ops VFS_BLOCK_DEVICE s1;
     s3 \<leftarrow> fs_set_harddrive dev stk (lit ''/dev/hdd'') s2;
     let s4 = vfs_set_driver Fs_Driver s3;
     (s5, _) \<leftarrow> vfs_create_device_file dev stk (lit ''/dev/tty'') Tty_Ops VFS_CHARACTER_DEVICE s4;
     s6 \<leftarrow> set_print_output dev stk (lit ''/dev/tty'') s5;
     open_log dev stk lit s6 }"

text \<open>\<open>while (vfs_read(file, buf, 1024)) buf += 1024;\<close>.\<close>

partial_function (option) load_app :: "device \<Rightarrow> ptr \<Rightarrow> ptr \<Rightarrow> ptr \<Rightarrow> 'a vfs_state_scheme \<Rightarrow> 'a vfs_state_scheme option" where
  "load_app dev stk f buf s =
     (case vfs_read dev stk s f buf 1024 of None \<Rightarrow> None
      | Some (s1, n) \<Rightarrow> if n = 0 then Some s1 else load_app dev stk f (buf + 1024) s1)"

abbreviation (input) "PAGE_GLOBAL \<equiv> 0x100 :: u32"

text \<open>The kernel's page table and the idle process.\<close>

definition init_paging :: "cpu_registers \<Rightarrow> (string \<Rightarrow> ptr) \<Rightarrow> 'a boot_state_scheme \<Rightarrow> ('a boot_state_scheme \<times> ptr) option" where
  "init_paging cpu lit s = do {
     s1 \<leftarrow> init_pager s;
     let (s2, table) = create_new_table s1;
     s3 \<leftarrow> map_pages (s2\<lparr>kernel_table := table\<rparr>) table PAGE_GLOBAL (0x400000 - PAGE_SIZE);
     let s4 = load_page_table s3 table;
     (s5, stack0) \<leftarrow> new_page s4 PAGER_ERROR table 0;
     (s6, p0) \<leftarrow> create_process cpu (lit ''dummy'') PROCESS_RUNNING NULL (stack0 + PAGE_SIZE - 16) (stack0 + PAGE_SIZE - 16)
                  table NULL NULL NULL s5;
     (s7, _) \<leftarrow> set_current_process (id_of (processes s6) p0) s6;
     Some (s7, p0) }"

text \<open>The first application; \<open>False\<close> when its file cannot be opened. \<open>ep\<close> is the local \<open>entry_point\<close>.\<close>

definition start_app ::
  "cpu_registers \<Rightarrow> device \<Rightarrow> ptr \<Rightarrow> (string \<Rightarrow> ptr) \<Rightarrow> 'a boot_state_scheme \<Rightarrow> ('a boot_state_scheme \<times> bool) option" where
  "start_app cpu dev stk lit s = do {
     let (s1, app) = soft_copy_table s (kernel_table s) 1;
     s2 \<leftarrow> map_pages (load_page_table s1 app) app PAGE_GLOBAL (0x1000000 - PAGE_SIZE);
     (s3, app_stack) \<leftarrow> new_page s2 PAGER_ERROR app 0;
     (s4, f) \<leftarrow> vfs_open_file dev stk (lit ''/apps/new_test.bin'') s3;
     if f = NULL then do { s5 \<leftarrow> printf dev stk ''Unable to open file\<newline>'' [] s4; Some (s5, False) } else do {
     s5 \<leftarrow> vfs_seek s4 f 4 VFS_BEG;
     s6 \<leftarrow> load_app dev stk f 0x400000 s5;
     s7 \<leftarrow> vfs_seek s6 f 0 VFS_BEG;
     (s8, _) \<leftarrow> vfs_read dev (stk - 0x4000) s7 f stk 4;
     let entry_point = load32 (mem s8) stk;
     s9 \<leftarrow> vfs_close_file s8 f;
     (s10, tty) \<leftarrow> vfs_open_file dev stk (lit ''/dev/tty'') s9;
     (s11, _) \<leftarrow> create_process cpu (lit ''new_test'') PROCESS_RUNNING entry_point (app_stack + PAGE_SIZE - 16)
                   (app_stack + PAGE_SIZE - 16) app tty tty tty s10;
     Some (load_page_table s11 (kernel_table s11), True) } }"

text \<open>\<open>main\<close>: \<open>True\<close> when it reaches its idle loop, \<open>False\<close> when it returns.\<close>

definition main_boot ::
  "cpu_registers \<Rightarrow> device \<Rightarrow> ptr \<Rightarrow> (string \<Rightarrow> ptr) \<Rightarrow> 'a boot_state_scheme \<Rightarrow> ('a boot_state_scheme \<times> bool) option" where
  "main_boot cpu dev stk lit s = do {
     (s1, log) \<leftarrow> init_devices dev stk lit s;
     if log = NULL then Some (s1, False) else do {
     s2 \<leftarrow> vfs_close_file s1 log;
     (s3, _) \<leftarrow> vfs_create_device_file dev stk (lit ''/dev/kdb'') Kbd_Ops VFS_BLOCK_DEVICE s2;
     s4 \<leftarrow> set_input_kdb_dev dev stk (lit ''/dev/kdb'') s3;
     (s5, p0) \<leftarrow> init_paging cpu lit s4;
     (s6, started) \<leftarrow> start_app cpu dev stk lit s5;
     if \<not> started then Some (s6, False) else do {
     s7 \<leftarrow> remove_process (id_of (processes s6) p0) s6;
     Some (s7, True) } } }"

definition kernel_entry ::
  "cpu_registers \<Rightarrow> device \<Rightarrow> ptr \<Rightarrow> (string \<Rightarrow> u32) \<Rightarrow> u32 \<Rightarrow> (string \<Rightarrow> ptr) \<Rightarrow> ptr \<Rightarrow> 'a boot_state_scheme \<Rightarrow>
   'a boot_state_scheme option" where
  "kernel_entry cpu dev stk addr tss lit ebp s = do {
     (s1, idle) \<leftarrow> main_boot cpu dev stk lit (init_tables addr tss s);
     if idle then Some s1 else exit_kernel dev stk lit ebp s1 }"

section \<open>Handlers\<close>

lemma idt_entry_address:
  "ucast (offset_low (make_idt_entry a sel attr)) OR push_bit 16 (ucast (offset_high (make_idt_entry a sel attr))) = a"
proof (rule bit_word_eqI)
  fix n assume n: "n < LENGTH(32)"
  have "(0xFFFF :: u16) = - 1" by simp
  then have "w AND 0xFFFF = w" for w :: u16 by (simp only: and.right_neutral)
  then have low: "offset_low (make_idt_entry a sel attr) = ucast a" by (simp add: make_idt_entry_def)
  show "bit (ucast (offset_low (make_idt_entry a sel attr)) OR push_bit 16 (ucast (offset_high (make_idt_entry a sel attr))) :: u32) n = bit a n"
    unfolding low using n by (cases "n < 16") (auto simp: make_idt_entry_def bit_or_iff bit_push_bit_iff bit_ucast_iff bit_drop_bit_eq)
qed

text \<open>Every exception with an entry in the table but \<open>debug\<close> has a message.\<close>

lemma exceptions_have_messages:
  "\<forall>(i, h) \<in> set idt_handlers. i < 32 \<and> h \<noteq> ''debug'' \<longrightarrow> map_of fatal_messages h \<noteq> None"
  by (simp add: idt_handlers_def fatal_messages_def)

end
