(* ===== verification/Estros.thy ===== *)
theory Estros
  imports Boot
begin

text \<open>
  The application's side of the system calls: the wrappers of \<open>lib/estros/include/estros/*.h\<close> and
  \<open>lib/goblibc/src/estros.c\<close>, and \<open>launch_file\<close> and \<open>virt_to_phys\<close> of \<open>lib/estros/src\<close>. A call goes
  through \<open>int 0x40\<close> to \<open>syscall_c\<close> with the registers a wrapper loads; the others keep what they
  held (\<open>regs\<close>). The places of local variables on the application's stack are parameters.
\<close>

section \<open>System calls\<close>

type_synonym 'a syscall = "registers \<Rightarrow> 'a \<Rightarrow> ('a \<times> registers) option"

definition int_0x40 :: "'a syscall \<Rightarrow> registers \<Rightarrow> (registers \<Rightarrow> u32) \<Rightarrow> 'a \<Rightarrow> ('a \<times> u32) option" where
  "int_0x40 call regs result s = map_option (\<lambda>(s1, r). (s1, result r)) (call regs s)"

definition open_file :: "'a syscall \<Rightarrow> registers \<Rightarrow> ptr \<Rightarrow> u32 \<Rightarrow> 'a \<Rightarrow> ('a \<times> ptr) option" where
  "open_file call regs p flags = int_0x40 call (regs\<lparr>r_eax := 0x02, r_ebx := p, r_ecx := flags\<rparr>) r_ebx"

definition close_file :: "'a syscall \<Rightarrow> registers \<Rightarrow> ptr \<Rightarrow> 'a \<Rightarrow> ('a \<times> u32) option" where
  "close_file call regs f = int_0x40 call (regs\<lparr>r_eax := 0x03, r_ebx := f\<rparr>) (\<lambda>_. 0)"

definition read_file :: "'a syscall \<Rightarrow> registers \<Rightarrow> ptr \<Rightarrow> ptr \<Rightarrow> u32 \<Rightarrow> 'a \<Rightarrow> ('a \<times> u32) option" where
  "read_file call regs f buffer buffer_size =
     int_0x40 call (regs\<lparr>r_eax := 0x04, r_ebx := f, r_ecx := buffer_size, r_edx := buffer\<rparr>) r_eax"

definition write_file :: "'a syscall \<Rightarrow> registers \<Rightarrow> ptr \<Rightarrow> ptr \<Rightarrow> u32 \<Rightarrow> 'a \<Rightarrow> ('a \<times> u32) option" where
  "write_file call regs f buffer buffer_size =
     int_0x40 call (regs\<lparr>r_eax := 0x05, r_ebx := f, r_ecx := buffer_size, r_edx := buffer\<rparr>) r_eax"

definition ioctl :: "'a syscall \<Rightarrow> registers \<Rightarrow> ptr \<Rightarrow> ptr \<Rightarrow> ptr \<Rightarrow> 'a \<Rightarrow> ('a \<times> u32) option" where
  "ioctl call regs f command arg =
     int_0x40 call (regs\<lparr>r_eax := 0x06, r_ebx := f, r_ecx := command, r_edx := arg\<rparr>) (\<lambda>_. 0)"

definition seek_file :: "'a syscall \<Rightarrow> registers \<Rightarrow> ptr \<Rightarrow> u32 \<Rightarrow> u32 \<Rightarrow> 'a \<Rightarrow> ('a \<times> u32) option" where
  "seek_file call regs f offset whence =
     int_0x40 call (regs\<lparr>r_eax := 0x07, r_ebx := f, r_ecx := offset, r_edx := whence\<rparr>) (\<lambda>_. 0)"

definition tell_file :: "'a syscall \<Rightarrow> registers \<Rightarrow> ptr \<Rightarrow> 'a \<Rightarrow> ('a \<times> u32) option" where
  "tell_file call regs f = int_0x40 call (regs\<lparr>r_eax := 0x08, r_ebx := f\<rparr>) r_ecx"

definition create_file :: "'a syscall \<Rightarrow> registers \<Rightarrow> ptr \<Rightarrow> 'a \<Rightarrow> ('a \<times> u32) option" where
  "create_file call regs p = int_0x40 call (regs\<lparr>r_eax := 0x09, r_ebx := p\<rparr>) r_eax"

definition sys_new_page :: "'a syscall \<Rightarrow> registers \<Rightarrow> u32 \<Rightarrow> ptr \<Rightarrow> 'a \<Rightarrow> ('a \<times> ptr) option" where
  "sys_new_page call regs physical_address pde_table =
     int_0x40 call (regs\<lparr>r_eax := 0x10, r_ebx := physical_address, r_edx := pde_table\<rparr>) r_ebx"

definition sys_free_page :: "'a syscall \<Rightarrow> registers \<Rightarrow> u32 \<Rightarrow> ptr \<Rightarrow> 'a \<Rightarrow> ('a \<times> u32) option" where
  "sys_free_page call regs virtual_address pde_table =
     int_0x40 call (regs\<lparr>r_eax := 0x11, r_ebx := virtual_address, r_edx := pde_table\<rparr>) (\<lambda>_. 0)"

definition sys_create_new_table :: "'a syscall \<Rightarrow> registers \<Rightarrow> 'a \<Rightarrow> ('a \<times> ptr) option" where
  "sys_create_new_table call regs = int_0x40 call (regs\<lparr>r_eax := 0x12\<rparr>) r_ebx"

definition sys_get_current_process :: "'a syscall \<Rightarrow> registers \<Rightarrow> 'a \<Rightarrow> ('a \<times> ptr) option" where
  "sys_get_current_process call regs = int_0x40 call (regs\<lparr>r_eax := 0x20\<rparr>) r_ebx"

text \<open>\<open>arg\<close> is the place of the structure \<open>process_init_data\<close>.\<close>

definition put_words :: "bmem \<Rightarrow> ptr \<Rightarrow> u32 list \<Rightarrow> bmem" where
  "put_words m p ws = put_bytes m p (concat (map le32 ws))"

definition sys_create_process ::
  "'a heap_state_scheme syscall \<Rightarrow> registers \<Rightarrow> ptr \<Rightarrow> ptr \<Rightarrow> u8 \<Rightarrow> u32 list \<Rightarrow> 'a heap_state_scheme \<Rightarrow>
   ('a heap_state_scheme \<times> ptr) option" where
  "sys_create_process call regs arg name initial_state words s =
     int_0x40 call (regs\<lparr>r_eax := 0x21, r_ebx := arg\<rparr>) r_ebx
       (s\<lparr>mem := put_words ((mem s)(arg := initial_state)) (arg + 4) (name # words)\<rparr>)"

section \<open>The console of the C library\<close>

text \<open>\<open>sys_set_cursor\<close> passes the position itself where the terminal expects its address; \<open>cmd\<close> is the
  place of \<open>command\<close>.\<close>

definition sys_print :: "'a syscall \<Rightarrow> registers \<Rightarrow> ptr \<Rightarrow> ptr \<Rightarrow> u32 \<Rightarrow> 'a \<Rightarrow> 'a option" where
  "sys_print call regs estros_stdout str len s = map_option fst (write_file call regs estros_stdout str len s)"

definition sys_read :: "'a syscall \<Rightarrow> registers \<Rightarrow> ptr \<Rightarrow> ptr \<Rightarrow> u32 \<Rightarrow> 'a \<Rightarrow> ('a \<times> u32) option" where
  "sys_read call regs estros_stdin buffer len s = read_file call regs estros_stdin buffer len s"

definition sys_clear ::
  "'a heap_state_scheme syscall \<Rightarrow> registers \<Rightarrow> ptr \<Rightarrow> ptr \<Rightarrow> 'a heap_state_scheme \<Rightarrow> 'a heap_state_scheme option" where
  "sys_clear call regs estros_stdout cmd s =
     map_option fst (ioctl call regs estros_stdout cmd (r_edx regs) (s\<lparr>mem := store32 (mem s) cmd 0\<rparr>))"

definition sys_set_cursor ::
  "'a heap_state_scheme syscall \<Rightarrow> registers \<Rightarrow> ptr \<Rightarrow> ptr \<Rightarrow> u16 \<Rightarrow> u16 \<Rightarrow> 'a heap_state_scheme \<Rightarrow> 'a heap_state_scheme option" where
  "sys_set_cursor call regs estros_stdout cmd x y s =
     map_option fst (ioctl call regs estros_stdout cmd (push_bit 16 (ucast x) OR ucast y)
       (s\<lparr>mem := store32 (mem s) cmd 3\<rparr>))"

section \<open>Launching a program\<close>

definition estros_virt_to_phys :: "bmem \<Rightarrow> u32 \<Rightarrow> ptr \<Rightarrow> u32" where
  "estros_virt_to_phys m virtual_address table =
     (let physical_index = virtual_address AND 0xFFF;
          pte_index = drop_bit 12 virtual_address AND 0x3FF;
          pde_index = drop_bit 22 virtual_address AND 0x3FF
      in if \<not> present (entry_at m table pde_index) then PAGER_ERROR
         else
           let sub_table = entry_address (entry_at m table pde_index)
           in if \<not> present (entry_at m sub_table pte_index) then PAGER_ERROR
              else entry_address (entry_at m sub_table pte_index) + physical_index)"

text \<open>The pages, up to the first that cannot be had.\<close>

fun request_pages :: "'a syscall \<Rightarrow> registers \<Rightarrow> nat \<Rightarrow> 'a \<Rightarrow> ('a \<times> ptr list) option" where
  "request_pages call regs 0 s = Some (s, [])"
| "request_pages call regs (Suc n) s = do {
     (s1, p) \<leftarrow> sys_new_page call regs PAGER_ERROR PAGER_ERROR s;
     if p = PAGER_ERROR then Some (s1, [])
     else do { (s2, ps) \<leftarrow> request_pages call regs n s1; Some (s2, p # ps) } }"

definition each :: "('b \<Rightarrow> 'a \<Rightarrow> 'a option) \<Rightarrow> 'b list \<Rightarrow> 'a \<Rightarrow> 'a option" where
  "each f xs s = fold (\<lambda>x r. Option.bind r (f x)) xs (Some s)"

text \<open>The loop over the last 63 characters of the path: it does not stop at the slash it finds, and it
  goes on before the start of a shorter path.\<close>

definition name_offset :: "bmem \<Rightarrow> ptr \<Rightarrow> u32 \<Rightarrow> u32" where
  "name_offset m p len =
     fold (\<lambda>i r. if m (p + (len - 1 - of_nat i)) = of_char CHR ''/'' then len - of_nat i else r) [0..<63] 63"

text \<open>The mapping of the pages in the new table, with the stack page; the results are the addresses of
  the stack in the two tables. The table of the current process is read at each page.\<close>

definition current_table :: "'a kernel_state_scheme syscall \<Rightarrow> registers \<Rightarrow> 'a kernel_state_scheme \<Rightarrow>
   ('a kernel_state_scheme \<times> ptr) option" where
  "current_table call regs s = do {
     (s1, p) \<leftarrow> sys_get_current_process call regs s;
     Some (s1, p_page_table (proc s1 p)) }"

definition map_page ::
  "'a kernel_state_scheme syscall \<Rightarrow> registers \<Rightarrow> ptr \<Rightarrow> ptr \<Rightarrow> 'a kernel_state_scheme \<Rightarrow>
   ('a kernel_state_scheme \<times> ptr) option" where
  "map_page call regs new_table page s = do {
     (s1, table) \<leftarrow> current_table call regs s;
     sys_new_page call regs (estros_virt_to_phys (mem s1) page table) new_table s1 }"

record launch_frame =
  lf_pages :: ptr
  lf_entry :: ptr
  lf_name :: ptr
  lf_init_data :: ptr

text \<open>\<open>number_of_pages\<close> is the constant 0x1000, whatever the size of the file. When pages are missing the
  address of the array is freed once for each page.\<close>

definition launch_file ::
  "'a kernel_state_scheme syscall \<Rightarrow> registers \<Rightarrow> launch_frame \<Rightarrow> ptr \<Rightarrow> ptr \<Rightarrow> ptr \<Rightarrow> ptr \<Rightarrow> 'a kernel_state_scheme \<Rightarrow>
   ('a kernel_state_scheme \<times> ptr) option" where
  "launch_file call regs fr p out inp err s = do {
     (s1, exe) \<leftarrow> open_file call regs p 1 s;
     if exe = NULL then Some (s1, NULL) else do {
     (s2, pages) \<leftarrow> request_pages call regs 0x1000 s1;
     if length pages < 0x1000 then do {
       s3 \<leftarrow> each (\<lambda>_ s. map_option fst (sys_free_page call regs (lf_pages fr) PAGER_ERROR s)) pages s2;
       (s4, _) \<leftarrow> close_file call regs exe s3;
       Some (s4, NULL) } else do {
     (s3, table) \<leftarrow> sys_create_new_table call regs s2;
     if table = PAGER_ERROR then do {
       s4 \<leftarrow> each (\<lambda>a s. map_option fst (sys_free_page call regs a PAGER_ERROR s)) pages s3;
       (s5, _) \<leftarrow> close_file call regs exe s4;
       Some (s5, NULL) } else do {
     s4 \<leftarrow> each (\<lambda>a s. map_option fst (map_page call regs table a s)) pages s3;
     (s5, stack_current) \<leftarrow> sys_new_page call regs PAGER_ERROR PAGER_ERROR s4;
     (s6, stack_apps) \<leftarrow> map_page call regs table stack_current s5;
     (s7, _) \<leftarrow> read_file call regs exe (lf_entry fr) 4 (s6\<lparr>mem := store32 (mem s6) (lf_entry fr) (- 1)\<rparr>);
     s8 \<leftarrow> each (\<lambda>a s. map_option fst (read_file call regs exe a PAGE_SIZE s)) pages s7;
     len \<leftarrow> strlen (mem s8) p;
     let start = p + name_offset (mem s8) p len;
     n \<leftarrow> strlen (mem s8) start;
     let s9 = s8\<lparr>mem := fst (memcpy (mem s8) (lf_name fr) start n)\<rparr>;
     sys_create_process call regs (lf_init_data fr) (lf_name fr) PROCESS_RUNNING
       [load32 (mem s9) (lf_entry fr), stack_current + PAGE_SIZE - 16, stack_apps + PAGE_SIZE - 16, table, out, inp, err] s9 } } } }"

section \<open>Facts\<close>

lemma estros_virt_to_phys_kernel: "estros_virt_to_phys = virt_to_phys"
  by (simp add: estros_virt_to_phys_def virt_to_phys_def Let_def fun_eq_iff)

text \<open>The name of "/apps/a" starts after the first slash, not after the last.\<close>

lemma name_offset_first_slash:
  "name_offset (\<lambda>a. if a < 0x100 then 0 else if a < 0x107 then of_char (''/apps/a'' ! unat (a - 0x100)) else 0) 0x100 7 = 1"
  by (simp add: name_offset_def upt_rec)

end
