(* ===== verification/Apps.thy ===== *)
theory Apps
  imports Estros Format LibStd
begin

text \<open>
  The small programs on the libraries: the key codes of \<open>lib/estros/include/estros/keyboard.h\<close>, the entry
  point of every program in \<open>lib/goblibc/src/app.c\<close>, and the programs \<open>apps/new_test\<close> (a shell),
  \<open>apps/imagedisplay\<close> and \<open>apps/test_helper\<close>. \<open>call\<close> is the system call, \<open>lit\<close> the address of a string
  literal; the addresses of local arrays are parameters. Loops that end with the program only are one
  round of them.
\<close>

section \<open>Key codes\<close>

text \<open>A table of 256 bytes with designated initialisers: runs of entries from an index on.\<close>

definition designated :: "(nat \<times> u8 list) list \<Rightarrow> u8 list" where
  "designated runs = fold (\<lambda>(i, cs) t. take i t @ cs @ drop (i + length cs) t) runs (replicate 256 0)"

definition lib_ascii_table :: "u8 list" where
  "lib_ascii_table = designated [(0x02, map of_char ''1234567890-=''), (0x0E, [8]), (0x0F, [9]), (0x10, map of_char ''qwertyuiop[]''),
     (0x1C, [10]), (0x1E, map of_char ''asdfghjkl;''), (0x28, [39]), (0x29, [96]), (0x2C, map of_char ''zxcvbnm,./''), (0x39, [32])]"

definition lib_shifted_ascii_table :: "u8 list" where
  "lib_shifted_ascii_table = designated [(0x02, map of_char ''!@#$%^&*()_+''), (0x0E, [8]), (0x0F, [9]), (0x10, map of_char ''QWERTYUIOP{}''),
     (0x1C, [10]), (0x1E, map of_char ''ASDFGHJKL:''), (0x28, [34]), (0x29, [126]), (0x2C, map of_char ''ZXCVBNM<>?''), (0x39, [32])]"

definition lib_keycode_to_ascii :: "u8 \<Rightarrow> u8 \<Rightarrow> u8" where
  "lib_keycode_to_ascii kc is_shifted =
     (if is_shifted \<noteq> 0 then lib_shifted_ascii_table ! unat kc else lib_ascii_table ! unat kc)"

definition lib_scancode_to_keycode :: "u8 \<Rightarrow> u8" where
  "lib_scancode_to_keycode sc = sc AND 0x7F"

text \<open>The event is at \<open>ev\<close>: the scan code in two bytes and the type. The function takes the low byte.\<close>

partial_function (option) lib_wait_for_keypress ::
  "'a heap_state_scheme syscall \<Rightarrow> registers \<Rightarrow> ptr \<Rightarrow> ptr \<Rightarrow> 'a heap_state_scheme \<Rightarrow> ('a heap_state_scheme \<times> u8) option" where
  "lib_wait_for_keypress call regs keyboard_file ev s =
     (case read_file call regs keyboard_file ev 3 s of None \<Rightarrow> None
      | Some (s1, r) \<Rightarrow>
          if r = 0 \<or> mem s1 (ev + 2) \<noteq> KEY_PRESSED then lib_wait_for_keypress call regs keyboard_file ev s1
          else Some (s1, lib_scancode_to_keycode (mem s1 ev)))"

section \<open>The entry point\<close>

text \<open>The variables of the C library in the program: the three files and the heap, which is not the kernel's.\<close>

record app_globals =
  estros_stdin :: ptr
  estros_stdout :: ptr
  estros_stderr :: ptr
  app_heap :: ptr
  app_heap_size :: u32
  app_first_entry :: ptr

definition app_init_heap :: "ptr \<Rightarrow> u32 \<Rightarrow> app_globals \<Rightarrow> 'a heap_state_scheme \<Rightarrow> app_globals \<times> 'a heap_state_scheme" where
  "app_init_heap buffer n g s =
     (let h = init_heap (\<lparr>heap = app_heap g, heap_size = app_heap_size g, first_entry = app_first_entry g, mem = mem s\<rparr> :: heap_state) buffer n
      in (g\<lparr>app_heap := heap h, app_heap_size := heap_size h, app_first_entry := first_entry h\<rparr>, s\<lparr>mem := mem h\<rparr>))"

definition app_main ::
  "'a kernel_state_scheme syscall \<Rightarrow> registers \<Rightarrow> (app_globals \<Rightarrow> 'a kernel_state_scheme \<Rightarrow> 'a kernel_state_scheme option) \<Rightarrow>
   app_globals \<Rightarrow> 'a kernel_state_scheme \<Rightarrow> 'a kernel_state_scheme option" where
  "app_main call regs main g s = do {
     (s1, p) \<leftarrow> sys_get_current_process call regs s;
     let (g1, s2) = app_init_heap 0x500000 0x100000
       (g\<lparr>estros_stdin := p_stdin (proc s1 p), estros_stdout := p_stdout (proc s1 p), estros_stderr := p_stderr (proc s1 p)\<rparr>) s1;
     s3 \<leftarrow> main g1 s2;
     map_option fst (int_0x40 call (regs\<lparr>r_eax := 0x22, r_ebx := 0\<rparr>) r_eax s3)
   }"

section \<open>The shell\<close>

record shell_frame =
  sh_path :: ptr
  sh_input :: ptr
  sh_full_path :: ptr
  sh_launch :: launch_frame

partial_function (option) shell_drain ::
  "'a kernel_state_scheme syscall \<Rightarrow> registers \<Rightarrow> shell_frame \<Rightarrow> ptr \<Rightarrow> 'a kernel_state_scheme \<Rightarrow> 'a kernel_state_scheme option" where
  "shell_drain call regs fr p s =
     (case read_file call regs (p_stdin (proc s p)) (sh_input fr + 63) 1 s of None \<Rightarrow> None
      | Some (s1, r) \<Rightarrow> if r \<noteq> 0 then shell_drain call regs fr p s1 else Some s1)"

text \<open>The process polls the state of its child; \<open>other\<close> is what the machine does between two polls.\<close>

partial_function (option) wait_child ::
  "('a kernel_state_scheme \<Rightarrow> 'a kernel_state_scheme) \<Rightarrow> ptr \<Rightarrow> 'a kernel_state_scheme \<Rightarrow> 'a kernel_state_scheme option" where
  "wait_child other child s =
     (if child \<noteq> NULL \<and> p_state (proc s child) \<noteq> PROCESS_TERMINATED then wait_child other child (other s) else Some s)"

definition shell_init :: "shell_frame \<Rightarrow> 'a heap_state_scheme \<Rightarrow> 'a heap_state_scheme" where
  "shell_init fr s = s\<lparr>mem := put_bytes (mem s) (sh_path fr) (map of_char ''/apps/'' @ [0])\<rparr>"

definition join_app_path :: "shell_frame \<Rightarrow> bmem \<Rightarrow> bmem option" where
  "join_app_path fr m = do {
     n \<leftarrow> strlen_lib (view_at m (sh_path fr));
     k \<leftarrow> strlen_lib (view_at m (sh_input fr));
     let m1 = fst (memcpy_lib m (sh_full_path fr) (sh_path fr) (of_nat n));
     let m2 = fst (memcpy_lib m1 (sh_full_path fr + of_nat n) (sh_input fr) (of_nat k));
     Some (m2(sh_full_path fr + of_nat n + of_nat k := 0))
   }"

definition shell_round ::
  "'a kernel_state_scheme syscall \<Rightarrow> registers \<Rightarrow> (string \<Rightarrow> ptr) \<Rightarrow> ('a kernel_state_scheme \<Rightarrow> 'a kernel_state_scheme) \<Rightarrow>
   shell_frame \<Rightarrow> ptr \<Rightarrow> 'a kernel_state_scheme \<Rightarrow> 'a kernel_state_scheme option" where
  "shell_round call regs lit other fr p s = do {
     (s1, _) \<leftarrow> write_file call regs (p_stdout (proc s p)) (lit ''>'') 1 s;
     (s2, _) \<leftarrow> read_file call regs (p_stdin (proc s1 p)) (sh_input fr) 62 (s1\<lparr>mem := put_bytes (mem s1) (sh_input fr) (replicate 64 0)\<rparr>);
     s3 \<leftarrow> shell_drain call regs fr p s2;
     m \<leftarrow> join_app_path fr (mem s3);
     (s4, tty) \<leftarrow> open_file call regs (lit ''/dev/tty'') 1 (s3\<lparr>mem := m\<rparr>);
     (s5, child) \<leftarrow> launch_file call regs (sh_launch fr) (sh_full_path fr) tty tty tty s4;
     wait_child other child s5
   }"

section \<open>The image viewer\<close>

record image_frame =
  im_buffer :: ptr
  im_filename :: ptr
  im_input :: ptr
  im_command :: ptr

text \<open>\<open>getline\<close> reads to its own array of 10 bytes, as many as the caller asked for, and never writes to the caller's string.\<close>

partial_function (option) getline_rest :: "'a syscall \<Rightarrow> registers \<Rightarrow> ptr \<Rightarrow> ptr \<Rightarrow> u32 \<Rightarrow> 'a \<Rightarrow> 'a option" where
  "getline_rest call regs stdin buffer r s =
     (if r > 0 then (case sys_read call regs stdin buffer 10 s of None \<Rightarrow> None | Some (s1, r1) \<Rightarrow> getline_rest call regs stdin buffer r1 s1)
      else Some s)"

definition getline :: "'a syscall \<Rightarrow> registers \<Rightarrow> ptr \<Rightarrow> ptr \<Rightarrow> ptr \<Rightarrow> u32 \<Rightarrow> 'a \<Rightarrow> 'a option" where
  "getline call regs stdin buffer str max_len s = do {
     (s1, r) \<leftarrow> sys_read call regs stdin buffer max_len s;
     if r \<le> 0 then Some s1 else getline_rest call regs stdin buffer r s1
   }"

partial_function (option) ask_exit ::
  "'a heap_state_scheme syscall \<Rightarrow> registers \<Rightarrow> (string \<Rightarrow> ptr) \<Rightarrow> app_globals \<Rightarrow> image_frame \<Rightarrow> 'a heap_state_scheme \<Rightarrow>
   ('a heap_state_scheme \<times> bool) option" where
  "ask_exit call regs lit g fr s =
     (case sys_print call regs (estros_stdout g) (lit ''Exit? (y/n)\<newline>'') 13 s of None \<Rightarrow> None
      | Some s1 \<Rightarrow>
     (case getline call regs (estros_stdin g) (im_buffer fr) (im_input fr) 10 s1 of None \<Rightarrow> None
      | Some s2 \<Rightarrow>
     (case strcmp_lib (view_at (mem s2) (im_input fr)) (view_at (mem s2) (lit ''y'')) of None \<Rightarrow> None
      | Some y \<Rightarrow>
     (case strcmp_lib (view_at (mem s2) (im_input fr)) (view_at (mem s2) (lit ''n'')) of None \<Rightarrow> None
      | Some n \<Rightarrow> if y \<noteq> 0 \<and> n \<noteq> 0 then ask_exit call regs lit g fr s2 else Some (s2, y = 0)))))"

text \<open>\<open>main\<close> returns as soon as a file could be opened; what follows the \<open>return\<close> is never reached.\<close>

partial_function (option) imagedisplay_loop ::
  "'a heap_state_scheme syscall \<Rightarrow> registers \<Rightarrow> (string \<Rightarrow> ptr) \<Rightarrow> app_globals \<Rightarrow> image_frame \<Rightarrow> 'a heap_state_scheme \<Rightarrow>
   'a heap_state_scheme option" where
  "imagedisplay_loop call regs lit g fr s =
     (case sys_clear call regs (estros_stdout g) (im_command fr) s of None \<Rightarrow> None
      | Some s1 \<Rightarrow>
     (case sys_print call regs (estros_stdout g) (lit ''Enter filename: \<newline>'') 18 s1 of None \<Rightarrow> None
      | Some s2 \<Rightarrow>
     (case getline call regs (estros_stdin g) (im_buffer fr) (im_filename fr) 255 s2 of None \<Rightarrow> None
      | Some s3 \<Rightarrow>
     (case open_file call regs (im_filename fr) 1 s3 of None \<Rightarrow> None
      | Some (s4, opened) \<Rightarrow>
          if opened \<noteq> NULL then Some s4
          else
            (case sys_print call regs (estros_stdout g) (lit ''File not found!\<newline>'') 17 s4 of None \<Rightarrow> None
             | Some s5 \<Rightarrow>
            (case ask_exit call regs lit g fr s5 of None \<Rightarrow> None
             | Some (s6, exit) \<Rightarrow> if exit then Some s6 else imagedisplay_loop call regs lit g fr s6))))))"

definition imagedisplay_main ::
  "'a heap_state_scheme syscall \<Rightarrow> registers \<Rightarrow> (string \<Rightarrow> ptr) \<Rightarrow> app_globals \<Rightarrow> image_frame \<Rightarrow> 'a heap_state_scheme \<Rightarrow>
   'a heap_state_scheme option" where
  "imagedisplay_main call regs lit g fr s = do {
     (s1, _) \<leftarrow> open_file call regs (lit ''/dev/kdb'') 1 s;
     imagedisplay_loop call regs lit g fr s1
   }"

section \<open>Key codes on the screen\<close>

definition test_helper_round ::
  "'a heap_state_scheme syscall \<Rightarrow> registers \<Rightarrow> float_printer \<Rightarrow> fmt_state \<Rightarrow> app_globals \<Rightarrow> ptr \<Rightarrow> ptr \<Rightarrow> ptr \<Rightarrow> 'a heap_state_scheme \<Rightarrow>
   'a heap_state_scheme option" where
  "test_helper_round call regs ff local g keyboard_file ev buffer s = do {
     (s1, keycode) \<leftarrow> lib_wait_for_keypress call regs keyboard_file ev (s\<lparr>mem := put_bytes (mem s) ev [0, 0, 0]\<rparr>);
     (f, _) \<leftarrow> gob_sprintf ff buffer (map of_char ''%x '') [ucast keycode] (local\<lparr>g_mem := mem s1\<rparr>);
     sys_print call regs (estros_stdout g) buffer 2 (s1\<lparr>mem := g_mem f\<rparr>)
   }"

section \<open>Facts\<close>

text \<open>The programs and the kernel agree on the keys.\<close>

lemma lib_tables: "lib_ascii_table = ascii_table" "lib_shifted_ascii_table = shifted_ascii_table"
  by code_simp+

lemma lib_keycode_to_ascii_kernel: "lib_keycode_to_ascii = keycode_to_ascii" "lib_scancode_to_keycode = scancode_to_keycode"
  by (simp_all add: fun_eq_iff lib_keycode_to_ascii_def keycode_to_ascii_def lib_tables lib_scancode_to_keycode_def scancode_to_keycode_def)

end
