(* ===== verification/Spec2Isabelle.thy ===== *)
theory Spec2Isabelle
  imports Prelude Memutils Memory Heap Files Keyboard Input TTY HDD Pager Hashmap Numerals LibString GobFile Format Render Scan ScanInts LibStd Arith64 LongDouble LongDoubleExact FMath FMathExact FloatScan FloatFormat FloatDigits FloatPrint FloatRead Wchar Brainfuck Calc CalcUI CalcScreen EstrosFS PackTool PackedFiles VFS Process Scheduler Print Boot Estros Apps
begin

text \<open>
  EstrOS: a 32-bit x86 kernel (\<open>kernel/\<close>), its libraries (\<open>lib/goblibc\<close>, \<open>lib/estros\<close>), its programs (\<open>apps/\<close>) and the
  tool that builds the disk image (\<open>tools/\<close>). This theory only collects the development.

  \<^bold>\<open>How the program works.\<close> The boot sector loads the kernel, whose \<open>kernel_entry\<close> sets up the heap, the page tables, the devices, the
  file system, the interrupt table and the processes, and starts the first program. The timer interrupt is the
  scheduler; programs enter the kernel through interrupt 0x40, where \<open>syscall_c\<close> dispatches on the register eax to the
  virtual file system, the pager and the process list. The virtual file system finds an index node by its path in
  a hash map or in the mounted drivers, and calls the driver through the node: the keyboard, the terminal,
  the disk or the EstrOS file system on the disk. All objects of the kernel live on one heap.

  \<^bold>\<open>Representation.\<close> Machine integers are words of their width and wrap (\<open>u8\<close> to \<open>u64\<close>, theory Prelude); an \<open>int\<close> of C
  that stays small is an integer. Memory is a function from 32-bit addresses to bytes (\<open>bmem\<close>), with structs in
  their layout where the code depends on it: block headers of the heap, page tables, hash table slots, directory entries, text buffers. Structs that are
  only reached through typed pointers (open files, index nodes, ring buffers, processes, free lists,
  elements of the calculator's screen) are records in stores keyed by the address that \<open>malloc\<close> gave
  them. State is passed explicitly, in records that extend one another in the order of the theories: the heap's state, the
  files, the keyboard, the terminal, the ports, the pager, the file system, the virtual file system, the processes, the kernel, the boot. A result
  \<open>None\<close> is undefined behaviour of C or a loop that does not end; error results of the code are its own values (NULL, error codes, sums).
  Loops over a range are \<open>fold\<close> or recursion on a number; loops that may not end are \<open>partial_function (option)\<close>, and the
  theorems about them state that they return.

  \<^bold>\<open>The kernel.\<close>
  \<^item> Prelude, Memory: words, byte memory, 32-bit fields, regions and framing. Numerals: the textbook numerals.
  \<^item> Memutils: \<open>memutils.c\<close>.
  \<^item> Heap: \<open>heap.c\<close>. The lemmas establish the linked list of blocks (\<open>heap_ok\<close>), that \<open>malloc\<close> is first fit on it and \<open>free\<close> merges with the
    neighbours, and through the locale \<open>block_allocator\<close> what a sequence of calls keeps; two theorems are concrete faults.
  \<^item> Files: the objects of \<open>virtual-filesystem.h\<close>. Keyboard, Input, TTY, HDD: \<open>keyboard.c\<close>, \<open>input.c\<close>, \<open>tty.c\<close>, and \<open>inboutb.c\<close>, \<open>ata.c\<close>, \<open>hdd.c\<close>. The ring of a
    keyboard file implements a queue; the line editor implements editing on a list; the terminal never
    writes outside the screen; reading the disk returns the sectors of any device that follows the PIO protocol (\<open>reads_sectors\<close>, the
    only thing assumed of the device, shown to hold for a simulated drive).
  \<^item> Pager: \<open>pager.c\<close>, two-level page tables; a new page is mapped where it says, and booting maps the first
    megabytes to themselves.
  \<^item> Hashmap: \<open>hashmap/hashmap.h\<close>; the table implements a map (locale \<open>dictionary\<close>).
  \<^item> EstrosFS: \<open>estros-fs.c\<close>, with all levels of pointer blocks; loading blocks, inodes in their sectors, seeking.
  \<^item> VFS: \<open>virtual-filesystem.c\<close>; every call of an open file reaches the driver of its node.
  \<^item> Process, Scheduler: \<open>process.c\<close>, \<open>irq_handlers.c\<close>, \<open>system_calls.c\<close>; the ring of processes, and round robin (locale \<open>round_robin\<close>):
    every running process is scheduled within one round.
  \<^item> Print, Boot: \<open>print.c\<close>, \<open>main.c\<close>, \<open>idt.c\<close>, \<open>exit.c\<close>, \<open>trace.c\<close>, \<open>error_handlers.c\<close>, which compose the others.

  \<^bold>\<open>The libraries and programs.\<close>
  \<^item> LibString, LibStd, Arith64, Wchar: \<open>string.c\<close>, \<open>ctype.c\<close>, \<open>stdlib.c\<close>, \<open>arith64.c\<close>, \<open>wchar.c\<close>, \<open>mkinternal.c\<close>. Shift-and-subtract division is division;
    \<open>atoi\<close> reads what \<open>itoa\<close> prints.
  \<^item> GobFile, Format, Scan: \<open>file_scan_helpers.c\<close>, \<open>format.c\<close> with \<open>strerror.c\<close>, \<open>scanf.c\<close> with \<open>intscan.c\<close>. Render and ScanInts hold what
    \<open>gob_sprintf\<close> prints and what \<open>gob_sscanf\<close> reads.
  \<^item> LongDouble: the arithmetic of the x87 on 80-bit numbers, with its rounding, which the C library relies on; LongDoubleExact: when its
    results are the real ones. FMath: \<open>fmath.c\<close>;
    FMathExact: \<open>fmod\<close> is the exact remainder. FloatScan: \<open>floatscan.c\<close> and \<open>atof.c\<close>. FloatFormat: \<open>gob_format_float\<close> of \<open>format.c\<close>. The last two
    instantiate the parameters \<open>float_scanner\<close> and \<open>float_printer\<close> of Scan and Format. FloatDigits, FloatPrint, FloatRead: how
    integers are printed by \<open>%f\<close>, and that \<open>strtold\<close> reads them back.
  \<^item> Brainfuck: \<open>apps/brainfuck\<close>; the interpreter implements the big-step semantics \<open>bf_exec\<close> of the language.
  \<^item> Calc, CalcUI, CalcScreen: \<open>apps/calc\<close>; the stack machine computes the value of the expression, and what
    typing, TAB and Enter do to the screen.
  \<^item> Estros, Apps: the wrappers of the system calls, \<open>launch_file\<close>, the key codes, \<open>app.c\<close> and the programs \<open>new_test\<close>, \<open>imagedisplay\<close>, \<open>test_helper\<close>.
  \<^item> PackTool, PackedFiles: \<open>tools/EstrOSFS.cpp\<close>, and what the kernel reads from the images it packs.

  \<^bold>\<open>Parameters.\<close> \<open>dev\<close>: the value a device returns on a port, a function of the history of port accesses; the same history is
  the observable output. \<open>stk\<close>, \<open>lit\<close> and frames: the addresses of local arrays and literals. \<open>before\<close>, junk: the
  contents of uninitialised arrays. \<open>cpu\<close>: segment and flag registers. How floating point numbers are printed and scanned is a parameter of Format and Scan
  (\<open>float_printer\<close>, \<open>float_scanner\<close>), which FloatFormat and FloatScan provide; the arithmetic of the calculator's numbers is one of Calc.

  \<^bold>\<open>Fuel and bounds.\<close> Fuel occurs only where the code has a bound: a table of the pager has 1024 entries, a probe of the hash
  map 8 slots, a pointer block 256 entries, the wait for the disk a million polls; the fuel is this bound. Theorems that
  need an address not to wrap around say so in their hypotheses.

  \<^bold>\<open>Not modelled.\<close> \<open>vprintf.c\<close> is an old copy of \<open>format.c\<close> that is not compiled, as are the SSE and ARM
  variants of the CRC. The boot sector, the entry code of interrupts and two programs are assembly. Interrupts that arrive
  while the kernel runs are not modelled, except as the steps of the scheduler.
\<close>

end
